(* ===== verification/Ipc_Prelude.thy ===== *)
theory Ipc_Prelude
  imports Main "HOL-Library.Word" "HOL-Library.Monad_Syntax"
begin

unbundle bit_operations_syntax

text \<open>
  The prelude of the development: the machine types of \<open>mach_kernel/mach\<close> and
  \<open>mach_kernel/ipc\<close>, the return codes, and the lemmas about words, strictly sorted
  lists and list updates that the component theories share.

  \<^item> \<open>natural_t\<close>, \<open>mach_port_t\<close> and the addresses of kernel objects are 32-bit words;
    \<open>+\<close> and \<open>-\<close> wrap around as in C.
  \<^item> Array indices (\<open>mach_port_index_t\<close>, \<open>ipc_table_index_t\<close>) are natural numbers; a table is a
    list and an index into it is below its length, which is below \<open>2 ^ 24\<close>.
\<close>

section \<open>Machine types\<close>

type_synonym natural_t = "32 word"
type_synonym mach_port_t = "32 word"
type_synonym ipc_entry_bits_t = "32 word"
type_synonym ipc_object_t = "32 word" \<comment> \<open>the address of a port or a port set\<close>
type_synonym ipc_port_t = "32 word"
type_synonym ipc_space_t = "32 word"
type_synonym mach_port_delta_t = "32 word" \<comment> \<open>read as a signed integer\<close>

datatype kern_return_t =
    KERN_SUCCESS
  | KERN_NO_SPACE
  | KERN_INVALID_ARGUMENT
  | KERN_FAILURE
  | KERN_RESOURCE_SHORTAGE
  | KERN_NOT_IN_SET
  | KERN_NAME_EXISTS
  | KERN_INVALID_NAME
  | KERN_INVALID_TASK
  | KERN_INVALID_RIGHT
  | KERN_INVALID_VALUE
  | KERN_UREFS_OVERFLOW
  | KERN_INVALID_CAPABILITY
  | KERN_RIGHT_EXISTS
  | KERN_INVALID_ADDRESS
  | KERN_PROTECTION_FAILURE
  | KERN_ABORTED
  | KERN_TERMINATED
  | KERN_NOT_WAITING
  | KERN_OPERATION_TIMED_OUT

definition IO_NULL :: ipc_object_t where
  "IO_NULL = 0"

definition IO_DEAD :: ipc_object_t where
  "IO_DEAD = - 1"

definition IO_VALID :: "ipc_object_t \<Rightarrow> bool" where
  "IO_VALID obj \<longleftrightarrow> obj \<noteq> IO_NULL \<and> obj \<noteq> IO_DEAD"

abbreviation IP_NULL :: ipc_port_t where
  "IP_NULL \<equiv> IO_NULL"

abbreviation IP_DEAD :: ipc_port_t where
  "IP_DEAD \<equiv> IO_DEAD"

section \<open>Shared collections of facts\<close>

named_theorems ipc_bits \<open>the fields of the entry bits and of port names\<close>
named_theorems ipc_defs \<open>constants of the headers\<close>

declare IO_NULL_def [ipc_defs] IO_DEAD_def [ipc_defs] IO_VALID_def [ipc_defs]

section \<open>Words\<close>

lemma unat_drop_bit_div: "unat (drop_bit n (w :: 'a :: len word)) = unat w div 2 ^ n"
  unfolding unat_drop_bit_eq by (simp add: drop_bit_eq_div)

lemma unat_take_bit_mod: "unat (take_bit n (w :: 'a :: len word)) = unat w mod 2 ^ n"
  by (metis take_bit_eq_mod unsigned_take_bit_eq)

lemma unat_push_bit_mult:
  "unat (push_bit n (w :: 'a :: len word)) = (unat w * 2 ^ n) mod 2 ^ LENGTH('a)"
  unfolding unsigned_push_bit_eq by (simp add: push_bit_eq_mult take_bit_eq_mod)

lemma unat_or_disjoint:
  assumes "(a :: 'a :: len word) AND b = 0"
  shows "unat (a OR b) = unat a + unat b"
proof -
  from assms have "unat a AND unat b = 0"
    by (metis unsigned_0 unsigned_and_eq)
  then show ?thesis
    by (metis disjunctive_add_eq_or unsigned_or_eq)
qed

lemma unat_less_exp: "unat (w :: 'a :: len word) < 2 ^ LENGTH('a)"
  by (rule unsigned_less)

lemma unat_plus_one: "w \<noteq> - 1 \<Longrightarrow> unat (w + 1) = Suc (unat (w :: 'a :: len word))"
  by (metis add.commute add_cancel_right_right eq_neg_iff_add_eq_0 unatSuc word_not_simps(1))

section \<open>Strictly ascending lists\<close>

abbreviation ascending :: "'a :: linorder list \<Rightarrow> bool" where
  "ascending \<equiv> sorted_wrt (<)"

lemma ascending_append_iff:
  "ascending (xs @ ys) \<longleftrightarrow>
     ascending xs \<and> ascending ys \<and> (\<forall>x \<in> set xs. \<forall>y \<in> set ys. x < y)"
  by (simp add: sorted_wrt_append)

lemma ascending_distinct: "ascending xs \<Longrightarrow> distinct xs"
  by (simp add: strict_sorted_iff)

lemma ascending_equal:
  "ascending xs \<Longrightarrow> ascending ys \<Longrightarrow> set xs = set ys \<Longrightarrow> xs = ys"
  by (simp add: strict_sorted_equal)

lemma map_of_append_left:
  "x \<notin> fst ` set ys \<Longrightarrow> map_of (xs @ ys) x = map_of xs x"
  by (induction xs) (auto simp: map_of_eq_None_iff)

lemma map_of_append_right:
  "x \<notin> fst ` set xs \<Longrightarrow> map_of (xs @ ys) x = map_of ys x"
  by (induction xs) auto

section \<open>Lists updated by index\<close>

lemma nth_list_update_if:
  "i < length xs \<Longrightarrow> xs[j := v] ! i = (if i = j then v else xs ! i)"
  by (simp add: nth_list_update)

end
