(* ===== verification/Ipc_Name.thy ===== *)
theory Ipc_Name
  imports Ipc_Prelude
begin

text \<open>
  Port names and entry bits: the macros of \<open>mach/port.h\<close>, \<open>ipc/port.h\<close> and
  \<open>ipc/ipc_entry.h\<close>. A port name holds an index (24 bits) above a generation (8 bits); the
  bits of an entry hold the generation, a collision bit, five right-type bits and sixteen bits of
  user references.
\<close>

section \<open>Port names (mach/port.h)\<close>

definition MACH_PORT_NULL :: mach_port_t where
  "MACH_PORT_NULL = 0"

definition MACH_PORT_DEAD :: mach_port_t where
  "MACH_PORT_DEAD = - 1"

definition MACH_PORT_VALID :: "mach_port_t \<Rightarrow> bool" where
  "MACH_PORT_VALID name \<longleftrightarrow> name \<noteq> MACH_PORT_NULL \<and> name \<noteq> MACH_PORT_DEAD"

definition MACH_PORT_INDEX :: "mach_port_t \<Rightarrow> nat" where
  "MACH_PORT_INDEX name = unat (drop_bit 8 name)"

definition MACH_PORT_GEN :: "mach_port_t \<Rightarrow> natural_t" where
  "MACH_PORT_GEN name = push_bit 24 (name AND 0xff)"

definition MACH_PORT_MAKE :: "nat \<Rightarrow> natural_t \<Rightarrow> mach_port_t" where
  "MACH_PORT_MAKE index gen = push_bit 8 (of_nat index) OR drop_bit 24 gen"

section \<open>Entry bits (ipc/ipc\_entry.h)\<close>

definition IE_BITS_UREFS_MASK :: natural_t where
  "IE_BITS_UREFS_MASK = 0x0000ffff"

definition IE_BITS_UREFS :: "ipc_entry_bits_t \<Rightarrow> natural_t" where
  "IE_BITS_UREFS bits = bits AND IE_BITS_UREFS_MASK"

definition IE_BITS_TYPE_MASK :: natural_t where
  "IE_BITS_TYPE_MASK = 0x001f0000"

definition IE_BITS_TYPE :: "ipc_entry_bits_t \<Rightarrow> natural_t" where
  "IE_BITS_TYPE bits = bits AND IE_BITS_TYPE_MASK"

definition IE_BITS_COLLISION :: natural_t where
  "IE_BITS_COLLISION = 0x00800000"

definition IE_BITS_GEN_MASK :: natural_t where
  "IE_BITS_GEN_MASK = 0xff000000"

definition IE_BITS_GEN :: "ipc_entry_bits_t \<Rightarrow> natural_t" where
  "IE_BITS_GEN bits = bits AND IE_BITS_GEN_MASK"

definition IE_BITS_GEN_ONE :: natural_t where
  "IE_BITS_GEN_ONE = 0x04000000"

definition IE_BITS_NEW_GEN :: "natural_t \<Rightarrow> natural_t" where
  "IE_BITS_NEW_GEN old = (old + IE_BITS_GEN_ONE) AND IE_BITS_GEN_MASK"

definition IE_BITS_RIGHT_MASK :: natural_t where
  "IE_BITS_RIGHT_MASK = 0x007fffff"

definition MACH_PORT_MAKEB :: "nat \<Rightarrow> ipc_entry_bits_t \<Rightarrow> mach_port_t" where
  "MACH_PORT_MAKEB index bits = MACH_PORT_MAKE index (IE_BITS_GEN bits)"

section \<open>Rights and types of rights\<close>

datatype mach_port_right_t =
    MACH_PORT_RIGHT_SEND
  | MACH_PORT_RIGHT_RECEIVE
  | MACH_PORT_RIGHT_SEND_ONCE
  | MACH_PORT_RIGHT_PORT_SET
  | MACH_PORT_RIGHT_DEAD_NAME

primrec mach_port_right_number :: "mach_port_right_t \<Rightarrow> nat" where
  "mach_port_right_number MACH_PORT_RIGHT_SEND = 0"
| "mach_port_right_number MACH_PORT_RIGHT_RECEIVE = 1"
| "mach_port_right_number MACH_PORT_RIGHT_SEND_ONCE = 2"
| "mach_port_right_number MACH_PORT_RIGHT_PORT_SET = 3"
| "mach_port_right_number MACH_PORT_RIGHT_DEAD_NAME = 4"

definition MACH_PORT_TYPE :: "mach_port_right_t \<Rightarrow> natural_t" where
  "MACH_PORT_TYPE right = push_bit (mach_port_right_number right + 16) 1"

definition MACH_PORT_TYPE_NONE :: natural_t where
  "MACH_PORT_TYPE_NONE = 0"

definition MACH_PORT_TYPE_SEND :: natural_t where
  "MACH_PORT_TYPE_SEND = MACH_PORT_TYPE MACH_PORT_RIGHT_SEND"

definition MACH_PORT_TYPE_RECEIVE :: natural_t where
  "MACH_PORT_TYPE_RECEIVE = MACH_PORT_TYPE MACH_PORT_RIGHT_RECEIVE"

definition MACH_PORT_TYPE_SEND_ONCE :: natural_t where
  "MACH_PORT_TYPE_SEND_ONCE = MACH_PORT_TYPE MACH_PORT_RIGHT_SEND_ONCE"

definition MACH_PORT_TYPE_PORT_SET :: natural_t where
  "MACH_PORT_TYPE_PORT_SET = MACH_PORT_TYPE MACH_PORT_RIGHT_PORT_SET"

definition MACH_PORT_TYPE_DEAD_NAME :: natural_t where
  "MACH_PORT_TYPE_DEAD_NAME = MACH_PORT_TYPE MACH_PORT_RIGHT_DEAD_NAME"

definition MACH_PORT_TYPE_SEND_RECEIVE :: natural_t where
  "MACH_PORT_TYPE_SEND_RECEIVE = MACH_PORT_TYPE_SEND OR MACH_PORT_TYPE_RECEIVE"

definition MACH_PORT_TYPE_SEND_RIGHTS :: natural_t where
  "MACH_PORT_TYPE_SEND_RIGHTS = MACH_PORT_TYPE_SEND OR MACH_PORT_TYPE_SEND_ONCE"

definition MACH_PORT_TYPE_PORT_RIGHTS :: natural_t where
  "MACH_PORT_TYPE_PORT_RIGHTS = MACH_PORT_TYPE_SEND_RIGHTS OR MACH_PORT_TYPE_RECEIVE"

definition MACH_PORT_TYPE_PORT_OR_DEAD :: natural_t where
  "MACH_PORT_TYPE_PORT_OR_DEAD = MACH_PORT_TYPE_PORT_RIGHTS OR MACH_PORT_TYPE_DEAD_NAME"

definition MACH_PORT_TYPE_DNREQUEST :: natural_t where
  "MACH_PORT_TYPE_DNREQUEST = 0x80000000"

section \<open>User references (ipc/port.h)\<close>

definition MACH_PORT_UREFS_MAX :: natural_t where
  "MACH_PORT_UREFS_MAX = 0xffff"

text \<open>
  \<open>delta\<close> is signed and \<open>urefs\<close> unsigned: the comparison with zero is signed, the sums and the
  other comparisons are unsigned 32-bit operations.
\<close>

definition MACH_PORT_UREFS_OVERFLOW :: "natural_t \<Rightarrow> mach_port_delta_t \<Rightarrow> bool" where
  "MACH_PORT_UREFS_OVERFLOW urefs delta \<longleftrightarrow>
     0 < sint delta \<and> (urefs + delta \<le> urefs \<or> urefs + delta > MACH_PORT_UREFS_MAX)"

definition MACH_PORT_UREFS_UNDERFLOW :: "natural_t \<Rightarrow> mach_port_delta_t \<Rightarrow> bool" where
  "MACH_PORT_UREFS_UNDERFLOW urefs delta \<longleftrightarrow> sint delta < 0 \<and> - delta > urefs"

lemmas port_type_defs [ipc_defs] =
  MACH_PORT_TYPE_NONE_def MACH_PORT_TYPE_SEND_def MACH_PORT_TYPE_RECEIVE_def
  MACH_PORT_TYPE_SEND_ONCE_def MACH_PORT_TYPE_PORT_SET_def MACH_PORT_TYPE_DEAD_NAME_def
  MACH_PORT_TYPE_SEND_RECEIVE_def MACH_PORT_TYPE_SEND_RIGHTS_def
  MACH_PORT_TYPE_PORT_RIGHTS_def MACH_PORT_TYPE_PORT_OR_DEAD_def MACH_PORT_TYPE_def
  MACH_PORT_TYPE_DNREQUEST_def

lemmas entry_bits_defs [ipc_defs] =
  IE_BITS_UREFS_MASK_def IE_BITS_TYPE_MASK_def IE_BITS_COLLISION_def IE_BITS_GEN_MASK_def
  IE_BITS_GEN_ONE_def IE_BITS_RIGHT_MASK_def MACH_PORT_NULL_def MACH_PORT_DEAD_def
  MACH_PORT_UREFS_MAX_def

section \<open>Port names as numbers\<close>

lemma unat_and_ff: "unat ((w :: 32 word) AND 255) = unat w mod 256"
proof -
  have "w AND 255 = take_bit 8 w" by (simp add: take_bit_eq_mask mask_eq_exp_minus_1)
  then show ?thesis by (simp add: unat_take_bit_mod)
qed

lemma MACH_PORT_INDEX_div: "MACH_PORT_INDEX name = unat name div 256"
  unfolding MACH_PORT_INDEX_def by (subst unat_drop_bit_div) simp

lemma unat_MACH_PORT_GEN: "unat (MACH_PORT_GEN name) = (unat name mod 256) * 2 ^ 24"
proof -
  have "unat name mod 256 * 2 ^ 24 < 2 ^ 32" by simp
  then show ?thesis by (simp add: MACH_PORT_GEN_def unat_push_bit_mult unat_and_ff del: push_bit_and)
qed

lemma unat_MACH_PORT_MAKE:
  assumes "index < 2 ^ 24"
  shows "unat (MACH_PORT_MAKE index gen) = index * 256 + unat gen div 2 ^ 24"
proof -
  have u: "unat (of_nat index :: 32 word) = index"
    using assms by (simp add: unsigned_of_nat take_bit_nat_eq_self)
  have p: "unat (push_bit 8 (of_nat index) :: 32 word) = index * 256"
    using assms u by (simp add: unat_push_bit_mult)
  have "push_bit 8 (of_nat index) AND drop_bit 24 gen = 0"
   by (rule bit_eqI) (auto simp: bit_simps dest: bit_imp_le_length)
  from unat_or_disjoint [OF this] p show ?thesis
    by (simp add: MACH_PORT_MAKE_def unat_drop_bit_div)
qed

lemma and_gen_mask: "bits AND 0xff000000 = push_bit 24 (drop_bit 24 (bits :: 32 word))"
proof -
  have "bits AND push_bit 24 (mask 8) = push_bit 24 (drop_bit 24 bits)"
    by (rule bit_eqI) (auto simp: bit_simps)
  then show ?thesis
    by (simp add: mask_eq_exp_minus_1)
qed

lemma unat_IE_BITS_GEN: "unat (IE_BITS_GEN bits) = unat bits div 2 ^ 24 * 2 ^ 24"
proof -
  have "unat bits div 2 ^ 24 * 2 ^ 24 \<le> unat bits"
    by (rule div_times_less_eq_dividend)
  then have "unat bits div 2 ^ 24 * 2 ^ 24 < 2 ^ 32"
    using unat_less_exp [of bits] by simp
  then show ?thesis
    by (simp only: IE_BITS_GEN_def IE_BITS_GEN_MASK_def and_gen_mask unat_push_bit_mult
        unat_drop_bit_div) simp
qed

lemma MACH_PORT_INDEX_less: "MACH_PORT_INDEX name < 2 ^ 24"
  using unat_less_exp [of name] by (simp add: MACH_PORT_INDEX_div less_mult_imp_div_less)

lemma MACH_PORT_INDEX_MAKE [simp]:
  "index < 2 ^ 24 \<Longrightarrow> MACH_PORT_INDEX (MACH_PORT_MAKE index gen) = index"
  using unat_less_exp [of gen]
  by (simp add: MACH_PORT_INDEX_div unat_MACH_PORT_MAKE less_mult_imp_div_less)

lemma MACH_PORT_GEN_MAKE [simp]:
  "index < 2 ^ 24 \<Longrightarrow> MACH_PORT_GEN (MACH_PORT_MAKE index gen) = IE_BITS_GEN gen"
proof -
  assume "index < 2 ^ 24"
  moreover have "unat gen div 2 ^ 24 < 256"
    using unat_less_exp [of gen] by (simp add: less_mult_imp_div_less)
  ultimately have "unat (MACH_PORT_GEN (MACH_PORT_MAKE index gen)) = unat (IE_BITS_GEN gen)"
    by (simp add: unat_MACH_PORT_GEN unat_MACH_PORT_MAKE unat_IE_BITS_GEN)
  then show ?thesis by (simp only: unsigned_word_eqI)
qed

lemma MACH_PORT_MAKE_INDEX_GEN [simp]:
  "MACH_PORT_MAKE (MACH_PORT_INDEX name) (MACH_PORT_GEN name) = name"
proof -
  have "unat (MACH_PORT_MAKE (MACH_PORT_INDEX name) (MACH_PORT_GEN name)) = unat name"
    using MACH_PORT_INDEX_less [of name]
    by (simp add: unat_MACH_PORT_MAKE unat_MACH_PORT_GEN) (simp add: MACH_PORT_INDEX_div)
  then show ?thesis by (simp only: unsigned_word_eqI)
qed

lemma name_eq_iff: "n1 = n2 \<longleftrightarrow> MACH_PORT_INDEX n1 = MACH_PORT_INDEX n2 \<and> MACH_PORT_GEN n1 = MACH_PORT_GEN n2"
  by (metis MACH_PORT_MAKE_INDEX_GEN)

lemma lex_256:
  "g1 < 256 \<Longrightarrow> g2 < 256 \<Longrightarrow> i1 * 256 + g1 < i2 * 256 + g2 \<longleftrightarrow> i1 < i2 \<or> i1 = i2 \<and> g1 < (g2 :: nat)"
  by (cases "i1 < i2"; cases "i1 = i2") auto

lemma name_less_iff:
  "n1 < n2 \<longleftrightarrow> MACH_PORT_INDEX n1 < MACH_PORT_INDEX n2 \<or>
     (MACH_PORT_INDEX n1 = MACH_PORT_INDEX n2 \<and> MACH_PORT_GEN n1 < MACH_PORT_GEN n2)"
  using lex_256 [of "unat n1 mod 256" "unat n2 mod 256" "unat n1 div 256" "unat n2 div 256"]
  by (simp add: word_less_nat_alt unat_MACH_PORT_GEN MACH_PORT_INDEX_div)

lemma name_less_MAKE_iff:
  "index < 2 ^ 24 \<Longrightarrow> n < MACH_PORT_MAKE index 0 \<longleftrightarrow> MACH_PORT_INDEX n < index"
  by (simp add: word_less_nat_alt unat_MACH_PORT_MAKE MACH_PORT_INDEX_div div_less_iff_less_mult)

lemma IE_BITS_GEN_idem [simp]: "IE_BITS_GEN (IE_BITS_GEN b) = IE_BITS_GEN b"
  by (simp add: IE_BITS_GEN_def and.assoc)

lemma IE_BITS_NEW_GEN_number:
  "unat (IE_BITS_NEW_GEN g) div 2 ^ 24 = (unat g div 2 ^ 24 + 4) mod 256"
proof -
  have "(unat g + 67108864) mod 4294967296 div 16777216 = (unat g + 67108864) div 16777216 mod 256"
    using div_mult2_eq mod_mult2_eq [of "unat g + 67108864" 16777216 256] by simp
  moreover have "IE_BITS_NEW_GEN g = IE_BITS_GEN (g + 67108864)"
    by (simp add: IE_BITS_NEW_GEN_def IE_BITS_GEN_def IE_BITS_GEN_ONE_def)
  moreover have "(unat g + 67108864) div 16777216 = unat g div 16777216 + 4"
    using div_mult_self1 [of 16777216 "unat g" 4] by simp
  ultimately show ?thesis
    by (simp add: unat_IE_BITS_GEN unat_word_ariths)
qed

lemma IE_BITS_NEW_GEN_funpow:
  "unat ((IE_BITS_NEW_GEN ^^ Suc k) g) div 2 ^ 24 = (unat g div 2 ^ 24 + 4 * Suc k) mod 256"
proof (induction k)
  case 0 
  show ?case using IE_BITS_NEW_GEN_number [of g] by simp
next
  case (Suc k)
  have "unat ((IE_BITS_NEW_GEN ^^ Suc (Suc k)) g) div 2 ^ 24 =
     (unat ((IE_BITS_NEW_GEN ^^ Suc k) g) div 2 ^ 24 + 4) mod 256"
    using IE_BITS_NEW_GEN_number [of "(IE_BITS_NEW_GEN ^^ Suc k) g"] by simp
  then show ?case by (simp only: Suc.IH mod_add_left_eq) (simp add: algebra_simps)
qed

lemma IE_BITS_GEN_NEW_GEN [simp]: "IE_BITS_GEN (IE_BITS_NEW_GEN g) = IE_BITS_NEW_GEN g"
  by (simp add: IE_BITS_GEN_def IE_BITS_NEW_GEN_def and.assoc)

lemma gen_eq_iff: "IE_BITS_GEN a = a \<Longrightarrow> IE_BITS_GEN b = b \<Longrightarrow>
   a = b \<longleftrightarrow> unat a div 2 ^ 24 = unat b div 2 ^ 24"
  by (metis unat_IE_BITS_GEN unsigned_word_eqI)

lemma nat_mod_shift: "(a + 4 * k) mod 256 = a mod 256 \<longleftrightarrow> 64 dvd (k::nat)"
proof -
  have "(a + 4 * k) mod 256 = a mod 256 \<longleftrightarrow> 256 dvd 4 * k"
    using mod_eq_dvd_iff_nat [of a "a + 4 * k" 256] by auto
  also have "\<dots> \<longleftrightarrow> 64 dvd k" by presburger
  finally show ?thesis .
qed

text \<open>
  The splitting of names into index and generation loses nothing: a name made from an index
  below \<open>2 ^ 24\<close> and a generation gives them back, every name is made from its own parts, and
  names are ordered by index first and by generation second (what the splay tree of the space
  relies on).
\<close>

theorem mach_port_name_layout:
  assumes "index < 2 ^ 24"
  shows "MACH_PORT_INDEX (MACH_PORT_MAKE index gen) = index
    \<and> MACH_PORT_GEN (MACH_PORT_MAKE index gen) = IE_BITS_GEN gen
    \<and> MACH_PORT_MAKE (MACH_PORT_INDEX name) (MACH_PORT_GEN name) = name
    \<and> (name < name' \<longleftrightarrow> MACH_PORT_INDEX name < MACH_PORT_INDEX name' \<or>
      (MACH_PORT_INDEX name = MACH_PORT_INDEX name' \<and> MACH_PORT_GEN name < MACH_PORT_GEN name'))"
  by (intro conjI MACH_PORT_INDEX_MAKE [OF assms] MACH_PORT_GEN_MAKE [OF assms]
      MACH_PORT_MAKE_INDEX_GEN name_less_iff)

theorem mach_port_name_layout_witness:
  "(5 :: nat) < 2 ^ 24 \<and> MACH_PORT_INDEX (MACH_PORT_MAKE 5 0x03000000) = 5 \<and>
   MACH_PORT_GEN (MACH_PORT_MAKE 5 0x03000000) = 0x03000000"
  using mach_port_name_layout [of 5 "0x03000000"]
  by (simp add: IE_BITS_GEN_def ipc_defs)

text \<open>
  \<open>IE_BITS_NEW_GEN\<close> steps the generation through a cycle of exactly 64 values: reallocating an
  entry \<open>k\<close> times gives its old name again if and only if 64 divides \<open>k\<close>. (Eight bits are
  reserved, but \<open>IE_BITS_GEN_ONE\<close> adds four.)
\<close>

theorem generation_period:
  assumes "IE_BITS_GEN g = g"
  shows "(IE_BITS_NEW_GEN ^^ k) g = g \<longleftrightarrow> 64 dvd k"
proof (cases k)
  case (Suc j)
  have "unat g div 2 ^ 24 < 256" using unat_less_exp [of g] by (simp add: less_mult_imp_div_less)
  moreover have "IE_BITS_GEN ((IE_BITS_NEW_GEN ^^ k) g) = (IE_BITS_NEW_GEN ^^ k) g"
    using Suc by simp
  ultimately show ?thesis
    using assms gen_eq_iff [of "(IE_BITS_NEW_GEN ^^ k) g" g] IE_BITS_NEW_GEN_funpow [of j g]
      nat_mod_shift [of "unat g div 2 ^ 24" k] Suc by simp
qed simp

theorem generation_period_witness:
  "IE_BITS_GEN 0xff000000 = 0xff000000 \<and> (IE_BITS_NEW_GEN ^^ 63) 0xff000000 \<noteq> 0xff000000 \<and>
   (IE_BITS_NEW_GEN ^^ 64) 0xff000000 = 0xff000000"
proof -
  have g: "IE_BITS_GEN 0xff000000 = 0xff000000"
    by (simp add: IE_BITS_GEN_def ipc_defs)
  have "\<not> 64 dvd (63 :: nat)" and "64 dvd (64 :: nat)"
    by simp_all
  with g show ?thesis
    using generation_period [OF g, of 63] generation_period [OF g, of 64] by blast
qed

section \<open>The fields of the entry bits\<close>

text \<open>
  Adding to the bits of an entry (\<open>bits + 1\<close>, \<open>bits - 1\<close>, \<open>bits + delta\<close> in the code) changes
  the user references only, as long as the sum stays in their sixteen bits.
\<close>

lemma port_type_values:
  "MACH_PORT_TYPE_SEND = 0x10000" "MACH_PORT_TYPE_RECEIVE = 0x20000"
  "MACH_PORT_TYPE_SEND_ONCE = 0x40000" "MACH_PORT_TYPE_PORT_SET = 0x80000"
  "MACH_PORT_TYPE_DEAD_NAME = 0x100000" "MACH_PORT_TYPE_SEND_RECEIVE = 0x30000"
  "MACH_PORT_TYPE_SEND_RIGHTS = 0x50000" "MACH_PORT_TYPE_PORT_RIGHTS = 0x70000"
  "MACH_PORT_TYPE_PORT_OR_DEAD = 0x170000" "MACH_PORT_TYPE_NONE = 0"
  by (simp_all add: port_type_defs)

lemma and_urefs_mask: "(x :: 32 word) < 0x10000 \<Longrightarrow> x AND 0xffff = x"
  using less_mask_eq [of x 16] by (simp add: mask_eq_exp_minus_1)

lemma and_not_or_and: "(b :: 32 word) AND NOT m OR b AND m = b"
  by (rule bit_eqI) (auto simp: bit_simps)

lemma and_not_and_zero: "(x :: 32 word) AND m = x \<Longrightarrow> (b AND NOT m) AND x = 0"
  by (rule bit_eqI) (auto simp: bit_simps bit_eq_iff)

lemma add_urefs_split:
  fixes bits d :: "32 word"
  assumes "(bits AND 0xffff) + d < 0x10000"
  shows "bits + d = (bits AND NOT 0xffff) OR ((bits AND 0xffff) + d)"
proof -
  let ?hi = "bits AND NOT 0xffff" and ?lo = "bits AND 0xffff"
  have "?hi AND ?lo = 0" by (rule and_not_and_zero) (simp add: and.assoc)
  then have "?hi + ?lo = bits" using and_not_or_and disjunctive_add_eq_or by metis
  moreover have "?hi AND (?lo + d) = 0"
    by (rule and_not_and_zero) (rule and_urefs_mask [OF assms])
  then have "?hi OR (?lo + d) = ?hi + (?lo + d)" using disjunctive_add_eq_or by metis
  ultimately show ?thesis by (simp add: add.assoc [symmetric])
qed

lemma and_above_urefs:
  assumes "(x :: 32 word) < 0x10000" and "0xffff AND m = 0"
  shows "x AND m = 0"
proof -
  have "x AND m = (x AND 0xffff) AND m"
    by (simp only: and_urefs_mask [OF assms(1)])
  also have "\<dots> = x AND (0xffff AND m)"
    by (simp only: and.assoc)
  finally show ?thesis
    by (simp only: assms(2)) simp
qed

lemma IE_BITS_add:
  assumes "IE_BITS_UREFS bits + d \<le> MACH_PORT_UREFS_MAX"
  shows "IE_BITS_UREFS (bits + d) = IE_BITS_UREFS bits + d"
    and "IE_BITS_TYPE (bits + d) = IE_BITS_TYPE bits"
    and "IE_BITS_GEN (bits + d) = IE_BITS_GEN bits"
    and "(bits + d) AND IE_BITS_COLLISION = bits AND IE_BITS_COLLISION"
proof -
  let ?u = "(bits AND 0xffff) + d"
  have u: "?u < 0x10000"
    using assms by (simp add: IE_BITS_UREFS_def ipc_defs word_less_nat_alt word_le_nat_alt)
  have m: "?u AND 0x1f0000 = 0" "?u AND 0xff000000 = 0" "?u AND 0x800000 = 0"
    by (rule and_above_urefs [OF u], simp)+
  note a = add_urefs_split [OF u]
  show "IE_BITS_UREFS (bits + d) = IE_BITS_UREFS bits + d"
    using and_urefs_mask [OF u]
    by (simp only: IE_BITS_UREFS_def ipc_defs a bit.conj_disj_distrib2 and.assoc) simp
  show "IE_BITS_TYPE (bits + d) = IE_BITS_TYPE bits"
    by (simp only: IE_BITS_TYPE_def ipc_defs a bit.conj_disj_distrib2 and.assoc m) simp
  show "IE_BITS_GEN (bits + d) = IE_BITS_GEN bits"
    by (simp only: IE_BITS_GEN_def ipc_defs a bit.conj_disj_distrib2 and.assoc m) simp
  show "(bits + d) AND IE_BITS_COLLISION = bits AND IE_BITS_COLLISION"
    by (simp only: ipc_defs a bit.conj_disj_distrib2 and.assoc m) simp
qed
end
