(* ===== verification/Ipc_Table.thy ===== *)
theory Ipc_Table
  imports Ipc_Name
begin

text \<open>
  What the code relies on in the arrays of table sizes (\<open>ipc/ipc_table.h\<close>), which are filled by
  \<open>ipc/ipc_table.c\<close> (theory \<open>Ipc_Table_Fill\<close>). The page size is that of the PowerPC and i386 ports;
  the element sizes are those of \<open>struct ipc_entry\<close> (four words), \<open>struct ipc_tree_entry\<close> (eight
  words) and \<open>struct ipc_port_request\<close> (two words).
\<close>

section \<open>Sizes\<close>

definition PAGE_SIZE :: natural_t where
  "PAGE_SIZE = 4096"

definition PAGE_MASK :: natural_t where
  "PAGE_MASK = PAGE_SIZE - 1"

definition round_page :: "natural_t \<Rightarrow> natural_t" where
  "round_page x = (x + PAGE_MASK) AND NOT PAGE_MASK"

definition trunc_page :: "natural_t \<Rightarrow> natural_t" where
  "trunc_page x = x AND NOT PAGE_MASK"

definition page_aligned :: "natural_t \<Rightarrow> bool" where
  "page_aligned x \<longleftrightarrow> x AND PAGE_MASK = 0"

definition sizeof_ipc_entry :: natural_t where
  "sizeof_ipc_entry = 16"

definition sizeof_ipc_tree_entry :: natural_t where
  "sizeof_ipc_tree_entry = 32"

definition sizeof_ipc_port_request :: natural_t where
  "sizeof_ipc_port_request = 8"


text \<open>
  The header \<open>ipc/ipc_table.h\<close> states it: the sizes ascend strictly except that the last two are
  equal (the last is zero for dead-name requests), and no size is above the index of the dead name.
\<close>

definition entries_sizes_ok :: "nat list \<Rightarrow> bool" where
  "entries_sizes_ok its \<longleftrightarrow> 2 \<le> length its \<and> ascending (butlast its) \<and>
     its ! (length its - 1) = its ! (length its - 2) \<and> 0 < hd its \<and> last its \<le> 0xffffff"

definition dnrequests_sizes_ok :: "nat list \<Rightarrow> bool" where
  "dnrequests_sizes_ok its \<longleftrightarrow> 2 \<le> length its \<and> ascending (butlast its) \<and>
     last its = 0 \<and> 2 \<le> hd its"

lemma ascending_successively: "ascending xs \<longleftrightarrow> successively (<) xs"
  by (simp add: successively_conv_sorted_wrt)

lemma ascending_map_unat: "ascending (map unat xs) \<longleftrightarrow> ascending (xs :: 'a :: len word list)"
  unfolding sorted_wrt_map word_less_nat_alt ..

lemma entries_sizes_less:
  assumes "entries_sizes_ok its" "i < j" "Suc j < length its"
  shows "its ! i < its ! j"
proof -
  have "butlast its ! i < butlast its ! j"
    using assms sorted_wrt_nth_less [of "(<)" "butlast its" i j] by (simp add: entries_sizes_ok_def)
  with assms show ?thesis by (simp add: nth_butlast)
qed

lemma entries_sizes_step:
  assumes "entries_sizes_ok its" "Suc i < length its"
  shows "its ! i \<le> its ! Suc i" "its ! i = its ! Suc i \<longleftrightarrow> Suc (Suc i) = length its"
proof -
  consider "Suc (Suc i) = length its" | "Suc (Suc i) < length its" using assms(2) by linarith
  then have "its ! i \<le> its ! Suc i \<and> (its ! i = its ! Suc i \<longleftrightarrow> Suc (Suc i) = length its)"
  proof cases
    case 1
    then have "length its - 1 = Suc i" "length its - 2 = i" by simp_all
    then have "its ! Suc i = its ! i" using assms(1) unfolding entries_sizes_ok_def by metis
    with 1 show ?thesis by simp
  next
    case 2
    then show ?thesis using entries_sizes_less [OF assms(1), of i "Suc i"] by simp
  qed
  then show "its ! i \<le> its ! Suc i" "its ! i = its ! Suc i \<longleftrightarrow> Suc (Suc i) = length its" by simp_all
qed

lemma entries_sizes_mono:
  assumes "entries_sizes_ok its" "i \<le> j" "j < length its"
  shows "its ! i \<le> its ! j"
  using assms(2,3)
proof (induction j rule: dec_induct)
  case (step j)
  then show ?case using entries_sizes_step(1) [OF assms(1), of j] by simp
qed simp

lemma entries_sizes_bounds:
  assumes "entries_sizes_ok its" "i < length its"
  shows "0 < its ! i" "its ! i \<le> 0xffffff"
proof -
  have ne: "its \<noteq> []" using assms by auto
  then have "0 < its ! 0" using assms(1) by (simp add: entries_sizes_ok_def hd_conv_nth)
  then show "0 < its ! i" using entries_sizes_mono [OF assms(1), of 0 i] assms(2) by simp
  have "its ! (length its - 1) \<le> 0xffffff"
    using assms(1) ne unfolding entries_sizes_ok_def by (metis last_conv_nth)
  moreover have "i \<le> length its - 1" "length its - 1 < length its" using assms(2) by linarith+
  ultimately show "its ! i \<le> 0xffffff"
    using entries_sizes_mono [OF assms(1)] le_trans by blast
qed

end
