(* ===== verification/Ipc_Table_Fill.thy ===== *)
theory Ipc_Table_Fill
  imports Ipc_Table
begin

text \<open>
  The routines that fill the arrays of table sizes at boot (\<open>ipc/ipc_table.c\<close>). The sizes are 32-bit
  values and wrap around as in C; the loops are partial functions whose value is \<open>None\<close> when they do
  not end.
\<close>

section \<open>Filling an array of sizes\<close>

text \<open>The filled part of the array is the list \<open>its\<close>, last element first, of length \<open>index\<close>.\<close>

partial_function (option) fill_powers ::
  "natural_t \<Rightarrow> natural_t \<Rightarrow> natural_t \<Rightarrow> natural_t list \<Rightarrow> natural_t \<Rightarrow> natural_t \<Rightarrow>
   (natural_t list \<times> natural_t \<times> natural_t) option" where
  "fill_powers num minsize elemsize its index tsize =
     (if index < num \<and> tsize < PAGE_SIZE then
        if tsize \<ge> minsize
        then fill_powers num minsize elemsize (tsize div elemsize # its) (index + 1) (push_bit 1 tsize)
        else fill_powers num minsize elemsize its index (push_bit 1 tsize)
      else Some (its, index, tsize))"

fun fill_period ::
  "nat \<Rightarrow> natural_t \<Rightarrow> natural_t \<Rightarrow> natural_t \<Rightarrow> natural_t \<Rightarrow> natural_t list \<Rightarrow> natural_t \<Rightarrow> natural_t \<Rightarrow>
   natural_t list \<times> natural_t \<times> natural_t" where
  "fill_period 0 num minsize elemsize incrsize its index tsize = (its, index, tsize)"
| "fill_period (Suc period) num minsize elemsize incrsize its index tsize =
     (if index < num then
        if tsize \<ge> minsize
        then fill_period period num minsize elemsize incrsize
               (tsize div elemsize # its) (index + 1) (tsize + incrsize)
        else fill_period period num minsize elemsize incrsize its index (tsize + incrsize)
      else (its, index, tsize))"

partial_function (option) fill_pages ::
  "natural_t \<Rightarrow> natural_t \<Rightarrow> natural_t \<Rightarrow> natural_t \<Rightarrow> natural_t list \<Rightarrow> natural_t \<Rightarrow> natural_t \<Rightarrow>
   natural_t list option" where
  "fill_pages num minsize elemsize incrsize its index tsize =
     (if index < num then
        (case fill_period 15 num minsize elemsize incrsize its index tsize of (its', index', tsize') \<Rightarrow>
           fill_pages num minsize elemsize
             (if incrsize < push_bit 3 PAGE_SIZE then push_bit 1 incrsize else incrsize)
             its' index' tsize')
      else Some its)"

declare fill_powers.simps [code] fill_pages.simps [code]

definition ipc_table_fill :: "natural_t \<Rightarrow> natural_t \<Rightarrow> natural_t \<Rightarrow> natural_t list option" where
  "ipc_table_fill num least elemsize =
     (case fill_powers num (least * elemsize) elemsize [] 0 1 of
        None \<Rightarrow> None
      | Some (its, index, tsize) \<Rightarrow>
          map_option rev (fill_pages num (least * elemsize) elemsize PAGE_SIZE its index tsize))"

definition ipc_table_entries_size :: natural_t where
  "ipc_table_entries_size = 512"

definition ipc_table_dnrequests_size :: natural_t where
  "ipc_table_dnrequests_size = 64"

definition ipc_table_init :: "(natural_t list \<times> natural_t list) option" where
  "ipc_table_init =
     (case ipc_table_fill (ipc_table_entries_size - 1) 4 sizeof_ipc_entry of
        None \<Rightarrow> None
      | Some entries \<Rightarrow>
          (case ipc_table_fill (ipc_table_dnrequests_size - 1) 2 sizeof_ipc_port_request of
             None \<Rightarrow> None
           | Some dnrequests \<Rightarrow>
               Some (entries @ [entries ! (unat ipc_table_entries_size - 2)], dnrequests @ [0])))"

lemma entries_fill:
  "case ipc_table_fill 511 4 16 of None \<Rightarrow> False
   | Some xs \<Rightarrow> length xs = 511 \<and> successively (<) xs \<and> hd xs = 4 \<and> last xs \<le> 0xffffff"
  by code_simp

lemma dnrequests_fill:
  "case ipc_table_fill 63 2 8 of None \<Rightarrow> False
   | Some xs \<Rightarrow> length xs = 63 \<and> successively (<) xs \<and> hd xs = 2"
  by code_simp

section \<open>Properties\<close>

text \<open>
  C28: The initialisation of the table sizes ends, and the two arrays it fills have the form that
  \<open>ipc/ipc_table.h\<close> demands: 512 entry-table sizes, starting with four entries, strictly increasing
  up to the repeated last one, none above the index of the dead name (so \<open>MACH_PORT_MAKE(size, 0)\<close>
  does not overflow and the dead name is never allocated); and 64 request-table sizes, starting with
  two, strictly increasing up to the final zero.
\<close>

theorem ipc_table_init_sizes:
  "\<exists>entries dnrequests. ipc_table_init = Some (entries, dnrequests) \<and>
     length entries = 512 \<and> entries_sizes_ok (map unat entries) \<and> hd entries = 4 \<and>
     length dnrequests = 64 \<and> dnrequests_sizes_ok (map unat dnrequests)"
proof -
  obtain xs where xs: "ipc_table_fill 511 4 16 = Some xs" "length xs = 511" "successively (<) xs"
      "hd xs = 4" "last xs \<le> 0xffffff"
    using entries_fill by (auto split: option.splits)
  obtain ys where ys: "ipc_table_fill 63 2 8 = Some ys" "length ys = 63" "successively (<) ys" "hd ys = 2"
    using dnrequests_fill by (auto split: option.splits)
  have l: "xs ! 510 = last xs" using xs(2) by (simp add: last_conv_nth flip: length_greater_0_conv)
  have ne: "xs \<noteq> []" "ys \<noteq> []" using xs(2) ys(2) by auto
  have "unat (last xs) \<le> 0xffffff" using xs(5) by (simp add: word_le_nat_alt)
  then have "entries_sizes_ok (map unat (xs @ [last xs]))"
    using xs l ne ascending_map_unat [of xs]
    by (simp add: entries_sizes_ok_def nth_append ascending_successively hd_map butlast_append last_map)
  moreover have "dnrequests_sizes_ok (map unat (ys @ [0]))"
    using ys ne ascending_map_unat [of ys]
    by (simp add: dnrequests_sizes_ok_def ascending_successively hd_map butlast_append)
  ultimately show ?thesis
    using xs ys l ne by (simp add: ipc_table_init_def ipc_table_entries_size_def
        ipc_table_dnrequests_size_def sizeof_ipc_entry_def sizeof_ipc_port_request_def)
qed

end
