(* ===== verification/Ipc_Splay.thy ===== *)
theory Ipc_Splay
  imports Ipc_Name
begin

text \<open>
  The splay tree of an IPC space (\<open>ipc/ipc_splay.c\<close>): the primitive top-down splay, the
  operations on the unassembled tree, and the traversal by pointer inversion.

  A tree entry is a node of the datatype \<open>ite\<close>; the fields keep their C names. The tree is stored
  unassembled: \<open>ist_root\<close> is the middle tree of the last splay, and the left and right trees are
  trees with one uninitialised field, the one \<open>ist_ltreep\<close> (\<open>ist_rtreep\<close>) points to. A left tree
  with its hole is the list of the nodes on its right spine, innermost first, each with its left
  child; \<open>ist_ltreep\<close> is the \<open>rchild\<close> field of the head of the list, or the field \<open>ist_ltree\<close>
  itself when the list is empty. Right trees are the mirror image.
\<close>

section \<open>Trees\<close>

datatype 'e ite =
    ITE_NULL
  | ITE (ite_lchild: "'e ite") (ite_name: mach_port_t) (ite_entry: 'e) (ite_rchild: "'e ite")
  where
    "ite_lchild ITE_NULL = ITE_NULL"
  | "ite_rchild ITE_NULL = ITE_NULL"

type_synonym 'e spine = "('e ite \<times> mach_port_t \<times> 'e) list"

fun store_ltreep :: "'e spine \<Rightarrow> 'e ite \<Rightarrow> 'e ite" where
  "store_ltreep [] t = t"
| "store_ltreep ((l, n, e) # lt) t = store_ltreep lt (ITE l n e t)"

fun store_rtreep :: "'e spine \<Rightarrow> 'e ite \<Rightarrow> 'e ite" where
  "store_rtreep [] t = t"
| "store_rtreep ((r, n, e) # rt) t = store_rtreep rt (ITE t n e r)"

record 'e ipc_splay_tree =
  ist_root :: "'e ite"
  ist_name :: mach_port_t
  ist_ltree :: "'e spine"
  ist_rtree :: "'e spine"

definition MACH_PORT_SMALLEST :: mach_port_t where
  "MACH_PORT_SMALLEST = 0"

definition MACH_PORT_LARGEST :: mach_port_t where
  "MACH_PORT_LARGEST = - 1"

section \<open>The primitive splay\<close>

text \<open>The rotations and links of the C macros, on a non-null tree.\<close>

fun rotate_right :: "'e ite \<Rightarrow> 'e ite" where
  "rotate_right (ITE (ITE ll ln le lr) n e r) = ITE ll ln le (ITE lr n e r)"
| "rotate_right t = t"

fun rotate_left :: "'e ite \<Rightarrow> 'e ite" where
  "rotate_left (ITE l n e (ITE rl rn re rr)) = ITE (ITE l n e rl) rn re rr"
| "rotate_left t = t"

fun link_right :: "'e ite \<times> 'e spine \<times> 'e spine \<Rightarrow> 'e ite \<times> 'e spine \<times> 'e spine" where
  "link_right (ITE l n e r, lt, rt) = (l, lt, (r, n, e) # rt)"
| "link_right (ITE_NULL, lt, rt) = (ITE_NULL, lt, rt)"

fun link_left :: "'e ite \<times> 'e spine \<times> 'e spine \<Rightarrow> 'e ite \<times> 'e spine \<times> 'e spine" where
  "link_left (ITE l n e r, lt, rt) = (r, (l, n, e) # lt, rt)"
| "link_left (ITE_NULL, lt, rt) = (ITE_NULL, lt, rt)"

text \<open>One iteration of the \<^verbatim>\<open>while\<close> loop; \<open>None\<close> when the loop is left.\<close>

definition splay_step ::
  "mach_port_t \<Rightarrow> 'e ite \<times> 'e spine \<times> 'e spine \<Rightarrow> ('e ite \<times> 'e spine \<times> 'e spine) option" where
  "splay_step name s = (case s of (tree, lt, rt) \<Rightarrow>
     if name = ite_name tree then None
     else if name < ite_name tree then
       (let lchild = ite_lchild tree in
        if lchild = ITE_NULL then None
        else
          let tname = ite_name lchild;
              tree1 = (if name < tname \<and> ite_lchild lchild \<noteq> ITE_NULL
                       then rotate_right tree else tree);
              s1 = link_right (tree1, lt, rt)
          in Some (if name > tname \<and> ite_rchild lchild \<noteq> ITE_NULL then link_left s1 else s1))
     else
       (let rchild = ite_rchild tree in
        if rchild = ITE_NULL then None
        else
          let tname = ite_name rchild;
              tree1 = (if name > tname \<and> ite_rchild rchild \<noteq> ITE_NULL
                       then rotate_left tree else tree);
              s1 = link_left (tree1, lt, rt)
          in Some (if name < tname \<and> ite_lchild rchild \<noteq> ITE_NULL then link_right s1 else s1)))"

lemma size_rotate_right [simp]: "size (rotate_right t) = size t"
  by (induction t rule: rotate_right.induct) auto

lemma size_rotate_left [simp]: "size (rotate_left t) = size t"
  by (induction t rule: rotate_left.induct) auto

lemma size_ite_children:
  "t \<noteq> ITE_NULL \<Longrightarrow> size (ite_lchild t) < size t" "t \<noteq> ITE_NULL \<Longrightarrow> size (ite_rchild t) < size t"
  by (cases t; simp)+

lemma splay_step_decreases:
  "splay_step name (t, lt, rt) = Some (t', lt', rt') \<Longrightarrow> size t' < size t"
  by (cases t; cases "ite_lchild t"; cases "ite_rchild t")
    (auto simp: splay_step_def Let_def split: if_splits dest: size_ite_children)

function splay_loop ::
  "mach_port_t \<Rightarrow> 'e ite \<times> 'e spine \<times> 'e spine \<Rightarrow> 'e ite \<times> 'e spine \<times> 'e spine" where
  "splay_loop name s = (case splay_step name s of None \<Rightarrow> s | Some s' \<Rightarrow> splay_loop name s')"
  by pat_completeness auto
termination
  by (relation "measure (\<lambda>(name, t, lt, rt). size t)") (auto dest: splay_step_decreases)

declare splay_loop.simps [simp del]

definition ipc_splay_prim_lookup ::
  "mach_port_t \<Rightarrow> 'e ite \<Rightarrow> 'e ite \<times> 'e spine \<times> 'e spine" where
  "ipc_splay_prim_lookup name tree = splay_loop name (tree, [], [])"

definition ipc_splay_prim_assemble :: "'e ite \<times> 'e spine \<times> 'e spine \<Rightarrow> 'e ite" where
  "ipc_splay_prim_assemble s = (case s of (tree, lt, rt) \<Rightarrow>
     ITE (store_ltreep lt (ite_lchild tree)) (ite_name tree) (ite_entry tree)
         (store_rtreep rt (ite_rchild tree)))"

section \<open>Operations on the unassembled tree\<close>

definition ipc_splay_tree_init :: "'e ipc_splay_tree \<Rightarrow> 'e ipc_splay_tree" where
  "ipc_splay_tree_init splay = splay\<lparr>ist_root := ITE_NULL\<rparr>"

definition ipc_splay_tree_pick :: "'e ipc_splay_tree \<Rightarrow> (mach_port_t \<times> 'e) option" where
  "ipc_splay_tree_pick splay =
     (if ist_root splay \<noteq> ITE_NULL
      then Some (ite_name (ist_root splay), ite_entry (ist_root splay)) else None)"

text \<open>
  The code that most operations start with: unless \<open>name\<close> was the name of the last splay, assemble
  the tree and splay it again.
\<close>

definition ist_refocus ::
  "'e ipc_splay_tree \<Rightarrow> mach_port_t \<Rightarrow> 'e ite \<times> 'e spine \<times> 'e spine" where
  "ist_refocus splay name =
     (let s = (ist_root splay, ist_ltree splay, ist_rtree splay) in
      if ist_name splay \<noteq> name
      then ipc_splay_prim_lookup name (ipc_splay_prim_assemble s) else s)"

definition ipc_splay_tree_lookup ::
  "'e ipc_splay_tree \<Rightarrow> mach_port_t \<Rightarrow> 'e option \<times> 'e ipc_splay_tree" where
  "ipc_splay_tree_lookup splay name =
     (if ist_root splay = ITE_NULL then (None, splay)
      else case ist_refocus splay name of (root, lt, rt) \<Rightarrow>
        (if name \<noteq> ite_name root then None else Some (ite_entry root),
         splay\<lparr>ist_root := root, ist_name := name, ist_ltree := lt, ist_rtree := rt\<rparr>))"

definition ipc_splay_tree_insert ::
  "'e ipc_splay_tree \<Rightarrow> mach_port_t \<Rightarrow> 'e \<Rightarrow> 'e ipc_splay_tree" where
  "ipc_splay_tree_insert splay name entry =
     (let node =
        (if ist_root splay = ITE_NULL then ITE ITE_NULL name entry ITE_NULL
         else case ist_refocus splay name of (root, lt, rt) \<Rightarrow>
           if name < ite_name root
           then ITE (store_ltreep lt ITE_NULL) name entry (store_rtreep rt root)
           else ITE (store_ltreep lt root) name entry (store_rtreep rt ITE_NULL))
      in splay\<lparr>ist_root := node, ist_name := name, ist_ltree := [], ist_rtree := []\<rparr>)"

text \<open>Storing a root that ends an operation: the spines are emptied when there is one.\<close>

definition ist_set_root :: "'e ipc_splay_tree \<Rightarrow> 'e ite \<Rightarrow> 'e ipc_splay_tree" where
  "ist_set_root splay root =
     (if root \<noteq> ITE_NULL
      then splay\<lparr>ist_root := root, ist_name := ite_name root, ist_ltree := [], ist_rtree := []\<rparr>
      else splay\<lparr>ist_root := root\<rparr>)"

fun set_rchild :: "'e ite \<Rightarrow> 'e ite \<Rightarrow> 'e ite" where
  "set_rchild (ITE l n e r) t = ITE l n e t"
| "set_rchild ITE_NULL t = ITE_NULL"

fun set_lchild :: "'e ite \<Rightarrow> 'e ite \<Rightarrow> 'e ite" where
  "set_lchild (ITE l n e r) t = ITE t n e r"
| "set_lchild ITE_NULL t = ITE_NULL"

definition ipc_splay_tree_delete ::
  "'e ipc_splay_tree \<Rightarrow> mach_port_t \<Rightarrow> 'e ipc_splay_tree" where
  "ipc_splay_tree_delete splay name =
     (case ist_refocus splay name of (root, lt, rt) \<Rightarrow>
        let ltree = store_ltreep lt (ite_lchild root);
            saved = store_rtreep rt (ite_rchild root);
            root' = (if ltree = ITE_NULL then saved
                     else if saved \<noteq> ITE_NULL
                     then set_rchild (ipc_splay_prim_assemble
                            (ipc_splay_prim_lookup MACH_PORT_LARGEST ltree)) saved
                     else ltree)
        in ist_set_root splay root')"

definition ipc_splay_tree_split ::
  "'e ipc_splay_tree \<Rightarrow> mach_port_t \<Rightarrow> 'e ipc_splay_tree \<Rightarrow>
   'e ipc_splay_tree \<times> 'e ipc_splay_tree" where
  "ipc_splay_tree_split splay name small =
     (let small = ipc_splay_tree_init small in
      if ist_root splay = ITE_NULL then (splay, small)
      else case ist_refocus splay name of (root, lt, rt) \<Rightarrow>
        if ite_name root < name then
          (ist_set_root splay (store_rtreep rt ITE_NULL),
           ist_set_root small (set_lchild root (store_ltreep lt (ite_lchild root))))
        else
          (splay\<lparr>ist_root := set_lchild root ITE_NULL, ist_name := name,
             ist_ltree := [], ist_rtree := rt\<rparr>,
           ist_set_root small (store_ltreep lt (ite_lchild root))))"

definition ipc_splay_tree_join ::
  "'e ipc_splay_tree \<Rightarrow> 'e ipc_splay_tree \<Rightarrow> 'e ipc_splay_tree \<times> 'e ipc_splay_tree" where
  "ipc_splay_tree_join splay small =
     (if ist_root small = ITE_NULL then (splay, small)
      else
        let sroot = ipc_splay_prim_assemble (ist_root small, ist_ltree small, ist_rtree small);
            small' = small\<lparr>ist_root := ITE_NULL\<rparr>;
            root = (if ist_root splay = ITE_NULL then sroot
                    else set_lchild (ipc_splay_prim_assemble
                           (ist_refocus splay MACH_PORT_SMALLEST)) sroot)
        in (ist_set_root splay root, small'))"

definition ipc_splay_tree_bounds ::
  "'e ipc_splay_tree \<Rightarrow> mach_port_t \<Rightarrow> (mach_port_t \<times> mach_port_t) \<times> 'e ipc_splay_tree" where
  "ipc_splay_tree_bounds splay name =
     (if ist_root splay = ITE_NULL then ((MACH_PORT_LARGEST, MACH_PORT_SMALLEST), splay)
      else case ist_refocus splay name of (root, lt, rt) \<Rightarrow>
        let rname = ite_name root;
            lower = (if rname \<le> name then rname
                     else case lt of [] \<Rightarrow> MACH_PORT_LARGEST | (_, n, _) # _ \<Rightarrow> n);
            upper = (if rname \<ge> name then rname
                     else case rt of [] \<Rightarrow> MACH_PORT_SMALLEST | (_, n, _) # _ \<Rightarrow> n)
        in ((lower, upper),
            splay\<lparr>ist_root := root, ist_name := name, ist_ltree := lt, ist_rtree := rt\<rparr>))"

section \<open>What a tree holds\<close>

text \<open>
  The entries of a tree, and of the three pieces of an unassembled tree, in symmetric order.
  \<open>ist_wf\<close> is the invariant of the C comment: the names ascend, the entries of the left (right) tree
  are smaller (larger) than the name of the last splay, and a search for that name in the middle
  tree ends at its root.
\<close>

fun ite_inorder :: "'e ite \<Rightarrow> (mach_port_t \<times> 'e) list" where
  "ite_inorder ITE_NULL = []"
| "ite_inorder (ITE l n e r) = ite_inorder l @ (n, e) # ite_inorder r"

fun lspine_inorder :: "'e spine \<Rightarrow> (mach_port_t \<times> 'e) list" where
  "lspine_inorder [] = []"
| "lspine_inorder ((l, n, e) # lt) = lspine_inorder lt @ ite_inorder l @ [(n, e)]"

fun rspine_inorder :: "'e spine \<Rightarrow> (mach_port_t \<times> 'e) list" where
  "rspine_inorder [] = []"
| "rspine_inorder ((r, n, e) # rt) = (n, e) # ite_inorder r @ rspine_inorder rt"

abbreviation ite_sorted :: "(mach_port_t \<times> 'e) list \<Rightarrow> bool" where
  "ite_sorted xs \<equiv> ascending (map fst xs)"

definition pieces_inorder :: "'e ite \<times> 'e spine \<times> 'e spine \<Rightarrow> (mach_port_t \<times> 'e) list" where
  "pieces_inorder s = (case s of (t, lt, rt) \<Rightarrow>
     lspine_inorder lt @ ite_inorder t @ rspine_inorder rt)"

definition spines_around :: "mach_port_t \<Rightarrow> 'e ite \<times> 'e spine \<times> 'e spine \<Rightarrow> bool" where
  "spines_around name s = (case s of (t, lt, rt) \<Rightarrow>
     (\<forall>x \<in> set (lspine_inorder lt). fst x < name) \<and>
     (\<forall>x \<in> set (rspine_inorder rt). name < fst x))"

definition stops_at :: "mach_port_t \<Rightarrow> 'e ite \<Rightarrow> bool" where
  "stops_at name t \<longleftrightarrow> t \<noteq> ITE_NULL \<and>
     (name < ite_name t \<longrightarrow> ite_lchild t = ITE_NULL) \<and>
     (ite_name t < name \<longrightarrow> ite_rchild t = ITE_NULL)"

definition ist_pieces :: "'e ipc_splay_tree \<Rightarrow> 'e ite \<times> 'e spine \<times> 'e spine" where
  "ist_pieces splay = (ist_root splay, ist_ltree splay, ist_rtree splay)"

definition ist_inorder :: "'e ipc_splay_tree \<Rightarrow> (mach_port_t \<times> 'e) list" where
  "ist_inorder splay =
     (if ist_root splay = ITE_NULL then [] else pieces_inorder (ist_pieces splay))"

definition ist_wf :: "'e ipc_splay_tree \<Rightarrow> bool" where
  "ist_wf splay \<longleftrightarrow> (ist_root splay \<noteq> ITE_NULL \<longrightarrow>
     ite_sorted (ist_inorder splay) \<and>
     spines_around (ist_name splay) (ist_pieces splay) \<and>
     stops_at (ist_name splay) (ist_root splay))"

abbreviation ist_map :: "'e ipc_splay_tree \<Rightarrow> mach_port_t \<rightharpoonup> 'e" where
  "ist_map splay \<equiv> map_of (ist_inorder splay)"

section \<open>The primitive splay is correct\<close>

lemma store_ltreep_inorder [simp]:
  "ite_inorder (store_ltreep lt t) = lspine_inorder lt @ ite_inorder t"
  by (induction lt t rule: store_ltreep.induct) auto

lemma store_rtreep_inorder [simp]:
  "ite_inorder (store_rtreep rt t) = ite_inorder t @ rspine_inorder rt"
  by (induction rt t rule: store_rtreep.induct) auto

lemma rotate_right_inorder [simp]: "ite_inorder (rotate_right t) = ite_inorder t"
  by (induction t rule: rotate_right.induct) auto

lemma rotate_left_inorder [simp]: "ite_inorder (rotate_left t) = ite_inorder t"
  by (induction t rule: rotate_left.induct) auto

lemma link_right_inorder [simp]: "pieces_inorder (link_right s) = pieces_inorder s"
  by (induction s rule: link_right.induct) (auto simp: pieces_inorder_def)

lemma link_left_inorder [simp]: "pieces_inorder (link_left s) = pieces_inorder s"
  by (induction s rule: link_left.induct) (auto simp: pieces_inorder_def)

lemma ite_inorder_Nil_iff [simp]: "ite_inorder t = [] \<longleftrightarrow> t = ITE_NULL"
  by (cases t) auto

lemma pieces_rotate [simp]:
  "pieces_inorder (rotate_right t, lt, rt) = pieces_inorder (t, lt, rt)"
  "pieces_inorder (rotate_left t, lt, rt) = pieces_inorder (t, lt, rt)"
  by (simp_all add: pieces_inorder_def)

lemma splay_step_inorder:
  "splay_step name s = Some s' \<Longrightarrow> pieces_inorder s' = pieces_inorder s"
  by (cases s) (auto simp: splay_step_def Let_def split: if_splits)

lemma splay_step_nonnull:
  "splay_step name (t, lt, rt) = Some (t', lt', rt') \<Longrightarrow> t \<noteq> ITE_NULL \<Longrightarrow> t' \<noteq> ITE_NULL"
  by (cases t; cases "ite_lchild t"; cases "ite_rchild t")
    (auto simp: splay_step_def Let_def split: if_splits)

lemma splay_step_less:
  assumes "name < n"
  shows "splay_step name (ITE (ITE ll ln le lr) n e r, lt, rt) =
    Some (if name < ln \<and> ll \<noteq> ITE_NULL then (ll, lt, (ITE lr n e r, ln, le) # rt)
          else if name > ln \<and> lr \<noteq> ITE_NULL then (lr, (ll, ln, le) # lt, (r, n, e) # rt)
          else (ITE ll ln le lr, lt, (r, n, e) # rt))"
  using assms by (auto simp: splay_step_def Let_def)

lemma splay_step_greater:
  assumes "n < name"
  shows "splay_step name (ITE l n e (ITE rl rn re rr), lt, rt) =
    Some (if name > rn \<and> rr \<noteq> ITE_NULL then (rr, (ITE l n e rl, rn, re) # lt, rt)
          else if name < rn \<and> rl \<noteq> ITE_NULL then (rl, (l, n, e) # lt, (rr, rn, re) # rt)
          else (ITE rl rn re rr, (l, n, e) # lt, rt))"
  using assms by (auto simp: splay_step_def Let_def)

lemma splay_step_SomeD:
  assumes "splay_step name (t, lt, rt) = Some s'"
  shows "(\<exists>ll ln le lr n e r. t = ITE (ITE ll ln le lr) n e r \<and> name < n) \<or>
         (\<exists>l n e rl rn re rr. t = ITE l n e (ITE rl rn re rr) \<and> n < name)"
  using assms
  by (cases t; cases "ite_lchild t"; cases "ite_rchild t")
    (simp_all add: splay_step_def Let_def split: if_splits)

lemma splay_step_around:
  assumes step: "splay_step name (t, lt, rt) = Some s'" and sorted: "ite_sorted (ite_inorder t)"
    and around: "spines_around name (t, lt, rt)"
  shows "spines_around name s'"
  using splay_step_SomeD [OF step]
proof (elim disjE exE conjE)
  fix ll ln le lr n e r
  assume t: "t = ITE (ITE ll ln le lr) n e r" and "name < n"
  have "\<forall>x \<in> set (ite_inorder r). n < fst x" "\<forall>x \<in> set (ite_inorder lr). ln < fst x"
       "\<forall>x \<in> set (ite_inorder ll). fst x < ln"
    using sorted by (auto simp: t ascending_append_iff)
  then have "\<forall>x \<in> set (ite_inorder r). name < fst x"
       "name < ln \<longrightarrow> (\<forall>x \<in> set (ite_inorder lr). name < fst x)"
       "ln < name \<longrightarrow> (\<forall>x \<in> set (ite_inorder ll). fst x < name)"
    using \<open>name < n\<close> less_trans by blast+
  with step around [unfolded spines_around_def] \<open>name < n\<close> show ?thesis
    by (simp add: t splay_step_less ball_Un split: if_splits; hypsubst; simp add: spines_around_def ball_Un)
next
  fix l n e rl rn re rr
  assume t: "t = ITE l n e (ITE rl rn re rr)" and "n < name"
  have "\<forall>x \<in> set (ite_inorder l). fst x < n" "\<forall>x \<in> set (ite_inorder rl). fst x < rn"
       "\<forall>x \<in> set (ite_inorder rr). rn < fst x"
    using sorted by (auto simp: t ascending_append_iff)
  then have "\<forall>x \<in> set (ite_inorder l). fst x < name"
       "rn < name \<longrightarrow> (\<forall>x \<in> set (ite_inorder rl). fst x < name)"
       "name < rn \<longrightarrow> (\<forall>x \<in> set (ite_inorder rr). name < fst x)"
    using \<open>n < name\<close> less_trans by blast+
  with step around [unfolded spines_around_def] \<open>n < name\<close> show ?thesis
    by (simp add: t splay_step_greater ball_Un split: if_splits; hypsubst; simp add: spines_around_def ball_Un)
qed

lemma splay_step_None:
  "splay_step name (t, lt, rt) = None \<longleftrightarrow> t = ITE_NULL \<or> stops_at name t"
  by (cases t) (auto simp: splay_step_def stops_at_def Let_def)

lemma splay_loop_correct:
  assumes "fst s \<noteq> ITE_NULL" "ite_sorted (pieces_inorder s)" "spines_around name s"
  shows "pieces_inorder (splay_loop name s) = pieces_inorder s
    \<and> spines_around name (splay_loop name s) \<and> stops_at name (fst (splay_loop name s))"
  using assms
proof (induction name s rule: splay_loop.induct)
  case (1 name s)
  obtain t lt rt where s: "s = (t, lt, rt)" by (cases s) auto
  show ?case
  proof (cases "splay_step name s")
    case None
    then have "splay_loop name s = s" by (simp add: splay_loop.simps [of name s])
    with 1 None s show ?thesis by (simp add: splay_step_None)
  next
    case (Some s')
    obtain t' lt' rt' where s': "s' = (t', lt', rt')" by (cases s') auto
    have "ite_sorted (ite_inorder t)"
      using "1.prems"(2) by (simp add: s pieces_inorder_def ascending_append_iff)
    moreover have "t' \<noteq> ITE_NULL" using "1.prems"(1) Some s s' splay_step_nonnull by fastforce
    moreover have "splay_loop name s = splay_loop name s'"
      using Some by (simp add: splay_loop.simps [of name s])
    ultimately show ?thesis
      using 1 Some s s' splay_step_inorder [OF Some] splay_step_around [of name t lt rt s']
      by simp
  qed
qed

lemma prim_assemble_inorder [simp]:
  "fst s \<noteq> ITE_NULL \<Longrightarrow> ite_inorder (ipc_splay_prim_assemble s) = pieces_inorder s"
  by (cases s; cases "fst s") (auto simp: ipc_splay_prim_assemble_def pieces_inorder_def)

lemma prim_assemble_nonnull [simp]: "ipc_splay_prim_assemble s \<noteq> ITE_NULL"
  by (simp add: ipc_splay_prim_assemble_def split: prod.split)

lemma prim_lookup_correct:
  assumes "t \<noteq> ITE_NULL" "ite_sorted (ite_inorder t)"
  shows "pieces_inorder (ipc_splay_prim_lookup name t) = ite_inorder t"
    and "spines_around name (ipc_splay_prim_lookup name t)"
    and "stops_at name (fst (ipc_splay_prim_lookup name t))"
  using splay_loop_correct [of "(t, [], [])" name] assms
  by (simp_all add: ipc_splay_prim_lookup_def pieces_inorder_def spines_around_def)

lemma refocus_correct:
  assumes "ist_wf splay" "ist_root splay \<noteq> ITE_NULL"
  shows "pieces_inorder (ist_refocus splay name) = ist_inorder splay"
    and "spines_around name (ist_refocus splay name)"
    and "stops_at name (fst (ist_refocus splay name))"
proof -
  let ?s = "(ist_root splay, ist_ltree splay, ist_rtree splay)"
  have i: "ite_inorder (ipc_splay_prim_assemble ?s) = ist_inorder splay"
    using assms by (simp add: ist_inorder_def ist_pieces_def)
  moreover have "ite_sorted (ist_inorder splay)" using assms by (simp add: ist_wf_def)
  ultimately show "pieces_inorder (ist_refocus splay name) = ist_inorder splay"
    and "spines_around name (ist_refocus splay name)"
    and "stops_at name (fst (ist_refocus splay name))"
    using assms prim_lookup_correct [of "ipc_splay_prim_assemble ?s" name]
    by (auto simp: ist_refocus_def Let_def ist_wf_def ist_inorder_def ist_pieces_def)
qed

lemma set_root_inorder [simp]: "ist_inorder (ist_set_root splay root) = ite_inorder root"
  by (simp add: ist_set_root_def ist_inorder_def ist_pieces_def pieces_inorder_def)

lemma set_root_wf: "ite_sorted (ite_inorder root) \<Longrightarrow> ist_wf (ist_set_root splay root)"
  by (auto simp: ist_wf_def)
   (auto simp: ist_set_root_def ist_pieces_def spines_around_def stops_at_def)

section \<open>The operations refine operations on the sorted list of entries\<close>

text \<open>
  A focused tree splits the sorted list of its entries at the name: \<open>entries_below\<close> and
  \<open>entries_above\<close> are what its spines and the children of its root hold.
\<close>

abbreviation entries_below :: "mach_port_t \<Rightarrow> (mach_port_t \<times> 'e) list \<Rightarrow> (mach_port_t \<times> 'e) list" where
  "entries_below name \<equiv> filter (\<lambda>x. fst x < name)"

abbreviation entries_above :: "mach_port_t \<Rightarrow> (mach_port_t \<times> 'e) list \<Rightarrow> (mach_port_t \<times> 'e) list" where
  "entries_above name \<equiv> filter (\<lambda>x. name < fst x)"

lemma focus_below:
  assumes "xs = L @ l @ (n, e) # r @ R" "ite_sorted xs"
    and "\<forall>x \<in> set L. fst x < name" "\<forall>x \<in> set R. name < fst x"
    and "name < n \<Longrightarrow> l = []" "n < name \<Longrightarrow> r = []"
  shows "entries_below name xs = (if name < n then L else if n < name then L @ l @ [(n, e)] else L @ l)"
    and "entries_above name xs = (if name < n then (n, e) # r @ R else if n < name then R else r @ R)"
    and "map_of xs name = (if n = name then Some e else None)"
proof -
  have s: "\<forall>x \<in> set l. fst x < n" "\<forall>x \<in> set r. n < fst x" 
    using assms(1,2) by (auto simp: ascending_append_iff)
  then have "n \<le> name \<longrightarrow> (\<forall>x \<in> set l. fst x < name)" "name \<le> n \<longrightarrow> (\<forall>x \<in> set r. name < fst x)"
    by fastforce+
  then have f: "n \<le> name \<Longrightarrow> entries_below name l = l \<and> entries_above name l = []"
      "name \<le> n \<Longrightarrow> entries_below name r = [] \<and> entries_above name r = r"
    by (auto simp: filter_id_conv filter_empty_conv)
  have g: "entries_below name L = L" "entries_below name R = []" "entries_above name L = []" "entries_above name R = R"
    using assms(3,4) by (auto simp: filter_id_conv filter_empty_conv)
  show "entries_below name xs = (if name < n then L else if n < name then L @ l @ [(n, e)] else L @ l)"
    using f g assms(1,5,6) by (cases "name < n"; cases "n < name") auto
  show "entries_above name xs = (if name < n then (n, e) # r @ R else if n < name then R else r @ R)"
    using f g assms(1,5,6) by (cases "name < n"; cases "n < name") auto
  have l: "name \<notin> fst ` set l" and r: "n = name \<or> name \<notin> fst ` set (r @ R)"
  proof -
    show "name \<notin> fst ` set l" using assms(5) s(1) by (cases "name < n") auto
    have "name \<notin> fst ` set r" if "n \<noteq> name"
      using that assms(6) s(2) by (cases "n < name") auto
    then show "n = name \<or> name \<notin> fst ` set (r @ R)" using assms(4) by auto
  qed
  have "name \<notin> fst ` set L" using assms(3) by auto
  with l have "map_of L name = None" "map_of l name = None"
    by (simp_all add: map_of_eq_None_iff)
  moreover have "n \<noteq> name \<Longrightarrow> map_of (r @ R) name = None"
    using r by (auto simp: map_of_eq_None_iff)
  ultimately show "map_of xs name = (if n = name then Some e else None)"
    by (simp add: assms(1) map_add_def)
qed

lemma refocus_split:
  assumes "ist_wf splay" "ist_root splay \<noteq> ITE_NULL" "ist_refocus splay name = (root, lt, rt)"
  shows "entries_below name (ist_inorder splay) = (if name < ite_name root then lspine_inorder lt
       else if ite_name root < name
       then lspine_inorder lt @ ite_inorder (ite_lchild root) @ [(ite_name root, ite_entry root)]
       else lspine_inorder lt @ ite_inorder (ite_lchild root))"
    and "entries_above name (ist_inorder splay) = (if name < ite_name root
       then (ite_name root, ite_entry root) # ite_inorder (ite_rchild root) @ rspine_inorder rt
       else if ite_name root < name then rspine_inorder rt
       else ite_inorder (ite_rchild root) @ rspine_inorder rt)"
    and "ist_map splay name = (if ite_name root = name then Some (ite_entry root) else None)"
    and "ist_inorder splay = lspine_inorder lt @ ite_inorder (ite_lchild root) @
       (ite_name root, ite_entry root) # ite_inorder (ite_rchild root) @ rspine_inorder rt"
    and "root \<noteq> ITE_NULL" "ite_inorder root = ite_inorder (ite_lchild root) @
       (ite_name root, ite_entry root) # ite_inorder (ite_rchild root)"
    and "name < ite_name root \<Longrightarrow> ite_lchild root = ITE_NULL"
    and "ite_name root < name \<Longrightarrow> ite_rchild root = ITE_NULL"
proof -
  note c = refocus_correct [OF assms(1,2), of name, unfolded assms(3)]
  from c(3) obtain l n e r where root: "root = ITE l n e r"
    by (cases root) (auto simp: stops_at_def)
  have i: "ist_inorder splay =
      lspine_inorder lt @ ite_inorder l @ (n, e) # ite_inorder r @ rspine_inorder rt"
    using c(1) by (simp add: root pieces_inorder_def)
  have s: "ite_sorted (ist_inorder splay)"
    using assms(1,2) by (simp only: ist_wf_def simp_thms)
  have around: "\<forall>x \<in> set (lspine_inorder lt). fst x < name"
      "\<forall>x \<in> set (rspine_inorder rt). name < fst x"
    using c(2) by (simp_all add: spines_around_def)
  have leaf: "name < n \<Longrightarrow> l = ITE_NULL" "n < name \<Longrightarrow> r = ITE_NULL"
    using c(3) by (simp_all add: stops_at_def root)
  then have e: "name < n \<Longrightarrow> ite_inorder l = []" "n < name \<Longrightarrow> ite_inorder r = []"
    by simp_all
  note f = focus_below [OF i s around e]
  show "entries_below name (ist_inorder splay) = (if name < ite_name root then lspine_inorder lt
       else if ite_name root < name
       then lspine_inorder lt @ ite_inorder (ite_lchild root) @ [(ite_name root, ite_entry root)]
       else lspine_inorder lt @ ite_inorder (ite_lchild root))"
    unfolding root ite.sel by (rule f(1))
  show "entries_above name (ist_inorder splay) = (if name < ite_name root
       then (ite_name root, ite_entry root) # ite_inorder (ite_rchild root) @ rspine_inorder rt
       else if ite_name root < name then rspine_inorder rt
       else ite_inorder (ite_rchild root) @ rspine_inorder rt)"
    unfolding root ite.sel by (rule f(2))
  show "ist_map splay name = (if ite_name root = name then Some (ite_entry root) else None)"
    unfolding root ite.sel by (rule f(3))
  show "ist_inorder splay = lspine_inorder lt @ ite_inorder (ite_lchild root) @
       (ite_name root, ite_entry root) # ite_inorder (ite_rchild root) @ rspine_inorder rt"
    unfolding root ite.sel by (rule i)
  show "root \<noteq> ITE_NULL" "ite_inorder root = ite_inorder (ite_lchild root) @
       (ite_name root, ite_entry root) # ite_inorder (ite_rchild root)"
    by (simp_all add: root)
  show "name < ite_name root \<Longrightarrow> ite_lchild root = ITE_NULL"
    "ite_name root < name \<Longrightarrow> ite_rchild root = ITE_NULL"
    using leaf by (simp_all add: root)
qed

lemma root_null_inorder: "ist_root splay = ITE_NULL \<longleftrightarrow> ist_inorder splay = []"
  by (auto simp: ist_inorder_def pieces_inorder_def ist_pieces_def)

lemma refocus_store:
  assumes "ist_wf splay" "ist_root splay \<noteq> ITE_NULL" "ist_refocus splay name = (root, lt, rt)"
  shows "ist_inorder (splay\<lparr>ist_root := root, ist_name := name, ist_ltree := lt, ist_rtree := rt\<rparr>) =
      ist_inorder splay"
    and "ist_wf (splay\<lparr>ist_root := root, ist_name := name, ist_ltree := lt, ist_rtree := rt\<rparr>)"
proof -
  let ?s = "splay\<lparr>ist_root := root, ist_name := name, ist_ltree := lt, ist_rtree := rt\<rparr>"
  note c = refocus_correct [OF assms(1,2), of name, unfolded assms(3)]
  show i: "ist_inorder ?s = ist_inorder splay"
    using c by (simp add: ist_inorder_def [of ?s] ist_pieces_def stops_at_def)
  show "ist_wf ?s"
    using c assms by (simp add: ist_wf_def i) (simp add: ist_pieces_def ist_wf_def)
qed

lemma lookup_correct:
  assumes "ist_wf splay"
  shows "fst (ipc_splay_tree_lookup splay name) = ist_map splay name"
    and "ist_inorder (snd (ipc_splay_tree_lookup splay name)) = ist_inorder splay"
    and "ist_wf (snd (ipc_splay_tree_lookup splay name))"
proof (atomize (full), cases "ist_root splay = ITE_NULL")
  case True
  with assms show "fst (ipc_splay_tree_lookup splay name) = ist_map splay name \<and>
      ist_inorder (snd (ipc_splay_tree_lookup splay name)) = ist_inorder splay \<and>
      ist_wf (snd (ipc_splay_tree_lookup splay name))"
    by (simp add: ipc_splay_tree_lookup_def ist_inorder_def)
next
  case False
  obtain root lt rt where f: "ist_refocus splay name = (root, lt, rt)"
    by (cases "ist_refocus splay name")
  have "(if name \<noteq> ite_name root then None else Some (ite_entry root)) = ist_map splay name"
    using refocus_split(3) [OF assms False f] by simp
  with False f refocus_store [OF assms False f]
  show "fst (ipc_splay_tree_lookup splay name) = ist_map splay name \<and>
      ist_inorder (snd (ipc_splay_tree_lookup splay name)) = ist_inorder splay \<and>
      ist_wf (snd (ipc_splay_tree_lookup splay name))"
    by (simp add: ipc_splay_tree_lookup_def)
qed

lemma insert_correct:
  assumes "ist_wf splay" "ist_map splay name = None"
  shows "ist_inorder (ipc_splay_tree_insert splay name entry) =
      entries_below name (ist_inorder splay) @ (name, entry) # entries_above name (ist_inorder splay)"
proof (cases "ist_root splay = ITE_NULL")
  case True
  then show ?thesis
    by (simp add: ipc_splay_tree_insert_def ist_inorder_def ist_pieces_def pieces_inorder_def)
next
  case False
  obtain root lt rt where f: "ist_refocus splay name = (root, lt, rt)"
    by (cases "ist_refocus splay name")
  note c = refocus_split [OF assms(1) False f]
  from c(3) assms(2) have n: "ite_name root \<noteq> name" by (auto split: if_splits)
  show ?thesis unfolding c(1,2)
    using n False f c(6-8)
    by (auto simp: ipc_splay_tree_insert_def ist_inorder_def ist_pieces_def pieces_inorder_def)
qed

lemma sorted_below_above:
  "ite_sorted xs \<Longrightarrow> ite_sorted (entries_below name xs @ entries_above name xs)"
  "ite_sorted xs \<Longrightarrow> ite_sorted (entries_below name xs @ (name, e) # entries_above name xs)"
  by (auto simp: ascending_append_iff sorted_wrt_map sorted_wrt_filter)

lemma ist_wf_sorted: "ist_wf splay \<Longrightarrow> ite_sorted (ist_inorder splay)"
  by (auto simp: ist_wf_def ist_inorder_def)

lemma insert_wf:
  assumes "ist_wf splay" "ist_map splay name = None"
  shows "ist_wf (ipc_splay_tree_insert splay name entry)"
proof -
  have "ite_sorted (ist_inorder (ipc_splay_tree_insert splay name entry))"
    unfolding insert_correct [OF assms]
    by (rule sorted_below_above(2)) (rule ist_wf_sorted [OF assms(1)])
  then show ?thesis
    by (auto simp: ist_wf_def ipc_splay_tree_insert_def ist_pieces_def spines_around_def stops_at_def
        split: prod.split)
qed

lemma prim_lookup_largest:
  assumes "t \<noteq> ITE_NULL" "ite_sorted (ite_inorder t)"
  shows "ite_rchild (ipc_splay_prim_assemble (ipc_splay_prim_lookup MACH_PORT_LARGEST t)) = ITE_NULL"
proof -
  obtain u lt rt where f: "ipc_splay_prim_lookup MACH_PORT_LARGEST t = (u, lt, rt)"
    by (cases "ipc_splay_prim_lookup MACH_PORT_LARGEST t")
  note c = prim_lookup_correct [OF assms, of MACH_PORT_LARGEST, unfolded f]
  have no: "\<not> MACH_PORT_LARGEST < n" for n :: mach_port_t
    by (simp add: MACH_PORT_LARGEST_def)
  have rt: "rspine_inorder rt = []"
    using c(2) no by (cases "rspine_inorder rt") (auto simp: spines_around_def)
  have u: "u \<noteq> ITE_NULL" using c(3) by (simp add: stops_at_def)
  have "ite_rchild u = ITE_NULL"
  proof (cases "ite_name u = MACH_PORT_LARGEST")
    case True
    have "ite_sorted (ite_inorder u)"
      using assms(2) c(1) by (simp add: pieces_inorder_def ascending_append_iff flip: c(1))
    then have "\<forall>x \<in> set (ite_inorder (ite_rchild u)). ite_name u < fst x"
      using u by (cases u) (auto simp: ascending_append_iff)
    with True no show ?thesis
      by (metis ite_inorder_Nil_iff list.set_intros(1) neq_Nil_conv)
  next
    case False
    then have "ite_name u < MACH_PORT_LARGEST" using no by (meson linorder_neqE)
    then show ?thesis using c(3) by (simp add: stops_at_def)
  qed
  moreover have "store_rtreep rt ITE_NULL = ITE_NULL"
    using rt by (metis append_Nil ite_inorder.simps(1) ite_inorder_Nil_iff store_rtreep_inorder)
  ultimately show ?thesis
    by (simp add: f ipc_splay_prim_assemble_def)
qed

lemma set_rchild_inorder:
  "t \<noteq> ITE_NULL \<Longrightarrow> ite_rchild t = ITE_NULL \<Longrightarrow>
   ite_inorder (set_rchild t r) = ite_inorder t @ ite_inorder r"
  by (cases t) auto

lemma set_lchild_inorder:
  "t \<noteq> ITE_NULL \<Longrightarrow> ite_lchild t = ITE_NULL \<Longrightarrow>
   ite_inorder (set_lchild t l) = ite_inorder l @ ite_inorder t"
  by (cases t) auto

lemma delete_correct:
  assumes "ist_wf splay" "ist_map splay name = Some e"
  shows "ist_inorder (ipc_splay_tree_delete splay name) =
      entries_below name (ist_inorder splay) @ entries_above name (ist_inorder splay)"
    and "ist_wf (ipc_splay_tree_delete splay name)"
proof -
  have nn: "ist_root splay \<noteq> ITE_NULL"
    using assms(2) by (auto simp: ist_inorder_def)
  obtain root lt rt where f: "ist_refocus splay name = (root, lt, rt)"
    by (cases "ist_refocus splay name")
  note c = refocus_split [OF assms(1) nn f]
  let ?L = "store_ltreep lt (ite_lchild root)" and ?R = "store_rtreep rt (ite_rchild root)"
  define root' where "root' = (if ?L = ITE_NULL then ?R
      else if ?R \<noteq> ITE_NULL then set_rchild (ipc_splay_prim_assemble
             (ipc_splay_prim_lookup MACH_PORT_LARGEST ?L)) ?R else ?L)"
  from c(3) assms(2) have n: "ite_name root = name" by (auto split: if_splits)
  have i: "ite_inorder ?L = entries_below name (ist_inorder splay)"
      "ite_inorder ?R = entries_above name (ist_inorder splay)"
    unfolding c(1,2) using n by simp_all
  have s: "ite_sorted (ite_inorder ?L @ ite_inorder ?R)"
    unfolding i by (rule sorted_below_above(1) [OF ist_wf_sorted [OF assms(1)]])
  have sL: "ite_sorted (ite_inorder ?L)" using s by (simp add: ascending_append_iff)
  have r: "ite_inorder root' = ite_inorder ?L @ ite_inorder ?R"
  proof (cases "?L = ITE_NULL \<or> ?R = ITE_NULL")
    case True
    then show ?thesis by (auto simp: root'_def simp del: store_ltreep_inorder store_rtreep_inorder)
  next
    case False
    then have L: "?L \<noteq> ITE_NULL" and R: "?R \<noteq> ITE_NULL" by simp_all
    let ?p = "ipc_splay_prim_lookup MACH_PORT_LARGEST ?L"
    have "fst ?p \<noteq> ITE_NULL" using prim_lookup_correct(3) [OF L sL] by (simp add: stops_at_def)
    then have "ite_inorder (ipc_splay_prim_assemble ?p) = ite_inorder ?L"
      using prim_lookup_correct(1) [OF L sL] by simp
    then show ?thesis
      using L R set_rchild_inorder [OF prim_assemble_nonnull prim_lookup_largest [OF L sL], of ?R]
      by (simp add: root'_def del: store_ltreep_inorder store_rtreep_inorder)
  qed
  have d: "ipc_splay_tree_delete splay name = ist_set_root splay root'"
    by (simp add: ipc_splay_tree_delete_def f root'_def Let_def)
  show "ist_inorder (ipc_splay_tree_delete splay name) =
      entries_below name (ist_inorder splay) @ entries_above name (ist_inorder splay)"
    unfolding d set_root_inorder r i ..
  show "ist_wf (ipc_splay_tree_delete splay name)"
    unfolding d by (rule set_root_wf) (use r s in simp)
qed

abbreviation entries_from :: "mach_port_t \<Rightarrow> (mach_port_t \<times> 'e) list \<Rightarrow> (mach_port_t \<times> 'e) list" where
  "entries_from name \<equiv> filter (\<lambda>x. name \<le> fst x)"

abbreviation entries_upto :: "mach_port_t \<Rightarrow> (mach_port_t \<times> 'e) list \<Rightarrow> (mach_port_t \<times> 'e) list" where
  "entries_upto name \<equiv> filter (\<lambda>x. fst x \<le> name)"

lemma filter_partition_sorted:
  "ite_sorted xs \<Longrightarrow> entries_below name xs @ entries_from name xs = xs"
  "ite_sorted xs \<Longrightarrow> entries_upto name xs @ entries_above name xs = xs"
proof -
  assume s: "ite_sorted xs"
  then show "entries_below name xs @ entries_from name xs = xs"
  proof (induction xs)
    case (Cons x xs)
    then have "\<not> fst x < name \<longrightarrow> entries_below name xs = []"
      by (fastforce simp: filter_empty_conv)
    with Cons show ?case by auto
  qed simp
  from s show "entries_upto name xs @ entries_above name xs = xs"
  proof (induction xs)
    case (Cons x xs)
    then have "\<not> fst x \<le> name \<longrightarrow> entries_upto name xs = []"
      by (fastforce simp: filter_empty_conv)
    with Cons show ?case by auto
  qed simp
qed

lemma refocus_from:
  assumes "ist_wf splay" "ist_root splay \<noteq> ITE_NULL" "ist_refocus splay name = (root, lt, rt)"
  shows "entries_from name (ist_inorder splay) = (if ite_name root < name then rspine_inorder rt
     else (ite_name root, ite_entry root) # ite_inorder (ite_rchild root) @ rspine_inorder rt)"
proof -
  note c = refocus_split [OF assms]
  have "entries_below name (ist_inorder splay) @ entries_from name (ist_inorder splay)
     = lspine_inorder lt @ ite_inorder (ite_lchild root) @
       (ite_name root, ite_entry root) # ite_inorder (ite_rchild root) @ rspine_inorder rt"
    by (simp only: filter_partition_sorted [OF ist_wf_sorted [OF assms(1)]] flip: c(4))
  then show ?thesis unfolding c(1) using c(7,8) by (cases "ite_name root < name"; cases "name < ite_name root") auto
qed

lemma sorted_filter: "ite_sorted xs \<Longrightarrow> ite_sorted (filter P xs)"
  by (simp add: sorted_wrt_map sorted_wrt_filter)

lemma split_correct:
  assumes "ist_wf splay"
  shows "ist_inorder (fst (ipc_splay_tree_split splay name small)) = entries_from name (ist_inorder splay)
    \<and> ist_inorder (snd (ipc_splay_tree_split splay name small)) = entries_below name (ist_inorder splay)
    \<and> ist_wf (fst (ipc_splay_tree_split splay name small)) \<and> ist_wf (snd (ipc_splay_tree_split splay name small))"
proof (cases "ist_root splay = ITE_NULL")
  case True
  with assms show ?thesis
    by (simp add: ipc_splay_tree_split_def ist_inorder_def ipc_splay_tree_init_def ist_wf_def)
next
  case False
  obtain root lt rt where f: "ist_refocus splay name = (root, lt, rt)"
    by (cases "ist_refocus splay name")
  note c = refocus_split [OF assms False f] and g = refocus_from [OF assms False f]
  note s = ist_wf_sorted [OF assms]
  let ?small = "ipc_splay_tree_init small"
  show ?thesis
  proof (cases "ite_name root < name")
    case True
    let ?r = "store_rtreep rt ITE_NULL" and ?l = "set_lchild root (store_ltreep lt (ite_lchild root))"
    have e: "ipc_splay_tree_split splay name small = (ist_set_root splay ?r, ist_set_root ?small ?l)"
      using True by (simp add: ipc_splay_tree_split_def False f Let_def)
    have i: "ite_inorder ?r = entries_from name (ist_inorder splay)"
       "ite_inorder ?l = entries_below name (ist_inorder splay)"
      unfolding g c(1) using True c(5,8) by (cases root; simp)+
    show ?thesis unfolding e fst_conv snd_conv set_root_inorder i
      using i sorted_filter [OF s] by (auto intro!: set_root_wf)
  next
    case ge: False
    let ?l = "store_ltreep lt (ite_lchild root)"
    let ?s = "splay\<lparr>ist_root := set_lchild root ITE_NULL, ist_name := name, ist_ltree := [], ist_rtree := rt\<rparr>"
    have e: "ipc_splay_tree_split splay name small = (?s, ist_set_root ?small ?l)"
      using ge by (simp add: ipc_splay_tree_split_def False f Let_def)
    have i: "ist_inorder ?s = entries_from name (ist_inorder splay)"
       "ite_inorder ?l = entries_below name (ist_inorder splay)"
      unfolding g c(1) using ge c(5,7)
      by (cases root; simp add: ist_inorder_def ist_pieces_def pieces_inorder_def)+
    have "spines_around name (set_lchild root ITE_NULL, [], rt)"
      using refocus_correct(2) [OF assms False, of name] by (simp add: f spines_around_def)
    moreover have "stops_at name (set_lchild root ITE_NULL)"
      using c(5) ge by (cases root) (auto simp: stops_at_def)
    ultimately have "ist_wf ?s"
      using sorted_filter [OF s] by (auto simp: ist_wf_def i) (simp add: ist_pieces_def)
    then show ?thesis unfolding e fst_conv snd_conv set_root_inorder i
      using i sorted_filter [OF s] by (auto intro!: set_root_wf)
  qed
qed

lemma assembled_smallest:
  assumes "ist_wf splay" "ist_root splay \<noteq> ITE_NULL"
  shows "ite_lchild (ipc_splay_prim_assemble (ist_refocus splay MACH_PORT_SMALLEST)) = ITE_NULL"
    and "ite_inorder (ipc_splay_prim_assemble (ist_refocus splay MACH_PORT_SMALLEST)) = ist_inorder splay"
proof -
  obtain root lt rt where f: "ist_refocus splay MACH_PORT_SMALLEST = (root, lt, rt)"
    by (cases "ist_refocus splay MACH_PORT_SMALLEST")
  note c = refocus_split [OF assms f]
  have "entries_below MACH_PORT_SMALLEST (ist_inorder splay) = []"
    by (simp add: MACH_PORT_SMALLEST_def)
  then have "ite_inorder (store_ltreep lt (ite_lchild root)) = []"
    unfolding c(1) using c(7) by (auto split: if_splits)
  then show "ite_lchild (ipc_splay_prim_assemble (ist_refocus splay MACH_PORT_SMALLEST)) = ITE_NULL"
    unfolding ite_inorder_Nil_iff f by (simp add: ipc_splay_prim_assemble_def)
  show "ite_inorder (ipc_splay_prim_assemble (ist_refocus splay MACH_PORT_SMALLEST)) = ist_inorder splay"
    using refocus_correct(1) [OF assms, of MACH_PORT_SMALLEST] c(5) by (simp add: f)
qed

lemma join_correct:
  assumes "ist_wf splay" "ist_wf small"
    and "\<forall>x \<in> set (ist_inorder small). \<forall>y \<in> set (ist_inorder splay). fst x < fst y"
  shows "ist_inorder (fst (ipc_splay_tree_join splay small)) = ist_inorder small @ ist_inorder splay
    \<and> ist_inorder (snd (ipc_splay_tree_join splay small)) = []
    \<and> ist_wf (fst (ipc_splay_tree_join splay small)) \<and> ist_wf (snd (ipc_splay_tree_join splay small))"
proof (cases "ist_root small = ITE_NULL")
  case True
  with assms show ?thesis
    by (simp add: ipc_splay_tree_join_def ist_inorder_def)
next
  case False
  let ?sroot = "ipc_splay_prim_assemble (ist_root small, ist_ltree small, ist_rtree small)"
  define root where "root = (if ist_root splay = ITE_NULL then ?sroot
     else set_lchild (ipc_splay_prim_assemble (ist_refocus splay MACH_PORT_SMALLEST)) ?sroot)"
  have j: "ipc_splay_tree_join splay small = (ist_set_root splay root, small\<lparr>ist_root := ITE_NULL\<rparr>)"
    using False by (simp add: ipc_splay_tree_join_def root_def Let_def)
  have s: "ite_inorder ?sroot = ist_inorder small"
    using False by (simp add: ist_inorder_def ist_pieces_def)
  have r: "ite_inorder root = ist_inorder small @ ist_inorder splay"
    using s assembled_smallest [OF assms(1)]
    by (simp add: root_def set_lchild_inorder root_null_inorder)
  have "ite_sorted (ite_inorder root)"
    unfolding r using assms by (simp add: ascending_append_iff ist_wf_sorted)
  then have "ist_wf (ist_set_root splay root)" by (rule set_root_wf)
  moreover have "ist_inorder (small\<lparr>ist_root := ITE_NULL\<rparr>) = []" "ist_wf (small\<lparr>ist_root := ITE_NULL\<rparr>)"
    by (simp_all add: ist_inorder_def ist_wf_def)
  ultimately show ?thesis
    unfolding j fst_conv snd_conv set_root_inorder r by simp
qed

lemma refocus_upto:
  assumes "ist_wf splay" "ist_root splay \<noteq> ITE_NULL" "ist_refocus splay name = (root, lt, rt)"
  shows "entries_upto name (ist_inorder splay) = (if name < ite_name root then lspine_inorder lt
     else lspine_inorder lt @ ite_inorder (ite_lchild root) @ [(ite_name root, ite_entry root)])"
proof -
  note c = refocus_split [OF assms]
  have "entries_upto name (ist_inorder splay) @ entries_above name (ist_inorder splay)
     = lspine_inorder lt @ ite_inorder (ite_lchild root) @
       (ite_name root, ite_entry root) # ite_inorder (ite_rchild root) @ rspine_inorder rt"
    by (simp only: filter_partition_sorted [OF ist_wf_sorted [OF assms(1)]] flip: c(4))
  then show ?thesis unfolding c(2) using c(7,8) by (cases "ite_name root < name"; cases "name < ite_name root") auto
qed

definition lower_bound :: "mach_port_t \<Rightarrow> (mach_port_t \<times> 'e) list \<Rightarrow> mach_port_t" where
  "lower_bound name xs =
     (case rev (entries_upto name xs) of [] \<Rightarrow> MACH_PORT_LARGEST | x # _ \<Rightarrow> fst x)"

definition upper_bound :: "mach_port_t \<Rightarrow> (mach_port_t \<times> 'e) list \<Rightarrow> mach_port_t" where
  "upper_bound name xs =
     (case entries_from name xs of [] \<Rightarrow> MACH_PORT_SMALLEST | x # _ \<Rightarrow> fst x)"

lemma bounds_correct:
  assumes "ist_wf splay"
  shows "fst (ipc_splay_tree_bounds splay name)
      = (lower_bound name (ist_inorder splay), upper_bound name (ist_inorder splay))"
    and "ist_inorder (snd (ipc_splay_tree_bounds splay name)) = ist_inorder splay"
    and "ist_wf (snd (ipc_splay_tree_bounds splay name))"
proof (atomize (full), cases "ist_root splay = ITE_NULL")
  case True
  then show "fst (ipc_splay_tree_bounds splay name)
      = (lower_bound name (ist_inorder splay), upper_bound name (ist_inorder splay)) \<and>
     ist_inorder (snd (ipc_splay_tree_bounds splay name)) = ist_inorder splay \<and>
     ist_wf (snd (ipc_splay_tree_bounds splay name))"
    using assms
    by (simp add: ipc_splay_tree_bounds_def lower_bound_def upper_bound_def ist_inorder_def)
next
  case False
  obtain root lt rt where f: "ist_refocus splay name = (root, lt, rt)"
    by (cases "ist_refocus splay name")
  have l: "lower_bound name (ist_inorder splay) = (if ite_name root \<le> name then ite_name root
       else case lt of [] \<Rightarrow> MACH_PORT_LARGEST | (_, n, _) # _ \<Rightarrow> n)"
    unfolding lower_bound_def refocus_upto [OF assms False f]
    by (auto split: list.split)
  have u: "upper_bound name (ist_inorder splay) = (if ite_name root \<ge> name then ite_name root
       else case rt of [] \<Rightarrow> MACH_PORT_SMALLEST | (_, n, _) # _ \<Rightarrow> n)"
    unfolding upper_bound_def refocus_from [OF assms False f]
    by (auto split: list.split)
  show "fst (ipc_splay_tree_bounds splay name)
      = (lower_bound name (ist_inorder splay), upper_bound name (ist_inorder splay)) \<and>
     ist_inorder (snd (ipc_splay_tree_bounds splay name)) = ist_inorder splay \<and>
     ist_wf (snd (ipc_splay_tree_bounds splay name))"
    unfolding l u using refocus_store [OF assms False f] False
    by (simp add: ipc_splay_tree_bounds_def f)
qed

section \<open>Traversal by pointer inversion\<close>

text \<open>
  During a traversal \<open>ist_ltree\<close> holds the current entry and \<open>ist_rtree\<close> its parent. On the path from
  the current entry to the root the pointers are inverted: a parent reached through its left (right)
  child has the pointer to its own parent in \<open>ite_lchild\<close> (\<open>ite_rchild\<close>), which is the frame
  \<open>FL\<close> (\<open>FR\<close>) with the fields that are left. The code does not record which of the two it is: it
  compares names. \<open>None\<close> is a comparison that picks the wrong field.
\<close>

datatype 'e frame = FL mach_port_t 'e "'e ite" | FR "'e ite" mach_port_t 'e

datatype 'e traversal = Finished "'e ite" | Current "'e ite" "'e frame list"

fun traverse_left :: "'e ite \<Rightarrow> 'e frame list \<Rightarrow> 'e traversal" where
  "traverse_left (ITE l n e r) parent =
     (if l \<noteq> ITE_NULL then traverse_left l (FL n e r # parent) else Current (ITE l n e r) parent)"
| "traverse_left ITE_NULL parent = Current ITE_NULL parent"

fun traverse_back :: "'e ite \<Rightarrow> 'e frame list \<Rightarrow> 'e traversal option" where
  "traverse_back current [] = Some (Finished current)"
| "traverse_back current (FL n e r # parent) =
     (if ite_name current < n then Some (Current (ITE current n e r) parent) else None)"
| "traverse_back current (FR l n e # parent) =
     (if ite_name current < n then None else traverse_back (ITE l n e current) parent)"

fun traverse_right :: "'e ite \<Rightarrow> 'e frame list \<Rightarrow> 'e traversal option" where
  "traverse_right (ITE l n e r) parent =
     (if r \<noteq> ITE_NULL then Some (traverse_left r (FR l n e # parent))
      else traverse_back (ITE l n e r) parent)"
| "traverse_right ITE_NULL parent = None"

fun delete_leaf :: "mach_port_t \<Rightarrow> 'e frame list \<Rightarrow> 'e traversal option" where
  "delete_leaf name [] = Some (Finished ITE_NULL)"
| "delete_leaf name (FL n e r # parent) =
     (if name < n then Some (Current (ITE ITE_NULL n e r) parent) else None)"
| "delete_leaf name (FR l n e # parent) =
     (if name < n then None else traverse_back (ITE l n e ITE_NULL) parent)"

definition ipc_splay_traverse_start :: "'e ipc_splay_tree \<Rightarrow> 'e traversal" where
  "ipc_splay_traverse_start splay =
     (if ist_root splay \<noteq> ITE_NULL
      then traverse_left (ipc_splay_prim_assemble
             (ist_root splay, ist_ltree splay, ist_rtree splay)) []
      else Finished ITE_NULL)"

fun ipc_splay_traverse_next :: "'e traversal \<Rightarrow> bool \<Rightarrow> 'e traversal option" where
  "ipc_splay_traverse_next (Current (ITE l n e r) parent) delete =
     (if \<not> delete then traverse_right (ITE l n e r) parent
      else if l = ITE_NULL then
        (if r = ITE_NULL then delete_leaf n parent else Some (traverse_left r parent))
      else if r = ITE_NULL then traverse_back l parent
      else traverse_right (set_rchild
             (ipc_splay_prim_assemble (ipc_splay_prim_lookup MACH_PORT_LARGEST l)) r) parent)"
| "ipc_splay_traverse_next _ delete = None"

definition ipc_splay_traverse_finish ::
  "'e ipc_splay_tree \<Rightarrow> 'e ite \<Rightarrow> 'e ipc_splay_tree" where
  "ipc_splay_traverse_finish splay root = ist_set_root splay root"

fun frames_left :: "'e frame list \<Rightarrow> (mach_port_t \<times> 'e) list" where
  "frames_left [] = []"
| "frames_left (FL n e r # ps) = frames_left ps"
| "frames_left (FR l n e # ps) = frames_left ps @ ite_inorder l @ [(n, e)]"

fun frames_right :: "'e frame list \<Rightarrow> (mach_port_t \<times> 'e) list" where
  "frames_right [] = []"
| "frames_right (FL n e r # ps) = (n, e) # ite_inorder r @ frames_right ps"
| "frames_right (FR l n e # ps) = frames_right ps"

fun visited :: "'e traversal \<Rightarrow> (mach_port_t \<times> 'e) list" where
  "visited (Finished t) = ite_inorder t"
| "visited (Current t ps) = frames_left ps @ ite_inorder (ite_lchild t)"

fun to_visit :: "'e traversal \<Rightarrow> (mach_port_t \<times> 'e) list" where
  "to_visit (Finished t) = []"
| "to_visit (Current t ps) =
     (ite_name t, ite_entry t) # ite_inorder (ite_rchild t) @ frames_right ps"

fun proper :: "'e traversal \<Rightarrow> bool" where
  "proper (Finished t) = True"
| "proper (Current t ps) = (t \<noteq> ITE_NULL)"

lemma traverse_left_visits:
  assumes "t \<noteq> ITE_NULL"
  shows "visited (traverse_left t ps) = frames_left ps"
    and "to_visit (traverse_left t ps) = ite_inorder t @ frames_right ps"
    and "proper (traverse_left t ps)"
  using assms by (induction t ps rule: traverse_left.induct) auto

lemma traverse_back_visits:
  assumes "t \<noteq> ITE_NULL" "ite_sorted (frames_left ps @ ite_inorder t @ frames_right ps)"
  shows "\<exists>st. traverse_back t ps = Some st \<and> visited st = frames_left ps @ ite_inorder t \<and>
    to_visit st = frames_right ps \<and> proper st"
  using assms
proof (induction t ps rule: traverse_back.induct)
  case (2 t n e r ps)
  then have "ite_name t < n" by (cases t) (auto simp: ascending_append_iff)
  with 2 show ?case by simp
next
  case (3 t l n e ps)
  then have "\<not> ite_name t < n" by (cases t) (auto simp: ascending_append_iff)
  with 3 show ?case by simp
qed auto

lemma delete_leaf_visits:
  assumes "ite_sorted (frames_left ps @ (name, e) # frames_right ps)"
  shows "\<exists>st. delete_leaf name ps = Some st \<and> visited st = frames_left ps \<and>
    to_visit st = frames_right ps \<and> proper st"
proof (cases "(name, ps)" rule: delete_leaf.cases)
  case (3 m l n e ps')
  then have "\<not> name < n" using assms by (auto simp: ascending_append_iff)
  moreover have "ite_sorted (frames_left ps' @ ite_inorder (ITE l n e ITE_NULL) @ frames_right ps')"
    using assms 3 by (auto simp: ascending_append_iff)
  ultimately show ?thesis
    using traverse_back_visits [of "ITE l n e ITE_NULL" ps'] 3 by auto
qed (use assms in \<open>auto simp: ascending_append_iff\<close>)

lemma traverse_right_visits:
  assumes "t \<noteq> ITE_NULL" "ite_sorted (frames_left ps @ ite_inorder t @ frames_right ps)"
  shows "\<exists>st. traverse_right t ps = Some st \<and>
    visited st = frames_left ps @ ite_inorder (ite_lchild t) @ [(ite_name t, ite_entry t)] \<and>
    to_visit st = ite_inorder (ite_rchild t) @ frames_right ps \<and> proper st"
  using traverse_back_visits [OF assms] assms
  by (cases t) (auto simp: traverse_left_visits)

lemma set_rchild_simps [simp]:
  "t \<noteq> ITE_NULL \<Longrightarrow> ite_lchild (set_rchild t r) = ite_lchild t"
  "t \<noteq> ITE_NULL \<Longrightarrow> ite_name (set_rchild t r) = ite_name t"
  "t \<noteq> ITE_NULL \<Longrightarrow> ite_entry (set_rchild t r) = ite_entry t"
  "t \<noteq> ITE_NULL \<Longrightarrow> ite_rchild (set_rchild t r) = r"
  "set_rchild t r = ITE_NULL \<longleftrightarrow> t = ITE_NULL"
  by (cases t; simp)+

lemma inorder_last:
  "t \<noteq> ITE_NULL \<Longrightarrow> ite_rchild t = ITE_NULL \<Longrightarrow>
   ite_inorder t = ite_inorder (ite_lchild t) @ [(ite_name t, ite_entry t)]"
  by (cases t) auto

lemma traverse_next_visits:
  assumes "ite_sorted (visited st @ to_visit st)" "proper st" "to_visit st = x # xs"
  shows "\<exists>st'. ipc_splay_traverse_next st delete = Some st' \<and>
    visited st' = visited st @ (if delete then [] else [x]) \<and> to_visit st' = xs \<and> proper st'"
proof -
  obtain l n e r ps where st: "st = Current (ITE l n e r) ps"
    using assms(2,3) by (cases st rule: to_visit.cases) (auto, metis ite.exhaust)
  have x: "x = (n, e)" "xs = ite_inorder r @ frames_right ps" using assms(3) st by auto
  have sorted: "ite_sorted (frames_left ps @ ite_inorder (ITE l n e r) @ frames_right ps)"
    using assms(1) by (simp add: st)
  then have sl: "ite_sorted (ite_inorder l)" by (simp add: ascending_append_iff)
  consider "\<not> delete" | "delete" "l = ITE_NULL" "r = ITE_NULL" | "delete" "l = ITE_NULL" "r \<noteq> ITE_NULL"
    | "delete" "l \<noteq> ITE_NULL" "r = ITE_NULL" | "delete" "l \<noteq> ITE_NULL" "r \<noteq> ITE_NULL" by blast
  then show ?thesis
  proof cases
    case 1
    then show ?thesis using traverse_right_visits [OF _ sorted] by (auto simp: st x)
  next
    case 2
    then show ?thesis using delete_leaf_visits [of ps n e] sorted by (auto simp: st x)
  next
    case 3
    then show ?thesis using traverse_left_visits [of r ps] by (auto simp: st x)
  next
    case 4
    then show ?thesis using traverse_back_visits [of l ps] sorted
      by (auto simp: st x ascending_append_iff)
  next
    case 5
    let ?a = "ipc_splay_prim_assemble (ipc_splay_prim_lookup MACH_PORT_LARGEST l)"
    note c = prim_lookup_correct [OF 5(2) sl, of MACH_PORT_LARGEST]
    have i: "ite_inorder ?a = ite_inorder l" using c by (simp add: stops_at_def)
    have a: "ite_rchild ?a = ITE_NULL" by (rule prim_lookup_largest [OF 5(2) sl])
    have "ite_sorted (frames_left ps @ ite_inorder (set_rchild ?a r) @ frames_right ps)"
      using sorted by (simp add: set_rchild_inorder [OF prim_assemble_nonnull a] i ascending_append_iff)
    then show ?thesis
      using traverse_right_visits [of "set_rchild ?a r" ps] 5 inorder_last [OF prim_assemble_nonnull a] i
      by (auto simp: st x)
  qed
qed

lemma traverse_back_to_visit:
  "traverse_back t ps = Some st \<Longrightarrow> to_visit st = frames_right ps"
  by (induction t ps rule: traverse_back.induct) (auto split: if_splits)

lemma traverse_right_to_visit:
  "traverse_right t ps = Some st \<Longrightarrow> to_visit st = ite_inorder (ite_rchild t) @ frames_right ps"
  by (cases t) (auto simp: traverse_left_visits dest: traverse_back_to_visit split: if_splits)

lemma delete_leaf_to_visit:
  "delete_leaf n ps = Some st \<Longrightarrow> to_visit st = frames_right ps"
  by (cases "(n, ps)" rule: delete_leaf.cases)
    (auto dest: traverse_back_to_visit split: if_splits)

lemma traverse_next_decreases:
  assumes "ipc_splay_traverse_next st delete = Some st'"
  shows "length (to_visit st') < length (to_visit st)"
  using assms
  by (cases "(st, delete)" rule: ipc_splay_traverse_next.cases)
   (auto simp: traverse_left_visits simp del: traverse_right.simps split: if_splits
     dest!: traverse_right_to_visit traverse_back_to_visit delete_leaf_to_visit)

fun set_entry :: "'e ite \<Rightarrow> 'e \<Rightarrow> 'e ite" where
  "set_entry (ITE l n _ r) e = ITE l n e r"
| "set_entry ITE_NULL e = ITE_NULL"

lemma set_entry_rchild [simp]: "ite_rchild (set_entry t e) = ite_rchild t"
  by (cases t) auto

definition store_current :: "'e ite \<Rightarrow> 'e option \<Rightarrow> 'e ite" where
  "store_current t keep = (case keep of None \<Rightarrow> t | Some e \<Rightarrow> set_entry t e)"

function traverse_loop ::
  "('s \<Rightarrow> mach_port_t \<Rightarrow> 'e \<Rightarrow> 'e option \<times> 's) \<Rightarrow> 'e traversal \<Rightarrow> 's \<Rightarrow> ('e ite \<times> 's) option" where
  "traverse_loop body (Finished root) s = Some (root, s)"
| "traverse_loop body (Current t ps) s =
     (let (keep, s') = body s (ite_name t) (ite_entry t) in
      case ipc_splay_traverse_next (Current (store_current t keep) ps) (keep = None) of
        None \<Rightarrow> None
      | Some st \<Rightarrow> traverse_loop body st s')"
  by pat_completeness auto
termination
  by (relation "measure (\<lambda>(body, st, s). length (to_visit st))")
   (auto simp: store_current_def split: option.splits dest!: traverse_next_decreases)

definition ipc_splay_traverse ::
  "('s \<Rightarrow> mach_port_t \<Rightarrow> 'e \<Rightarrow> 'e option \<times> 's) \<Rightarrow> 'e ipc_splay_tree \<Rightarrow> 's \<Rightarrow>
   ('e ipc_splay_tree \<times> 's) option" where
  "ipc_splay_traverse body splay s =
     (case traverse_loop body (ipc_splay_traverse_start splay) s of
        None \<Rightarrow> None
      | Some (root, s') \<Rightarrow> Some (ipc_splay_traverse_finish splay root, s'))"

fun traverse_fold ::
  "('s \<Rightarrow> mach_port_t \<Rightarrow> 'e \<Rightarrow> 'e option \<times> 's) \<Rightarrow> (mach_port_t \<times> 'e) list \<Rightarrow> 's \<Rightarrow>
   (mach_port_t \<times> 'e) list \<times> 's" where
  "traverse_fold body [] s = ([], s)"
| "traverse_fold body ((n, e) # xs) s =
     (let (keep, s') = body s n e; (ys, s'') = traverse_fold body xs s' in
      (case keep of None \<Rightarrow> ys | Some e' \<Rightarrow> (n, e') # ys, s''))"

lemma store_current_sel:
  "t \<noteq> ITE_NULL \<Longrightarrow> ite_lchild (store_current t k) = ite_lchild t"
  "t \<noteq> ITE_NULL \<Longrightarrow> ite_rchild (store_current t k) = ite_rchild t"
  "t \<noteq> ITE_NULL \<Longrightarrow> ite_name (store_current t k) = ite_name t"
  "t \<noteq> ITE_NULL \<Longrightarrow> ite_entry (store_current t k) = (case k of None \<Rightarrow> ite_entry t | Some e \<Rightarrow> e)"
  "t \<noteq> ITE_NULL \<Longrightarrow> store_current t k \<noteq> ITE_NULL"
  by (cases t; simp add: store_current_def split: option.split)+

lemma traverse_loop_correct:
  assumes "ite_sorted (visited st @ to_visit st)" "proper st"
  shows "\<exists>root. traverse_loop body st s = Some (root, snd (traverse_fold body (to_visit st) s)) \<and>
    ite_inorder root = visited st @ fst (traverse_fold body (to_visit st) s)"
  using assms
proof (induction body st s rule: traverse_loop.induct)
  case (2 body t ps s)
  obtain keep s' where b: "body s (ite_name t) (ite_entry t) = (keep, s')" by fastforce
  have t: "t \<noteq> ITE_NULL" using 2 by simp
  let ?x = "(ite_name t, case keep of None \<Rightarrow> ite_entry t | Some e \<Rightarrow> e)"
  let ?c = "Current (store_current t keep) ps" and ?xs = "ite_inorder (ite_rchild t) @ frames_right ps"
  have c: "visited ?c = visited (Current t ps)" "to_visit ?c = ?x # ?xs" "proper ?c"
    using t by (simp_all add: store_current_sel)
  have sorted: "ite_sorted (visited ?c @ to_visit ?c)"
    unfolding c(1,2) using 2 by simp
  from traverse_next_visits [OF this c(3) c(2), of "keep = None"]
  obtain st' where n: "ipc_splay_traverse_next ?c (keep = None) = Some st'"
      "visited st' = visited (Current t ps) @ (if keep = None then [] else [?x])"
      "to_visit st' = ?xs" "proper st'"
    unfolding c(1) by blast
  have "ite_sorted (visited st' @ to_visit st')"
    unfolding n(2,3) using sorted unfolding c by (auto simp: ascending_append_iff)
  from "2.IH" [OF b [symmetric] refl n(1) this n(4)] n b
  show ?case
    by (auto simp: Let_def case_prod_beta split: option.split)
qed simp

lemma traverse_fold_names:
  "fst ` set (fst (traverse_fold body xs s)) \<subseteq> fst ` set xs"
proof (induction xs arbitrary: s)
  case (Cons x xs)
  then show ?case
    by (cases x) (fastforce simp: Let_def case_prod_beta split: option.splits)
qed simp

lemma traverse_fold_sorted:
  "ite_sorted xs \<Longrightarrow> ite_sorted (fst (traverse_fold body xs s))"
proof (induction xs arbitrary: s)
  case (Cons x xs)
  obtain n e where x: "x = (n, e)" by (cases x)
  have "\<forall>y \<in> set (fst (traverse_fold body xs s')). n < fst y" for s'
    using traverse_fold_names [of body xs s'] Cons.prems by (fastforce simp: x)
  with Cons show ?case by (auto simp: x Let_def case_prod_beta split: option.splits)
qed simp

lemma traverse_correct:
  assumes "ist_wf splay"
  shows "\<exists>splay'. ipc_splay_traverse body splay s =
      Some (splay', snd (traverse_fold body (ist_inorder splay) s)) \<and>
    ist_inorder splay' = fst (traverse_fold body (ist_inorder splay) s) \<and> ist_wf splay'"
proof -
  let ?st = "ipc_splay_traverse_start splay"
  have st: "visited ?st = []" "to_visit ?st = ist_inorder splay" "proper ?st"
    by (simp_all add: ipc_splay_traverse_start_def ist_inorder_def ist_pieces_def traverse_left_visits)
  have sorted: "ite_sorted (visited ?st @ to_visit ?st)"
    using st ist_wf_sorted [OF assms] by simp
  from traverse_loop_correct [OF this st(3), of body s] obtain root where
    r: "traverse_loop body ?st s = Some (root, snd (traverse_fold body (ist_inorder splay) s))"
       "ite_inorder root = fst (traverse_fold body (ist_inorder splay) s)"
    unfolding st by auto
  have "ist_wf (ist_set_root splay root)"
    by (rule set_root_wf) (simp add: r traverse_fold_sorted ist_wf_sorted [OF assms])
  with r show ?thesis
    by (simp add: ipc_splay_traverse_def ipc_splay_traverse_finish_def)
qed

section \<open>Writing an entry in place\<close>

text \<open>
  The callers of the tree keep the pointer that a lookup returned and assign to the fields of the
  entry. \<open>ist_store\<close> is such an assignment: the entry with the name changes where it is, and no
  pointer of the tree does.
\<close>

fun ite_store :: "mach_port_t \<Rightarrow> 'e \<Rightarrow> 'e ite \<Rightarrow> 'e ite" where
  "ite_store name e ITE_NULL = ITE_NULL"
| "ite_store name e (ITE l n e' r) =
     ITE (ite_store name e l) n (if n = name then e else e') (ite_store name e r)"

definition spine_store :: "mach_port_t \<Rightarrow> 'e \<Rightarrow> 'e spine \<Rightarrow> 'e spine" where
  "spine_store name e = map (\<lambda>(t, n, e'). (ite_store name e t, n, if n = name then e else e'))"

definition ist_store :: "'e ipc_splay_tree \<Rightarrow> mach_port_t \<Rightarrow> 'e \<Rightarrow> 'e ipc_splay_tree" where
  "ist_store splay name e = splay\<lparr>ist_root := ite_store name e (ist_root splay),
     ist_ltree := spine_store name e (ist_ltree splay),
     ist_rtree := spine_store name e (ist_rtree splay)\<rparr>"

definition list_store :: "mach_port_t \<Rightarrow> 'e \<Rightarrow> (mach_port_t \<times> 'e) list \<Rightarrow> (mach_port_t \<times> 'e) list" where
  "list_store name e = map (\<lambda>(n, e'). (n, if n = name then e else e'))"

lemma list_store_simps [simp]:
  "list_store name e [] = []"
  "list_store name e ((n, x) # xs) = (n, if n = name then e else x) # list_store name e xs"
  "list_store name e (xs @ ys) = list_store name e xs @ list_store name e ys"
  by (simp_all add: list_store_def)

lemma list_store_names [simp]: "map fst (list_store name e xs) = map fst xs"
  by (simp add: list_store_def case_prod_beta)

lemma list_store_map_of:
  "map_of (list_store name e xs) n = (if n = name \<and> map_of xs n \<noteq> None then Some e else map_of xs n)"
  by (induction xs) (auto simp: list_store_def)

lemma ite_store_inorder: "ite_inorder (ite_store name e t) = list_store name e (ite_inorder t)"
  by (induction t) auto

lemma spine_store_inorder:
  "lspine_inorder (spine_store name e s) = list_store name e (lspine_inorder s)"
  "rspine_inorder (spine_store name e s) = list_store name e (rspine_inorder s)"
  by (induction s) (auto simp: spine_store_def ite_store_inorder)

lemma ite_store_null [simp]: "ite_store name e t = ITE_NULL \<longleftrightarrow> t = ITE_NULL"
  by (cases t) auto

lemma ite_store_sel [simp]:
  "t \<noteq> ITE_NULL \<Longrightarrow> ite_name (ite_store name e t) = ite_name t"
  "ite_lchild (ite_store name e t) = ite_store name e (ite_lchild t)"
  "ite_rchild (ite_store name e t) = ite_store name e (ite_rchild t)"
  by (cases t; simp)+

lemma store_inorder: "ist_inorder (ist_store splay name e) = list_store name e (ist_inorder splay)"
  by (simp add: ist_store_def ist_inorder_def ist_pieces_def pieces_inorder_def
      spine_store_inorder ite_store_inorder)

lemma store_wf:
  assumes "ist_wf splay"
  shows "ist_wf (ist_store splay name e)"
proof -
  have "(\<forall>x \<in> set (list_store name e xs). fst x < m) \<longleftrightarrow> (\<forall>x \<in> set xs. fst x < m)"
    "(\<forall>x \<in> set (list_store name e xs). m < fst x) \<longleftrightarrow> (\<forall>x \<in> set xs. m < fst x)" for xs m
    by (auto simp: list_store_def)
  then show ?thesis
    using assms unfolding ist_wf_def store_inorder list_store_names
    by (simp add: ist_store_def ist_pieces_def spines_around_def spine_store_inorder stops_at_def)
qed

section \<open>The interface of the tree\<close>

text \<open>
  What the entry and space code relies on: a set of entries in the order of their names with lookup,
  insertion, deletion and in-place assignment. A lookup may reorganise the structure, so it returns
  it.
\<close>

locale name_tree =
  fixes wf :: "'t \<Rightarrow> bool"
    and entries :: "'t \<Rightarrow> (mach_port_t \<times> 'e) list"
    and lookup :: "'t \<Rightarrow> mach_port_t \<Rightarrow> 'e option \<times> 't"
    and insert :: "'t \<Rightarrow> mach_port_t \<Rightarrow> 'e \<Rightarrow> 't"
    and delete :: "'t \<Rightarrow> mach_port_t \<Rightarrow> 't"
    and store :: "'t \<Rightarrow> mach_port_t \<Rightarrow> 'e \<Rightarrow> 't"
  assumes wf_sorted: "wf t \<Longrightarrow> ite_sorted (entries t)"
    and lookup_value: "wf t \<Longrightarrow> fst (lookup t n) = map_of (entries t) n"
    and lookup_entries: "wf t \<Longrightarrow> entries (snd (lookup t n)) = entries t"
    and lookup_wf: "wf t \<Longrightarrow> wf (snd (lookup t n))"
    and insert_entries: "wf t \<Longrightarrow> map_of (entries t) n = None \<Longrightarrow>
      entries (insert t n e) = entries_below n (entries t) @ (n, e) # entries_above n (entries t)"
    and insert_wf: "wf t \<Longrightarrow> map_of (entries t) n = None \<Longrightarrow> wf (insert t n e)"
    and delete_entries: "wf t \<Longrightarrow> map_of (entries t) n \<noteq> None \<Longrightarrow>
      entries (delete t n) = entries_below n (entries t) @ entries_above n (entries t)"
    and delete_wf: "wf t \<Longrightarrow> map_of (entries t) n \<noteq> None \<Longrightarrow> wf (delete t n)"
    and store_entries: "entries (store t n e) = list_store n e (entries t)"
    and store_wf: "wf t \<Longrightarrow> wf (store t n e)"
begin

abbreviation find :: "'t \<Rightarrow> mach_port_t \<Rightarrow> 'e option" where
  "find t n \<equiv> map_of (entries t) n"

lemma find_iff: "wf t \<Longrightarrow> find t n = Some e \<longleftrightarrow> (n, e) \<in> set (entries t)"
  by (simp add: ascending_distinct wf_sorted)

lemma find_None: "find t n = None \<longleftrightarrow> n \<notin> fst ` set (entries t)"
  by (simp add: map_of_eq_None_iff)

lemma insert_set:
  assumes "wf t" "find t n = None"
  shows "set (entries (insert t n e)) = Set.insert (n, e) (set (entries t))"
proof -
  have "fst x < n \<or> n < fst x" if "x \<in> set (entries t)" for x
    using that assms(2) by (metis find_None image_eqI linorder_neqE)
  then show ?thesis by (auto simp: insert_entries [OF assms])
qed

lemma delete_set:
  assumes "wf t" "find t n \<noteq> None"
  shows "set (entries (delete t n)) = {x \<in> set (entries t). fst x \<noteq> n}"
  by (auto simp: delete_entries [OF assms])

lemma find_insert:
  assumes "wf t" "find t n = None"
  shows "find (insert t n e) m = (if m = n then Some e else find t m)"
proof -
  have "find (insert t n e) m = Some x \<longleftrightarrow> (if m = n then Some e else find t m) = Some x" for x
    using assms insert_set [OF assms] insert_wf [OF assms] find_None [of t n]
    by (auto simp: find_iff image_iff split: if_splits)
  then show ?thesis by (metis not_Some_eq)
qed

lemma find_delete:
  assumes "wf t" "find t n \<noteq> None"
  shows "find (delete t n) m = (if m = n then None else find t m)"
proof -
  have "find (delete t n) m = Some x \<longleftrightarrow> (if m = n then None else find t m) = Some x" for x
    using assms delete_set [OF assms] delete_wf [OF assms] find_iff by auto
  then show ?thesis by (metis not_Some_eq)
qed

lemma find_store:
  "find (store t n e) m = (if m = n \<and> find t m \<noteq> None then Some e else find t m)"
  by (simp add: store_entries list_store_map_of)

lemma delete_insert:
  assumes "wf t" "find t n = None"
  shows "entries (delete (insert t n e) n) = entries t"
proof (rule map_sorted_distinct_set_unique [of fst])
  have w: "wf (insert t n e)" "find (insert t n e) n \<noteq> None"
    using assms by (simp_all add: insert_wf find_insert)
  have s: "ite_sorted (entries (delete (insert t n e) n))"
    using w by (simp add: delete_wf wf_sorted)
  have "set (entries (delete (insert t n e) n)) = set (entries t)"
    using assms find_None [of t n] by (auto simp: delete_set [OF w] insert_set [OF assms] image_iff)
  then show "set (entries (delete (insert t n e) n)) = set (entries t)" .
  then show "inj_on fst (set (entries (delete (insert t n e) n)) \<union> set (entries t))"
    using wf_sorted [OF assms(1)] ascending_distinct [of "map fst (entries t)"]
    by (simp add: distinct_map)
  show "sorted (map fst (entries (delete (insert t n e) n)))" "distinct (map fst (entries (delete (insert t n e) n)))"
    "sorted (map fst (entries t))" "distinct (map fst (entries t))"
    using s wf_sorted [OF assms(1)] by (simp_all add: strict_sorted_iff)
qed

end

interpretation splay: name_tree ist_wf ist_inorder ipc_splay_tree_lookup ipc_splay_tree_insert
    ipc_splay_tree_delete ist_store
proof
  fix t :: "'e ipc_splay_tree" and n e
  show "ist_wf t \<Longrightarrow> ite_sorted (ist_inorder t)" by (rule ist_wf_sorted)
  show "ist_wf t \<Longrightarrow> fst (ipc_splay_tree_lookup t n) = ist_map t n"
    "ist_wf t \<Longrightarrow> ist_inorder (snd (ipc_splay_tree_lookup t n)) = ist_inorder t"
    "ist_wf t \<Longrightarrow> ist_wf (snd (ipc_splay_tree_lookup t n))"
    by (rule lookup_correct; assumption)+
  show "ist_wf t \<Longrightarrow> ist_map t n = None \<Longrightarrow> ist_inorder (ipc_splay_tree_insert t n e) =
      entries_below n (ist_inorder t) @ (n, e) # entries_above n (ist_inorder t)"
    by (rule insert_correct)
  show "ist_wf t \<Longrightarrow> ist_map t n = None \<Longrightarrow> ist_wf (ipc_splay_tree_insert t n e)"
    by (rule insert_wf)
  show "ist_wf t \<Longrightarrow> ist_map t n \<noteq> None \<Longrightarrow> ist_inorder (ipc_splay_tree_delete t n) =
      entries_below n (ist_inorder t) @ entries_above n (ist_inorder t)"
    "ist_wf t \<Longrightarrow> ist_map t n \<noteq> None \<Longrightarrow> ist_wf (ipc_splay_tree_delete t n)"
    using delete_correct [of t n] by auto
  show "ist_inorder (ist_store t n e) = list_store n e (ist_inorder t)" by (rule store_inorder)
  show "ist_wf t \<Longrightarrow> ist_wf (ist_store t n e)" by (rule store_wf)
qed

lemma lower_bound_Max:
  assumes "ite_sorted xs"
  shows "lower_bound name xs = (if \<exists>n \<in> fst ` set xs. n \<le> name
     then Max {n \<in> fst ` set xs. n \<le> name} else MACH_PORT_LARGEST)"
proof (cases "entries_upto name xs" rule: rev_cases)
  case Nil
  then have "\<not> (\<exists>n \<in> fst ` set xs. n \<le> name)" by (auto simp: filter_empty_conv)
  with Nil show ?thesis by (simp add: lower_bound_def)
next
  case (snoc ys x)
  have s: "ite_sorted (ys @ [x])" using sorted_filter [OF assms, of "\<lambda>x. fst x \<le> name"] snoc by simp
  have e: "set (ys @ [x]) = {y \<in> set xs. fst y \<le> name}" by (simp only: set_filter flip: snoc)
  then have "x \<in> set xs" "fst x \<le> name" by auto
  moreover have "Max {n \<in> fst ` set xs. n \<le> name} = fst x"
  proof (rule Max_eqI)
    show "fst x \<in> {n \<in> fst ` set xs. n \<le> name}" using \<open>x \<in> set xs\<close> \<open>fst x \<le> name\<close> by simp
    fix y assume "y \<in> {n \<in> fst ` set xs. n \<le> name}"
    then obtain z where "z \<in> set (ys @ [x])" "y = fst z" unfolding e by auto
    then show "y \<le> fst x" using s by (auto simp: ascending_append_iff order_less_imp_le)
  qed simp
  ultimately show ?thesis using snoc by (auto simp: lower_bound_def)
qed

lemma upper_bound_Min:
  assumes "ite_sorted xs"
  shows "upper_bound name xs = (if \<exists>n \<in> fst ` set xs. name \<le> n
     then Min {n \<in> fst ` set xs. name \<le> n} else MACH_PORT_SMALLEST)"
proof (cases "entries_from name xs")
  case Nil
  then have "\<not> (\<exists>n \<in> fst ` set xs. name \<le> n)" by (auto simp: filter_empty_conv)
  with Nil show ?thesis by (simp add: upper_bound_def)
next
  case (Cons x ys)
  have s: "ite_sorted (x # ys)" using sorted_filter [OF assms, of "\<lambda>x. name \<le> fst x"] Cons by simp
  have e: "set (x # ys) = {y \<in> set xs. name \<le> fst y}" by (simp only: set_filter flip: Cons)
  then have "x \<in> set xs" "name \<le> fst x" by auto
  moreover have "Min {n \<in> fst ` set xs. name \<le> n} = fst x"
  proof (rule Min_eqI)
    show "fst x \<in> {n \<in> fst ` set xs. name \<le> n}" using \<open>x \<in> set xs\<close> \<open>name \<le> fst x\<close> by simp
    fix y assume "y \<in> {n \<in> fst ` set xs. name \<le> n}"
    then obtain z where "z \<in> set (x # ys)" "y = fst z" unfolding e by auto
    then show "fst x \<le> y" using s by (auto simp: order_less_imp_le)
  qed simp
  ultimately show ?thesis using Cons by (auto simp: upper_bound_def)
qed

definition splay_example :: "nat ipc_splay_tree" where
  "splay_example =
     ipc_splay_tree_insert (ipc_splay_tree_insert (ipc_splay_tree_insert
       (ipc_splay_tree_init \<lparr>ist_root = ITE_NULL, ist_name = 0, ist_ltree = [], ist_rtree = []\<rparr>)
       0x501 1) 0x901 2) 0x701 3"

lemma splay_example_wf: "ist_wf splay_example"
  and splay_example_inorder: "ist_inorder splay_example = [(0x501, 1), (0x701, 3), (0x901, 2)]"
  by code_simp+

section \<open>Properties\<close>

text \<open>
  C4: Every operation of the splay tree refines the operation on the list of entries sorted by name:
  on a well-formed tree, a lookup returns the entry with the name and keeps the list; an insertion of
  an absent name puts the entry between the smaller and the larger names; a deletion of a present
  name removes that entry and no other; and the results are well-formed, whatever name the tree was
  last splayed for.
\<close>

theorem splay_refines_sorted_list:
  assumes "ist_wf splay"
  shows "fst (ipc_splay_tree_lookup splay name) = map_of (ist_inorder splay) name
    \<and> ist_inorder (snd (ipc_splay_tree_lookup splay name)) = ist_inorder splay
    \<and> ist_wf (snd (ipc_splay_tree_lookup splay name))
    \<and> (map_of (ist_inorder splay) name = None \<longrightarrow>
        ist_inorder (ipc_splay_tree_insert splay name entry) =
          entries_below name (ist_inorder splay) @ (name, entry) # entries_above name (ist_inorder splay)
        \<and> ist_wf (ipc_splay_tree_insert splay name entry))
    \<and> (map_of (ist_inorder splay) name \<noteq> None \<longrightarrow>
        ist_inorder (ipc_splay_tree_delete splay name) =
          entries_below name (ist_inorder splay) @ entries_above name (ist_inorder splay)
        \<and> ist_wf (ipc_splay_tree_delete splay name))"
  using assms
  by (intro conjI impI)
    (rule lookup_correct insert_correct insert_wf splay.delete_entries splay.delete_wf; assumption)+

theorem splay_refines_sorted_list_witness:
  "fst (ipc_splay_tree_lookup splay_example 0x701) = Some 3 \<and>
   ist_inorder (ipc_splay_tree_insert splay_example 0x601 4)
     = [(0x501, 1), (0x601, 4), (0x701, 3), (0x901, 2)] \<and>
   ist_inorder (ipc_splay_tree_delete splay_example 0x701) = [(0x501, 1), (0x901, 2)]"
  using splay_refines_sorted_list [OF splay_example_wf, of "0x701" 0]
    splay_refines_sorted_list [OF splay_example_wf, of "0x601" 4]
  by (simp add: splay_example_inorder)

text \<open>
  A lookup after an insertion finds the inserted entry under its name and what was there before
  under every other name, and deleting the inserted name gives back the same sorted entries.
\<close>

theorem splay_insert_round_trip:
  assumes "ist_wf splay" "fst (ipc_splay_tree_lookup splay name) = None"
  shows "fst (ipc_splay_tree_lookup (ipc_splay_tree_insert splay name entry) n)
      = (if n = name then Some entry else fst (ipc_splay_tree_lookup splay n))
    \<and> ist_inorder (ipc_splay_tree_delete (ipc_splay_tree_insert splay name entry) name)
      = ist_inorder splay"
proof -
  have f: "splay.find splay name = None" using assms by (simp add: splay.lookup_value)
  with assms(1) show ?thesis
    by (simp add: splay.lookup_value splay.insert_wf splay.find_insert splay.delete_insert)
qed

theorem splay_insert_round_trip_witness:
  "fst (ipc_splay_tree_lookup splay_example 0x801) = None \<and>
   fst (ipc_splay_tree_lookup (ipc_splay_tree_insert splay_example 0x801 7) 0x801) = Some 7 \<and>
   ist_inorder (ipc_splay_tree_delete (ipc_splay_tree_insert splay_example 0x801 7) 0x801)
     = ist_inorder splay_example"
proof -
  have n: "fst (ipc_splay_tree_lookup splay_example 0x801) = None" by code_simp
  with splay_insert_round_trip [OF splay_example_wf n] show ?thesis by simp
qed

text \<open>
  Splitting a tree at a name leaves the entries with that name and larger ones in the tree and
  moves the smaller ones to \<open>small\<close>; both are well-formed. Joining them again gives back the entries
  in order and leaves \<open>small\<close> empty.
\<close>

theorem splay_split_join:
  assumes "ist_wf splay" "ipc_splay_tree_split splay name small = (large', small')"
  shows "ist_inorder large' = entries_from name (ist_inorder splay)
    \<and> ist_inorder small' = entries_below name (ist_inorder splay)
    \<and> ist_wf large' \<and> ist_wf small'
    \<and> ist_inorder (fst (ipc_splay_tree_join large' small')) = ist_inorder splay
    \<and> ist_wf (fst (ipc_splay_tree_join large' small'))
    \<and> ist_root (snd (ipc_splay_tree_join large' small')) = ITE_NULL"
proof -
  have s: "ist_inorder large' = entries_from name (ist_inorder splay)"
      "ist_inorder small' = entries_below name (ist_inorder splay)" "ist_wf large'" "ist_wf small'"
    using split_correct [OF assms(1), of name small] assms(2) by simp_all
  then have "\<forall>x \<in> set (ist_inorder small'). \<forall>y \<in> set (ist_inorder large'). fst x < fst y"
    by (auto intro: less_le_trans)
  note j = join_correct [OF s(3,4) this]
  then have "ist_inorder (fst (ipc_splay_tree_join large' small')) = ist_inorder splay"
    by (simp only: s filter_partition_sorted ist_wf_sorted [OF assms(1)])
  with s j show ?thesis by (simp only: root_null_inorder simp_thms)
qed

theorem splay_split_join_witness:
  "ist_inorder (fst (ipc_splay_tree_split splay_example 0x701 splay_example))
     = [(0x701, 3), (0x901, 2)] \<and>
   ist_inorder (snd (ipc_splay_tree_split splay_example 0x701 splay_example)) = [(0x501, 1)]"
  using splay_split_join [OF splay_example_wf prod.collapse [symmetric], of "0x701" splay_example]
  by (simp add: splay_example_inorder)

text \<open>
  The bounds of a name are what the comment before \<open>ipc_splay_tree_bounds\<close> promises: the lower
  bound is the largest name in the tree that is at most the given one, or the largest possible name
  when there is none; the upper bound is the smallest name that is at least the given one, or zero
  when there is none. The query keeps the entries and the invariant.
\<close>

theorem splay_bounds_tight:
  assumes "ist_wf splay" "fst ` set (ist_inorder splay) = names"
  shows "fst (ipc_splay_tree_bounds splay name) =
      (if \<exists>n \<in> names. n \<le> name then Max {n \<in> names. n \<le> name} else MACH_PORT_LARGEST,
       if \<exists>n \<in> names. name \<le> n then Min {n \<in> names. name \<le> n} else MACH_PORT_SMALLEST)
    \<and> ist_inorder (snd (ipc_splay_tree_bounds splay name)) = ist_inorder splay
    \<and> ist_wf (snd (ipc_splay_tree_bounds splay name))"
  using bounds_correct [OF assms(1), of name]
    lower_bound_Max [OF ist_wf_sorted [OF assms(1)], of name]
    upper_bound_Min [OF ist_wf_sorted [OF assms(1)], of name]
  unfolding assms(2) by simp

theorem splay_bounds_tight_witness:
  "fst (ipc_splay_tree_bounds splay_example 0x801) = (0x701, 0x901)"
proof -
  have "{n \<in> {0x501, 0x701, 0x901 :: mach_port_t}. n \<le> 0x801} = {0x501, 0x701}"
    "{n \<in> {0x501, 0x701, 0x901 :: mach_port_t}. 0x801 \<le> n} = {0x901}" by auto
  then show ?thesis
    using splay_bounds_tight [OF splay_example_wf refl, of "0x801"]
    by (simp add: splay_example_inorder)
qed

text \<open>
  C27: The traversal of a well-formed tree by pointer inversion ends, never follows a wrong pointer,
  and visits the entries in the order of their names: the loop
  start/next/finish with a body that decides for each entry whether to delete it or to keep it
  (possibly changed) has the effect of a fold over the sorted list, and the tree it leaves is
  well-formed and holds exactly the kept entries.
\<close>

theorem splay_traverse_is_fold:
  assumes "ist_wf splay"
  shows "\<exists>splay'. ipc_splay_traverse body splay s =
      Some (splay', snd (traverse_fold body (ist_inorder splay) s)) \<and>
    ist_inorder splay' = fst (traverse_fold body (ist_inorder splay) s) \<and> ist_wf splay'"
  by (rule traverse_correct [OF assms])

theorem splay_traverse_is_fold_witness:
  "\<exists>splay'. ipc_splay_traverse (\<lambda>s n e. (if e = 3 then None else Some (e + 1), s @ [n])) splay_example []
     = Some (splay', [0x501, 0x701, 0x901]) \<and> ist_inorder splay' = [(0x501, 2), (0x901, 3)]"
  using splay_traverse_is_fold [OF splay_example_wf,
     of "\<lambda>s n e. (if e = 3 then None else Some (e + 1), s @ [n])" "[]"]
  by (auto simp: splay_example_inorder)

end
