(* ===== verification/Ipc_State.thy ===== *)
theory Ipc_State
  imports Ipc_Splay Ipc_Table
begin

text \<open>
  The data of an IPC space (\<open>ipc/ipc_entry.h\<close>, \<open>ipc/ipc_space.h\<close>): entries, the space record, and
  references to entries.

  \<^item> \<open>ie_next\<close> and \<open>ie_request\<close> are one field (a union); so are \<open>ie_index\<close> and \<open>ite_next\<close>, but the
    buckets of the global hash table are lists of their own, so only \<open>ie_index\<close> is kept.
  \<^item> \<open>is_table_next\<close> is the position of the next size in the array \<open>ipc_table_entries\<close>, which the
    operations that read it take as their parameter \<open>its\<close>.
  \<^item> \<open>is_table_size\<close> is the length of \<open>is_table\<close>; \<open>is_self\<close> is the address of the space.
  \<^item> A pointer to an entry is a reference to a table slot or to the tree entry with a name.
\<close>

section \<open>Entries and spaces\<close>

record ipc_entry =
  ie_bits :: ipc_entry_bits_t
  ie_object :: ipc_object_t
  ie_request :: nat
  ie_index :: nat

abbreviation ie_next :: "ipc_entry \<Rightarrow> nat" where
  "ie_next \<equiv> ie_request"

definition zero_entry :: ipc_entry where
  "zero_entry = \<lparr>ie_bits = 0, ie_object = IO_NULL, ie_request = 0, ie_index = 0\<rparr>"

record ipc_space =
  is_self :: ipc_space_t
  is_references :: natural_t
  is_active :: bool
  is_growing :: bool
  is_table :: "ipc_entry list"
  is_table_next :: nat
  is_tree :: "ipc_entry ipc_splay_tree"
  is_tree_total :: natural_t
  is_tree_small :: natural_t
  is_tree_hash :: natural_t
  is_fast :: bool

abbreviation is_table_size :: "ipc_space \<Rightarrow> nat" where
  "is_table_size space \<equiv> length (is_table space)"

datatype ipc_entry_ref = TableEntry nat | TreeEntry mach_port_t

text \<open>Reading and assigning through a pointer.\<close>

fun get_entry :: "ipc_space \<Rightarrow> ipc_entry_ref \<Rightarrow> ipc_entry option" where
  "get_entry space (TableEntry i) =
     (if i < is_table_size space then Some (is_table space ! i) else None)"
| "get_entry space (TreeEntry name) = ist_map (is_tree space) name"

fun put_entry :: "ipc_space \<Rightarrow> ipc_entry_ref \<Rightarrow> ipc_entry \<Rightarrow> ipc_space" where
  "put_entry space (TableEntry i) e = space\<lparr>is_table := (is_table space)[i := e]\<rparr>"
| "put_entry space (TreeEntry name) e = space\<lparr>is_tree := ist_store (is_tree space) name e\<rparr>"

text \<open>An element of a bucket of the global hash table: the tree entry of a space with a name.\<close>

record ipc_hash_node =
  ihn_space :: ipc_space_t
  ihn_object :: ipc_object_t
  ihn_name :: mach_port_t

type_synonym ipc_hash_global = "ipc_hash_node list list"

section \<open>Circular tables\<close>

text \<open>
  The slots of a table of \<open>n\<close> slots in circular order: \<open>slot n a k\<close> is \<open>k\<close> steps after \<open>a\<close>, and
  \<open>gap n a b\<close> the number of steps from \<open>a\<close> to \<open>b\<close>.
\<close>

definition slot :: "nat \<Rightarrow> nat \<Rightarrow> nat \<Rightarrow> nat" where
  "slot n a k = (if a + k < n then a + k else a + k - n)"

definition gap :: "nat \<Rightarrow> nat \<Rightarrow> nat \<Rightarrow> nat" where
  "gap n a b = (if a \<le> b then b - a else b + n - a)"

lemma slot_0 [simp]: "a < n \<Longrightarrow> slot n a 0 = a"
  by (simp add: slot_def)

lemma slot_n [simp]: "a < n \<Longrightarrow> slot n a n = a"
  by (simp add: slot_def)

lemma slot_less: "a < n \<Longrightarrow> k \<le> n \<Longrightarrow> slot n a k < n"
  by (simp add: slot_def; linarith)

lemma gap_less: "a < n \<Longrightarrow> b < n \<Longrightarrow> gap n a b < n"
  by (simp add: gap_def; linarith)

lemma slot_gap [simp]: "a < n \<Longrightarrow> b < n \<Longrightarrow> slot n a (gap n a b) = b"
  by (simp add: slot_def gap_def; linarith)

lemma gap_slot [simp]: "a < n \<Longrightarrow> k < n \<Longrightarrow> gap n a (slot n a k) = k"
  by (simp add: slot_def gap_def; linarith)

lemma slot_inject: "a < n \<Longrightarrow> k < n \<Longrightarrow> j < n \<Longrightarrow> slot n a k = slot n a j \<longleftrightarrow> k = j"
  by (metis gap_slot)

end
