(* ===== verification/Ipc_Hash.thy ===== *)
theory Ipc_Hash
  imports Ipc_State
begin

text \<open>
  The reverse hash tables (\<open>ipc/ipc_hash.c\<close>), which map an object to the name of a space's send right
  for it: the local table of a space, kept in the field \<open>ie_index\<close> of its entries with open
  addressing and linear probing, and the global table of the tree entries with move-to-front
  buckets. The probing loops are partial functions: \<open>None\<close> is a loop that does not end.
\<close>

section \<open>The local table\<close>

definition IH_LOCAL_HASH :: "ipc_object_t \<Rightarrow> nat \<Rightarrow> nat" where
  "IH_LOCAL_HASH obj tsize = unat (drop_bit 6 obj) mod tsize"

text \<open>\<^verbatim>\<open>if (++hindex == size) hindex = 0;\<close>\<close>

definition hindex_next :: "nat \<Rightarrow> nat \<Rightarrow> nat" where
  "hindex_next tsize hindex = (if hindex + 1 = tsize then 0 else hindex + 1)"

partial_function (option) local_lookup_loop ::
  "ipc_entry list \<Rightarrow> ipc_object_t \<Rightarrow> nat \<Rightarrow> nat option option" where
  "local_lookup_loop table obj hindex =
     (let index = ie_index (table ! hindex) in
      if index \<noteq> 0 then
        if ie_object (table ! index) = obj then Some (Some index)
        else local_lookup_loop table obj (hindex_next (length table) hindex)
      else Some None)"

definition ipc_hash_local_lookup ::
  "ipc_space \<Rightarrow> ipc_object_t \<Rightarrow> (mach_port_t \<times> ipc_entry_ref) option option" where
  "ipc_hash_local_lookup space obj =
     map_option (map_option (\<lambda>index.
         (MACH_PORT_MAKEB index (ie_bits (is_table space ! index)), TableEntry index)))
       (local_lookup_loop (is_table space) obj (IH_LOCAL_HASH obj (is_table_size space)))"

partial_function (option) local_insert_loop :: "ipc_entry list \<Rightarrow> nat \<Rightarrow> nat option" where
  "local_insert_loop table hindex =
     (if ie_index (table ! hindex) \<noteq> 0
      then local_insert_loop table (hindex_next (length table) hindex)
      else Some hindex)"

definition set_index :: "ipc_entry list \<Rightarrow> nat \<Rightarrow> nat \<Rightarrow> ipc_entry list" where
  "set_index table hindex index = table[hindex := (table ! hindex)\<lparr>ie_index := index\<rparr>]"

definition table_hash_insert :: "ipc_entry list \<Rightarrow> ipc_object_t \<Rightarrow> nat \<Rightarrow> ipc_entry list option" where
  "table_hash_insert table obj index =
     map_option (\<lambda>hindex. set_index table hindex index)
       (local_insert_loop table (IH_LOCAL_HASH obj (length table)))"

definition ipc_hash_local_insert :: "ipc_space \<Rightarrow> ipc_object_t \<Rightarrow> nat \<Rightarrow> ipc_space option" where
  "ipc_hash_local_insert space obj index =
     map_option (\<lambda>table. space\<lparr>is_table := table\<rparr>) (table_hash_insert (is_table space) obj index)"

partial_function (option) local_delete_find :: "ipc_entry list \<Rightarrow> nat \<Rightarrow> nat \<Rightarrow> nat option" where
  "local_delete_find table index hindex =
     (if ie_index (table ! hindex) \<noteq> index
      then local_delete_find table index (hindex_next (length table) hindex)
      else Some hindex)"

text \<open>The inner loop, which looks for a displaced object: its slot and its index (0 at the end).\<close>

partial_function (option) local_delete_scan ::
  "ipc_entry list \<Rightarrow> nat \<Rightarrow> nat \<Rightarrow> (nat \<times> nat) option" where
  "local_delete_scan table hindex dindex0 =
     (let dindex = hindex_next (length table) dindex0; index = ie_index (table ! dindex) in
      if index = 0 then Some (dindex, index)
      else
        let tindex = IH_LOCAL_HASH (ie_object (table ! index)) (length table) in
        if (if dindex < hindex then dindex < tindex \<and> tindex \<le> hindex
            else dindex < tindex \<or> tindex \<le> hindex)
        then Some (dindex, index)
        else local_delete_scan table hindex dindex)"

partial_function (option) local_delete_shift ::
  "ipc_entry list \<Rightarrow> nat \<Rightarrow> nat \<Rightarrow> ipc_entry list option" where
  "local_delete_shift table hindex index =
     (if index \<noteq> 0 then
        case local_delete_scan table hindex hindex of
          None \<Rightarrow> None
        | Some r \<Rightarrow> local_delete_shift (set_index table hindex (snd r)) (fst r) (snd r)
      else Some table)"

definition table_hash_delete :: "ipc_entry list \<Rightarrow> ipc_object_t \<Rightarrow> nat \<Rightarrow> ipc_entry list option" where
  "table_hash_delete table obj index =
     (case local_delete_find table index (IH_LOCAL_HASH obj (length table)) of
        None \<Rightarrow> None
      | Some hindex \<Rightarrow> local_delete_shift table hindex index)"

definition ipc_hash_local_delete :: "ipc_space \<Rightarrow> ipc_object_t \<Rightarrow> nat \<Rightarrow> ipc_space option" where
  "ipc_hash_local_delete space obj index =
     map_option (\<lambda>table. space\<lparr>is_table := table\<rparr>) (table_hash_delete (is_table space) obj index)"

declare local_lookup_loop.simps [code] local_insert_loop.simps [code]
  local_delete_find.simps [code] local_delete_scan.simps [code] local_delete_shift.simps [code]

section \<open>The invariant of linear probing\<close>

abbreviation hashed_at :: "ipc_entry list \<Rightarrow> nat \<Rightarrow> nat" where
  "hashed_at table s \<equiv> ie_index (table ! s)"

abbreviation home :: "ipc_entry list \<Rightarrow> nat \<Rightarrow> nat" where
  "home table index \<equiv> IH_LOCAL_HASH (ie_object (table ! index)) (length table)"

definition hashed :: "ipc_entry list \<Rightarrow> nat set" where
  "hashed table = set (map ie_index table) - {0}"

definition local_hash_ok :: "ipc_entry list \<Rightarrow> bool" where
  "local_hash_ok table \<longleftrightarrow> table \<noteq> [] \<and>
     (\<forall>s < length table. hashed_at table s < length table) \<and>
     (\<forall>s < length table. \<forall>t < length table.
        hashed_at table s = hashed_at table t \<and> hashed_at table s \<noteq> 0 \<longrightarrow> s = t) \<and>
     (\<forall>s < length table. hashed_at table s \<noteq> 0 \<longrightarrow>
        (let h = home table (hashed_at table s) in
         \<forall>k < gap (length table) h s. hashed_at table (slot (length table) h k) \<noteq> 0))"

lemma home_less: "table \<noteq> [] \<Longrightarrow> IH_LOCAL_HASH obj (length table) < length table"
  by (simp add: IH_LOCAL_HASH_def)

lemma hindex_next_slot: "a < n \<Longrightarrow> k < n \<Longrightarrow> hindex_next n (slot n a k) = slot n a (Suc k)"
  by (auto simp: hindex_next_def slot_def)

lemma local_hash_okD:
  assumes "local_hash_ok table"
  shows "table \<noteq> []" and "s < length table \<Longrightarrow> hashed_at table s < length table"
    and "s < length table \<Longrightarrow> t < length table \<Longrightarrow> hashed_at table s = hashed_at table t \<Longrightarrow>
      hashed_at table s \<noteq> 0 \<Longrightarrow> s = t"
  using assms unfolding local_hash_ok_def by blast+

text \<open>A table always has a free slot, because index 0 is never hashed.\<close>

lemma free_slot_exists:
  assumes "local_hash_ok table"
  shows "\<exists>z < length table. hashed_at table z = 0"
proof (rule ccontr)
  let ?n = "length table"
  assume none: "\<not> (\<exists>z < ?n. hashed_at table z = 0)"
  have nz: "hashed_at table s \<noteq> 0" if "s < ?n" for s using none that by simp
  have "inj_on (hashed_at table) {..<?n}"
  proof (rule inj_onI)
    fix s t
    assume "s \<in> {..<?n}" "t \<in> {..<?n}" and e: "hashed_at table s = hashed_at table t"
    then have "s < ?n" "t < ?n" by simp_all
    then show "s = t" using local_hash_okD(3) [OF assms _ _ e nz] by simp
  qed
  then have c: "card (hashed_at table ` {..<?n}) = ?n" by (simp add: card_image)
  have "hashed_at table ` {..<?n} \<subseteq> {1..<?n}"
  proof clarify
    fix s assume "s < ?n"
    then show "hashed_at table s \<in> {1..<?n}"
      using local_hash_okD(2) [OF assms, of s] nz [of s] by simp
  qed
  then have "card (hashed_at table ` {..<?n}) \<le> card {1..<?n}" by (intro card_mono) auto
  with c local_hash_okD(1) [OF assms] show False by (cases table) auto
qed

text \<open>
  Numbered from a free slot, the table is linear: an index sits at or after its home and the slots
  in between are in use.
\<close>

definition linear_at :: "ipc_entry list \<Rightarrow> nat \<Rightarrow> nat \<Rightarrow> bool" where
  "linear_at table z k \<longleftrightarrow>
     (let n = length table; h = gap n z (home table (hashed_at table (slot n z k))) in
      h \<le> k \<and> (\<forall>j. h \<le> j \<and> j < k \<longrightarrow> hashed_at table (slot n z j) \<noteq> 0))"

lemma clump_linear:
  assumes "z < n" "c z = 0" "k < n" "c (slot n z k) \<noteq> 0" "h < n"
  shows "(\<forall>j < gap n h (slot n z k). c (slot n h j) \<noteq> (0 :: nat)) \<longleftrightarrow>
    gap n z h \<le> k \<and> (\<forall>j. gap n z h \<le> j \<and> j < k \<longrightarrow> c (slot n z j) \<noteq> 0)"
proof -
  define q where "q = gap n z h"
  have q: "q < n" "h = slot n z q" using assms by (simp_all add: q_def gap_less)
  have k0: "0 < k" using assms(1,2,4) by (cases k) auto
  show ?thesis
  proof (cases "q \<le> k")
    case True
    then have g: "gap n h (slot n z k) = k - q"
      using assms(1,3) q by (auto simp: slot_def gap_def)
    have "slot n h j = slot n z (q + j)" if "j < k - q" for j
      using that assms(1,3) q by (auto simp: slot_def)
    then have "(\<forall>j < k - q. c (slot n h j) \<noteq> 0) \<longleftrightarrow> (\<forall>j < k - q. c (slot n z (q + j)) \<noteq> 0)"
      by auto
    also have "\<dots> \<longleftrightarrow> (\<forall>j. q \<le> j \<and> j < k \<longrightarrow> c (slot n z j) \<noteq> 0)"
      by (metis add.commute add_diff_inverse_nat add_less_cancel_right le_add1 less_diff_conv not_le)
    finally show ?thesis using True g unfolding q_def by simp
  next
    case False
    have "n - q < gap n h (slot n z k)" "slot n h (n - q) = z"
      using False k0 assms(1,3) q by (auto simp: slot_def gap_def)
    with assms(2) have "\<not> (\<forall>j < gap n h (slot n z k). c (slot n h j) \<noteq> 0)" by metis
    with False show ?thesis unfolding q_def by simp
  qed
qed

lemma local_hash_ok_linear:
  assumes "z < length table" "hashed_at table z = 0"
  shows "local_hash_ok table \<longleftrightarrow>
     (\<forall>s < length table. hashed_at table s < length table) \<and>
     (\<forall>s < length table. \<forall>t < length table.
        hashed_at table s = hashed_at table t \<and> hashed_at table s \<noteq> 0 \<longrightarrow> s = t) \<and>
     (\<forall>k < length table. hashed_at table (slot (length table) z k) \<noteq> 0 \<longrightarrow> linear_at table z k)"
proof -
  let ?n = "length table"
  have ne: "table \<noteq> []" using assms(1) by auto
  have "(\<forall>s < ?n. hashed_at table s \<noteq> 0 \<longrightarrow>
        (let h = home table (hashed_at table s) in
         \<forall>k < gap ?n h s. hashed_at table (slot ?n h k) \<noteq> 0)) \<longleftrightarrow>
     (\<forall>k < ?n. hashed_at table (slot ?n z k) \<noteq> 0 \<longrightarrow>
        (let h = home table (hashed_at table (slot ?n z k)) in
         \<forall>j < gap ?n h (slot ?n z k). hashed_at table (slot ?n h j) \<noteq> 0))"
    by (metis assms(1) gap_less less_imp_le_nat slot_gap slot_less)
  also have "\<dots> \<longleftrightarrow> (\<forall>k < ?n. hashed_at table (slot ?n z k) \<noteq> 0 \<longrightarrow> linear_at table z k)"
    using clump_linear [of z ?n "hashed_at table", OF assms] home_less [OF ne]
    by (simp add: linear_at_def Let_def)
  finally show ?thesis using ne by (simp add: local_hash_ok_def)
qed

text \<open>Changing the index of one slot.\<close>

lemma length_set_index [simp]: "length (set_index table h i) = length table"
  by (simp add: set_index_def)

lemma set_index_nth:
  "s < length table \<Longrightarrow> set_index table h i ! s = (if s = h then (table ! h)\<lparr>ie_index := i\<rparr> else table ! s)"
  by (simp add: set_index_def nth_list_update_if)

lemma ie_object_set_index [simp]: "ie_object (set_index table h i ! s) = ie_object (table ! s)"
  by (cases "h < length table"; cases "s = h") (auto simp: set_index_def nth_list_update list_update_beyond)

lemma hashed_at_set_index:
  "s < length table \<Longrightarrow> hashed_at (set_index table h i) s = (if s = h then i else hashed_at table s)"
  by (simp add: set_index_nth)

text \<open>The search loops, from slot to slot.\<close>

lemma local_lookup_walk:
  assumes "a < length table" "k < length table"
    and "\<forall>j < k. hashed_at table (slot (length table) a j) \<noteq> 0 \<and>
        ie_object (table ! hashed_at table (slot (length table) a j)) \<noteq> obj"
  shows "local_lookup_loop table obj a = local_lookup_loop table obj (slot (length table) a k)"
  using assms(2,3)
proof (induction k)
  case (Suc k)
  then have "local_lookup_loop table obj a = local_lookup_loop table obj (slot (length table) a k)" by simp
  also have "\<dots> = local_lookup_loop table obj (slot (length table) a (Suc k))"
    using Suc.prems assms(1)
    by (subst local_lookup_loop.simps) (simp add: Let_def hindex_next_slot)
  finally show ?case .
qed (simp add: assms(1))

lemma local_insert_walk:
  assumes "a < length table" "k < length table"
    and "\<forall>j < k. hashed_at table (slot (length table) a j) \<noteq> 0"
  shows "local_insert_loop table a = local_insert_loop table (slot (length table) a k)"
  using assms(2,3)
proof (induction k)
  case (Suc k)
  then have "local_insert_loop table a = local_insert_loop table (slot (length table) a k)" by simp
  also have "\<dots> = local_insert_loop table (slot (length table) a (Suc k))"
    using Suc.prems assms(1) by (subst local_insert_loop.simps) (simp add: hindex_next_slot)
  finally show ?case .
qed (simp add: assms(1))

lemma local_find_walk:
  assumes "a < length table" "k < length table"
    and "\<forall>j < k. hashed_at table (slot (length table) a j) \<noteq> index"
  shows "local_delete_find table index a = local_delete_find table index (slot (length table) a k)"
  using assms(2,3)
proof (induction k)
  case (Suc k)
  then have "local_delete_find table index a = local_delete_find table index (slot (length table) a k)" by simp
  also have "\<dots> = local_delete_find table index (slot (length table) a (Suc k))"
    using Suc.prems assms(1) by (subst local_delete_find.simps) (simp add: hindex_next_slot)
  finally show ?case .
qed (simp add: assms(1))

text \<open>The first free slot after a slot.\<close>

lemma first_free:
  assumes "a < n" "z < n" "c z = (0 :: nat)"
  obtains k where "k < n" "c (slot n a k) = 0" "\<forall>j < k. c (slot n a j) \<noteq> 0"
proof -
  define k where "k = (LEAST k. c (slot n a k) = 0)"
  have "c (slot n a (gap n a z)) = 0" using assms by simp
  then have "c (slot n a k) = 0" "k \<le> gap n a z"
    unfolding k_def by (rule LeastI, rule Least_le)
  moreover have "\<forall>j < k. c (slot n a j) \<noteq> 0"
    unfolding k_def using not_less_Least by blast
  moreover have "k < n" using \<open>k \<le> gap n a z\<close> gap_less [OF assms(1,2)] by simp
  ultimately show ?thesis using that by blast
qed

lemma hashed_iff: "index \<in> hashed table \<longleftrightarrow> index \<noteq> 0 \<and> (\<exists>s < length table. hashed_at table s = index)"
  unfolding hashed_def by (metis DiffD1 DiffD2 DiffI in_set_conv_nth length_map nth_map singletonD singletonI)

lemma clump_before:
  assumes "local_hash_ok table" "s < length table" "hashed_at table s \<noteq> 0"
    and "k < gap (length table) (home table (hashed_at table s)) s"
  shows "hashed_at table (slot (length table) (home table (hashed_at table s)) k) \<noteq> 0"
  using assms unfolding local_hash_ok_def Let_def by blast

lemma local_lookup_loop_correct:
  assumes ok: "local_hash_ok table"
    and uniq: "\<forall>i \<in> hashed table. \<forall>j \<in> hashed table. ie_object (table ! i) = ie_object (table ! j) \<longrightarrow> i = j"
  shows "\<exists>r. local_lookup_loop table obj (IH_LOCAL_HASH obj (length table)) = Some r \<and>
    (\<forall>i. r = Some i \<longleftrightarrow> i \<in> hashed table \<and> ie_object (table ! i) = obj)"
proof -
  let ?n = "length table" and ?h = "IH_LOCAL_HASH obj (length table)"
  have h: "?h < ?n" using home_less local_hash_okD(1) [OF ok] by blast
  let ?hit = "\<lambda>k. hashed_at table (slot ?n ?h k) = 0 \<or>
      ie_object (table ! hashed_at table (slot ?n ?h k)) = obj"
  obtain z where z: "z < ?n" "hashed_at table z = 0" using free_slot_exists [OF ok] by blast
  define k where "k = (LEAST k. ?hit k)"
  have "?hit (gap ?n ?h z)" using z h by simp
  then have k: "?hit k" "k \<le> gap ?n ?h z" unfolding k_def by (rule LeastI, rule Least_le)
  have before: "\<forall>j < k. \<not> ?hit j" unfolding k_def using not_less_Least by blast
  have kn: "k < ?n" using k(2) gap_less [OF h z(1)] by simp
  have walk: "local_lookup_loop table obj ?h = local_lookup_loop table obj (slot ?n ?h k)"
    by (rule local_lookup_walk [OF h kn]) (use before in simp)
  let ?i = "hashed_at table (slot ?n ?h k)"
  have s: "slot ?n ?h k < ?n" using h kn by (simp add: slot_less)
  show ?thesis
  proof (cases "?i = 0")
    case True
    have "\<not> (i \<in> hashed table \<and> ie_object (table ! i) = obj)" for i
    proof
      assume "i \<in> hashed table \<and> ie_object (table ! i) = obj"
      then obtain t where t: "t < ?n" "hashed_at table t = i" "i \<noteq> 0" "home table i = ?h"
          "ie_object (table ! i) = obj"
        by (auto simp: hashed_iff)
      have "k < gap ?n ?h t \<Longrightarrow> False"
        using clump_before [OF ok t(1), of k] True t by simp
      moreover have "?hit (gap ?n ?h t)" using t h by simp
      then have "k \<le> gap ?n ?h t" unfolding k_def by (rule Least_le)
      ultimately have "k = gap ?n ?h t" using le_neq_implies_less by blast
      then show False using True t h by simp
    qed
    moreover have "local_lookup_loop table obj ?h = Some None"
      unfolding walk by (subst local_lookup_loop.simps) (simp add: True)
    ultimately show ?thesis by auto
  next
    case False
    then have o: "ie_object (table ! ?i) = obj" using k(1) by simp
    have m: "?i \<in> hashed table" using False s by (auto simp: hashed_iff)
    have "local_lookup_loop table obj ?h = Some (Some ?i)"
      unfolding walk by (subst local_lookup_loop.simps) (use False o in \<open>simp add: Let_def\<close>)
    then show ?thesis using m o uniq by auto
  qed
qed

lemma table_hash_insert_correct:
  assumes ok: "local_hash_ok table" and i: "0 < index" "index < length table"
    and obj: "ie_object (table ! index) = obj" and new: "index \<notin> hashed table"
  shows "\<exists>table'. table_hash_insert table obj index = Some table' \<and>
    local_hash_ok table' \<and> hashed table' = insert index (hashed table) \<and>
    length table' = length table \<and>
    (\<forall>s < length table. table' ! s = (table ! s)\<lparr>ie_index := hashed_at table' s\<rparr>)"
proof -
  let ?n = "length table" and ?h = "IH_LOCAL_HASH obj (length table)"
  have h: "?h < ?n" using home_less local_hash_okD(1) [OF ok] by blast
  obtain z where z: "z < ?n" "hashed_at table z = 0" using free_slot_exists [OF ok] by blast
  obtain k where k: "k < ?n" "hashed_at table (slot ?n ?h k) = 0"
      "\<forall>j < k. hashed_at table (slot ?n ?h j) \<noteq> 0"
    using first_free [OF h z(1), of "hashed_at table"] z(2) by blast
  let ?s = "slot ?n ?h k"
  have s: "?s < ?n" using h k by (simp add: slot_less)
  have "local_insert_loop table ?h = Some ?s"
    using local_insert_walk [OF h k(1,3)] local_insert_loop.simps [of table ?s] k(2) by simp
  then have e: "table_hash_insert table obj index = Some (set_index table ?s index)"
    by (simp add: table_hash_insert_def)
  let ?t = "set_index table ?s index"
  note at = hashed_at_set_index [of _ table ?s index]
  have new': "\<And>t. t < ?n \<Longrightarrow> hashed_at table t \<noteq> index"
    using new i by (auto simp: hashed_iff)
  have "local_hash_ok ?t"
    unfolding local_hash_ok_def length_set_index
  proof (intro conjI allI impI)
    show "?t \<noteq> []" using local_hash_okD(1) [OF ok] by (auto simp: set_index_def)
    show "hashed_at ?t t < ?n" if "t < ?n" for t
      using that at [OF that] i local_hash_okD(2) [OF ok that] by simp
    show "t = u" if "t < ?n" "u < ?n" "hashed_at ?t t = hashed_at ?t u \<and> hashed_at ?t t \<noteq> 0" for t u
      using that at [OF that(1)] at [OF that(2)] new' [OF that(1)] new' [OF that(2)]
        local_hash_okD(3) [OF ok that(1,2)] by (simp split: if_splits)
    fix t assume t: "t < ?n" "hashed_at ?t t \<noteq> 0"
    show "let g = IH_LOCAL_HASH (ie_object (?t ! hashed_at ?t t)) ?n in
        \<forall>j < gap ?n g t. hashed_at ?t (slot ?n g j) \<noteq> 0"
      unfolding Let_def ie_object_set_index
    proof (intro allI impI)
      let ?g = "home table (hashed_at ?t t)"
      fix j assume j: "j < gap ?n ?g t"
      have g: "?g < ?n" using home_less local_hash_okD(1) [OF ok] by blast
      then have jn: "slot ?n ?g j < ?n" using j gap_less [OF g t(1)] by (simp add: slot_less)
      have "hashed_at table (slot ?n ?g j) \<noteq> 0"
      proof (cases "t = ?s")
        case True
        then have "?g = ?h" "gap ?n ?h t = k" using at [OF t(1)] obj h k(1) by simp_all
        with j k(3) show ?thesis by simp
      next
        case False
        then show ?thesis using clump_before [OF ok t(1)] at [OF t(1)] t(2) j by simp
      qed
      then show "hashed_at ?t (slot ?n ?g j) \<noteq> 0" using at [OF jn] i by simp
    qed
  qed
  moreover have "hashed ?t = insert index (hashed table)"
  proof (rule set_eqI)
    fix x
    show "x \<in> hashed ?t \<longleftrightarrow> x \<in> insert index (hashed table)"
      unfolding hashed_iff length_set_index insert_iff
      using at s k(2) i by (metis less_not_refl)
  qed
  moreover have "\<forall>t < ?n. ?t ! t = (table ! t)\<lparr>ie_index := hashed_at ?t t\<rparr>"
    by (simp add: set_index_nth)
  ultimately show ?thesis using e by simp
qed

text \<open>
  A table with a hole at slot \<open>kh\<close> after the free slot \<open>z\<close>: all its other slots obey the
  invariant, and hold the indices \<open>S\<close>; the hole still holds the index that was deleted or moved.
\<close>

definition holed :: "ipc_entry list \<Rightarrow> nat \<Rightarrow> nat \<Rightarrow> nat set \<Rightarrow> bool" where
  "holed table z kh S \<longleftrightarrow>
     (let n = length table; c = (\<lambda>k. hashed_at table (slot n z k)) in
      z < n \<and> c 0 = 0 \<and> kh < n \<and> c kh \<noteq> 0 \<and> (\<forall>k < n. c k < n) \<and>
      (\<forall>k < n. \<forall>j < n. k \<noteq> kh \<and> j \<noteq> kh \<and> c k = c j \<and> c k \<noteq> 0 \<longrightarrow> k = j) \<and>
      (\<forall>k < n. k \<noteq> kh \<and> c k \<noteq> 0 \<longrightarrow> linear_at table z k) \<and>
      S = {i. i \<noteq> 0 \<and> (\<exists>k < n. k \<noteq> kh \<and> c k = i)})"

lemma holedD:
  assumes "holed table z kh S"
  shows "z < length table" "hashed_at table z = 0" "kh < length table"
    "hashed_at table (slot (length table) z kh) \<noteq> 0"
    "k < length table \<Longrightarrow> hashed_at table (slot (length table) z k) < length table"
    "k < length table \<Longrightarrow> j < length table \<Longrightarrow> k \<noteq> kh \<Longrightarrow> j \<noteq> kh \<Longrightarrow>
      hashed_at table (slot (length table) z k) = hashed_at table (slot (length table) z j) \<Longrightarrow>
      hashed_at table (slot (length table) z k) \<noteq> 0 \<Longrightarrow> k = j"
    "k < length table \<Longrightarrow> k \<noteq> kh \<Longrightarrow> hashed_at table (slot (length table) z k) \<noteq> 0 \<Longrightarrow> linear_at table z k"
    "i \<in> S \<longleftrightarrow> i \<noteq> 0 \<and> (\<exists>k < length table. k \<noteq> kh \<and> hashed_at table (slot (length table) z k) = i)"
proof -
  let ?n = "length table" and ?c = "\<lambda>k. hashed_at table (slot (length table) z k)"
  have h: "z < ?n" "?c 0 = 0" "kh < ?n" "?c kh \<noteq> 0" "\<forall>k < ?n. ?c k < ?n"
      "\<forall>k < ?n. \<forall>j < ?n. k \<noteq> kh \<and> j \<noteq> kh \<and> ?c k = ?c j \<and> ?c k \<noteq> 0 \<longrightarrow> k = j"
      "\<forall>k < ?n. k \<noteq> kh \<and> ?c k \<noteq> 0 \<longrightarrow> linear_at table z k"
      "S = {i. i \<noteq> 0 \<and> (\<exists>k < ?n. k \<noteq> kh \<and> ?c k = i)}"
    using assms unfolding holed_def Let_def by - (elim conjE, assumption)+
  show "z < ?n" "kh < ?n" "?c kh \<noteq> 0" by (fact h)+
  show "hashed_at table z = 0" using h(1,2) by simp
  show "k < ?n \<Longrightarrow> ?c k < ?n" using h(5) by simp
  show "k < ?n \<Longrightarrow> j < ?n \<Longrightarrow> k \<noteq> kh \<Longrightarrow> j \<noteq> kh \<Longrightarrow> ?c k = ?c j \<Longrightarrow> ?c k \<noteq> 0 \<Longrightarrow> k = j"
    using h(6) [rule_format, of k j] by simp
  show "k < ?n \<Longrightarrow> k \<noteq> kh \<Longrightarrow> ?c k \<noteq> 0 \<Longrightarrow> linear_at table z k"
    using h(7) [rule_format, of k] by simp
  show "i \<in> S \<longleftrightarrow> i \<noteq> 0 \<and> (\<exists>k < ?n. k \<noteq> kh \<and> ?c k = i)" unfolding h(8) by simp
qed

lemma displaced_iff:
  assumes "z < n" "kh < kd" "kd < n" "kt \<le> kd"
  shows "(if slot n z kd < slot n z kh then slot n z kd < slot n z kt \<and> slot n z kt \<le> slot n z kh
      else slot n z kd < slot n z kt \<or> slot n z kt \<le> slot n z kh) \<longleftrightarrow> kt \<le> kh"
  using assms by (auto simp: slot_def)

lemma local_delete_scan_correct:
  assumes hole: "holed table z kh S" and kd: "kh \<le> kd" "kd < length table"
  shows "\<exists>k. kd < k \<and> k \<le> length table \<and>
    (let n = length table; i = hashed_at table (slot n z k) in
      local_delete_scan table (slot n z kh) (slot n z kd) = Some (slot n z k, i) \<and>
      (i = 0 \<or> k < n \<and> gap n z (home table i) \<le> kh) \<and>
      (\<forall>j. kd < j \<and> j < k \<longrightarrow> hashed_at table (slot n z j) \<noteq> 0 \<and>
          kh < gap n z (home table (hashed_at table (slot n z j)))))"
  using kd
proof (induction "length table - kd" arbitrary: kd)
  case (Suc m)
  let ?n = "length table"
  let ?i = "hashed_at table (slot ?n z (Suc kd))"
  have z: "z < ?n" "hashed_at table (slot ?n z 0) = 0" using holedD [OF hole] by simp_all
  have nx: "hindex_next ?n (slot ?n z kd) = slot ?n z (Suc kd)"
    using z(1) Suc.prems by (simp add: hindex_next_slot)
  show ?case
  proof (cases "?i = 0")
    case True
    then have "local_delete_scan table (slot ?n z kh) (slot ?n z kd) = Some (slot ?n z (Suc kd), ?i)"
      by (subst local_delete_scan.simps) (simp add: Let_def nx)
    with True Suc.prems show ?thesis by (intro exI [of _ "Suc kd"]) (simp add: Let_def)
  next
    case False
    then have "Suc kd \<noteq> ?n" using z by (metis slot_0 slot_n)
    then have kd': "Suc kd < ?n" using Suc.prems by simp
    have "linear_at table z (Suc kd)"
      using holedD(7) [OF hole kd'] False Suc.prems by simp
    then have le: "gap ?n z (home table ?i) \<le> Suc kd" by (simp add: linear_at_def Let_def)
    have t: "slot ?n z (gap ?n z (home table ?i)) = home table ?i"
      using z(1) home_less [of table] by (cases "table = []") simp_all
    have scan: "local_delete_scan table (slot ?n z kh) (slot ?n z kd) =
        (if gap ?n z (home table ?i) \<le> kh then Some (slot ?n z (Suc kd), ?i)
         else local_delete_scan table (slot ?n z kh) (slot ?n z (Suc kd)))"
      using displaced_iff [OF z(1) _ kd' le, of kh, unfolded t] Suc.prems False
      by (subst local_delete_scan.simps) (simp add: Let_def nx)
    show ?thesis
    proof (cases "gap ?n z (home table ?i) \<le> kh")
      case True
      with scan kd' show ?thesis by (intro exI [of _ "Suc kd"]) (simp add: Let_def)
    next
      case far: False
      have "m = ?n - Suc kd" "kh \<le> Suc kd" using Suc by simp_all
      from Suc.hyps(1) [OF this kd'] obtain k where
        k: "Suc kd < k" "k \<le> ?n" "local_delete_scan table (slot ?n z kh) (slot ?n z (Suc kd)) =
            Some (slot ?n z k, hashed_at table (slot ?n z k))"
          "hashed_at table (slot ?n z k) = 0 \<or>
             k < ?n \<and> gap ?n z (home table (hashed_at table (slot ?n z k))) \<le> kh"
          "\<And>j. Suc kd < j \<Longrightarrow> j < k \<Longrightarrow> hashed_at table (slot ?n z j) \<noteq> 0 \<and>
             kh < gap ?n z (home table (hashed_at table (slot ?n z j)))"
        by (auto simp: Let_def)
      have "hashed_at table (slot ?n z j) \<noteq> 0 \<and>
          kh < gap ?n z (home table (hashed_at table (slot ?n z j)))" if "kd < j" "j < k" for j
        using k(5) [of j] that False far by (cases "j = Suc kd") auto
      with k(1-4) scan far show ?thesis by (intro exI [of _ k]) (simp add: Let_def)
    qed
  qed
qed simp

lemma slot_set_index:
  assumes "z < length table" "kh < length table" "k < length table"
  shows "hashed_at (set_index table (slot (length table) z kh) i) (slot (length table) z k) =
    (if k = kh then i else hashed_at table (slot (length table) z k))"
  using assms slot_less [of z "length table" k] slot_less [of z "length table" kh]
  by (simp add: hashed_at_set_index slot_inject)

lemma linear_at_iff:
  "linear_at table z k \<longleftrightarrow>
     gap (length table) z (home table (hashed_at table (slot (length table) z k))) \<le> k \<and>
     (\<forall>j. gap (length table) z (home table (hashed_at table (slot (length table) z k))) \<le> j \<and> j < k \<longrightarrow>
        hashed_at table (slot (length table) z j) \<noteq> 0)"
  by (simp add: linear_at_def Let_def)

lemma linear_atD:
  assumes "linear_at table z k"
  shows "gap (length table) z (home table (hashed_at table (slot (length table) z k))) \<le> k"
    and "gap (length table) z (home table (hashed_at table (slot (length table) z k))) \<le> j \<Longrightarrow> j < k \<Longrightarrow>
      hashed_at table (slot (length table) z j) \<noteq> 0"
  using assms by (simp_all add: linear_at_iff)

lemma all_slots:
  assumes "z < n"
  shows "(\<forall>s < n. P s) \<longleftrightarrow> (\<forall>k < n. P (slot n z k))"
  by (metis assms gap_less less_imp_le_nat slot_gap slot_less)

lemma holed_close:
  assumes hole: "holed table z kh S" and k: "kh < k" "k \<le> length table"
    and free: "hashed_at table (slot (length table) z k) = 0"
    and between: "\<forall>j. kh < j \<and> j < k \<longrightarrow> hashed_at table (slot (length table) z j) \<noteq> 0 \<and>
       kh < gap (length table) z (home table (hashed_at table (slot (length table) z j)))"
  defines "table' \<equiv> set_index table (slot (length table) z kh) 0"
  shows "local_hash_ok table'" and "hashed table' = S"
proof -
  let ?n = "length table" and ?c = "\<lambda>k. hashed_at table (slot (length table) z k)"
    and ?c' = "\<lambda>k. hashed_at table' (slot (length table) z k)"
  note H = holedD [OF hole]
  have n: "length table' = ?n" by (simp add: table'_def)
  have c': "?c' j = (if j = kh then 0 else ?c j)" if "j < ?n" for j
    using slot_set_index [OF H(1,3) that] by (simp add: table'_def)
  have obj': "ie_object (table' ! i) = ie_object (table ! i)" for i by (simp add: table'_def)
  have pos: "0 < ?n" using H(1) by linarith
  have kh0: "kh \<noteq> 0" using H(1,2,4) by (metis slot_0)
  have z': "z < length table'" "hashed_at table' z = 0"
    using H(1,2) c' [OF pos] kh0 n by simp_all
  have lin: "linear_at table' z j" if j: "j < ?n" "?c' j \<noteq> 0" for j
  proof -
    have jh: "j \<noteq> kh" "?c j \<noteq> 0" "?c' j = ?c j" using j c' [OF j(1)] by (auto split: if_splits)
    then have l: "linear_at table z j" using H(7) j(1) by simp
    let ?g = "gap ?n z (home table (?c j))"
    have "\<not> (?g \<le> kh \<and> kh < j)"
    proof
      assume a: "?g \<le> kh \<and> kh < j"
      then have "\<not> j < k" using between by auto
      moreover have "j \<noteq> k" using free jh(2) by auto
      ultimately have "k < j" by simp
      with a k have "?c k \<noteq> 0" by (intro linear_atD(2) [OF l]) simp_all
      with free show False by simp
    qed
    then have "?c' i \<noteq> 0" if "?g \<le> i" "i < j" for i
      using l that c' [of i] j(1) by (auto simp: linear_at_iff)
    then show ?thesis using l unfolding linear_at_iff n obj' jh(3) by simp
  qed
  have inj: "i = j" if "i < ?n" "j < ?n" "?c' i = ?c' j" "?c' i \<noteq> 0" for i j
    using that c' [OF that(1)] c' [OF that(2)] H(6) [OF that(1,2)] by (simp split: if_splits)
  have bound: "?c' j < ?n" if "j < ?n" for j
    using that c' [OF that] H(5) [OF that] by auto
  show "local_hash_ok table'"
    unfolding local_hash_ok_linear [OF z'] n
  proof (intro conjI)
    show "\<forall>s < ?n. hashed_at table' s < ?n" by (rule iffD2 [OF all_slots [OF H(1)]]) (use bound in simp)
    show "\<forall>k < ?n. ?c' k \<noteq> 0 \<longrightarrow> linear_at table' z k" using lin by simp
    show "\<forall>s < ?n. \<forall>t < ?n. hashed_at table' s = hashed_at table' t \<and> hashed_at table' s \<noteq> 0 \<longrightarrow> s = t"
    proof (intro allI impI)
      fix s t assume st: "s < ?n" "t < ?n" "hashed_at table' s = hashed_at table' t \<and> hashed_at table' s \<noteq> 0"
      have "gap ?n z s = gap ?n z t"
        by (rule inj) (use st H(1) gap_less [of z ?n] in simp_all)
      then show "s = t" using st H(1) by (metis slot_gap)
    qed
  qed
  show "hashed table' = S"
  proof (rule set_eqI)
    fix i
    have "i \<in> hashed table' \<longleftrightarrow> i \<noteq> 0 \<and> (\<exists>k < ?n. ?c' k = i)"
      unfolding hashed_iff n using all_slots [OF H(1), of "\<lambda>s. hashed_at table' s \<noteq> i"] by auto
    also have "\<dots> \<longleftrightarrow> i \<noteq> 0 \<and> (\<exists>k < ?n. k \<noteq> kh \<and> ?c k = i)"
      using c' by auto
    finally show "i \<in> hashed table' \<longleftrightarrow> i \<in> S" unfolding H(8) .
  qed
qed

lemma holed_move:
  assumes hole: "holed table z kh S" and k: "kh < k" "k < length table"
    and near: "hashed_at table (slot (length table) z k) \<noteq> 0"
      "gap (length table) z (home table (hashed_at table (slot (length table) z k))) \<le> kh"
  shows "holed (set_index table (slot (length table) z kh)
           (hashed_at table (slot (length table) z k))) z k S"
proof -
  let ?n = "length table" and ?c = "\<lambda>k. hashed_at table (slot (length table) z k)"
  define table' where "table' = set_index table (slot ?n z kh) (?c k)"
  let ?c' = "\<lambda>k. hashed_at table' (slot (length table) z k)"
  note H = holedD [OF hole]
  have n: "length table' = ?n" by (simp add: table'_def)
  have c': "?c' j = (if j = kh then ?c k else ?c j)" if "j < ?n" for j
    using slot_set_index [OF H(1,3) that] by (simp add: table'_def)
  have obj': "ie_object (table' ! i) = ie_object (table ! i)" for i by (simp add: table'_def)
  have pos: "0 < ?n" using H(1) by linarith
  have kh0: "kh \<noteq> 0" using H(1,2,4) by (metis slot_0)
  have nz: "?c' j \<noteq> 0 \<longleftrightarrow> ?c j \<noteq> 0" if "j < ?n" for j
    using c' [OF that] near(1) H(4) by simp
  have lin: "linear_at table' z j" if j: "j < ?n" "j \<noteq> k" "?c' j \<noteq> 0" for j
  proof (cases "j = kh")
    case True
    have "linear_at table z k" using H(7) k near(1) by simp
    then show ?thesis
      using True near(2) k c' [OF j(1)] nz j(1) unfolding linear_at_iff n obj' by simp
  next
    case False
    then have l: "linear_at table z j" "?c' j = ?c j" using H(7) [OF j(1)] nz [OF j(1)] c' [OF j(1)] j(3) by simp_all
    then show ?thesis unfolding linear_at_iff n obj' l(2) using nz j(1) by simp
  qed
  have inj: "i = j" if ij: "i < ?n" "j < ?n" "i \<noteq> k" "j \<noteq> k" "?c' i = ?c' j" "?c' i \<noteq> 0" for i j
  proof -
    have khk: "k \<noteq> kh" using k(1) by simp
    consider "i = kh" "j = kh" | "i = kh" "j \<noteq> kh" | "i \<noteq> kh" "j = kh" | "i \<noteq> kh" "j \<noteq> kh" by metis
    then show ?thesis
    proof cases
      case 2
      then have "?c k = ?c j" "?c k \<noteq> 0" using c' [OF ij(1)] c' [OF ij(2)] ij(5,6) by simp_all
      then have "k = j" by (rule H(6) [OF k(2) ij(2) khk 2(2)])
      with ij show ?thesis by simp
    next
      case 3
      then have "?c i = ?c k" "?c i \<noteq> 0" using c' [OF ij(1)] c' [OF ij(2)] ij(5,6) by simp_all
      then have "i = k" by (rule H(6) [OF ij(1) k(2) 3(1) khk])
      with ij show ?thesis by simp
    next
      case 4
      then have "?c i = ?c j" "?c i \<noteq> 0" using c' [OF ij(1)] c' [OF ij(2)] ij(5,6) by simp_all
      then show ?thesis by (rule H(6) [OF ij(1,2) 4])
    qed simp
  qed
  have bound: "?c' j < ?n" if "j < ?n" for j
    using c' [OF that] H(5) [OF that] H(5) [OF k(2)] by simp
  have S: "S = {i. i \<noteq> 0 \<and> (\<exists>j < ?n. j \<noteq> k \<and> ?c' j = i)}"
  proof (rule set_eqI)
    fix i
    have "(\<exists>j < ?n. j \<noteq> kh \<and> ?c j = i) \<longleftrightarrow> (\<exists>j < ?n. j \<noteq> k \<and> ?c' j = i)"
      using c' k H(3) by (metis less_irrefl)
    then show "i \<in> S \<longleftrightarrow> i \<in> {i. i \<noteq> 0 \<and> (\<exists>j < ?n. j \<noteq> k \<and> ?c' j = i)}"
      unfolding H(8) by simp
  qed
  have "holed table' z k S"
    unfolding holed_def Let_def n
  proof (intro conjI)
    show "z < ?n" "k < ?n" by (fact H k)+
    show "?c' 0 = 0" using c' [OF pos] kh0 H(1,2) by simp
    show "?c' k \<noteq> 0" using nz [OF k(2)] near(1) by simp
    show "\<forall>k < ?n. ?c' k < ?n" using bound by simp
    show "\<forall>i < ?n. \<forall>j < ?n. i \<noteq> k \<and> j \<noteq> k \<and> ?c' i = ?c' j \<and> ?c' i \<noteq> 0 \<longrightarrow> i = j"
    proof (intro allI impI)
      fix i j assume "i < ?n" "j < ?n" "i \<noteq> k \<and> j \<noteq> k \<and> ?c' i = ?c' j \<and> ?c' i \<noteq> 0"
      then show "i = j" by (elim conjE) (rule inj)
    qed
    show "\<forall>j < ?n. j \<noteq> k \<and> ?c' j \<noteq> 0 \<longrightarrow> linear_at table' z j" using lin by simp
    show "S = {i. i \<noteq> 0 \<and> (\<exists>j < ?n. j \<noteq> k \<and> ?c' j = i)}" by (fact S)
  qed
  then show ?thesis unfolding table'_def .
qed

lemma local_delete_shift_correct:
  assumes "holed table z kh S" "index \<noteq> 0"
  shows "\<exists>table'. local_delete_shift table (slot (length table) z kh) index = Some table' \<and>
    local_hash_ok table' \<and> hashed table' = S \<and> length table' = length table \<and>
    (\<forall>s < length table. table' ! s = (table ! s)\<lparr>ie_index := hashed_at table' s\<rparr>)"
  using assms
proof (induction "length table - kh" arbitrary: table kh index rule: less_induct)
  case less
  let ?n = "length table"
  note H = holedD [OF less.prems(1)]
  obtain k where k: "kh < k" "k \<le> ?n"
      "local_delete_scan table (slot ?n z kh) (slot ?n z kh) =
         Some (slot ?n z k, hashed_at table (slot ?n z k))"
      "hashed_at table (slot ?n z k) = 0 \<or>
         k < ?n \<and> gap ?n z (home table (hashed_at table (slot ?n z k))) \<le> kh"
      "\<forall>j. kh < j \<and> j < k \<longrightarrow> hashed_at table (slot ?n z j) \<noteq> 0 \<and>
          kh < gap ?n z (home table (hashed_at table (slot ?n z j)))"
    using local_delete_scan_correct [OF less.prems(1) le_refl H(3)] by (auto simp: Let_def)
  let ?i = "hashed_at table (slot ?n z k)" and ?t = "set_index table (slot ?n z kh) (hashed_at table (slot ?n z k))"
  have step: "local_delete_shift table (slot ?n z kh) index = local_delete_shift ?t (slot ?n z k) ?i"
    using less.prems(2) by (subst local_delete_shift.simps) (simp add: k(3))
  have frame: "\<forall>s < ?n. ?t ! s = (table ! s)\<lparr>ie_index := hashed_at ?t s\<rparr>" by (simp add: set_index_nth)
  show ?case
  proof (cases "?i = 0")
    case True
    have "local_delete_shift ?t (slot ?n z k) ?i = Some ?t"
      using True by (subst local_delete_shift.simps) simp
    with step holed_close [OF less.prems(1) k(1,2) True k(5)] True frame show ?thesis by simp
  next
    case False
    then have kn: "k < ?n" "gap ?n z (home table ?i) \<le> kh" using k(4) by simp_all
    have hole: "holed ?t z k S" by (rule holed_move [OF less.prems(1) k(1) kn(1) False kn(2)])
    have "length ?t - k < length table - kh" using k(1) kn(1) by simp
    from less.hyps [OF this hole False] obtain table' where
      t: "local_delete_shift ?t (slot ?n z k) ?i = Some table'" "local_hash_ok table'"
        "hashed table' = S" "length table' = ?n"
        "\<forall>s < ?n. table' ! s = (?t ! s)\<lparr>ie_index := hashed_at table' s\<rparr>"
      by auto
    have "table' ! s = (table ! s)\<lparr>ie_index := hashed_at table' s\<rparr>" if "s < ?n" for s
      using t(5) [rule_format, OF that] frame [rule_format, OF that]
      by (metis ipc_entry.update_convs(4) ipc_entry.surjective)
    with t step show ?thesis by auto
  qed
qed

lemma hashed_holed:
  assumes ok: "local_hash_ok table" and z: "z < length table" "hashed_at table z = 0"
    and s: "s < length table" "hashed_at table s \<noteq> 0"
  shows "holed table z (gap (length table) z s) (hashed table - {hashed_at table s})"
proof -
  let ?n = "length table" and ?c = "\<lambda>k. hashed_at table (slot (length table) z k)"
  let ?kh = "gap ?n z s"
  have lin: "\<forall>k < ?n. ?c k \<noteq> 0 \<longrightarrow> linear_at table z k"
    using ok unfolding local_hash_ok_linear [OF z] by simp
  have kh: "?kh < ?n" "slot ?n z ?kh = s" using z s by (simp_all add: gap_less)
  have inj: "i = j" if "i < ?n" "j < ?n" "?c i = ?c j" "?c i \<noteq> 0" for i j
  proof -
    have "slot ?n z i = slot ?n z j"
      by (rule local_hash_okD(3) [OF ok _ _ that(3,4)]) (use that z in \<open>simp_all add: slot_less\<close>)
    then show ?thesis using slot_inject [OF z(1) that(1,2)] by simp
  qed
  show ?thesis
    unfolding holed_def Let_def
  proof (intro conjI)
    show "z < ?n" "?kh < ?n" by (fact z kh)+
    show "?c 0 = 0" "?c ?kh \<noteq> 0" using z s kh by simp_all
    show "\<forall>k < ?n. ?c k < ?n" using local_hash_okD(2) [OF ok] z(1) by (simp add: slot_less)
    show "\<forall>i < ?n. \<forall>j < ?n. i \<noteq> ?kh \<and> j \<noteq> ?kh \<and> ?c i = ?c j \<and> ?c i \<noteq> 0 \<longrightarrow> i = j"
    proof (intro allI impI)
      fix i j assume "i < ?n" "j < ?n" "i \<noteq> ?kh \<and> j \<noteq> ?kh \<and> ?c i = ?c j \<and> ?c i \<noteq> 0"
      then show "i = j" by (elim conjE) (rule inj)
    qed
    show "\<forall>k < ?n. k \<noteq> ?kh \<and> ?c k \<noteq> 0 \<longrightarrow> linear_at table z k" using lin by simp
    show "hashed table - {hashed_at table s} = {i. i \<noteq> 0 \<and> (\<exists>k < ?n. k \<noteq> ?kh \<and> ?c k = i)}"
    proof (rule set_eqI)
      fix i
      have "i \<in> hashed table \<longleftrightarrow> i \<noteq> 0 \<and> (\<exists>k < ?n. ?c k = i)"
        unfolding hashed_iff using all_slots [OF z(1), of "\<lambda>s. hashed_at table s \<noteq> i"] by auto
      moreover have "k = ?kh \<longleftrightarrow> ?c k = hashed_at table s" if "k < ?n" for k
        using inj [OF that kh(1)] kh(2) s(2) by auto
      ultimately show "i \<in> hashed table - {hashed_at table s} \<longleftrightarrow>
          i \<in> {i. i \<noteq> 0 \<and> (\<exists>k < ?n. k \<noteq> ?kh \<and> ?c k = i)}"
        by auto
    qed
  qed
qed

lemma table_hash_delete_correct:
  assumes ok: "local_hash_ok table" and i: "index \<in> hashed table"
    and obj: "ie_object (table ! index) = obj"
  shows "\<exists>table'. table_hash_delete table obj index = Some table' \<and>
    local_hash_ok table' \<and> hashed table' = hashed table - {index} \<and>
    length table' = length table \<and>
    (\<forall>s < length table. table' ! s = (table ! s)\<lparr>ie_index := hashed_at table' s\<rparr>)"
proof -
  let ?n = "length table" and ?h = "IH_LOCAL_HASH obj (length table)"
  obtain z where z: "z < ?n" "hashed_at table z = 0" using free_slot_exists [OF ok] by auto
  obtain s where s: "s < ?n" "hashed_at table s = index" "index \<noteq> 0" using i by (auto simp: hashed_iff)
  have h: "?h < ?n" by (rule home_less [OF local_hash_okD(1) [OF ok]])
  have k: "gap ?n ?h s < ?n" by (rule gap_less [OF h s(1)])
  have "hashed_at table (slot ?n ?h j) \<noteq> index" if j: "j < gap ?n ?h s" for j
  proof
    assume e: "hashed_at table (slot ?n ?h j) = index"
    have "slot ?n ?h j = s"
      by (rule local_hash_okD(3) [OF ok]) (use e s h j k in \<open>simp_all add: slot_less\<close>)
    then show False using j k h by (metis gap_slot less_irrefl less_trans)
  qed
  then have "local_delete_find table index ?h = local_delete_find table index s"
    using local_find_walk [OF h k] h s(1) by simp
  also have "\<dots> = Some s" using s by (subst local_delete_find.simps) simp
  finally have "table_hash_delete table obj index = local_delete_shift table s index"
    by (simp add: table_hash_delete_def)
  moreover have "holed table z (gap ?n z s) (hashed table - {index})"
    using hashed_holed [OF ok z s(1)] s by simp
  ultimately show ?thesis
    using local_delete_shift_correct [of table z "gap ?n z s" "hashed table - {index}" index] s z by simp
qed

section \<open>The global table\<close>

definition IH_GLOBAL_HASH :: "ipc_hash_global \<Rightarrow> ipc_space_t \<Rightarrow> ipc_object_t \<Rightarrow> nat" where
  "IH_GLOBAL_HASH ghash space obj =
     unat ((drop_bit 4 space + drop_bit 6 obj) AND (of_nat (length ghash) - 1))"

abbreviation node_for :: "ipc_space_t \<Rightarrow> ipc_object_t \<Rightarrow> ipc_hash_node \<Rightarrow> bool" where
  "node_for space obj this \<equiv> ihn_object this = obj \<and> ihn_space this = space"

text \<open>The search of a bucket for a node, which unlinks it.\<close>

fun bucket_unlink :: "('n \<Rightarrow> bool) \<Rightarrow> 'n list \<Rightarrow> ('n \<times> 'n list) option" where
  "bucket_unlink p [] = None"
| "bucket_unlink p (this # bucket) =
     (if p this then Some (this, bucket)
      else map_option (\<lambda>(n, rest). (n, this # rest)) (bucket_unlink p bucket))"

fun bucket_lookup :: "('n \<Rightarrow> bool) \<Rightarrow> 'n list \<Rightarrow> 'n option \<times> 'n list" where
  "bucket_lookup p [] = (None, [])"
| "bucket_lookup p (this # bucket) =
     (if p this then (Some this, this # bucket)
      else case bucket_unlink p bucket of
          None \<Rightarrow> (None, this # bucket)
        | Some (n, rest) \<Rightarrow> (Some n, n # this # rest))"

definition ipc_hash_global_lookup ::
  "ipc_hash_global \<Rightarrow> ipc_space_t \<Rightarrow> ipc_object_t \<Rightarrow> mach_port_t option \<times> ipc_hash_global" where
  "ipc_hash_global_lookup ghash space obj =
     (let b = IH_GLOBAL_HASH ghash space obj;
          (this, bucket) = bucket_lookup (node_for space obj) (ghash ! b)
      in (map_option ihn_name this, ghash[b := bucket]))"

definition global_bucket_insert ::
  "ipc_hash_global \<Rightarrow> ipc_space_t \<Rightarrow> ipc_object_t \<Rightarrow> mach_port_t \<Rightarrow> ipc_hash_global" where
  "global_bucket_insert ghash space obj name =
     (let b = IH_GLOBAL_HASH ghash space obj
      in ghash[b := \<lparr>ihn_space = space, ihn_object = obj, ihn_name = name\<rparr> # ghash ! b])"

definition global_bucket_delete ::
  "ipc_hash_global \<Rightarrow> ipc_space_t \<Rightarrow> ipc_object_t \<Rightarrow> mach_port_t \<Rightarrow> ipc_hash_global" where
  "global_bucket_delete ghash space obj name =
     (let b = IH_GLOBAL_HASH ghash space obj in
      case bucket_unlink (\<lambda>this. ihn_space this = space \<and> ihn_name this = name) (ghash ! b) of
        None \<Rightarrow> ghash
      | Some (n, rest) \<Rightarrow> ghash[b := rest])"

definition ipc_hash_global_insert ::
  "ipc_hash_global \<times> ipc_space \<Rightarrow> ipc_object_t \<Rightarrow> mach_port_t \<Rightarrow> ipc_hash_global \<times> ipc_space" where
  "ipc_hash_global_insert s obj name = (case s of (ghash, space) \<Rightarrow>
     (global_bucket_insert ghash (is_self space) obj name,
      space\<lparr>is_tree_hash := is_tree_hash space + 1\<rparr>))"

definition ipc_hash_global_delete ::
  "ipc_hash_global \<times> ipc_space \<Rightarrow> ipc_object_t \<Rightarrow> mach_port_t \<Rightarrow> ipc_hash_global \<times> ipc_space" where
  "ipc_hash_global_delete s obj name = (case s of (ghash, space) \<Rightarrow>
     (global_bucket_delete ghash (is_self space) obj name,
      space\<lparr>is_tree_hash := is_tree_hash space - 1\<rparr>))"

section \<open>The two tables together\<close>

definition ipc_hash_lookup ::
  "ipc_hash_global \<times> ipc_space \<Rightarrow> ipc_object_t \<Rightarrow>
   ((mach_port_t \<times> ipc_entry_ref) option \<times> ipc_hash_global \<times> ipc_space) option" where
  "ipc_hash_lookup s obj = (case s of (ghash, space) \<Rightarrow>
     (case ipc_hash_local_lookup space obj of
        None \<Rightarrow> None
      | Some (Some r) \<Rightarrow> Some (Some r, ghash, space)
      | Some None \<Rightarrow>
          if is_tree_hash space > 0
          then (case ipc_hash_global_lookup ghash (is_self space) obj of (name, ghash') \<Rightarrow>
                  Some (map_option (\<lambda>n. (n, TreeEntry n)) name, ghash', space))
          else Some (None, ghash, space)))"

definition ipc_hash_insert ::
  "ipc_hash_global \<times> ipc_space \<Rightarrow> ipc_object_t \<Rightarrow> mach_port_t \<Rightarrow> ipc_entry_ref \<Rightarrow>
   (ipc_hash_global \<times> ipc_space) option" where
  "ipc_hash_insert s obj name entry = (case s of (ghash, space) \<Rightarrow>
     (let index = MACH_PORT_INDEX name in
      if index < is_table_size space \<and> entry = TableEntry index
      then map_option (Pair ghash) (ipc_hash_local_insert space obj index)
      else Some (ipc_hash_global_insert (ghash, space) obj name)))"

definition ipc_hash_delete ::
  "ipc_hash_global \<times> ipc_space \<Rightarrow> ipc_object_t \<Rightarrow> mach_port_t \<Rightarrow> ipc_entry_ref \<Rightarrow>
   (ipc_hash_global \<times> ipc_space) option" where
  "ipc_hash_delete s obj name entry = (case s of (ghash, space) \<Rightarrow>
     (let index = MACH_PORT_INDEX name in
      if index < is_table_size space \<and> entry = TableEntry index
      then map_option (Pair ghash) (ipc_hash_local_delete space obj index)
      else Some (ipc_hash_global_delete (ghash, space) obj name)))"

section \<open>Initialisation of the global table\<close>

partial_function (option) hash_round_up ::
  "natural_t \<Rightarrow> natural_t \<Rightarrow> (natural_t \<times> natural_t) option" where
  "hash_round_up b mask0 =
     (let mask1 = mask0 OR b; tsize = mask1 + 1 in
      if tsize AND mask1 = 0 then Some (tsize, mask1) else hash_round_up (push_bit 1 b) mask1)"

definition ipc_hash_init :: "natural_t \<Rightarrow> natural_t \<Rightarrow> (natural_t \<times> natural_t \<times> ipc_hash_global) option" where
  "ipc_hash_init ipc_hash_global_size ipc_tree_entry_max =
     (let tsize = (if ipc_hash_global_size = 0
                   then let t = drop_bit 8 ipc_tree_entry_max in if t < 32 then 32 else t
                   else ipc_hash_global_size);
          mask0 = tsize - 1
      in map_option (\<lambda>(s, m). (s, m, replicate (unat s) []))
           (if tsize AND mask0 \<noteq> 0 then hash_round_up 1 mask0 else Some (tsize, mask0)))"

declare hash_round_up.simps [code]

section \<open>The global table is correct\<close>

definition nodes :: "ipc_hash_global \<Rightarrow> ipc_hash_node set" where
  "nodes ghash = (\<Union>b < length ghash. set (ghash ! b))"

abbreviation bucket_of :: "ipc_hash_global \<Rightarrow> ipc_hash_node \<Rightarrow> nat" where
  "bucket_of ghash x \<equiv> IH_GLOBAL_HASH ghash (ihn_space x) (ihn_object x)"

definition global_hash_ok :: "ipc_hash_global \<Rightarrow> bool" where
  "global_hash_ok ghash \<longleftrightarrow> 0 < length ghash \<and> length ghash < 2 ^ 32 \<and>
     (\<forall>b < length ghash. distinct (ghash ! b) \<and> (\<forall>x \<in> set (ghash ! b). bucket_of ghash x = b)) \<and>
     (\<forall>x \<in> nodes ghash. \<forall>y \<in> nodes ghash. ihn_space x = ihn_space y \<longrightarrow>
        ihn_object x = ihn_object y \<or> ihn_name x = ihn_name y \<longrightarrow> x = y)"

definition global_hash_map :: "ipc_hash_global \<Rightarrow> ipc_space_t \<times> ipc_object_t \<rightharpoonup> mach_port_t" where
  "global_hash_map ghash k =
     map_option ihn_name (find (node_for (fst k) (snd k)) (ghash ! IH_GLOBAL_HASH ghash (fst k) (snd k)))"

lemma bucket_unlink_None: "bucket_unlink p xs = None \<longleftrightarrow> (\<forall>x \<in> set xs. \<not> p x)"
  by (induction xs) auto

lemma bucket_unlink_Some:
  "bucket_unlink p xs = Some (n, rest) \<Longrightarrow>
   \<exists>ys zs. xs = ys @ n # zs \<and> rest = ys @ zs \<and> p n \<and> (\<forall>y \<in> set ys. \<not> p y)"
proof (induction xs arbitrary: rest)
  case (Cons x xs)
  show ?case
  proof (cases "p x")
    case True
    then have "x # xs = [] @ n # rest" using Cons.prems by simp
    with True Cons.prems show ?thesis by (metis append_Nil empty_iff empty_set list.inject)
  next
    case False
    then obtain r where "bucket_unlink p xs = Some (n, r)" "rest = x # r" using Cons.prems by auto
    with Cons.IH False show ?thesis by (metis append_Cons set_ConsD)
  qed
qed simp

lemma bucket_lookup_find:
  "fst (bucket_lookup p xs) = find p xs" "set (snd (bucket_lookup p xs)) = set xs"
  "distinct (snd (bucket_lookup p xs)) \<longleftrightarrow> distinct xs"
proof -
  have "fst (bucket_lookup p xs) = find p xs \<and> set (snd (bucket_lookup p xs)) = set xs \<and>
     (distinct (snd (bucket_lookup p xs)) \<longleftrightarrow> distinct xs)"
  proof (cases "(p, xs)" rule: bucket_lookup.cases)
    case (2 q x ys)
    show ?thesis
    proof (cases "bucket_unlink p ys")
      case None
      then have "find p ys = None" by (auto simp: bucket_unlink_None find_None_iff)
      with None 2 show ?thesis by simp
    next
      case (Some r)
      obtain n rest where r: "r = (n, rest)" by (cases r)
      from bucket_unlink_Some [OF Some [unfolded r]] obtain as bs where
        s: "ys = as @ n # bs" "rest = as @ bs" "p n" "\<forall>y \<in> set as. \<not> p y" by blast
      then have f: "find p ys = Some n" by (induction as arbitrary: ys rest) auto
      show ?thesis using Some r s(1,2) f 2 by (cases "p x") auto
    qed
  qed simp
  then show "fst (bucket_lookup p xs) = find p xs" "set (snd (bucket_lookup p xs)) = set xs"
    "distinct (snd (bucket_lookup p xs)) \<longleftrightarrow> distinct xs" by simp_all
qed

lemma global_bucket_less:
  assumes "global_hash_ok ghash"
  shows "IH_GLOBAL_HASH ghash space obj < length ghash"
proof -
  let ?m = "of_nat (length ghash) - 1 :: natural_t"
  have l: "0 < length ghash" "length ghash < 2 ^ 32" using assms by (simp_all add: global_hash_ok_def)
  then obtain k where k: "length ghash = Suc k" by (cases "length ghash") auto
  then have "?m = of_nat k" by simp
  moreover have "unat (of_nat k :: natural_t) = k"
    using l k by (simp add: unsigned_of_nat take_bit_nat_eq_self)
  ultimately have "unat ?m = length ghash - 1" using k by (simp only: diff_Suc_1)
  moreover have "unat ((drop_bit 4 space + drop_bit 6 obj) AND ?m) \<le> unat ?m"
    using word_and_le1 by (simp add: word_le_nat_alt)
  ultimately show ?thesis using l unfolding IH_GLOBAL_HASH_def by linarith
qed

lemma IH_GLOBAL_HASH_update [simp]:
  "IH_GLOBAL_HASH (ghash[b := xs]) space obj = IH_GLOBAL_HASH ghash space obj"
  by (simp add: IH_GLOBAL_HASH_def)

lemma nodes_bucket:
  assumes "global_hash_ok ghash"
  shows "x \<in> nodes ghash \<longleftrightarrow> x \<in> set (ghash ! bucket_of ghash x)"
proof
  assume "x \<in> nodes ghash"
  then obtain b where b: "b < length ghash" "x \<in> set (ghash ! b)"
    by (auto simp: nodes_def)
  with assms have "bucket_of ghash x = b" by (simp add: global_hash_ok_def)
  with b show "x \<in> set (ghash ! bucket_of ghash x)" by simp
next
  assume "x \<in> set (ghash ! bucket_of ghash x)"
  with global_bucket_less [OF assms] show "x \<in> nodes ghash" by (auto simp: nodes_def)
qed

lemma global_unique:
  assumes "global_hash_ok ghash" "x \<in> nodes ghash" "y \<in> nodes ghash" "ihn_space x = ihn_space y"
    "ihn_object x = ihn_object y \<or> ihn_name x = ihn_name y"
  shows "x = y"
  using assms unfolding global_hash_ok_def by blast

lemma global_hash_map_iff:
  assumes "global_hash_ok ghash"
  shows "global_hash_map ghash (sp, obj) = Some n \<longleftrightarrow>
    \<lparr>ihn_space = sp, ihn_object = obj, ihn_name = n\<rparr> \<in> nodes ghash"
proof -
  let ?b = "ghash ! IH_GLOBAL_HASH ghash sp obj" and ?x = "\<lparr>ihn_space = sp, ihn_object = obj, ihn_name = n\<rparr>"
  have in_b: "y \<in> set ?b \<Longrightarrow> node_for sp obj y \<Longrightarrow> y \<in> nodes ghash" for y
    using nodes_bucket [OF assms, of y] by auto
  show ?thesis
  proof
    assume "global_hash_map ghash (sp, obj) = Some n"
    then obtain y where y: "find (node_for sp obj) ?b = Some y" "ihn_name y = n"
      by (auto simp: global_hash_map_def)
    then have "y \<in> set ?b" "node_for sp obj y" by (auto simp: find_Some_iff)
    moreover have "y = ?x" using y(2) \<open>node_for sp obj y\<close> by (cases y) simp
    ultimately show "?x \<in> nodes ghash" using in_b by simp
  next
    assume x: "?x \<in> nodes ghash"
    then have "?x \<in> set ?b" using nodes_bucket [OF assms, of ?x] by simp
    then have "find (node_for sp obj) ?b \<noteq> None"
      unfolding find_None_iff by (metis ipc_hash_node.select_convs(1,2))
    then obtain y where y: "find (node_for sp obj) ?b = Some y" by auto
    then have "y \<in> set ?b" "node_for sp obj y" by (auto simp: find_Some_iff)
    then have "y = ?x" using in_b x global_unique [OF assms, of y ?x] by simp
    with y show "global_hash_map ghash (sp, obj) = Some n" by (simp add: global_hash_map_def)
  qed
qed

lemma nodes_update:
  assumes "global_hash_ok ghash" "b < length ghash"
  shows "nodes (ghash[b := xs]) = {x \<in> nodes ghash. bucket_of ghash x \<noteq> b} \<union> set xs"
proof -
  have "nodes (ghash[b := xs]) = (\<Union>i < length ghash. set (ghash[b := xs] ! i))"
    by (simp add: nodes_def)
  also have "\<dots> = (\<Union>i \<in> {i. i < length ghash \<and> i \<noteq> b}. set (ghash ! i)) \<union> set xs"
    using assms(2) by (auto simp: nth_list_update split: if_splits)
  also have "(\<Union>i \<in> {i. i < length ghash \<and> i \<noteq> b}. set (ghash ! i)) = {x \<in> nodes ghash. bucket_of ghash x \<noteq> b}"
    using assms by (auto simp: global_hash_ok_def nodes_def)
  finally show ?thesis .
qed

lemma global_ok_update:
  assumes ok: "global_hash_ok ghash" and b: "b < length ghash" and xs: "distinct xs"
    "\<forall>x \<in> set xs. bucket_of ghash x = b"
    and u: "\<forall>x \<in> nodes (ghash[b := xs]). \<forall>y \<in> nodes (ghash[b := xs]). ihn_space x = ihn_space y \<longrightarrow>
        ihn_object x = ihn_object y \<or> ihn_name x = ihn_name y \<longrightarrow> x = y"
  shows "global_hash_ok (ghash[b := xs])"
  using assms unfolding global_hash_ok_def IH_GLOBAL_HASH_update length_list_update
  by (auto simp: nth_list_update)

lemma global_lookup_correct:
  assumes "global_hash_ok ghash"
  shows "fst (ipc_hash_global_lookup ghash sp obj) = global_hash_map ghash (sp, obj)
    \<and> global_hash_ok (snd (ipc_hash_global_lookup ghash sp obj))
    \<and> nodes (snd (ipc_hash_global_lookup ghash sp obj)) = nodes ghash"
proof -
  let ?b = "IH_GLOBAL_HASH ghash sp obj"
  let ?xs = "snd (bucket_lookup (node_for sp obj) (ghash ! ?b))"
  have b: "?b < length ghash" by (rule global_bucket_less [OF assms])
  have s: "set ?xs = set (ghash ! ?b)" "distinct ?xs"
    using assms b by (simp_all add: bucket_lookup_find global_hash_ok_def)
  have home: "\<forall>x \<in> set ?xs. bucket_of ghash x = ?b" using assms b s by (simp add: global_hash_ok_def)
  have n: "nodes (ghash[?b := ?xs]) = nodes ghash"
    using nodes_update [OF assms b, of ?xs] nodes_bucket [OF assms] home s by auto
  then have "global_hash_ok (ghash[?b := ?xs])"
    using global_ok_update [OF assms b s(2) home] assms by (simp add: global_hash_ok_def)
  with n show ?thesis
    by (simp add: ipc_hash_global_lookup_def global_hash_map_def Let_def case_prod_beta bucket_lookup_find)
qed

lemma global_insert_correct:
  assumes "global_hash_ok ghash" "global_hash_map ghash (sp, obj) = None"
    and new: "\<forall>x \<in> nodes ghash. \<not> (ihn_space x = sp \<and> ihn_name x = name)"
  shows "global_hash_ok (global_bucket_insert ghash sp obj name)
    \<and> nodes (global_bucket_insert ghash sp obj name) =
        insert \<lparr>ihn_space = sp, ihn_object = obj, ihn_name = name\<rparr> (nodes ghash)"
proof -
  let ?b = "IH_GLOBAL_HASH ghash sp obj" and ?x = "\<lparr>ihn_space = sp, ihn_object = obj, ihn_name = name\<rparr>"
  have b: "?b < length ghash" by (rule global_bucket_less [OF assms(1)])
  have home: "\<forall>x \<in> set (?x # ghash ! ?b). bucket_of ghash x = ?b"
    using assms(1) b by (simp add: global_hash_ok_def)
  have n: "nodes (ghash[?b := ?x # ghash ! ?b]) = insert ?x (nodes ghash)"
    using nodes_update [OF assms(1) b, of "?x # ghash ! ?b"] nodes_bucket [OF assms(1)] home by auto
  have x: "?x \<notin> nodes ghash" using new by auto
  then have d: "distinct (?x # ghash ! ?b)"
    using assms(1) b nodes_bucket [OF assms(1), of ?x] by (simp add: global_hash_ok_def)
  have no_key: "\<not> (ihn_space y = sp \<and> ihn_object y = obj)" if "y \<in> nodes ghash" for y
    using that assms(2) global_hash_map_iff [OF assms(1), of sp obj "ihn_name y"] by (cases y) auto
  have "\<forall>y \<in> insert ?x (nodes ghash). \<forall>z \<in> insert ?x (nodes ghash). ihn_space y = ihn_space z \<longrightarrow>
      ihn_object y = ihn_object z \<or> ihn_name y = ihn_name z \<longrightarrow> y = z"
  proof (intro ballI impI)
    fix y z
    assume yz: "y \<in> insert ?x (nodes ghash)" "z \<in> insert ?x (nodes ghash)" "ihn_space y = ihn_space z"
      "ihn_object y = ihn_object z \<or> ihn_name y = ihn_name z"
    then show "y = z"
      using global_unique [OF assms(1), of y z] no_key [of y] no_key [of z] new by auto
  qed
  with n have "global_hash_ok (ghash[?b := ?x # ghash ! ?b])"
    by (intro global_ok_update [OF assms(1) b d home]) simp
  with n show ?thesis by (simp add: global_bucket_insert_def Let_def)
qed

lemma global_delete_correct:
  assumes "global_hash_ok ghash" "global_hash_map ghash (sp, obj) = Some name"
  shows "global_hash_ok (global_bucket_delete ghash sp obj name)
    \<and> nodes (global_bucket_delete ghash sp obj name) =
        nodes ghash - {\<lparr>ihn_space = sp, ihn_object = obj, ihn_name = name\<rparr>}"
proof -
  let ?b = "IH_GLOBAL_HASH ghash sp obj" and ?x = "\<lparr>ihn_space = sp, ihn_object = obj, ihn_name = name\<rparr>"
  let ?p = "\<lambda>this. ihn_space this = sp \<and> ihn_name this = name"
  have b: "?b < length ghash" by (rule global_bucket_less [OF assms(1)])
  have bk: "distinct (ghash ! ?b)" "\<forall>x \<in> set (ghash ! ?b). bucket_of ghash x = ?b"
    using assms(1) b by (simp_all add: global_hash_ok_def)
  have x: "?x \<in> nodes ghash" using assms global_hash_map_iff by blast
  then have xb: "?x \<in> set (ghash ! ?b)" using nodes_bucket [OF assms(1), of ?x] by simp
  then have "bucket_unlink ?p (ghash ! ?b) \<noteq> None" unfolding bucket_unlink_None
    by (metis ipc_hash_node.select_convs(1,3))
  then obtain n rest where u: "bucket_unlink ?p (ghash ! ?b) = Some (n, rest)" by auto
  from bucket_unlink_Some [OF this] obtain ys zs where
    s: "ghash ! ?b = ys @ n # zs" "rest = ys @ zs" "?p n" by blast
  have "n \<in> nodes ghash" using s(1) bk nodes_bucket [OF assms(1), of n] by simp
  then have "n = ?x" using s(3) x global_unique [OF assms(1), of n ?x] by simp
  with s bk(1) have r: "set rest = set (ghash ! ?b) - {?x}" "distinct rest" by auto
  have home: "\<forall>x \<in> set rest. bucket_of ghash x = ?b" using bk(2) r by auto
  have nn: "nodes (ghash[?b := rest]) = nodes ghash - {?x}"
    using nodes_update [OF assms(1) b, of rest] nodes_bucket [OF assms(1)] bk(2) r by auto
  have "global_hash_ok (ghash[?b := rest])"
    by (rule global_ok_update [OF assms(1) b r(2) home]) (use nn global_unique [OF assms(1)] in auto)
  with nn u show ?thesis by (simp add: global_bucket_delete_def Let_def)
qed

section \<open>The interface of a reverse table\<close>

text \<open>
  Both tables map objects to entries, and their clients rely on the same laws. The structure may
  change in a lookup (move to front), and an operation of the local table may not end, so all of
  them return an optional new state.
\<close>

locale reverse_table =
  fixes ok :: "'s \<Rightarrow> bool"
    and entry_of :: "'s \<Rightarrow> 'k \<rightharpoonup> 'r"
    and may_insert :: "'s \<Rightarrow> 'k \<Rightarrow> 'r \<Rightarrow> bool"
    and lookup :: "'s \<Rightarrow> 'k \<Rightarrow> ('r option \<times> 's) option"
    and insert :: "'s \<Rightarrow> 'k \<Rightarrow> 'r \<Rightarrow> 's option"
    and delete :: "'s \<Rightarrow> 'k \<Rightarrow> 'r \<Rightarrow> 's option"
  assumes lookup_law: "ok s \<Longrightarrow> \<exists>s'. lookup s k = Some (entry_of s k, s') \<and> ok s' \<and> entry_of s' = entry_of s"
    and insert_law: "ok s \<Longrightarrow> may_insert s k r \<Longrightarrow> entry_of s k = None \<Longrightarrow>
      \<exists>s'. insert s k r = Some s' \<and> ok s' \<and> entry_of s' = (entry_of s)(k \<mapsto> r)"
    and delete_law: "ok s \<Longrightarrow> entry_of s k = Some r \<Longrightarrow>
      \<exists>s'. delete s k r = Some s' \<and> ok s' \<and> entry_of s' = (entry_of s)(k := None)"
begin

lemma lookup_insert:
  assumes "ok s" "may_insert s k r" "entry_of s k = None"
  shows "\<exists>s'. insert s k r = Some s' \<and> ok s' \<and>
    (\<forall>j. \<exists>s''. lookup s' j = Some (if j = k then Some r else entry_of s j, s''))"
proof -
  obtain s' where s': "insert s k r = Some s'" "ok s'" "entry_of s' = (entry_of s)(k \<mapsto> r)"
    using insert_law [OF assms] by blast
  have "\<exists>s''. lookup s' j = Some (if j = k then Some r else entry_of s j, s'')" for j
    using lookup_law [OF s'(2), of j] s'(3) by auto
  with s' show ?thesis by blast
qed

lemma delete_insert:
  assumes "ok s" "may_insert s k r" "entry_of s k = None"
  shows "\<exists>s' s''. insert s k r = Some s' \<and> delete s' k r = Some s'' \<and> ok s'' \<and> entry_of s'' = entry_of s"
proof -
  obtain s' where s': "insert s k r = Some s'" "ok s'" "entry_of s' = (entry_of s)(k \<mapsto> r)"
    using insert_law [OF assms] by blast
  then obtain s'' where "delete s' k r = Some s''" "ok s''" "entry_of s'' = (entry_of s')(k := None)"
    using delete_law [of s' k r] by auto
  with s' assms(3) show ?thesis by (metis fun_upd_triv fun_upd_upd)
qed

lemma lookup_delete:
  assumes "ok s" "entry_of s k = Some r"
  shows "\<exists>s'. delete s k r = Some s' \<and> ok s' \<and>
    (\<forall>j. \<exists>s''. lookup s' j = Some (if j = k then None else entry_of s j, s''))"
proof -
  obtain s' where s': "delete s k r = Some s'" "ok s'" "entry_of s' = (entry_of s)(k := None)"
    using delete_law [OF assms] by blast
  have "\<exists>s''. lookup s' j = Some (if j = k then None else entry_of s j, s'')" for j
    using lookup_law [OF s'(2), of j] s'(3) by auto
  with s' show ?thesis by blast
qed

end


lemma global_map_eqI:
  assumes "global_hash_ok g" "\<And>n. f (sp, obj) = Some n \<longleftrightarrow>
      \<lparr>ihn_space = sp, ihn_object = obj, ihn_name = n\<rparr> \<in> nodes g"
  shows "global_hash_map g (sp, obj) = f (sp, obj)"
  using assms(2) global_hash_map_iff [OF assms(1), of sp obj] by (metis not_Some_eq)

interpretation global: reverse_table global_hash_ok global_hash_map
    "\<lambda>ghash k n. \<forall>x \<in> nodes ghash. \<not> (ihn_space x = fst k \<and> ihn_name x = n)"
    "\<lambda>ghash k. Some (ipc_hash_global_lookup ghash (fst k) (snd k))"
    "\<lambda>ghash k n. Some (global_bucket_insert ghash (fst k) (snd k) n)"
    "\<lambda>ghash k n. Some (global_bucket_delete ghash (fst k) (snd k) n)"
proof
  fix s :: ipc_hash_global and k :: "ipc_space_t \<times> ipc_object_t" and r
  obtain sp obj where k: "k = (sp, obj)" by (cases k)
  show "\<exists>s'. Some (ipc_hash_global_lookup s (fst k) (snd k)) = Some (global_hash_map s k, s') \<and>
      global_hash_ok s' \<and> global_hash_map s' = global_hash_map s" if ok: "global_hash_ok s"
  proof -
    note l = global_lookup_correct [OF ok, of sp obj]
    let ?s = "snd (ipc_hash_global_lookup s sp obj)"
    have "global_hash_map ?s (a, b) = global_hash_map s (a, b)" for a b
      by (rule global_map_eqI) (use l in \<open>simp_all add: global_hash_map_iff [OF ok]\<close>)
    then have "global_hash_map ?s = global_hash_map s" by (intro ext) (metis surj_pair)
    with l show ?thesis by (intro exI [of _ ?s]) (simp add: k prod_eq_iff)
  qed
  show "\<exists>s'. Some (global_bucket_insert s (fst k) (snd k) r) = Some s' \<and> global_hash_ok s' \<and>
      global_hash_map s' = (global_hash_map s)(k \<mapsto> r)"
    if ok: "global_hash_ok s" and new: "\<forall>x \<in> nodes s. \<not> (ihn_space x = fst k \<and> ihn_name x = r)"
      and none: "global_hash_map s k = None"
  proof -
    note i = global_insert_correct [OF ok, of sp obj r]
    have "\<lparr>ihn_space = sp, ihn_object = obj, ihn_name = n\<rparr> \<notin> nodes s" for n
      using none global_hash_map_iff [OF ok, of sp obj n] by (simp add: k)
    moreover have n: "global_hash_ok (global_bucket_insert s sp obj r)"
        "nodes (global_bucket_insert s sp obj r) =
          insert \<lparr>ihn_space = sp, ihn_object = obj, ihn_name = r\<rparr> (nodes s)"
      using i none new by (simp_all add: k)
    ultimately have "global_hash_map (global_bucket_insert s sp obj r) (a, b) = ((global_hash_map s)(k \<mapsto> r)) (a, b)" for a b
      by (intro global_map_eqI) (auto simp: k global_hash_map_iff [OF ok])
    then have "global_hash_map (global_bucket_insert s sp obj r) = (global_hash_map s)(k \<mapsto> r)"
      by (intro ext) (metis surj_pair)
    with n show ?thesis by (simp add: k)
  qed
  show "\<exists>s'. Some (global_bucket_delete s (fst k) (snd k) r) = Some s' \<and> global_hash_ok s' \<and>
      global_hash_map s' = (global_hash_map s)(k := None)"
    if ok: "global_hash_ok s" and some: "global_hash_map s k = Some r"
  proof -
    have d: "global_hash_ok (global_bucket_delete s sp obj r)"
        "nodes (global_bucket_delete s sp obj r) = nodes s - {\<lparr>ihn_space = sp, ihn_object = obj, ihn_name = r\<rparr>}"
      using global_delete_correct [OF ok] some by (simp_all add: k)
    have "n = r" if "\<lparr>ihn_space = sp, ihn_object = obj, ihn_name = n\<rparr> \<in> nodes s" for n
      using that some global_hash_map_iff [OF ok, of sp obj n] by (simp add: k)
    then have "global_hash_map (global_bucket_delete s sp obj r) (a, b) = ((global_hash_map s)(k := None)) (a, b)" for a b
      using d by (intro global_map_eqI) (auto simp: k global_hash_map_iff [OF ok])
    then have "global_hash_map (global_bucket_delete s sp obj r) = (global_hash_map s)(k := None)"
      by (intro ext) (metis surj_pair)
    with d show ?thesis by (simp add: k)
  qed
qed

definition local_table_ok :: "ipc_entry list \<Rightarrow> bool" where
  "local_table_ok table \<longleftrightarrow> local_hash_ok table \<and>
     (\<forall>i \<in> hashed table. \<forall>j \<in> hashed table. ie_object (table ! i) = ie_object (table ! j) \<longrightarrow> i = j)"

definition local_hash_map :: "ipc_entry list \<Rightarrow> ipc_object_t \<rightharpoonup> nat" where
  "local_hash_map table obj =
     find (\<lambda>i. i \<noteq> 0 \<and> ie_object (table ! i) = obj) (map ie_index table)"

lemma local_hash_map_iff:
  assumes "local_table_ok table"
  shows "local_hash_map table obj = Some i \<longleftrightarrow> i \<in> hashed table \<and> ie_object (table ! i) = obj"
proof -
  let ?p = "\<lambda>i. i \<noteq> 0 \<and> ie_object (table ! i) = obj"
  have m: "i \<in> hashed table \<longleftrightarrow> i \<noteq> 0 \<and> i \<in> set (map ie_index table)" for i
    unfolding hashed_iff by (metis in_set_conv_nth length_map nth_map)
  have sound: "j \<in> hashed table \<and> ie_object (table ! j) = obj" if "local_hash_map table obj = Some j" for j
    using that unfolding local_hash_map_def find_Some_iff m by (metis nth_mem)
  have complete: "local_hash_map table obj \<noteq> None" if "i \<in> hashed table" "ie_object (table ! i) = obj"
    using that unfolding local_hash_map_def find_None_iff m by metis
  show ?thesis
    using sound complete assms unfolding local_table_ok_def by (metis not_Some_eq)
qed

lemma local_map_eqI:
  assumes "local_table_ok table" "\<And>i. f obj = Some i \<longleftrightarrow> i \<in> hashed table \<and> ie_object (table ! i) = obj"
  shows "local_hash_map table obj = f obj"
  using assms(2) local_hash_map_iff [OF assms(1), of obj] by (metis not_Some_eq)

lemma hashed_less: "local_hash_ok table \<Longrightarrow> i \<in> hashed table \<Longrightarrow> i < length table"
  by (auto simp: hashed_iff dest: local_hash_okD(2))

lemma frame_object:
  assumes "\<forall>s < length table. table' ! s = (table ! s)\<lparr>ie_index := f s\<rparr>" "i < length table"
  shows "ie_object (table' ! i) = ie_object (table ! i)"
  using assms by simp

interpretation local: reverse_table local_table_ok local_hash_map
    "\<lambda>table obj i. 0 < i \<and> i < length table \<and> ie_object (table ! i) = obj"
    "\<lambda>table obj. map_option (\<lambda>r. (r, table)) (local_lookup_loop table obj (IH_LOCAL_HASH obj (length table)))"
    table_hash_insert table_hash_delete
proof
  fix s :: "ipc_entry list" and k r
  show "\<exists>s'. map_option (\<lambda>r. (r, s)) (local_lookup_loop s k (IH_LOCAL_HASH k (length s))) =
      Some (local_hash_map s k, s') \<and> local_table_ok s' \<and> local_hash_map s' = local_hash_map s"
    if ok: "local_table_ok s"
  proof -
    obtain q where q: "local_lookup_loop s k (IH_LOCAL_HASH k (length s)) = Some q"
        "\<forall>i. q = Some i \<longleftrightarrow> i \<in> hashed s \<and> ie_object (s ! i) = k"
      using local_lookup_loop_correct [of s k] ok by (auto simp: local_table_ok_def)
    then have "local_hash_map s k = q" using local_map_eqI [OF ok, of "\<lambda>_. q" k] by simp
    with q ok show ?thesis by simp
  qed
  show "\<exists>s'. table_hash_insert s k r = Some s' \<and> local_table_ok s' \<and>
      local_hash_map s' = (local_hash_map s)(k \<mapsto> r)"
    if ok: "local_table_ok s" and r: "0 < r \<and> r < length s \<and> ie_object (s ! r) = k"
      and none: "local_hash_map s k = None"
  proof -
    have h: "local_hash_ok s" using ok by (simp add: local_table_ok_def)
    have free: "i \<in> hashed s \<Longrightarrow> ie_object (s ! i) \<noteq> k" for i
      using none local_hash_map_iff [OF ok, of k i] by auto
    then have "r \<notin> hashed s" using r by auto
    from table_hash_insert_correct [OF h _ _ _ this] r obtain s' where
      s': "table_hash_insert s k r = Some s'" "local_hash_ok s'" "hashed s' = insert r (hashed s)"
        "length s' = length s" "\<forall>t < length s. s' ! t = (s ! t)\<lparr>ie_index := ie_index (s' ! t)\<rparr>" by blast
    have o: "ie_object (s' ! i) = ie_object (s ! i)" if "i \<in> hashed s'" for i
      using frame_object [OF s'(5)] hashed_less [OF s'(2) that] s'(4) by simp
    have ok': "local_table_ok s'"
      using ok s'(2,3) o r free unfolding local_table_ok_def by (metis insert_iff)
    have "local_hash_map s' p = ((local_hash_map s)(k \<mapsto> r)) p" for p
    proof (rule local_map_eqI [OF ok'])
      fix i
      have same: "i \<in> hashed s' \<and> ie_object (s' ! i) = p \<longleftrightarrow> i \<in> hashed s' \<and> ie_object (s ! i) = p"
        using o by metis
      show "((local_hash_map s)(k \<mapsto> r)) p = Some i \<longleftrightarrow> i \<in> hashed s' \<and> ie_object (s' ! i) = p"
        unfolding same unfolding s'(3) using r free [of i] local_hash_map_iff [OF ok, of p i]
        by (cases "p = k"; simp; metis)
    qed
    then have "local_hash_map s' = (local_hash_map s)(k \<mapsto> r)" by (intro ext)
    with s'(1) ok' show ?thesis by simp
  qed
  show "\<exists>s'. table_hash_delete s k r = Some s' \<and> local_table_ok s' \<and>
      local_hash_map s' = (local_hash_map s)(k := None)"
    if ok: "local_table_ok s" and some: "local_hash_map s k = Some r"
  proof -
    have h: "local_hash_ok s" using ok by (simp add: local_table_ok_def)
    have r: "r \<in> hashed s" "ie_object (s ! r) = k" using some local_hash_map_iff [OF ok] by simp_all
    from table_hash_delete_correct [OF h r] obtain s' where
      s': "table_hash_delete s k r = Some s'" "local_hash_ok s'" "hashed s' = hashed s - {r}"
        "length s' = length s" "\<forall>t < length s. s' ! t = (s ! t)\<lparr>ie_index := ie_index (s' ! t)\<rparr>" by blast
    have o: "ie_object (s' ! i) = ie_object (s ! i)" if "i \<in> hashed s'" for i
      using frame_object [OF s'(5)] hashed_less [OF s'(2) that] s'(4) by simp
    have ok': "local_table_ok s'"
      using ok s'(2,3) o unfolding local_table_ok_def by (metis DiffD1)
    have only: "i \<in> hashed s \<Longrightarrow> ie_object (s ! i) = k \<Longrightarrow> i = r" for i
      using r ok unfolding local_table_ok_def by metis
    have "local_hash_map s' p = ((local_hash_map s)(k := None)) p" for p
    proof (rule local_map_eqI [OF ok'])
      fix i
      have same: "i \<in> hashed s' \<and> ie_object (s' ! i) = p \<longleftrightarrow> i \<in> hashed s' \<and> ie_object (s ! i) = p"
        using o by metis
      show "((local_hash_map s)(k := None)) p = Some i \<longleftrightarrow> i \<in> hashed s' \<and> ie_object (s' ! i) = p"
        unfolding same unfolding s'(3) using r only [of i] local_hash_map_iff [OF ok, of p i]
        by (cases "p = k") auto
    qed
    then have "local_hash_map s' = (local_hash_map s)(k := None)" by (intro ext)
    with s'(1) ok' show ?thesis by simp
  qed
qed

text \<open>Three objects that share a home slot, the last slot of the table, so that the clump wraps.\<close>

definition hash_entry :: "ipc_object_t \<Rightarrow> nat \<Rightarrow> ipc_entry" where
  "hash_entry obj index =
     \<lparr>ie_bits = 0x03010001, ie_object = obj, ie_request = 0, ie_index = index\<rparr>"

definition hash_example :: "ipc_entry list" where
  "hash_example = [hash_entry 0 2, hash_entry 0x0c0 3, hash_entry 0x1c0 0, hash_entry 0x2c0 1]"

lemma hash_example_ok: "local_table_ok hash_example"
  by code_simp

definition hash_example_space :: ipc_space where
  "hash_example_space = \<lparr>is_self = 0x1000, is_references = 2, is_active = True, is_growing = False,
     is_table = hash_example, is_table_next = 1,
     is_tree = \<lparr>ist_root = ITE_NULL, ist_name = 0, ist_ltree = [], ist_rtree = []\<rparr>,
     is_tree_total = 0, is_tree_small = 0, is_tree_hash = 0, is_fast = False\<rparr>"

lemma global_hash_ok_empty: "0 < n \<Longrightarrow> n < 2 ^ 32 \<Longrightarrow> global_hash_ok (replicate n [])"
  by (simp add: global_hash_ok_def nodes_def)

lemma global_hash_map_empty: "global_hash_ok (replicate n []) \<Longrightarrow> global_hash_map (replicate n []) k = None"
  using global_bucket_less [of "replicate n []" "fst k" "snd k"] by (simp add: global_hash_map_def)

lemma bit_unat_le: "bit (w :: natural_t) i \<Longrightarrow> 2 ^ i \<le> unat w"
proof (rule ccontr)
  assume "bit w i" "\<not> 2 ^ i \<le> unat w"
  then have "bit (unat w) i" by (simp add: bit_unsigned_iff bit_imp_le_length)
  then show False using \<open>\<not> 2 ^ i \<le> unat w\<close> by (simp add: bit_iff_odd)
qed

text \<open>Rounding up: the low bits below the current one are set and none above bit 30 ever is.\<close>

lemma hash_round_up_ends:
  assumes "j \<le> 30" "\<And>i. i < j \<Longrightarrow> bit m i" "\<And>i. 31 \<le> i \<Longrightarrow> \<not> bit m i"
  shows "\<exists>m'. hash_round_up (2 ^ j) m = Some (m' + 1, m') \<and> (m' + 1) AND m' = 0 \<and> m \<le> m' \<and>
    (\<forall>i. 31 \<le> i \<longrightarrow> \<not> bit m' i)"
  using assms
proof (induction "30 - j" arbitrary: j m)
  case 0
  let ?m = "m OR 2 ^ j"
  have j: "j = 30" using 0 by simp
  have "?m = mask 31"
  proof (rule bit_eqI)
    fix i
    have "j < 32" "i < 31 \<longleftrightarrow> i < j \<or> i = j" "i < 31 \<or> 31 \<le> i" using j by auto
    then show "bit ?m i \<longleftrightarrow> bit (mask 31 :: natural_t) i"
      using 0(3) [of i] 0(4) [of i] by (auto simp: bit_or_iff bit_exp_iff bit_mask_iff)
  qed
  have "(mask 31 + 1) AND mask 31 = (0 :: natural_t)" by code_simp
  then have e: "(?m + 1) AND ?m = 0" unfolding \<open>?m = mask 31\<close> .
  then have "hash_round_up (2 ^ j) m = Some (?m + 1, ?m)"
    by (subst hash_round_up.simps) (simp add: Let_def)
  moreover have "\<forall>i. 31 \<le> i \<longrightarrow> \<not> bit ?m i"
    unfolding \<open>?m = mask 31\<close> by (simp add: bit_mask_iff)
  ultimately show ?case using e le_word_or2 by blast
next
  case (Suc d)
  let ?m = "m OR 2 ^ j"
  have hi: "\<not> bit ?m i" if "31 \<le> i" for i using Suc.prems(1) Suc.prems(3) [OF that] that by (auto simp: bit_simps)
  show ?case
  proof (cases "(?m + 1) AND ?m = 0")
    case True
    then have "hash_round_up (2 ^ j) m = Some (?m + 1, ?m)"
      by (subst hash_round_up.simps) (simp add: Let_def)
    with True hi le_word_or2 show ?thesis by blast
  next
    case False
    then have step: "hash_round_up (2 ^ j) m = hash_round_up (2 ^ Suc j) ?m"
      by (subst hash_round_up.simps) (simp add: Let_def push_bit_eq_mult mult.commute)
    have lo: "bit ?m i" if "i < Suc j" for i
      using that Suc.prems(1) Suc.prems(2) [of i] by (cases "i = j") (auto simp: bit_simps)
    have "d = 30 - Suc j" "Suc j \<le> 30" using Suc.hyps(2) by simp_all
    from Suc.hyps(1) [OF this lo hi] obtain m' where
      r: "hash_round_up (2 ^ Suc j) ?m = Some (m' + 1, m')" "(m' + 1) AND m' = 0" "?m \<le> m'"
      "\<forall>i. 31 \<le> i \<longrightarrow> \<not> bit m' i" by blast
    show ?thesis
      unfolding step by (intro exI [of _ m'] conjI order_trans [OF le_word_or2 r(3)]) (rule r)+
  qed
qed

section \<open>Properties\<close>

text \<open>
  On a well-formed local table the lookup of an object ends and returns the name and entry of the
  table's right for it exactly when the table has one.
\<close>

theorem local_lookup_finds:
  assumes "local_table_ok (is_table space)"
  shows "ipc_hash_local_lookup space obj =
    Some (case local_hash_map (is_table space) obj of
        None \<Rightarrow> None
      | Some i \<Rightarrow> Some (MACH_PORT_MAKEB i (ie_bits (is_table space ! i)), TableEntry i))
    \<and> (\<forall>i. local_hash_map (is_table space) obj = Some i \<longleftrightarrow>
          i \<in> hashed (is_table space) \<and> ie_object (is_table space ! i) = obj)"
  using local.lookup_law [OF assms, of obj] local_hash_map_iff [OF assms, of obj]
  by (auto simp: ipc_hash_local_lookup_def split: option.splits)

theorem local_lookup_finds_witness:
  "ipc_hash_local_lookup hash_example_space 0x2c0 = Some (Some (0x303, TableEntry 3))"
proof -
  have "local_hash_map hash_example 0x2c0 = Some 3" by code_simp
  moreover have "MACH_PORT_MAKEB 3 (ie_bits (hash_example ! 3)) = 0x303" by code_simp
  ultimately show ?thesis
    using local_lookup_finds [of hash_example_space "0x2c0"] hash_example_ok
    by (simp add: hash_example_space_def)
qed

text \<open>
  Inserting the right for an object that has none into the local table ends; afterwards a lookup
  of any object gives the new entry for this object and the old result for every other one. Deleting
  it again, with the shifting of displaced entries, ends and restores the table's contents.
\<close>

theorem local_insert_delete:
  assumes "local_table_ok table" "local_hash_map table obj = None"
    and "0 < i" "i < length table" "ie_object (table ! i) = obj"
  shows "\<exists>table' table''. table_hash_insert table obj i = Some table' \<and>
      local_table_ok table' \<and> local_hash_map table' = (local_hash_map table)(obj \<mapsto> i) \<and>
      table_hash_delete table' obj i = Some table'' \<and>
      local_table_ok table'' \<and> local_hash_map table'' = local_hash_map table"
proof -
  obtain t where t: "table_hash_insert table obj i = Some t" "local_table_ok t"
      "local_hash_map t = (local_hash_map table)(obj \<mapsto> i)"
    using local.insert_law [OF assms(1) _ assms(2), of i] assms(3-5) by auto
  moreover obtain u where "table_hash_delete t obj i = Some u" "local_table_ok u"
      "local_hash_map u = (local_hash_map t)(obj := None)"
    using local.delete_law [OF t(2), of obj i] t(3) by auto
  ultimately show ?thesis using assms(2) by (auto simp: fun_upd_idem)
qed

theorem local_insert_delete_witness:
  "\<exists>table' table''. table_hash_insert
       [hash_entry 0 2, hash_entry 0x0c0 0, hash_entry 0x1c0 0, hash_entry 0x2c0 1] 0x2c0 3 = Some table' \<and>
     local_hash_map table' 0x2c0 = Some 3 \<and>
     table_hash_delete table' 0x2c0 3 = Some table'' \<and> local_hash_map table'' 0x0c0 = Some 1"
proof -
  let ?t = "[hash_entry 0 2, hash_entry 0x0c0 0, hash_entry 0x1c0 0, hash_entry 0x2c0 1]"
  have "local_table_ok ?t" "local_hash_map ?t 0x2c0 = None" "local_hash_map ?t 0x0c0 = Some 1"
    "ie_object (?t ! 3) = 0x2c0" by code_simp+
  then show ?thesis using local_insert_delete [of ?t "0x2c0" 3] by auto
qed

text \<open>
  C15: Deleting any entry of a well-formed local table, wherever it is in its clump, ends, removes this
  entry from the lookups and changes no other lookup and no other field of the table.
\<close>

theorem local_delete_only:
  assumes "local_table_ok table" "local_hash_map table obj = Some i"
  shows "\<exists>table'. table_hash_delete table obj i = Some table' \<and> local_table_ok table' \<and>
    local_hash_map table' = (local_hash_map table)(obj := None) \<and> length table' = length table \<and>
    (\<forall>s < length table. table' ! s = (table ! s)\<lparr>ie_index := ie_index (table' ! s)\<rparr>)"
proof -
  have h: "local_hash_ok table" using assms(1) by (simp add: local_table_ok_def)
  have i: "i \<in> hashed table" "ie_object (table ! i) = obj"
    using local_hash_map_iff [OF assms(1)] assms(2) by simp_all
  obtain t where t: "table_hash_delete table obj i = Some t" "length t = length table"
      "\<forall>s < length table. t ! s = (table ! s)\<lparr>ie_index := ie_index (t ! s)\<rparr>"
    using table_hash_delete_correct [OF h i] by metis
  then show ?thesis using local.delete_law [OF assms] by auto
qed

theorem local_delete_only_witness:
  "\<exists>table'. table_hash_delete hash_example 0x1c0 2 = Some table' \<and>
     local_hash_map table' 0x1c0 = None \<and> local_hash_map table' 0x2c0 = Some 3"
proof -
  have "local_hash_map hash_example 0x1c0 = Some 2" "local_hash_map hash_example 0x2c0 = Some 3" by code_simp+
  then show ?thesis using local_delete_only [OF hash_example_ok, of "0x1c0" 2] by auto
qed

text \<open>
  C29: The global table finds, for a space and an object, the name of the tree entry that was hashed
  under them; a lookup moves the node to the front of its bucket and changes no other lookup; an
  insertion and a deletion change exactly one lookup.
\<close>

theorem global_table_correct:
  assumes "global_hash_ok ghash"
  shows "fst (ipc_hash_global_lookup ghash sp obj) = global_hash_map ghash (sp, obj)
    \<and> global_hash_ok (snd (ipc_hash_global_lookup ghash sp obj))
    \<and> global_hash_map (snd (ipc_hash_global_lookup ghash sp obj)) = global_hash_map ghash
    \<and> (global_hash_map ghash (sp, obj) = None \<and> (\<forall>x \<in> nodes ghash. \<not> (ihn_space x = sp \<and> ihn_name x = name)) \<longrightarrow>
        global_hash_ok (global_bucket_insert ghash sp obj name) \<and>
        global_hash_map (global_bucket_insert ghash sp obj name) = (global_hash_map ghash)((sp, obj) \<mapsto> name))
    \<and> (global_hash_map ghash (sp, obj) = Some name \<longrightarrow>
        global_hash_ok (global_bucket_delete ghash sp obj name) \<and>
        global_hash_map (global_bucket_delete ghash sp obj name) = (global_hash_map ghash)((sp, obj) := None))"
  using global.lookup_law [OF assms, of "(sp, obj)"] global.insert_law [OF assms, of "(sp, obj)" name]
    global.delete_law [OF assms, of "(sp, obj)" name] by auto

theorem global_table_correct_witness:
  "global_hash_map (global_bucket_insert (replicate 64 []) 0x1000 0x40 0x50003) (0x1000, 0x40) = Some 0x50003"
proof -
  have ok: "global_hash_ok (replicate 64 [])" by (rule global_hash_ok_empty) simp_all
  have "\<forall>x \<in> nodes (replicate 64 []). \<not> (ihn_space x = 0x1000 \<and> ihn_name x = 0x50003)"
    by (simp add: nodes_def)
  then show ?thesis
    using global_table_correct [OF ok, of "0x1000" "0x40" "0x50003"] global_hash_map_empty [OF ok] by simp
qed

text \<open>
  The initialisation of the global table ends for every configured size up to \<open>2 ^ 31\<close> and
  every number of tree entries; the size it chooses is a power of two (no bit of the mask is a bit of
  the size), not below the configured one, and the table it makes is well-formed and empty.
\<close>

theorem ipc_hash_init_power_of_two:
  assumes "configured \<le> 2 ^ 31"
  shows "\<exists>tsize table. ipc_hash_init configured ipc_tree_entry_max = Some (tsize, tsize - 1, table) \<and>
    tsize AND (tsize - 1) = 0 \<and> 0 < tsize \<and> configured \<le> tsize \<and> length table = unat tsize \<and>
    global_hash_ok table \<and> (\<forall>k. global_hash_map table k = None)"
proof -
  define t where "t = (if configured = 0
      then let t = drop_bit 8 ipc_tree_entry_max in if t < 32 then 32 else t else configured)"
  have "unat (drop_bit 8 ipc_tree_entry_max) < 2 ^ 31"
    using unat_less_exp [of ipc_tree_entry_max] by (simp add: unat_drop_bit_div)
  then have "drop_bit 8 ipc_tree_entry_max \<le> 2 ^ 31" by (simp add: word_le_nat_alt)
  then have t: "0 < t" "t \<le> 2 ^ 31" "configured \<le> t"
    using assms by (auto simp: t_def Let_def word_gt_0)
  obtain tsize where s: "(if t AND (t - 1) \<noteq> 0 then hash_round_up 1 (t - 1) else Some (t, t - 1)) = Some (tsize, tsize - 1)"
      "tsize AND (tsize - 1) = 0" "0 < tsize" "t \<le> tsize"
  proof (cases "t AND (t - 1) = 0")
    case True
    with t show ?thesis by (intro that [of t]) simp_all
  next
    case False
    have "unat (t - 1) < 2 ^ 31"
      using t by (simp add: word_le_nat_alt unat_minus_one word_gt_0)
    then have hi: "\<not> bit (t - 1) i" if "31 \<le> i" for i
      using bit_unat_le [of "t - 1" i] power_increasing [OF that, of "2 :: nat"] by linarith
    obtain m where m: "hash_round_up 1 (t - 1) = Some (m + 1, m)" "(m + 1) AND m = 0" "t - 1 \<le> m" "\<forall>i. 31 \<le> i \<longrightarrow> \<not> bit m i"
      using hash_round_up_ends [of 0 "t - 1"] hi by auto
    have "\<not> bit m 31" using m(4) by simp
    then have m1: "m \<noteq> - 1" by auto
    then have "0 < m + 1" using unat_plus_one [OF m1] by (simp add: word_less_nat_alt)
    moreover have "t \<le> m + 1"
      using m(3) t(1) unat_plus_one [OF m1]
      by (simp add: word_le_nat_alt unat_minus_one word_gt_0)
    ultimately show ?thesis using False m by (intro that [of "m + 1"]) simp_all
  qed
  have e: "ipc_hash_init configured ipc_tree_entry_max = Some (tsize, tsize - 1, replicate (unat tsize) [])"
    using s(1) unfolding ipc_hash_init_def t_def [symmetric] by (simp add: Let_def)
  have ok: "global_hash_ok (replicate (unat tsize) [])"
    using s(3) unat_less_exp [of tsize] by (intro global_hash_ok_empty) (simp_all add: word_less_nat_alt)
  show ?thesis
    using e s(2,3) order_trans [OF t(3) s(4)] ok global_hash_map_empty [OF ok] by simp
qed

theorem ipc_hash_init_power_of_two_witness:
  "\<exists>tsize table. ipc_hash_init 100 0 = Some (tsize, tsize - 1, table) \<and> tsize AND (tsize - 1) = 0"
  using ipc_hash_init_power_of_two [of 100 0] by auto

end
