(* ===== verification/Ipc_Entry.thy ===== *)
theory Ipc_Entry
  imports Ipc_Hash
begin

text \<open>
  Entries of a space (\<open>ipc/ipc_entry.c\<close>): lookup by name, allocation, deallocation and the growth of
  the table.

  \<^item> The operations act on the global hash table and the space. \<open>None\<close> stands for a run that does not
    end or that leaves the table (a name beyond the table of a fast space, an entry that the free
    list does not hold).
  \<^item> \<open>its\<close> is the array \<open>ipc_table_entries\<close> of table sizes.
  \<^item> Where the code drops the lock of the space, the parameter \<open>env\<close> is what other threads do to the
    state in the meantime; \<open>mem\<close> says for which table sizes there is memory and \<open>ite\<close> whether there
    is memory for a tree entry. Operations that may return without the lock return whether they hold
    it.
\<close>

type_synonym ipc_state = "ipc_hash_global \<times> ipc_space"

section \<open>Lookup\<close>

definition ipc_entry_tree_collision :: "ipc_space \<Rightarrow> mach_port_t \<Rightarrow> bool \<times> ipc_space" where
  "ipc_entry_tree_collision space name =
     (case ipc_splay_tree_bounds (is_tree space) name of ((lower, upper), tree) \<Rightarrow>
        let index = MACH_PORT_INDEX name in
        ((lower \<noteq> - 1 \<and> MACH_PORT_INDEX lower = index) \<or>
         (upper \<noteq> 0 \<and> MACH_PORT_INDEX upper = index),
         space\<lparr>is_tree := tree\<rparr>))"

definition tree_lookup :: "ipc_space \<Rightarrow> mach_port_t \<Rightarrow> ipc_entry_ref option \<times> ipc_space" where
  "tree_lookup space name =
     (case ipc_splay_tree_lookup (is_tree space) name of (entry, tree) \<Rightarrow>
        (map_option (\<lambda>_. TreeEntry name) entry, space\<lparr>is_tree := tree\<rparr>))"

definition ipc_entry_lookup ::
  "ipc_space \<Rightarrow> mach_port_t \<Rightarrow> (ipc_entry_ref option \<times> ipc_space) option" where
  "ipc_entry_lookup space name =
     (let index = MACH_PORT_INDEX name; bits = ie_bits (is_table space ! index) in
      if is_fast space then
        if index < is_table_size space then
          Some (if IE_BITS_GEN bits \<noteq> MACH_PORT_GEN name \<or> IE_BITS_TYPE bits = MACH_PORT_TYPE_NONE
                then None else Some (TableEntry index), space)
        else None
      else if index < is_table_size space then
        if IE_BITS_GEN bits \<noteq> MACH_PORT_GEN name then
          if bits AND IE_BITS_COLLISION \<noteq> 0 then Some (tree_lookup space name)
          else Some (None, space)
        else if IE_BITS_TYPE bits = MACH_PORT_TYPE_NONE then Some (None, space)
        else Some (Some (TableEntry index), space)
      else if is_tree_total space = 0 then Some (None, space)
      else Some (tree_lookup space name))"

section \<open>Allocation in the table\<close>

definition set_next :: "ipc_entry list \<Rightarrow> nat \<Rightarrow> nat \<Rightarrow> ipc_entry list" where
  "set_next table i n = table[i := (table ! i)\<lparr>ie_request := n\<rparr>]"

definition ipc_entry_get ::
  "ipc_space \<Rightarrow> kern_return_t \<times> (mach_port_t \<times> ipc_entry_ref) option \<times> ipc_space" where
  "ipc_entry_get space =
     (let table = is_table space; first_free = ie_next (table ! 0) in
      if first_free = 0 then (KERN_NO_SPACE, None, space)
      else
        let free_entry = table ! first_free;
            gen = IE_BITS_NEW_GEN (ie_bits free_entry);
            table1 = set_next table 0 (ie_next free_entry);
            table2 = table1[first_free := (table1 ! first_free)\<lparr>ie_bits := gen, ie_request := 0\<rparr>];
            new_name = MACH_PORT_MAKE first_free gen
        in (KERN_SUCCESS, Some (new_name, TableEntry first_free), space\<lparr>is_table := table2\<rparr>))"

section \<open>Growing the table\<close>

definition ITS_SIZE_NONE :: natural_t where
  "ITS_SIZE_NONE = - 1"

text \<open>The search for the size entry that is large enough for \<open>target\<close>.\<close>

partial_function (option) grow_search ::
  "nat list \<Rightarrow> natural_t \<Rightarrow> nat \<Rightarrow> nat \<Rightarrow> (nat \<times> nat) option" where
  "grow_search its target psize i =
     (if psize \<noteq> its ! i \<and> unat target > its ! i
      then grow_search its target (its ! i) (i + 1)
      else Some (psize, i))"

declare grow_search.simps [code]

text \<open>The copied old part of the new table with cleared hash indices, and the zeroed new part.\<close>

definition grow_copy :: "ipc_entry list \<Rightarrow> nat \<Rightarrow> ipc_entry list" where
  "grow_copy otable tsize =
     map (\<lambda>e. e\<lparr>ie_index := 0\<rparr>) otable @ replicate (tsize - length otable) zero_entry"

text \<open>Rehashing of the old send rights, for the entries \<open>i, i + 1, \<dots>\<close>.\<close>

fun grow_rehash :: "nat \<Rightarrow> nat \<Rightarrow> ipc_entry list \<Rightarrow> ipc_entry list option" where
  "grow_rehash i 0 table = Some table"
| "grow_rehash i (Suc n) table =
     (if IE_BITS_TYPE (ie_bits (table ! i)) = MACH_PORT_TYPE_SEND
      then Option.bind (table_hash_insert table (ie_object (table ! i)) i) (grow_rehash (i + 1) n)
      else grow_rehash (i + 1) n table)"

text \<open>The body of the loop that moves tree entries into the table; it deletes an entry by \<open>None\<close>.\<close>

definition grow_move_entry ::
  "ipc_state option \<Rightarrow> mach_port_t \<Rightarrow> ipc_entry \<Rightarrow> ipc_entry option \<times> ipc_state option" where
  "grow_move_entry s name tentry = (case s of
     None \<Rightarrow> (Some tentry, None)
   | Some (ghash, space) \<Rightarrow>
      (let gen = MACH_PORT_GEN name; index = MACH_PORT_INDEX name;
           entry = is_table space ! index; bits = ie_bits entry in
       if bits \<noteq> 0 then
         (Some tentry, Some (ghash, space\<lparr>is_table :=
            (is_table space)[index := entry\<lparr>ie_bits := bits OR IE_BITS_COLLISION\<rparr>]\<rparr>))
       else
         let bits = ie_bits tentry; type = IE_BITS_TYPE bits; obj = ie_object tentry;
             space1 = space\<lparr>is_table := (is_table space)[index := entry\<lparr>ie_bits := bits OR gen,
                 ie_object := obj, ie_request := ie_request tentry\<rparr>]\<rparr>;
             s1 = (if type = MACH_PORT_TYPE_SEND then
                     (case ipc_hash_global_delete (ghash, space1) obj name of (ghash2, space2) \<Rightarrow>
                        map_option (Pair ghash2) (ipc_hash_local_insert space2 obj index))
                   else Some (ghash, space1))
         in (None, map_option (\<lambda>(g, sp). (g, sp\<lparr>is_tree_total := is_tree_total sp - 1\<rparr>)) s1)))"

text \<open>The body of the loop that counts distinct indices.\<close>

definition grow_count_small ::
  "natural_t \<times> nat \<Rightarrow> mach_port_t \<Rightarrow> ipc_entry \<Rightarrow> ipc_entry option \<times> natural_t \<times> nat" where
  "grow_count_small c name tentry = (case c of (nosmall, index) \<Rightarrow>
     (let nindex = MACH_PORT_INDEX name in
      (Some tentry, if nindex \<noteq> index then (nosmall + 1, nindex) else (nosmall, index))))"

definition ist_raw :: "'e ipc_splay_tree" where
  "ist_raw = \<lparr>ist_root = ITE_NULL, ist_name = 0, ist_ltree = [], ist_rtree = []\<rparr>"

definition grow_tree :: "nat \<Rightarrow> nat \<Rightarrow> nat \<Rightarrow> ipc_state \<Rightarrow> ipc_state option" where
  "grow_tree osize tsize nsize s = (case s of (ghash, space) \<Rightarrow>
     (let (tree1, small0) = ipc_splay_tree_split (is_tree space) (MACH_PORT_MAKE nsize 0) ist_raw;
          (small1, move0) = ipc_splay_tree_split small0 (MACH_PORT_MAKE tsize 0) ist_raw;
          (move1, ignore) = ipc_splay_tree_split move0 (MACH_PORT_MAKE osize 0) ist_raw
      in do {
        (move2, s1) \<leftarrow> ipc_splay_traverse grow_move_entry move1 (Some (ghash, space));
        (ghash1, space1) \<leftarrow> s1;
        (small2, nosmall, i) \<leftarrow> ipc_splay_traverse grow_count_small small1 (0, 0);
        let (tree2, small3) = ipc_splay_tree_join tree1 small2;
            (tree3, move3) = ipc_splay_tree_join tree2 move2;
            (tree4, ignore1) = ipc_splay_tree_join tree3 ignore
        in Some (ghash1, space1\<lparr>is_tree_small := nosmall, is_tree := tree4\<rparr>)
      }))"

text \<open>Linking the unused new entries into the free list, from the last index down to \<open>osize\<close>.\<close>

fun grow_free :: "nat \<Rightarrow> nat \<Rightarrow> nat \<Rightarrow> ipc_entry list \<Rightarrow> nat \<times> ipc_entry list" where
  "grow_free osize 0 free_index table = (free_index, table)"
| "grow_free osize (Suc n) free_index table =
     (let i = osize + n; entry = table ! i in
      if ie_bits entry = 0
      then grow_free osize n i
             (table[i := entry\<lparr>ie_bits := IE_BITS_GEN_MASK, ie_request := free_index\<rparr>])
      else grow_free osize n free_index table)"

text \<open>The installation of the new table, after the allocation.\<close>

definition grow_install :: "nat list \<Rightarrow> nat \<Rightarrow> ipc_state \<Rightarrow> ipc_state option" where
  "grow_install its i s = (case s of (ghash, space) \<Rightarrow>
     (let osize = is_table_size space; tsize = its ! i; nits = i + 1; nsize = its ! nits in do {
        table \<leftarrow> grow_rehash 0 osize (grow_copy (is_table space) tsize);
        let space1 = space\<lparr>is_table := table, is_table_next := nits\<rparr>;
        (ghash2, space2) \<leftarrow> (if is_tree_total space1 > 0
            then grow_tree osize tsize nsize (ghash, space1) else Some (ghash, space1));
        let (free_index, table3) =
              grow_free osize (tsize - osize) (ie_next (is_table space2 ! 0)) (is_table space2)
        in Some (ghash2, space2\<lparr>is_table := set_next table3 0 free_index\<rparr>)
      }))"

text \<open>
  The loop. The result is the return code, whether the space is locked, and the state. The current
  size entry is the one before \<open>is_table_next\<close>.
\<close>

partial_function (option) ipc_entry_grow_table ::
  "nat list \<Rightarrow> (nat \<Rightarrow> bool) \<Rightarrow> (ipc_state \<Rightarrow> ipc_state) \<Rightarrow> ipc_state \<Rightarrow> natural_t \<Rightarrow>
   (kern_return_t \<times> bool \<times> ipc_state) option" where
  "ipc_entry_grow_table its mem env s target =
     (let space = snd s in
      if is_growing space then Some (KERN_SUCCESS, True, env s)
      else
        let i0 = is_table_next space; osize = its ! (i0 - 1) in
        if target \<noteq> ITS_SIZE_NONE \<and> unat target \<le> osize then Some (KERN_SUCCESS, False, s)
        else do {
          (psize, i) \<leftarrow> (if target \<noteq> ITS_SIZE_NONE then grow_search its target osize i0
                         else Some (osize, i0));
          let tsize = its ! i; let nits = i + 1; let nsize = its ! nits;
          if target \<noteq> ITS_SIZE_NONE \<and> psize = tsize then Some (KERN_NO_SPACE, False, s)
          else if osize = tsize then Some (KERN_NO_SPACE, False, s)
          else
            let s1 = env (fst s, space\<lparr>is_growing := True\<rparr>);
                s2 = (fst s1, (snd s1)\<lparr>is_growing := False\<rparr>)
            in if \<not> mem tsize then Some (KERN_RESOURCE_SHORTAGE, False, s2)
               else if \<not> is_active (snd s2) then Some (KERN_SUCCESS, True, env s2)
               else do {
                 s3 \<leftarrow> grow_install its i s2;
                 let s4 = env s3; let space4 = snd s4;
                 if \<not> is_active space4 \<or> is_table_next space4 \<noteq> nits then Some (KERN_SUCCESS, True, s4)
                 else if is_tree_small space4 > 0 \<and>
                     of_nat (nsize - tsize) * sizeof_ipc_entry < is_tree_small space4 * sizeof_ipc_tree_entry
                 then ipc_entry_grow_table its mem env s4 target
                 else Some (KERN_SUCCESS, True, s4)
               }
        })"

declare ipc_entry_grow_table.simps [code]

section \<open>Allocation\<close>

partial_function (option) ipc_entry_alloc ::
  "nat list \<Rightarrow> (nat \<Rightarrow> bool) \<Rightarrow> (ipc_state \<Rightarrow> ipc_state) \<Rightarrow> ipc_state \<Rightarrow>
   (kern_return_t \<times> (mach_port_t \<times> ipc_entry_ref) option \<times> ipc_state) option" where
  "ipc_entry_alloc its mem env s =
     (if \<not> is_active (snd s) then Some (KERN_INVALID_TASK, None, s)
      else case ipc_entry_get (snd s) of (kr, r, space) \<Rightarrow>
        if kr = KERN_SUCCESS then Some (kr, r, fst s, space)
        else do {
          (kr1, locked, s1) \<leftarrow> ipc_entry_grow_table its mem env (fst s, space) ITS_SIZE_NONE;
          if kr1 \<noteq> KERN_SUCCESS then Some (kr1, None, s1) else ipc_entry_alloc its mem env s1
        })"

declare ipc_entry_alloc.simps [code]

text \<open>Taking the free entry \<open>index\<close> out of the free list, from the list element \<open>free_index\<close> on.\<close>

partial_function (option) unlink_free :: "ipc_entry list \<Rightarrow> nat \<Rightarrow> nat \<Rightarrow> ipc_entry list option" where
  "unlink_free table index free_index =
     (let next_index = ie_next (table ! free_index) in
      if next_index \<noteq> index then unlink_free table index next_index
      else Some (set_next table free_index (ie_next (table ! next_index))))"

declare unlink_free.simps [code]

text \<open>Entering a new entry into the tree.\<close>

definition alloc_tree_entry :: "nat list \<Rightarrow> ipc_space \<Rightarrow> mach_port_t \<Rightarrow> ipc_space" where
  "alloc_tree_entry its space name =
     (let index = MACH_PORT_INDEX name;
          space1 = space\<lparr>is_tree_total := is_tree_total space + 1\<rparr>;
          space2 =
            (if index < is_table_size space1 then
               let e = is_table space1 ! index in
               space1\<lparr>is_table := (is_table space1)[index := e\<lparr>ie_bits := ie_bits e OR IE_BITS_COLLISION\<rparr>]\<rparr>
             else if index < its ! is_table_next space1 then
               (case ipc_entry_tree_collision space1 name of (collision, space') \<Rightarrow>
                  if \<not> collision then space'\<lparr>is_tree_small := is_tree_small space' + 1\<rparr> else space')
             else space1)
      in space2\<lparr>is_tree := ipc_splay_tree_insert (is_tree space2) name zero_entry\<rparr>)"

partial_function (option) ipc_entry_alloc_name ::
  "nat list \<Rightarrow> (nat \<Rightarrow> bool) \<Rightarrow> bool \<Rightarrow> (ipc_state \<Rightarrow> ipc_state) \<Rightarrow> bool \<Rightarrow> ipc_state \<Rightarrow> mach_port_t \<Rightarrow>
   (kern_return_t \<times> ipc_entry_ref option \<times> ipc_state) option" where
  "ipc_entry_alloc_name its mem ite env tree_entry s name =
     (let space = snd s; index = MACH_PORT_INDEX name; gen = MACH_PORT_GEN name;
          table = is_table space; entry = table ! index in
      if \<not> is_active space then Some (KERN_INVALID_TASK, None, s)
      else if 0 < index \<and> index < is_table_size space \<and> IE_BITS_TYPE (ie_bits entry) \<noteq> 0 \<and>
          IE_BITS_GEN (ie_bits entry) = gen
      then Some (KERN_SUCCESS, Some (TableEntry index), s)
      else if 0 < index \<and> index < is_table_size space \<and> IE_BITS_TYPE (ie_bits entry) = 0
      then do {
        table1 \<leftarrow> unlink_free table index 0;
        Some (KERN_SUCCESS, Some (TableEntry index), fst s,
          space\<lparr>is_table := table1[index := (table1 ! index)\<lparr>ie_bits := gen, ie_request := 0\<rparr>]\<rparr>)
      }
      else if is_fast space then Some (KERN_FAILURE, None, s)
      else
        let (found, space1) = (if is_tree_total space > 0 then tree_lookup space name else (None, space));
            its_size = its ! is_table_next space1
        in if found \<noteq> None then Some (KERN_SUCCESS, found, fst s, space1)
           else if is_table_size space1 \<le> index \<and> index < its_size \<and>
               of_nat (its_size - is_table_size space1) * sizeof_ipc_entry
                 < (is_tree_small space1 + 1) * sizeof_ipc_tree_entry
           then do {
             (kr, locked, s2) \<leftarrow> ipc_entry_grow_table its mem env (fst s, space1) ITS_SIZE_NONE;
             if kr \<noteq> KERN_SUCCESS then Some (kr, None, s2)
             else ipc_entry_alloc_name its mem ite env tree_entry s2 name
           }
           else if tree_entry
           then Some (KERN_SUCCESS, Some (TreeEntry name), fst s, alloc_tree_entry its space1 name)
           else if \<not> ite then Some (KERN_RESOURCE_SHORTAGE, None, fst s, space1)
           else ipc_entry_alloc_name its mem ite env True (env (fst s, space1)) name)"

declare ipc_entry_alloc_name.simps [code]

section \<open>Deallocation\<close>

definition dealloc_to_free_list :: "ipc_space \<Rightarrow> nat \<Rightarrow> ipc_space" where
  "dealloc_to_free_list space index =
     (let table = is_table space; entry = table ! index;
          table1 = table[index := entry\<lparr>ie_bits := ie_bits entry AND IE_BITS_GEN_MASK,
                                        ie_request := ie_next (table ! 0)\<rparr>]
      in space\<lparr>is_table := set_next table1 0 index\<rparr>)"

text \<open>An entry with the collision bit: a colliding tree entry takes its place.\<close>

definition dealloc_collision :: "ipc_state \<Rightarrow> nat \<Rightarrow> ipc_state option" where
  "dealloc_collision s index = (case s of (ghash, space) \<Rightarrow>
     (let (tree1, collisions0) = ipc_splay_tree_split (is_tree space) (MACH_PORT_MAKE (index + 1) 0) ist_raw;
          (collisions1, small) = ipc_splay_tree_split collisions0 (MACH_PORT_MAKE index 0) ist_raw
      in do {
        (tname, tentry) \<leftarrow> ipc_splay_tree_pick collisions1;
        let bits = ie_bits tentry; let obj = ie_object tentry; let entry = is_table space ! index;
        let space1 = space\<lparr>is_tree := tree1, is_table := (is_table space)[index :=
               entry\<lparr>ie_bits := bits OR MACH_PORT_GEN tname, ie_object := obj,
                     ie_request := ie_request tentry\<rparr>]\<rparr>;
        (ghash2, space2) \<leftarrow>
          (if IE_BITS_TYPE bits = MACH_PORT_TYPE_SEND then
             (case ipc_hash_global_delete (ghash, space1) obj tname of (g, sp) \<Rightarrow>
                map_option (Pair g) (ipc_hash_local_insert sp obj index))
           else Some (ghash, space1));
        let collisions2 = ipc_splay_tree_delete collisions1 tname;
            space3 = space2\<lparr>is_tree_total := is_tree_total space2 - 1\<rparr>;
            e = is_table space3 ! index;
            space4 = (if ipc_splay_tree_pick collisions2 \<noteq> None
              then space3\<lparr>is_table := (is_table space3)[index := e\<lparr>ie_bits := ie_bits e OR IE_BITS_COLLISION\<rparr>],
                          is_tree := fst (ipc_splay_tree_join (is_tree space3) collisions2)\<rparr>
              else space3)
        in Some (ghash2, space4\<lparr>is_tree := fst (ipc_splay_tree_join (is_tree space4) small)\<rparr>)
      }))"

text \<open>An entry of the tree.\<close>

definition dealloc_tree_entry :: "nat list \<Rightarrow> ipc_space \<Rightarrow> mach_port_t \<Rightarrow> ipc_space" where
  "dealloc_tree_entry its space name =
     (let index = MACH_PORT_INDEX name;
          space1 = space\<lparr>is_tree := ipc_splay_tree_delete (is_tree space) name,
                         is_tree_total := is_tree_total space - 1\<rparr>
      in if index < is_table_size space1 then
           (case ipc_entry_tree_collision space1 name of (collision, space2) \<Rightarrow>
              if \<not> collision then
                let e = is_table space2 ! index in
                space2\<lparr>is_table := (is_table space2)[index :=
                   e\<lparr>ie_bits := ie_bits e AND NOT IE_BITS_COLLISION\<rparr>]\<rparr>
              else space2)
         else if index < its ! is_table_next space1 then
           (case ipc_entry_tree_collision space1 name of (collision, space2) \<Rightarrow>
              if \<not> collision then space2\<lparr>is_tree_small := is_tree_small space2 - 1\<rparr> else space2)
         else space1)"

definition ipc_entry_dealloc ::
  "nat list \<Rightarrow> ipc_state \<Rightarrow> mach_port_t \<Rightarrow> ipc_entry_ref \<Rightarrow> ipc_state option" where
  "ipc_entry_dealloc its s name entry =
     (let space = snd s; index = MACH_PORT_INDEX name in
      if is_fast space then Some (fst s, dealloc_to_free_list space index)
      else if index < is_table_size space \<and> entry = TableEntry index then
        if ie_bits (is_table space ! index) AND IE_BITS_COLLISION \<noteq> 0
        then dealloc_collision s index
        else Some (fst s, dealloc_to_free_list space index)
      else Some (fst s, dealloc_tree_entry its space name))"

end
