(* ===== verification/Ipc_Entry_Correct.thy ===== *)
theory Ipc_Entry_Correct
  imports Ipc_Entry
begin

text \<open>
  Correctness of the entry operations: the invariant of a space (free list, collision bits, tree
  counters, table sizes), the rights of a space as a map from names to entries, and what lookup,
  allocation and deallocation do to both.
\<close>

section \<open>The invariant of a space\<close>

fun free_chain :: "ipc_entry list \<Rightarrow> nat \<Rightarrow> nat list \<Rightarrow> bool" where
  "free_chain table i [] \<longleftrightarrow> ie_next (table ! i) = 0"
| "free_chain table i (x # xs) \<longleftrightarrow> ie_next (table ! i) = x \<and> x \<noteq> 0 \<and> free_chain table x xs"

abbreviation type_of :: "ipc_entry \<Rightarrow> natural_t" where
  "type_of e \<equiv> IE_BITS_TYPE (ie_bits e)"

abbreviation gen_of :: "ipc_entry \<Rightarrow> natural_t" where
  "gen_of e \<equiv> IE_BITS_GEN (ie_bits e)"

definition collides :: "ipc_entry \<Rightarrow> bool" where
  "collides e \<longleftrightarrow> ie_bits e AND IE_BITS_COLLISION \<noteq> 0"

text \<open>The free list holds exactly the untyped slots, except \<open>pending\<close> ones, which are allocated.\<close>

definition free_list_ok :: "ipc_entry list \<Rightarrow> nat set \<Rightarrow> nat list \<Rightarrow> bool" where
  "free_list_ok table pending xs \<longleftrightarrow> table \<noteq> [] \<and> free_chain table 0 xs \<and> distinct xs \<and>
     set xs = {i. 0 < i \<and> i < length table \<and> type_of (table ! i) = 0} - pending \<and>
     (\<forall>i \<in> set xs. ie_bits (table ! i) AND NOT IE_BITS_GEN_MASK = 0 \<and> ie_object (table ! i) = IO_NULL)"

definition tree_names :: "ipc_space \<Rightarrow> mach_port_t set" where
  "tree_names space = fst ` set (ist_inorder (is_tree space))"

definition tree_ok :: "nat list \<Rightarrow> ipc_space \<Rightarrow> bool" where
  "tree_ok its space \<longleftrightarrow> ist_wf (is_tree space) \<and>
     length (ist_inorder (is_tree space)) < 2 ^ 32 \<and>
     is_tree_total space = of_nat (length (ist_inorder (is_tree space))) \<and>
     (\<forall>i < is_table_size space. collides (is_table space ! i) \<longleftrightarrow>
        (\<exists>n \<in> tree_names space. MACH_PORT_INDEX n = i)) \<and>
     (\<forall>n \<in> tree_names space. MACH_PORT_VALID n \<and>
        (MACH_PORT_INDEX n < is_table_size space \<longrightarrow>
           gen_of (is_table space ! MACH_PORT_INDEX n) \<noteq> MACH_PORT_GEN n)) \<and>
     is_tree_small space = of_nat (card {i \<in> MACH_PORT_INDEX ` tree_names space.
        is_table_size space \<le> i \<and> i < its ! is_table_next space})"

definition sizes_ok :: "nat list \<Rightarrow> ipc_space \<Rightarrow> bool" where
  "sizes_ok its space \<longleftrightarrow> entries_sizes_ok its \<and> 0 < is_table_next space \<and>
     is_table_next space < length its \<and> is_table_size space = its ! (is_table_next space - 1)"

definition space_ok :: "nat list \<Rightarrow> ipc_space \<Rightarrow> nat list \<Rightarrow> bool" where
  "space_ok its space xs \<longleftrightarrow> sizes_ok its space \<and> tree_ok its space \<and> type_of (is_table space ! 0) = 0 \<and>
     free_list_ok (is_table space) {} xs"

text \<open>The rights of a space by name.\<close>

definition space_map :: "ipc_space \<Rightarrow> mach_port_t \<rightharpoonup> ipc_entry" where
  "space_map space name =
     (let index = MACH_PORT_INDEX name; e = is_table space ! index in
      if index < is_table_size space \<and> gen_of e = MACH_PORT_GEN name \<and> type_of e \<noteq> 0
      then Some e else ist_map (is_tree space) name)"

lemma tree_map_iff: "ist_map (is_tree space) name \<noteq> None \<longleftrightarrow> name \<in> tree_names space"
  by (simp add: tree_names_def map_of_eq_None_iff)

lemma tree_lookup_correct:
  assumes "ist_wf (is_tree space)"
  shows "fst (tree_lookup space name) = (if name \<in> tree_names space then Some (TreeEntry name) else None)
    \<and> (\<exists>tree. snd (tree_lookup space name) = space\<lparr>is_tree := tree\<rparr> \<and> ist_wf tree \<and>
         ist_inorder tree = ist_inorder (is_tree space))"
  using splay.lookup_value [OF assms, of name] splay.lookup_entries [OF assms, of name]
    splay.lookup_wf [OF assms, of name] tree_map_iff [of space name]
  by (cases "ipc_splay_tree_lookup (is_tree space) name") (auto simp: tree_lookup_def)

lemma space_map_tree_update [simp]:
  "ist_inorder tree = ist_inorder (is_tree space) \<Longrightarrow> space_map (space\<lparr>is_tree := tree\<rparr>) = space_map space"
  by (rule ext) (simp add: space_map_def Let_def)

lemma space_ok_tree_update:
  assumes "space_ok its space xs" "ist_wf tree" "ist_inorder tree = ist_inorder (is_tree space)"
  shows "space_ok its (space\<lparr>is_tree := tree\<rparr>) xs"
  using assms by (simp add: space_ok_def sizes_ok_def tree_ok_def tree_names_def)

text \<open>The effect of a lookup: the same rights in a possibly splayed tree.\<close>

lemma entry_lookup_correct:
  assumes ok: "space_ok its space xs" and slow: "\<not> is_fast space"
  shows "\<exists>r tree. ipc_entry_lookup space name = Some (r, space\<lparr>is_tree := tree\<rparr>) \<and>
    ist_wf tree \<and> ist_inorder tree = ist_inorder (is_tree space) \<and>
    (case r of None \<Rightarrow> space_map space name = None
     | Some ref \<Rightarrow> get_entry space ref = space_map space name \<and> space_map space name \<noteq> None)"
proof -
  let ?i = "MACH_PORT_INDEX name" and ?e = "is_table space ! MACH_PORT_INDEX name"
  have wf: "ist_wf (is_tree space)" and
    coll: "?i < is_table_size space \<Longrightarrow> collides ?e \<longleftrightarrow> (\<exists>n \<in> tree_names space. MACH_PORT_INDEX n = ?i)" and
    gens: "name \<in> tree_names space \<Longrightarrow> ?i < is_table_size space \<Longrightarrow> gen_of ?e \<noteq> MACH_PORT_GEN name" and
    tot: "is_tree_total space = of_nat (length (ist_inorder (is_tree space)))"
         "length (ist_inorder (is_tree space)) < 2 ^ 32"
    using ok by (auto simp: space_ok_def tree_ok_def)
  have same: "space\<lparr>is_tree := is_tree space\<rparr> = space" by simp
  have empty: "is_tree_total space = 0 \<Longrightarrow> tree_names space = {}"
    using tot by (auto simp: tree_names_def word_of_nat_eq_0_iff dest: nat_dvd_not_less)
  obtain r tree where t: "tree_lookup space name = (r, space\<lparr>is_tree := tree\<rparr>)"
      "r = (if name \<in> tree_names space then Some (TreeEntry name) else None)" "ist_wf tree"
      "ist_inorder tree = ist_inorder (is_tree space)"
    using tree_lookup_correct [OF wf, of name] by (metis prod.collapse)
  have via_tree: ?thesis
    if "ipc_entry_lookup space name = Some (tree_lookup space name)"
      "\<not> (?i < is_table_size space \<and> gen_of ?e = MACH_PORT_GEN name)"
    using that t tree_map_iff [of space name]
    by (intro exI [of _ r] exI [of _ tree]) (auto simp: space_map_def Let_def)
  have none: ?thesis if "ipc_entry_lookup space name = Some (None, space)" "space_map space name = None"
    using that wf by (intro exI [of _ None] exI [of _ "is_tree space"]) simp
  show ?thesis
  proof (cases "?i < is_table_size space")
    case in_table: True
    show ?thesis
    proof (cases "gen_of ?e = MACH_PORT_GEN name")
      case True
      then have n: "ist_map (is_tree space) name = None"
        using gens in_table tree_map_iff [of space name] by blast
      show ?thesis
      proof (cases "type_of ?e = 0")
        case True
        then show ?thesis using in_table slow \<open>gen_of ?e = _\<close> n
          by (intro none) (simp_all add: ipc_entry_lookup_def Let_def MACH_PORT_TYPE_NONE_def space_map_def)
      next
        case False
        then have "ipc_entry_lookup space name = Some (Some (TableEntry ?i), space)"
          using in_table slow True by (simp add: ipc_entry_lookup_def Let_def MACH_PORT_TYPE_NONE_def)
        with False in_table True wf show ?thesis
          by (intro exI [of _ "Some (TableEntry ?i)"] exI [of _ "is_tree space"]) (simp add: space_map_def)
      qed
    next
      case False
      show ?thesis
      proof (cases "collides ?e")
        case True
        with False in_table slow show ?thesis
          by (intro via_tree) (simp_all add: ipc_entry_lookup_def Let_def collides_def)
      next
        case nc: False
        then have "ist_map (is_tree space) name = None"
          using coll [OF in_table] tree_map_iff [of space name] by blast
        with nc False in_table slow show ?thesis
          by (intro none) (simp_all add: ipc_entry_lookup_def Let_def collides_def space_map_def)
      qed
    qed
  next
    case False
    show ?thesis
    proof (cases "is_tree_total space = 0")
      case True
      then have "ist_map (is_tree space) name = None" using empty tree_map_iff [of space name] by blast
      with True False slow show ?thesis
        by (intro none) (simp_all add: ipc_entry_lookup_def Let_def space_map_def)
    next
      case tt: False
      with False slow show ?thesis by (intro via_tree) (simp_all add: ipc_entry_lookup_def Let_def)
    qed
  qed
qed

section \<open>The free list\<close>

lemma length_set_next [simp]: "length (set_next table i n) = length table"
  by (simp add: set_next_def)

lemma set_next_nth:
  "j < length table \<Longrightarrow> set_next table i n ! j = (if j = i then (table ! i)\<lparr>ie_request := n\<rparr> else table ! j)"
  by (simp add: set_next_def nth_list_update_if)

lemma free_chain_cong:
  assumes "\<forall>j \<in> insert i (set xs). ie_next (table' ! j) = ie_next (table ! j)"
  shows "free_chain table' i xs \<longleftrightarrow> free_chain table i xs"
  using assms by (induction xs arbitrary: i) auto

lemma free_chain_next: "free_chain table i xs \<Longrightarrow> ie_next (table ! i) = (case xs of [] \<Rightarrow> 0 | x # _ \<Rightarrow> x)"
  by (cases xs) auto

lemma free_list_okD:
  assumes "free_list_ok table pending xs"
  shows "table \<noteq> []" "free_chain table 0 xs" "distinct xs"
    "set xs = {i. 0 < i \<and> i < length table \<and> type_of (table ! i) = 0} - pending"
    "i \<in> set xs \<Longrightarrow> ie_bits (table ! i) AND NOT IE_BITS_GEN_MASK = 0"
    "i \<in> set xs \<Longrightarrow> ie_object (table ! i) = IO_NULL"
    "i \<in> set xs \<Longrightarrow> 0 < i \<and> i < length table \<and> type_of (table ! i) = 0"
  using assms unfolding free_list_ok_def by auto

text \<open>Bits that are only a generation.\<close>

lemma gen_only_bits:
  assumes "bits AND NOT IE_BITS_GEN_MASK = 0"
  shows "IE_BITS_TYPE bits = 0" "bits AND IE_BITS_COLLISION = 0" "IE_BITS_GEN bits = bits"
proof -
  have b: "bits AND IE_BITS_GEN_MASK = bits"
    using assms by (metis and.right_neutral bit.disj_cancel_right bit.conj_disj_distrib or.right_neutral)
  have m: "bits AND m = bits AND (IE_BITS_GEN_MASK AND m)" for m
    using b by (metis and.assoc)
  show "IE_BITS_TYPE bits = 0" "bits AND IE_BITS_COLLISION = 0"
    unfolding IE_BITS_TYPE_def
    by (subst m, simp add: IE_BITS_GEN_MASK_def IE_BITS_TYPE_MASK_def IE_BITS_COLLISION_def)+
  show "IE_BITS_GEN bits = bits" using b by (simp add: IE_BITS_GEN_def)
qed

lemma new_gen_only: "IE_BITS_NEW_GEN bits AND NOT IE_BITS_GEN_MASK = 0"
  by (simp add: IE_BITS_NEW_GEN_def and.assoc)

lemma gen_mask_only: "(bits AND IE_BITS_GEN_MASK) AND NOT IE_BITS_GEN_MASK = 0"
  by (simp add: and.assoc)

text \<open>Allocation takes the first free entry.\<close>

definition get_table :: "ipc_entry list \<Rightarrow> nat \<Rightarrow> ipc_entry list" where
  "get_table table x = (set_next table 0 (ie_next (table ! x)))
     [x := (table ! x)\<lparr>ie_bits := IE_BITS_NEW_GEN (ie_bits (table ! x)), ie_request := 0\<rparr>]"

lemma get_table_nth:
  "j < length table \<Longrightarrow> get_table table x ! j =
     (if j = x then (table ! x)\<lparr>ie_bits := IE_BITS_NEW_GEN (ie_bits (table ! x)), ie_request := 0\<rparr>
      else if j = 0 then (table ! 0)\<lparr>ie_request := ie_next (table ! x)\<rparr> else table ! j)"
  by (auto simp: get_table_def nth_list_update set_next_nth)

lemma length_get_table [simp]: "length (get_table table x) = length table"
  by (simp add: get_table_def)

lemma entry_get_free:
  assumes "free_list_ok (is_table space) pending (x # xs)"
  shows "ipc_entry_get space = (KERN_SUCCESS,
      Some (MACH_PORT_MAKE x (IE_BITS_NEW_GEN (ie_bits (is_table space ! x))), TableEntry x),
      space\<lparr>is_table := get_table (is_table space) x\<rparr>)"
proof -
  note F = free_list_okD [OF assms]
  have "ie_next (is_table space ! 0) = x" "x \<noteq> 0" "x < is_table_size space"
    using F(2) F(7) [of x] by auto
  then show ?thesis
    by (simp add: ipc_entry_get_def Let_def get_table_def set_next_nth)
qed

lemma entry_get_full:
  "free_list_ok (is_table space) pending [] \<Longrightarrow> ipc_entry_get space = (KERN_NO_SPACE, None, space)"
  using free_list_okD(2) [of "is_table space" pending "[]"] by (simp add: ipc_entry_get_def)

lemma free_list_pop:
  assumes "free_list_ok table pending (x # xs)"
  shows "free_list_ok (get_table table x) (insert x pending) xs"
proof -
  note F = free_list_okD [OF assms]
  have x: "0 < x" "x < length table" "x \<notin> set xs" using F(3) F(7) [of x] by auto
  have n0: "0 \<notin> set xs" using F(7) [of 0] by auto
  have pos: "0 < length table" using x by linarith
  have chain: "free_chain table x xs" using F(2) by auto
  have c0: "free_chain (get_table table x) 0 xs"
  proof (cases xs)
    case Nil
    then show ?thesis using chain x get_table_nth [OF pos] by simp
  next
    case (Cons y ys)
    have "free_chain (get_table table x) y ys \<longleftrightarrow> free_chain table y ys"
    proof (rule free_chain_cong, rule ballI)
      fix j assume "j \<in> insert y (set ys)"
      then have "j \<in> set xs" using Cons by simp
      then have "j < length table" "j \<noteq> x" "j \<noteq> 0" using F(7) [of j] x n0 by auto
      then show "ie_next (get_table table x ! j) = ie_next (table ! j)" by (simp add: get_table_nth)
    qed
    with Cons chain x show ?thesis using get_table_nth [OF pos] by simp
  qed
  have ty: "type_of (get_table table x ! i) = 0 \<longleftrightarrow> type_of (table ! i) = 0" if "i < length table" for i
    using that gen_only_bits(1) [OF new_gen_only] F(7) [of x] by (simp add: get_table_nth)
  have s: "set xs = {i. 0 < i \<and> i < length table \<and> type_of (table ! i) = 0} - insert x pending"
    using F(3,4) by auto
  have "{i. 0 < i \<and> i < length table \<and> type_of (get_table table x ! i) = 0} =
      {i. 0 < i \<and> i < length table \<and> type_of (table ! i) = 0}" using ty by auto
  note eq = this
  show ?thesis
    unfolding free_list_ok_def length_get_table
  proof (intro conjI ballI)
    show "get_table table x \<noteq> []" using pos by (metis length_get_table length_greater_0_conv)
    show "free_chain (get_table table x) 0 xs" by (rule c0)
    show "distinct xs" using F(3) by simp
    show "set xs = {i. 0 < i \<and> i < length table \<and> type_of (get_table table x ! i) = 0} - insert x pending"
      unfolding eq by (rule s)
    fix i assume i: "i \<in> set xs"
    then have "i < length table" "i \<noteq> x" "i \<noteq> 0" using F(7) [of i] x by auto
    then have "get_table table x ! i = table ! i" by (simp add: get_table_nth)
    then show "ie_bits (get_table table x ! i) AND NOT IE_BITS_GEN_MASK = 0"
      "ie_object (get_table table x ! i) = IO_NULL" using F(5,6) [of i] i by simp_all
  qed
qed

text \<open>Deallocation puts an entry in front.\<close>

lemma free_list_push:
  assumes F: "free_list_ok (is_table space) pending xs"
    and i: "0 < index" "index < is_table_size space" "index \<notin> set xs"
    and null: "ie_object (is_table space ! index) = IO_NULL"
  shows "free_list_ok (is_table (dealloc_to_free_list space index)) (pending - {index}) (index # xs)"
proof -
  let ?t = "is_table space" and ?t' = "is_table (dealloc_to_free_list space index)"
  note F = free_list_okD [OF F]
  have pos: "0 < length ?t" using i by linarith
  have n: "length ?t' = length ?t" by (simp add: dealloc_to_free_list_def Let_def)
  have nth: "?t' ! j = (if j = 0 then (?t ! 0)\<lparr>ie_request := index\<rparr>
      else if j = index then (?t ! index)\<lparr>ie_bits := ie_bits (?t ! index) AND IE_BITS_GEN_MASK,
            ie_request := ie_next (?t ! 0)\<rparr> else ?t ! j)" if "j < length ?t" for j
    using that i pos by (auto simp: dealloc_to_free_list_def Let_def set_next_nth nth_list_update_if)
  have old: "?t' ! j = ?t ! j" if "j \<in> set xs" for j
    using nth [of j] F(7) [OF that] i(3) that by auto
  have chain: "free_chain ?t' index xs"
  proof (cases xs)
    case Nil
    then show ?thesis using F(2) nth [OF i(2)] i(1) by simp
  next
    case (Cons y ys)
    have "free_chain ?t' y ys \<longleftrightarrow> free_chain ?t y ys"
      by (rule free_chain_cong) (use old Cons in auto)
    with Cons F(2) nth [OF i(2)] i(1) show ?thesis by simp
  qed
  have ty: "type_of (?t' ! j) = 0 \<longleftrightarrow> type_of (?t ! j) = 0 \<or> j = index" if "0 < j" "j < length ?t" for j
    using that nth [OF that(2)] gen_only_bits(1) [OF gen_mask_only] by simp
  show ?thesis
    unfolding free_list_ok_def n
  proof (intro conjI ballI)
    show "?t' \<noteq> []" using n pos by auto
    show "free_chain ?t' 0 (index # xs)" using chain nth [OF pos] i(1) by simp
    show "distinct (index # xs)" using F(3) i(3) by simp
    show "set (index # xs) = {j. 0 < j \<and> j < length ?t \<and> type_of (?t' ! j) = 0} - (pending - {index})"
      using F(4) ty i by auto
    fix j assume "j \<in> set (index # xs)"
    then have "j = index \<or> j \<in> set xs" by simp
    then show "ie_bits (?t' ! j) AND NOT IE_BITS_GEN_MASK = 0" "ie_object (?t' ! j) = IO_NULL"
      using old [of j] F(5,6) [of j] nth [OF i(2)] i(1) null gen_mask_only by auto
  qed
qed

text \<open>The search of the free list for an entry.\<close>

lemma unlink_free_walk:
  assumes "free_chain table i (ys @ index # zs)" "index \<notin> set ys"
  shows "unlink_free table index i =
    Some (set_next table (last (i # ys)) (ie_next (table ! index)))"
  using assms
proof (induction ys arbitrary: i)
  case Nil
  then show ?case by (subst unlink_free.simps) (simp add: Let_def)
next
  case (Cons y ys)
  then have "unlink_free table index i = unlink_free table index y"
    by (subst unlink_free.simps) (simp add: Let_def)
  with Cons show ?case by simp
qed

lemma free_chain_unlink:
  assumes "free_chain table i (ys @ index # zs)" "distinct (i # ys @ index # zs)"
    and "\<forall>j \<in> insert i (set ys). j < length table"
  shows "free_chain (set_next table (last (i # ys)) (ie_next (table ! index))) i (ys @ zs)"
  using assms
proof (induction ys arbitrary: i)
  case Nil
  let ?t = "set_next table i (ie_next (table ! index))"
  have "free_chain ?t i zs \<longleftrightarrow> free_chain table index zs"
  proof (cases zs)
    case (Cons z zs')
    have "free_chain ?t z zs' \<longleftrightarrow> free_chain table z zs'"
    proof (rule free_chain_cong, rule ballI)
      fix j assume "j \<in> insert z (set zs')"
      then have "j \<noteq> i" using Nil(2) Cons by auto
      then show "ie_next (?t ! j) = ie_next (table ! j)" by (simp add: set_next_def)
    qed
    with Cons Nil show ?thesis by (simp add: set_next_nth)
  qed (use Nil in \<open>simp add: set_next_nth\<close>)
  with Nil show ?case by simp
next
  case (Cons y ys)
  let ?t = "set_next table (last (y # ys)) (ie_next (table ! index))"
  have "i \<noteq> last (y # ys)" using Cons.prems(2) last_in_set [of "y # ys"] by auto
  then have "ie_next (?t ! i) = ie_next (table ! i)" by (simp add: set_next_def)
  moreover have "free_chain ?t y (ys @ zs)"
    by (rule Cons.IH) (use Cons.prems in auto)
  ultimately show ?case using Cons.prems(1) by simp
qed

lemma free_list_unlink:
  assumes ok: "free_list_ok table pending xs" and i: "index \<in> set xs"
  shows "\<exists>table'. unlink_free table index 0 = Some table' \<and> length table' = length table \<and>
    free_list_ok table' (insert index pending) (remove1 index xs) \<and>
    (\<forall>j < length table. table' ! j = (table ! j)\<lparr>ie_request := ie_next (table' ! j)\<rparr>) \<and>
    (\<forall>j < length table. type_of (table ! j) \<noteq> 0 \<longrightarrow> j \<noteq> 0 \<longrightarrow> table' ! j = table ! j)"
proof -
  note F = free_list_okD [OF ok]
  from split_list [OF i] obtain ys zs where xs: "xs = ys @ index # zs" by blast
  have d: "index \<notin> set ys" "index \<notin> set zs" "distinct (0 # ys @ index # zs)" using F(3) F(7) [of 0] xs by auto
  let ?p = "last (0 # ys)" and ?t = "set_next table (last (0 # ys)) (ie_next (table ! index))"
  have pos: "0 < length table" using F(1) by simp
  have p: "?p = 0 \<or> ?p \<in> set xs" using last_in_set [of ys] xs by (cases ys) auto
  have "unlink_free table index 0 = Some ?t"
    using unlink_free_walk [of table 0 ys index zs] F(2) xs d by simp
  moreover have "free_chain ?t 0 (remove1 index xs)"
  proof -
    have "\<forall>j \<in> insert 0 (set ys). j < length table" using F(7) xs pos by auto
    from free_chain_unlink [OF _ d(3) this] F(2) show ?thesis
      using xs d by (simp add: remove1_append)
  qed
  moreover have bits: "ie_bits (?t ! j) = ie_bits (table ! j) \<and> ie_object (?t ! j) = ie_object (table ! j)"
    if "j < length table" for j
    using that by (simp add: set_next_nth)
  moreover have "\<forall>j < length table. ?t ! j = (table ! j)\<lparr>ie_request := ie_next (?t ! j)\<rparr>"
    by (simp add: set_next_nth)
  moreover have "\<forall>j < length table. type_of (table ! j) \<noteq> 0 \<longrightarrow> j \<noteq> 0 \<longrightarrow> ?t ! j = table ! j"
    using p F(7) [of ?p] by (auto simp: set_next_nth)
  moreover have "set (remove1 index xs) = {j. 0 < j \<and> j < length table \<and> type_of (?t ! j) = 0} - insert index pending"
    using F(3,4) bits by (auto simp: set_remove1_eq)
  moreover have "\<forall>j \<in> set (remove1 index xs). ie_bits (?t ! j) AND NOT IE_BITS_GEN_MASK = 0 \<and> ie_object (?t ! j) = IO_NULL"
    using F(5-7) bits by (metis notin_set_remove1)
  ultimately show ?thesis
    using F(1,3) by (intro exI [of _ ?t]) (simp add: free_list_ok_def set_next_def)
qed

section \<open>Allocation and deallocation\<close>

lemma table_index_bound:
  assumes "sizes_ok its space" "i < is_table_size space"
  shows "i < 0xffffff"
proof -
  have "its ! (is_table_next space - 1) \<le> 0xffffff"
    using assms(1) by (intro entries_sizes_bounds(2)) (auto simp: sizes_ok_def)
  with assms show ?thesis unfolding sizes_ok_def by linarith
qed

lemma MACH_PORT_VALID_MAKE:
  assumes "0 < index" "index < 0xffffff"
  shows "MACH_PORT_VALID (MACH_PORT_MAKE index gen)"
proof -
  have "MACH_PORT_INDEX (MACH_PORT_MAKE index gen) = index" using assms by simp
  moreover have "MACH_PORT_INDEX MACH_PORT_NULL = 0" "MACH_PORT_INDEX MACH_PORT_DEAD = 0xffffff"
    by (simp_all add: MACH_PORT_INDEX_div MACH_PORT_NULL_def MACH_PORT_DEAD_def unsigned_minus_1_eq_mask mask_eq_exp_minus_1)
  ultimately show ?thesis using assms by (metis MACH_PORT_VALID_def less_irrefl)
qed

lemma no_tree_name_at_free:
  assumes "tree_ok its space" "free_list_ok (is_table space) pending xs" "x \<in> set xs"
    and "n \<in> tree_names space"
  shows "MACH_PORT_INDEX n \<noteq> x"
proof -
  have "x < is_table_size space" "\<not> collides (is_table space ! x)"
    using free_list_okD(5,7) [OF assms(2,3)] gen_only_bits(2) by (auto simp: collides_def)
  with assms(1,4) show ?thesis by (auto simp: tree_ok_def)
qed

lemma tree_ok_gen:
  "tree_ok its space \<Longrightarrow> n \<in> tree_names space \<Longrightarrow> MACH_PORT_INDEX n < is_table_size space \<Longrightarrow>
   gen_of (is_table space ! MACH_PORT_INDEX n) \<noteq> MACH_PORT_GEN n"
  unfolding tree_ok_def by blast

lemma get_table_bits:
  "j < length table \<Longrightarrow> j \<noteq> x \<Longrightarrow> ie_bits (get_table table x ! j) = ie_bits (table ! j)"
  by (simp add: get_table_nth)

text \<open>Changing table slots that collide with no tree name, and keeping the collision bits.\<close>

lemma tree_ok_table_update:
  assumes "tree_ok its space" "length table = is_table_size space"
    and "\<And>i. i < is_table_size space \<Longrightarrow> collides (table ! i) \<longleftrightarrow> collides (is_table space ! i)"
    and "\<And>n. n \<in> tree_names space \<Longrightarrow> MACH_PORT_INDEX n < is_table_size space \<Longrightarrow>
      gen_of (table ! MACH_PORT_INDEX n) \<noteq> MACH_PORT_GEN n"
  shows "tree_ok its (space\<lparr>is_table := table\<rparr>)"
  using assms by (simp add: tree_ok_def tree_names_def)

lemma get_keeps_tree:
  assumes "tree_ok its space" "free_list_ok (is_table space) pending (x # xs)"
  shows "tree_ok its (space\<lparr>is_table := get_table (is_table space) x\<rparr>)"
proof (rule tree_ok_table_update [OF assms(1)])
  note F = free_list_okD [OF assms(2)]
  show "length (get_table (is_table space) x) = is_table_size space" by simp
  show "collides (get_table (is_table space) x ! i) \<longleftrightarrow> collides (is_table space ! i)"
    if "i < is_table_size space" for i
    using that gen_only_bits(2) [OF F(5)] gen_only_bits(2) [OF new_gen_only]
    by (simp add: get_table_nth collides_def)
  fix n assume n: "n \<in> tree_names space" "MACH_PORT_INDEX n < is_table_size space"
  then have "MACH_PORT_INDEX n \<noteq> x" using no_tree_name_at_free [OF assms, of x n] by simp
  with n tree_ok_gen [OF assms(1) n]
  show "gen_of (get_table (is_table space) x ! MACH_PORT_INDEX n) \<noteq> MACH_PORT_GEN n"
    by (simp add: get_table_bits)
qed

lemma space_map_slot:
  assumes "is_table_size space' = is_table_size space" "ist_map (is_tree space') n = ist_map (is_tree space) n"
    and "MACH_PORT_INDEX n < is_table_size space \<Longrightarrow>
      is_table space' ! MACH_PORT_INDEX n = is_table space ! MACH_PORT_INDEX n \<or>
      type_of (is_table space' ! MACH_PORT_INDEX n) = 0 \<and> type_of (is_table space ! MACH_PORT_INDEX n) = 0"
  shows "space_map space' n = space_map space n"
  using assms by (auto simp: space_map_def Let_def)

lemma get_keeps_map:
  assumes "free_list_ok (is_table space) pending (x # xs)" "type_of (is_table space ! 0) = 0"
  shows "space_map (space\<lparr>is_table := get_table (is_table space) x\<rparr>) = space_map space"
proof (rule ext, rule space_map_slot)
  fix name
  let ?i = "MACH_PORT_INDEX name"
  assume i: "?i < is_table_size space"
  let ?t = "get_table (is_table space) x"
  have "type_of (is_table space ! x) = 0" using free_list_okD(7) [OF assms(1), of x] by simp
  then have "?i = x \<Longrightarrow> type_of (?t ! ?i) = 0 \<and> type_of (is_table space ! ?i) = 0"
    using get_table_nth [OF i] gen_only_bits(1) [OF new_gen_only] by simp
  moreover have "?i \<noteq> x \<Longrightarrow> ?i = 0 \<Longrightarrow> type_of (?t ! ?i) = 0 \<and> type_of (is_table space ! ?i) = 0"
    using get_table_bits [OF i] assms(2) by simp
  moreover have "?i \<noteq> x \<Longrightarrow> ?i \<noteq> 0 \<Longrightarrow> ?t ! ?i = is_table space ! ?i"
    using get_table_nth [OF i] by simp
  ultimately have "?t ! ?i = is_table space ! ?i \<or>
      type_of (?t ! ?i) = 0 \<and> type_of (is_table space ! ?i) = 0"
    by metis
  then show "is_table (space\<lparr>is_table := ?t\<rparr>) ! ?i = is_table space ! ?i \<or>
      type_of (is_table (space\<lparr>is_table := ?t\<rparr>) ! ?i) = 0 \<and> type_of (is_table space ! ?i) = 0"
    by simp
qed simp_all

lemma fresh_name:
  assumes "tree_ok its space" "sizes_ok its space" "free_list_ok (is_table space) pending (x # xs)"
  shows "space_map space (MACH_PORT_MAKE x gen) = None" "MACH_PORT_MAKE x gen \<notin> tree_names space"
    "MACH_PORT_INDEX (MACH_PORT_MAKE x gen) = x" "MACH_PORT_VALID (MACH_PORT_MAKE x gen)"
proof -
  have x: "0 < x" "x < is_table_size space" "type_of (is_table space ! x) = 0"
    using free_list_okD(7) [OF assms(3), of x] by auto
  have b: "x < 0xffffff" by (rule table_index_bound [OF assms(2) x(2)])
  then show i: "MACH_PORT_INDEX (MACH_PORT_MAKE x gen) = x" by simp
  show "MACH_PORT_VALID (MACH_PORT_MAKE x gen)" by (rule MACH_PORT_VALID_MAKE [OF x(1) b])
  show t: "MACH_PORT_MAKE x gen \<notin> tree_names space"
    using no_tree_name_at_free [OF assms(1,3), of x "MACH_PORT_MAKE x gen"] i by auto
  then have "ist_map (is_tree space) (MACH_PORT_MAKE x gen) = None" using tree_map_iff by blast
  then show "space_map space (MACH_PORT_MAKE x gen) = None"
    using i x by (simp add: space_map_def Let_def)
qed

lemma dealloc_free_list_entry:
  assumes "free_list_ok (is_table space) pending xs" "0 < index" "index < is_table_size space"
  shows "is_table (dealloc_to_free_list space index) ! index =
    (is_table space ! index)\<lparr>ie_bits := ie_bits (is_table space ! index) AND IE_BITS_GEN_MASK,
       ie_request := ie_next (is_table space ! 0)\<rparr>"
    "j < is_table_size space \<Longrightarrow> j \<noteq> index \<Longrightarrow> j \<noteq> 0 \<Longrightarrow>
      is_table (dealloc_to_free_list space index) ! j = is_table space ! j"
    "ie_bits (is_table (dealloc_to_free_list space index) ! 0) = ie_bits (is_table space ! 0)"
proof -
  have "0 < is_table_size space" using assms(3) by linarith
  with assms show "is_table (dealloc_to_free_list space index) ! index =
    (is_table space ! index)\<lparr>ie_bits := ie_bits (is_table space ! index) AND IE_BITS_GEN_MASK,
       ie_request := ie_next (is_table space ! 0)\<rparr>"
    "j < is_table_size space \<Longrightarrow> j \<noteq> index \<Longrightarrow> j \<noteq> 0 \<Longrightarrow>
      is_table (dealloc_to_free_list space index) ! j = is_table space ! j"
    "ie_bits (is_table (dealloc_to_free_list space index) ! 0) = ie_bits (is_table space ! 0)"
    by (auto simp: dealloc_to_free_list_def Let_def set_next_def nth_list_update)
qed

lemma dealloc_keeps_tree:
  assumes "tree_ok its space" "free_list_ok (is_table space) pending xs"
    and i: "0 < index" "index < is_table_size space"
    and nc: "\<not> collides (is_table space ! index)"
  shows "tree_ok its (dealloc_to_free_list space index)"
proof -
  let ?t' = "is_table (dealloc_to_free_list space index)"
  note nth = dealloc_free_list_entry [OF assms(2) i]
  have "dealloc_to_free_list space index = space\<lparr>is_table := ?t'\<rparr>"
    by (simp add: dealloc_to_free_list_def Let_def)
  moreover have "tree_ok its (space\<lparr>is_table := ?t'\<rparr>)"
  proof (rule tree_ok_table_update [OF assms(1)])
    show "length ?t' = is_table_size space" by (simp add: dealloc_to_free_list_def Let_def)
    show "collides (?t' ! j) \<longleftrightarrow> collides (is_table space ! j)" if "j < is_table_size space" for j
      using that nc nth gen_only_bits(2) [OF gen_mask_only]
      by (cases "j = index"; cases "j = 0") (simp_all add: collides_def)
    fix n assume n: "n \<in> tree_names space" "MACH_PORT_INDEX n < is_table_size space"
    with assms(1) nc i have "MACH_PORT_INDEX n \<noteq> index" by (auto simp: tree_ok_def)
    moreover have "gen_of (is_table space ! MACH_PORT_INDEX n) \<noteq> MACH_PORT_GEN n"
      by (rule tree_ok_gen [OF assms(1) n])
    ultimately show "gen_of (?t' ! MACH_PORT_INDEX n) \<noteq> MACH_PORT_GEN n"
      using nth n by (cases "MACH_PORT_INDEX n = 0") simp_all
  qed
  ultimately show ?thesis by simp
qed

text \<open>What a deallocation without a collision does to the rights of the space.\<close>

lemma dealloc_map:
  assumes ok: "tree_ok its space" "free_list_ok (is_table space) pending xs"
    and i: "0 < MACH_PORT_INDEX name" "MACH_PORT_INDEX name < is_table_size space"
    and nc: "\<not> collides (is_table space ! MACH_PORT_INDEX name)"
    and gen: "gen_of (is_table space ! MACH_PORT_INDEX name) = MACH_PORT_GEN name"
    and z: "type_of (is_table space ! 0) = 0"
  shows "space_map (dealloc_to_free_list space (MACH_PORT_INDEX name)) = (space_map space)(name := None)"
proof
  fix n
  let ?i = "MACH_PORT_INDEX name" and ?s = "dealloc_to_free_list space (MACH_PORT_INDEX name)"
  note nth = dealloc_free_list_entry [OF ok(2) i]
  have s: "is_table_size ?s = is_table_size space" "is_tree ?s = is_tree space"
    by (simp_all add: dealloc_to_free_list_def Let_def)
  have none: "m \<in> tree_names space \<Longrightarrow> MACH_PORT_INDEX m \<noteq> ?i" for m
    using ok(1) nc i by (auto simp: tree_ok_def)
  have ty: "type_of (is_table ?s ! ?i) = 0" using nth(1) gen_only_bits(1) [OF gen_mask_only] by simp
  show "space_map ?s n = ((space_map space)(name := None)) n"
  proof (cases "MACH_PORT_INDEX n = ?i")
    case True
    then have "ist_map (is_tree space) n = None" using none tree_map_iff by blast
    moreover have "n = name" if "MACH_PORT_GEN n = MACH_PORT_GEN name"
      using that True by (metis MACH_PORT_MAKE_INDEX_GEN)
    ultimately show ?thesis
      using True s ty gen by (auto simp: space_map_def Let_def)
  next
    case False
    then have "n \<noteq> name" by auto
    moreover have "space_map ?s n = space_map space n"
      by (rule space_map_slot)
       (use False s nth(2) [of "MACH_PORT_INDEX n"] z nth(3) in \<open>cases "MACH_PORT_INDEX n = 0"; simp\<close>)+
    ultimately show ?thesis by simp
  qed
qed

section \<open>Collisions in the tree\<close>

lemma MACH_PORT_INDEX_mono: "n \<le> m \<Longrightarrow> MACH_PORT_INDEX n \<le> MACH_PORT_INDEX m"
  by (simp add: MACH_PORT_INDEX_div word_le_nat_alt div_le_mono)

lemma tree_collision_correct:
  assumes wf: "ist_wf (is_tree space)" and valid: "\<forall>n \<in> tree_names space. MACH_PORT_VALID n"
  shows "fst (ipc_entry_tree_collision space name) \<longleftrightarrow>
      (\<exists>n \<in> tree_names space. MACH_PORT_INDEX n = MACH_PORT_INDEX name)"
    and "\<exists>tree. snd (ipc_entry_tree_collision space name) = space\<lparr>is_tree := tree\<rparr> \<and> ist_wf tree \<and>
      ist_inorder tree = ist_inorder (is_tree space)"
proof -
  let ?N = "tree_names space" and ?i = "MACH_PORT_INDEX name"
  have fin: "finite ?N" by (simp add: tree_names_def)
  define lower where "lower = (if \<exists>n \<in> ?N. n \<le> name then Max {n \<in> ?N. n \<le> name} else MACH_PORT_LARGEST)"
  define upper where "upper = (if \<exists>n \<in> ?N. name \<le> n then Min {n \<in> ?N. name \<le> n} else MACH_PORT_SMALLEST)"
  have b: "fst (ipc_splay_tree_bounds (is_tree space) name) = (lower, upper)"
    using bounds_correct(1) [OF wf, of name] lower_bound_Max [OF ist_wf_sorted [OF wf], of name]
      upper_bound_Min [OF ist_wf_sorted [OF wf], of name]
    unfolding lower_def upper_def tree_names_def by simp
  obtain tree where t: "ipc_splay_tree_bounds (is_tree space) name = ((lower, upper), tree)"
    using b by (cases "ipc_splay_tree_bounds (is_tree space) name") auto
  then show "\<exists>tree. snd (ipc_entry_tree_collision space name) = space\<lparr>is_tree := tree\<rparr> \<and> ist_wf tree \<and>
      ist_inorder tree = ist_inorder (is_tree space)"
    using bounds_correct(2,3) [OF wf, of name] by (auto simp: ipc_entry_tree_collision_def Let_def)
  have low: "lower \<in> ?N" "n \<le> lower" "lower \<le> name" if "n \<in> ?N" "n \<le> name" for n
  proof -
    have f: "finite {n \<in> ?N. n \<le> name}" "n \<in> {n \<in> ?N. n \<le> name}" using fin that by simp_all
    have "lower = Max {n \<in> ?N. n \<le> name}" using that by (auto simp: lower_def)
    moreover have "Max {n \<in> ?N. n \<le> name} \<in> {n \<in> ?N. n \<le> name}" by (rule Max_in [OF f(1)]) (use f(2) in blast)
    ultimately show "lower \<in> ?N" "n \<le> lower" "lower \<le> name" using Max_ge [OF f] by simp_all
  qed
  have up: "upper \<in> ?N" "upper \<le> n" "name \<le> upper" if "n \<in> ?N" "name \<le> n" for n
  proof -
    have f: "finite {n \<in> ?N. name \<le> n}" "n \<in> {n \<in> ?N. name \<le> n}" using fin that by simp_all
    have "upper = Min {n \<in> ?N. name \<le> n}" using that by (auto simp: upper_def)
    moreover have "Min {n \<in> ?N. name \<le> n} \<in> {n \<in> ?N. name \<le> n}" by (rule Min_in [OF f(1)]) (use f(2) in blast)
    ultimately show "upper \<in> ?N" "upper \<le> n" "name \<le> upper" using Min_le [OF f] by simp_all
  qed
  have low0: "lower \<noteq> - 1 \<Longrightarrow> lower \<in> ?N"
    using low(1) by (cases "\<exists>n \<in> ?N. n \<le> name") (auto simp: lower_def MACH_PORT_LARGEST_def)
  have up0: "upper \<noteq> 0 \<Longrightarrow> upper \<in> ?N"
    using up(1) by (cases "\<exists>n \<in> ?N. name \<le> n") (auto simp: upper_def MACH_PORT_SMALLEST_def)
  have valid': "n \<noteq> - 1 \<and> n \<noteq> 0" if "n \<in> ?N" for n
    using valid that by (auto simp: MACH_PORT_VALID_def ipc_defs)
  have "(lower \<noteq> - 1 \<and> MACH_PORT_INDEX lower = ?i) \<or> (upper \<noteq> 0 \<and> MACH_PORT_INDEX upper = ?i)"
    if n: "n \<in> ?N" "MACH_PORT_INDEX n = ?i" for n
  proof (cases "n \<le> name")
    case True
    then show ?thesis
      using low [OF n(1)] valid' MACH_PORT_INDEX_mono [of n lower] MACH_PORT_INDEX_mono [of lower name] n(2) by auto
  next
    case False
    then show ?thesis
      using up [OF n(1)] valid' MACH_PORT_INDEX_mono [of upper n] MACH_PORT_INDEX_mono [of name upper] n(2) by auto
  qed
  then have "((lower \<noteq> - 1 \<and> MACH_PORT_INDEX lower = ?i) \<or> (upper \<noteq> 0 \<and> MACH_PORT_INDEX upper = ?i)) \<longleftrightarrow>
      (\<exists>n \<in> ?N. MACH_PORT_INDEX n = ?i)" using low0 up0 by blast
  then show "fst (ipc_entry_tree_collision space name) \<longleftrightarrow> (\<exists>n \<in> ?N. MACH_PORT_INDEX n = ?i)"
    by (simp add: ipc_entry_tree_collision_def t Let_def)
qed

section \<open>Deallocating and allocating tree entries\<close>

abbreviation small_indices :: "nat list \<Rightarrow> ipc_space \<Rightarrow> mach_port_t set \<Rightarrow> nat set" where
  "small_indices its space names \<equiv>
     {i \<in> MACH_PORT_INDEX ` names. is_table_size space \<le> i \<and> i < its ! is_table_next space}"

lemma bits_clear_collision:
  "(bits AND NOT IE_BITS_COLLISION) AND IE_BITS_COLLISION = 0"
  "IE_BITS_GEN (bits AND NOT IE_BITS_COLLISION) = IE_BITS_GEN bits"
  "IE_BITS_TYPE (bits AND NOT IE_BITS_COLLISION) = IE_BITS_TYPE bits"
  by (simp_all add: IE_BITS_GEN_def IE_BITS_TYPE_def and.assoc ipc_defs)

lemma bits_set_collision:
  "(bits OR IE_BITS_COLLISION) AND IE_BITS_COLLISION \<noteq> 0"
  "IE_BITS_GEN (bits OR IE_BITS_COLLISION) = IE_BITS_GEN bits"
  "IE_BITS_TYPE (bits OR IE_BITS_COLLISION) = IE_BITS_TYPE bits"
proof -
  have "(bits OR IE_BITS_COLLISION) AND IE_BITS_COLLISION = IE_BITS_COLLISION"
    by (simp add: bit.conj_disj_distrib2)
  then show "(bits OR IE_BITS_COLLISION) AND IE_BITS_COLLISION \<noteq> 0" by (simp add: ipc_defs)
  show "IE_BITS_GEN (bits OR IE_BITS_COLLISION) = IE_BITS_GEN bits"
    "IE_BITS_TYPE (bits OR IE_BITS_COLLISION) = IE_BITS_TYPE bits"
    by (simp_all add: IE_BITS_GEN_def IE_BITS_TYPE_def bit.conj_disj_distrib2 ipc_defs)
qed

lemma tree_names_delete:
  assumes "ist_wf tree" "splay.find tree name \<noteq> None"
  shows "fst ` set (ist_inorder (ipc_splay_tree_delete tree name)) = fst ` set (ist_inorder tree) - {name}"
    and "Suc (length (ist_inorder (ipc_splay_tree_delete tree name))) = length (ist_inorder tree)"
proof -
  show names: "fst ` set (ist_inorder (ipc_splay_tree_delete tree name)) = fst ` set (ist_inorder tree) - {name}"
    using splay.delete_set [OF assms] by force
  have card: "card (fst ` set (ist_inorder t)) = length (ist_inorder t)" if "ist_wf t" for t
    using ascending_distinct [OF splay.wf_sorted [OF that]] by (metis distinct_card image_set length_map)
  have "name \<in> fst ` set (ist_inorder tree)" using assms(2) by (simp add: map_of_eq_None_iff)
  then show "Suc (length (ist_inorder (ipc_splay_tree_delete tree name))) = length (ist_inorder tree)"
    using card [OF assms(1)] card [OF splay.delete_wf [OF assms]] names
    by (metis List.finite_set card_Suc_Diff1 finite_imageI)
qed

lemma word_of_nat_Suc_minus: "(of_nat (Suc n) :: 'a :: len word) - 1 = of_nat n"
  by simp

text \<open>A tree entry is deallocated: its name disappears and every other right stays.\<close>

lemma dealloc_tree_entry_form:
  assumes ok: "tree_ok its space" and n: "name \<in> tree_names space"
  shows "\<exists>tree table small. dealloc_tree_entry its space name =
      space\<lparr>is_tree := tree, is_tree_total := is_tree_total space - 1, is_table := table, is_tree_small := small\<rparr> \<and>
    ist_wf tree \<and> ist_inorder tree = ist_inorder (ipc_splay_tree_delete (is_tree space) name) \<and>
    (let last = (\<nexists>m. m \<in> tree_names space - {name} \<and> MACH_PORT_INDEX m = MACH_PORT_INDEX name);
         i = MACH_PORT_INDEX name; e = is_table space ! i in
     table = (if i < is_table_size space \<and> last
       then (is_table space)[i := e\<lparr>ie_bits := ie_bits e AND NOT IE_BITS_COLLISION\<rparr>] else is_table space) \<and>
     small = (if \<not> i < is_table_size space \<and> i < its ! is_table_next space \<and> last
       then is_tree_small space - 1 else is_tree_small space))"
proof -
  let ?t = "ipc_splay_tree_delete (is_tree space) name" and ?i = "MACH_PORT_INDEX name"
  have wf: "ist_wf (is_tree space)" and valid: "\<forall>m \<in> tree_names space. MACH_PORT_VALID m"
    using ok by (auto simp: tree_ok_def)
  have f: "splay.find (is_tree space) name \<noteq> None" using n tree_map_iff by blast
  define space1 where "space1 = space\<lparr>is_tree := ?t, is_tree_total := is_tree_total space - 1\<rparr>"
  have names: "tree_names space1 = tree_names space - {name}"
    using tree_names_delete(1) [OF wf f] by (simp add: tree_names_def space1_def)
  have wf1: "ist_wf (is_tree space1)" using splay.delete_wf [OF wf f] by (simp add: space1_def)
  have "\<forall>m \<in> tree_names space1. MACH_PORT_VALID m" using valid names by simp
  note c = tree_collision_correct [OF wf1 this, of name]
  obtain tree where t: "snd (ipc_entry_tree_collision space1 name) = space1\<lparr>is_tree := tree\<rparr>"
      "ist_wf tree" "ist_inorder tree = ist_inorder ?t" using c(2) by (auto simp: space1_def)
  obtain col where col: "ipc_entry_tree_collision space1 name = (col, space1\<lparr>is_tree := tree\<rparr>)"
      "col \<longleftrightarrow> (\<exists>m. m \<in> tree_names space - {name} \<and> MACH_PORT_INDEX m = ?i)"
    using t(1) c(1) names by (cases "ipc_entry_tree_collision space1 name") auto
  have sz: "is_table_size space1 = is_table_size space" "is_table_next space1 = is_table_next space"
    by (simp_all add: space1_def)
  consider "?i < is_table_size space" | "\<not> ?i < is_table_size space" "?i < its ! is_table_next space"
    | "\<not> ?i < is_table_size space" "\<not> ?i < its ! is_table_next space" by blast
  then show ?thesis
  proof cases
    case 3
    then show ?thesis
      using wf1 by (intro exI [of _ ?t] exI [of _ "is_table space"] exI [of _ "is_tree_small space"])
        (simp add: dealloc_tree_entry_def space1_def)
  next
    case 1
    then have "dealloc_tree_entry its space name = (if col then space1\<lparr>is_tree := tree\<rparr>
        else space1\<lparr>is_tree := tree, is_table := (is_table space)[?i := (is_table space ! ?i)\<lparr>
          ie_bits := ie_bits (is_table space ! ?i) AND NOT IE_BITS_COLLISION\<rparr>]\<rparr>)"
      using col(1) by (simp add: dealloc_tree_entry_def Let_def space1_def)
    then show ?thesis
    proof (cases col)
      case True
      with 1 col(2) t \<open>dealloc_tree_entry its space name = _\<close> show ?thesis
        by (intro exI [of _ tree] exI [of _ "is_table space"] exI [of _ "is_tree_small space"])
          (simp add: Let_def space1_def)
    next
      case False
      with 1 col(2) t \<open>dealloc_tree_entry its space name = _\<close> show ?thesis
        by (intro exI [of _ tree] exI [of _ "(is_table space)[?i := (is_table space ! ?i)\<lparr>
          ie_bits := ie_bits (is_table space ! ?i) AND NOT IE_BITS_COLLISION\<rparr>]"] exI [of _ "is_tree_small space"])
          (simp add: Let_def space1_def)
    qed
  next
    case 2
    then have "dealloc_tree_entry its space name = (if col then space1\<lparr>is_tree := tree\<rparr>
        else space1\<lparr>is_tree := tree, is_tree_small := is_tree_small space - 1\<rparr>)"
      using col(1) by (simp add: dealloc_tree_entry_def Let_def space1_def)
    then show ?thesis
    proof (cases col)
      case True
      with 2 col(2) t \<open>dealloc_tree_entry its space name = _\<close> show ?thesis
        by (intro exI [of _ tree] exI [of _ "is_table space"] exI [of _ "is_tree_small space"])
          (simp add: Let_def space1_def)
    next
      case False
      with 2 col(2) t \<open>dealloc_tree_entry its space name = _\<close> show ?thesis
        by (intro exI [of _ tree] exI [of _ "is_table space"] exI [of _ "is_tree_small space - 1"])
          (simp add: Let_def space1_def)
    qed
  qed
qed

section \<open>Filling an allocated entry\<close>

text \<open>The invariant while the slots \<open>pending\<close> are allocated but have no right yet.\<close>

definition space_pending :: "nat list \<Rightarrow> ipc_space \<Rightarrow> nat set \<Rightarrow> nat list \<Rightarrow> bool" where
  "space_pending its space pending xs \<longleftrightarrow> sizes_ok its space \<and> tree_ok its space \<and>
     type_of (is_table space ! 0) = 0 \<and> free_list_ok (is_table space) pending xs"

lemma space_ok_pending: "space_ok its space xs \<longleftrightarrow> space_pending its space {} xs"
  by (simp add: space_ok_def space_pending_def)

lemma free_list_fill:
  assumes "free_list_ok table (insert x pending) xs" "0 < x" "x < length table" "type_of e \<noteq> 0"
  shows "free_list_ok (table[x := e]) pending xs"
proof -
  note F = free_list_okD [OF assms(1)]
  have x: "x \<notin> set xs" using F(4) by simp
  have "free_chain (table[x := e]) 0 xs \<longleftrightarrow> free_chain table 0 xs"
    proof (rule free_chain_cong, rule ballI)
    fix j assume "j \<in> insert 0 (set xs)"
    then have "j \<noteq> x" using x assms(2) by auto
    then show "ie_next (table[x := e] ! j) = ie_next (table ! j)" by simp
  qed
  moreover have "set xs = {i. 0 < i \<and> i < length (table[x := e]) \<and> type_of (table[x := e] ! i) = 0} - pending"
    using F(4) assms(2-4) by (auto simp: nth_list_update split: if_splits)
  moreover have "\<forall>i \<in> set xs. ie_bits (table[x := e] ! i) AND NOT IE_BITS_GEN_MASK = 0 \<and>
      ie_object (table[x := e] ! i) = IO_NULL"
    using F(5,6) x by (metis nth_list_update_neq)
  ultimately show ?thesis using F(1-3) by (simp add: free_list_ok_def)
qed

lemma fill_entry:
  assumes ok: "space_pending its space (insert x pending) xs" and x: "0 < x" "x < is_table_size space"
    and old: "type_of (is_table space ! x) = 0" and new: "type_of e \<noteq> 0" "gen_of e = gen_of (is_table space ! x)"
      "collides e \<longleftrightarrow> collides (is_table space ! x)"
  shows "space_pending its (put_entry space (TableEntry x) e) pending xs"
    and "space_map (put_entry space (TableEntry x) e) =
      (space_map space)(MACH_PORT_MAKEB x (ie_bits e) \<mapsto> e)"
proof -
  have S: "sizes_ok its space" "tree_ok its space" "type_of (is_table space ! 0) = 0"
      "free_list_ok (is_table space) (insert x pending) xs" using ok by (auto simp: space_pending_def)
  have "tree_ok its (space\<lparr>is_table := (is_table space)[x := e]\<rparr>)"
  proof (rule tree_ok_table_update [OF S(2)])
    show "collides ((is_table space)[x := e] ! i) \<longleftrightarrow> collides (is_table space ! i)" if "i < is_table_size space" for i
      using that new(3) by (cases "i = x") simp_all
    show "gen_of ((is_table space)[x := e] ! MACH_PORT_INDEX n) \<noteq> MACH_PORT_GEN n"
      if "n \<in> tree_names space" "MACH_PORT_INDEX n < is_table_size space" for n
      using that new(2) tree_ok_gen [OF S(2) that] by (cases "MACH_PORT_INDEX n = x") simp_all
  qed simp
  then show "space_pending its (put_entry space (TableEntry x) e) pending xs"
    using S x free_list_fill [OF S(4) x new(1)] by (simp add: space_pending_def sizes_ok_def)
  have b: "x < 2 ^ 24" using table_index_bound [OF S(1) x(2)] by simp
  let ?n = "MACH_PORT_MAKEB x (ie_bits e)"
  have n: "MACH_PORT_INDEX ?n = x" "MACH_PORT_GEN ?n = gen_of e" using b by (simp_all add: MACH_PORT_MAKEB_def)
  show "space_map (put_entry space (TableEntry x) e) = (space_map space)(?n \<mapsto> e)"
  proof
    fix m
    have m: "m = ?n \<longleftrightarrow> MACH_PORT_INDEX m = x \<and> MACH_PORT_GEN m = gen_of e" using n by (metis name_eq_iff)
    show "space_map (put_entry space (TableEntry x) e) m = ((space_map space)(?n \<mapsto> e)) m"
    proof (cases "MACH_PORT_INDEX m = x")
      case True
      then show ?thesis using x m old new(1) by (simp add: space_map_def Let_def)
    next
      case False
      then show ?thesis using m by (simp add: space_map_def Let_def)
    qed
  qed
qed

section \<open>Entries of the tree\<close>

text \<open>
  The rights of a space: the entries without what is only bookkeeping of the table (generation,
  collision bit and hash index).
\<close>

definition right_of :: "ipc_entry \<Rightarrow> natural_t \<times> ipc_object_t \<times> nat" where
  "right_of e = (ie_bits e AND IE_BITS_RIGHT_MASK, ie_object e, ie_request e)"

definition rights :: "ipc_space \<Rightarrow> mach_port_t \<rightharpoonup> natural_t \<times> ipc_object_t \<times> nat" where
  "rights space name = map_option right_of (space_map space name)"

lemma right_of_collision [simp]:
  "right_of (e\<lparr>ie_bits := ie_bits e AND NOT IE_BITS_COLLISION\<rparr>) = right_of e"
  "right_of (e\<lparr>ie_bits := ie_bits e OR IE_BITS_COLLISION\<rparr>) = right_of e"
  by (simp_all add: right_of_def and.assoc bit.conj_disj_distrib2 ipc_defs)

lemma rights_tree_change:
  assumes "is_table_size space' = is_table_size space"
    and "\<And>i. i < is_table_size space \<Longrightarrow> is_table space' ! i = is_table space ! i \<or>
      is_table space' ! i = (is_table space ! i)\<lparr>ie_bits := ie_bits (is_table space ! i) AND NOT IE_BITS_COLLISION\<rparr> \<or>
      is_table space' ! i = (is_table space ! i)\<lparr>ie_bits := ie_bits (is_table space ! i) OR IE_BITS_COLLISION\<rparr>"
    and "ist_map (is_tree space') name = ist_map (is_tree space) name"
  shows "rights space' name = rights space name"
proof (cases "MACH_PORT_INDEX name < is_table_size space")
  case True
  from assms(2) [OF this] show ?thesis
    using assms(1,3) True bits_clear_collision(2,3) bits_set_collision(2,3)
    by (elim disjE) (simp_all add: rights_def space_map_def Let_def)
next
  case False
  with assms show ?thesis by (simp add: rights_def space_map_def Let_def)
qed


lemma free_list_bits:
  assumes "free_list_ok table pending xs" "i \<notin> set xs" "i < length table"
    and "type_of e = type_of (table ! i)" "i = 0 \<Longrightarrow> ie_next e = ie_next (table ! i)"
  shows "free_list_ok (table[i := e]) pending xs"
proof -
  note F = free_list_okD [OF assms(1)]
  have "free_chain (table[i := e]) 0 xs \<longleftrightarrow> free_chain table 0 xs"
  proof (rule free_chain_cong, rule ballI)
    fix j assume "j \<in> insert 0 (set xs)"
    then have "j = i \<Longrightarrow> i = 0" using assms(2) by blast
    then show "ie_next (table[i := e] ! j) = ie_next (table ! j)" using assms(3,5) by (cases "j = i") simp_all
  qed
  moreover have "type_of (table[i := e] ! j) = type_of (table ! j)" for j
    using assms(3,4) by (cases "j = i") simp_all
  moreover have "\<forall>j \<in> set xs. ie_bits (table[i := e] ! j) AND NOT IE_BITS_GEN_MASK = 0 \<and>
      ie_object (table[i := e] ! j) = IO_NULL"
    using F(5,6) assms(2) by (metis nth_list_update_neq)
  ultimately show ?thesis using F(1-4) by (simp add: free_list_ok_def)
qed

lemma of_nat_card_minus:
  "finite A \<Longrightarrow> x \<in> A \<Longrightarrow> of_nat (card (A - {x})) = (of_nat (card A) :: 'a :: len word) - 1"
  by (subst card_Suc_Diff1 [symmetric, of A x]) simp_all

lemma index_image_delete:
  "f ` (N - {x}) = (if \<exists>m. m \<in> N - {x} \<and> f m = f x then f ` N else f ` N - {f x})" if "x \<in> N"
proof (cases "\<exists>m. m \<in> N - {x} \<and> f m = f x")
  case True
  then obtain m where m: "m \<in> N - {x}" "f m = f x" by blast
  then have "f x \<in> f ` (N - {x})" by (metis imageI)
  then have "f ` N = f ` (N - {x})" using that by (metis image_insert insert_Diff insert_absorb)
  with True show ?thesis by simp
qed auto

lemma dealloc_tree_correct:
  assumes ok: "space_pending its space pending xs" and n: "name \<in> tree_names space"
  shows "space_pending its (dealloc_tree_entry its space name) pending xs"
    and "rights (dealloc_tree_entry its space name) = (rights space)(name := None)"
proof -
  have S: "sizes_ok its space" "tree_ok its space" "type_of (is_table space ! 0) = 0"
      "free_list_ok (is_table space) pending xs" using ok by (auto simp: space_pending_def)
  define i where "i = MACH_PORT_INDEX name"
  define other where "other \<longleftrightarrow> (\<exists>m. m \<in> tree_names space - {name} \<and> MACH_PORT_INDEX m = i)"
  obtain tree table small where d: "dealloc_tree_entry its space name = space\<lparr>is_tree := tree,
        is_tree_total := is_tree_total space - 1, is_table := table, is_tree_small := small\<rparr>"
      "ist_wf tree" "ist_inorder tree = ist_inorder (ipc_splay_tree_delete (is_tree space) name)"
      "table = (if i < is_table_size space \<and> \<not> other then (is_table space)[i :=
          (is_table space ! i)\<lparr>ie_bits := ie_bits (is_table space ! i) AND NOT IE_BITS_COLLISION\<rparr>] else is_table space)"
      "small = (if \<not> i < is_table_size space \<and> i < its ! is_table_next space \<and> \<not> other
         then is_tree_small space - 1 else is_tree_small space)"
    using dealloc_tree_entry_form [OF S(2) n] unfolding Let_def i_def [symmetric] other_def [symmetric]
    by (elim exE conjE) (rule that)
  have wf: "ist_wf (is_tree space)" using S(2) by (simp add: tree_ok_def)
  have f: "splay.find (is_tree space) name \<noteq> None" using n tree_map_iff by blast
  have names: "fst ` set (ist_inorder tree) = tree_names space - {name}"
    and len: "Suc (length (ist_inorder tree)) = length (ist_inorder (is_tree space))"
    using tree_names_delete [OF wf f] d(3) by (simp_all add: tree_names_def)
  have free: "free_list_ok table pending xs"
  proof (cases "i < is_table_size space \<and> \<not> other")
    case True
    then have "i \<notin> set xs" using no_tree_name_at_free [OF S(2) S(4) _ n] by (auto simp: i_def)
    then show ?thesis using True d(4) free_list_bits [OF S(4)] bits_clear_collision(3) by simp
  qed (use S(4) d(4) in auto)
  have tbl: "length table = is_table_size space"
      "\<And>j. j < is_table_size space \<Longrightarrow> table ! j = (if j = i \<and> \<not> other then
         (is_table space ! i)\<lparr>ie_bits := ie_bits (is_table space ! i) AND NOT IE_BITS_COLLISION\<rparr> else is_table space ! j)"
    using d(4) by (auto simp: nth_list_update)
  have img: "MACH_PORT_INDEX ` (tree_names space - {name}) =
      (if other then MACH_PORT_INDEX ` tree_names space else MACH_PORT_INDEX ` tree_names space - {i})"
    using index_image_delete [OF n, of MACH_PORT_INDEX] unfolding i_def [symmetric] other_def [symmetric] .
  have coll: "collides (table ! j) \<longleftrightarrow> (\<exists>m \<in> tree_names space - {name}. MACH_PORT_INDEX m = j)"
    if j: "j < is_table_size space" for j
  proof -
    have old: "collides (is_table space ! j) \<longleftrightarrow> j \<in> MACH_PORT_INDEX ` tree_names space"
      using S(2) j by (auto simp: tree_ok_def)
    have "collides (table ! j) \<longleftrightarrow> j \<in> MACH_PORT_INDEX ` (tree_names space - {name})"
      using tbl(2) [OF j] old img bits_clear_collision(1) by (simp add: collides_def)
    then show ?thesis by auto
  qed
  have gens: "gen_of (table ! j) = gen_of (is_table space ! j)" "type_of (table ! j) = type_of (is_table space ! j)"
    if "j < is_table_size space" for j
    using tbl(2) [OF that] bits_clear_collision(2,3) by simp_all
  show "rights (dealloc_tree_entry its space name) = (rights space)(name := None)"
  proof
    fix m
    show "rights (dealloc_tree_entry its space name) m = ((rights space)(name := None)) m"
    proof (cases "m = name")
      case True
      have "ist_map tree name = None" using names by (simp add: map_of_eq_None_iff)
      moreover have "i < is_table_size space \<Longrightarrow> gen_of (table ! i) \<noteq> MACH_PORT_GEN name"
        using gens(1) tree_ok_gen [OF S(2) n] by (simp add: i_def)
      ultimately show ?thesis
        using True d(1) tbl(1) by (auto simp: rights_def space_map_def Let_def i_def)
    next
      case False
      have "rights (dealloc_tree_entry its space name) m = rights space m"
        by (rule rights_tree_change)
          (use d(1,3) tbl splay.find_delete [OF wf f] False in \<open>auto split: if_splits\<close>)
      with False show ?thesis by simp
    qed
  qed
  show "space_pending its (dealloc_tree_entry its space name) pending xs"
  proof -
    have "is_tree_small space = of_nat (card (small_indices its space (tree_names space)))"
      using S(2) by (simp add: tree_ok_def)
    moreover have "small_indices its space (tree_names space - {name}) =
        (if \<not> i < is_table_size space \<and> i < its ! is_table_next space \<and> \<not> other
         then small_indices its space (tree_names space) - {i} else small_indices its space (tree_names space))"
      unfolding img by auto
    moreover have "i \<in> small_indices its space (tree_names space)" if "\<not> i < is_table_size space" "i < its ! is_table_next space"
      using that n by (auto simp: i_def)
    moreover have "finite (small_indices its space (tree_names space))" by simp
    ultimately have "small = of_nat (card (small_indices its space (tree_names space - {name})))"
      using d(5) of_nat_card_minus [of "small_indices its space (tree_names space)" i, where ?'a = 32]
      by (auto split: if_splits)
    moreover have "is_tree_total space - 1 = of_nat (length (ist_inorder tree))"
      "length (ist_inorder tree) < 2 ^ 32"
    proof -
      have "is_tree_total space = of_nat (Suc (length (ist_inorder tree)))" "Suc (length (ist_inorder tree)) < 2 ^ 32"
        using S(2) len unfolding tree_ok_def by simp_all
      then show "is_tree_total space - 1 = of_nat (length (ist_inorder tree))"
        "length (ist_inorder tree) < 2 ^ 32" by simp_all
    qed
    moreover have "\<forall>m \<in> tree_names space - {name}. MACH_PORT_VALID m \<and>
        (MACH_PORT_INDEX m < is_table_size space \<longrightarrow> gen_of (is_table space ! MACH_PORT_INDEX m) \<noteq> MACH_PORT_GEN m)"
      using S(2) by (simp add: tree_ok_def)
    ultimately have "tree_ok its (dealloc_tree_entry its space name)"
      using names coll gens tbl(1) d(1,2) by (simp add: tree_ok_def tree_names_def)
    moreover have "type_of (table ! 0) = 0" using gens(2) [of 0] free_list_okD(1) [OF S(4)] S(3) by simp
    ultimately show ?thesis
      using S free d(1) tbl(1) by (simp add: space_pending_def sizes_ok_def)
  qed
qed


text \<open>A name is entered into the tree: it has an entry without a right, and every other right stays.\<close>

lemma alloc_tree_entry_form:
  assumes wf: "ist_wf (is_tree space)" and valid: "\<forall>n \<in> tree_names space. MACH_PORT_VALID n"
    and n: "name \<notin> tree_names space"
  defines "i \<equiv> MACH_PORT_INDEX name"
  defines "other \<equiv> \<exists>m \<in> tree_names space. MACH_PORT_INDEX m = MACH_PORT_INDEX name"
  shows "\<exists>tree. alloc_tree_entry its space name = space\<lparr>is_tree := tree, is_tree_total := is_tree_total space + 1,
      is_table := (if i < is_table_size space then (is_table space)[i :=
          (is_table space ! i)\<lparr>ie_bits := ie_bits (is_table space ! i) OR IE_BITS_COLLISION\<rparr>] else is_table space),
      is_tree_small := (if \<not> i < is_table_size space \<and> i < its ! is_table_next space \<and> \<not> other
         then is_tree_small space + 1 else is_tree_small space)\<rparr> \<and>
    ist_wf tree \<and> set (ist_inorder tree) = insert (name, zero_entry) (set (ist_inorder (is_tree space))) \<and>
    length (ist_inorder tree) = Suc (length (ist_inorder (is_tree space))) \<and>
    (\<forall>m. m \<noteq> name \<longrightarrow> ist_map tree m = ist_map (is_tree space) m) \<and> ist_map tree name = Some zero_entry"
proof -
  define space1 where "space1 = space\<lparr>is_tree_total := is_tree_total space + 1\<rparr>"
  have s1: "is_tree space1 = is_tree space" "tree_names space1 = tree_names space"
    by (simp_all add: space1_def tree_names_def)
  note c = tree_collision_correct [of space1 name, unfolded s1, OF wf valid]
  obtain tree where t: "ipc_entry_tree_collision space1 name = (other, space1\<lparr>is_tree := tree\<rparr>)"
      "ist_wf tree" "ist_inorder tree = ist_inorder (is_tree space)"
    using c unfolding other_def by (cases "ipc_entry_tree_collision space1 name") auto
  have new: "ist_wf (ipc_splay_tree_insert t name zero_entry) \<and>
      set (ist_inorder (ipc_splay_tree_insert t name zero_entry)) = insert (name, zero_entry) (set (ist_inorder (is_tree space))) \<and>
      length (ist_inorder (ipc_splay_tree_insert t name zero_entry)) = Suc (length (ist_inorder (is_tree space))) \<and>
      (\<forall>m. m \<noteq> name \<longrightarrow> ist_map (ipc_splay_tree_insert t name zero_entry) m = ist_map (is_tree space) m) \<and>
      ist_map (ipc_splay_tree_insert t name zero_entry) name = Some zero_entry"
    if "ist_wf t" "ist_inorder t = ist_inorder (is_tree space)" for t
  proof -
    have f: "splay.find t name = None" using n that(2) tree_map_iff [of space name] by simp
    have "card (fst ` set (ist_inorder t)) = length (ist_inorder t)" if "ist_wf t" for t
      using ascending_distinct [OF splay.wf_sorted [OF that]] by (metis distinct_card image_set length_map)
    note card = this [OF that(1)] this [OF splay.insert_wf [OF that(1) f, of zero_entry]]
    show ?thesis
      using splay.insert_wf [OF that(1) f] splay.insert_set [OF that(1) f, of zero_entry]
        splay.find_insert [OF that(1) f, of zero_entry] that(2) n card
      by (simp add: tree_names_def)
  qed
  consider "i < is_table_size space" | "\<not> i < is_table_size space" "i < its ! is_table_next space"
    | "\<not> i < is_table_size space" "\<not> i < its ! is_table_next space" by blast
  then show ?thesis
  proof cases
    case 2
    then have "alloc_tree_entry its space name = (if other then space1\<lparr>is_tree := ipc_splay_tree_insert tree name zero_entry\<rparr>
        else space1\<lparr>is_tree := ipc_splay_tree_insert tree name zero_entry, is_tree_small := is_tree_small space + 1\<rparr>)"
      using t(1) by (simp add: alloc_tree_entry_def Let_def i_def flip: space1_def) (simp add: space1_def)
    with 2 new [OF t(2,3)] show ?thesis
      by (intro exI [of _ "ipc_splay_tree_insert tree name zero_entry"]) (simp add: space1_def)
  qed (use new [OF wf refl] in \<open>intro exI [of _ "ipc_splay_tree_insert (is_tree space) name zero_entry"],
        simp add: alloc_tree_entry_def Let_def i_def\<close>)+
qed


lemma alloc_tree_correct:
  assumes ok: "space_pending its space pending xs" and n: "name \<notin> tree_names space" "MACH_PORT_VALID name"
    and free: "MACH_PORT_INDEX name \<notin> set xs"
    and gen: "MACH_PORT_INDEX name < is_table_size space \<Longrightarrow>
      gen_of (is_table space ! MACH_PORT_INDEX name) \<noteq> MACH_PORT_GEN name"
    and few: "Suc (length (ist_inorder (is_tree space))) < 2 ^ 32"
  shows "space_pending its (alloc_tree_entry its space name) pending xs"
    and "rights (alloc_tree_entry its space name) = (rights space)(name \<mapsto> right_of zero_entry)"
proof -
  have S: "sizes_ok its space" "tree_ok its space" "type_of (is_table space ! 0) = 0"
      "free_list_ok (is_table space) pending xs" using ok by (auto simp: space_pending_def)
  define i where "i = MACH_PORT_INDEX name"
  define other where "other \<longleftrightarrow> (\<exists>m \<in> tree_names space. MACH_PORT_INDEX m = i)"
  let ?e = "(is_table space ! i)\<lparr>ie_bits := ie_bits (is_table space ! i) OR IE_BITS_COLLISION\<rparr>"
  define table where "table = (if i < is_table_size space then (is_table space)[i := ?e] else is_table space)"
  define small where "small = (if \<not> i < is_table_size space \<and> i < its ! is_table_next space \<and> \<not> other
         then is_tree_small space + 1 else is_tree_small space)"
  have wf: "ist_wf (is_tree space)" "\<forall>m \<in> tree_names space. MACH_PORT_VALID m" using S(2) by (auto simp: tree_ok_def)
  obtain tree where d: "alloc_tree_entry its space name = space\<lparr>is_tree := tree,
        is_tree_total := is_tree_total space + 1, is_table := table, is_tree_small := small\<rparr>"
      "ist_wf tree" "set (ist_inorder tree) = insert (name, zero_entry) (set (ist_inorder (is_tree space)))"
      "length (ist_inorder tree) = Suc (length (ist_inorder (is_tree space)))"
      "\<And>m. m \<noteq> name \<Longrightarrow> ist_map tree m = ist_map (is_tree space) m" "ist_map tree name = Some zero_entry"
    using alloc_tree_entry_form [OF wf n(1), of its]
    unfolding i_def [symmetric] other_def [symmetric] table_def [symmetric] small_def [symmetric]
    by (elim exE conjE) (rule that; blast)
  have names: "fst ` set (ist_inorder tree) = insert name (tree_names space)" using d(3) by (simp add: tree_names_def)
  have fl: "free_list_ok table pending xs"
    using free_list_bits [OF S(4), of i ?e] free S(4) bits_set_collision(3) by (simp add: table_def i_def)
  have tbl: "length table = is_table_size space"
      "\<And>j. j < is_table_size space \<Longrightarrow> table ! j = (if j = i then ?e else is_table space ! j)"
    by (auto simp: table_def nth_list_update)
  have coll: "collides (table ! j) \<longleftrightarrow> (\<exists>m \<in> insert name (tree_names space). MACH_PORT_INDEX m = j)"
    if "j < is_table_size space" for j
    using that tbl(2) [OF that] S(2) bits_set_collision(1) by (auto simp: tree_ok_def collides_def i_def)
  have gens: "gen_of (table ! j) = gen_of (is_table space ! j)" "type_of (table ! j) = type_of (is_table space ! j)"
    if "j < is_table_size space" for j
    using tbl(2) [OF that] bits_set_collision(2,3) by simp_all
  show "rights (alloc_tree_entry its space name) = (rights space)(name \<mapsto> right_of zero_entry)"
  proof
    fix m
    show "rights (alloc_tree_entry its space name) m = ((rights space)(name \<mapsto> right_of zero_entry)) m"
    proof (cases "m = name")
      case True
      then show ?thesis using d(1,6) tbl(1) gens(1) [of i] gen
        by (auto simp: rights_def space_map_def Let_def i_def)
    next
      case False
      have "rights (alloc_tree_entry its space name) m = rights space m"
        by (rule rights_tree_change) (use d(1) d(5) tbl False in auto)
      with False show ?thesis by simp
    qed
  qed
  have "small_indices its space (insert name (tree_names space)) =
      (if \<not> i < is_table_size space \<and> i < its ! is_table_next space
       then insert i (small_indices its space (tree_names space)) else small_indices its space (tree_names space))"
    by (auto simp: i_def)
  moreover have "i \<in> small_indices its space (tree_names space) \<longleftrightarrow> other"
    if "\<not> i < is_table_size space" "i < its ! is_table_next space"
    using that by (auto simp: other_def)
  moreover have "is_tree_small space = of_nat (card (small_indices its space (tree_names space)))"
    using S(2) by (simp add: tree_ok_def)
  ultimately have "small = of_nat (card (small_indices its space (insert name (tree_names space))))"
    by (auto simp: small_def insert_absorb)
  moreover have "is_tree_total space + 1 = of_nat (length (ist_inorder tree))"
    "length (ist_inorder tree) < 2 ^ 32"
    using S(2) d(4) few unfolding tree_ok_def by simp_all
  ultimately have "tree_ok its (alloc_tree_entry its space name)"
    using S(2) names coll gens tbl(1) d(1,2) n(2) gen by (simp add: tree_ok_def tree_names_def i_def)
  moreover have "type_of (table ! 0) = 0" using gens(2) [of 0] free_list_okD(1) [OF S(4)] S(3) by simp
  ultimately show "space_pending its (alloc_tree_entry its space name) pending xs"
    using S fl d(1) tbl(1) by (simp add: space_pending_def sizes_ok_def)
qed

end
