(* ===== verification/Ipc_Space.thy ===== *)
theory Ipc_Space
  imports Ipc_Entry_Correct
begin

text \<open>
  The creation of spaces (\<open>ipc/ipc_space.c\<close>) and the life of an entry in a space: allocation of a
  fresh name, entering a right under it, deallocation and reuse of the slot; allocation under a name
  of the caller's choice.
\<close>

section \<open>Creation\<close>

text \<open>
  The initialisation loop of the new table. \<open>self\<close> is the address of the new space (\<open>None\<close>: no
  memory) and \<open>garbage\<close> what its memory held; \<open>is_fast\<close> is not initialised.
\<close>

definition new_table :: "nat \<Rightarrow> ipc_entry list" where
  "new_table new_size = (let table =
       map (\<lambda>index. zero_entry\<lparr>ie_bits := IE_BITS_GEN_MASK, ie_request := index + 1\<rparr>) [0..<new_size]
     in set_next table (new_size - 1) 0)"

definition ipc_space_create ::
  "nat list \<Rightarrow> (nat \<Rightarrow> bool) \<Rightarrow> ipc_space_t option \<Rightarrow> ipc_space \<Rightarrow> nat \<Rightarrow> kern_return_t \<times> ipc_space option" where
  "ipc_space_create its mem self garbage initial = (case self of
     None \<Rightarrow> (KERN_RESOURCE_SHORTAGE, None)
   | Some a \<Rightarrow>
      if \<not> mem (its ! initial) then (KERN_RESOURCE_SHORTAGE, None)
      else
        let table = new_table (its ! initial) in
        (KERN_SUCCESS, Some (garbage\<lparr>is_self := a, is_references := 2, is_active := True, is_growing := False,
            is_table := table, is_table_next := initial + 1,
            is_tree := ipc_splay_tree_init (is_tree garbage), is_tree_total := 0, is_tree_small := 0,
            is_tree_hash := 0\<rparr>)))"

definition ipc_space_create_special ::
  "ipc_space_t option \<Rightarrow> ipc_space \<Rightarrow> kern_return_t \<times> ipc_space option" where
  "ipc_space_create_special self garbage = (case self of
     None \<Rightarrow> (KERN_RESOURCE_SHORTAGE, None)
   | Some a \<Rightarrow> (KERN_SUCCESS, Some (garbage\<lparr>is_self := a, is_references := 1, is_active := False\<rparr>)))"

definition ipc_space_reference :: "ipc_space \<Rightarrow> ipc_space" where
  "ipc_space_reference space = space\<lparr>is_references := is_references space + 1\<rparr>"

text \<open>The result is \<open>None\<close> when the last reference is gone and the space is freed.\<close>

definition ipc_space_release :: "ipc_space \<Rightarrow> ipc_space option" where
  "ipc_space_release space =
     (if is_references space - 1 = 0 then None
      else Some (space\<lparr>is_references := is_references space - 1\<rparr>))"

lemma new_table_nth:
  "i < n \<Longrightarrow> new_table n ! i = zero_entry\<lparr>ie_bits := IE_BITS_GEN_MASK, ie_request := if Suc i = n then 0 else Suc i\<rparr>"
  by (auto simp: new_table_def set_next_def nth_list_update)

lemma length_new_table [simp]: "length (new_table n) = n"
  by (simp add: new_table_def Let_def)

lemma new_table_chain: "i < n \<Longrightarrow> free_chain (new_table n) i [Suc i..<n]"
proof (induction "n - i" arbitrary: i)
  case (Suc k)
  show ?case
  proof (cases "Suc i = n")
    case True
    then show ?thesis by (simp add: new_table_nth)
  next
    case False
    then have "Suc i < n" using Suc.prems by simp
    then have "[Suc i..<n] = Suc i # [Suc (Suc i)..<n]" by (simp add: upt_conv_Cons)
    moreover have "free_chain (new_table n) (Suc i) [Suc (Suc i)..<n]"
      by (rule Suc.hyps) (use Suc \<open>Suc i < n\<close> in simp_all)
    ultimately show ?thesis using Suc.prems False by (simp add: new_table_nth)
  qed
qed simp

lemma gen_mask_type: "IE_BITS_TYPE IE_BITS_GEN_MASK = 0" "IE_BITS_GEN_MASK AND IE_BITS_COLLISION = 0"
  by (simp_all add: IE_BITS_TYPE_def ipc_defs)

lemma new_table_free: "0 < n \<Longrightarrow> free_list_ok (new_table n) {} [1..<n]"
  using new_table_chain [of 0 n] gen_mask_type
  by (auto simp: free_list_ok_def new_table_nth zero_entry_def simp flip: length_greater_0_conv)

lemma new_space_ok:
  fixes garbage :: ipc_space and self :: ipc_space_t
  assumes "entries_sizes_ok its" "initial + 1 < length its"
  defines "space \<equiv> garbage\<lparr>is_self := self, is_references := 2, is_active := True, is_growing := False,
            is_table := new_table (its ! initial), is_table_next := initial + 1,
            is_tree := ipc_splay_tree_init (is_tree garbage), is_tree_total := 0, is_tree_small := 0, is_tree_hash := 0\<rparr>"
  shows "space_ok its space [1..<its ! initial]" "rights space = (\<lambda>_. None)" "local_table_ok (is_table space)"
proof -
  let ?n = "its ! initial" and ?tree = "ipc_splay_tree_init (is_tree garbage)"
  have n: "0 < ?n" using entries_sizes_bounds(1) [OF assms(1)] assms(2) by simp
  have tree: "ist_wf ?tree" "ist_inorder ?tree = []"
    by (simp_all add: ipc_splay_tree_init_def ist_wf_def ist_inorder_def)
  have names: "tree_names space = {}" "is_table space = new_table ?n" "is_table_size space = ?n"
    using tree by (simp_all add: tree_names_def space_def)
  have bits: "ie_bits (new_table ?n ! i) = IE_BITS_GEN_MASK" "ie_index (new_table ?n ! i) = 0" if "i < ?n" for i
    using that by (simp_all add: new_table_nth zero_entry_def)
  have "tree_ok its space"
    using tree names bits gen_mask_type(2) by (simp add: tree_ok_def collides_def) (simp add: space_def)
  moreover have "sizes_ok its space" using assms(1,2) names by (simp add: sizes_ok_def) (simp add: space_def)
  ultimately show "space_ok its space [1..<?n]"
    using new_table_free [OF n] names(2) bits(1) [OF n] gen_mask_type(1) by (simp add: space_ok_def)
  show "rights space = (\<lambda>_. None)"
    using names tree bits gen_mask_type(1)
    by (intro ext) (simp add: rights_def space_map_def Let_def, simp add: space_def)
  have "hashed (new_table ?n) = {}" using bits(2) by (auto simp: hashed_def in_set_conv_nth)
  then show "local_table_ok (is_table space)"
    using n bits(2) names(2) by (simp add: local_table_ok_def local_hash_ok_def flip: length_greater_0_conv)
qed

text \<open>
  C30: A new space is well-formed: every slot but the first is free, the free list gives them in
  ascending order, and the space has no right. Without memory for the space or its table the creation
  fails with KERN_RESOURCE_SHORTAGE.
\<close>

theorem ipc_space_create_ok:
  assumes "entries_sizes_ok its" "initial + 1 < length its"
  shows "ipc_space_create its mem None garbage initial = (KERN_RESOURCE_SHORTAGE, None)
    \<and> (\<not> mem (its ! initial) \<longrightarrow> ipc_space_create its mem (Some self) garbage initial = (KERN_RESOURCE_SHORTAGE, None))
    \<and> (mem (its ! initial) \<longrightarrow> (\<exists>space. ipc_space_create its mem (Some self) garbage initial = (KERN_SUCCESS, Some space) \<and>
        space_ok its space [1..<its ! initial] \<and> rights space = (\<lambda>_. None) \<and> is_active space \<and>
        local_table_ok (is_table space) \<and> is_references space = 2))"
  using new_space_ok [OF assms, of garbage self] by (simp add: ipc_space_create_def)


section \<open>Examples\<close>

text \<open>A space with a table of four slots, which is about to grow to eight.\<close>

definition example_sizes :: "nat list" where
  "example_sizes = [4, 8, 8]"

definition example_space :: ipc_space where
  "example_space = \<lparr>is_self = 0x1000, is_references = 2, is_active = True, is_growing = False,
     is_table = new_table 4, is_table_next = 1, is_tree = ist_raw, is_tree_total = 0,
     is_tree_small = 0, is_tree_hash = 0, is_fast = False\<rparr>"

lemma example_sizes_ok: "entries_sizes_ok example_sizes"
  by (simp add: entries_sizes_ok_def example_sizes_def)

lemma example_space_create:
  "ipc_space_create example_sizes (\<lambda>_. True) (Some 0x1000) example_space 0 = (KERN_SUCCESS, Some example_space)"
  by (simp add: ipc_space_create_def example_space_def example_sizes_def ipc_splay_tree_init_def ist_raw_def Let_def)

theorem ipc_space_create_ok_witness:
  "space_ok example_sizes example_space [1..<4] \<and> rights example_space 0x103 = None"
  using ipc_space_create_ok [OF example_sizes_ok, of 0 "\<lambda>_. True" example_space "0x1000"] example_space_create
  by (simp add: example_sizes_def)

lemma free_list_ok_code [code]:
  "free_list_ok table pending xs \<longleftrightarrow> table \<noteq> [] \<and> free_chain table 0 xs \<and> distinct xs \<and>
     set xs = set (filter (\<lambda>i. type_of (table ! i) = 0 \<and> i \<notin> pending) [1..<length table]) \<and>
     (\<forall>i \<in> set xs. ie_bits (table ! i) AND NOT IE_BITS_GEN_MASK = 0 \<and> ie_object (table ! i) = IO_NULL)"
proof -
  have "{i. 0 < i \<and> i < length table \<and> type_of (table ! i) = 0} - pending =
      set (filter (\<lambda>i. type_of (table ! i) = 0 \<and> i \<notin> pending) [1..<length table])" by auto
  then show ?thesis unfolding free_list_ok_def by metis
qed

lemma space_ok_empty_tree:
  assumes "sizes_ok its space" "ist_root (is_tree space) = ITE_NULL" "is_tree_total space = 0" "is_tree_small space = 0"
    and "list_all (\<lambda>e. \<not> collides e) (is_table space)" "type_of (is_table space ! 0) = 0"
    and "free_list_ok (is_table space) {} xs"
  shows "space_ok its space xs"
  using assms by (simp add: space_ok_def tree_ok_def tree_names_def ist_wf_def ist_inorder_def list_all_length)

lemma example_space_ok: "space_ok example_sizes example_space [1, 2, 3]"
proof (rule space_ok_empty_tree)
  show "sizes_ok example_sizes example_space"
    using example_sizes_ok by (simp add: sizes_ok_def example_space_def example_sizes_def)
  show "list_all (\<lambda>e. \<not> collides e) (is_table example_space)" "type_of (is_table example_space ! 0) = 0"
    "free_list_ok (is_table example_space) {} [1, 2, 3]" by code_simp+
qed (simp_all add: example_space_def ist_raw_def)

text \<open>The same space with a receive right whose port is gone, under the name 0x103.\<close>

definition example_space1 :: ipc_space where
  "example_space1 = example_space\<lparr>is_table :=
     [zero_entry\<lparr>ie_bits := 0xff000000, ie_request := 2\<rparr>, zero_entry\<lparr>ie_bits := 0x03020000\<rparr>,
      zero_entry\<lparr>ie_bits := 0xff000000, ie_request := 3\<rparr>, zero_entry\<lparr>ie_bits := 0xff000000\<rparr>]\<rparr>"

lemma example_space1_ok: "space_ok example_sizes example_space1 [2, 3]"
proof (rule space_ok_empty_tree)
  show "sizes_ok example_sizes example_space1"
    using example_sizes_ok by (simp add: sizes_ok_def example_space1_def example_space_def example_sizes_def)
  show "list_all (\<lambda>e. \<not> collides e) (is_table example_space1)" "type_of (is_table example_space1 ! 0) = 0"
    "free_list_ok (is_table example_space1) {} [2, 3]" by code_simp+
qed (simp_all add: example_space1_def example_space_def ist_raw_def)

section \<open>The life of a name\<close>

lemma masked_eq:
  assumes "(bits :: 'a :: len word) AND NOT m = 0"
  shows "bits AND m = bits" "bits AND k = bits AND (m AND k)"
proof -
  show b: "bits AND m = bits"
    using assms by (metis and.right_neutral bit.disj_cancel_right bit.conj_disj_distrib or.right_neutral)
  show "bits AND k = bits AND (m AND k)" by (subst (1) b [symmetric]) (rule and.assoc)
qed

lemma right_and_gen_bits:
  assumes bits: "bits AND NOT IE_BITS_RIGHT_MASK = 0" and gen: "gen AND NOT IE_BITS_GEN_MASK = 0"
  shows "IE_BITS_GEN (gen OR bits) = gen" "IE_BITS_TYPE (gen OR bits) = IE_BITS_TYPE bits"
    "(gen OR bits) AND IE_BITS_COLLISION = 0" "(gen OR bits) AND IE_BITS_RIGHT_MASK = bits"
proof -
  have z: "bits AND IE_BITS_GEN_MASK = 0" "bits AND IE_BITS_COLLISION = 0" "gen AND IE_BITS_TYPE_MASK = 0"
      "gen AND IE_BITS_COLLISION = 0" "gen AND IE_BITS_RIGHT_MASK = 0"
    using masked_eq(2) [OF bits, of IE_BITS_GEN_MASK] masked_eq(2) [OF bits, of IE_BITS_COLLISION]
      masked_eq(2) [OF gen, of IE_BITS_TYPE_MASK] masked_eq(2) [OF gen, of IE_BITS_COLLISION]
      masked_eq(2) [OF gen, of IE_BITS_RIGHT_MASK] by (simp_all add: ipc_defs)
  show "IE_BITS_GEN (gen OR bits) = gen" "IE_BITS_TYPE (gen OR bits) = IE_BITS_TYPE bits"
    "(gen OR bits) AND IE_BITS_COLLISION = 0" "(gen OR bits) AND IE_BITS_RIGHT_MASK = bits"
    unfolding IE_BITS_GEN_def IE_BITS_TYPE_def bit.conj_disj_distrib2 z masked_eq(1) [OF bits] masked_eq(1) [OF gen]
    by simp_all
qed

lemma entry_alloc_fresh:
  assumes ok: "space_ok its space (x # xs)" and active: "is_active space"
  shows "\<exists>name space'. ipc_entry_alloc its mem env (ghash, space) =
        Some (KERN_SUCCESS, Some (name, TableEntry x), ghash, space') \<and>
      MACH_PORT_VALID name \<and> rights space name = None \<and> rights space' = rights space \<and>
      (\<forall>bits obj. bits AND NOT IE_BITS_RIGHT_MASK = 0 \<and> IE_BITS_TYPE bits \<noteq> 0 \<longrightarrow>
         (let e = is_table space' ! x;
              space'' = put_entry space' (TableEntry x) (e\<lparr>ie_bits := ie_bits e OR bits, ie_object := obj\<rparr>)
          in space_ok its space'' xs \<and> rights space'' = (rights space)(name \<mapsto> (bits, obj, 0)))) \<and>
      MACH_PORT_INDEX name = x \<and> x < is_table_size space' \<and> ie_object (is_table space' ! x) = IO_NULL \<and>
      is_self space' = is_self space"
proof -
  have S: "sizes_ok its space" "tree_ok its space" "type_of (is_table space ! 0) = 0"
      "free_list_ok (is_table space) {} (x # xs)" using ok by (auto simp: space_ok_def)
  note F = free_list_okD [OF S(4)]
  let ?gen = "IE_BITS_NEW_GEN (ie_bits (is_table space ! x))"
  define name where "name = MACH_PORT_MAKE x ?gen"
  define space' where "space' = space\<lparr>is_table := get_table (is_table space) x\<rparr>"
  have x: "0 < x" "x < is_table_size space" "type_of (is_table space ! x) = 0" using F(7) [of x] by auto
  have "ipc_entry_alloc its mem env (ghash, space) = Some (KERN_SUCCESS, Some (name, TableEntry x), ghash, space')"
    using active entry_get_free [OF S(4)] by (subst ipc_entry_alloc.simps) (simp add: name_def space'_def)
  moreover have fresh: "space_map space name = None" "MACH_PORT_VALID name"
    using fresh_name [OF S(2,1,4)] by (simp_all add: name_def)
  moreover have "MACH_PORT_INDEX name = x" "x < is_table_size space'" "is_self space' = is_self space"
    using fresh_name(3) [OF S(2,1,4)] x by (simp_all add: name_def space'_def)
  moreover have map: "space_map space' = space_map space" unfolding space'_def by (rule get_keeps_map [OF S(4,3)])
  moreover have pending: "space_pending its space' {x} xs"
    using S(1,3) get_keeps_tree [OF S(2,4)] free_list_pop [OF S(4)] get_table_nth [of 0 "is_table space" x] x
    by (simp add: space_pending_def space'_def sizes_ok_def)
  moreover have e: "is_table space' ! x = (is_table space ! x)\<lparr>ie_bits := ?gen, ie_request := 0\<rparr>"
    using x by (simp add: space'_def get_table_nth)
  moreover have "ie_object (is_table space' ! x) = IO_NULL" using e F(6) by simp
  moreover have "space_ok its (put_entry space' (TableEntry x) e') xs \<and>
      rights (put_entry space' (TableEntry x) e') = (rights space)(name \<mapsto> (bits, obj, 0))"
    if bits: "bits AND NOT IE_BITS_RIGHT_MASK = 0" "IE_BITS_TYPE bits \<noteq> 0"
      and e': "e' = (is_table space' ! x)\<lparr>ie_bits := ie_bits (is_table space' ! x) OR bits, ie_object := obj\<rparr>"
    for bits obj e'
  proof -
    have old: "type_of (is_table space' ! x) = 0" "collides (is_table space' ! x) = False"
      using e gen_only_bits(1,2) [OF new_gen_only] by (simp_all add: collides_def)
    have new: "gen_of e' = ?gen" "type_of e' = IE_BITS_TYPE bits" "\<not> collides e'"
        "ie_bits e' AND IE_BITS_RIGHT_MASK = bits"
      using e e' right_and_gen_bits [OF bits(1) new_gen_only] by (simp_all add: collides_def)
    have "gen_of (is_table space' ! x) = ?gen" using e by simp
    note fill = fill_entry [OF pending x(1), of e'] 
    have "space_pending its (put_entry space' (TableEntry x) e') {} xs"
      "space_map (put_entry space' (TableEntry x) e') = (space_map space')(MACH_PORT_MAKEB x (ie_bits e') \<mapsto> e')"
      using fill new bits(2) old \<open>gen_of (is_table space' ! x) = ?gen\<close> x by (simp_all add: space'_def)
    moreover have "MACH_PORT_MAKEB x (ie_bits e') = name" using new(1) by (simp add: MACH_PORT_MAKEB_def name_def)
    ultimately show ?thesis
      using map new(4) e e' by (auto simp: space_ok_pending rights_def right_of_def)
  qed
  ultimately show ?thesis
    by (intro exI [of _ name] exI [of _ space']) (auto simp: rights_def Let_def)
qed

text \<open>
  C26: Allocation in a space with a free slot returns a valid name that had no entry and changes no
  right; entering a right of any type under the name keeps the space well-formed and adds exactly
  this right. The free list loses exactly this slot.
\<close>

theorem ipc_entry_alloc_fresh:
  assumes ok: "space_ok its space (x # xs)" and active: "is_active space"
  shows "\<exists>name space'. ipc_entry_alloc its mem env (ghash, space) =
        Some (KERN_SUCCESS, Some (name, TableEntry x), ghash, space') \<and>
      MACH_PORT_VALID name \<and> rights space name = None \<and> rights space' = rights space \<and>
      (\<forall>bits obj. bits AND NOT IE_BITS_RIGHT_MASK = 0 \<and> IE_BITS_TYPE bits \<noteq> 0 \<longrightarrow>
         (let e = is_table space' ! x;
              space'' = put_entry space' (TableEntry x) (e\<lparr>ie_bits := ie_bits e OR bits, ie_object := obj\<rparr>)
          in space_ok its space'' xs \<and> rights space'' = (rights space)(name \<mapsto> (bits, obj, 0))))"
  using entry_alloc_fresh [OF assms, of mem env ghash] by (elim exE conjE) (intro exI conjI; assumption)

theorem ipc_entry_alloc_fresh_witness:
  "\<exists>name space'. ipc_entry_alloc example_sizes (\<lambda>_. True) id ([], example_space) =
     Some (KERN_SUCCESS, Some (name, TableEntry 1), [], space') \<and> rights space' name = None"
proof -
  have "is_active example_space" by (simp add: example_space_def)
  from ipc_entry_alloc_fresh [OF example_space_ok this, of "\<lambda>_. True" id "[]"] show ?thesis by metis
qed

text \<open>
  C6: Deallocating a table entry whose right is gone and that no tree entry collides with removes
  exactly this name and puts the slot in front of the free list; the next allocation takes this slot
  again, but under a new name: a stale name does not reach the new right.
\<close>

theorem ipc_entry_dealloc_reuse:
  assumes ok: "space_ok its space xs" and active: "is_active space"
    and i: "0 < MACH_PORT_INDEX name" "MACH_PORT_INDEX name < is_table_size space"
    and e: "e = is_table space ! MACH_PORT_INDEX name" "gen_of e = MACH_PORT_GEN name" "type_of e \<noteq> 0"
      "\<not> collides e" "ie_object e = IO_NULL"
  shows "\<exists>space'. ipc_entry_dealloc its (ghash, space) name (TableEntry (MACH_PORT_INDEX name)) = Some (ghash, space') \<and>
      space_ok its space' (MACH_PORT_INDEX name # xs) \<and> rights space' = (rights space)(name := None) \<and>
      (\<exists>name' space''. ipc_entry_alloc its mem env (ghash, space') =
          Some (KERN_SUCCESS, Some (name', TableEntry (MACH_PORT_INDEX name)), ghash, space'') \<and>
        name' \<noteq> name \<and> MACH_PORT_INDEX name' = MACH_PORT_INDEX name)"
proof -
  have S: "sizes_ok its space" "tree_ok its space" "type_of (is_table space ! 0) = 0"
      "free_list_ok (is_table space) {} xs" using ok by (auto simp: space_ok_def)
  let ?i = "MACH_PORT_INDEX name"
  define space' where "space' = dealloc_to_free_list space ?i"
  have s': "is_table_size space' = is_table_size space" "is_table_next space' = is_table_next space"
      "is_active space' = is_active space"
    by (simp_all add: space'_def dealloc_to_free_list_def Let_def)
  have "ipc_entry_dealloc its (ghash, space) name (TableEntry ?i) = Some (ghash, space')"
    using i e by (simp add: ipc_entry_dealloc_def space'_def collides_def Let_def)
  moreover have ni: "?i \<notin> set xs" using free_list_okD(4) [OF S(4)] e by auto
  moreover have map: "space_map space' = (space_map space)(name := None)"
    unfolding space'_def using dealloc_map [OF S(2,4) i] e S(3) by simp
  moreover have ok': "space_ok its space' (?i # xs)"
    using S dealloc_keeps_tree [OF S(2,4) i] free_list_push [OF S(4) i ni] e s'
      dealloc_free_list_entry(3) [OF S(4) i]
    by (simp add: space_ok_def sizes_ok_def space'_def)
  moreover have "\<exists>name' space''. ipc_entry_alloc its mem env (ghash, space') =
          Some (KERN_SUCCESS, Some (name', TableEntry ?i), ghash, space'') \<and> name' \<noteq> name \<and> MACH_PORT_INDEX name' = ?i"
  proof -
    let ?gen = "IE_BITS_NEW_GEN (ie_bits (is_table space' ! ?i))"
    have F: "free_list_ok (is_table space') {} (?i # xs)" using ok' by (simp add: space_ok_def)
    have g: "ie_bits (is_table space' ! ?i) = MACH_PORT_GEN name"
      using dealloc_free_list_entry(1) [OF S(4) i] e by (simp add: space'_def IE_BITS_GEN_def)
    have gen: "IE_BITS_GEN (MACH_PORT_GEN name) = MACH_PORT_GEN name" using e(2) by (metis IE_BITS_GEN_idem)
    have "(m + 4) mod 256 \<noteq> m" for m :: nat
    proof (cases "m < 252")
      case False
      then have "(m + 4) mod 256 = (m - 252) mod 256" by (simp add: le_mod_geq)
      then show ?thesis using False mod_less_eq_dividend [of "m - 252" 256] by simp
    qed simp
    then have "?gen \<noteq> MACH_PORT_GEN name" unfolding g by (metis IE_BITS_NEW_GEN_number)
    moreover have "MACH_PORT_GEN (MACH_PORT_MAKE ?i ?gen) = ?gen" using MACH_PORT_INDEX_less [of name] by simp
    moreover have "ipc_entry_alloc its mem env (ghash, space') = Some (KERN_SUCCESS,
        Some (MACH_PORT_MAKE ?i ?gen, TableEntry ?i), ghash, space'\<lparr>is_table := get_table (is_table space') ?i\<rparr>)"
      using active s'(3) entry_get_free [OF F] by (subst ipc_entry_alloc.simps) simp
    moreover have "MACH_PORT_INDEX (MACH_PORT_MAKE ?i ?gen) = ?i" using MACH_PORT_INDEX_less [of name] by simp
    ultimately show ?thesis by metis
  qed
  ultimately show ?thesis by (intro exI [of _ space']) (auto simp: rights_def fun_eq_iff)
qed


theorem ipc_entry_dealloc_reuse_witness:
  "\<exists>space' name' space''. ipc_entry_dealloc example_sizes ([], example_space1) 0x103 (TableEntry 1) = Some ([], space') \<and>
     rights space' 0x103 = None \<and> ipc_entry_alloc example_sizes (\<lambda>_. True) id ([], space') =
       Some (KERN_SUCCESS, Some (name', TableEntry 1), [], space'') \<and> name' \<noteq> 0x103"
proof -
  have i: "MACH_PORT_INDEX 0x103 = 1" by code_simp
  have a: "is_active example_space1" by code_simp
  have b: "0 < MACH_PORT_INDEX 0x103" "MACH_PORT_INDEX 0x103 < is_table_size example_space1"
    by (simp_all add: i example_space1_def)
  have c: "gen_of (is_table example_space1 ! MACH_PORT_INDEX 0x103) = MACH_PORT_GEN 0x103"
    "type_of (is_table example_space1 ! MACH_PORT_INDEX 0x103) \<noteq> 0"
    "\<not> collides (is_table example_space1 ! MACH_PORT_INDEX 0x103)"
    "ie_object (is_table example_space1 ! MACH_PORT_INDEX 0x103) = IO_NULL" by code_simp+
  from ipc_entry_dealloc_reuse [OF example_space1_ok a b refl c, of "[]" "\<lambda>_. True" id] show ?thesis
    unfolding i by (metis fun_upd_same)
qed

section \<open>Names chosen by the caller\<close>

text \<open>
  Allocating a given name whose slot in the table is free takes this slot out of the middle of the
  free list, ends, and changes no right; the slot has the generation of the name, so that a right put
  there is found under the name. A dead space is refused with KERN_INVALID_TASK.
\<close>

theorem ipc_entry_alloc_name_table:
  assumes ok: "space_ok its space xs" and free: "MACH_PORT_INDEX name \<in> set xs"
  shows "(is_active space \<longrightarrow> (\<exists>space'. ipc_entry_alloc_name its mem ite env tentry (ghash, space) name =
          Some (KERN_SUCCESS, Some (TableEntry (MACH_PORT_INDEX name)), ghash, space') \<and>
        rights space' = rights space \<and> rights space name = None \<and>
        space_pending its space' {MACH_PORT_INDEX name} (remove1 (MACH_PORT_INDEX name) xs) \<and>
        (let e = is_table space' ! MACH_PORT_INDEX name in gen_of e = MACH_PORT_GEN name \<and> type_of e = 0 \<and> ie_request e = 0)))
    \<and> (\<not> is_active space \<longrightarrow> ipc_entry_alloc_name its mem ite env tentry (ghash, space) name =
          Some (KERN_INVALID_TASK, None, ghash, space))"
proof -
  have S: "sizes_ok its space" "tree_ok its space" "type_of (is_table space ! 0) = 0"
      "free_list_ok (is_table space) {} xs" using ok by (auto simp: space_ok_def)
  let ?i = "MACH_PORT_INDEX name" and ?table = "is_table space"
  note F = free_list_okD [OF S(4)]
  have i: "0 < ?i" "?i < length ?table" "type_of (?table ! ?i) = 0" using F(7) [OF free] by auto
  obtain table' where t: "unlink_free ?table ?i 0 = Some table'" "length table' = length ?table"
      "free_list_ok table' {?i} (remove1 ?i xs)"
      "\<And>j. j < length ?table \<Longrightarrow> table' ! j = (?table ! j)\<lparr>ie_request := ie_next (table' ! j)\<rparr>"
      "\<And>j. j < length ?table \<Longrightarrow> type_of (?table ! j) \<noteq> 0 \<Longrightarrow> j \<noteq> 0 \<Longrightarrow> table' ! j = ?table ! j"
    using free_list_unlink [OF S(4) free] by auto
  define e where "e = (table' ! ?i)\<lparr>ie_bits := MACH_PORT_GEN name, ie_request := 0\<rparr>"
  define space' where "space' = space\<lparr>is_table := table'[?i := e]\<rparr>"
  have gen: "IE_BITS_GEN (MACH_PORT_GEN name) = MACH_PORT_GEN name"
    using MACH_PORT_GEN_MAKE [of 0 "MACH_PORT_GEN name"] MACH_PORT_GEN_MAKE [of ?i "MACH_PORT_GEN name"]
      MACH_PORT_INDEX_less [of name] by simp
  have only: "MACH_PORT_GEN name AND NOT IE_BITS_GEN_MASK = 0" using gen gen_mask_only by (metis IE_BITS_GEN_def)
  have tab: "is_table space' ! j = (if j = ?i then e else table' ! j)" if "j < length ?table" for j
    using that t(2) by (simp add: space'_def nth_list_update)
  have bits: "ie_bits (table' ! j) = ie_bits (?table ! j)" if "j < length ?table" for j
    using t(4) [OF that] by (metis ipc_entry.select_convs(1) ipc_entry.surjective ipc_entry.update_convs(3))
  have e: "type_of e = 0" "\<not> collides e" "gen_of e = MACH_PORT_GEN name"
    using gen_only_bits [OF only] by (simp_all add: e_def collides_def)
  have "ie_next e = 0" by (simp add: e_def)
  have nc: "\<not> collides (?table ! ?i)" using gen_only_bits(2) [OF F(5) [OF free]] by (simp add: collides_def)
  have tree: "tree_ok its space'" unfolding space'_def
  proof (rule tree_ok_table_update [OF S(2)])
    show "collides (table'[?i := e] ! j) \<longleftrightarrow> collides (?table ! j)" if "j < is_table_size space" for j
      using tab [OF that] e(2) nc bits [OF that] by (auto simp: space'_def collides_def)
    fix n assume n: "n \<in> tree_names space" "MACH_PORT_INDEX n < is_table_size space"
    then have "MACH_PORT_INDEX n \<noteq> ?i" using no_tree_name_at_free [OF S(2,4) free] by simp
    with n tree_ok_gen [OF S(2) n] tab [OF n(2)] bits [OF n(2)]
    show "gen_of (table'[?i := e] ! MACH_PORT_INDEX n) \<noteq> MACH_PORT_GEN n" by (simp add: space'_def)
  qed (use t(2) in simp)
  have "free_list_ok (table'[?i := e]) {?i} (remove1 ?i xs)"
    by (rule free_list_bits [OF t(3)]) (use F(3) i t(2) e(1) bits in auto)
  moreover have "type_of (is_table space' ! 0) = 0"
    using tab [of 0] bits [of 0] S(3) i(1) F(1) by simp
  ultimately have pending: "space_pending its space' {?i} (remove1 ?i xs)"
    using S(1) tree t(2) by (simp add: space_pending_def sizes_ok_def space'_def)
  have map: "space_map space' n = space_map space n" for n
  proof (rule space_map_slot)
    assume n: "MACH_PORT_INDEX n < is_table_size space"
    show "is_table space' ! MACH_PORT_INDEX n = is_table space ! MACH_PORT_INDEX n \<or>
      type_of (is_table space' ! MACH_PORT_INDEX n) = 0 \<and> type_of (is_table space ! MACH_PORT_INDEX n) = 0"
      using tab [OF n] t(5) [OF n] bits [OF n] e(1) i(3) S(3) by (cases "MACH_PORT_INDEX n = 0") auto
  qed (use t(2) in \<open>simp_all add: space'_def\<close>)
  have "ist_map (is_tree space) name = None"
    using no_tree_name_at_free [OF S(2,4) free, of name] tree_map_iff [of space name] by blast
  then have none: "space_map space name = None" using i by (simp add: space_map_def Let_def)
  have run: "ipc_entry_alloc_name its mem ite env tentry (ghash, space) name =
      Some (KERN_SUCCESS, Some (TableEntry ?i), ghash, space')" if "is_active space"
    using that i t(1) by (subst ipc_entry_alloc_name.simps) (simp add: Let_def space'_def e_def)
  moreover have "\<not> is_active space \<Longrightarrow> ipc_entry_alloc_name its mem ite env tentry (ghash, space) name =
      Some (KERN_INVALID_TASK, None, ghash, space)"
    by (subst ipc_entry_alloc_name.simps) (simp add: Let_def)
  moreover have "is_table space' ! ?i = e" using tab [OF i(2)] by simp
  moreover have "rights space' = rights space" using map by (simp add: rights_def fun_eq_iff)
  ultimately show ?thesis
    using pending e none \<open>ie_next e = 0\<close> by (auto simp: rights_def Let_def)
qed

theorem ipc_entry_alloc_name_table_witness:
  "\<exists>space'. ipc_entry_alloc_name example_sizes (\<lambda>_. True) True id False ([], example_space) 0x207 =
     Some (KERN_SUCCESS, Some (TableEntry 2), [], space') \<and> space_pending example_sizes space' {2} [1, 3]"
proof -
  have i: "MACH_PORT_INDEX 0x207 = 2" "remove1 2 [1, 2, 3] = [1, 3 :: nat]" "is_active example_space" by code_simp+
  then have "MACH_PORT_INDEX 0x207 \<in> set [1, 2, 3]" by simp
  from ipc_entry_alloc_name_table [OF example_space_ok this, of "\<lambda>_. True" True id False "[]"] show ?thesis
    unfolding i using i(3) by auto
qed

text \<open>
  The condition under which the allocation of a name grows the table first: the index of the name lies
  in the next larger table, and the names of this kind in the tree take more memory than its new slots.
\<close>

definition grow_due :: "nat list \<Rightarrow> ipc_space \<Rightarrow> mach_port_t \<Rightarrow> bool" where
  "grow_due its space name \<longleftrightarrow> is_table_size space \<le> MACH_PORT_INDEX name \<and> MACH_PORT_INDEX name < its ! is_table_next space \<and>
     of_nat (its ! is_table_next space - is_table_size space) * sizeof_ipc_entry < (is_tree_small space + 1) * sizeof_ipc_tree_entry"

text \<open>One round of the allocation of a name without a slot of its own, which is not in the tree.\<close>

lemma alloc_name_round:
  assumes ok: "space_ok its space xs" and active: "is_active space"
    and n: "name \<notin> tree_names space" "MACH_PORT_INDEX name \<notin> set xs"
    and gen: "0 < MACH_PORT_INDEX name \<and> MACH_PORT_INDEX name < is_table_size space \<longrightarrow>
      gen_of (is_table space ! MACH_PORT_INDEX name) \<noteq> MACH_PORT_GEN name"
    and small: "\<not> grow_due its space name"
  obtains tree space1 where "space1 = space\<lparr>is_tree := tree\<rparr>" "ist_inorder tree = ist_inorder (is_tree space)"
    "space_ok its space1 xs" "rights space1 = rights space"
    "\<And>ite te. ipc_entry_alloc_name its mem ite env te (ghash, space) name =
      (if is_fast space then Some (KERN_FAILURE, None, ghash, space)
       else if te then Some (KERN_SUCCESS, Some (TreeEntry name), ghash, alloc_tree_entry its space1 name)
       else if \<not> ite then Some (KERN_RESOURCE_SHORTAGE, None, ghash, space1)
       else ipc_entry_alloc_name its mem ite env True (env (ghash, space1)) name)"
proof -
  let ?i = "MACH_PORT_INDEX name"
  have S: "tree_ok its space" "free_list_ok (is_table space) {} xs" using ok by (auto simp: space_ok_def)
  have not_slot: "\<not> (0 < ?i \<and> ?i < is_table_size space \<and> type_of (is_table space ! ?i) = 0)"
    using free_list_okD(4) [OF S(2)] n(2) by auto
  have not_own: "\<not> (0 < ?i \<and> ?i < is_table_size space \<and> type_of (is_table space ! ?i) \<noteq> 0 \<and> gen_of (is_table space ! ?i) = MACH_PORT_GEN name)"
    using gen by blast
  define space1 where "space1 = snd (if is_tree_total space > 0 then tree_lookup space name else (None, space))"
  have wf: "ist_wf (is_tree space)" using S(1) by (simp add: tree_ok_def)
  obtain tree where t: "space1 = space\<lparr>is_tree := tree\<rparr>" "ist_wf tree" "ist_inorder tree = ist_inorder (is_tree space)"
  proof (cases "is_tree_total space > 0")
    case True
    then show thesis using tree_lookup_correct [OF wf, of name] that by (auto simp: space1_def)
  next
    case False
    then show thesis using that [of "is_tree space"] wf by (simp add: space1_def)
  qed
  have look: "(if is_tree_total space > 0 then tree_lookup space name else (None, space)) = (None, space1)"
    using tree_lookup_correct [OF wf, of name] n(1) by (simp add: space1_def prod_eq_iff)
  have ok1: "space_ok its space1 xs" "rights space1 = rights space"
    using space_ok_tree_update [OF ok t(2,3)] t space_map_tree_update [OF t(3)] by (simp_all add: rights_def fun_eq_iff)
  have small: "\<not> (is_table_size space1 \<le> ?i \<and> ?i < its ! is_table_next space1 \<and>
      of_nat (its ! is_table_next space1 - is_table_size space1) * sizeof_ipc_entry
        < (is_tree_small space1 + 1) * sizeof_ipc_tree_entry)"
    using small t(1) by (auto simp: grow_due_def)
  have round: "ipc_entry_alloc_name its mem ite env te (ghash, space) name =
      (if is_fast space then Some (KERN_FAILURE, None, ghash, space)
       else if te then Some (KERN_SUCCESS, Some (TreeEntry name), ghash, alloc_tree_entry its space1 name)
       else if \<not> ite then Some (KERN_RESOURCE_SHORTAGE, None, ghash, space1)
       else ipc_entry_alloc_name its mem ite env True (env (ghash, space1)) name)" for ite te
    by (subst ipc_entry_alloc_name.simps)
      (simp only: Let_def fst_conv snd_conv prod.case if_not_P [OF not_own] if_not_P [OF not_slot] look
        if_not_P [OF small] active not_True_eq_False if_False simp_thms)
  show thesis by (rule that [OF t(1,3) ok1 round])
qed

text \<open>
  C17: Allocating a given name that has no slot of its own (its index is beyond the table, or the slot
  holds another generation), when the table is not due to grow and no other thread changes the space
  while it is unlocked for the allocation of the tree entry. The call, which starts without a tree
  entry, enters the name into the splay tree, with exactly one new entry and every other right
  unchanged; deallocating it restores the rights. The counters of the tree and the collision bits stay
  consistent. A fast space has no tree: the call fails with KERN_FAILURE, and without memory for
  a tree entry the result is KERN_RESOURCE_SHORTAGE with the rights unchanged.
\<close>

theorem ipc_entry_alloc_name_tree:
  assumes ok: "space_ok its space xs" and active: "is_active space"
    and n: "name \<notin> tree_names space" "MACH_PORT_VALID name" "MACH_PORT_INDEX name \<notin> set xs"
    and gen: "MACH_PORT_INDEX name < is_table_size space \<longrightarrow>
      gen_of (is_table space ! MACH_PORT_INDEX name) \<noteq> MACH_PORT_GEN name"
    and few: "Suc (length (ist_inorder (is_tree space))) < 2 ^ 32"
    and no_grow: "\<not> grow_due its space name"
  shows "(is_fast space \<longrightarrow> ipc_entry_alloc_name its mem ite id False (ghash, space) name = Some (KERN_FAILURE, None, ghash, space))
    \<and> (\<not> is_fast space \<longrightarrow> (\<exists>space'. ipc_entry_alloc_name its mem False id False (ghash, space) name =
          Some (KERN_RESOURCE_SHORTAGE, None, ghash, space') \<and> space_ok its space' xs \<and> rights space' = rights space))
    \<and> (\<not> is_fast space \<longrightarrow> (\<exists>space'. ipc_entry_alloc_name its mem True id False (ghash, space) name =
          Some (KERN_SUCCESS, Some (TreeEntry name), ghash, space') \<and> space_ok its space' xs \<and>
        rights space' = (rights space)(name \<mapsto> (0, IO_NULL, 0)) \<and>
        (\<exists>space''. ipc_entry_dealloc its (ghash, space') name (TreeEntry name) = Some (ghash, space'') \<and>
           space_ok its space'' xs \<and> rights space'' = (rights space)(name := None))))"
proof -
  have gen': "0 < MACH_PORT_INDEX name \<and> MACH_PORT_INDEX name < is_table_size space \<longrightarrow>
      gen_of (is_table space ! MACH_PORT_INDEX name) \<noteq> MACH_PORT_GEN name" using gen by blast
  obtain tree1 space1 where r1: "space1 = space\<lparr>is_tree := tree1\<rparr>" "ist_inorder tree1 = ist_inorder (is_tree space)"
    "space_ok its space1 xs" "rights space1 = rights space"
    and step1: "\<And>ite te. ipc_entry_alloc_name its mem ite id te (ghash, space) name =
      (if is_fast space then Some (KERN_FAILURE, None, ghash, space)
       else if te then Some (KERN_SUCCESS, Some (TreeEntry name), ghash, alloc_tree_entry its space1 name)
       else if \<not> ite then Some (KERN_RESOURCE_SHORTAGE, None, ghash, space1)
       else ipc_entry_alloc_name its mem ite id True (id (ghash, space1)) name)"
    by (rule alloc_name_round [OF ok active n(1,3) gen' no_grow, where mem = mem and env = id and ghash = ghash]) (rule that; assumption)
  have again: "is_active space1" "name \<notin> tree_names space1" "\<not> grow_due its space1 name"
    "0 < MACH_PORT_INDEX name \<and> MACH_PORT_INDEX name < is_table_size space1 \<longrightarrow>
      gen_of (is_table space1 ! MACH_PORT_INDEX name) \<noteq> MACH_PORT_GEN name"
    using active n(1) no_grow gen' r1(1,2) by (simp_all add: tree_names_def grow_due_def)
  obtain tree2 space2 where r2: "space2 = space1\<lparr>is_tree := tree2\<rparr>" "ist_inorder tree2 = ist_inorder (is_tree space1)"
    "space_ok its space2 xs" "rights space2 = rights space1"
    and step2: "\<And>ite te. ipc_entry_alloc_name its mem ite id te (ghash, space1) name =
      (if is_fast space1 then Some (KERN_FAILURE, None, ghash, space1)
       else if te then Some (KERN_SUCCESS, Some (TreeEntry name), ghash, alloc_tree_entry its space2 name)
       else if \<not> ite then Some (KERN_RESOURCE_SHORTAGE, None, ghash, space2)
       else ipc_entry_alloc_name its mem ite id True (id (ghash, space2)) name)"
    by (rule alloc_name_round [OF r1(3) again(1,2) n(3) again(4,3), where mem = mem and env = id and ghash = ghash]) (rule that; assumption)
  let ?s = "alloc_tree_entry its space2 name"
  have p2: "space_pending its space2 {} xs" using r2(3) by (simp add: space_ok_pending)
  have t2: "name \<notin> tree_names space2" "ist_inorder (is_tree space2) = ist_inorder (is_tree space)" "rights space2 = rights space"
    using n(1) r1 r2 by (simp_all add: tree_names_def)
  have a: "space_pending its ?s {} xs" "rights ?s = (rights space)(name \<mapsto> right_of zero_entry)"
    using alloc_tree_correct [OF p2 _ n(2,3)] t2 again(4) r2(1) few gen r1(1) by simp_all
  have z: "right_of zero_entry = (0, IO_NULL, 0)" by (simp add: right_of_def zero_entry_def)
  have tn: "name \<in> tree_names ?s"
  proof -
    have "ist_wf (is_tree space2)" "\<forall>m \<in> tree_names space2. MACH_PORT_VALID m"
      using p2 by (auto simp: space_pending_def tree_ok_def)
    from alloc_tree_entry_form [OF this, of name its] t2(1)
    have "ist_map (is_tree ?s) name = Some zero_entry" by auto
    then show ?thesis using tree_map_iff [of ?s name] by simp
  qed
  note d = dealloc_tree_correct [OF a(1) tn]
  have "is_fast ?s = is_fast space2"
    by (auto simp: alloc_tree_entry_def ipc_entry_tree_collision_def Let_def split: prod.split)
  then have "is_fast ?s = is_fast space" using r1(1) r2(1) by simp
  then have "\<not> is_fast space \<Longrightarrow> ipc_entry_dealloc its (ghash, ?s) name (TreeEntry name) = Some (ghash, dealloc_tree_entry its ?s name)"
    by (simp add: ipc_entry_dealloc_def)
  moreover have "is_fast space1 = is_fast space" using r1(1) by simp
  ultimately show ?thesis
    using step1 step2 a d r1(3,4) z by (auto simp: space_ok_pending)
qed

theorem ipc_entry_alloc_name_tree_witness:
  "\<exists>space'. ipc_entry_alloc_name example_sizes (\<lambda>_. True) True id False ([], example_space) 0x903 =
     Some (KERN_SUCCESS, Some (TreeEntry 0x903), [], space') \<and> rights space' 0x903 = Some (0, IO_NULL, 0)"
proof -
  have i: "MACH_PORT_INDEX 0x903 = 9" "MACH_PORT_VALID 0x903" "is_active example_space" "\<not> is_fast example_space"
    "is_table_size example_space = 4" "example_sizes ! is_table_next example_space = 8"
    "ist_inorder (is_tree example_space) = []" by code_simp+
  have "0x903 \<notin> tree_names example_space" using i(7) by (simp add: tree_names_def)
  moreover have "MACH_PORT_INDEX 0x903 \<notin> set [1, 2, 3]" by (simp add: i)
  moreover have "\<not> grow_due example_sizes example_space 0x903" by (simp add: grow_due_def i)
  ultimately show ?thesis
    using ipc_entry_alloc_name_tree [OF example_space_ok i(3), of "0x903" "\<lambda>_. True" True "[]"] i by auto
qed

text \<open>
  C25: Lookup by name in a well-formed space that is not fast ends and gives the entry of exactly this name, or nothing
  when the name has no right: the table and the splay tree together are one map from names to
  entries. It changes no right and keeps the space well-formed, though it may splay the tree.
\<close>

theorem ipc_entry_lookup_map:
  assumes "space_ok its space xs" "\<not> is_fast space"
  shows "\<exists>r space'. ipc_entry_lookup space name = Some (r, space') \<and>
    Option.bind r (get_entry space) = space_map space name \<and> (r = None \<longleftrightarrow> space_map space name = None) \<and>
    space_ok its space' xs \<and> space_map space' = space_map space"
proof -
  from entry_lookup_correct [OF assms, of name] obtain r tree where
    r: "ipc_entry_lookup space name = Some (r, space\<lparr>is_tree := tree\<rparr>)" "ist_wf tree"
       "ist_inorder tree = ist_inorder (is_tree space)"
       "case r of None \<Rightarrow> space_map space name = None
        | Some ref \<Rightarrow> get_entry space ref = space_map space name \<and> space_map space name \<noteq> None" by auto
  then show ?thesis
    using space_ok_tree_update [OF assms(1) r(2,3)]
    by (intro exI [of _ r] exI [of _ "space\<lparr>is_tree := tree\<rparr>"]) (auto split: option.splits)
qed

theorem ipc_entry_lookup_map_witness:
  "\<exists>r space'. ipc_entry_lookup example_space1 0x103 = Some (Some r, space') \<and>
     get_entry example_space1 r = Some (zero_entry\<lparr>ie_bits := 0x03020000\<rparr>)"
proof -
  have "\<not> is_fast example_space1" "space_map example_space1 0x103 = Some (zero_entry\<lparr>ie_bits := 0x03020000\<rparr>)" by code_simp+
  with ipc_entry_lookup_map [OF example_space1_ok, of "0x103"] show ?thesis by auto
qed

text \<open>
  Index 0 is never used by the table, so that a name with this index is entered into the tree. The
  lookup goes by the generation of slot 0 nevertheless.
\<close>

lemma index_0_is_lost:
  assumes ok: "space_ok its space xs" and s: "is_active space" "\<not> is_fast space" "name \<notin> tree_names space"
    and name: "MACH_PORT_INDEX name = 0" "MACH_PORT_VALID name" and gen: "gen_of (is_table space ! 0) = MACH_PORT_GEN name"
  shows "\<exists>space'. ipc_entry_alloc_name its mem True id False (ghash, space) name =
      Some (KERN_SUCCESS, Some (TreeEntry name), ghash, space') \<and>
    name \<in> tree_names space' \<and> ipc_entry_lookup space' name = Some (None, space')"
proof -
  have S: "type_of (is_table space ! 0) = 0" "free_list_ok (is_table space) {} xs" "0 < is_table_size space"
    using ok free_list_okD(1) by (auto simp: space_ok_def)
  have x: "MACH_PORT_INDEX name \<notin> set xs" using free_list_okD(7) [OF S(2), of 0] name(1) by auto
  have g: "\<not> grow_due its sp name" if "is_table sp = is_table space" for sp using that S(3) name(1) by (simp add: grow_due_def)
  obtain tree1 space1 where r1: "space1 = space\<lparr>is_tree := tree1\<rparr>" "ist_inorder tree1 = ist_inorder (is_tree space)"
    "space_ok its space1 xs" "ipc_entry_alloc_name its mem True id False (ghash, space) name =
      ipc_entry_alloc_name its mem True id True (ghash, space1) name"
    by (rule alloc_name_round [OF ok s(1,3) x _ g [OF refl], where mem = mem and env = id and ghash = ghash])
      (use s(2) name(1) that in simp_all)
  have again: "is_active space1" "name \<notin> tree_names space1" "is_table space1 = is_table space"
    using s r1(1,2) by (simp_all add: tree_names_def)
  obtain tree2 space2 where r2: "space2 = space1\<lparr>is_tree := tree2\<rparr>" "ist_inorder tree2 = ist_inorder (is_tree space1)"
    "space_ok its space2 xs" "ipc_entry_alloc_name its mem True id True (ghash, space1) name =
      Some (KERN_SUCCESS, Some (TreeEntry name), ghash, alloc_tree_entry its space2 name)"
    by (rule alloc_name_round [OF r1(3) again(1,2) x _ g [OF again(3)], where mem = mem and env = id and ghash = ghash])
      (use s(2) name(1) r1(1) that in simp_all)
  let ?s = "alloc_tree_entry its space2 name"
  have w: "ist_wf (is_tree space2)" "\<forall>n \<in> tree_names space2. MACH_PORT_VALID n" "name \<notin> tree_names space2"
    using r2 again(2) by (auto simp: space_ok_def tree_ok_def tree_names_def)
  let ?e = "(is_table space ! 0)\<lparr>ie_bits := ie_bits (is_table space ! 0) OR IE_BITS_COLLISION\<rparr>"
  obtain tree where f: "?s = space\<lparr>is_tree := tree, is_tree_total := is_tree_total space + 1, is_table := (is_table space)[0 := ?e]\<rparr>"
      "set (ist_inorder tree) = insert (name, zero_entry) (set (ist_inorder (is_tree space2)))"
    using alloc_tree_entry_form [OF w, of its] S(3) name(1) r1(1) r2(1) by auto
  have "gen_of ?e = MACH_PORT_GEN name" "type_of ?e = 0"
    using gen S(1) by (simp_all add: IE_BITS_GEN_def IE_BITS_TYPE_def bit.conj_disj_distrib2 ipc_defs)
  then have "ipc_entry_lookup ?s name = Some (None, ?s)"
    using S(3) name(1) s(2) unfolding f(1) by (simp add: ipc_entry_lookup_def Let_def MACH_PORT_TYPE_NONE_def)
  moreover have "name \<in> tree_names ?s" using f by (simp add: tree_names_def)
  ultimately show ?thesis using r1(4) r2(4) by auto
qed

text \<open>
  C31: A name of index 0 whose generation is that of slot 0 is lost. In every newly created space that is
  not marked as fast, whatever the sizes of its tables, allocating the name 0x000000ff succeeds and
  enters it into the tree, but the lookup of the name finds nothing, since all slots of a new
  table, the unused slot 0 too, have this generation.
\<close>

theorem name_ff_is_lost:
  assumes "entries_sizes_ok its" "initial + 1 < length its" "\<not> is_fast garbage"
    and "ipc_space_create its mem (Some self) garbage initial = (KERN_SUCCESS, Some space)"
  shows "\<exists>space'. ipc_entry_alloc_name its mem' True id False (ghash, space) 0x000000ff =
      Some (KERN_SUCCESS, Some (TreeEntry 0x000000ff), ghash, space') \<and>
    0x000000ff \<in> tree_names space' \<and> ipc_entry_lookup space' 0x000000ff = Some (None, space')"
proof -
  let ?name = "0x000000ff :: mach_port_t"
  have n: "0 < its ! initial" using entries_sizes_bounds(1) [OF assms(1)] assms(2) by simp
  have mem: "mem (its ! initial)" using assms(4) by (simp add: ipc_space_create_def split: if_splits)
  then have s: "space = garbage\<lparr>is_self := self, is_references := 2, is_active := True, is_growing := False,
      is_table := new_table (its ! initial), is_table_next := initial + 1,
      is_tree := ipc_splay_tree_init (is_tree garbage), is_tree_total := 0, is_tree_small := 0, is_tree_hash := 0\<rparr>"
    using assms(4) by (simp add: ipc_space_create_def)
  have "space_ok its space [1..<its ! initial]" unfolding s by (rule new_space_ok [OF assms(1,2)])
  moreover have "MACH_PORT_INDEX ?name = 0" "MACH_PORT_VALID ?name" by code_simp+
  moreover have "MACH_PORT_GEN ?name = IE_BITS_GEN IE_BITS_GEN_MASK" by code_simp
  then have "gen_of (is_table space ! 0) = MACH_PORT_GEN ?name" using n by (simp add: s new_table_nth)
  moreover have "?name \<notin> tree_names space" by (simp add: s tree_names_def ipc_splay_tree_init_def ist_inorder_def)
  ultimately show ?thesis using assms(3) by (intro index_0_is_lost) (simp_all add: s)
qed

theorem name_ff_is_lost_witness:
  "\<exists>space'. ipc_entry_alloc_name example_sizes (\<lambda>_. True) True id False ([], example_space) 0x000000ff =
      Some (KERN_SUCCESS, Some (TreeEntry 0x000000ff), [], space') \<and> ipc_entry_lookup space' 0x000000ff = Some (None, space')"
proof -
  have "\<not> is_fast example_space" by (simp add: example_space_def)
  from name_ff_is_lost [OF example_sizes_ok _ this example_space_create, of "\<lambda>_. True" "[]"]
  show ?thesis by (auto simp: example_sizes_def)
qed

end
