(* ===== verification/Ipc_World.thy ===== *)
theory Ipc_World
  imports Ipc_Space
begin

text \<open>
  The objects of the IPC system: ports and port sets (\<open>ipc/ipc_port.h\<close>, \<open>ipc/ipc_pset.h\<close>,
  \<open>ipc/ipc_object.h\<close>), message queues (\<open>ipc/ipc_mqueue.c\<close>) and the operations on port sets
  (\<open>ipc/ipc_pset.c\<close>).

  \<^item> The world holds the ports and port sets by address, the global hash table, the clock of port
    deaths, and a log. The log has, in program order, the calls whose effect lies outside this part:
    notifications sent (\<open>ipc_notify.c\<close>), threads made runnable, messages and kernel objects
    destroyed, and memory of objects freed.
  \<^item> Queues are lists; theory \<open>Ipc_Queue\<close> shows that the circular structures of the code implement them.
  \<^item> Locks are not modelled: an operation runs without interruption, except where it drops its locks
    and a parameter \<open>env\<close> stands for the others.
  \<^item> The unions of the structures are kept: \<open>ip_data\<close> is the receiver, the destination or the time
    of death; \<open>ipr_notify\<close> is the send-once right or the next free index; \<open>ipr_word\<close> is the name,
    or in element 0 the position of the table's size among the sizes.
  \<^item> The assertions of the code are compiled out; they appear as hypotheses of the theorems.
\<close>

section \<open>Objects\<close>

type_synonym ipc_pset_t = "32 word"
type_synonym ipc_thread_t = "32 word"

abbreviation IPS_NULL :: ipc_pset_t where
  "IPS_NULL \<equiv> IO_NULL"

definition IO_BITS_KOTYPE :: natural_t where
  "IO_BITS_KOTYPE = 0x00000fff"

definition IO_BITS_OTYPE :: natural_t where
  "IO_BITS_OTYPE = 0x7fff0000"

definition IO_BITS_ACTIVE :: natural_t where
  "IO_BITS_ACTIVE = 0x80000000"

definition IOT_PORT :: natural_t where
  "IOT_PORT = 0"

definition IOT_PORT_SET :: natural_t where
  "IOT_PORT_SET = 1"

definition io_active :: "natural_t \<Rightarrow> bool" where
  "io_active bits \<longleftrightarrow> bits AND IO_BITS_ACTIVE \<noteq> 0"

definition io_kotype :: "natural_t \<Rightarrow> natural_t" where
  "io_kotype bits = bits AND IO_BITS_KOTYPE"

definition io_makebits :: "bool \<Rightarrow> natural_t \<Rightarrow> natural_t \<Rightarrow> natural_t" where
  "io_makebits active otype kotype =
     ((if active then IO_BITS_ACTIVE else 0) OR push_bit 16 otype) OR kotype"

definition IP_BIT_NMS :: natural_t where
  "IP_BIT_NMS = 0x00008000"

declare IO_BITS_KOTYPE_def [ipc_defs] IO_BITS_OTYPE_def [ipc_defs] IO_BITS_ACTIVE_def [ipc_defs]
  IOT_PORT_def [ipc_defs] IOT_PORT_SET_def [ipc_defs] IP_BIT_NMS_def [ipc_defs]

section \<open>Messages, queues, ports and port sets\<close>

text \<open>Of the header of a message, its bits, its size and its destination.\<close>

record ipc_kmsg =
  ikm_address :: "32 word"
  msgh_bits :: "32 word"
  msgh_size :: natural_t
  msgh_remote_port :: ipc_port_t

record ipc_mqueue =
  imq_messages :: "ipc_kmsg list"
  imq_threads :: "ipc_thread_t list"

record ipc_port_request =
  ipr_notify :: "32 word"
  ipr_word :: "32 word"

abbreviation ipr_next :: "ipc_port_request \<Rightarrow> nat" where
  "ipr_next r \<equiv> unat (ipr_notify r)"

abbreviation ipr_soright :: "ipc_port_request \<Rightarrow> ipc_port_t" where
  "ipr_soright \<equiv> ipr_notify"

abbreviation ipr_name :: "ipc_port_request \<Rightarrow> mach_port_t" where
  "ipr_name \<equiv> ipr_word"

text \<open>A table of dead-name requests, with its address.\<close>

record ipc_dnrequests =
  ipr_address :: "32 word"
  ipr_elems :: "ipc_port_request list"

abbreviation ipr_size :: "ipc_dnrequests \<Rightarrow> nat" where
  "ipr_size t \<equiv> unat (ipr_word (ipr_elems t ! 0))"

record ipc_port =
  ip_bits :: natural_t
  ip_references :: natural_t
  ip_receiver_name :: mach_port_t
  ip_data :: "32 word"
  ip_mscount :: natural_t
  ip_srights :: natural_t
  ip_sorights :: natural_t
  ip_nsrequest :: ipc_port_t
  ip_pdrequest :: ipc_port_t
  ip_dnrequests :: "ipc_dnrequests option"
  ip_pset :: ipc_pset_t
  ip_seqno :: natural_t
  ip_msgcount :: natural_t
  ip_qlimit :: natural_t
  ip_messages :: ipc_mqueue
  ip_blocked :: "ipc_thread_t list"
  ip_flags :: natural_t
  ip_subsystem :: "32 word"

abbreviation ip_active :: "ipc_port \<Rightarrow> bool" where
  "ip_active p \<equiv> io_active (ip_bits p)"

abbreviation ip_receiver :: "ipc_port \<Rightarrow> ipc_space_t" where
  "ip_receiver \<equiv> ip_data"

abbreviation ip_destination :: "ipc_port \<Rightarrow> ipc_port_t" where
  "ip_destination \<equiv> ip_data"

abbreviation ip_timestamp :: "ipc_port \<Rightarrow> natural_t" where
  "ip_timestamp \<equiv> ip_data"

record ipc_pset =
  ips_bits :: natural_t
  ips_references :: natural_t
  ips_local_name :: mach_port_t
  ips_messages :: ipc_mqueue

abbreviation ips_active :: "ipc_pset \<Rightarrow> bool" where
  "ips_active s \<equiv> io_active (ips_bits s)"

definition empty_mqueue :: ipc_mqueue where
  "empty_mqueue = \<lparr>imq_messages = [], imq_threads = []\<rparr>"

text \<open>The contents of a port after \<open>bzero\<close>.\<close>

definition zero_port :: ipc_port where
  "zero_port = \<lparr>ip_bits = 0, ip_references = 0, ip_receiver_name = 0, ip_data = 0, ip_mscount = 0,
     ip_srights = 0, ip_sorights = 0, ip_nsrequest = IP_NULL, ip_pdrequest = IP_NULL, ip_dnrequests = None,
     ip_pset = IPS_NULL, ip_seqno = 0, ip_msgcount = 0, ip_qlimit = 0, ip_messages = empty_mqueue,
     ip_blocked = [], ip_flags = 0, ip_subsystem = 0\<rparr>"

definition zero_pset :: ipc_pset where
  "zero_pset = \<lparr>ips_bits = 0, ips_references = 0, ips_local_name = 0, ips_messages = empty_mqueue\<rparr>"

section \<open>The world\<close>

datatype mach_msg_return_t =
    MACH_MSG_SUCCESS
  | MACH_SEND_IN_PROGRESS
  | MACH_SEND_TIMED_OUT
  | MACH_SEND_INTERRUPTED
  | MACH_RCV_IN_PROGRESS
  | MACH_RCV_INVALID_NAME
  | MACH_RCV_TIMED_OUT
  | MACH_RCV_TOO_LARGE
  | MACH_RCV_INTERRUPTED
  | MACH_RCV_PORT_CHANGED
  | MACH_RCV_PORT_DIED
  | MACH_RCV_IN_SET
  | MACH_RCV_SCATTER_SMALL
  | MACH_RCV_INVALID_TYPE
  | MACH_RCV_IN_PROGRESS_TIMED
  | MACH_SEND_INVALID_HEADER
  | MACH_SEND_INVALID_DEST
  | MACH_SEND_INVALID_REPLY
  | MACH_SEND_INVALID_NOTIFY
  | MACH_RCV_INVALID_NOTIFY
  | MACH_RCV_HEADER_ERROR "32 word"

datatype ipc_event =
    NotifyPortDeleted ipc_port_t mach_port_t
  | NotifyPortDestroyed ipc_port_t ipc_port_t
  | NotifyNoSenders ipc_port_t natural_t
  | NotifySendOnce ipc_port_t
  | NotifyDeadName ipc_port_t mach_port_t
  | ThreadGo ipc_thread_t mach_msg_return_t
  | ThreadReceive ipc_thread_t ipc_kmsg natural_t
  | ThreadPoolWakeup ipc_port_t
  | KmsgDestroy ipc_kmsg
  | KobjectDestroy ipc_port_t
  | SubsystemReference "32 word"
  | SubsystemDeallocate "32 word"
  | IoFree ipc_object_t

record ipc_world =
  w_ports :: "ipc_port_t \<Rightarrow> ipc_port"
  w_psets :: "ipc_pset_t \<Rightarrow> ipc_pset"
  w_hash :: ipc_hash_global
  w_timestamp :: natural_t
  w_log :: "ipc_event list"

definition emit :: "ipc_event list \<Rightarrow> ipc_world \<Rightarrow> ipc_world" where
  "emit es w = w\<lparr>w_log := w_log w @ es\<rparr>"

definition upd_port :: "ipc_port_t \<Rightarrow> (ipc_port \<Rightarrow> ipc_port) \<Rightarrow> ipc_world \<Rightarrow> ipc_world" where
  "upd_port port f w = w\<lparr>w_ports := (w_ports w)(port := f (w_ports w port))\<rparr>"

definition upd_pset :: "ipc_pset_t \<Rightarrow> (ipc_pset \<Rightarrow> ipc_pset) \<Rightarrow> ipc_world \<Rightarrow> ipc_world" where
  "upd_pset pset f w = w\<lparr>w_psets := (w_psets w)(pset := f (w_psets w pset))\<rparr>"

section \<open>References\<close>

definition ip_reference :: "ipc_port_t \<Rightarrow> ipc_world \<Rightarrow> ipc_world" where
  "ip_reference port = upd_port port (\<lambda>p. p\<lparr>ip_references := ip_references p + 1\<rparr>)"

definition ip_release :: "ipc_port_t \<Rightarrow> ipc_world \<Rightarrow> ipc_world" where
  "ip_release port = upd_port port (\<lambda>p. p\<lparr>ip_references := ip_references p - 1\<rparr>)"

definition ip_check_unlock :: "ipc_port_t \<Rightarrow> ipc_world \<Rightarrow> ipc_world" where
  "ip_check_unlock port w = (if ip_references (w_ports w port) = 0 then emit [IoFree port] w else w)"

definition ips_reference :: "ipc_pset_t \<Rightarrow> ipc_world \<Rightarrow> ipc_world" where
  "ips_reference pset = upd_pset pset (\<lambda>s. s\<lparr>ips_references := ips_references s + 1\<rparr>)"

definition ips_release :: "ipc_pset_t \<Rightarrow> ipc_world \<Rightarrow> ipc_world" where
  "ips_release pset = upd_pset pset (\<lambda>s. s\<lparr>ips_references := ips_references s - 1\<rparr>)"

definition ips_check_unlock :: "ipc_pset_t \<Rightarrow> ipc_world \<Rightarrow> ipc_world" where
  "ips_check_unlock pset w = (if ips_references (w_psets w pset) = 0 then emit [IoFree pset] w else w)"

text \<open>\<open>ipc_object_reference\<close> and \<open>ipc_object_release\<close>, for ports (\<open>ipc_port_release\<close>).\<close>

definition ipc_object_reference :: "ipc_object_t \<Rightarrow> ipc_world \<Rightarrow> ipc_world" where
  "ipc_object_reference object = ip_reference object"

definition ipc_object_release :: "ipc_object_t \<Rightarrow> ipc_world \<Rightarrow> ipc_world" where
  "ipc_object_release object w = ip_check_unlock object (ip_release object w)"

abbreviation ipc_port_release :: "ipc_port_t \<Rightarrow> ipc_world \<Rightarrow> ipc_world" where
  "ipc_port_release \<equiv> ipc_object_release"

section \<open>Message queues\<close>

definition ipc_mqueue_init :: "ipc_mqueue \<Rightarrow> ipc_mqueue" where
  "ipc_mqueue_init q = q\<lparr>imq_messages := [], imq_threads := []\<rparr>"

text \<open>
  The loop that moves the messages sent to \<open>port\<close>: over the messages left in the old queue, with the
  messages kept in it, the new queue, the receivers blocked there and the sequence number.
\<close>

fun mqueue_move_loop ::
  "ipc_port_t \<Rightarrow> ipc_kmsg list \<Rightarrow> ipc_kmsg list \<Rightarrow> ipc_kmsg list \<Rightarrow> ipc_thread_t list \<Rightarrow> natural_t \<Rightarrow> ipc_event list \<Rightarrow>
   ipc_kmsg list \<times> ipc_kmsg list \<times> ipc_thread_t list \<times> natural_t \<times> ipc_event list" where
  "mqueue_move_loop port [] kept newq blockedq seqno es = (kept, newq, blockedq, seqno, es)"
| "mqueue_move_loop port (kmsg # rest) kept newq blockedq seqno es =
     (if msgh_remote_port kmsg \<noteq> port then mqueue_move_loop port rest (kept @ [kmsg]) newq blockedq seqno es
      else case blockedq of
        th # ths \<Rightarrow> mqueue_move_loop port rest kept newq ths (seqno + 1) (es @ [ThreadReceive th kmsg seqno])
      | [] \<Rightarrow> mqueue_move_loop port rest kept (newq @ [kmsg]) [] seqno es)"

definition ipc_mqueue_move ::
  "ipc_mqueue \<Rightarrow> ipc_mqueue \<Rightarrow> ipc_port_t \<Rightarrow> natural_t \<Rightarrow> ipc_mqueue \<times> ipc_mqueue \<times> natural_t \<times> ipc_event list" where
  "ipc_mqueue_move dest source port seqno =
     (case mqueue_move_loop port (imq_messages source) [] (imq_messages dest) (imq_threads dest) seqno [] of
        (kept, newq, blockedq, seqno', es) \<Rightarrow>
          (dest\<lparr>imq_messages := newq, imq_threads := blockedq\<rparr>, source\<lparr>imq_messages := kept\<rparr>, seqno', es))"

definition ipc_mqueue_changed :: "ipc_mqueue \<Rightarrow> mach_msg_return_t \<Rightarrow> ipc_mqueue \<times> ipc_event list" where
  "ipc_mqueue_changed mqueue mr =
     (mqueue\<lparr>imq_threads := []\<rparr>, map (\<lambda>th. ThreadGo th mr) (imq_threads mqueue))"

section \<open>Port sets\<close>

definition ipc_pset_add :: "ipc_pset_t \<Rightarrow> ipc_port_t \<Rightarrow> ipc_world \<Rightarrow> ipc_world" where
  "ipc_pset_add pset port w =
     (let w1 = ips_reference pset (upd_port port (\<lambda>p. p\<lparr>ip_pset := pset\<rparr>) w);
          (sq, pq, seqno, es) = ipc_mqueue_move (ips_messages (w_psets w1 pset)) (ip_messages (w_ports w1 port))
             port (ip_seqno (w_ports w1 port));
          (pq', es') = ipc_mqueue_changed pq MACH_RCV_PORT_CHANGED
      in emit (es @ es') (upd_port port (\<lambda>p. p\<lparr>ip_messages := pq', ip_seqno := seqno\<rparr>)
           (upd_pset pset (\<lambda>s. s\<lparr>ips_messages := sq\<rparr>) w1)))"

definition ipc_pset_remove :: "ipc_pset_t \<Rightarrow> ipc_port_t \<Rightarrow> ipc_world \<Rightarrow> ipc_world" where
  "ipc_pset_remove pset port w =
     (let w1 = ips_release pset (upd_port port (\<lambda>p. p\<lparr>ip_pset := IPS_NULL\<rparr>) w);
          (pq, sq, seqno, es) = ipc_mqueue_move (ip_messages (w_ports w1 port)) (ips_messages (w_psets w1 pset))
             port (ip_seqno (w_ports w1 port))
      in emit es (upd_port port (\<lambda>p. p\<lparr>ip_messages := pq, ip_seqno := seqno\<rparr>)
           (upd_pset pset (\<lambda>s. s\<lparr>ips_messages := sq\<rparr>) w1)))"

definition ipc_pset_move :: "ipc_port_t \<Rightarrow> ipc_pset_t \<Rightarrow> ipc_world \<Rightarrow> kern_return_t \<times> ipc_world" where
  "ipc_pset_move port nset w =
     (let oset = ip_pset (w_ports w port);
          (oset', w') =
            (if oset = nset then (oset, w)
             else if oset = IPS_NULL then (oset, ipc_pset_add nset port w)
             else if nset = IPS_NULL then
               (let w1 = ipc_pset_remove oset port w in
                if ips_active (w_psets w1 oset) then (oset, w1) else (IPS_NULL, ips_check_unlock oset w1))
             else (oset, ips_check_unlock oset (ipc_pset_add nset port (ipc_pset_remove oset port w))))
      in (if nset = IPS_NULL \<and> oset' = IPS_NULL then KERN_NOT_IN_SET else KERN_SUCCESS, w'))"

definition ipc_pset_destroy :: "ipc_pset_t \<Rightarrow> ipc_world \<Rightarrow> ipc_world" where
  "ipc_pset_destroy pset w =
     (let (q, es) = ipc_mqueue_changed (ips_messages (w_psets w pset)) MACH_RCV_PORT_DIED
      in ips_check_unlock pset (ips_release pset (emit es
           (upd_pset pset (\<lambda>s. s\<lparr>ips_bits := ips_bits s AND NOT IO_BITS_ACTIVE, ips_messages := q\<rparr>) w))))"

section \<open>Reading the world after an update\<close>

lemma emit_simps [simp]:
  "w_ports (emit es w) = w_ports w" "w_psets (emit es w) = w_psets w" "w_hash (emit es w) = w_hash w"
  "w_timestamp (emit es w) = w_timestamp w" "w_log (emit es w) = w_log w @ es"
  by (simp_all add: emit_def)

lemma emit_nil [simp]: "emit [] w = w"
  by (simp add: emit_def)

lemma upd_port_simps [simp]:
  "w_ports (upd_port port f w) = (w_ports w)(port := f (w_ports w port))" "w_psets (upd_port port f w) = w_psets w"
  "w_hash (upd_port port f w) = w_hash w" "w_timestamp (upd_port port f w) = w_timestamp w"
  "w_log (upd_port port f w) = w_log w"
  by (simp_all add: upd_port_def)

lemma upd_pset_simps [simp]:
  "w_ports (upd_pset pset f w) = w_ports w" "w_psets (upd_pset pset f w) = (w_psets w)(pset := f (w_psets w pset))"
  "w_hash (upd_pset pset f w) = w_hash w" "w_timestamp (upd_pset pset f w) = w_timestamp w"
  "w_log (upd_pset pset f w) = w_log w"
  by (simp_all add: upd_pset_def)

lemma reference_simps [simp]:
  "w_ports (ip_reference port w) = (w_ports w)(port := (w_ports w port)\<lparr>ip_references := ip_references (w_ports w port) + 1\<rparr>)"
  "w_ports (ip_release port w) = (w_ports w)(port := (w_ports w port)\<lparr>ip_references := ip_references (w_ports w port) - 1\<rparr>)"
  "w_log (ip_reference port w) = w_log w" "w_log (ip_release port w) = w_log w"
  "w_psets (ip_reference port w) = w_psets w" "w_psets (ip_release port w) = w_psets w"
  "w_hash (ip_reference port w) = w_hash w" "w_hash (ip_release port w) = w_hash w"
  by (simp_all add: ip_reference_def ip_release_def)

lemma check_unlock_simps [simp]:
  "w_ports (ip_check_unlock port w) = w_ports w" "w_psets (ip_check_unlock port w) = w_psets w"
  "w_hash (ip_check_unlock port w) = w_hash w"
  "w_log (ip_check_unlock port w) = w_log w @ (if ip_references (w_ports w port) = 0 then [IoFree port] else [])"
  "w_ports (ips_check_unlock pset w) = w_ports w" "w_psets (ips_check_unlock pset w) = w_psets w"
  "w_hash (ips_check_unlock pset w) = w_hash w"
  by (simp_all add: ip_check_unlock_def ips_check_unlock_def)

lemma ips_reference_simps [simp]:
  "w_ports (ips_reference pset w) = w_ports w" "w_ports (ips_release pset w) = w_ports w"
  "w_psets (ips_reference pset w) = (w_psets w)(pset := (w_psets w pset)\<lparr>ips_references := ips_references (w_psets w pset) + 1\<rparr>)"
  "w_psets (ips_release pset w) = (w_psets w)(pset := (w_psets w pset)\<lparr>ips_references := ips_references (w_psets w pset) - 1\<rparr>)"
  "w_log (ips_reference pset w) = w_log w" "w_log (ips_release pset w) = w_log w"
  "w_hash (ips_reference pset w) = w_hash w" "w_hash (ips_release pset w) = w_hash w"
  by (simp_all add: ips_reference_def ips_release_def)

section \<open>Moving messages\<close>

abbreviation messages_for :: "ipc_port_t \<Rightarrow> ipc_kmsg list \<Rightarrow> ipc_kmsg list" where
  "messages_for port \<equiv> filter (\<lambda>m. msgh_remote_port m = port)"

abbreviation messages_not_for :: "ipc_port_t \<Rightarrow> ipc_kmsg list \<Rightarrow> ipc_kmsg list" where
  "messages_not_for port \<equiv> filter (\<lambda>m. msgh_remote_port m \<noteq> port)"

text \<open>The messages handed to receivers, with consecutive sequence numbers.\<close>

fun handed :: "ipc_thread_t list \<Rightarrow> ipc_kmsg list \<Rightarrow> natural_t \<Rightarrow> ipc_event list" where
  "handed (th # ths) (m # ms) seqno = ThreadReceive th m seqno # handed ths ms (seqno + 1)"
| "handed ths ms seqno = []"

lemma move_loop:
  "mqueue_move_loop port ms kept newq ths seqno es =
     (kept @ messages_not_for port ms,
      newq @ drop (length ths) (messages_for port ms),
      drop (length (messages_for port ms)) ths,
      seqno + of_nat (min (length ths) (length (messages_for port ms))),
      es @ handed ths (messages_for port ms) seqno)"
proof (induction ms arbitrary: kept newq ths seqno es)
  case (Cons m ms)
  show ?case
  proof (cases "msgh_remote_port m = port")
    case True
    then show ?thesis using Cons by (cases ths) (simp_all add: add.assoc)
  next
    case False
    then show ?thesis using Cons by simp
  qed
qed simp

text \<open>
  C18: Moving the messages for a port from one queue to another loses none and duplicates none: they
  leave the old queue, which keeps the others in order; the first go to the receivers blocked on the
  new queue, in the order of both and with consecutive sequence numbers, and the rest is appended to
  the new queue in order.
\<close>

theorem ipc_mqueue_move_exact:
  "ipc_mqueue_move dest source port seqno =
     (let moved = messages_for port (imq_messages source); waiting = imq_threads dest in
      (dest\<lparr>imq_messages := imq_messages dest @ drop (length waiting) moved,
            imq_threads := drop (length moved) waiting\<rparr>,
       source\<lparr>imq_messages := messages_not_for port (imq_messages source)\<rparr>,
       seqno + of_nat (min (length waiting) (length moved)), handed waiting moved seqno))"
  by (simp add: ipc_mqueue_move_def move_loop Let_def)

lemma all_for: "messages_not_for port ms = [] \<Longrightarrow> messages_for port ms = ms"
  by (simp add: filter_empty_conv filter_id_conv)

lemma none_for: "messages_for port ms = [] \<Longrightarrow> messages_not_for port ms = ms"
  by (simp add: filter_empty_conv filter_id_conv)

lemmas pset_move_defs = ipc_pset_add_def ipc_pset_remove_def ipc_mqueue_move_def ipc_mqueue_changed_def move_loop

text \<open>
  Putting a port into a set in which no receiver waits, and taking it out again, restores the
  messages of the port in their order, the messages of the set, the sequence number and the
  reference count of the set; receivers that waited on the port are woken and told of the change.
\<close>

theorem ipc_pset_add_remove:
  assumes "messages_for port (imq_messages (ips_messages (w_psets w pset))) = []"
    and "imq_threads (ips_messages (w_psets w pset)) = []"
    and "messages_not_for port (imq_messages (ip_messages (w_ports w port))) = []"
    and "ip_pset (w_ports w port) = IPS_NULL"
  shows "w_ports (ipc_pset_remove pset port (ipc_pset_add pset port w)) =
      (w_ports w)(port := (w_ports w port)\<lparr>ip_messages := (ip_messages (w_ports w port))\<lparr>imq_threads := []\<rparr>\<rparr>)
    \<and> w_psets (ipc_pset_remove pset port (ipc_pset_add pset port w)) = w_psets w
    \<and> w_log (ipc_pset_remove pset port (ipc_pset_add pset port w)) =
        w_log w @ map (\<lambda>th. ThreadGo th MACH_RCV_PORT_CHANGED) (imq_threads (ip_messages (w_ports w port)))
    \<and> ip_pset (w_ports (ipc_pset_add pset port w) port) = pset
    \<and> imq_messages (ips_messages (w_psets (ipc_pset_add pset port w) pset)) =
        imq_messages (ips_messages (w_psets w pset)) @ imq_messages (ip_messages (w_ports w port))"
proof -
  have m: "messages_for port (imq_messages (ip_messages (w_ports w port))) = imq_messages (ip_messages (w_ports w port))"
    "messages_not_for port (imq_messages (ips_messages (w_psets w pset))) = imq_messages (ips_messages (w_psets w pset))"
    using all_for [OF assms(3)] none_for [OF assms(1)] by simp_all
  have same: "(w_ports w port)\<lparr>ip_pset := IPS_NULL, ip_messages := q\<rparr> = (w_ports w port)\<lparr>ip_messages := q\<rparr>" for q
    using assms(4) by (cases "w_ports w port") simp
  have queue: "(ips_messages (w_psets w pset))\<lparr>imq_threads := []\<rparr> = ips_messages (w_psets w pset)"
    using assms(2) by (cases "ips_messages (w_psets w pset)") simp
  show ?thesis
    using assms m by (simp add: pset_move_defs Let_def) (simp add: same queue)
qed

text \<open>A world in which every port has one reference, and the port 0x40 has two queued messages.\<close>

definition example_port :: ipc_port where
  "example_port = zero_port\<lparr>ip_bits := io_makebits True IOT_PORT 0, ip_references := 3, ip_data := 0x1000,
     ip_receiver_name := 0x103, ip_srights := 1, ip_mscount := 1, ip_nsrequest := 0x80,
     ip_messages := \<lparr>imq_messages = [\<lparr>ikm_address = 1, msgh_bits = 0, msgh_size = 24, msgh_remote_port = 0x40\<rparr>, \<lparr>ikm_address = 2, msgh_bits = 0, msgh_size = 24, msgh_remote_port = 0x40\<rparr>],
       imq_threads = []\<rparr>\<rparr>"

definition example_world :: ipc_world where
  "example_world = \<lparr>w_ports = (\<lambda>_. zero_port)(0x40 := example_port,
       0x80 := zero_port\<lparr>ip_bits := io_makebits True IOT_PORT 0, ip_references := 1\<rparr>),
     w_psets = (\<lambda>_. zero_pset), w_hash = replicate 4 [], w_timestamp = 0, w_log = []\<rparr>"

theorem ipc_pset_add_remove_witness:
  "w_ports (ipc_pset_remove 0x200 0x40 (ipc_pset_add 0x200 0x40 example_world)) =
     (w_ports example_world)(0x40 := example_port\<lparr>ip_messages := (ip_messages example_port)\<lparr>imq_threads := []\<rparr>\<rparr>)"
  using ipc_pset_add_remove [of "0x40" example_world "0x200"]
  by (simp add: example_world_def example_port_def zero_pset_def zero_port_def empty_mqueue_def)

end
