(* ===== verification/Ipc_Port.thy ===== *)
theory Ipc_Port
  imports Ipc_World
begin

text \<open>
  Ports (\<open>ipc/ipc_port.c\<close>): the table of dead-name requests of a port, port-destroyed and no-senders
  requests, queue limits, the circularity check, naked rights, and the destruction of a port.
  \<open>dnits\<close> is the array \<open>ipc_table_dnrequests\<close> of table sizes.
\<close>

section \<open>Time stamps\<close>

definition ipc_port_timestamp :: "ipc_world \<Rightarrow> natural_t \<times> ipc_world" where
  "ipc_port_timestamp w = (w_timestamp w, w\<lparr>w_timestamp := w_timestamp w + 1\<rparr>)"

definition IP_TIMESTAMP_ORDER :: "natural_t \<Rightarrow> natural_t \<Rightarrow> bool" where
  "IP_TIMESTAMP_ORDER one two \<longleftrightarrow> sint (one - two) < 0"

section \<open>Dead-name requests\<close>

definition dn_table :: "ipc_port_request list \<Rightarrow> ipc_port \<Rightarrow> ipc_port" where
  "dn_table elems p = p\<lparr>ip_dnrequests := map_option (\<lambda>t. t\<lparr>ipr_elems := elems\<rparr>) (ip_dnrequests p)\<rparr>"

definition ipc_port_dnrequest ::
  "ipc_port_t \<Rightarrow> mach_port_t \<Rightarrow> ipc_port_t \<Rightarrow> ipc_world \<Rightarrow> kern_return_t \<times> nat \<times> ipc_world" where
  "ipc_port_dnrequest port name soright w = (case ip_dnrequests (w_ports w port) of
     None \<Rightarrow> (KERN_NO_SPACE, 0, w)
   | Some t \<Rightarrow>
      let table = ipr_elems t; index = ipr_next (table ! 0) in
      if index = 0 then (KERN_NO_SPACE, 0, w)
      else
        let ipr = table ! index;
            table1 = table[0 := (table ! 0)\<lparr>ipr_notify := ipr_notify ipr\<rparr>];
            table2 = table1[index := \<lparr>ipr_notify = soright, ipr_word = name\<rparr>]
        in (KERN_SUCCESS, index, upd_port port (dn_table table2) w))"

text \<open>The search for a size that is large enough, from the size entry \<open>i\<close> on.\<close>

partial_function (option) dngrow_search :: "nat list \<Rightarrow> natural_t \<Rightarrow> nat \<Rightarrow> nat option" where
  "dngrow_search dnits target i =
     (if dnits ! i \<noteq> 0 \<and> dnits ! i < unat target then dngrow_search dnits target (i + 1) else Some i)"

declare dngrow_search.simps [code]

text \<open>The new elements are linked into the free list, from \<open>osize\<close> upwards.\<close>

fun dngrow_free :: "nat \<Rightarrow> nat \<Rightarrow> nat \<Rightarrow> ipc_port_request list" where
  "dngrow_free i 0 free_index = []"
| "dngrow_free i (Suc n) free_index =
     \<lparr>ipr_notify = of_nat free_index, ipr_word = MACH_PORT_NULL\<rparr> # dngrow_free (i + 1) n i"

definition dngrow_table :: "nat list \<Rightarrow> nat \<Rightarrow> ipc_port_request list option \<Rightarrow> ipc_port_request list" where
  "dngrow_table dnits its otable =
     (let (osize, free_index, old) = (case otable of
            Some t \<Rightarrow> (dnits ! unat (ipr_word (t ! 0)), ipr_next (t ! 0), tl t)
          | None \<Rightarrow> (1, 0, []));
          nsize = dnits ! its;
          free1 = (if osize < nsize then nsize - 1 else free_index)
      in \<lparr>ipr_notify = of_nat free1, ipr_word = of_nat its\<rparr> # take (osize - 1) old @
         dngrow_free osize (nsize - osize) free_index)"

text \<open>
  \<open>mem\<close> is the address of the new table, if there is memory, and \<open>env\<close> what other threads do while
  the port is unlocked for the allocation.
\<close>

definition ipc_port_dngrow ::
  "nat list \<Rightarrow> (nat \<Rightarrow> 32 word option) \<Rightarrow> (ipc_world \<Rightarrow> ipc_world) \<Rightarrow> ipc_port_t \<Rightarrow> natural_t \<Rightarrow> ipc_world \<Rightarrow>
   (kern_return_t \<times> ipc_world) option" where
  "ipc_port_dngrow dnits mem env port target w =
     (let otable = ip_dnrequests (w_ports w port);
          its0 = (case otable of None \<Rightarrow> 0 | Some t \<Rightarrow> ipr_size t + 1)
      in if target \<noteq> ITS_SIZE_NONE \<and>
           (case otable of None \<Rightarrow> False | Some t \<Rightarrow> unat target \<le> dnits ! ipr_size t)
         then Some (KERN_SUCCESS, w)
         else do {
           its \<leftarrow> (if target \<noteq> ITS_SIZE_NONE then dngrow_search dnits target its0 else Some its0);
           if target \<noteq> ITS_SIZE_NONE \<and> dnits ! its = 0 then Some (KERN_NO_SPACE, w)
           else
             let w1 = env (ip_reference port w) in
             case (if dnits ! its = 0 then None else mem (dnits ! its)) of
               None \<Rightarrow> Some (KERN_RESOURCE_SHORTAGE, ipc_port_release port w1)
             | Some address \<Rightarrow>
                 let w2 = ip_release port w1;
                     current = ip_dnrequests (w_ports w2 port)
                 in if ip_active (w_ports w2 port) \<and>
                      (case (current, otable) of
                         (None, None) \<Rightarrow> True
                       | (Some c, Some t) \<Rightarrow> ipr_address c = ipr_address t \<and> ipr_size c + 1 = its
                       | _ \<Rightarrow> False)
                    then Some (KERN_SUCCESS, upd_port port (\<lambda>p. p\<lparr>ip_dnrequests := Some
                           \<lparr>ipr_address = address,
                            ipr_elems = dngrow_table dnits its (map_option ipr_elems current)\<rparr>\<rparr>) w2)
                    else Some (KERN_SUCCESS, ip_check_unlock port w2)
         })"

definition ipc_port_dncancel ::
  "ipc_port_t \<Rightarrow> mach_port_t \<Rightarrow> nat \<Rightarrow> ipc_world \<Rightarrow> (ipc_port_t \<times> ipc_world) option" where
  "ipc_port_dncancel port name index w = (case ip_dnrequests (w_ports w port) of
     None \<Rightarrow> None
   | Some t \<Rightarrow>
      let table = ipr_elems t; dnrequest = ipr_soright (table ! index);
          table1 = table[index := \<lparr>ipr_notify = ipr_notify (table ! 0), ipr_word = MACH_PORT_NULL\<rparr>];
          table2 = table1[0 := (table1 ! 0)\<lparr>ipr_notify := of_nat index\<rparr>]
      in Some (dnrequest, upd_port port (dn_table table2) w))"

definition ipc_port_dnrename ::
  "ipc_port_t \<Rightarrow> nat \<Rightarrow> mach_port_t \<Rightarrow> mach_port_t \<Rightarrow> ipc_world \<Rightarrow> ipc_world option" where
  "ipc_port_dnrename port index oname nname w = (case ip_dnrequests (w_ports w port) of
     None \<Rightarrow> None
   | Some t \<Rightarrow>
      let table = ipr_elems t in
      Some (upd_port port (dn_table (table[index := (table ! index)\<lparr>ipr_word := nname\<rparr>])) w))"

section \<open>Requests and limits\<close>

definition ipc_port_pdrequest :: "ipc_port_t \<Rightarrow> ipc_port_t \<Rightarrow> ipc_world \<Rightarrow> ipc_port_t \<times> ipc_world" where
  "ipc_port_pdrequest port notify w =
     (ip_pdrequest (w_ports w port), upd_port port (\<lambda>p. p\<lparr>ip_pdrequest := notify\<rparr>) w)"

definition ipc_port_nsrequest ::
  "ipc_port_t \<Rightarrow> natural_t \<Rightarrow> ipc_port_t \<Rightarrow> ipc_world \<Rightarrow> ipc_port_t \<times> ipc_world" where
  "ipc_port_nsrequest port sync notify w =
     (let p = w_ports w port; previous = ip_nsrequest p; mscount = ip_mscount p in
      (previous,
       if ip_srights p = 0 \<and> sync \<le> mscount \<and> notify \<noteq> IP_NULL
       then emit [NotifyNoSenders notify mscount] (upd_port port (\<lambda>p. p\<lparr>ip_nsrequest := IP_NULL\<rparr>) w)
       else upd_port port (\<lambda>p. p\<lparr>ip_nsrequest := notify\<rparr>) w))"

text \<open>The loop that wakes up to \<open>wakeup\<close> blocked senders, \<open>i\<close> of which are awake.\<close>

fun wake_senders :: "natural_t \<Rightarrow> natural_t \<Rightarrow> ipc_thread_t list \<Rightarrow> ipc_event list \<times> ipc_thread_t list" where
  "wake_senders i wakeup [] = ([], [])"
| "wake_senders i wakeup (th # ths) =
     (if i < wakeup
      then (case wake_senders (i + 1) wakeup ths of (es, rest) \<Rightarrow> (ThreadGo th MACH_MSG_SUCCESS # es, rest))
      else ([], th # ths))"

definition ipc_port_set_qlimit :: "ipc_port_t \<Rightarrow> natural_t \<Rightarrow> ipc_world \<Rightarrow> ipc_world" where
  "ipc_port_set_qlimit port qlimit w =
     (let p = w_ports w port;
          (es, blocked) = (if qlimit > ip_qlimit p
             then wake_senders 0 (qlimit - ip_qlimit p) (ip_blocked p) else ([], ip_blocked p))
      in emit es (upd_port port (\<lambda>p. p\<lparr>ip_blocked := blocked, ip_qlimit := qlimit\<rparr>) w))"

definition ipc_port_set_seqno :: "ipc_port_t \<Rightarrow> natural_t \<Rightarrow> ipc_world \<Rightarrow> ipc_world" where
  "ipc_port_set_seqno port seqno w =
     (let pset = ip_pset (w_ports w port);
          w1 = (if pset \<noteq> IPS_NULL \<and> \<not> ips_active (w_psets w pset)
                then ips_check_unlock pset (ipc_pset_remove pset port w) else w)
      in upd_port port (\<lambda>p. p\<lparr>ip_seqno := seqno\<rparr>) w1)"

definition ipc_port_clear_receiver :: "ipc_port_t \<Rightarrow> ipc_world \<Rightarrow> ipc_world" where
  "ipc_port_clear_receiver port w =
     (let pset = ip_pset (w_ports w port);
          w1 = (if pset \<noteq> IPS_NULL then ips_check_unlock pset (ipc_pset_remove pset port w)
                else case ipc_mqueue_changed (ip_messages (w_ports w port)) MACH_RCV_PORT_DIED of (q, es) \<Rightarrow>
                  emit es (upd_port port (\<lambda>p. p\<lparr>ip_messages := q\<rparr>) w))
      in upd_port port (\<lambda>p. p\<lparr>ip_mscount := 0, ip_seqno := 0\<rparr>) w1)"

definition MACH_PORT_QLIMIT_DEFAULT :: natural_t where
  "MACH_PORT_QLIMIT_DEFAULT = 5"

definition ipc_port_init :: "ipc_space_t \<Rightarrow> mach_port_t \<Rightarrow> ipc_port \<Rightarrow> ipc_port" where
  "ipc_port_init space name p = p\<lparr>ip_data := space, ip_receiver_name := name, ip_mscount := 0,
     ip_srights := 0, ip_sorights := 0, ip_nsrequest := IP_NULL, ip_pdrequest := IP_NULL,
     ip_dnrequests := None, ip_pset := IPS_NULL, ip_seqno := 0, ip_msgcount := 0,
     ip_qlimit := MACH_PORT_QLIMIT_DEFAULT, ip_subsystem := 0, ip_flags := 0,
     ip_bits := ip_bits p OR IP_BIT_NMS, ip_messages := ipc_mqueue_init (ip_messages p), ip_blocked := []\<rparr>"

section \<open>Circularity\<close>

definition in_transit :: "ipc_port \<Rightarrow> bool" where
  "in_transit p \<longleftrightarrow> ip_active p \<and> ip_receiver_name p = MACH_PORT_NULL \<and> ip_destination p \<noteq> IP_NULL"

text \<open>The end of the chain of ports in transit.\<close>

partial_function (option) chain_base :: "ipc_world \<Rightarrow> ipc_port_t \<Rightarrow> ipc_port_t option" where
  "chain_base w base =
     (if in_transit (w_ports w base) then chain_base w (ip_destination (w_ports w base)) else Some base)"

declare chain_base.simps [code]

text \<open>\<open>try\<close> is whether the attempt to lock \<open>dest\<close> for the quick check succeeds.\<close>

definition ipc_port_check_circularity ::
  "bool \<Rightarrow> ipc_port_t \<Rightarrow> ipc_port_t \<Rightarrow> ipc_world \<Rightarrow> (bool \<times> ipc_world) option" where
  "ipc_port_check_circularity try port dest w =
     (let not_circular = (False, upd_port port (\<lambda>p. p\<lparr>ip_data := dest\<rparr>) (ip_reference dest w)) in
      if port = dest then Some (True, w)
      else if try \<and> \<not> in_transit (w_ports w dest) then Some not_circular
      else do {
        base \<leftarrow> chain_base w dest;
        Some (if port = base then (True, w) else not_circular)
      })"

section \<open>Naked rights\<close>

definition ipc_port_lookup_notify ::
  "ipc_space \<Rightarrow> mach_port_t \<Rightarrow> ipc_world \<Rightarrow> (ipc_port_t \<times> ipc_space \<times> ipc_world) option" where
  "ipc_port_lookup_notify space name w = do {
     (r, space1) \<leftarrow> ipc_entry_lookup space name;
     case r of
       None \<Rightarrow> Some (IP_NULL, space1, w)
     | Some ref \<Rightarrow> do {
         entry \<leftarrow> get_entry space1 ref;
         let port = ie_object entry;
         if ie_bits entry AND MACH_PORT_TYPE_RECEIVE = 0 then Some (IP_NULL, space1, w)
         else Some (port, space1,
                upd_port port (\<lambda>p. p\<lparr>ip_sorights := ip_sorights p + 1\<rparr>) (ip_reference port w))
       }
   }"

definition ipc_port_make_send :: "ipc_port_t \<Rightarrow> ipc_world \<Rightarrow> ipc_port_t \<times> ipc_world" where
  "ipc_port_make_send port w =
     (port, ip_reference port (upd_port port (\<lambda>p. p\<lparr>ip_mscount := ip_mscount p + 1, ip_srights := ip_srights p + 1\<rparr>) w))"

definition ipc_port_copy_send :: "ipc_port_t \<Rightarrow> ipc_world \<Rightarrow> ipc_port_t \<times> ipc_world" where
  "ipc_port_copy_send port w =
     (if \<not> IO_VALID port then (port, w)
      else if ip_active (w_ports w port)
      then (port, upd_port port (\<lambda>p. p\<lparr>ip_srights := ip_srights p + 1\<rparr>) (ip_reference port w))
      else (IP_DEAD, w))"

definition ipc_port_release_send :: "ipc_port_t \<Rightarrow> ipc_world \<Rightarrow> ipc_world" where
  "ipc_port_release_send port w =
     (let w1 = ip_release port w in
      if \<not> ip_active (w_ports w1 port) then ip_check_unlock port w1
      else
        let w2 = upd_port port (\<lambda>p. p\<lparr>ip_srights := ip_srights p - 1\<rparr>) w1; p = w_ports w2 port in
        if ip_srights p = 0 \<and> ip_nsrequest p \<noteq> IP_NULL
        then emit [NotifyNoSenders (ip_nsrequest p) (ip_mscount p)] (upd_port port (\<lambda>p. p\<lparr>ip_nsrequest := IP_NULL\<rparr>) w2)
        else w2)"

definition ipc_port_make_sonce :: "ipc_port_t \<Rightarrow> ipc_world \<Rightarrow> ipc_port_t \<times> ipc_world" where
  "ipc_port_make_sonce port w = (port, ip_reference port (upd_port port (\<lambda>p. p\<lparr>ip_sorights := ip_sorights p + 1\<rparr>) w))"

definition ipc_port_release_sonce :: "ipc_port_t \<Rightarrow> ipc_world \<Rightarrow> ipc_world" where
  "ipc_port_release_sonce port w =
     (let w1 = ip_release port (upd_port port (\<lambda>p. p\<lparr>ip_sorights := ip_sorights p - 1\<rparr>) w) in
      if \<not> ip_active (w_ports w1 port) then ip_check_unlock port w1 else w1)"

section \<open>Destruction\<close>

text \<open>The notifications for the requests registered in a table, in the order of the slots.\<close>

definition ipc_port_dnnotify :: "nat list \<Rightarrow> ipc_dnrequests \<Rightarrow> ipc_event list" where
  "ipc_port_dnnotify dnits dnrequests =
     (let table = ipr_elems dnrequests in
      map (\<lambda>index. NotifyDeadName (ipr_soright (table ! index)) (ipr_name (table ! index)))
        (filter (\<lambda>index. ipr_name (table ! index) \<noteq> MACH_PORT_NULL) [1..<dnits ! ipr_size dnrequests]))"

text \<open>The loop that destroys the queued messages, each of which holds a reference to the port.\<close>

fun destroy_messages :: "ipc_port_t \<Rightarrow> ipc_kmsg list \<Rightarrow> ipc_world \<Rightarrow> ipc_world" where
  "destroy_messages port [] w = w"
| "destroy_messages port (kmsg # rest) w =
     destroy_messages port rest (emit [KmsgDestroy (kmsg\<lparr>msgh_remote_port := MACH_PORT_NULL\<rparr>)]
       (ipc_port_release port (upd_port port (\<lambda>p. p\<lparr>ip_messages := (ip_messages p)\<lparr>imq_messages := rest\<rparr>\<rparr>) w)))"

text \<open>The part of \<open>ipc_port_destroy\<close> after the check for a backup port.\<close>

definition destroy_port :: "nat list \<Rightarrow> ipc_port_t \<Rightarrow> ipc_world \<Rightarrow> ipc_world" where
  "destroy_port dnits port w =
     (let w1 = emit (map (\<lambda>th. ThreadGo th MACH_MSG_SUCCESS) (ip_blocked (w_ports w port)))
                 (upd_port port (\<lambda>p. p\<lparr>ip_blocked := []\<rparr>) w);
          (now, w2) = ipc_port_timestamp w1;
          dnrequests = ip_dnrequests (w_ports w2 port);
          w3 = upd_port port (\<lambda>p. p\<lparr>ip_bits := ip_bits p AND NOT IO_BITS_ACTIVE, ip_data := now, ip_dnrequests := None\<rparr>) w2;
          w4 = emit [ThreadPoolWakeup port] w3;
          nsrequest = ip_nsrequest (w_ports w4 port);
          w5 = (if nsrequest \<noteq> IP_NULL then emit [NotifySendOnce nsrequest] w4 else w4);
          w6 = destroy_messages port (imq_messages (ip_messages (w_ports w5 port))) w5;
          w7 = (case dnrequests of None \<Rightarrow> w6 | Some t \<Rightarrow> emit (ipc_port_dnnotify dnits t) w6);
          w8 = (if io_kotype (ip_bits (w_ports w7 port)) \<noteq> 0 then emit [KobjectDestroy port] w7 else w7)
      in ipc_port_release port w8)"

definition ipc_port_destroy ::
  "nat list \<Rightarrow> bool \<Rightarrow> ipc_port_t \<Rightarrow> ipc_world \<Rightarrow> ipc_world option" where
  "ipc_port_destroy dnits try port w =
     (let pdrequest = ip_pdrequest (w_ports w port) in
      if pdrequest \<noteq> IP_NULL then do {
        (circular, w1) \<leftarrow> ipc_port_check_circularity try port pdrequest
          (upd_port port (\<lambda>p. p\<lparr>ip_pdrequest := IP_NULL, ip_receiver_name := MACH_PORT_NULL, ip_data := IP_NULL\<rparr>) w);
        Some (if \<not> circular then emit [NotifyPortDestroyed pdrequest port] w1
              else destroy_port dnits port (ipc_port_release_sonce pdrequest w1))
      }
      else Some (destroy_port dnits port w))"

definition ipc_port_release_receive :: "nat list \<Rightarrow> bool \<Rightarrow> ipc_port_t \<Rightarrow> ipc_world \<Rightarrow> ipc_world option" where
  "ipc_port_release_receive dnits try port w = do {
     let dest = ip_destination (w_ports w port);
     w1 \<leftarrow> ipc_port_destroy dnits try port w;
     Some (if dest \<noteq> IP_NULL then ipc_port_release dest w1 else w1)
   }"

text \<open>\<open>address\<close> is the new port, if there is memory.\<close>

definition ipc_port_alloc_special :: "ipc_port_t option \<Rightarrow> ipc_space_t \<Rightarrow> ipc_world \<Rightarrow> ipc_port_t \<times> ipc_world" where
  "ipc_port_alloc_special address space w = (case address of
     None \<Rightarrow> (IP_NULL, w)
   | Some port \<Rightarrow> (port, upd_port port (\<lambda>_. ipc_port_init space 1
        (zero_port\<lparr>ip_references := 1, ip_bits := io_makebits True IOT_PORT 0\<rparr>)) w))"

definition ipc_port_dealloc_special :: "nat list \<Rightarrow> bool \<Rightarrow> ipc_port_t \<Rightarrow> ipc_world \<Rightarrow> ipc_world option" where
  "ipc_port_dealloc_special dnits try port w =
     ipc_port_destroy dnits try port (upd_port port (\<lambda>p. p\<lparr>ip_receiver_name := MACH_PORT_NULL, ip_data := 0,
       ip_mscount := 0, ip_seqno := 0\<rparr>) w)"

end
