(* ===== verification/Ipc_Right.thy ===== *)
theory Ipc_Right
  imports Ipc_Port
begin

text \<open>
  Rights (\<open>ipc/ipc_right.c\<close>): the operations on an entry of a space together with the port or port
  set it names. A state is the world and the space. \<open>None\<close> stands for a panic, for a pointer to no
  entry, or for a run that does not end. The functions that switch on the kind of right are split
  into one definition per case.
\<close>

type_synonym right_state = "ipc_world \<times> ipc_space"

section \<open>Entries, hash tables and requests\<close>

definition upd_entry :: "ipc_entry_ref \<Rightarrow> (ipc_entry \<Rightarrow> ipc_entry) \<Rightarrow> right_state \<Rightarrow> right_state option" where
  "upd_entry ref f s = map_option (\<lambda>e. (fst s, put_entry (snd s) ref (f e))) (get_entry (snd s) ref)"

abbreviation set_bits :: "ipc_entry_ref \<Rightarrow> ipc_entry_bits_t \<Rightarrow> right_state \<Rightarrow> right_state option" where
  "set_bits ref bits \<equiv> upd_entry ref (\<lambda>e. e\<lparr>ie_bits := bits\<rparr>)"

abbreviation clear_object :: "ipc_entry_ref \<Rightarrow> right_state \<Rightarrow> right_state option" where
  "clear_object ref \<equiv> upd_entry ref (\<lambda>e. e\<lparr>ie_object := IO_NULL\<rparr>)"

definition right_hash_insert ::
  "ipc_object_t \<Rightarrow> mach_port_t \<Rightarrow> ipc_entry_ref \<Rightarrow> right_state \<Rightarrow> right_state option" where
  "right_hash_insert obj name ref s =
     map_option (\<lambda>(g, sp). ((fst s)\<lparr>w_hash := g\<rparr>, sp)) (ipc_hash_insert (w_hash (fst s), snd s) obj name ref)"

definition right_hash_delete ::
  "ipc_object_t \<Rightarrow> mach_port_t \<Rightarrow> ipc_entry_ref \<Rightarrow> right_state \<Rightarrow> right_state option" where
  "right_hash_delete obj name ref s =
     map_option (\<lambda>(g, sp). ((fst s)\<lparr>w_hash := g\<rparr>, sp)) (ipc_hash_delete (w_hash (fst s), snd s) obj name ref)"

definition right_entry_dealloc ::
  "nat list \<Rightarrow> mach_port_t \<Rightarrow> ipc_entry_ref \<Rightarrow> right_state \<Rightarrow> right_state option" where
  "right_entry_dealloc its name ref s =
     map_option (\<lambda>(g, sp). ((fst s)\<lparr>w_hash := g\<rparr>, sp)) (ipc_entry_dealloc its (w_hash (fst s), snd s) name ref)"

definition on_world :: "(ipc_world \<Rightarrow> ipc_world) \<Rightarrow> right_state \<Rightarrow> right_state" where
  "on_world f s = (f (fst s), snd s)"

abbreviation port_of :: "right_state \<Rightarrow> ipc_port_t \<Rightarrow> ipc_port" where
  "port_of s port \<equiv> w_ports (fst s) port"

text \<open>The sending of a notification, if there is a send-once right for it.\<close>

definition notify_no_senders :: "ipc_port_t \<times> natural_t \<Rightarrow> right_state \<Rightarrow> right_state" where
  "notify_no_senders r s = (case r of (nsrequest, mscount) \<Rightarrow>
     if nsrequest \<noteq> IP_NULL then on_world (emit [NotifyNoSenders nsrequest mscount]) s else s)"

definition notify_port_deleted :: "ipc_port_t \<Rightarrow> mach_port_t \<Rightarrow> right_state \<Rightarrow> right_state" where
  "notify_port_deleted dnrequest name s =
     (if dnrequest \<noteq> IP_NULL then on_world (emit [NotifyPortDeleted dnrequest name]) s else s)"

text \<open>
  The port loses a send right; with the last one goes the no-senders request, which is returned with
  the make-send count.
\<close>

definition drop_srights :: "ipc_port_t \<Rightarrow> right_state \<Rightarrow> (ipc_port_t \<times> natural_t) \<times> right_state" where
  "drop_srights port s =
     (let s1 = on_world (upd_port port (\<lambda>p. p\<lparr>ip_srights := ip_srights p - 1\<rparr>)) s; p = port_of s1 port in
      if ip_srights p = 0 \<and> ip_nsrequest p \<noteq> IP_NULL
      then ((ip_nsrequest p, ip_mscount p), on_world (upd_port port (\<lambda>p. p\<lparr>ip_nsrequest := IP_NULL\<rparr>)) s1)
      else ((IP_NULL, 0), s1))"

section \<open>Lookup\<close>

definition ipc_right_lookup_write ::
  "mach_port_t \<Rightarrow> right_state \<Rightarrow> (kern_return_t \<times> ipc_entry_ref option \<times> right_state) option" where
  "ipc_right_lookup_write name s =
     (if \<not> is_active (snd s) then Some (KERN_INVALID_TASK, None, s)
      else do {
        (r, space1) \<leftarrow> ipc_entry_lookup (snd s) name;
        Some (if r = None then KERN_INVALID_NAME else KERN_SUCCESS, r, fst s, space1)
      })"

definition ipc_right_reverse ::
  "ipc_object_t \<Rightarrow> right_state \<Rightarrow> ((mach_port_t \<times> ipc_entry_ref) option \<times> right_state) option" where
  "ipc_right_reverse port s =
     (if \<not> ip_active (port_of s port) then Some (None, s)
      else if ip_receiver (port_of s port) = is_self (snd s) then do {
        let name = ip_receiver_name (port_of s port);
        (r, space1) \<leftarrow> ipc_entry_lookup (snd s) name;
        ref \<leftarrow> r;
        Some (Some (name, ref), fst s, space1)
      }
      else do {
        (r, g, sp) \<leftarrow> ipc_hash_lookup (w_hash (fst s), snd s) port;
        Some (r, (fst s)\<lparr>w_hash := g\<rparr>, sp)
      })"

definition ipc_right_inuse :: "ipc_entry_ref \<Rightarrow> right_state \<Rightarrow> bool option" where
  "ipc_right_inuse ref s =
     map_option (\<lambda>e. IE_BITS_TYPE (ie_bits e) \<noteq> MACH_PORT_TYPE_NONE) (get_entry (snd s) ref)"

section \<open>Dead ports and dead-name requests\<close>

definition ipc_right_dncancel ::
  "ipc_port_t \<Rightarrow> mach_port_t \<Rightarrow> ipc_entry_ref \<Rightarrow> right_state \<Rightarrow> (ipc_port_t \<times> right_state) option" where
  "ipc_right_dncancel port name ref s = do {
     e \<leftarrow> get_entry (snd s) ref;
     (dnrequest, w) \<leftarrow> ipc_port_dncancel port name (ie_request e) (fst s);
     s1 \<leftarrow> upd_entry ref (\<lambda>e. e\<lparr>ie_request := 0\<rparr>) (w, snd s);
     Some (dnrequest, s1)
   }"

definition ipc_right_dncancel_macro ::
  "ipc_port_t \<Rightarrow> mach_port_t \<Rightarrow> ipc_entry_ref \<Rightarrow> right_state \<Rightarrow> (ipc_port_t \<times> right_state) option" where
  "ipc_right_dncancel_macro port name ref s = do {
     e \<leftarrow> get_entry (snd s) ref;
     if ie_request e = 0 then Some (IP_NULL, s) else ipc_right_dncancel port name ref s
   }"

text \<open>The result says whether the port has died; then the entry is a dead name.\<close>

definition ipc_right_check ::
  "ipc_port_t \<Rightarrow> mach_port_t \<Rightarrow> ipc_entry_ref \<Rightarrow> right_state \<Rightarrow> (bool \<times> right_state) option" where
  "ipc_right_check port name ref s =
     (if ip_active (port_of s port) then Some (False, s)
      else do {
        e \<leftarrow> get_entry (snd s) ref;
        let bits = ie_bits e;
        s1 \<leftarrow> (if bits AND MACH_PORT_TYPE_SEND \<noteq> 0 then right_hash_delete port name ref s else Some s);
        let s2 = on_world (ipc_port_release port) s1;
        let bits1 = (bits AND NOT IE_BITS_TYPE_MASK) OR MACH_PORT_TYPE_DEAD_NAME;
        s3 \<leftarrow> upd_entry ref (\<lambda>e. e\<lparr>ie_bits := if ie_request e \<noteq> 0 then bits1 + 1 else bits1,
             ie_request := 0, ie_object := IO_NULL\<rparr>) s2;
        Some (True, s3)
      })"

text \<open>
  The loop of \<open>ipc_right_dnrequest\<close>. While the table of requests grows, \<open>wenv\<close> acts on the world and
  \<open>env\<close> on the unlocked space.
\<close>

partial_function (option) ipc_right_dnrequest ::
  "nat list \<Rightarrow> (nat \<Rightarrow> 32 word option) \<Rightarrow> (ipc_world \<Rightarrow> ipc_world) \<Rightarrow> (right_state \<Rightarrow> right_state) \<Rightarrow>
   mach_port_t \<Rightarrow> bool \<Rightarrow> ipc_port_t \<Rightarrow> right_state \<Rightarrow> (kern_return_t \<times> ipc_port_t \<times> right_state) option" where
  "ipc_right_dnrequest dnits mem wenv env name immediate notify s = do {
     (kr, r, s1) \<leftarrow> ipc_right_lookup_write name s;
     (case r of None \<Rightarrow> Some (kr, IP_NULL, s1)
      | Some ref \<Rightarrow> do {
          e \<leftarrow> get_entry (snd s1) ref;
          let bits = ie_bits e;
          let port = ie_object e;
          (dead, s2) \<leftarrow> (if bits AND MACH_PORT_TYPE_PORT_RIGHTS \<noteq> 0 then ipc_right_check port name ref s1 else Some (True, s1));
          if \<not> dead then do {
            (previous, s3) \<leftarrow> ipc_right_dncancel_macro port name ref s2;
            if notify = IP_NULL then Some (KERN_SUCCESS, previous, s3)
            else
              case ipc_port_dnrequest port name notify (fst s3) of (kr1, request, w4) \<Rightarrow>
                if kr1 \<noteq> KERN_SUCCESS then do {
                  (kr2, w5) \<leftarrow> ipc_port_dngrow dnits mem wenv port ITS_SIZE_NONE w4;
                  if kr2 \<noteq> KERN_SUCCESS then Some (kr2, IP_NULL, w5, snd s3)
                  else ipc_right_dnrequest dnits mem wenv env name immediate notify (env (w5, snd s3))
                }
                else do {
                  s6 \<leftarrow> upd_entry ref (\<lambda>e. e\<lparr>ie_request := request\<rparr>) (w4, snd s3);
                  Some (KERN_SUCCESS, previous, s6)
                }
          }
          else do {
            e2 \<leftarrow> get_entry (snd s2) ref;
            let bits2 = ie_bits e2;
            if bits2 AND MACH_PORT_TYPE_DEAD_NAME \<noteq> 0 \<and> immediate \<and> notify \<noteq> IP_NULL then
              (if MACH_PORT_UREFS_OVERFLOW (IE_BITS_UREFS bits2) 1 then Some (KERN_UREFS_OVERFLOW, IP_NULL, s2)
               else do {
                 s3 \<leftarrow> set_bits ref (bits2 + 1) s2;
                 Some (KERN_SUCCESS, IP_NULL, on_world (emit [NotifyDeadName notify name]) s3)
               })
            else if bits2 AND MACH_PORT_TYPE_PORT_OR_DEAD \<noteq> 0 then Some (KERN_INVALID_ARGUMENT, IP_NULL, s2)
            else Some (KERN_INVALID_RIGHT, IP_NULL, s2)
          }
        })
   }"

declare ipc_right_dnrequest.simps [code]

section \<open>Cleaning and destroying entries\<close>

text \<open>What happens to the port when a right of type \<open>type\<close> to it goes.\<close>

definition release_right ::
  "nat list \<Rightarrow> bool \<Rightarrow> natural_t \<Rightarrow> ipc_port_t \<Rightarrow> right_state \<Rightarrow> right_state option" where
  "release_right dnits try type port s =
     (if type AND MACH_PORT_TYPE_RECEIVE \<noteq> 0
      then map_option (\<lambda>w. (w, snd s)) (ipc_port_destroy dnits try port (ipc_port_clear_receiver port (fst s)))
      else if type AND MACH_PORT_TYPE_SEND_ONCE \<noteq> 0 then Some (on_world (emit [NotifySendOnce port]) s)
      else Some (on_world (ip_release port) s))"

abbreviation port_type :: "natural_t \<Rightarrow> bool" where
  "port_type type \<equiv> type = MACH_PORT_TYPE_SEND \<or> type = MACH_PORT_TYPE_RECEIVE \<or>
     type = MACH_PORT_TYPE_SEND_RECEIVE \<or> type = MACH_PORT_TYPE_SEND_ONCE"

definition ipc_right_clean ::
  "nat list \<Rightarrow> bool \<Rightarrow> mach_port_t \<Rightarrow> ipc_entry_ref \<Rightarrow> right_state \<Rightarrow> right_state option" where
  "ipc_right_clean dnits try name ref s = do {
     e \<leftarrow> get_entry (snd s) ref;
     let type = IE_BITS_TYPE (ie_bits e);
     let port = ie_object e;
     if type = MACH_PORT_TYPE_DEAD_NAME then Some s
     else if type = MACH_PORT_TYPE_PORT_SET then Some (on_world (ipc_pset_destroy port) s)
     else if port_type type then
       if \<not> ip_active (port_of s port) then Some (on_world (ipc_port_release port) s)
       else do {
         (dnrequest, s1) \<leftarrow> ipc_right_dncancel_macro port name ref s;
         let (ns, s2) = (if type AND MACH_PORT_TYPE_SEND \<noteq> 0 then drop_srights port s1 else ((IP_NULL, 0), s1));
         s3 \<leftarrow> release_right dnits try type port s2;
         Some (notify_port_deleted dnrequest name (notify_no_senders ns s3))
       }
     else None
   }"

text \<open>The case of a right to a port.\<close>

definition destroy_port_right ::
  "nat list \<Rightarrow> nat list \<Rightarrow> bool \<Rightarrow> mach_port_t \<Rightarrow> ipc_entry_ref \<Rightarrow> natural_t \<Rightarrow> ipc_port_t \<Rightarrow> right_state \<Rightarrow> right_state option" where
  "destroy_port_right its dnits try name ref type port s = do {
     s1 \<leftarrow> (if type = MACH_PORT_TYPE_SEND then right_hash_delete port name ref s else Some s);
     if \<not> ip_active (port_of s1 port) then do {
       s2 \<leftarrow> upd_entry ref (\<lambda>e. e\<lparr>ie_request := 0, ie_object := IO_NULL\<rparr>) (on_world (ipc_port_release port) s1);
       right_entry_dealloc its name ref s2
     }
     else do {
       (dnrequest, s2) \<leftarrow> ipc_right_dncancel_macro port name ref s1;
       s3 \<leftarrow> clear_object ref s2;
       s4 \<leftarrow> right_entry_dealloc its name ref s3;
       let (ns, s5) = (if type AND MACH_PORT_TYPE_SEND \<noteq> 0 then drop_srights port s4 else ((IP_NULL, 0), s4));
       let subsystem = ip_subsystem (port_of s5 port);
       let s6 = (if type AND MACH_PORT_TYPE_RECEIVE \<noteq> 0 \<and> subsystem \<noteq> 0
                 then on_world (emit [SubsystemDeallocate subsystem]) s5 else s5);
       s7 \<leftarrow> release_right dnits try type port s6;
       Some (notify_port_deleted dnrequest name (notify_no_senders ns s7))
     }
   }"

definition ipc_right_destroy ::
  "nat list \<Rightarrow> nat list \<Rightarrow> bool \<Rightarrow> mach_port_t \<Rightarrow> ipc_entry_ref \<Rightarrow> right_state \<Rightarrow> (kern_return_t \<times> right_state) option" where
  "ipc_right_destroy its dnits try name ref s = do {
     e \<leftarrow> get_entry (snd s) ref;
     let type = IE_BITS_TYPE (ie_bits e);
     s1 \<leftarrow>
       (if type = MACH_PORT_TYPE_DEAD_NAME then right_entry_dealloc its name ref s
        else if type = MACH_PORT_TYPE_PORT_SET then do {
          s1 \<leftarrow> clear_object ref s;
          s2 \<leftarrow> right_entry_dealloc its name ref s1;
          Some (on_world (ipc_pset_destroy (ie_object e)) s2)
        }
        else if port_type type then destroy_port_right its dnits try name ref type (ie_object e) s
        else None);
     Some (KERN_SUCCESS, s1)
   }"

section \<open>Releasing a user reference\<close>

text \<open>The label \<open>dead_name\<close> of \<open>ipc_right_dealloc\<close>.\<close>

definition dealloc_dead_name ::
  "nat list \<Rightarrow> mach_port_t \<Rightarrow> ipc_entry_ref \<Rightarrow> ipc_entry_bits_t \<Rightarrow> right_state \<Rightarrow> (kern_return_t \<times> right_state) option" where
  "dealloc_dead_name its name ref bits s =
     map_option (Pair KERN_SUCCESS)
       (if IE_BITS_UREFS bits = 1 then right_entry_dealloc its name ref s else set_bits ref (bits - 1) s)"

definition dealloc_dead_port ::
  "nat list \<Rightarrow> mach_port_t \<Rightarrow> ipc_entry_ref \<Rightarrow> right_state \<Rightarrow> (kern_return_t \<times> right_state) option" where
  "dealloc_dead_port its name ref s = do {
     e \<leftarrow> get_entry (snd s) ref;
     dealloc_dead_name its name ref (ie_bits e) s
   }"

definition dealloc_send_once ::
  "nat list \<Rightarrow> mach_port_t \<Rightarrow> ipc_entry_ref \<Rightarrow> ipc_port_t \<Rightarrow> right_state \<Rightarrow> (kern_return_t \<times> right_state) option" where
  "dealloc_send_once its name ref port s = do {
     (dead, s1) \<leftarrow> ipc_right_check port name ref s;
     if dead then dealloc_dead_port its name ref s1
     else do {
       (dnrequest, s2) \<leftarrow> ipc_right_dncancel_macro port name ref s1;
       s3 \<leftarrow> clear_object ref s2;
       s4 \<leftarrow> right_entry_dealloc its name ref s3;
       Some (KERN_SUCCESS, notify_port_deleted dnrequest name (on_world (emit [NotifySendOnce port]) s4))
     }
   }"

text \<open>The last user reference of a send right goes.\<close>

definition dealloc_last_send ::
  "nat list \<Rightarrow> mach_port_t \<Rightarrow> ipc_entry_ref \<Rightarrow> ipc_port_t \<Rightarrow> right_state \<Rightarrow> (kern_return_t \<times> right_state) option" where
  "dealloc_last_send its name ref port s =
     (case drop_srights port s of (ns, s1) \<Rightarrow> do {
        (dnrequest, s2) \<leftarrow> ipc_right_dncancel_macro port name ref s1;
        s3 \<leftarrow> right_hash_delete port name ref s2;
        s4 \<leftarrow> clear_object ref (on_world (ip_release port) s3);
        s5 \<leftarrow> right_entry_dealloc its name ref s4;
        Some (KERN_SUCCESS, notify_port_deleted dnrequest name (notify_no_senders ns s5))
      })"

definition dealloc_send ::
  "nat list \<Rightarrow> mach_port_t \<Rightarrow> ipc_entry_ref \<Rightarrow> ipc_entry_bits_t \<Rightarrow> ipc_port_t \<Rightarrow> right_state \<Rightarrow>
   (kern_return_t \<times> right_state) option" where
  "dealloc_send its name ref bits port s = do {
     (dead, s1) \<leftarrow> ipc_right_check port name ref s;
     if dead then dealloc_dead_port its name ref s1
     else if IE_BITS_UREFS bits = 1 then dealloc_last_send its name ref port s1
     else map_option (Pair KERN_SUCCESS) (set_bits ref (bits - 1) s1)
   }"

definition dealloc_send_receive ::
  "ipc_entry_ref \<Rightarrow> ipc_entry_bits_t \<Rightarrow> ipc_port_t \<Rightarrow> right_state \<Rightarrow> (kern_return_t \<times> right_state) option" where
  "dealloc_send_receive ref bits port s =
     (if IE_BITS_UREFS bits = 1
      then case drop_srights port s of (ns, s1) \<Rightarrow> do {
        s2 \<leftarrow> set_bits ref (bits AND NOT (IE_BITS_UREFS_MASK OR MACH_PORT_TYPE_SEND)) s1;
        Some (KERN_SUCCESS, notify_no_senders ns s2)
      }
      else map_option (Pair KERN_SUCCESS) (set_bits ref (bits - 1) s))"

definition ipc_right_dealloc ::
  "nat list \<Rightarrow> mach_port_t \<Rightarrow> ipc_entry_ref \<Rightarrow> right_state \<Rightarrow> (kern_return_t \<times> right_state) option" where
  "ipc_right_dealloc its name ref s = do {
     e \<leftarrow> get_entry (snd s) ref;
     let bits = ie_bits e;
     let type = IE_BITS_TYPE bits;
     let port = ie_object e;
     if type = MACH_PORT_TYPE_DEAD_NAME then dealloc_dead_name its name ref bits s
     else if type = MACH_PORT_TYPE_SEND_ONCE then dealloc_send_once its name ref port s
     else if type = MACH_PORT_TYPE_SEND then dealloc_send its name ref bits port s
     else if type = MACH_PORT_TYPE_SEND_RECEIVE then dealloc_send_receive ref bits port s
     else Some (KERN_INVALID_RIGHT, s)
   }"

section \<open>Changing user references\<close>

definition delta_port_set ::
  "nat list \<Rightarrow> mach_port_t \<Rightarrow> ipc_entry_ref \<Rightarrow> mach_port_delta_t \<Rightarrow> ipc_entry \<Rightarrow> right_state \<Rightarrow>
   (kern_return_t \<times> right_state) option" where
  "delta_port_set its name ref delta e s =
     (if ie_bits e AND MACH_PORT_TYPE_PORT_SET = 0 then Some (KERN_INVALID_RIGHT, s)
      else if delta = 0 then Some (KERN_SUCCESS, s)
      else if delta \<noteq> - 1 then Some (KERN_INVALID_VALUE, s)
      else do {
        s1 \<leftarrow> clear_object ref s;
        s2 \<leftarrow> right_entry_dealloc its name ref s1;
        Some (KERN_SUCCESS, on_world (ipc_pset_destroy (ie_object e)) s2)
      })"

definition delta_receive ::
  "nat list \<Rightarrow> nat list \<Rightarrow> bool \<Rightarrow> mach_port_t \<Rightarrow> ipc_entry_ref \<Rightarrow> mach_port_delta_t \<Rightarrow> ipc_entry \<Rightarrow> right_state \<Rightarrow>
   (kern_return_t \<times> right_state) option" where
  "delta_receive its dnits try name ref delta e s =
     (let bits = ie_bits e; port = ie_object e in
      if bits AND MACH_PORT_TYPE_RECEIVE = 0 then Some (KERN_INVALID_RIGHT, s)
      else if delta = 0 then Some (KERN_SUCCESS, s)
      else if delta \<noteq> - 1 then Some (KERN_INVALID_VALUE, s)
      else do {
        (dnrequest, s1) \<leftarrow>
          (if bits AND MACH_PORT_TYPE_SEND \<noteq> 0 then do {
             let bits1 = (bits AND NOT IE_BITS_TYPE_MASK) OR MACH_PORT_TYPE_DEAD_NAME;
             s1 \<leftarrow> upd_entry ref (\<lambda>e. e\<lparr>ie_bits := if ie_request e \<noteq> 0 then bits1 + 1 else bits1,
                ie_request := 0, ie_object := IO_NULL\<rparr>) s;
             Some (IP_NULL, s1)
           }
           else do {
             (dnrequest, s1) \<leftarrow> ipc_right_dncancel_macro port name ref s;
             s2 \<leftarrow> clear_object ref s1;
             s3 \<leftarrow> right_entry_dealloc its name ref s2;
             Some (dnrequest, s3)
           });
        w \<leftarrow> ipc_port_destroy dnits try port (ipc_port_clear_receiver port (fst s1));
        Some (KERN_SUCCESS, notify_port_deleted dnrequest name (w, snd s1))
      })"

definition delta_send_once ::
  "nat list \<Rightarrow> mach_port_t \<Rightarrow> ipc_entry_ref \<Rightarrow> mach_port_delta_t \<Rightarrow> ipc_entry \<Rightarrow> right_state \<Rightarrow>
   (kern_return_t \<times> right_state) option" where
  "delta_send_once its name ref delta e s =
     (let port = ie_object e in
      if ie_bits e AND MACH_PORT_TYPE_SEND_ONCE = 0 then Some (KERN_INVALID_RIGHT, s)
      else do {
        (dead, s1) \<leftarrow> ipc_right_check port name ref s;
        if dead then Some (KERN_INVALID_RIGHT, s1)
        else if 0 < sint delta \<or> sint delta < - 1 then Some (KERN_INVALID_VALUE, s1)
        else if delta = 0 then Some (KERN_SUCCESS, s1)
        else do {
          (dnrequest, s2) \<leftarrow> ipc_right_dncancel_macro port name ref s1;
          s3 \<leftarrow> clear_object ref s2;
          s4 \<leftarrow> right_entry_dealloc its name ref s3;
          Some (KERN_SUCCESS, notify_port_deleted dnrequest name (on_world (emit [NotifySendOnce port]) s4))
        }
      })"

definition delta_dead_name ::
  "nat list \<Rightarrow> mach_port_t \<Rightarrow> ipc_entry_ref \<Rightarrow> mach_port_delta_t \<Rightarrow> ipc_entry \<Rightarrow> right_state \<Rightarrow>
   (kern_return_t \<times> right_state) option" where
  "delta_dead_name its name ref delta e s = do {
     (dead, s1) \<leftarrow>
       (if ie_bits e AND MACH_PORT_TYPE_SEND_RIGHTS \<noteq> 0 then ipc_right_check (ie_object e) name ref s
        else Some (ie_bits e AND MACH_PORT_TYPE_DEAD_NAME \<noteq> 0, s));
     if \<not> dead then Some (KERN_INVALID_RIGHT, s1)
     else do {
       e1 \<leftarrow> get_entry (snd s1) ref;
       let bits = ie_bits e1;
       let urefs = IE_BITS_UREFS bits;
       if MACH_PORT_UREFS_UNDERFLOW urefs delta then Some (KERN_INVALID_VALUE, s1)
       else if MACH_PORT_UREFS_OVERFLOW urefs delta then Some (KERN_UREFS_OVERFLOW, s1)
       else map_option (Pair KERN_SUCCESS)
         (if urefs + delta = 0 then right_entry_dealloc its name ref s1 else set_bits ref (bits + delta) s1)
     }
   }"

definition delta_send ::
  "nat list \<Rightarrow> mach_port_t \<Rightarrow> ipc_entry_ref \<Rightarrow> mach_port_delta_t \<Rightarrow> ipc_entry \<Rightarrow> right_state \<Rightarrow>
   (kern_return_t \<times> right_state) option" where
  "delta_send its name ref delta e s =
     (let bits = ie_bits e; port = ie_object e; urefs = IE_BITS_UREFS bits in
      if bits AND MACH_PORT_TYPE_SEND = 0 then Some (KERN_INVALID_RIGHT, s)
      else do {
        (dead, s1) \<leftarrow> ipc_right_check port name ref s;
        if dead then Some (KERN_INVALID_RIGHT, s1)
        else if MACH_PORT_UREFS_UNDERFLOW urefs delta then Some (KERN_INVALID_VALUE, s1)
        else if MACH_PORT_UREFS_OVERFLOW (urefs + 1) delta then Some (KERN_UREFS_OVERFLOW, s1)
        else if urefs + delta = 0 then
          (if bits AND MACH_PORT_TYPE_RECEIVE \<noteq> 0
           then case drop_srights port s1 of (ns, s2) \<Rightarrow> do {
             s3 \<leftarrow> set_bits ref (bits AND NOT (IE_BITS_UREFS_MASK OR MACH_PORT_TYPE_SEND)) s2;
             Some (KERN_SUCCESS, notify_no_senders ns s3)
           }
           else dealloc_last_send its name ref port s1)
        else map_option (Pair KERN_SUCCESS) (set_bits ref (bits + delta) s1)
      })"

definition ipc_right_delta ::
  "nat list \<Rightarrow> nat list \<Rightarrow> bool \<Rightarrow> mach_port_t \<Rightarrow> ipc_entry_ref \<Rightarrow> mach_port_right_t \<Rightarrow> mach_port_delta_t \<Rightarrow> right_state \<Rightarrow>
   (kern_return_t \<times> right_state) option" where
  "ipc_right_delta its dnits try name ref right delta s = do {
     e \<leftarrow> get_entry (snd s) ref;
     case right of
       MACH_PORT_RIGHT_PORT_SET \<Rightarrow> delta_port_set its name ref delta e s
     | MACH_PORT_RIGHT_RECEIVE \<Rightarrow> delta_receive its dnits try name ref delta e s
     | MACH_PORT_RIGHT_SEND_ONCE \<Rightarrow> delta_send_once its name ref delta e s
     | MACH_PORT_RIGHT_DEAD_NAME \<Rightarrow> delta_dead_name its name ref delta e s
     | MACH_PORT_RIGHT_SEND \<Rightarrow> delta_send its name ref delta e s
   }"

definition ipc_right_info ::
  "mach_port_t \<Rightarrow> ipc_entry_ref \<Rightarrow> right_state \<Rightarrow> (kern_return_t \<times> (natural_t \<times> natural_t) \<times> right_state) option" where
  "ipc_right_info name ref s = do {
     e \<leftarrow> get_entry (snd s) ref;
     (dead, s1) \<leftarrow> (if ie_bits e AND MACH_PORT_TYPE_SEND_RIGHTS \<noteq> 0
        then ipc_right_check (ie_object e) name ref s else Some (False, s));
     e1 \<leftarrow> get_entry (snd s1) ref;
     let bits = ie_bits e1;
     let type = (if ie_request e1 \<noteq> 0 then IE_BITS_TYPE bits OR MACH_PORT_TYPE_DNREQUEST else IE_BITS_TYPE bits);
     Some (KERN_SUCCESS, (type, IE_BITS_UREFS bits), s1)
   }"

section \<open>Copyin\<close>

type_synonym mach_msg_type_name_t = "32 word"

definition MACH_MSG_TYPE_MOVE_RECEIVE :: mach_msg_type_name_t where
  "MACH_MSG_TYPE_MOVE_RECEIVE = 16"

definition MACH_MSG_TYPE_MOVE_SEND :: mach_msg_type_name_t where
  "MACH_MSG_TYPE_MOVE_SEND = 17"

definition MACH_MSG_TYPE_MOVE_SEND_ONCE :: mach_msg_type_name_t where
  "MACH_MSG_TYPE_MOVE_SEND_ONCE = 18"

definition MACH_MSG_TYPE_COPY_SEND :: mach_msg_type_name_t where
  "MACH_MSG_TYPE_COPY_SEND = 19"

definition MACH_MSG_TYPE_MAKE_SEND :: mach_msg_type_name_t where
  "MACH_MSG_TYPE_MAKE_SEND = 20"

definition MACH_MSG_TYPE_MAKE_SEND_ONCE :: mach_msg_type_name_t where
  "MACH_MSG_TYPE_MAKE_SEND_ONCE = 21"

lemmas msg_type_defs [ipc_defs] = MACH_MSG_TYPE_MOVE_RECEIVE_def MACH_MSG_TYPE_MOVE_SEND_def
  MACH_MSG_TYPE_MOVE_SEND_ONCE_def MACH_MSG_TYPE_COPY_SEND_def MACH_MSG_TYPE_MAKE_SEND_def
  MACH_MSG_TYPE_MAKE_SEND_ONCE_def

abbreviation MACH_MSG_TYPE_PORT_RECEIVE :: mach_msg_type_name_t where
  "MACH_MSG_TYPE_PORT_RECEIVE \<equiv> MACH_MSG_TYPE_MOVE_RECEIVE"

abbreviation MACH_MSG_TYPE_PORT_SEND :: mach_msg_type_name_t where
  "MACH_MSG_TYPE_PORT_SEND \<equiv> MACH_MSG_TYPE_MOVE_SEND"

abbreviation MACH_MSG_TYPE_PORT_SEND_ONCE :: mach_msg_type_name_t where
  "MACH_MSG_TYPE_PORT_SEND_ONCE \<equiv> MACH_MSG_TYPE_MOVE_SEND_ONCE"

definition ipc_right_copyin_check ::
  "ipc_entry_ref \<Rightarrow> mach_msg_type_name_t \<Rightarrow> right_state \<Rightarrow> bool option" where
  "ipc_right_copyin_check ref msgt_name s = do {
     e \<leftarrow> get_entry (snd s) ref;
     let bits = ie_bits e;
     if msgt_name = MACH_MSG_TYPE_MAKE_SEND \<or> msgt_name = MACH_MSG_TYPE_MAKE_SEND_ONCE \<or>
        msgt_name = MACH_MSG_TYPE_MOVE_RECEIVE
     then Some (bits AND MACH_PORT_TYPE_RECEIVE \<noteq> 0)
     else if msgt_name = MACH_MSG_TYPE_COPY_SEND \<or> msgt_name = MACH_MSG_TYPE_MOVE_SEND \<or>
        msgt_name = MACH_MSG_TYPE_MOVE_SEND_ONCE
     then
       if bits AND MACH_PORT_TYPE_DEAD_NAME \<noteq> 0 then Some True
       else if bits AND MACH_PORT_TYPE_SEND_RIGHTS = 0 then Some False
       else if \<not> ip_active (port_of s (ie_object e)) then Some True
       else if msgt_name = MACH_MSG_TYPE_MOVE_SEND_ONCE then Some (bits AND MACH_PORT_TYPE_SEND_ONCE \<noteq> 0)
       else Some (bits AND MACH_PORT_TYPE_SEND \<noteq> 0)
     else None
   }"

text \<open>
  The result of a copyin: the return code, the object and the send-once right for a port-deleted
  notification, and the state.
\<close>

type_synonym copyin_result = "kern_return_t \<times> ipc_object_t \<times> ipc_port_t \<times> right_state"

abbreviation invalid_right :: "right_state \<Rightarrow> copyin_result" where
  "invalid_right s \<equiv> (KERN_INVALID_RIGHT, IO_NULL, IP_NULL, s)"

definition copyin_make_send :: "ipc_entry \<Rightarrow> right_state \<Rightarrow> copyin_result option" where
  "copyin_make_send e s =
     (let port = ie_object e in
      if ie_bits e AND MACH_PORT_TYPE_RECEIVE = 0 then Some (invalid_right s)
      else Some (KERN_SUCCESS, port, IP_NULL, on_world (\<lambda>w. ip_reference port
             (upd_port port (\<lambda>p. p\<lparr>ip_mscount := ip_mscount p + 1, ip_srights := ip_srights p + 1\<rparr>) w)) s))"

definition copyin_make_send_once :: "ipc_entry \<Rightarrow> right_state \<Rightarrow> copyin_result option" where
  "copyin_make_send_once e s =
     (let port = ie_object e in
      if ie_bits e AND MACH_PORT_TYPE_RECEIVE = 0 then Some (invalid_right s)
      else Some (KERN_SUCCESS, port, IP_NULL, on_world (\<lambda>w. ip_reference port
             (upd_port port (\<lambda>p. p\<lparr>ip_sorights := ip_sorights p + 1\<rparr>) w)) s))"

definition copyin_move_receive ::
  "mach_port_t \<Rightarrow> ipc_entry_ref \<Rightarrow> ipc_entry \<Rightarrow> right_state \<Rightarrow> copyin_result option" where
  "copyin_move_receive name ref e s =
     (let bits = ie_bits e; port = ie_object e in
      if bits AND MACH_PORT_TYPE_RECEIVE = 0 then Some (invalid_right s)
      else do {
        (dnrequest, s1) \<leftarrow>
          (if bits AND MACH_PORT_TYPE_SEND \<noteq> 0 then do {
             s1 \<leftarrow> right_hash_insert port name ref s;
             Some (IP_NULL, on_world (ip_reference port) s1)
           }
           else do {
             (dnrequest, s1) \<leftarrow> ipc_right_dncancel_macro port name ref s;
             s2 \<leftarrow> clear_object ref s1;
             Some (dnrequest, s2)
           });
        s2 \<leftarrow> set_bits ref (bits AND NOT MACH_PORT_TYPE_RECEIVE) s1;
        Some (KERN_SUCCESS, port, dnrequest, on_world (\<lambda>w. upd_port port
           (\<lambda>p. p\<lparr>ip_receiver_name := MACH_PORT_NULL, ip_data := IP_NULL\<rparr>) (ipc_port_clear_receiver port w)) s2)
      })"

text \<open>The labels \<open>copy_dead\<close> and \<open>move_dead\<close>.\<close>

definition copyin_copy_dead :: "bool \<Rightarrow> right_state \<Rightarrow> copyin_result option" where
  "copyin_copy_dead deadok s =
     (if \<not> deadok then Some (invalid_right s) else Some (KERN_SUCCESS, IO_DEAD, IP_NULL, s))"

definition copyin_move_dead :: "ipc_entry_ref \<Rightarrow> bool \<Rightarrow> right_state \<Rightarrow> copyin_result option" where
  "copyin_move_dead ref deadok s =
     (if \<not> deadok then Some (invalid_right s)
      else do {
        e \<leftarrow> get_entry (snd s) ref;
        let bits = ie_bits e;
        s1 \<leftarrow> set_bits ref (if IE_BITS_UREFS bits = 1 then bits AND NOT MACH_PORT_TYPE_DEAD_NAME else bits - 1) s;
        Some (KERN_SUCCESS, IO_DEAD, IP_NULL, s1)
      })"

definition copyin_copy_send ::
  "mach_port_t \<Rightarrow> ipc_entry_ref \<Rightarrow> bool \<Rightarrow> ipc_entry \<Rightarrow> right_state \<Rightarrow> copyin_result option" where
  "copyin_copy_send name ref deadok e s =
     (let bits = ie_bits e; port = ie_object e in
      if bits AND MACH_PORT_TYPE_DEAD_NAME \<noteq> 0 then copyin_copy_dead deadok s
      else if bits AND MACH_PORT_TYPE_SEND_RIGHTS = 0 then Some (invalid_right s)
      else do {
        (dead, s1) \<leftarrow> ipc_right_check port name ref s;
        if dead then copyin_copy_dead deadok s1
        else if bits AND MACH_PORT_TYPE_SEND = 0 then Some (invalid_right s1)
        else Some (KERN_SUCCESS, port, IP_NULL, on_world (\<lambda>w. ip_reference port
               (upd_port port (\<lambda>p. p\<lparr>ip_srights := ip_srights p + 1\<rparr>) w)) s1)
      })"

definition copyin_move_send ::
  "mach_port_t \<Rightarrow> ipc_entry_ref \<Rightarrow> bool \<Rightarrow> ipc_entry \<Rightarrow> right_state \<Rightarrow> copyin_result option" where
  "copyin_move_send name ref deadok e s =
     (let bits = ie_bits e; port = ie_object e in
      if bits AND MACH_PORT_TYPE_DEAD_NAME \<noteq> 0 then copyin_move_dead ref deadok s
      else if bits AND MACH_PORT_TYPE_SEND_RIGHTS = 0 then Some (invalid_right s)
      else do {
        (dead, s1) \<leftarrow> ipc_right_check port name ref s;
        if dead then copyin_move_dead ref deadok s1
        else if bits AND MACH_PORT_TYPE_SEND = 0 then Some (invalid_right s1)
        else if IE_BITS_UREFS bits = 1 then do {
          (dnrequest, s2) \<leftarrow>
            (if bits AND MACH_PORT_TYPE_RECEIVE \<noteq> 0 then Some (IP_NULL, on_world (ip_reference port) s1)
             else do {
               (dnrequest, s2) \<leftarrow> ipc_right_dncancel_macro port name ref s1;
               s3 \<leftarrow> right_hash_delete port name ref s2;
               s4 \<leftarrow> clear_object ref s3;
               Some (dnrequest, s4)
             });
          s3 \<leftarrow> set_bits ref (bits AND NOT (IE_BITS_UREFS_MASK OR MACH_PORT_TYPE_SEND)) s2;
          Some (KERN_SUCCESS, port, dnrequest, s3)
        }
        else do {
          s2 \<leftarrow> set_bits ref (bits - 1) (on_world (\<lambda>w. ip_reference port
             (upd_port port (\<lambda>p. p\<lparr>ip_srights := ip_srights p + 1\<rparr>) w)) s1);
          Some (KERN_SUCCESS, port, IP_NULL, s2)
        }
      })"

definition copyin_move_send_once ::
  "mach_port_t \<Rightarrow> ipc_entry_ref \<Rightarrow> bool \<Rightarrow> ipc_entry \<Rightarrow> right_state \<Rightarrow> copyin_result option" where
  "copyin_move_send_once name ref deadok e s =
     (let bits = ie_bits e; port = ie_object e in
      if bits AND MACH_PORT_TYPE_DEAD_NAME \<noteq> 0 then copyin_move_dead ref deadok s
      else if bits AND MACH_PORT_TYPE_SEND_RIGHTS = 0 then Some (invalid_right s)
      else do {
        (dead, s1) \<leftarrow> ipc_right_check port name ref s;
        if dead then copyin_move_dead ref deadok s1
        else if bits AND MACH_PORT_TYPE_SEND_ONCE = 0 then Some (invalid_right s1)
        else do {
          (dnrequest, s2) \<leftarrow> ipc_right_dncancel_macro port name ref s1;
          s3 \<leftarrow> upd_entry ref (\<lambda>e. e\<lparr>ie_object := IO_NULL, ie_bits := bits AND NOT MACH_PORT_TYPE_SEND_ONCE\<rparr>) s2;
          Some (KERN_SUCCESS, port, dnrequest, s3)
        }
      })"

definition ipc_right_copyin ::
  "mach_port_t \<Rightarrow> ipc_entry_ref \<Rightarrow> mach_msg_type_name_t \<Rightarrow> bool \<Rightarrow> right_state \<Rightarrow> copyin_result option" where
  "ipc_right_copyin name ref msgt_name deadok s = do {
     e \<leftarrow> get_entry (snd s) ref;
     if msgt_name = MACH_MSG_TYPE_MAKE_SEND then copyin_make_send e s
     else if msgt_name = MACH_MSG_TYPE_MAKE_SEND_ONCE then copyin_make_send_once e s
     else if msgt_name = MACH_MSG_TYPE_MOVE_RECEIVE then copyin_move_receive name ref e s
     else if msgt_name = MACH_MSG_TYPE_COPY_SEND then copyin_copy_send name ref deadok e s
     else if msgt_name = MACH_MSG_TYPE_MOVE_SEND then copyin_move_send name ref deadok e s
     else if msgt_name = MACH_MSG_TYPE_MOVE_SEND_ONCE then copyin_move_send_once name ref deadok e s
     else None
   }"

definition ipc_right_copyin_undo ::
  "mach_port_t \<Rightarrow> ipc_entry_ref \<Rightarrow> mach_msg_type_name_t \<Rightarrow> ipc_object_t \<Rightarrow> ipc_port_t \<Rightarrow> right_state \<Rightarrow> right_state option" where
  "ipc_right_copyin_undo name ref msgt_name object soright s = do {
     e \<leftarrow> get_entry (snd s) ref;
     let bits = ie_bits e;
     s1 \<leftarrow>
       (if soright \<noteq> IP_NULL
        then set_bits ref (((bits AND NOT IE_BITS_RIGHT_MASK) OR MACH_PORT_TYPE_DEAD_NAME) OR 2) s
        else if IE_BITS_TYPE bits = MACH_PORT_TYPE_NONE
        then set_bits ref (((bits AND NOT IE_BITS_RIGHT_MASK) OR MACH_PORT_TYPE_DEAD_NAME) OR 1) s
        else if IE_BITS_TYPE bits = MACH_PORT_TYPE_DEAD_NAME
        then (if msgt_name \<noteq> MACH_MSG_TYPE_COPY_SEND then set_bits ref (bits + 1) s else Some s)
        else do {
          s1 \<leftarrow> (if msgt_name \<noteq> MACH_MSG_TYPE_COPY_SEND then set_bits ref (bits + 1) s else Some s);
          (dead, s2) \<leftarrow> ipc_right_check object name ref s1;
          Some s2
        });
     Some (if object \<noteq> IO_DEAD then on_world (ipc_object_release object) s1 else s1)
   }"

definition ipc_right_copyin_two ::
  "mach_port_t \<Rightarrow> ipc_entry_ref \<Rightarrow> right_state \<Rightarrow> copyin_result option" where
  "ipc_right_copyin_two name ref s = do {
     e \<leftarrow> get_entry (snd s) ref;
     let bits = ie_bits e;
     let urefs = IE_BITS_UREFS bits;
     let port = ie_object e;
     let more = (\<lambda>n. on_world (upd_port port (\<lambda>p. p\<lparr>ip_srights := ip_srights p + n\<rparr>)));
     if bits AND MACH_PORT_TYPE_SEND = 0 \<or> urefs < 2 then Some (invalid_right s)
     else do {
       (dead, s1) \<leftarrow> ipc_right_check port name ref s;
       if dead then Some (invalid_right s1)
       else if urefs = 2 then do {
         (dnrequest, s2) \<leftarrow>
           (if bits AND MACH_PORT_TYPE_RECEIVE \<noteq> 0
            then Some (IP_NULL, on_world (ip_reference port) (on_world (ip_reference port) (more 1 s1)))
            else do {
              (dnrequest, s2) \<leftarrow> ipc_right_dncancel_macro port name ref s1;
              s3 \<leftarrow> right_hash_delete port name ref s2;
              s4 \<leftarrow> clear_object ref (on_world (ip_reference port) (more 1 s3));
              Some (dnrequest, s4)
            });
         s3 \<leftarrow> set_bits ref (bits AND NOT (IE_BITS_UREFS_MASK OR MACH_PORT_TYPE_SEND)) s2;
         Some (KERN_SUCCESS, port, dnrequest, s3)
       }
       else do {
         s2 \<leftarrow> set_bits ref (bits - 2) (on_world (ip_reference port) (on_world (ip_reference port) (more 2 s1)));
         Some (KERN_SUCCESS, port, IP_NULL, s2)
       }
     }
   }"

section \<open>Copyout and renaming\<close>

definition copyout_send ::
  "mach_port_t \<Rightarrow> ipc_entry_ref \<Rightarrow> bool \<Rightarrow> ipc_entry_bits_t \<Rightarrow> ipc_port_t \<Rightarrow> right_state \<Rightarrow>
   (kern_return_t \<times> right_state) option" where
  "copyout_send name ref overflow bits port s =
     (let merge = on_world (\<lambda>w. ip_release port (upd_port port (\<lambda>p. p\<lparr>ip_srights := ip_srights p - 1\<rparr>) w));
          finish = (\<lambda>s. map_option (Pair KERN_SUCCESS) (set_bits ref ((bits OR MACH_PORT_TYPE_SEND) + 1) s))
      in if bits AND MACH_PORT_TYPE_SEND \<noteq> 0 then
           if IE_BITS_UREFS bits + 1 = MACH_PORT_UREFS_MAX then
             (if overflow then Some (KERN_SUCCESS, merge s) else Some (KERN_UREFS_OVERFLOW, s))
           else finish (merge s)
         else if bits AND MACH_PORT_TYPE_RECEIVE \<noteq> 0 then finish (on_world (ip_release port) s)
         else Option.bind (right_hash_insert port name ref s) finish)"

definition copyout_receive ::
  "mach_port_t \<Rightarrow> ipc_entry_ref \<Rightarrow> ipc_entry_bits_t \<Rightarrow> ipc_port_t \<Rightarrow> right_state \<Rightarrow> (kern_return_t \<times> right_state) option" where
  "copyout_receive name ref bits port s = do {
     let dest = ip_destination (port_of s port);
     let s1 = on_world (upd_port port (\<lambda>p. p\<lparr>ip_receiver_name := name, ip_data := is_self (snd s)\<rparr>)) s;
     s2 \<leftarrow> (if bits AND MACH_PORT_TYPE_SEND \<noteq> 0
            then right_hash_delete port name ref (on_world (ip_release port) s1) else Some s1);
     s3 \<leftarrow> set_bits ref (bits OR MACH_PORT_TYPE_RECEIVE) s2;
     Some (KERN_SUCCESS, if dest \<noteq> IP_NULL then on_world (ipc_port_release dest) s3 else s3)
   }"

definition ipc_right_copyout ::
  "mach_port_t \<Rightarrow> ipc_entry_ref \<Rightarrow> mach_msg_type_name_t \<Rightarrow> bool \<Rightarrow> ipc_object_t \<Rightarrow> right_state \<Rightarrow>
   (kern_return_t \<times> right_state) option" where
  "ipc_right_copyout name ref msgt_name overflow object s = do {
     e \<leftarrow> get_entry (snd s) ref;
     let bits = ie_bits e;
     if msgt_name = MACH_MSG_TYPE_PORT_SEND_ONCE
     then map_option (Pair KERN_SUCCESS) (set_bits ref (bits OR (MACH_PORT_TYPE_SEND_ONCE OR 1)) s)
     else if msgt_name = MACH_MSG_TYPE_PORT_SEND then copyout_send name ref overflow bits object s
     else if msgt_name = MACH_MSG_TYPE_PORT_RECEIVE then copyout_receive name ref bits object s
     else None
   }"

definition ipc_right_rename ::
  "nat list \<Rightarrow> mach_port_t \<Rightarrow> ipc_entry_ref \<Rightarrow> mach_port_t \<Rightarrow> ipc_entry_ref \<Rightarrow> right_state \<Rightarrow>
   (kern_return_t \<times> right_state) option" where
  "ipc_right_rename its oname oref nname nref s = do {
     oe \<leftarrow> get_entry (snd s) oref;
     let port = ie_object oe;
     (bits, request, object, s1) \<leftarrow>
       (if ie_request oe \<noteq> 0 then do {
          (dead, s1) \<leftarrow> ipc_right_check port oname oref s;
          if dead then do {
            e1 \<leftarrow> get_entry (snd s1) oref;
            Some (ie_bits e1, 0, IO_NULL, s1)
          }
          else do {
            w \<leftarrow> ipc_port_dnrename port (ie_request oe) oname nname (fst s1);
            s2 \<leftarrow> upd_entry oref (\<lambda>e. e\<lparr>ie_request := 0\<rparr>) (w, snd s1);
            Some (ie_bits oe, ie_request oe, port, s2)
          }
        }
        else Some (ie_bits oe, 0, port, s));
     s2 \<leftarrow> upd_entry nref (\<lambda>e. e\<lparr>ie_bits := ie_bits e OR (bits AND IE_BITS_RIGHT_MASK),
        ie_request := request, ie_object := object\<rparr>) s1;
     let type = IE_BITS_TYPE bits;
     s3 \<leftarrow>
       (if type = MACH_PORT_TYPE_SEND
        then Option.bind (right_hash_delete object oname oref s2) (right_hash_insert object nname nref)
        else if type = MACH_PORT_TYPE_RECEIVE \<or> type = MACH_PORT_TYPE_SEND_RECEIVE
        then Some (on_world (upd_port object (\<lambda>p. p\<lparr>ip_receiver_name := nname\<rparr>)) s2)
        else if type = MACH_PORT_TYPE_PORT_SET
        then Some (on_world (upd_pset object (\<lambda>s. s\<lparr>ips_local_name := nname\<rparr>)) s2)
        else if type = MACH_PORT_TYPE_SEND_ONCE \<or> type = MACH_PORT_TYPE_DEAD_NAME then Some s2
        else None);
     s4 \<leftarrow> clear_object oref s3;
     s5 \<leftarrow> right_entry_dealloc its oname oref s4;
     Some (KERN_SUCCESS, s5)
   }"

end
