(* ===== verification/Ipc_Object.thy ===== *)
theory Ipc_Object
  imports Ipc_Right
begin

text \<open>
  Objects and spaces as the rest of the kernel uses them (\<open>ipc/ipc_object.c\<close> and the parts of
  \<open>ipc_port.c\<close>, \<open>ipc_pset.c\<close> and \<open>ipc_space.c\<close> that rest on it): allocation, copyin and copyout of
  capabilities, renaming, and the destruction of a space.

  \<open>its\<close> and \<open>mem\<close> are the sizes of entry tables and for which there is memory, \<open>ite\<close> whether there is
  memory for a tree entry, \<open>env\<close> what other threads do while a table grows, and \<open>address\<close> the memory
  of a new object, if there is any.
\<close>

section \<open>Translation and dead names\<close>

definition ipc_object_translate ::
  "mach_port_t \<Rightarrow> mach_port_right_t \<Rightarrow> right_state \<Rightarrow> (kern_return_t \<times> ipc_object_t \<times> right_state) option" where
  "ipc_object_translate name right s = do {
     (kr, r, s1) \<leftarrow> ipc_right_lookup_write name s;
     case r of
       None \<Rightarrow> Some (kr, IO_NULL, s1)
     | Some ref \<Rightarrow> do {
         e \<leftarrow> get_entry (snd s1) ref;
         Some (if ie_bits e AND MACH_PORT_TYPE right = 0 then (KERN_INVALID_RIGHT, IO_NULL, s1)
               else (KERN_SUCCESS, ie_object e, s1))
       }
   }"

definition right_entry_alloc ::
  "nat list \<Rightarrow> (nat \<Rightarrow> bool) \<Rightarrow> (ipc_state \<Rightarrow> ipc_state) \<Rightarrow> right_state \<Rightarrow>
   (kern_return_t \<times> (mach_port_t \<times> ipc_entry_ref) option \<times> right_state) option" where
  "right_entry_alloc its mem env s =
     map_option (\<lambda>(kr, r, g, sp). (kr, r, (fst s)\<lparr>w_hash := g\<rparr>, sp)) (ipc_entry_alloc its mem env (w_hash (fst s), snd s))"

definition right_entry_alloc_name ::
  "nat list \<Rightarrow> (nat \<Rightarrow> bool) \<Rightarrow> bool \<Rightarrow> (ipc_state \<Rightarrow> ipc_state) \<Rightarrow> mach_port_t \<Rightarrow> right_state \<Rightarrow>
   (kern_return_t \<times> ipc_entry_ref option \<times> right_state) option" where
  "right_entry_alloc_name its mem ite env name s =
     map_option (\<lambda>(kr, r, g, sp). (kr, r, (fst s)\<lparr>w_hash := g\<rparr>, sp))
       (ipc_entry_alloc_name its mem ite env False (w_hash (fst s), snd s) name)"

definition ipc_object_alloc_dead ::
  "nat list \<Rightarrow> (nat \<Rightarrow> bool) \<Rightarrow> (ipc_state \<Rightarrow> ipc_state) \<Rightarrow> right_state \<Rightarrow>
   (kern_return_t \<times> mach_port_t \<times> right_state) option" where
  "ipc_object_alloc_dead its mem env s = do {
     (kr, r, s1) \<leftarrow> right_entry_alloc its mem env s;
     case r of
       None \<Rightarrow> Some (kr, MACH_PORT_NULL, s1)
     | Some (name, ref) \<Rightarrow> do {
         s2 \<leftarrow> upd_entry ref (\<lambda>e. e\<lparr>ie_bits := ie_bits e OR (MACH_PORT_TYPE_DEAD_NAME OR 1)\<rparr>) s1;
         Some (KERN_SUCCESS, name, s2)
       }
   }"

definition ipc_object_alloc_dead_name ::
  "nat list \<Rightarrow> (nat \<Rightarrow> bool) \<Rightarrow> bool \<Rightarrow> (ipc_state \<Rightarrow> ipc_state) \<Rightarrow> mach_port_t \<Rightarrow> right_state \<Rightarrow>
   (kern_return_t \<times> right_state) option" where
  "ipc_object_alloc_dead_name its mem ite env name s = do {
     (kr, r, s1) \<leftarrow> right_entry_alloc_name its mem ite env name s;
     case r of
       None \<Rightarrow> Some (kr, s1)
     | Some ref \<Rightarrow> do {
         inuse \<leftarrow> ipc_right_inuse ref s1;
         if inuse then Some (KERN_NAME_EXISTS, s1)
         else do {
           s2 \<leftarrow> upd_entry ref (\<lambda>e. e\<lparr>ie_bits := ie_bits e OR (MACH_PORT_TYPE_DEAD_NAME OR 1)\<rparr>) s1;
           Some (KERN_SUCCESS, s2)
         }
       }
   }"

section \<open>Allocation\<close>

text \<open>The memory of a new object is cleared; once it has an entry, it has one reference and is active.\<close>

definition object_clear :: "natural_t \<Rightarrow> ipc_object_t \<Rightarrow> ipc_world \<Rightarrow> ipc_world" where
  "object_clear otype object w =
     (if otype = IOT_PORT then upd_port object (\<lambda>_. zero_port) w
      else if otype = IOT_PORT_SET then upd_pset object (\<lambda>_. zero_pset) w else w)"

definition object_start :: "natural_t \<Rightarrow> ipc_object_t \<Rightarrow> ipc_world \<Rightarrow> ipc_world" where
  "object_start otype object w =
     (if otype = IOT_PORT
      then upd_port object (\<lambda>p. p\<lparr>ip_references := 1, ip_bits := io_makebits True otype 0\<rparr>) w
      else upd_pset object (\<lambda>s. s\<lparr>ips_references := 1, ips_bits := io_makebits True otype 0\<rparr>) w)"

definition ipc_object_alloc ::
  "nat list \<Rightarrow> (nat \<Rightarrow> bool) \<Rightarrow> (ipc_state \<Rightarrow> ipc_state) \<Rightarrow> ipc_object_t option \<Rightarrow> natural_t \<Rightarrow> natural_t \<Rightarrow> natural_t \<Rightarrow>
   right_state \<Rightarrow> (kern_return_t \<times> (mach_port_t \<times> ipc_object_t) option \<times> right_state) option" where
  "ipc_object_alloc its mem env address otype type urefs s = (case address of
     None \<Rightarrow> Some (KERN_RESOURCE_SHORTAGE, None, s)
   | Some object \<Rightarrow> do {
       (kr, r, s1) \<leftarrow> right_entry_alloc its mem env (on_world (object_clear otype object) s);
       case r of
         None \<Rightarrow> Some (kr, None, on_world (emit [IoFree object]) s1)
       | Some (name, ref) \<Rightarrow> do {
           s2 \<leftarrow> upd_entry ref (\<lambda>e. e\<lparr>ie_bits := ie_bits e OR (type OR urefs), ie_object := object\<rparr>) s1;
           Some (KERN_SUCCESS, Some (name, object), on_world (object_start otype object) s2)
         }
     })"

definition ipc_object_alloc_name ::
  "nat list \<Rightarrow> (nat \<Rightarrow> bool) \<Rightarrow> bool \<Rightarrow> (ipc_state \<Rightarrow> ipc_state) \<Rightarrow> ipc_object_t option \<Rightarrow> natural_t \<Rightarrow> natural_t \<Rightarrow> natural_t \<Rightarrow>
   mach_port_t \<Rightarrow> right_state \<Rightarrow> (kern_return_t \<times> ipc_object_t option \<times> right_state) option" where
  "ipc_object_alloc_name its mem ite env address otype type urefs name s = (case address of
     None \<Rightarrow> Some (KERN_RESOURCE_SHORTAGE, None, s)
   | Some object \<Rightarrow> do {
       (kr, r, s1) \<leftarrow> right_entry_alloc_name its mem ite env name (on_world (object_clear otype object) s);
       case r of
         None \<Rightarrow> Some (kr, None, on_world (emit [IoFree object]) s1)
       | Some ref \<Rightarrow> do {
           inuse \<leftarrow> ipc_right_inuse ref s1;
           if inuse then Some (KERN_NAME_EXISTS, None, on_world (emit [IoFree object]) s1)
           else do {
             s2 \<leftarrow> upd_entry ref (\<lambda>e. e\<lparr>ie_bits := ie_bits e OR (type OR urefs), ie_object := object\<rparr>) s1;
             Some (KERN_SUCCESS, Some object, on_world (object_start otype object) s2)
           }
         }
     })"

definition ipc_port_alloc ::
  "nat list \<Rightarrow> (nat \<Rightarrow> bool) \<Rightarrow> (ipc_state \<Rightarrow> ipc_state) \<Rightarrow> ipc_object_t option \<Rightarrow> right_state \<Rightarrow>
   (kern_return_t \<times> (mach_port_t \<times> ipc_port_t) option \<times> right_state) option" where
  "ipc_port_alloc its mem env address s = do {
     (kr, r, s1) \<leftarrow> ipc_object_alloc its mem env address IOT_PORT MACH_PORT_TYPE_RECEIVE 0 s;
     case r of
       None \<Rightarrow> Some (kr, None, s1)
     | Some (name, port) \<Rightarrow> Some (KERN_SUCCESS, Some (name, port),
         on_world (upd_port port (ipc_port_init (is_self (snd s1)) name)) s1)
   }"

definition ipc_port_alloc_name ::
  "nat list \<Rightarrow> (nat \<Rightarrow> bool) \<Rightarrow> bool \<Rightarrow> (ipc_state \<Rightarrow> ipc_state) \<Rightarrow> ipc_object_t option \<Rightarrow> mach_port_t \<Rightarrow> right_state \<Rightarrow>
   (kern_return_t \<times> ipc_port_t option \<times> right_state) option" where
  "ipc_port_alloc_name its mem ite env address name s = do {
     (kr, r, s1) \<leftarrow> ipc_object_alloc_name its mem ite env address IOT_PORT MACH_PORT_TYPE_RECEIVE 0 name s;
     case r of
       None \<Rightarrow> Some (kr, None, s1)
     | Some port \<Rightarrow> Some (KERN_SUCCESS, Some port,
         on_world (upd_port port (ipc_port_init (is_self (snd s1)) name)) s1)
   }"

definition ipc_pset_alloc ::
  "nat list \<Rightarrow> (nat \<Rightarrow> bool) \<Rightarrow> (ipc_state \<Rightarrow> ipc_state) \<Rightarrow> ipc_object_t option \<Rightarrow> right_state \<Rightarrow>
   (kern_return_t \<times> (mach_port_t \<times> ipc_pset_t) option \<times> right_state) option" where
  "ipc_pset_alloc its mem env address s = do {
     (kr, r, s1) \<leftarrow> ipc_object_alloc its mem env address IOT_PORT_SET MACH_PORT_TYPE_PORT_SET 0 s;
     case r of
       None \<Rightarrow> Some (kr, None, s1)
     | Some (name, pset) \<Rightarrow> Some (KERN_SUCCESS, Some (name, pset), on_world (upd_pset pset (\<lambda>p.
         p\<lparr>ips_local_name := name, ips_messages := ipc_mqueue_init (ips_messages p)\<rparr>)) s1)
   }"

definition ipc_pset_alloc_name ::
  "nat list \<Rightarrow> (nat \<Rightarrow> bool) \<Rightarrow> bool \<Rightarrow> (ipc_state \<Rightarrow> ipc_state) \<Rightarrow> ipc_object_t option \<Rightarrow> mach_port_t \<Rightarrow> right_state \<Rightarrow>
   (kern_return_t \<times> ipc_pset_t option \<times> right_state) option" where
  "ipc_pset_alloc_name its mem ite env address name s = do {
     (kr, r, s1) \<leftarrow> ipc_object_alloc_name its mem ite env address IOT_PORT_SET MACH_PORT_TYPE_PORT_SET 0 name s;
     case r of
       None \<Rightarrow> Some (kr, None, s1)
     | Some pset \<Rightarrow> Some (KERN_SUCCESS, Some pset, on_world (upd_pset pset (\<lambda>p.
         p\<lparr>ips_local_name := name, ips_messages := ipc_mqueue_init (ips_messages p)\<rparr>)) s1)
   }"

section \<open>Copyin\<close>

definition ipc_object_copyin_type :: "mach_msg_type_name_t \<Rightarrow> mach_msg_type_name_t option" where
  "ipc_object_copyin_type msgt_name =
     (if msgt_name = 0 then Some 0
      else if msgt_name = MACH_MSG_TYPE_MOVE_RECEIVE then Some MACH_MSG_TYPE_PORT_RECEIVE
      else if msgt_name = MACH_MSG_TYPE_MOVE_SEND_ONCE \<or> msgt_name = MACH_MSG_TYPE_MAKE_SEND_ONCE
      then Some MACH_MSG_TYPE_PORT_SEND_ONCE
      else if msgt_name = MACH_MSG_TYPE_MOVE_SEND \<or> msgt_name = MACH_MSG_TYPE_MAKE_SEND \<or>
        msgt_name = MACH_MSG_TYPE_COPY_SEND
      then Some MACH_MSG_TYPE_PORT_SEND
      else None)"

definition ipc_object_copyin ::
  "nat list \<Rightarrow> mach_port_t \<Rightarrow> mach_msg_type_name_t \<Rightarrow> right_state \<Rightarrow> (kern_return_t \<times> ipc_object_t \<times> right_state) option" where
  "ipc_object_copyin its name msgt_name s = do {
     (kr, r, s1) \<leftarrow> ipc_right_lookup_write name s;
     case r of
       None \<Rightarrow> Some (kr, IO_NULL, s1)
     | Some ref \<Rightarrow> do {
         (kr1, object, soright, s2) \<leftarrow> ipc_right_copyin name ref msgt_name True s1;
         e \<leftarrow> get_entry (snd s2) ref;
         s3 \<leftarrow> (if IE_BITS_TYPE (ie_bits e) = MACH_PORT_TYPE_NONE then right_entry_dealloc its name ref s2 else Some s2);
         Some (kr1, object, if kr1 = KERN_SUCCESS then notify_port_deleted soright name s3 else s3)
       }
   }"

definition ipc_object_copyin_from_kernel ::
  "ipc_object_t \<Rightarrow> mach_msg_type_name_t \<Rightarrow> ipc_world \<Rightarrow> ipc_world option" where
  "ipc_object_copyin_from_kernel port msgt_name w =
     (if msgt_name = MACH_MSG_TYPE_MOVE_RECEIVE
      then Some (upd_port port (\<lambda>p. p\<lparr>ip_mscount := 0, ip_receiver_name := MACH_PORT_NULL, ip_data := IP_NULL\<rparr>) w)
      else if msgt_name = MACH_MSG_TYPE_COPY_SEND
      then Some (ip_reference port (if ip_active (w_ports w port)
             then upd_port port (\<lambda>p. p\<lparr>ip_srights := ip_srights p + 1\<rparr>) w else w))
      else if msgt_name = MACH_MSG_TYPE_MAKE_SEND
      then Some (upd_port port (\<lambda>p. p\<lparr>ip_mscount := ip_mscount p + 1, ip_srights := ip_srights p + 1\<rparr>) (ip_reference port w))
      else if msgt_name = MACH_MSG_TYPE_MOVE_SEND then Some w
      else if msgt_name = MACH_MSG_TYPE_MAKE_SEND_ONCE
      then Some (upd_port port (\<lambda>p. p\<lparr>ip_sorights := ip_sorights p + 1\<rparr>) (ip_reference port w))
      else if msgt_name = MACH_MSG_TYPE_MOVE_SEND_ONCE then Some w
      else None)"

definition ipc_object_destroy ::
  "nat list \<Rightarrow> bool \<Rightarrow> ipc_object_t \<Rightarrow> mach_msg_type_name_t \<Rightarrow> ipc_world \<Rightarrow> ipc_world option" where
  "ipc_object_destroy dnits try object msgt_name w =
     (if msgt_name = MACH_MSG_TYPE_PORT_SEND then Some (ipc_port_release_send object w)
      else if msgt_name = MACH_MSG_TYPE_PORT_SEND_ONCE then Some (emit [NotifySendOnce object] w)
      else if msgt_name = MACH_MSG_TYPE_PORT_RECEIVE then ipc_port_release_receive dnits try object w
      else None)"

section \<open>Copyout\<close>

text \<open>
  The loop finds the name under which the space has rights for the object, or makes an entry; the
  table grows until there is room. The entry that is returned names the object.
\<close>

partial_function (option) copyout_entry ::
  "nat list \<Rightarrow> (nat \<Rightarrow> bool) \<Rightarrow> (ipc_state \<Rightarrow> ipc_state) \<Rightarrow> ipc_object_t \<Rightarrow> mach_msg_type_name_t \<Rightarrow> right_state \<Rightarrow>
   (kern_return_t \<times> (mach_port_t \<times> ipc_entry_ref) option \<times> right_state) option" where
  "copyout_entry its mem env object msgt_name s =
     (if \<not> is_active (snd s) then Some (KERN_INVALID_TASK, None, s)
      else do {
        (found, s1) \<leftarrow> (if msgt_name \<noteq> MACH_MSG_TYPE_PORT_SEND_ONCE then ipc_right_reverse object s else Some (None, s));
        if found \<noteq> None then Some (KERN_SUCCESS, found, s1)
        else case ipc_entry_get (snd s1) of
          (kr, None, space) \<Rightarrow> do {
            (kr1, locked, g, sp) \<leftarrow> ipc_entry_grow_table its mem env (w_hash (fst s1), space) ITS_SIZE_NONE;
            let s2 = ((fst s1)\<lparr>w_hash := g\<rparr>, sp);
            if kr1 \<noteq> KERN_SUCCESS then Some (kr1, None, s2) else copyout_entry its mem env object msgt_name s2
          }
        | (kr, Some (name, ref), space) \<Rightarrow>
            if \<not> ip_active (port_of s1 object) then do {
              s2 \<leftarrow> right_entry_dealloc its name ref (fst s1, space);
              Some (KERN_INVALID_CAPABILITY, None, s2)
            }
            else do {
              s2 \<leftarrow> upd_entry ref (\<lambda>e. e\<lparr>ie_object := object\<rparr>) (fst s1, space);
              Some (KERN_SUCCESS, Some (name, ref), s2)
            }
      })"

declare copyout_entry.simps [code]

definition ipc_object_copyout ::
  "nat list \<Rightarrow> (nat \<Rightarrow> bool) \<Rightarrow> (ipc_state \<Rightarrow> ipc_state) \<Rightarrow> ipc_object_t \<Rightarrow> mach_msg_type_name_t \<Rightarrow> bool \<Rightarrow> right_state \<Rightarrow>
   (kern_return_t \<times> mach_port_t \<times> right_state) option" where
  "ipc_object_copyout its mem env object msgt_name overflow s = do {
     (kr, r, s1) \<leftarrow> copyout_entry its mem env object msgt_name s;
     case r of
       None \<Rightarrow> Some (kr, MACH_PORT_NULL, s1)
     | Some (name, ref) \<Rightarrow> do {
         (kr1, s2) \<leftarrow> ipc_right_copyout name ref msgt_name overflow object s1;
         Some (kr1, if kr1 = KERN_SUCCESS then name else MACH_PORT_NULL, s2)
       }
   }"

definition ipc_object_copyout_name ::
  "nat list \<Rightarrow> (nat \<Rightarrow> bool) \<Rightarrow> bool \<Rightarrow> (ipc_state \<Rightarrow> ipc_state) \<Rightarrow> ipc_object_t \<Rightarrow> mach_msg_type_name_t \<Rightarrow> bool \<Rightarrow>
   mach_port_t \<Rightarrow> right_state \<Rightarrow> (kern_return_t \<times> right_state) option" where
  "ipc_object_copyout_name its mem ite env object msgt_name overflow name s = do {
     (kr, r, s1) \<leftarrow> right_entry_alloc_name its mem ite env name s;
     case r of
       None \<Rightarrow> Some (kr, s1)
     | Some ref \<Rightarrow> do {
         (found, s2) \<leftarrow> (if msgt_name \<noteq> MACH_MSG_TYPE_PORT_SEND_ONCE then ipc_right_reverse object s1 else Some (None, s1));
         case found of
           Some (oname, oref) \<Rightarrow>
             if name \<noteq> oname then do {
               e \<leftarrow> get_entry (snd s2) ref;
               s3 \<leftarrow> (if IE_BITS_TYPE (ie_bits e) = MACH_PORT_TYPE_NONE then right_entry_dealloc its name ref s2 else Some s2);
               Some (KERN_RIGHT_EXISTS, s3)
             }
             else ipc_right_copyout name ref msgt_name overflow object s2
         | None \<Rightarrow> do {
             inuse \<leftarrow> ipc_right_inuse ref s2;
             if inuse then Some (KERN_NAME_EXISTS, s2)
             else if \<not> ip_active (port_of s2 object) then do {
               s3 \<leftarrow> right_entry_dealloc its name ref s2;
               Some (KERN_INVALID_CAPABILITY, s3)
             }
             else do {
               s3 \<leftarrow> upd_entry ref (\<lambda>e. e\<lparr>ie_object := object\<rparr>) s2;
               ipc_right_copyout name ref msgt_name overflow object s3
             }
           }
       }
   }"

definition ipc_port_copyout_send ::
  "nat list \<Rightarrow> (nat \<Rightarrow> bool) \<Rightarrow> (ipc_state \<Rightarrow> ipc_state) \<Rightarrow> ipc_port_t \<Rightarrow> right_state \<Rightarrow> (mach_port_t \<times> right_state) option" where
  "ipc_port_copyout_send its mem env sright s =
     (if IO_VALID sright then do {
        (kr, name, s1) \<leftarrow> ipc_object_copyout its mem env sright MACH_MSG_TYPE_PORT_SEND True s;
        Some (if kr \<noteq> KERN_SUCCESS
              then (if kr = KERN_INVALID_CAPABILITY then MACH_PORT_DEAD else MACH_PORT_NULL,
                    on_world (ipc_port_release_send sright) s1)
              else (name, s1))
      }
      else Some (sright, s))"

definition ipc_object_copyout_dest ::
  "ipc_object_t \<Rightarrow> mach_msg_type_name_t \<Rightarrow> right_state \<Rightarrow> (mach_port_t \<times> right_state) option" where
  "ipc_object_copyout_dest port msgt_name s =
     (let s1 = on_world (ip_release port) s; receiver = (ip_receiver (port_of s1 port) = is_self (snd s1)) in
      if msgt_name = MACH_MSG_TYPE_PORT_SEND then
        (case drop_srights port s1 of (ns, s2) \<Rightarrow>
           Some (if receiver then ip_receiver_name (port_of s1 port) else MACH_PORT_NULL, notify_no_senders ns s2))
      else if msgt_name = MACH_MSG_TYPE_PORT_SEND_ONCE then
        (if receiver
         then Some (ip_receiver_name (port_of s1 port),
                on_world (upd_port port (\<lambda>p. p\<lparr>ip_sorights := ip_sorights p - 1\<rparr>)) s1)
         else Some (MACH_PORT_NULL, on_world (emit [NotifySendOnce port]) (on_world (ip_reference port) s1)))
      else None)"

definition ipc_object_rename ::
  "nat list \<Rightarrow> (nat \<Rightarrow> bool) \<Rightarrow> bool \<Rightarrow> (ipc_state \<Rightarrow> ipc_state) \<Rightarrow> mach_port_t \<Rightarrow> mach_port_t \<Rightarrow> right_state \<Rightarrow>
   (kern_return_t \<times> right_state) option" where
  "ipc_object_rename its mem ite env oname nname s = do {
     (kr, r, s1) \<leftarrow> right_entry_alloc_name its mem ite env nname s;
     case r of
       None \<Rightarrow> Some (kr, s1)
     | Some nref \<Rightarrow> do {
         inuse \<leftarrow> ipc_right_inuse nref s1;
         if inuse then Some (KERN_NAME_EXISTS, s1)
         else do {
           (oref, space2) \<leftarrow> (if oname = nname then Some (None, snd s1) else ipc_entry_lookup (snd s1) oname);
           case oref of
             None \<Rightarrow> do {
               s3 \<leftarrow> right_entry_dealloc its nname nref (fst s1, space2);
               Some (KERN_INVALID_NAME, s3)
             }
           | Some oref \<Rightarrow> ipc_right_rename its oname oref nname nref (fst s1, space2)
         }
       }
   }"

section \<open>Destroying a space\<close>

text \<open>The loop over the slots of the table.\<close>

fun clean_table ::
  "nat list \<Rightarrow> bool \<Rightarrow> nat \<Rightarrow> nat \<Rightarrow> right_state \<Rightarrow> right_state option" where
  "clean_table dnits try index 0 s = Some s"
| "clean_table dnits try index (Suc n) s =
     (let entry = is_table (snd s) ! index in
      if IE_BITS_TYPE (ie_bits entry) \<noteq> MACH_PORT_TYPE_NONE
      then Option.bind (ipc_right_clean dnits try (MACH_PORT_MAKEB index (ie_bits entry)) (TableEntry index) s)
             (clean_table dnits try (index + 1) n)
      else clean_table dnits try (index + 1) n s)"

text \<open>The body of the traversal of the tree, which deletes every entry.\<close>

definition clean_tree_entry ::
  "nat list \<Rightarrow> bool \<Rightarrow> right_state option \<Rightarrow> mach_port_t \<Rightarrow> ipc_entry \<Rightarrow> ipc_entry option \<times> right_state option" where
  "clean_tree_entry dnits try s name tentry = (None, do {
     s0 \<leftarrow> s;
     let s1 = (if IE_BITS_TYPE (ie_bits tentry) = MACH_PORT_TYPE_SEND
               then (case ipc_hash_global_delete (w_hash (fst s0), snd s0) (ie_object tentry) name of (g, sp) \<Rightarrow>
                       ((fst s0)\<lparr>w_hash := g\<rparr>, sp))
               else s0);
     ipc_right_clean dnits try name (TreeEntry name) s1
   })"

text \<open>
  The space is marked dead; once no thread is growing it (\<open>env\<close> is what they do), its rights are
  cleaned up and the reference of the living space is dropped. \<open>None\<close> in place of the space: freed.
\<close>

definition ipc_space_destroy ::
  "nat list \<Rightarrow> bool \<Rightarrow> (right_state \<Rightarrow> right_state) \<Rightarrow> right_state \<Rightarrow> (ipc_world \<times> ipc_space option) option" where
  "ipc_space_destroy dnits try env s =
     (let active = is_active (snd s); s1 = (fst s, (snd s)\<lparr>is_active := False\<rparr>) in
      if \<not> active then Some (fst s1, Some (snd s1))
      else do {
        let s2 = (if is_growing (snd s1) then env s1 else s1);
        s3 \<leftarrow> clean_table dnits try 0 (is_table_size (snd s2)) s2;
        (tree, r) \<leftarrow> ipc_splay_traverse (clean_tree_entry dnits try) (is_tree (snd s3)) (Some s3);
        (w, space) \<leftarrow> r;
        Some (w, ipc_space_release (space\<lparr>is_tree := tree\<rparr>))
      })"

end
