(* ===== verification/Mach_Port.thy ===== *)
theory Mach_Port
  imports Ipc_Object
begin

text \<open>
  The kernel calls on ports (\<open>ipc/mach_port.c\<close>): the names of a space, allocation and destruction of
  rights, user references, port sets, notification requests, and the attributes of a port.

  \<^item> A caller passes its space; the null space is the one at address \<open>IS_NULL\<close>.
  \<^item> A kind of right comes from the user as a number; \<open>right_of_number\<close> reads it.
  \<^item> The arrays of names that the calls return are lists. \<open>vm\<close> says for which sizes \<open>vm_allocate\<close>
    finds memory, and \<open>env size\<close> is what other threads do while \<open>size\<close> bytes are allocated: the sizes
    of successive attempts differ.
  \<^item> A subsystem and its part \<open>user\<close>, which points back to it, are one address.
\<close>

section \<open>Constants\<close>

definition IS_NULL :: ipc_space_t where
  "IS_NULL = 0"

abbreviation null_space :: "right_state \<Rightarrow> bool" where
  "null_space s \<equiv> is_self (snd s) = IS_NULL"

definition MACH_PORT_RIGHT_NUMBER :: natural_t where
  "MACH_PORT_RIGHT_NUMBER = 5"

definition right_of_number :: "natural_t \<Rightarrow> mach_port_right_t option" where
  "right_of_number n =
     (if n = 0 then Some MACH_PORT_RIGHT_SEND
      else if n = 1 then Some MACH_PORT_RIGHT_RECEIVE
      else if n = 2 then Some MACH_PORT_RIGHT_SEND_ONCE
      else if n = 3 then Some MACH_PORT_RIGHT_PORT_SET
      else if n = 4 then Some MACH_PORT_RIGHT_DEAD_NAME
      else None)"

definition MACH_MSG_TYPE_PORT_ANY :: "mach_msg_type_name_t \<Rightarrow> bool" where
  "MACH_MSG_TYPE_PORT_ANY x \<longleftrightarrow> MACH_MSG_TYPE_MOVE_RECEIVE \<le> x \<and> x \<le> MACH_MSG_TYPE_MAKE_SEND_ONCE"

definition MACH_MSG_TYPE_PORT_ANY_RIGHT :: "mach_msg_type_name_t \<Rightarrow> bool" where
  "MACH_MSG_TYPE_PORT_ANY_RIGHT x \<longleftrightarrow> MACH_MSG_TYPE_MOVE_RECEIVE \<le> x \<and> x \<le> MACH_MSG_TYPE_MOVE_SEND_ONCE"

definition IPC_PORT_FLAGS_RT :: natural_t where
  "IPC_PORT_FLAGS_RT = 1"

definition IP_NMS :: "ipc_port \<Rightarrow> bool" where
  "IP_NMS p \<longleftrightarrow> ip_bits p AND IP_BIT_NMS \<noteq> 0"

definition MACH_NOTIFY_FIRST :: "32 word" where
  "MACH_NOTIFY_FIRST = 64"

definition MACH_NOTIFY_PORT_DESTROYED :: "32 word" where
  "MACH_NOTIFY_PORT_DESTROYED = MACH_NOTIFY_FIRST + 5"

definition MACH_NOTIFY_NO_SENDERS :: "32 word" where
  "MACH_NOTIFY_NO_SENDERS = MACH_NOTIFY_FIRST + 6"

definition MACH_NOTIFY_DEAD_NAME :: "32 word" where
  "MACH_NOTIFY_DEAD_NAME = MACH_NOTIFY_FIRST + 8"

definition MACH_PORT_QLIMIT_MAX :: natural_t where
  "MACH_PORT_QLIMIT_MAX = 16"

record mach_port_qos_t =
  qos_name :: bool
  qos_rt :: bool

definition qos_template :: mach_port_qos_t where
  "qos_template = \<lparr>qos_name = False, qos_rt = False\<rparr>"

record mach_port_status_t =
  mps_pset :: mach_port_t
  mps_seqno :: natural_t
  mps_mscount :: natural_t
  mps_qlimit :: natural_t
  mps_msgcount :: natural_t
  mps_sorights :: natural_t
  mps_srights :: bool
  mps_pdrequest :: bool
  mps_nsrequest :: bool
  mps_flags :: natural_t

datatype mach_port_flavor = MACH_PORT_LIMITS_INFO | MACH_PORT_RECEIVE_STATUS | MACH_PORT_DNREQUESTS_SIZE

definition flavor_of_number :: "natural_t \<Rightarrow> mach_port_flavor option" where
  "flavor_of_number n =
     (if n = 1 then Some MACH_PORT_LIMITS_INFO else if n = 2 then Some MACH_PORT_RECEIVE_STATUS
      else if n = 3 then Some MACH_PORT_DNREQUESTS_SIZE else None)"

text \<open>The sizes of the structures in words.\<close>

primrec flavor_count :: "mach_port_flavor \<Rightarrow> natural_t" where
  "flavor_count MACH_PORT_LIMITS_INFO = 1"
| "flavor_count MACH_PORT_RECEIVE_STATUS = 10"
| "flavor_count MACH_PORT_DNREQUESTS_SIZE = 1"

datatype mach_port_info = LimitsInfo natural_t | ReceiveStatus mach_port_status_t | DnrequestsSize nat

section \<open>The names of a space\<close>

text \<open>The name and type that are added to the arrays for an entry.\<close>

definition mach_port_names_helper ::
  "natural_t \<Rightarrow> ipc_world \<Rightarrow> ipc_entry \<Rightarrow> mach_port_t \<Rightarrow> mach_port_t \<times> natural_t" where
  "mach_port_names_helper timestamp w entry name =
     (let port = w_ports w (ie_object entry);
          died = (ie_bits entry AND MACH_PORT_TYPE_SEND_RIGHTS \<noteq> 0 \<and> \<not> ip_active port \<and>
                  IP_TIMESTAMP_ORDER (ip_timestamp port) timestamp);
          bits1 = (ie_bits entry AND NOT IE_BITS_TYPE_MASK) OR MACH_PORT_TYPE_DEAD_NAME;
          bits = (if died then (if ie_request entry \<noteq> 0 then bits1 + 1 else bits1) else ie_bits entry);
          request = (if died then 0 else ie_request entry)
      in (name, if request \<noteq> 0 then IE_BITS_TYPE bits OR MACH_PORT_TYPE_DNREQUEST else IE_BITS_TYPE bits))"

text \<open>The loop that finds enough memory for the arrays; it ends because the size increases.\<close>

function names_memory ::
  "(natural_t \<Rightarrow> bool) \<Rightarrow> (natural_t \<Rightarrow> right_state \<Rightarrow> right_state) \<Rightarrow> natural_t \<Rightarrow> right_state \<Rightarrow>
   kern_return_t \<times> natural_t \<times> right_state" where
  "names_memory vm env sz s =
     (if \<not> is_active (snd s) then (KERN_INVALID_TASK, sz, s)
      else
        let bound = of_nat (is_table_size (snd s)) + is_tree_total (snd s);
            size_needed = round_page (bound * 4)
        in if size_needed \<le> sz then (KERN_SUCCESS, sz, s)
           else
             let s1 = env size_needed s in
             if \<not> vm size_needed then (KERN_RESOURCE_SHORTAGE, size_needed, s1)
             else names_memory vm env size_needed s1)"
  by pat_completeness auto
termination
proof (relation "measure (\<lambda>(vm, env, sz, s). 2 ^ 32 - unat sz)")
  fix vm :: "natural_t \<Rightarrow> bool" and env :: "natural_t \<Rightarrow> right_state \<Rightarrow> right_state" and sz s bound
    and size_needed :: natural_t and s1
  assume "\<not> size_needed \<le> sz"
  then have "unat sz < unat size_needed" by (simp add: word_less_nat_alt not_le)
  with unat_less_exp [of size_needed]
  show "((vm, env, size_needed, s1), vm, env, sz, s) \<in> measure (\<lambda>(vm, env, sz, s). 2 ^ 32 - unat sz)"
    by simp
qed simp

declare names_memory.simps [simp del]

text \<open>The loop over the slots of the table, from \<open>index\<close> on.\<close>

fun names_table ::
  "natural_t \<Rightarrow> ipc_world \<Rightarrow> nat \<Rightarrow> ipc_entry list \<Rightarrow> (mach_port_t \<times> natural_t) list \<Rightarrow> (mach_port_t \<times> natural_t) list" where
  "names_table timestamp w index [] names = names"
| "names_table timestamp w index (entry # rest) names =
     names_table timestamp w (index + 1) rest
       (if IE_BITS_TYPE (ie_bits entry) \<noteq> MACH_PORT_TYPE_NONE
        then names @ [mach_port_names_helper timestamp w entry (MACH_PORT_MAKEB index (ie_bits entry))]
        else names)"

text \<open>The body of the loop over the tree.\<close>

definition names_tree_entry ::
  "natural_t \<Rightarrow> ipc_world \<Rightarrow> (mach_port_t \<times> natural_t) list \<Rightarrow> mach_port_t \<Rightarrow> ipc_entry \<Rightarrow>
   ipc_entry option \<times> (mach_port_t \<times> natural_t) list" where
  "names_tree_entry timestamp w names name entry =
     (Some entry, names @ [mach_port_names_helper timestamp w entry name])"

definition mach_port_names ::
  "(natural_t \<Rightarrow> bool) \<Rightarrow> (natural_t \<Rightarrow> right_state \<Rightarrow> right_state) \<Rightarrow> right_state \<Rightarrow>
   (kern_return_t \<times> mach_port_t list \<times> natural_t list \<times> right_state) option" where
  "mach_port_names vm env s =
     (if null_space s then Some (KERN_INVALID_TASK, [], [], s)
      else
        case names_memory vm env 0 s of (kr, sz, s1) \<Rightarrow>
          if kr \<noteq> KERN_SUCCESS then Some (kr, [], [], s1)
          else do {
            let (timestamp, w) = ipc_port_timestamp (fst s1);
            let space = snd s1;
            let names = names_table timestamp w 0 (is_table space) [];
            (tree, names1) \<leftarrow> ipc_splay_traverse (names_tree_entry timestamp w) (is_tree space) names;
            Some (KERN_SUCCESS, map fst names1, map snd names1, w, space\<lparr>is_tree := tree\<rparr>)
          })"

definition mach_port_type ::
  "mach_port_t \<Rightarrow> right_state \<Rightarrow> (kern_return_t \<times> natural_t \<times> right_state) option" where
  "mach_port_type name s =
     (if null_space s then Some (KERN_INVALID_TASK, 0, s)
      else do {
        (kr, r, s1) \<leftarrow> ipc_right_lookup_write name s;
        case r of
          None \<Rightarrow> Some (kr, 0, s1)
        | Some ref \<Rightarrow> do {
            (kr1, (type, urefs), s2) \<leftarrow> ipc_right_info name ref s1;
            Some (kr1, type, s2)
          }
      })"

definition mach_port_rename ::
  "nat list \<Rightarrow> (nat \<Rightarrow> bool) \<Rightarrow> bool \<Rightarrow> (ipc_state \<Rightarrow> ipc_state) \<Rightarrow> mach_port_t \<Rightarrow> mach_port_t \<Rightarrow> right_state \<Rightarrow>
   (kern_return_t \<times> right_state) option" where
  "mach_port_rename its mem ite env oname nname s =
     (if null_space s then Some (KERN_INVALID_TASK, s)
      else if \<not> MACH_PORT_VALID nname then Some (KERN_INVALID_VALUE, s)
      else ipc_object_rename its mem ite env oname nname s)"

section \<open>Allocation\<close>

text \<open>
  \<open>rt\<close> is whether real-time ports are configured (\<open>MACH_RT\<close>). The name is the requested one when
  \<open>qos_name\<close> is set; the name of the new right is returned.
\<close>

definition allocate_receive ::
  "nat list \<Rightarrow> (nat \<Rightarrow> bool) \<Rightarrow> bool \<Rightarrow> (ipc_state \<Rightarrow> ipc_state) \<Rightarrow> ipc_object_t option \<Rightarrow> bool \<Rightarrow> 32 word \<Rightarrow>
   mach_port_qos_t \<Rightarrow> mach_port_t \<Rightarrow> right_state \<Rightarrow> (kern_return_t \<times> mach_port_t \<times> right_state) option" where
  "allocate_receive its mem ite env address rt subsystem qos name s = do {
     (kr, r, s1) \<leftarrow> (if qos_name qos
        then map_option (\<lambda>(kr, r, s1). (kr, map_option (Pair name) r, s1)) (ipc_port_alloc_name its mem ite env address name s)
        else ipc_port_alloc its mem env address s);
     case r of
       None \<Rightarrow> Some (kr, name, s1)
     | Some (name1, port) \<Rightarrow> do {
         let s2 = (if rt \<and> qos_rt qos
                   then on_world (upd_port port (\<lambda>p. p\<lparr>ip_flags := ip_flags p OR IPC_PORT_FLAGS_RT\<rparr>)) s1 else s1);
         let s3 = (if subsystem \<noteq> 0
                   then on_world (emit [SubsystemReference subsystem]) (on_world (upd_port port (\<lambda>p. p\<lparr>ip_subsystem := subsystem\<rparr>)) s2)
                   else s2);
         Some (kr, name1, s3)
       }
   }"

definition allocate_pset ::
  "nat list \<Rightarrow> (nat \<Rightarrow> bool) \<Rightarrow> bool \<Rightarrow> (ipc_state \<Rightarrow> ipc_state) \<Rightarrow> ipc_object_t option \<Rightarrow>
   mach_port_qos_t \<Rightarrow> mach_port_t \<Rightarrow> right_state \<Rightarrow> (kern_return_t \<times> mach_port_t \<times> right_state) option" where
  "allocate_pset its mem ite env address qos name s =
     (if qos_name qos
      then map_option (\<lambda>(kr, r, s1). (kr, name, s1)) (ipc_pset_alloc_name its mem ite env address name s)
      else map_option (\<lambda>(kr, r, s1). (kr, case r of None \<Rightarrow> name | Some (name1, pset) \<Rightarrow> name1, s1))
        (ipc_pset_alloc its mem env address s))"

definition mach_port_allocate_full ::
  "nat list \<Rightarrow> (nat \<Rightarrow> bool) \<Rightarrow> bool \<Rightarrow> (ipc_state \<Rightarrow> ipc_state) \<Rightarrow> ipc_object_t option \<Rightarrow> bool \<Rightarrow> natural_t \<Rightarrow> 32 word \<Rightarrow>
   mach_port_qos_t \<Rightarrow> mach_port_t \<Rightarrow> right_state \<Rightarrow> (kern_return_t \<times> mach_port_t \<times> right_state) option" where
  "mach_port_allocate_full its mem ite env address rt right subsystem qos name s =
     (let receive = (right_of_number right = Some MACH_PORT_RIGHT_RECEIVE) in
      if null_space s then Some (KERN_INVALID_TASK, name, s)
      else if qos_name qos \<and> \<not> MACH_PORT_VALID name then Some (KERN_INVALID_VALUE, name, s)
      else if qos_name qos \<and> is_fast (snd s) then Some (KERN_FAILURE, name, s)
      else if subsystem \<noteq> 0 \<and> \<not> receive then Some (KERN_INVALID_VALUE, name, s)
      else if qos_rt qos \<and> rt \<and> \<not> receive then Some (KERN_INVALID_VALUE, name, s)
      else if qos_rt qos \<and> \<not> rt then Some (KERN_INVALID_ARGUMENT, name, s)
      else case right_of_number right of
        Some MACH_PORT_RIGHT_RECEIVE \<Rightarrow> allocate_receive its mem ite env address rt subsystem qos name s
      | Some MACH_PORT_RIGHT_PORT_SET \<Rightarrow> allocate_pset its mem ite env address qos name s
      | Some MACH_PORT_RIGHT_DEAD_NAME \<Rightarrow>
          map_option (\<lambda>(kr, name1, s1). (kr, if kr = KERN_SUCCESS then name1 else name, s1)) (ipc_object_alloc_dead its mem env s)
      | _ \<Rightarrow> Some (KERN_INVALID_VALUE, name, s))"

definition mach_port_allocate_name ::
  "nat list \<Rightarrow> (nat \<Rightarrow> bool) \<Rightarrow> bool \<Rightarrow> (ipc_state \<Rightarrow> ipc_state) \<Rightarrow> ipc_object_t option \<Rightarrow> bool \<Rightarrow> natural_t \<Rightarrow> mach_port_t \<Rightarrow>
   right_state \<Rightarrow> (kern_return_t \<times> right_state) option" where
  "mach_port_allocate_name its mem ite env address rt right name s =
     map_option (\<lambda>(kr, name1, s1). (kr, s1))
       (mach_port_allocate_full its mem ite env address rt right 0 (qos_template\<lparr>qos_name := True\<rparr>) name s)"

definition mach_port_allocate ::
  "nat list \<Rightarrow> (nat \<Rightarrow> bool) \<Rightarrow> bool \<Rightarrow> (ipc_state \<Rightarrow> ipc_state) \<Rightarrow> ipc_object_t option \<Rightarrow> bool \<Rightarrow> natural_t \<Rightarrow> mach_port_t \<Rightarrow>
   right_state \<Rightarrow> (kern_return_t \<times> mach_port_t \<times> right_state) option" where
  "mach_port_allocate its mem ite env address rt right name s =
     mach_port_allocate_full its mem ite env address rt right 0 qos_template name s"

definition mach_port_allocate_qos ::
  "nat list \<Rightarrow> (nat \<Rightarrow> bool) \<Rightarrow> bool \<Rightarrow> (ipc_state \<Rightarrow> ipc_state) \<Rightarrow> ipc_object_t option \<Rightarrow> bool \<Rightarrow> natural_t \<Rightarrow> mach_port_qos_t \<Rightarrow>
   mach_port_t \<Rightarrow> right_state \<Rightarrow> (kern_return_t \<times> mach_port_t \<times> right_state) option" where
  "mach_port_allocate_qos its mem ite env address rt right qos name s =
     mach_port_allocate_full its mem ite env address rt right 0 qos name s"

definition mach_port_allocate_subsystem ::
  "nat list \<Rightarrow> (nat \<Rightarrow> bool) \<Rightarrow> bool \<Rightarrow> (ipc_state \<Rightarrow> ipc_state) \<Rightarrow> ipc_object_t option \<Rightarrow> bool \<Rightarrow> 32 word \<Rightarrow> mach_port_t \<Rightarrow>
   right_state \<Rightarrow> (kern_return_t \<times> mach_port_t \<times> right_state) option" where
  "mach_port_allocate_subsystem its mem ite env address rt subsystem name s =
     mach_port_allocate_full its mem ite env address rt 1 subsystem qos_template name s"

section \<open>Destruction and user references\<close>

definition mach_port_destroy ::
  "nat list \<Rightarrow> nat list \<Rightarrow> bool \<Rightarrow> mach_port_t \<Rightarrow> right_state \<Rightarrow> (kern_return_t \<times> right_state) option" where
  "mach_port_destroy its dnits try name s =
     (if null_space s then Some (KERN_INVALID_TASK, s)
      else do {
        (kr, r, s1) \<leftarrow> ipc_right_lookup_write name s;
        case r of None \<Rightarrow> Some (kr, s1) | Some ref \<Rightarrow> ipc_right_destroy its dnits try name ref s1
      })"

definition mach_port_deallocate ::
  "nat list \<Rightarrow> mach_port_t \<Rightarrow> right_state \<Rightarrow> (kern_return_t \<times> right_state) option" where
  "mach_port_deallocate its name s =
     (if null_space s then Some (KERN_INVALID_TASK, s)
      else do {
        (kr, r, s1) \<leftarrow> ipc_right_lookup_write name s;
        case r of None \<Rightarrow> Some (kr, s1) | Some ref \<Rightarrow> ipc_right_dealloc its name ref s1
      })"

definition mach_port_get_refs ::
  "mach_port_t \<Rightarrow> natural_t \<Rightarrow> right_state \<Rightarrow> (kern_return_t \<times> natural_t \<times> right_state) option" where
  "mach_port_get_refs name right s =
     (if null_space s then Some (KERN_INVALID_TASK, 0, s)
      else if MACH_PORT_RIGHT_NUMBER \<le> right then Some (KERN_INVALID_VALUE, 0, s)
      else do {
        (kr, r, s1) \<leftarrow> ipc_right_lookup_write name s;
        case r of
          None \<Rightarrow> Some (kr, 0, s1)
        | Some ref \<Rightarrow> do {
            (kr1, (type, urefs), s2) \<leftarrow> ipc_right_info name ref s1;
            rt \<leftarrow> right_of_number right;
            Some (kr1,
              if type AND MACH_PORT_TYPE rt = 0 then 0
              else if rt = MACH_PORT_RIGHT_DEAD_NAME \<or> rt = MACH_PORT_RIGHT_SEND then urefs else 1,
              s2)
          }
      })"

definition mach_port_mod_refs ::
  "nat list \<Rightarrow> nat list \<Rightarrow> bool \<Rightarrow> mach_port_t \<Rightarrow> natural_t \<Rightarrow> mach_port_delta_t \<Rightarrow> right_state \<Rightarrow>
   (kern_return_t \<times> right_state) option" where
  "mach_port_mod_refs its dnits try name right delta s =
     (if null_space s then Some (KERN_INVALID_TASK, s)
      else if MACH_PORT_RIGHT_NUMBER \<le> right then Some (KERN_INVALID_VALUE, s)
      else do {
        (kr, r, s1) \<leftarrow> ipc_right_lookup_write name s;
        case r of
          None \<Rightarrow> Some (kr, s1)
        | Some ref \<Rightarrow> do {
            rt \<leftarrow> right_of_number right;
            ipc_right_delta its dnits try name ref rt delta s1
          }
      })"

section \<open>The state of a receive right\<close>

definition ipc_port_translate_receive ::
  "mach_port_t \<Rightarrow> right_state \<Rightarrow> (kern_return_t \<times> ipc_port_t \<times> right_state) option" where
  "ipc_port_translate_receive name s = ipc_object_translate name MACH_PORT_RIGHT_RECEIVE s"

definition ipc_port_set_mscount :: "ipc_port_t \<Rightarrow> natural_t \<Rightarrow> ipc_world \<Rightarrow> ipc_world" where
  "ipc_port_set_mscount port mscount = upd_port port (\<lambda>p. p\<lparr>ip_mscount := mscount\<rparr>)"

definition mach_port_set_mscount ::
  "mach_port_t \<Rightarrow> natural_t \<Rightarrow> right_state \<Rightarrow> (kern_return_t \<times> right_state) option" where
  "mach_port_set_mscount name mscount s =
     (if null_space s then Some (KERN_INVALID_TASK, s)
      else do {
        (kr, port, s1) \<leftarrow> ipc_port_translate_receive name s;
        Some (if kr \<noteq> KERN_SUCCESS then (kr, s1) else (KERN_SUCCESS, on_world (ipc_port_set_mscount port mscount) s1))
      })"

definition mach_port_set_seqno ::
  "mach_port_t \<Rightarrow> natural_t \<Rightarrow> right_state \<Rightarrow> (kern_return_t \<times> right_state) option" where
  "mach_port_set_seqno name seqno s =
     (if null_space s then Some (KERN_INVALID_TASK, s)
      else do {
        (kr, port, s1) \<leftarrow> ipc_port_translate_receive name s;
        Some (if kr \<noteq> KERN_SUCCESS then (kr, s1) else (KERN_SUCCESS, on_world (ipc_port_set_seqno port seqno) s1))
      })"

section \<open>Port sets\<close>

text \<open>The names found so far, as many as fit, and how many there were.\<close>

definition mach_port_gst_helper ::
  "ipc_pset_t \<Rightarrow> ipc_port \<Rightarrow> natural_t \<Rightarrow> mach_port_t list \<times> natural_t \<Rightarrow> mach_port_t list \<times> natural_t" where
  "mach_port_gst_helper pset port maxnames r = (case r of (names, actual) \<Rightarrow>
     if pset = ip_pset port
     then (if actual < maxnames then names @ [ip_receiver_name port] else names, actual + 1)
     else (names, actual))"

definition gst_entry ::
  "ipc_pset_t \<Rightarrow> ipc_world \<Rightarrow> natural_t \<Rightarrow> ipc_entry \<Rightarrow> mach_port_t list \<times> natural_t \<Rightarrow> mach_port_t list \<times> natural_t" where
  "gst_entry pset w maxnames entry r =
     (if ie_bits entry AND MACH_PORT_TYPE_RECEIVE \<noteq> 0
      then mach_port_gst_helper pset (w_ports w (ie_object entry)) maxnames r else r)"

definition gst_tree_entry ::
  "ipc_pset_t \<Rightarrow> ipc_world \<Rightarrow> natural_t \<Rightarrow> mach_port_t list \<times> natural_t \<Rightarrow> mach_port_t \<Rightarrow> ipc_entry \<Rightarrow>
   ipc_entry option \<times> mach_port_t list \<times> natural_t" where
  "gst_tree_entry pset w maxnames r name entry = (Some entry, gst_entry pset w maxnames entry r)"

text \<open>The loop, with room for \<open>sz\<close> bytes of names.\<close>

partial_function (option) get_set_status_loop ::
  "(natural_t \<Rightarrow> bool) \<Rightarrow> (natural_t \<Rightarrow> right_state \<Rightarrow> right_state) \<Rightarrow> mach_port_t \<Rightarrow> natural_t \<Rightarrow> right_state \<Rightarrow>
   (kern_return_t \<times> mach_port_t list \<times> right_state) option" where
  "get_set_status_loop vm env name sz s =
     (let s1 = env sz s in
      if \<not> vm sz then Some (KERN_RESOURCE_SHORTAGE, [], s1)
      else do {
        (kr, r, s2) \<leftarrow> ipc_right_lookup_write name s1;
        case r of
          None \<Rightarrow> Some (kr, [], s2)
        | Some ref \<Rightarrow> do {
            e \<leftarrow> get_entry (snd s2) ref;
            if IE_BITS_TYPE (ie_bits e) \<noteq> MACH_PORT_TYPE_PORT_SET then Some (KERN_INVALID_RIGHT, [], s2)
            else do {
              let pset = ie_object e;
              let maxnames = sz div 4;
              let r1 = fold (gst_entry pset (fst s2) maxnames) (is_table (snd s2)) ([], 0);
              (tree, names, actual) \<leftarrow> ipc_splay_traverse (gst_tree_entry pset (fst s2) maxnames) (is_tree (snd s2)) r1;
              let s3 = (fst s2, (snd s2)\<lparr>is_tree := tree\<rparr>);
              if actual \<le> maxnames then Some (KERN_SUCCESS, names, s3)
              else get_set_status_loop vm env name (round_page (actual * 4) + PAGE_SIZE) s3
            }
          }
      })"

declare get_set_status_loop.simps [code]

definition mach_port_get_set_status ::
  "(natural_t \<Rightarrow> bool) \<Rightarrow> (natural_t \<Rightarrow> right_state \<Rightarrow> right_state) \<Rightarrow> mach_port_t \<Rightarrow> right_state \<Rightarrow>
   (kern_return_t \<times> mach_port_t list \<times> right_state) option" where
  "mach_port_get_set_status vm env name s =
     (if null_space s then Some (KERN_INVALID_TASK, [], s) else get_set_status_loop vm env name PAGE_SIZE s)"

definition mach_port_move_member ::
  "mach_port_t \<Rightarrow> mach_port_t \<Rightarrow> right_state \<Rightarrow> (kern_return_t \<times> right_state) option" where
  "mach_port_move_member member after s =
     (if null_space s then Some (KERN_INVALID_TASK, s)
      else do {
        (kr, r, s1) \<leftarrow> ipc_right_lookup_write member s;
        case r of
          None \<Rightarrow> Some (kr, s1)
        | Some ref \<Rightarrow> do {
            e \<leftarrow> get_entry (snd s1) ref;
            if ie_bits e AND MACH_PORT_TYPE_RECEIVE = 0 then Some (KERN_INVALID_RIGHT, s1)
            else if after = MACH_PORT_NULL
            then (case ipc_pset_move (ie_object e) IPS_NULL (fst s1) of (kr1, w) \<Rightarrow> Some (kr1, w, snd s1))
            else do {
              (r1, space) \<leftarrow> ipc_entry_lookup (snd s1) after;
              case r1 of
                None \<Rightarrow> Some (KERN_INVALID_NAME, fst s1, space)
              | Some ref1 \<Rightarrow> do {
                  e1 \<leftarrow> get_entry space ref1;
                  if ie_bits e1 AND MACH_PORT_TYPE_PORT_SET = 0 then Some (KERN_INVALID_RIGHT, fst s1, space)
                  else case ipc_pset_move (ie_object e) (ie_object e1) (fst s1) of (kr1, w) \<Rightarrow> Some (kr1, w, space)
                }
            }
          }
      })"

section \<open>Notification requests\<close>

definition mach_port_request_notification ::
  "nat list \<Rightarrow> (nat \<Rightarrow> 32 word option) \<Rightarrow> (ipc_world \<Rightarrow> ipc_world) \<Rightarrow> (right_state \<Rightarrow> right_state) \<Rightarrow>
   mach_port_t \<Rightarrow> 32 word \<Rightarrow> natural_t \<Rightarrow> ipc_port_t \<Rightarrow> right_state \<Rightarrow> (kern_return_t \<times> ipc_port_t \<times> right_state) option" where
  "mach_port_request_notification dnits mem wenv env name ident sync notify s =
     (if null_space s then Some (KERN_INVALID_TASK, IP_NULL, s)
      else if notify = IP_DEAD then Some (KERN_INVALID_CAPABILITY, IP_NULL, s)
      else if ident = MACH_NOTIFY_PORT_DESTROYED then
        (if sync \<noteq> 0 then Some (KERN_INVALID_VALUE, IP_NULL, s)
         else do {
           (kr, port, s1) \<leftarrow> ipc_port_translate_receive name s;
           if kr \<noteq> KERN_SUCCESS then Some (kr, IP_NULL, s1)
           else case ipc_port_pdrequest port notify (fst s1) of (previous, w) \<Rightarrow> Some (KERN_SUCCESS, previous, w, snd s1)
         })
      else if ident = MACH_NOTIFY_NO_SENDERS then do {
        (kr, port, s1) \<leftarrow> ipc_port_translate_receive name s;
        if kr \<noteq> KERN_SUCCESS then Some (kr, IP_NULL, s1)
        else if \<not> IP_NMS (port_of s1 port) then Some (KERN_INVALID_RIGHT, IP_NULL, s1)
        else case ipc_port_nsrequest port sync notify (fst s1) of (previous, w) \<Rightarrow> Some (KERN_SUCCESS, previous, w, snd s1)
      }
      else if ident = MACH_NOTIFY_DEAD_NAME then ipc_right_dnrequest dnits mem wenv env name (sync \<noteq> 0) notify s
      else Some (KERN_INVALID_VALUE, IP_NULL, s))"

section \<open>Moving rights between spaces\<close>

definition mach_port_insert_right ::
  "nat list \<Rightarrow> (nat \<Rightarrow> bool) \<Rightarrow> bool \<Rightarrow> (ipc_state \<Rightarrow> ipc_state) \<Rightarrow> mach_port_t \<Rightarrow> ipc_port_t \<Rightarrow> mach_msg_type_name_t \<Rightarrow>
   right_state \<Rightarrow> (kern_return_t \<times> right_state) option" where
  "mach_port_insert_right its mem ite env name poly polyPoly s =
     (if null_space s then Some (KERN_INVALID_TASK, s)
      else if \<not> MACH_PORT_VALID name \<or> \<not> MACH_MSG_TYPE_PORT_ANY_RIGHT polyPoly then Some (KERN_INVALID_VALUE, s)
      else if \<not> IO_VALID poly then Some (KERN_INVALID_CAPABILITY, s)
      else ipc_object_copyout_name its mem ite env poly polyPoly False name s)"

definition mach_port_extract_right ::
  "nat list \<Rightarrow> mach_port_t \<Rightarrow> mach_msg_type_name_t \<Rightarrow> right_state \<Rightarrow>
   (kern_return_t \<times> (ipc_port_t \<times> mach_msg_type_name_t) \<times> right_state) option" where
  "mach_port_extract_right its name msgt_name s =
     (if null_space s then Some (KERN_INVALID_TASK, (IP_NULL, 0), s)
      else if \<not> MACH_MSG_TYPE_PORT_ANY msgt_name then Some (KERN_INVALID_VALUE, (IP_NULL, 0), s)
      else do {
        (kr, poly, s1) \<leftarrow> ipc_object_copyin its name msgt_name s;
        if kr \<noteq> KERN_SUCCESS then Some (kr, (poly, 0), s1)
        else do {
          polyPoly \<leftarrow> ipc_object_copyin_type msgt_name;
          Some (kr, (poly, polyPoly), s1)
        }
      })"

section \<open>Attributes\<close>

text \<open>The status of a receive right; a dead port set is left on the way.\<close>

definition receive_status :: "ipc_port_t \<Rightarrow> ipc_world \<Rightarrow> mach_port_status_t \<times> ipc_world" where
  "receive_status port w =
     (let pset = ip_pset (w_ports w port);
          in_set = (pset \<noteq> IPS_NULL \<and> ips_active (w_psets w pset));
          w1 = (if pset \<noteq> IPS_NULL \<and> \<not> in_set then ips_check_unlock pset (ipc_pset_remove pset port w) else w);
          p = w_ports w1 port
      in (\<lparr>mps_pset = if in_set then ips_local_name (w_psets w pset) else MACH_PORT_NULL,
           mps_seqno = ip_seqno p, mps_mscount = ip_mscount p, mps_qlimit = ip_qlimit p,
           mps_msgcount = ip_msgcount p, mps_sorights = ip_sorights p, mps_srights = 0 < ip_srights p,
           mps_pdrequest = ip_pdrequest p \<noteq> IP_NULL, mps_nsrequest = ip_nsrequest p \<noteq> IP_NULL,
           mps_flags = ip_flags p\<rparr>, w1))"

definition mach_port_get_attributes ::
  "nat list \<Rightarrow> mach_port_t \<Rightarrow> natural_t \<Rightarrow> natural_t \<Rightarrow> right_state \<Rightarrow>
   (kern_return_t \<times> (mach_port_info \<times> natural_t) option \<times> right_state) option" where
  "mach_port_get_attributes dnits name flavor count s =
     (if null_space s then Some (KERN_INVALID_TASK, None, s)
      else case flavor_of_number flavor of
        None \<Rightarrow> Some (KERN_INVALID_ARGUMENT, None, s)
      | Some fl \<Rightarrow>
          if count < flavor_count fl then Some (KERN_FAILURE, None, s)
          else do {
            (kr, port, s1) \<leftarrow> ipc_port_translate_receive name s;
            if kr \<noteq> KERN_SUCCESS then Some (kr, None, s1)
            else case fl of
              MACH_PORT_LIMITS_INFO \<Rightarrow>
                Some (KERN_SUCCESS, Some (LimitsInfo (ip_qlimit (port_of s1 port)), flavor_count fl), s1)
            | MACH_PORT_RECEIVE_STATUS \<Rightarrow>
                (case receive_status port (fst s1) of (status, w) \<Rightarrow>
                   Some (KERN_SUCCESS, Some (ReceiveStatus status, flavor_count fl), w, snd s1))
            | MACH_PORT_DNREQUESTS_SIZE \<Rightarrow>
                Some (KERN_SUCCESS, Some (DnrequestsSize (case ip_dnrequests (port_of s1 port) of
                    None \<Rightarrow> 0 | Some t \<Rightarrow> dnits ! ipr_size t), flavor_count fl), s1)
          })"

text \<open>\<open>info\<close> is the word at the address of the structure: a queue limit or a number of requests.\<close>

definition mach_port_set_attributes ::
  "nat list \<Rightarrow> (nat \<Rightarrow> 32 word option) \<Rightarrow> (ipc_world \<Rightarrow> ipc_world) \<Rightarrow> mach_port_t \<Rightarrow> natural_t \<Rightarrow> natural_t \<Rightarrow> natural_t \<Rightarrow>
   right_state \<Rightarrow> (kern_return_t \<times> right_state) option" where
  "mach_port_set_attributes dnits mem wenv name flavor info count s =
     (if null_space s then Some (KERN_INVALID_TASK, s)
      else case flavor_of_number flavor of
        Some MACH_PORT_LIMITS_INFO \<Rightarrow>
          if count < flavor_count MACH_PORT_LIMITS_INFO then Some (KERN_FAILURE, s)
          else if MACH_PORT_QLIMIT_MAX < info then Some (KERN_INVALID_VALUE, s)
          else do {
            (kr, port, s1) \<leftarrow> ipc_port_translate_receive name s;
            Some (if kr \<noteq> KERN_SUCCESS then (kr, s1) else (KERN_SUCCESS, on_world (ipc_port_set_qlimit port info) s1))
          }
      | Some MACH_PORT_DNREQUESTS_SIZE \<Rightarrow>
          if count < flavor_count MACH_PORT_DNREQUESTS_SIZE then Some (KERN_FAILURE, s)
          else do {
            (kr, port, s1) \<leftarrow> ipc_port_translate_receive name s;
            if kr \<noteq> KERN_SUCCESS then Some (kr, s1)
            else do {
              (kr1, w) \<leftarrow> ipc_port_dngrow dnits mem wenv port info (fst s1);
              Some (kr1, w, snd s1)
            }
          }
      | _ \<Rightarrow> Some (KERN_INVALID_ARGUMENT, s))"

end
