(* ===== verification/Ipc_Port_Correct.thy ===== *)
theory Ipc_Port_Correct
  imports Ipc_Port
begin

text \<open>
  Correctness of the port operations: chains of ports in transit stay free of circles, the table of
  dead-name requests is a map with a free list, no-senders notifications are sent exactly when the
  last send right goes, and what the destruction of a port does.
\<close>

section \<open>Chains of ports in transit\<close>

text \<open>The end of the chain that starts at a port, as an inductive relation.\<close>

inductive chain_ends :: "ipc_world \<Rightarrow> ipc_port_t \<Rightarrow> ipc_port_t \<Rightarrow> bool" for w where
  stop: "\<not> in_transit (w_ports w p) \<Longrightarrow> chain_ends w p p"
| follow: "in_transit (w_ports w p) \<Longrightarrow> chain_ends w (ip_destination (w_ports w p)) b \<Longrightarrow> chain_ends w p b"

inductive_cases chain_endsE: "chain_ends w p b"

lemma chain_base_sound: "chain_base w p = Some b \<Longrightarrow> chain_ends w p b"
proof (erule chain_base.raw_induct [rotated])
  fix f :: "ipc_world \<Rightarrow> ipc_port_t \<Rightarrow> ipc_port_t option" and w p b
  assume IH: "\<And>w p b. f w p = Some b \<Longrightarrow> chain_ends w p b"
    and f: "(if in_transit (w_ports w p) then f w (ip_destination (w_ports w p)) else Some p) = Some b"
  show "chain_ends w p b"
  proof (cases "in_transit (w_ports w p)")
    case True
    then have "f w (ip_destination (w_ports w p)) = Some b" using f by simp
    from chain_ends.follow [OF True IH [OF this]] show ?thesis .
  next
    case False
    then have "p = b" using f by simp
    with False show ?thesis by (simp add: chain_ends.stop)
  qed
qed

lemma chain_base_complete: "chain_ends w p b \<Longrightarrow> chain_base w p = Some b"
proof (induction rule: chain_ends.induct)
  case (stop p)
  then show ?case by (subst chain_base.simps) simp
next
  case (follow p b)
  then show ?case by (subst chain_base.simps) simp
qed

lemma chain_base_iff: "chain_base w p = Some b \<longleftrightarrow> chain_ends w p b"
  using chain_base_sound chain_base_complete by blast

lemma chain_ends_end: "chain_ends w p b \<Longrightarrow> \<not> in_transit (w_ports w b)"
  by (induction rule: chain_ends.induct)

lemma chain_ends_unique: "chain_ends w p b \<Longrightarrow> chain_ends w p c \<Longrightarrow> b = c"
  by (metis chain_base_complete option.inject)

text \<open>The port \<open>port\<close> leaves limbo for \<open>dest\<close>.\<close>

definition linked :: "ipc_world \<Rightarrow> ipc_port_t \<Rightarrow> ipc_port_t \<Rightarrow> ipc_world \<Rightarrow> bool" where
  "linked w port dest w' \<longleftrightarrow> in_transit (w_ports w' port) \<and> ip_destination (w_ports w' port) = dest \<and>
     (\<forall>p. p \<noteq> port \<longrightarrow> in_transit (w_ports w' p) = in_transit (w_ports w p) \<and>
        ip_destination (w_ports w' p) = ip_destination (w_ports w p))"

lemma linkedD:
  assumes "linked w port dest w'"
  shows "in_transit (w_ports w' port)" "ip_destination (w_ports w' port) = dest"
    "p \<noteq> port \<Longrightarrow> in_transit (w_ports w' p) \<longleftrightarrow> in_transit (w_ports w p)"
    "p \<noteq> port \<Longrightarrow> ip_destination (w_ports w' p) = ip_destination (w_ports w p)"
  using assms unfolding linked_def by blast+

lemma linked_keeps:
  assumes "chain_ends w p b" "linked w port dest w'" "\<not> in_transit (w_ports w port)" "b \<noteq> port"
  shows "chain_ends w' p b"
  using assms(1,4)
proof (induction rule: chain_ends.induct)
  case (stop p)
  then show ?case using linkedD(3) [OF assms(2)] by (intro chain_ends.stop) blast
next
  case (follow p b)
  then have p: "p \<noteq> port" using assms(3) by blast
  have "in_transit (w_ports w' p)" using follow.hyps(1) linkedD(3) [OF assms(2) p] by simp
  moreover have "chain_ends w' (ip_destination (w_ports w' p)) b"
    using follow.IH follow.prems linkedD(4) [OF assms(2) p] by simp
  ultimately show ?case by (rule chain_ends.follow)
qed

lemma linked_extends:
  assumes "chain_ends w p q" "q = port" "linked w port dest w'" "\<not> in_transit (w_ports w port)" "chain_ends w' dest b'"
  shows "chain_ends w' p b'"
  using assms(1,2)
proof (induction rule: chain_ends.induct)
  case (stop p)
  then show ?case
    using chain_ends.follow [OF linkedD(1) [OF assms(3)]] linkedD(2) [OF assms(3)] assms(5) by simp
next
  case (follow p b)
  then have p: "p \<noteq> port" using assms(4) by blast
  have "in_transit (w_ports w' p)" using follow.hyps(1) linkedD(3) [OF assms(3) p] by simp
  moreover have "chain_ends w' (ip_destination (w_ports w' p)) b'"
    using follow.IH follow.prems linkedD(4) [OF assms(3) p] by simp
  ultimately show ?case by (rule chain_ends.follow)
qed

text \<open>A link that closes a circle leaves no end for the chains that led to the port.\<close>

lemma linked_circle:
  assumes "chain_ends w' x b" "linked w port dest w'" "\<not> in_transit (w_ports w port)" "chain_ends w dest port"
  shows "\<not> chain_ends w x port"
  using assms(1)
proof (induction rule: chain_ends.induct)
  case (stop x)
  then have x: "x \<noteq> port" using linkedD(1) [OF assms(2)] by blast
  then have "\<not> in_transit (w_ports w x)" using stop linkedD(3) [OF assms(2)] by blast
  then show ?case using x by (metis chain_endsE)
next
  case (follow x b)
  show ?case
  proof (cases "x = port")
    case True
    then show ?thesis using follow.IH linkedD(2) [OF assms(2)] assms(4) by simp
  next
    case False
    then have "in_transit (w_ports w x)" "\<not> chain_ends w (ip_destination (w_ports w x)) port"
      using follow linkedD(3,4) [OF assms(2) False] by simp_all
    then show ?thesis by (metis chain_endsE)
  qed
qed

definition chains_end :: "ipc_world \<Rightarrow> bool" where
  "chains_end w \<longleftrightarrow> (\<forall>p. \<exists>b. chain_ends w p b)"

text \<open>The world in which \<open>port\<close>, in limbo so far, is in transit to \<open>dest\<close>.\<close>

abbreviation link_port :: "ipc_port_t \<Rightarrow> ipc_port_t \<Rightarrow> ipc_world \<Rightarrow> ipc_world" where
  "link_port port dest w \<equiv> upd_port port (\<lambda>p. p\<lparr>ip_data := dest\<rparr>) (ip_reference dest w)"

lemma link_port_linked:
  assumes "dest \<noteq> IP_NULL" "ip_active (w_ports w port)" "ip_receiver_name (w_ports w port) = MACH_PORT_NULL"
  shows "linked w port dest (link_port port dest w)"
  using assms by (auto simp: linked_def in_transit_def)

lemma check_circularity_run:
  assumes b: "chain_ends w dest b" and nt: "\<not> in_transit (w_ports w port)"
  shows "ipc_port_check_circularity try port dest w = Some (if b = port then (True, w) else (False, link_port port dest w))"
proof -
  have base: "chain_base w dest = Some b" using b by (rule chain_base_complete)
  have here: "b = p" if "dest = p" "\<not> in_transit (w_ports w p)" for p
    using that chain_ends_unique [OF b] chain_ends.stop by blast
  show ?thesis
  proof (cases "port = dest")
    case True
    with here [of port] nt show ?thesis by (simp add: ipc_port_check_circularity_def Let_def)
  next
    case False
    then show ?thesis
      using base here [of dest] by (cases "in_transit (w_ports w dest)") (simp_all add: ipc_port_check_circularity_def Let_def)
  qed
qed

lemma linked_chains_end:
  assumes ends: "chains_end w" and link: "linked w port dest w'" and nt: "\<not> in_transit (w_ports w port)"
    and b: "chain_ends w dest b" "b \<noteq> port"
  shows "chains_end w'"
  unfolding chains_end_def
proof
  fix p
  obtain c where c: "chain_ends w p c" using ends by (auto simp: chains_end_def)
  show "\<exists>c. chain_ends w' p c"
  proof (cases "c = port")
    case True
    from linked_extends [OF c True link nt linked_keeps [OF b(1) link nt b(2)]] show ?thesis by blast
  next
    case False
    from linked_keeps [OF c link nt False] show ?thesis by blast
  qed
qed

text \<open>
  C3: The circularity check ends whenever all chains of ports in transit end, whether or not its quick
  test gets the lock, and keeps this property: no circle of ports and messages can arise. It answers
  true exactly when the chain of the destination ends at the port itself; then nothing changes, and
  linking the port would have closed a circle. Otherwise the port is in transit to the destination,
  which gains a reference.
\<close>

theorem check_circularity_safe:
  assumes ends: "chains_end w" and dest: "dest \<noteq> IP_NULL"
    and limbo: "ip_active (w_ports w port)" "ip_receiver_name (w_ports w port) = MACH_PORT_NULL"
      "ip_destination (w_ports w port) = IP_NULL"
  defines "w' \<equiv> link_port port dest w"
  shows "ipc_port_check_circularity try port dest w =
      Some (if chain_base w dest = Some port then (True, w) else (False, w'))
    \<and> (chain_base w dest = Some port \<longrightarrow> chain_base w' port = None)
    \<and> (chain_base w dest \<noteq> Some port \<longrightarrow> chains_end w' \<and> in_transit (w_ports w' port) \<and>
        ip_destination (w_ports w' port) = dest \<and>
        ip_references (w_ports w' dest) = ip_references (w_ports w dest) + 1)"
proof -
  have nt: "\<not> in_transit (w_ports w port)" using limbo by (simp add: in_transit_def)
  have link: "linked w port dest w'" unfolding w'_def using dest limbo(1,2) by (rule link_port_linked)
  obtain b where b: "chain_ends w dest b" using ends by (auto simp: chains_end_def)
  then have base: "chain_base w dest = Some b" by (rule chain_base_complete)
  have self: "chain_ends w port port" using nt by (rule chain_ends.stop)
  have circle: "chain_base w' port = None" if "b = port"
  proof (rule ccontr)
    assume "chain_base w' port \<noteq> None"
    then obtain c where "chain_ends w' port c" using chain_base_sound by blast
    from linked_circle [OF this link nt] b that self show False by simp
  qed
  show ?thesis
    using check_circularity_run [OF b nt, of "try"] base circle linked_chains_end [OF ends link nt b]
      linkedD(1,2) [OF link] limbo by (auto simp: w'_def)
qed

lemma io_active_new [simp]: "io_active (io_makebits True IOT_PORT kotype)"
  by (simp add: io_active_def io_makebits_def bit.conj_disj_distrib2 ipc_defs)

lemma example_chains_end: "chains_end example_world"
proof -
  have "\<not> in_transit (w_ports example_world p)" for p
    by (simp add: in_transit_def example_world_def example_port_def zero_port_def MACH_PORT_NULL_def IO_NULL_def)
  then show ?thesis unfolding chains_end_def using chain_ends.stop by blast
qed

theorem check_circularity_safe_witness:
  "\<exists>w'. ipc_port_check_circularity False 0x80 0x40 example_world = Some (False, w') \<and> chains_end w' \<and>
     ip_destination (w_ports w' 0x80) = 0x40"
proof -
  have p: "w_ports example_world 0x80 = zero_port\<lparr>ip_bits := io_makebits True IOT_PORT 0, ip_references := 1\<rparr>"
    by (simp add: example_world_def)
  have l: "ip_active (w_ports example_world 0x80)" "ip_receiver_name (w_ports example_world 0x80) = MACH_PORT_NULL"
    "ip_destination (w_ports example_world 0x80) = IP_NULL"
    unfolding p by (simp_all add: zero_port_def MACH_PORT_NULL_def IO_NULL_def)
  have "chain_base example_world 0x40 = Some 0x40"
    by (subst chain_base.simps) (simp add: in_transit_def example_world_def example_port_def MACH_PORT_NULL_def)
  moreover have "(0x40 :: ipc_port_t) \<noteq> IP_NULL" by (simp add: IO_NULL_def)
  ultimately show ?thesis
    using check_circularity_safe [OF example_chains_end _ l, of "0x40" False] by auto
qed

section \<open>The table of dead-name requests\<close>

text \<open>The free list of a table, and the requests registered in it.\<close>

fun dn_chain :: "ipc_port_request list \<Rightarrow> nat \<Rightarrow> nat list \<Rightarrow> bool" where
  "dn_chain table i [] \<longleftrightarrow> ipr_next (table ! i) = 0"
| "dn_chain table i (x # xs) \<longleftrightarrow> ipr_next (table ! i) = x \<and> x \<noteq> 0 \<and> dn_chain table x xs"

definition dn_ok :: "nat list \<Rightarrow> ipc_port_request list \<Rightarrow> nat list \<Rightarrow> bool" where
  "dn_ok dnits table xs \<longleftrightarrow> table \<noteq> [] \<and> length table < 2 ^ 32 \<and>
     length table = dnits ! unat (ipr_word (table ! 0)) \<and> dn_chain table 0 xs \<and> distinct xs \<and>
     set xs = {i. 0 < i \<and> i < length table \<and> ipr_name (table ! i) = MACH_PORT_NULL}"

definition dn_map :: "ipc_port_request list \<Rightarrow> nat \<rightharpoonup> mach_port_t \<times> ipc_port_t" where
  "dn_map table i = (if 0 < i \<and> i < length table \<and> ipr_name (table ! i) \<noteq> MACH_PORT_NULL
     then Some (ipr_name (table ! i), ipr_soright (table ! i)) else None)"

lemma dn_okD:
  assumes "dn_ok dnits table xs"
  shows "table \<noteq> []" "length table < 2 ^ 32" "length table = dnits ! unat (ipr_word (table ! 0))" "dn_chain table 0 xs"
    "distinct xs" "i \<in> set xs \<longleftrightarrow> 0 < i \<and> i < length table \<and> ipr_name (table ! i) = MACH_PORT_NULL"
  using assms unfolding dn_ok_def by auto

lemma dn_chain_cong:
  assumes "\<forall>j \<in> insert i (set xs). ipr_next (table' ! j) = ipr_next (table ! j)"
  shows "dn_chain table' i xs \<longleftrightarrow> dn_chain table i xs"
  using assms by (induction xs arbitrary: i) auto

text \<open>The two table updates.\<close>

definition dn_take :: "ipc_port_request list \<Rightarrow> nat \<Rightarrow> mach_port_t \<Rightarrow> ipc_port_t \<Rightarrow> ipc_port_request list" where
  "dn_take table x name soright =
     table[0 := (table ! 0)\<lparr>ipr_notify := ipr_notify (table ! x)\<rparr>, x := \<lparr>ipr_notify = soright, ipr_word = name\<rparr>]"

definition dn_give :: "ipc_port_request list \<Rightarrow> nat \<Rightarrow> ipc_port_request list" where
  "dn_give table x = table[x := \<lparr>ipr_notify = ipr_notify (table ! 0), ipr_word = MACH_PORT_NULL\<rparr>,
     0 := (table ! 0)\<lparr>ipr_notify := of_nat x\<rparr>]"

lemma dn_take_ok:
  assumes ok: "dn_ok dnits table (x # xs)" and name: "name \<noteq> MACH_PORT_NULL"
  shows "dn_ok dnits (dn_take table x name soright) xs"
    and "dn_map (dn_take table x name soright) = (dn_map table)(x \<mapsto> (name, soright))"
proof -
  note D = dn_okD [OF ok]
  have x: "0 < x" "x < length table" "x \<notin> set xs" "dn_chain table x xs" "0 < length table"
    using D(6) [of x] D(4,5) D(1) by auto
  have n0: "0 \<notin> set xs" using D(6) [of 0] by auto
  let ?t = "dn_take table x name soright"
  have nth: "?t ! j = (if j = x then \<lparr>ipr_notify = soright, ipr_word = name\<rparr>
      else if j = 0 then (table ! 0)\<lparr>ipr_notify := ipr_notify (table ! x)\<rparr> else table ! j)" if "j < length table" for j
    using that x by (auto simp: dn_take_def nth_list_update)
  have len: "length ?t = length table" by (simp add: dn_take_def)
  have "dn_chain ?t 0 xs"
  proof (cases xs)
    case Nil
    then show ?thesis using x nth [of 0] by simp
  next
    case (Cons y ys)
    have "dn_chain ?t y ys \<longleftrightarrow> dn_chain table y ys"
    proof (rule dn_chain_cong, rule ballI)
      fix j assume "j \<in> insert y (set ys)"
      then have "j \<in> set xs" using Cons by auto
      then have "j \<noteq> x" "j \<noteq> 0" "j < length table" using x n0 D(6) [of j] by auto
      then show "ipr_next (?t ! j) = ipr_next (table ! j)" using nth by simp
    qed
    with Cons x show ?thesis using nth [of 0] by auto
  qed
  moreover have "i \<in> set xs \<longleftrightarrow> 0 < i \<and> i < length table \<and> ipr_name (?t ! i) = MACH_PORT_NULL" for i
    using D(6) [of i] nth [of i] name x(3) by (cases "i = x"; cases "i < length table"; cases "i = 0") simp_all
  then have "set xs = {i. 0 < i \<and> i < length table \<and> ipr_name (?t ! i) = MACH_PORT_NULL}" by blast
  ultimately show "dn_ok dnits ?t xs"
    using D(1-3,5) x nth [of 0] len by (simp add: dn_ok_def flip: length_greater_0_conv)
  show "dn_map ?t = (dn_map table)(x \<mapsto> (name, soright))"
  proof
    fix i
    show "dn_map ?t i = ((dn_map table)(x \<mapsto> (name, soright))) i"
      using nth [of i] len x name by (cases "i = x"; cases "i < length table"; cases "i = 0") (simp_all add: dn_map_def)
  qed
qed

lemma dn_give_ok:
  assumes ok: "dn_ok dnits table xs" and x: "dn_map table x = Some (name, soright)"
  shows "dn_ok dnits (dn_give table x) (x # xs)" and "dn_map (dn_give table x) = (dn_map table)(x := None)"
    and "ipr_soright (table ! x) = soright"
proof -
  note D = dn_okD [OF ok]
  have x: "0 < x" "x < length table" "ipr_name (table ! x) \<noteq> MACH_PORT_NULL" "ipr_soright (table ! x) = soright"
    using x by (auto simp: dn_map_def split: if_splits)
  then show "ipr_soright (table ! x) = soright" by simp
  have nx: "x \<notin> set xs" "0 \<notin> set xs" "0 < length table" using x D(6) [of x] D(6) [of 0] by auto
  let ?t = "dn_give table x"
  have nth: "?t ! j = (if j = 0 then (table ! 0)\<lparr>ipr_notify := of_nat x\<rparr>
      else if j = x then \<lparr>ipr_notify = ipr_notify (table ! 0), ipr_word = MACH_PORT_NULL\<rparr> else table ! j)"
    if "j < length table" for j
    using that x by (auto simp: dn_give_def nth_list_update)
  have len: "length ?t = length table" by (simp add: dn_give_def)
  have u: "unat (of_nat x :: 32 word) = x" using x(2) D(2) by (simp add: unsigned_of_nat take_bit_nat_eq_self)
  have "dn_chain ?t x xs"
  proof (cases xs)
    case Nil
    then show ?thesis using x D(4) nth [of x] by simp
  next
    case (Cons y ys)
    have "dn_chain ?t y ys \<longleftrightarrow> dn_chain table y ys"
    proof (rule dn_chain_cong, rule ballI)
      fix j assume "j \<in> insert y (set ys)"
      then have "j \<in> set xs" using Cons by auto
      then have "j \<noteq> x" "j \<noteq> 0" "j < length table" using nx D(6) [of j] by auto
      then show "ipr_next (?t ! j) = ipr_next (table ! j)" using nth by simp
    qed
    with Cons x D(4) show ?thesis using nth [of x] by auto
  qed
  then have "dn_chain ?t 0 (x # xs)" using nth [of 0] nx u x by simp
  moreover have "i \<in> set (x # xs) \<longleftrightarrow> 0 < i \<and> i < length table \<and> ipr_name (?t ! i) = MACH_PORT_NULL" for i
    using D(6) [of i] nth [of i] x by (cases "i = x"; cases "i < length table"; cases "i = 0") simp_all
  then have "set (x # xs) = {i. 0 < i \<and> i < length table \<and> ipr_name (?t ! i) = MACH_PORT_NULL}" by blast
  ultimately show "dn_ok dnits ?t (x # xs)"
    using D(1-3,5) nx nth [of 0] len by (simp add: dn_ok_def flip: length_greater_0_conv)
  show "dn_map ?t = (dn_map table)(x := None)"
  proof
    fix i
    show "dn_map ?t i = ((dn_map table)(x := None)) i"
      using nth [of i] len x by (cases "i = x"; cases "i < length table"; cases "i = 0") (simp_all add: dn_map_def)
  qed
qed

lemma dngrow_free_length [simp]: "length (dngrow_free i n f) = n"
  by (induction n arbitrary: i f) simp_all

lemma dngrow_free_nth:
  "k < n \<Longrightarrow> dngrow_free i n f ! k =
     \<lparr>ipr_notify = of_nat (if k = 0 then f else i + k - 1), ipr_word = MACH_PORT_NULL\<rparr>"
proof (induction n arbitrary: i f k)
  case (Suc n)
  then show ?case by (cases k) auto
qed simp

text \<open>The new table: its header, the old requests and the new free elements.\<close>

lemma dngrow_nth:
  assumes "tbl = h # old @ dngrow_free (Suc (length old)) n f" and "i < length tbl"
  shows "tbl ! i = (if i = 0 then h else if i \<le> length old then old ! (i - 1)
      else \<lparr>ipr_notify = of_nat (if i = Suc (length old) then f else i - 1), ipr_word = MACH_PORT_NULL\<rparr>)"
proof (cases i)
  case (Suc j)
  then show ?thesis using assms by (auto simp: nth_append dngrow_free_nth)
qed (use assms in simp)

lemma unat_of_nat_small: "n < 2 ^ 32 \<Longrightarrow> unat (of_nat n :: 32 word) = n"
  by (simp add: unsigned_of_nat take_bit_nat_eq_self)

lemma dn_chain_new:
  assumes nth: "\<And>i. m \<le> i \<Longrightarrow> i < nsize \<Longrightarrow> ipr_next (tbl ! i) = (if i = m then f else i - 1)"
    and m: "0 < m" and rest: "f = (case xs of [] \<Rightarrow> 0 | x # _ \<Rightarrow> x)" "xs \<noteq> [] \<Longrightarrow> hd xs \<noteq> 0 \<and> dn_chain tbl (hd xs) (tl xs)"
  shows "m \<le> k \<Longrightarrow> k < nsize \<Longrightarrow> dn_chain tbl k (rev [m..<k] @ xs)"
proof (induction k)
  case (Suc k)
  show ?case
  proof (cases "m = Suc k")
    case True
    then show ?thesis using nth [of m] Suc.prems rest by (cases xs) auto
  next
    case False
    then have "m \<le> k" "k < nsize" using Suc.prems by auto
    with Suc.IH m nth [of "Suc k"] Suc.prems False show ?thesis by simp
  qed
qed (use m in simp)

text \<open>Growing keeps the requests, and every new element is free.\<close>

lemma dngrow_table_ok:
  assumes old: "case otable of None \<Rightarrow> xs = [] \<and> m = 1 \<and> map0 = (\<lambda>_. None)
      | Some table \<Rightarrow> dn_ok dnits table xs \<and> m = length table \<and> map0 = dn_map table"
    and size: "m < dnits ! its" "dnits ! its < 2 ^ 32" "its < 2 ^ 32"
  shows "dn_ok dnits (dngrow_table dnits its otable) (rev [m..<dnits ! its] @ xs)"
    and "dn_map (dngrow_table dnits its otable) = map0"
proof -
  let ?n = "dnits ! its"
  define old where "old = (case otable of None \<Rightarrow> [] | Some table \<Rightarrow> tl table)"
  define f where "f = (case otable of None \<Rightarrow> 0 | Some table \<Rightarrow> ipr_next (table ! 0))"
  define h where "h = \<lparr>ipr_notify = of_nat (?n - 1), ipr_word = of_nat its\<rparr>"
  have m: "m = Suc (length old)"
    using old dn_okD(1) by (auto simp: old_def split: option.splits)
  have tbl: "dngrow_table dnits its otable = h # old @ dngrow_free (Suc (length old)) (?n - m) f"
  proof (cases otable)
    case None
    then show ?thesis using old size by (simp add: dngrow_table_def old_def f_def h_def Let_def)
  next
    case (Some table)
    then have ok: "dn_ok dnits table xs" and mm: "m = length table" using old by auto
    from dn_okD(3) [OF ok] mm have "dnits ! unat (ipr_word (table ! 0)) = m" by simp
    with Some mm size(1) show ?thesis using dn_okD(1) [OF ok]
      by (simp add: dngrow_table_def old_def f_def h_def Let_def)
  qed
  let ?t = "dngrow_table dnits its otable"
  have len: "length ?t = ?n" using tbl m size by simp
  note nth = dngrow_nth [OF tbl, unfolded len]
  have oldt: "?t ! i = table ! i" if "otable = Some table" "0 < i" "i < m" for i table
    using that nth [of i] m size by (simp add: old_def nth_tl)
  have f: "f = (case xs of [] \<Rightarrow> 0 | x # _ \<Rightarrow> x)" "f < m"
  proof -
    have "f = (case xs of [] \<Rightarrow> 0 | x # _ \<Rightarrow> x) \<and> f < m"
    proof (cases otable)
      case (Some table)
      then have ok: "dn_ok dnits table xs" "m = length table" using old by auto
      from dn_okD(4) [OF ok(1)] dn_okD(6) [OF ok(1), of "hd xs"] m ok(2) Some show ?thesis
        by (cases xs) (auto simp: f_def)
    qed (use old m in \<open>simp add: f_def\<close>)
    then show "f = (case xs of [] \<Rightarrow> 0 | x # _ \<Rightarrow> x)" "f < m" by simp_all
  qed
  have new: "ipr_next (?t ! i) = (if i = m then f else i - 1)" "ipr_name (?t ! i) = MACH_PORT_NULL" if "m \<le> i" "i < ?n" for i
    using that nth [of i] m f(2) size(2) by (auto simp: unat_of_nat_small simp del: of_nat_diff)
  have rest: "hd xs \<noteq> 0 \<and> dn_chain ?t (hd xs) (tl xs)" if ne: "xs \<noteq> []"
  proof -
    obtain table where t: "otable = Some table" "dn_ok dnits table xs" "m = length table"
      using old ne by (cases otable) auto
    note D = dn_okD [OF t(2)]
    obtain y ys where xs: "xs = y # ys" using ne by (cases xs) auto
    have "dn_chain ?t y ys \<longleftrightarrow> dn_chain table y ys"
    proof (rule dn_chain_cong, rule ballI)
      fix j assume "j \<in> insert y (set ys)"
      then have "0 < j \<and> j < m" using D(6) [of j] xs t(3) by auto
      then show "ipr_next (?t ! j) = ipr_next (table ! j)" using oldt [OF t(1)] by simp
    qed
    with D(4) xs show ?thesis by simp
  qed
  have h0: "?t ! 0 = h" using nth [of 0] size by simp
  have "dn_chain ?t (?n - 1) (rev [m..<?n - 1] @ xs)"
    by (rule dn_chain_new [of m ?n ?t f xs]) (use new m f rest size(1) in auto)
  moreover have "rev [m..<?n] = (?n - 1) # rev [m..<?n - 1]"
    using size(1) upt_Suc_append [of m "?n - 1"] by (cases ?n) auto
  ultimately have chain: "dn_chain ?t 0 (rev [m..<?n] @ xs)"
    using h0 size m by (simp add: h_def unat_of_nat_small del: of_nat_diff)
  have names: "i \<in> set (rev [m..<?n] @ xs) \<longleftrightarrow> 0 < i \<and> i < ?n \<and> ipr_name (?t ! i) = MACH_PORT_NULL" for i
  proof (cases "0 < i \<and> i < m")
    case True
    show ?thesis
    proof (cases otable)
      case None
      then show ?thesis using old True by simp
    next
      case (Some table)
      then show ?thesis using old True oldt [OF Some] dn_okD(6) [of dnits table xs i] size(1) by auto
    qed
  next
    case False
    have "i \<notin> set xs"
    proof (cases otable)
      case (Some table)
      then show ?thesis using old dn_okD(6) [of dnits table xs i] False by auto
    qed (use old in simp)
    then show ?thesis using new(2) [of i] False m by auto
  qed
  have dist: "distinct (rev [m..<?n] @ xs)"
  proof (cases otable)
    case (Some table)
    then have ok: "dn_ok dnits table xs" "m = length table" using old by auto
    have "i \<in> set xs \<Longrightarrow> i < m" for i using dn_okD(6) [OF ok(1), of i] ok(2) by simp
    then have "set (rev [m..<?n]) \<inter> set xs = {}" by fastforce
    with dn_okD(5) [OF ok(1)] show ?thesis by simp
  qed (use old in simp)
  show "dn_ok dnits ?t (rev [m..<?n] @ xs)"
  proof -
    have "set (rev [m..<?n] @ xs) = {i. 0 < i \<and> i < ?n \<and> ipr_name (?t ! i) = MACH_PORT_NULL}" using names by blast
    moreover have "unat (ipr_word (?t ! 0)) = its" using h0 size(3) by (simp add: h_def unat_of_nat_small)
    moreover have "?t \<noteq> []" using tbl by simp
    ultimately show ?thesis unfolding dn_ok_def len using chain dist size(2) by simp
  qed
  show "dn_map ?t = map0"
  proof
    fix i
    show "dn_map ?t i = map0 i"
    proof (cases "0 < i \<and> i < m")
      case True
      show ?thesis
      proof (cases otable)
        case (Some table)
        then show ?thesis using True old oldt [OF Some] size(1) len by (simp add: dn_map_def)
      qed (use True old in simp)
    next
      case False
      then show ?thesis using new(2) [of i] len old by (auto simp: dn_map_def split: option.splits)
    qed
  qed
qed

abbreviation dn_elems :: "ipc_world \<Rightarrow> ipc_port_t \<Rightarrow> ipc_port_request list option" where
  "dn_elems w port \<equiv> map_option ipr_elems (ip_dnrequests (w_ports w port))"

lemma upd_port_twice: "upd_port port f (upd_port port g w) = upd_port port (f \<circ> g) w"
  by (simp add: upd_port_def)

lemma upd_port_same: "f (w_ports w port) = w_ports w port \<Longrightarrow> upd_port port f w = w"
  by (simp add: upd_port_def fun_upd_idem)

lemma reference_release [simp]: "ip_release port (ip_reference port w) = w"
  unfolding ip_reference_def ip_release_def upd_port_twice by (rule upd_port_same) (simp add: comp_def)

lemma dn_table_elems [simp]:
  "ip_dnrequests (w_ports w port) = Some t \<Longrightarrow> dn_elems (upd_port port (dn_table elems) w) port = Some elems"
  by (simp add: dn_table_def)

text \<open>
  C19: In a table with a free element a dead-name request is registered under the index of this
  element, next to all others; cancelling it returns its send-once right and leaves the other
  requests as they were, with the element free again. Without a table or a free element the request
  is refused with KERN_NO_SPACE and nothing changes.
\<close>

theorem dead_name_request_cancel:
  assumes t: "ip_dnrequests (w_ports w port) = Some t" "dn_ok dnits (ipr_elems t) free" and name: "name \<noteq> MACH_PORT_NULL"
  shows "(free = [] \<longrightarrow> ipc_port_dnrequest port name soright w = (KERN_NO_SPACE, 0, w))
    \<and> (\<forall>x xs. free = x # xs \<longrightarrow> (\<exists>w' w'' table' table''.
        ipc_port_dnrequest port name soright w = (KERN_SUCCESS, x, w') \<and> dn_elems w' port = Some table' \<and>
        dn_ok dnits table' xs \<and> dn_map (ipr_elems t) x = None \<and>
        dn_map table' = (dn_map (ipr_elems t))(x \<mapsto> (name, soright)) \<and>
        ipc_port_dncancel port name x w' = Some (soright, w'') \<and> dn_elems w'' port = Some table'' \<and>
        dn_ok dnits table'' (x # xs) \<and> dn_map table'' = dn_map (ipr_elems t)))"
proof (intro conjI allI impI)
  assume "free = []"
  then show "ipc_port_dnrequest port name soright w = (KERN_NO_SPACE, 0, w)"
    using dn_okD(4) [OF t(2)] t(1) by (simp add: ipc_port_dnrequest_def Let_def)
next
  fix x xs assume free: "free = x # xs"
  let ?t = "ipr_elems t" and ?t1 = "dn_take (ipr_elems t) x name soright"
  have ok: "dn_ok dnits ?t (x # xs)" using t(2) free by simp
  have x: "ipr_next (?t ! 0) = x" "x \<noteq> 0" "dn_map ?t x = None"
    using dn_okD(4) [OF ok] dn_okD(6) [OF ok, of x] by (auto simp: dn_map_def)
  define w' where "w' = upd_port port (dn_table ?t1) w"
  have r1: "ipc_port_dnrequest port name soright w = (KERN_SUCCESS, x, w')"
    using t(1) x by (simp add: ipc_port_dnrequest_def Let_def w'_def dn_take_def)
  have t1: "ip_dnrequests (w_ports w' port) = Some (t\<lparr>ipr_elems := ?t1\<rparr>)"
    using t(1) by (simp add: w'_def dn_table_def)
  note take = dn_take_ok [OF ok name, of soright]
  have m: "dn_map ?t1 x = Some (name, soright)" using take(2) by simp
  note give = dn_give_ok [OF take(1) m]
  define w'' where "w'' = upd_port port (dn_table (dn_give ?t1 x)) w'"
  have r2: "ipc_port_dncancel port name x w' = Some (soright, w'')"
    using t1 give(3) x(2) by (simp add: ipc_port_dncancel_def Let_def w''_def dn_give_def)
  have restored: "dn_map (dn_give ?t1 x) = dn_map ?t" using give(2) take(2) x(3) by (simp add: fun_upd_idem)
  show "\<exists>w' w'' table' table''. ipc_port_dnrequest port name soright w = (KERN_SUCCESS, x, w') \<and>
      dn_elems w' port = Some table' \<and> dn_ok dnits table' xs \<and> dn_map ?t x = None \<and>
      dn_map table' = (dn_map ?t)(x \<mapsto> (name, soright)) \<and>
      ipc_port_dncancel port name x w' = Some (soright, w'') \<and> dn_elems w'' port = Some table'' \<and>
      dn_ok dnits table'' (x # xs) \<and> dn_map table'' = dn_map ?t"
    using r1 r2 take give(1) restored x(3) t1
    by (intro exI [of _ w'] exI [of _ w''] exI [of _ ?t1] exI [of _ "dn_give ?t1 x"]) (simp add: w''_def dn_table_def)
qed

lemma dnsizes_less:
  assumes "dnrequests_sizes_ok dnits" "i + 2 < length dnits"
  shows "dnits ! i < dnits ! (i + 1)"
  using assms sorted_wrt_nth_less [of "(<)" "butlast dnits" i "i + 1"]
  by (simp add: dnrequests_sizes_ok_def nth_butlast)

lemma dnsizes_first: "dnrequests_sizes_ok dnits \<Longrightarrow> 2 \<le> dnits ! 0"
  by (cases dnits) (auto simp: dnrequests_sizes_ok_def)

text \<open>
  Growing the table of dead-name requests to its next size, undisturbed, succeeds with every
  request kept under its index and every new element free; the reference taken meanwhile is dropped
  again. Without memory, or at the last size, the result is KERN_RESOURCE_SHORTAGE and nothing
  changes.
\<close>

theorem ipc_port_dngrow_keeps:
  assumes sizes: "dnrequests_sizes_ok dnits" "\<forall>n \<in> set dnits. n < 2 ^ 32" "length dnits < 2 ^ 32"
    and its: "its = (case ip_dnrequests (w_ports w port) of None \<Rightarrow> 0 | Some t \<Rightarrow> ipr_size t + 1)" "its < length dnits"
    and active: "ip_active (w_ports w port)" and refs: "ip_references (w_ports w port) \<noteq> 0"
    and old: "case ip_dnrequests (w_ports w port) of None \<Rightarrow> xs = [] \<and> m = 1 \<and> map0 = (\<lambda>_. None)
      | Some t \<Rightarrow> dn_ok dnits (ipr_elems t) xs \<and> m = length (ipr_elems t) \<and> map0 = dn_map (ipr_elems t)"
  shows "(its + 1 = length dnits \<or> mem (dnits ! its) = None \<longrightarrow>
        ipc_port_dngrow dnits mem id port ITS_SIZE_NONE w = Some (KERN_RESOURCE_SHORTAGE, w))
    \<and> (its + 1 < length dnits \<and> mem (dnits ! its) \<noteq> None \<longrightarrow> (\<exists>w' table.
        ipc_port_dngrow dnits mem id port ITS_SIZE_NONE w = Some (KERN_SUCCESS, w') \<and>
        dn_elems w' port = Some table \<and> dn_ok dnits table (rev [m..<dnits ! its] @ xs) \<and> m < dnits ! its \<and>
        dn_map table = map0 \<and> ip_references (w_ports w' port) = ip_references (w_ports w port)))"
proof -
  have ne: "dnits \<noteq> []" using its(2) by auto
  then have last: "dnits ! (length dnits - 1) = 0"
    using sizes(1) last_conv_nth [OF ne] by (simp add: dnrequests_sizes_ok_def)
  have short: "ipc_port_dngrow dnits mem id port ITS_SIZE_NONE w = Some (KERN_RESOURCE_SHORTAGE, w)"
    if "dnits ! its = 0 \<or> mem (dnits ! its) = None"
    using that refs its(1)
    by (cases "ip_dnrequests (w_ports w port)")
      (auto simp: ipc_port_dngrow_def Let_def ipc_object_release_def ip_check_unlock_def)
  have "its + 1 = length dnits \<Longrightarrow> dnits ! its = 0" using last by (metis add_diff_cancel_right')
  with short have A: "its + 1 = length dnits \<or> mem (dnits ! its) = None \<Longrightarrow>
      ipc_port_dngrow dnits mem id port ITS_SIZE_NONE w = Some (KERN_RESOURCE_SHORTAGE, w)" by blast
  have B: "\<exists>w' table. ipc_port_dngrow dnits mem id port ITS_SIZE_NONE w = Some (KERN_SUCCESS, w') \<and>
        dn_elems w' port = Some table \<and> dn_ok dnits table (rev [m..<dnits ! its] @ xs) \<and> m < dnits ! its \<and>
        dn_map table = map0 \<and> ip_references (w_ports w' port) = ip_references (w_ports w port)"
    if a: "its + 1 < length dnits" and b: "mem (dnits ! its) = Some address" for address
  proof -
    have less: "m < dnits ! its"
    proof (cases "ip_dnrequests (w_ports w port)")
      case None
      then show ?thesis using old its(1) dnsizes_first [OF sizes(1)] by simp
    next
      case (Some t)
      then have ok: "dn_ok dnits (ipr_elems t) xs" "m = length (ipr_elems t)" using old by auto
      then show ?thesis
        using dn_okD(3) [OF ok(1)] dnsizes_less [OF sizes(1), of "ipr_size t"] its(1) Some a by simp
    qed
    have bound: "dnits ! its < 2 ^ 32" "its < 2 ^ 32" using sizes its(2) by auto
    let ?o = "map_option ipr_elems (ip_dnrequests (w_ports w port))"
    have o: "case ?o of None \<Rightarrow> xs = [] \<and> m = 1 \<and> map0 = (\<lambda>_. None)
        | Some table \<Rightarrow> dn_ok dnits table xs \<and> m = length table \<and> map0 = dn_map table"
      using old by (auto split: option.splits)
    note new = dngrow_table_ok [OF o less bound]
    define w' where "w' = upd_port port (\<lambda>p. p\<lparr>ip_dnrequests := Some \<lparr>ipr_address = address,
        ipr_elems = dngrow_table dnits its ?o\<rparr>\<rparr>) w"
    have "ipc_port_dngrow dnits mem id port ITS_SIZE_NONE w = Some (KERN_SUCCESS, w')"
      using b less active its(1)
      by (cases "ip_dnrequests (w_ports w port)") (simp_all add: ipc_port_dngrow_def Let_def w'_def)
    then show ?thesis using new less by (intro exI [of _ w'] exI [of _ "dngrow_table dnits its ?o"]) (simp add: w'_def)
  qed
  show ?thesis using A B by blast
qed

text \<open>A port with a table of two requests, of which one is free.\<close>

definition example_requests :: ipc_dnrequests where
  "example_requests = \<lparr>ipr_address = 0x500, ipr_elems =
     [\<lparr>ipr_notify = 2, ipr_word = 0\<rparr>, \<lparr>ipr_notify = 0x80, ipr_word = 0x203\<rparr>, \<lparr>ipr_notify = 0, ipr_word = 0\<rparr>]\<rparr>"

definition example_dnits :: "nat list" where
  "example_dnits = [3, 8, 16, 0]"

definition example_world1 :: ipc_world where
  "example_world1 = upd_port 0x40 (\<lambda>p. p\<lparr>ip_dnrequests := Some example_requests\<rparr>) example_world"

lemma example_dn_ok: "dn_ok example_dnits (ipr_elems example_requests) [2]"
proof -
  let ?t = "ipr_elems example_requests"
  have names: "ipr_name (?t ! 1) = 0x203" "ipr_name (?t ! 2) = MACH_PORT_NULL"
    by (simp_all add: example_requests_def MACH_PORT_NULL_def)
  have "i \<in> {2} \<longleftrightarrow> 0 < i \<and> i < 3 \<and> ipr_name (?t ! i) = MACH_PORT_NULL" for i
  proof -
    consider "i = 0" | "i = 1" | "i = 2" | "3 \<le> i" by linarith
    then show ?thesis using names by cases (simp_all add: MACH_PORT_NULL_def)
  qed
  then have s: "set [2] = {i. 0 < i \<and> i < 3 \<and> ipr_name (?t ! i) = MACH_PORT_NULL}"
    by (simp add: set_eq_iff)
  have n: "length ?t = 3" by (simp add: example_requests_def)
  have c: "dn_chain ?t 0 [2]" by (simp add: example_requests_def)
  have "length ?t = example_dnits ! unat (ipr_word (?t ! 0))" by (simp add: example_requests_def example_dnits_def)
  moreover have "?t \<noteq> []" by (simp add: example_requests_def)
  ultimately show ?thesis unfolding dn_ok_def using s n c by simp
qed

lemma example_requests_at: "ip_dnrequests (w_ports example_world1 0x40) = Some example_requests"
  by (simp add: example_world1_def)

theorem dead_name_request_cancel_witness:
  "\<exists>w' w''. ipc_port_dnrequest 0x40 0x303 0x80 example_world1 = (KERN_SUCCESS, 2, w') \<and>
     ipc_port_dncancel 0x40 0x303 2 w' = Some (0x80, w'')"
proof -
  have "(0x303 :: mach_port_t) \<noteq> MACH_PORT_NULL" by (simp add: MACH_PORT_NULL_def)
  from dead_name_request_cancel [OF example_requests_at example_dn_ok this, of "0x80"] show ?thesis by blast
qed

theorem ipc_port_dngrow_keeps_witness:
  "\<exists>w' table. ipc_port_dngrow example_dnits (\<lambda>_. Some 0x600) id 0x40 ITS_SIZE_NONE example_world1 = Some (KERN_SUCCESS, w') \<and>
     dn_elems w' 0x40 = Some table \<and> dn_map table = dn_map (ipr_elems example_requests)"
proof -
  have s: "dnrequests_sizes_ok example_dnits" "\<forall>n \<in> set example_dnits. n < 2 ^ 32" "length example_dnits < 2 ^ 32"
    by (simp_all add: dnrequests_sizes_ok_def example_dnits_def)
  have its: "1 = (case ip_dnrequests (w_ports example_world1 0x40) of None \<Rightarrow> 0 | Some t \<Rightarrow> ipr_size t + 1)"
    "1 < length example_dnits" unfolding example_requests_at by (simp_all add: example_requests_def example_dnits_def)
  have a: "ip_active (w_ports example_world1 0x40)" "ip_references (w_ports example_world1 0x40) \<noteq> 0"
    by (simp_all add: example_world1_def example_world_def example_port_def)
  have o: "case ip_dnrequests (w_ports example_world1 0x40) of None \<Rightarrow> [2] = [] \<and> 3 = 1 \<and> dn_map (ipr_elems example_requests) = (\<lambda>_. None)
      | Some t \<Rightarrow> dn_ok example_dnits (ipr_elems t) [2] \<and> 3 = length (ipr_elems t) \<and> dn_map (ipr_elems example_requests) = dn_map (ipr_elems t)"
    unfolding example_requests_at using example_dn_ok by (simp add: example_requests_def)
  have "1 + 1 < length example_dnits" by (simp add: example_dnits_def)
  with ipc_port_dngrow_keeps [OF s its a o, of "\<lambda>_. Some 0x600"] show ?thesis by auto
qed

text \<open>
  C33: When the table is asked to grow to a size beyond the next one, the call returns KERN_SUCCESS but
  the table does not grow: the new table has another size entry than the one after the old, so the
  check for a concurrent growth fails, and the new table is freed.
\<close>

theorem dngrow_target_ignored:
  assumes "ip_dnrequests (w_ports w port) = Some t" "target \<noteq> ITS_SIZE_NONE" "dnits ! ipr_size t < unat target"
    and "dngrow_search dnits target (ipr_size t + 1) = Some its" "its \<noteq> ipr_size t + 1" "dnits ! its \<noteq> 0"
    and "mem (dnits ! its) \<noteq> None" "ip_references (w_ports w port) \<noteq> 0"
  shows "ipc_port_dngrow dnits mem id port target w = Some (KERN_SUCCESS, w)"
  using assms by (auto simp: ipc_port_dngrow_def Let_def ip_check_unlock_def)

theorem dngrow_target_ignored_witness:
  "ipc_port_dngrow example_dnits (\<lambda>_. Some 0x600) id 0x40 16 example_world1 = Some (KERN_SUCCESS, example_world1)"
proof -
  have s: "dngrow_search example_dnits 16 (ipr_size example_requests + 1) = Some 2"
    by (subst dngrow_search.simps, subst dngrow_search.simps)
      (simp add: example_dnits_def example_requests_def)
  show ?thesis
    by (rule dngrow_target_ignored [OF example_requests_at _ _ s])
      (simp_all add: ITS_SIZE_NONE_def example_dnits_def example_requests_def example_world1_def example_world_def example_port_def)
qed

section \<open>Send rights and no-senders notifications\<close>

text \<open>
  The operations on the send rights of a port. Beside the world a state has a history: the value of
  \<open>sync\<close> with which the last no-senders request was made, the send-once rights that the requests
  handed in, and the ones that they handed back, which were registered before.
\<close>

record ns_history =
  hs_sync :: natural_t
  hs_asked :: "ipc_port_t list"
  hs_given :: "ipc_port_t list"

inductive send_step :: "ipc_port_t \<Rightarrow> ipc_world \<times> ns_history \<Rightarrow> ipc_world \<times> ns_history \<Rightarrow> bool" for port where
  make: "ip_active (w_ports w port) \<Longrightarrow> ip_srights (w_ports w port) \<noteq> - 1 \<Longrightarrow>
    send_step port (w, h) (snd (ipc_port_make_send port w), h)"
| copy: "IO_VALID port \<Longrightarrow> ip_srights (w_ports w port) \<noteq> 0 \<Longrightarrow> ip_srights (w_ports w port) \<noteq> - 1 \<Longrightarrow>
    send_step port (w, h) (snd (ipc_port_copy_send port w), h)"
| release: "ip_srights (w_ports w port) \<noteq> 0 \<Longrightarrow> send_step port (w, h) (ipc_port_release_send port w, h)"
| request: "ip_active (w_ports w port) \<Longrightarrow> ipc_port_nsrequest port sync notify w = (previous, w') \<Longrightarrow>
    send_step port (w, h) (w', \<lparr>hs_sync = sync, hs_asked = hs_asked h @ [notify], hs_given = hs_given h @ [previous]\<rparr>)"

inductive_cases send_stepE: "send_step port s s'"

definition ns_ok :: "ipc_port_t \<Rightarrow> ipc_world \<times> ns_history \<Rightarrow> bool" where
  "ns_ok port s \<longleftrightarrow> (let p = w_ports (fst s) port in
     ip_active p \<and> ip_nsrequest p \<noteq> IP_NULL \<and> ip_srights p = 0 \<longrightarrow> ip_mscount p < hs_sync (snd s))"

lemma word_Suc_ne_0: "(n :: 'a :: len word) \<noteq> - 1 \<Longrightarrow> n + 1 \<noteq> 0"
  by (metis eq_neg_iff_add_eq_0)

lemma send_step_ns_ok: "send_step port s s' \<Longrightarrow> ns_ok port s \<Longrightarrow> ns_ok port s'"
proof (induction rule: send_step.induct)
  case (make w h)
  then show ?case using word_Suc_ne_0 [of "ip_srights (w_ports w port)"] by (simp add: ns_ok_def ipc_port_make_send_def Let_def)
next
  case (copy w h)
  then show ?case using word_Suc_ne_0 [of "ip_srights (w_ports w port)"] by (simp add: ns_ok_def ipc_port_copy_send_def Let_def)
next
  case (release w h)
  then show ?case by (auto simp: ns_ok_def ipc_port_release_send_def Let_def)
next
  case (request w sync notify previous w' h)
  then show ?case by (auto simp: ns_ok_def ipc_port_nsrequest_def Let_def split: if_splits)
qed

text \<open>The send-once rights to which the no-senders notifications among some events went.\<close>

definition ns_sent :: "ipc_event list \<Rightarrow> ipc_port_t list" where
  "ns_sent es = concat (map (\<lambda>ev. case ev of NotifyNoSenders notify _ \<Rightarrow> [notify] | _ \<Rightarrow> []) es)"

lemma ns_sent_simps [simp]:
  "ns_sent [] = []" "ns_sent (es @ fs) = ns_sent es @ ns_sent fs" "ns_sent [NotifyNoSenders notify n] = [notify]"
  "ns_sent [IoFree port] = []"
  by (simp_all add: ns_sent_def)

text \<open>
  What one operation adds to the log: no notification, or the one of the send-once right that was
  registered or handed in, at a moment without send rights; then no request is registered any more.
\<close>

definition ns_event_ok :: "ipc_port_t \<Rightarrow> ipc_world \<Rightarrow> ipc_world \<Rightarrow> bool" where
  "ns_event_ok port w w' \<longleftrightarrow> (\<exists>es. w_log w' = w_log w @ es \<and> (ns_sent es = [] \<or>
     (let p = w_ports w' port in \<exists>notify. notify \<noteq> IP_NULL \<and> es = [NotifyNoSenders notify (ip_mscount p)] \<and>
        ip_srights p = 0 \<and> ip_nsrequest p = IP_NULL)))"

text \<open>Every send-once right is handed back, notified or still registered as often as it was handed in.\<close>

definition ns_balanced :: "ipc_port_t \<Rightarrow> ipc_event list \<Rightarrow> ipc_world \<times> ns_history \<Rightarrow> bool" where
  "ns_balanced port es s \<longleftrightarrow> (\<forall>notify. notify \<noteq> IP_NULL \<longrightarrow> count_list (hs_asked (snd s)) notify =
     count_list (ns_sent es) notify + count_list (hs_given (snd s)) notify +
     (if ip_nsrequest (w_ports (fst s) port) = notify then 1 else 0))"

lemma check_unlock_log: "w_log (ip_check_unlock port w) = w_log w @ (if ip_references (w_ports w port) = 0 then [IoFree port] else [])"
  by (simp add: ip_check_unlock_def)

lemma send_step_balanced:
  "send_step port s s' \<Longrightarrow> ns_event_ok port (fst s) (fst s') \<and>
     (\<exists>fs. w_log (fst s') = w_log (fst s) @ fs \<and> (\<forall>es. ns_balanced port es s \<longrightarrow> ns_balanced port (es @ fs) s'))"
proof (induction rule: send_step.induct)
  case (make w h)
  then show ?case by (simp add: ns_event_ok_def ns_balanced_def ipc_port_make_send_def)
next
  case (copy w h)
  then show ?case by (simp add: ns_event_ok_def ns_balanced_def ipc_port_copy_send_def)
next
  case (release w h)
  let ?p = "w_ports w port"
  let ?fs = "if \<not> ip_active ?p then (if ip_references ?p - 1 = 0 then [IoFree port] else [])
    else if ip_srights ?p - 1 = 0 \<and> ip_nsrequest ?p \<noteq> IP_NULL then [NotifyNoSenders (ip_nsrequest ?p) (ip_mscount ?p)] else []"
  have "w_log (ipc_port_release_send port w) = w_log w @ ?fs"
    by (simp add: ipc_port_release_send_def Let_def check_unlock_log)
  moreover have "ns_event_ok port w (ipc_port_release_send port w)"
    by (auto simp: ns_event_ok_def ipc_port_release_send_def Let_def check_unlock_log)
  moreover have "ns_balanced port es (w, h) \<longrightarrow> ns_balanced port (es @ ?fs) (ipc_port_release_send port w, h)" for es
    by (auto simp: ns_balanced_def ipc_port_release_send_def Let_def ip_check_unlock_def)
  ultimately show ?case by auto
next
  case (request w sync notify previous w' h)
  let ?p = "w_ports w port"
  let ?now = "ip_srights ?p = 0 \<and> sync \<le> ip_mscount ?p \<and> notify \<noteq> IP_NULL"
  let ?fs = "if ?now then [NotifyNoSenders notify (ip_mscount ?p)] else []"
  have "w_log w' = w_log w @ ?fs" "ns_event_ok port w w'"
    using request(2) by (auto simp: ns_event_ok_def ipc_port_nsrequest_def Let_def)
  moreover have "ns_balanced port es (w, h) \<longrightarrow> ns_balanced port (es @ ?fs) (w', \<lparr>hs_sync = sync, hs_asked = hs_asked h @ [notify],
      hs_given = hs_given h @ [previous]\<rparr>)" for es
    using request(2) by (auto simp: ns_balanced_def ipc_port_nsrequest_def Let_def)
  ultimately show ?case by auto
qed

text \<open>
  C7: No no-senders notification is missed, sent twice or sent too early, however send rights of a port
  are made, copied and released and requests are made, starting without a request. A request stays
  pending without any send right only while the make-send count has not reached the value that the
  request asked for. Every send-once right that a request handed in has got exactly one notification
  in the log, or was handed back to a later request, or is still registered. The next operation, if
  it sends a notification, sends one, with the make-send count of the port, at a moment when
  no send right is left, and the request is then unregistered.
\<close>

theorem no_senders_not_missed:
  assumes "(send_step port)\<^sup>*\<^sup>* (w, \<lparr>hs_sync = 0, hs_asked = [], hs_given = []\<rparr>) (w', h)"
    and "ip_nsrequest (w_ports w port) = IP_NULL"
  shows "let p = w_ports w' port in
    (ip_active p \<and> ip_nsrequest p \<noteq> IP_NULL \<and> ip_srights p = 0 \<longrightarrow> ip_mscount p < hs_sync h) \<and>
    (\<exists>es. w_log w' = w_log w @ es \<and> (\<forall>notify. notify \<noteq> IP_NULL \<longrightarrow>
       count_list (hs_asked h) notify = count_list (ns_sent es) notify + count_list (hs_given h) notify +
         (if ip_nsrequest p = notify then 1 else 0))) \<and>
    (\<forall>t. send_step port (w', h) t \<longrightarrow> ns_event_ok port w' (fst t))"
proof -
  let ?s = "(w, \<lparr>hs_sync = 0, hs_asked = [], hs_given = []\<rparr>)"
  have "ns_ok port (w', h) \<and> (\<exists>es. w_log (fst (w', h)) = w_log w @ es \<and> ns_balanced port es (w', h))"
    using assms(1)
  proof (induction rule: rtranclp_induct)
    case base
    have "ns_ok port ?s" "ns_balanced port [] ?s" using assms(2) by (auto simp: ns_ok_def ns_balanced_def)
    then show ?case by auto
  next
    case (step s s')
    then obtain es where es: "w_log (fst s) = w_log w @ es" "ns_balanced port es s" by blast
    obtain fs where "w_log (fst s') = w_log (fst s) @ fs" "\<forall>es. ns_balanced port es s \<longrightarrow> ns_balanced port (es @ fs) s'"
      using send_step_balanced [OF step(2)] by blast
    with es have "w_log (fst s') = w_log w @ (es @ fs) \<and> ns_balanced port (es @ fs) s'" by simp
    then show ?case using send_step_ns_ok [OF step(2)] step(3) by blast
  qed
  moreover have "send_step port (w', h) t \<Longrightarrow> ns_event_ok port w' (fst t)" for t
    using send_step_balanced [of port "(w', h)" t] by simp
  ultimately show ?thesis by (simp add: ns_ok_def ns_balanced_def Let_def)
qed

text \<open>A request, a send right that is made and released: the notification has been sent.\<close>

theorem no_senders_not_missed_witness:
  "let w' = ipc_port_release_send 0x80 (snd (ipc_port_make_send 0x80 (snd (ipc_port_nsrequest 0x80 1 0x40 example_world)))) in
     \<exists>es. w_log w' = w_log example_world @ es \<and> count_list (ns_sent es) 0x40 = 1"
proof -
  define w1 w2 where "w1 = snd (ipc_port_nsrequest 0x80 1 0x40 example_world)" and "w2 = snd (ipc_port_make_send 0x80 w1)"
  define h where "h = \<lparr>hs_sync = 1, hs_asked = [0x40], hs_given = [IP_NULL]\<rparr>"
  let ?h0 = "\<lparr>hs_sync = 0, hs_asked = [], hs_given = []\<rparr>"
  have p: "ip_active (w_ports example_world 0x80)" "ip_srights (w_ports example_world 0x80) = 0" "ip_mscount (w_ports example_world 0x80) = 0"
    "ip_nsrequest (w_ports example_world 0x80) = IP_NULL" by (simp_all add: example_world_def zero_port_def IO_NULL_def)
  have "ipc_port_nsrequest 0x80 1 0x40 example_world = (IP_NULL, w1)" using p by (simp add: w1_def ipc_port_nsrequest_def Let_def)
  from send_step.request [OF p(1) this, of ?h0] have "send_step 0x80 (example_world, ?h0) (w1, h)" by (simp add: h_def)
  moreover have a: "ip_active (w_ports w1 0x80)" "ip_srights (w_ports w1 0x80) = 0" "ip_nsrequest (w_ports w1 0x80) = 0x40"
    using p by (simp_all add: w1_def ipc_port_nsrequest_def Let_def)
  moreover have "send_step 0x80 (w1, h) (w2, h)" unfolding w2_def using a by (intro send_step.make) simp_all
  moreover have b: "ip_active (w_ports w2 0x80)" "ip_srights (w_ports w2 0x80) = 1" "ip_nsrequest (w_ports w2 0x80) = 0x40"
    using a by (simp_all add: w2_def ipc_port_make_send_def)
  moreover have "send_step 0x80 (w2, h) (ipc_port_release_send 0x80 w2, h)" using b by (intro send_step.release) simp
  ultimately have run: "(send_step 0x80)\<^sup>*\<^sup>* (example_world, ?h0) (ipc_port_release_send 0x80 w2, h)"
    by (blast intro: rtranclp.rtrancl_into_rtrancl)
  have "ip_nsrequest (w_ports (ipc_port_release_send 0x80 w2) 0x80) = IP_NULL"
    using b by (simp add: ipc_port_release_send_def Let_def IO_NULL_def)
  moreover have "(0x40 :: ipc_port_t) \<noteq> IP_NULL" by (simp add: IO_NULL_def)
  moreover obtain es where "w_log (ipc_port_release_send 0x80 w2) = w_log example_world @ es"
    "\<forall>notify. notify \<noteq> IP_NULL \<longrightarrow> count_list (hs_asked h) notify = count_list (ns_sent es) notify + count_list (hs_given h) notify +
       (if ip_nsrequest (w_ports (ipc_port_release_send 0x80 w2) 0x80) = notify then 1 else 0)"
    using no_senders_not_missed [OF run p(4)] unfolding Let_def by blast
  ultimately have "w_log (ipc_port_release_send 0x80 w2) = w_log example_world @ es \<and> count_list (ns_sent es) 0x40 = 1"
    by (auto simp: h_def dest!: spec [of _ "0x40"])
  then show ?thesis unfolding Let_def w2_def w1_def by (rule exI)
qed

section \<open>Destruction of a port\<close>

abbreviation kmsg_destroyed :: "ipc_kmsg \<Rightarrow> ipc_event" where
  "kmsg_destroyed m \<equiv> KmsgDestroy (m\<lparr>msgh_remote_port := MACH_PORT_NULL\<rparr>)"

lemma emit_emit: "emit es (emit fs w) = emit (fs @ es) w"
  by (simp add: emit_def)

lemma emit_upd_port: "upd_port port f (emit es w) = emit es (upd_port port f w)"
  by (simp add: emit_def upd_port_def)

lemma release_not_last:
  "ip_references (w_ports w port) \<noteq> 1 \<Longrightarrow>
   ipc_port_release port w = upd_port port (\<lambda>p. p\<lparr>ip_references := ip_references p - 1\<rparr>) w"
  by (simp add: ipc_object_release_def ip_check_unlock_def ip_release_def)

lemma reference_timestamp [simp]:
  "w_timestamp (ip_reference port w) = w_timestamp w" "w_timestamp (ip_release port w) = w_timestamp w"
  "w_timestamp (ip_check_unlock port w) = w_timestamp w"
  by (simp_all add: ip_reference_def ip_release_def ip_check_unlock_def)

lemma kotype_inactive [simp]: "io_kotype (bits AND NOT IO_BITS_ACTIVE) = io_kotype bits"
proof -
  have "NOT IO_BITS_ACTIVE AND IO_BITS_KOTYPE = IO_BITS_KOTYPE" by (simp add: ipc_defs)
  then show ?thesis unfolding io_kotype_def and.assoc by simp
qed

lemma not_active [simp]: "\<not> io_active (bits AND NOT IO_BITS_ACTIVE)"
  by (simp add: io_active_def and.assoc)

lemma destroy_messages_exact:
  assumes "length ms < unat (ip_references (w_ports w port))" "imq_messages (ip_messages (w_ports w port)) = ms"
  shows "destroy_messages port ms w = emit (map kmsg_destroyed ms)
     (upd_port port (\<lambda>p. p\<lparr>ip_messages := (ip_messages p)\<lparr>imq_messages := []\<rparr>,
        ip_references := ip_references p - of_nat (length ms)\<rparr>) w)"
  using assms
proof (induction ms arbitrary: w)
  case Nil
  then show ?case by (simp add: upd_port_same)
next
  case (Cons m ms)
  let ?r = "ip_references (w_ports w port)"
  let ?w = "emit [kmsg_destroyed m] (upd_port port (\<lambda>p. p\<lparr>ip_messages := (ip_messages p)\<lparr>imq_messages := ms\<rparr>,
      ip_references := ip_references p - 1\<rparr>) w)"
  have r: "?r \<noteq> 1" "?r \<noteq> 0" using Cons.prems by auto
  then have "unat (?r - 1) = unat ?r - 1" by (simp add: unat_minus_one)
  then have len: "length ms < unat (ip_references (w_ports ?w port))"
    "imq_messages (ip_messages (w_ports ?w port)) = ms" using Cons.prems by simp_all
  have "destroy_messages port (m # ms) w = destroy_messages port ms ?w"
    using r(1) by (simp add: release_not_last upd_port_twice comp_def)
  then show ?case unfolding Cons.IH [OF len]
    by (simp add: emit_upd_port emit_emit upd_port_twice comp_def diff_diff_eq)
qed

text \<open>
  C9: A port without a backup port dies at once, and everything that depends on it hears of it in
  order: the blocked senders are resumed, the no-senders request is answered by a send-once
  notification, every queued message is destroyed, every dead-name request is answered, the kernel
  object is told, and the last reference frees the port. The port is left inactive with its time of
  death, an empty queue and the references of the messages and of the receive right dropped; no
  other port is touched.
\<close>

theorem ipc_port_destroy_exact:
  assumes "ip_pdrequest (w_ports w port) = IP_NULL"
    and "length (imq_messages (ip_messages (w_ports w port))) < unat (ip_references (w_ports w port))"
  shows "\<exists>w'. ipc_port_destroy dnits try port w = Some w' \<and>
    (let p = w_ports w port; ms = imq_messages (ip_messages p); r = ip_references p - of_nat (length ms) - 1 in
     w_log w' = w_log w @ map (\<lambda>th. ThreadGo th MACH_MSG_SUCCESS) (ip_blocked p) @ [ThreadPoolWakeup port] @
       (if ip_nsrequest p \<noteq> IP_NULL then [NotifySendOnce (ip_nsrequest p)] else []) @ map kmsg_destroyed ms @
       (case ip_dnrequests p of None \<Rightarrow> [] | Some t \<Rightarrow> ipc_port_dnnotify dnits t) @
       (if io_kotype (ip_bits p) \<noteq> 0 then [KobjectDestroy port] else []) @ (if r = 0 then [IoFree port] else []) \<and>
     w_ports w' = (w_ports w)(port := p\<lparr>ip_blocked := [], ip_bits := ip_bits p AND NOT IO_BITS_ACTIVE,
       ip_data := w_timestamp w, ip_dnrequests := None, ip_messages := (ip_messages p)\<lparr>imq_messages := []\<rparr>, ip_references := r\<rparr>) \<and>
     \<not> ip_active (w_ports w' port) \<and> w_psets w' = w_psets w \<and> w_hash w' = w_hash w \<and> w_timestamp w' = w_timestamp w + 1)"
  using assms
  by (simp add: ipc_port_destroy_def destroy_port_def ipc_port_timestamp_def Let_def destroy_messages_exact
        kotype_inactive not_active ipc_object_release_def split: option.split)

theorem ipc_port_destroy_exact_witness:
  "\<exists>w'. ipc_port_destroy [3, 8, 16, 0] False 0x40 example_world = Some w' \<and>
     w_log w' = [ThreadPoolWakeup 0x40, NotifySendOnce 0x80, KmsgDestroy \<lparr>ikm_address = 1, msgh_bits = 0, msgh_size = 24, msgh_remote_port = 0\<rparr>,
       KmsgDestroy \<lparr>ikm_address = 2, msgh_bits = 0, msgh_size = 24, msgh_remote_port = 0\<rparr>, IoFree 0x40]"
  using ipc_port_destroy_exact [of example_world "0x40" "[3, 8, 16, 0]" False]
  by (simp add: example_world_def example_port_def zero_port_def Let_def IO_NULL_def MACH_PORT_NULL_def
      io_kotype_def io_makebits_def ipc_defs) blast

text \<open>Taking a port out of a chain keeps all chains finite.\<close>

lemma cut_chains_end:
  assumes "chains_end w" "\<not> in_transit (w_ports w' port)"
    and "\<And>p. p \<noteq> port \<Longrightarrow> in_transit (w_ports w' p) = in_transit (w_ports w p) \<and>
      ip_destination (w_ports w' p) = ip_destination (w_ports w p)"
  shows "chains_end w'"
proof -
  have "chain_ends w p b \<Longrightarrow> \<exists>c. chain_ends w' p c" for p b
  proof (induction rule: chain_ends.induct)
    case (stop p)
    then show ?case using assms(2,3) chain_ends.stop by metis
  next
    case (follow p b)
    then show ?case using assms(2,3) chain_ends.stop chain_ends.follow by metis
  qed
  then show ?thesis using assms(1) unfolding chains_end_def by blast
qed

lemma destroy_messages_bits [simp]: "ip_bits (w_ports (destroy_messages port ms w) p) = ip_bits (w_ports w p)"
  by (induction port ms w rule: destroy_messages.induct) (simp_all add: ipc_object_release_def)

lemma destroy_port_inactive: "\<not> ip_active (w_ports (destroy_port dnits port w) port)"
  by (simp add: destroy_port_def ipc_port_timestamp_def Let_def ipc_object_release_def split: option.split)

text \<open>
  C32: A port with a backup port does not die: it stays active with its messages and goes in transit
  to the backup port, which gains a reference and is sent the receive right in a port-destroyed
  notification; the request is used up and no circle of ports in transit arises. Only when this
  would close a circle does the port die, and the backup port's send-once right is released. The
  destruction ends in either case.
\<close>

theorem ipc_port_destroy_backup:
  assumes ends: "chains_end w" and active: "ip_active (w_ports w port)"
    and pd: "ip_pdrequest (w_ports w port) = pd" "pd \<noteq> IP_NULL"
  defines "w1 \<equiv> upd_port port (\<lambda>p. p\<lparr>ip_pdrequest := IP_NULL, ip_receiver_name := MACH_PORT_NULL, ip_data := IP_NULL\<rparr>) w"
  shows "(chain_base w1 pd \<noteq> Some port \<longrightarrow> (\<exists>w'. ipc_port_destroy dnits try port w = Some w' \<and>
      w_log w' = w_log w @ [NotifyPortDestroyed pd port] \<and> in_transit (w_ports w' port) \<and>
      ip_destination (w_ports w' port) = pd \<and> ip_pdrequest (w_ports w' port) = IP_NULL \<and>
      ip_messages (w_ports w' port) = ip_messages (w_ports w port) \<and>
      ip_references (w_ports w' pd) = ip_references (w_ports w pd) + 1 \<and> chains_end w'))
    \<and> (chain_base w1 pd = Some port \<longrightarrow> (\<exists>w'. ipc_port_destroy dnits try port w = Some w' \<and>
      w' = destroy_port dnits port (ipc_port_release_sonce pd w1) \<and> \<not> ip_active (w_ports w' port)))"
proof -
  let ?w' = "emit [NotifyPortDestroyed pd port] (link_port port pd w1)"
  have limbo: "ip_active (w_ports w1 port)" "ip_receiver_name (w_ports w1 port) = MACH_PORT_NULL"
    using active by (simp_all add: w1_def)
  have nt: "\<not> in_transit (w_ports w1 port)" by (simp add: w1_def in_transit_def)
  have ends1: "chains_end w1" using ends nt by (rule cut_chains_end) (simp add: w1_def)
  obtain b where b: "chain_ends w1 pd b" using ends1 by (auto simp: chains_end_def)
  then have base: "chain_base w1 pd = Some b" by (rule chain_base_complete)
  have run: "ipc_port_destroy dnits try port w =
      Some (if b = port then destroy_port dnits port (ipc_port_release_sonce pd w1) else ?w')"
    using pd check_circularity_run [OF b nt, of "try"] by (simp add: ipc_port_destroy_def w1_def)
  have link: "linked w1 port pd ?w'" using link_port_linked [OF pd(2) limbo] by (simp add: linked_def)
  show ?thesis
    using run base linked_chains_end [OF ends1 link nt b] linkedD(1,2) [OF link] destroy_port_inactive
    by (auto simp: w1_def)
qed

theorem ipc_port_destroy_backup_witness:
  "\<exists>w'. ipc_port_destroy [3, 8, 16, 0] False 0x40 (upd_port 0x40 (\<lambda>p. p\<lparr>ip_pdrequest := 0x80\<rparr>) example_world) = Some w' \<and>
     w_log w' = [NotifyPortDestroyed 0x80 0x40] \<and> chains_end w'"
proof -
  let ?w = "upd_port 0x40 (\<lambda>p. p\<lparr>ip_pdrequest := 0x80\<rparr>) example_world"
  let ?w1 = "upd_port 0x40 (\<lambda>p. p\<lparr>ip_pdrequest := IP_NULL, ip_receiver_name := MACH_PORT_NULL, ip_data := IP_NULL\<rparr>) ?w"
  have nt: "\<not> in_transit (w_ports example_world 0x40)" "\<not> in_transit (w_ports ?w1 0x80)"
    by (simp_all add: in_transit_def example_world_def example_port_def zero_port_def MACH_PORT_NULL_def IO_NULL_def)
  then have ends: "chains_end ?w"
    by (intro cut_chains_end [OF example_chains_end, of _ "0x40"]) (simp_all add: in_transit_def)
  have pd: "ip_active (w_ports ?w 0x40)" "ip_pdrequest (w_ports ?w 0x40) = 0x80" "(0x80 :: ipc_port_t) \<noteq> IP_NULL"
    by (simp_all add: example_world_def example_port_def IO_NULL_def)
  have "chain_base ?w1 0x80 = Some 0x80" using nt(2) by (subst chain_base.simps) simp
  then show ?thesis
    using ipc_port_destroy_backup [OF ends pd, of "[3, 8, 16, 0]" False] by (auto simp: example_world_def)
qed

end
