(* ===== verification/Ipc_Right_Count.thy ===== *)
theory Ipc_Right_Count
  imports Ipc_Right Ipc_Port_Correct Ipc_Space
begin

text \<open>
  The rights of a space, counted: entries as a store, the change of one entry, the number of entries
  that are rights to a port, and the steps that the operations of \<open>ipc_right.c\<close> are made of.
\<close>

section \<open>Entries as a store\<close>

text \<open>
  What the operations on rights rely on: an assignment through a pointer to an entry changes this
  entry and no other.
\<close>

locale entry_store =
  fixes get :: "'s \<Rightarrow> 'r \<Rightarrow> 'e option"
    and put :: "'s \<Rightarrow> 'r \<Rightarrow> 'e \<Rightarrow> 's"
  assumes get_put: "get s r \<noteq> None \<Longrightarrow> get (put s r e) r' = (if r' = r then Some e else get s r')"
    and finite_refs: "finite {r. get s r \<noteq> None}"
begin

lemma finite_with: "finite {r. \<exists>e. get s r = Some e \<and> P e}"
  by (rule finite_subset [OF _ finite_refs [of s]]) auto

lemma put_with:
  assumes "get s r \<noteq> None"
  shows "{r'. \<exists>e'. get (put s r e) r' = Some e' \<and> P e'} =
    (if P e then insert r {r'. \<exists>e'. get s r' = Some e' \<and> P e'} else {r'. \<exists>e'. get s r' = Some e' \<and> P e'} - {r})"
  using get_put [OF assms] by auto

lemma card_put:
  assumes "get s r = Some e0"
  shows "int (card {r'. \<exists>e'. get (put s r e) r' = Some e' \<and> P e'}) =
    int (card {r'. \<exists>e'. get s r' = Some e' \<and> P e'}) + (if P e then 1 else 0) - (if P e0 then 1 else 0)"
proof -
  let ?A = "{r'. \<exists>e'. get s r' = Some e' \<and> P e'}"
  have r: "r \<in> ?A \<longleftrightarrow> P e0" using assms by simp
  have pos: "P e0 \<Longrightarrow> 0 < card ?A" using r finite_with [of s P] card_gt_0_iff by blast
  have "get s r \<noteq> None" using assms by simp
  from put_with [OF this, of e P] show ?thesis
    using r finite_with [of s P] pos by (auto simp: card_insert_if card_Diff_singleton of_nat_diff)
qed

end

lemma store_map: "ist_map (ist_store tree name e) n = (if n = name \<and> ist_map tree n \<noteq> None then Some e else ist_map tree n)"
  by (simp add: store_inorder list_store_map_of)

lemma get_put_entry:
  "get_entry space ref \<noteq> None \<Longrightarrow> get_entry (put_entry space ref e) ref' = (if ref' = ref then Some e else get_entry space ref')"
  by (cases ref; cases ref') (auto simp: store_map split: if_splits)

lemma finite_entry_refs: "finite {ref. get_entry space ref \<noteq> None}"
proof -
  have "{ref. get_entry space ref \<noteq> None} \<subseteq> TableEntry ` {..<is_table_size space} \<union> TreeEntry ` dom (ist_map (is_tree space))"
  proof
    fix ref assume "ref \<in> {ref. get_entry space ref \<noteq> None}"
    then show "ref \<in> TableEntry ` {..<is_table_size space} \<union> TreeEntry ` dom (ist_map (is_tree space))"
      by (cases ref) (auto split: if_splits)
  qed
  then show ?thesis by (rule finite_subset) (simp add: finite_dom_map_of)
qed

interpretation entries: entry_store get_entry put_entry
  using get_put_entry finite_entry_refs by unfold_locales

section \<open>Changes of one entry\<close>

text \<open>
  The part of an entry that belongs to its right; \<open>ie_index\<close> belongs to the hash table, which may
  change it in any slot.
\<close>

abbreviation core :: "ipc_entry \<Rightarrow> ipc_entry" where
  "core e \<equiv> e\<lparr>ie_index := 0\<rparr>"

abbreviation core_at :: "ipc_space \<Rightarrow> ipc_entry_ref \<Rightarrow> ipc_entry option" where
  "core_at space ref \<equiv> map_option core (get_entry space ref)"

text \<open>
  What every operation keeps of a space apart from the entries it changes: the tree stays as it has to
  be, and so do the address, the size and the kind of the space.
\<close>

definition keeps :: "ipc_space \<Rightarrow> ipc_space \<Rightarrow> bool" where
  "keeps space space' \<longleftrightarrow> (\<forall>its. tree_ok its space \<longrightarrow> tree_ok its space') \<and> tree_names space' = tree_names space \<and>
     is_self space' = is_self space \<and> is_table_size space' = is_table_size space \<and> is_fast space' = is_fast space"

lemma keeps_refl [simp]: "keeps space space"
  by (simp add: keeps_def)

lemma keeps_trans: "keeps a b \<Longrightarrow> keeps b c \<Longrightarrow> keeps a c"
  by (simp add: keeps_def)

definition changed :: "ipc_space \<Rightarrow> ipc_space \<Rightarrow> ipc_entry_ref \<Rightarrow> ipc_entry \<Rightarrow> bool" where
  "changed space space' ref e \<longleftrightarrow> core_at space' ref = Some (core e) \<and>
     (\<forall>r. r \<noteq> ref \<longrightarrow> core_at space' r = core_at space r) \<and> keeps space space'"

text \<open>The generation and the collision bit are not part of a right; the operations leave them alone.\<close>

definition same_marks :: "ipc_entry_bits_t \<Rightarrow> ipc_entry_bits_t \<Rightarrow> bool" where
  "same_marks bits bits' \<longleftrightarrow> IE_BITS_GEN bits' = IE_BITS_GEN bits \<and>
     bits' AND IE_BITS_COLLISION = bits AND IE_BITS_COLLISION"

lemma same_marks_refl [simp]: "same_marks bits bits"
  by (simp add: same_marks_def)

lemma keeps_put:
  assumes e0: "get_entry space ref = Some e0" and m: "same_marks (ie_bits e0) (ie_bits e)"
  shows "keeps space (put_entry space ref e)"
proof (cases ref)
  case (TableEntry i)
  have n: "is_table space ! i = e0" "i < is_table_size space" using e0 TableEntry by (auto split: if_splits)
  have "tree_ok its (space\<lparr>is_table := (is_table space)[i := e]\<rparr>)" if t: "tree_ok its space" for its
    by (rule tree_ok_table_update [OF t])
      (use m n tree_ok_gen [OF t] in \<open>auto simp: same_marks_def collides_def nth_list_update\<close>)
  then show ?thesis using TableEntry by (simp add: keeps_def tree_names_def)
next
  case (TreeEntry name)
  have "fst ` set (list_store name e xs) = fst ` set xs" "length (list_store name e xs) = length xs" for xs
    by (metis list.set_map list_store_names, metis length_map list_store_names)
  then show ?thesis using TreeEntry store_wf [of "is_tree space" name e]
    by (simp add: keeps_def tree_ok_def tree_names_def store_inorder)
qed

lemma changed_put:
  "get_entry space ref = Some e0 \<Longrightarrow> same_marks (ie_bits e0) (ie_bits e) \<Longrightarrow> changed space (put_entry space ref e) ref e"
  by (simp add: changed_def get_put_entry keeps_put)

lemma changed_refl: "get_entry space ref = Some e \<Longrightarrow> changed space space ref e"
  by (simp add: changed_def)

lemma changed_trans: "changed a b ref e \<Longrightarrow> changed b c ref e' \<Longrightarrow> changed a c ref e'"
  by (auto simp: changed_def intro: keeps_trans)

lemma changed_get: "changed a b ref e \<Longrightarrow> \<exists>i. get_entry b ref = Some (e\<lparr>ie_index := i\<rparr>)"
proof -
  assume "changed a b ref e"
  then obtain e' where e': "get_entry b ref = Some e'" "core e' = core e" by (auto simp: changed_def)
  then have "e' = e\<lparr>ie_index := ie_index e'\<rparr>" by (cases e'; cases e) simp
  with e'(1) show ?thesis by metis
qed

section \<open>Counting the rights of a space\<close>

definition right_count :: "(ipc_entry \<Rightarrow> bool) \<Rightarrow> ipc_space \<Rightarrow> nat" where
  "right_count P space = card {ref. \<exists>e. get_entry space ref = Some e \<and> P e}"

text \<open>An entry with a send right to the port, and an entry that holds a reference to it.\<close>

abbreviation sends :: "ipc_port_t \<Rightarrow> ipc_entry \<Rightarrow> bool" where
  "sends port e \<equiv> ie_object e = port \<and> ie_bits e AND MACH_PORT_TYPE_SEND \<noteq> 0"

abbreviation holds :: "ipc_port_t \<Rightarrow> ipc_entry \<Rightarrow> bool" where
  "holds port e \<equiv> ie_object e = port \<and> ie_bits e AND MACH_PORT_TYPE_PORT_RIGHTS \<noteq> 0"

lemma right_count_core:
  assumes "\<And>r. core_at space' r = core_at space r" "\<And>e. P (core e) = P e"
  shows "right_count P space' = right_count P space"
proof -
  have "(\<exists>e. get_entry sp r = Some e \<and> P e) = (\<exists>e. core_at sp r = Some e \<and> P e)" for sp r
    by (cases "get_entry sp r") (simp_all add: assms(2))
  then show ?thesis unfolding right_count_def by (simp only: assms(1))
qed

lemma right_count_changed:
  assumes c: "changed space space' ref e" and e0: "get_entry space ref = Some e0" and P: "\<And>e. P (core e) = P e"
  shows "(of_nat (right_count P space') :: 'a :: len word) =
    of_nat (right_count P space) + (if P e then 1 else 0) - (if P e0 then 1 else 0)"
proof -
  have "core_at space' r = core_at (put_entry space ref e) r" for r
    using c e0 by (cases "r = ref") (simp_all add: changed_def get_put_entry)
  then have "right_count P space' = right_count P (put_entry space ref e)" using P by (rule right_count_core)
  then have "int (right_count P space') = int (right_count P space) + (if P e then 1 else 0) - (if P e0 then 1 else 0)"
    using entries.card_put [OF e0, of e P] by (simp add: right_count_def)
  then have "(of_int (int (right_count P space')) :: 'a word) =
      of_int (int (right_count P space) + (if P e then 1 else 0) - (if P e0 then 1 else 0))" by simp
  then show ?thesis by (simp split: if_splits)
qed

text \<open>
  The send rights to a port, and the references to it, that are not accounted for by the entries of
  the space: those of messages, of the kernel and of other spaces.
\<close>

definition outer_sends :: "right_state \<Rightarrow> ipc_port_t \<Rightarrow> natural_t" where
  "outer_sends s port = ip_srights (port_of s port) - of_nat (right_count (sends port) (snd s))"

definition outer_refs :: "right_state \<Rightarrow> ipc_port_t \<Rightarrow> natural_t" where
  "outer_refs s port = ip_references (port_of s port) - of_nat (right_count (holds port) (snd s))"

lemma outer_changed:
  assumes "changed (snd s) (snd s') ref e" "get_entry (snd s) ref = Some e0"
  shows "outer_sends s' port = outer_sends s port + (ip_srights (port_of s' port) - ip_srights (port_of s port))
      + (if sends port e0 then 1 else 0) - (if sends port e then 1 else 0)"
    and "outer_refs s' port = outer_refs s port + (ip_references (port_of s' port) - ip_references (port_of s port))
      + (if holds port e0 then 1 else 0) - (if holds port e then 1 else 0)"
  using right_count_changed [OF assms, of "sends port", where ?'a = 32]
    right_count_changed [OF assms, of "holds port", where ?'a = 32]
  by (simp_all add: outer_sends_def outer_refs_def)

section \<open>The steps of the operations\<close>

lemma upd_entry_eq:
  "get_entry (snd s) ref = Some e \<Longrightarrow> upd_entry ref f s = Some (fst s, put_entry (snd s) ref (f e))"
  by (simp add: upd_entry_def)

lemma hashed_update:
  assumes "ie_index e = ie_index (table ! i)" "ie_object e = ie_object (table ! i)"
  shows "local_hash_ok (table[i := e]) = local_hash_ok table" "hashed (table[i := e]) = hashed table"
    "ie_object (table[i := e] ! j) = ie_object (table ! j)"
proof -
  have h: "hashed_at (table[i := e]) s = hashed_at table s" for s
    using assms(1) by (cases "s = i"; cases "i < length table") (simp_all add: list_update_beyond)
  have o: "ie_object (table[i := e] ! s) = ie_object (table ! s)" for s
    using assms(2) by (cases "s = i"; cases "i < length table") (simp_all add: list_update_beyond)
  show "local_hash_ok (table[i := e]) = local_hash_ok table"
    unfolding local_hash_ok_def h o by simp
  show "hashed (table[i := e]) = hashed table" unfolding set_eq_iff hashed_iff h by simp
  show "ie_object (table[i := e] ! j) = ie_object (table ! j)" by (rule o)
qed

text \<open>The hash table has the entry, and it has it not. For a tree entry nothing has to be known.\<close>

definition hash_has :: "ipc_space \<Rightarrow> ipc_port_t \<Rightarrow> mach_port_t \<Rightarrow> ipc_entry_ref \<Rightarrow> bool" where
  "hash_has space port name ref \<longleftrightarrow> (let i = MACH_PORT_INDEX name in
     i < is_table_size space \<and> ref = TableEntry i \<longrightarrow>
       local_hash_ok (is_table space) \<and> i \<in> hashed (is_table space) \<and> ie_object (is_table space ! i) = port)"

definition hash_free :: "ipc_space \<Rightarrow> ipc_port_t \<Rightarrow> mach_port_t \<Rightarrow> ipc_entry_ref \<Rightarrow> bool" where
  "hash_free space port name ref \<longleftrightarrow> (let i = MACH_PORT_INDEX name in
     i < is_table_size space \<and> ref = TableEntry i \<longrightarrow>
       local_hash_ok (is_table space) \<and> 0 < i \<and> i \<notin> hashed (is_table space) \<and> ie_object (is_table space ! i) = port)"

lemma hash_has_put:
  assumes "get_entry space ref = Some e0" "ie_index e = ie_index e0" "ie_object e = ie_object e0"
  shows "hash_has (put_entry space ref e) port name ref = hash_has space port name ref"
    and "hash_free (put_entry space ref e) port name ref = hash_free space port name ref"
  using assms hashed_update [of e "is_table space" "MACH_PORT_INDEX name"]
  by (cases ref; auto simp: hash_has_def hash_free_def Let_def split: if_splits)+

text \<open>A change of the hash tables only.\<close>

definition same_cores :: "ipc_space \<Rightarrow> ipc_space \<Rightarrow> bool" where
  "same_cores space space' \<longleftrightarrow> (\<forall>r. core_at space' r = core_at space r) \<and> keeps space space'"

lemma same_cores_changed: "same_cores space space' \<Longrightarrow> get_entry space ref = Some e \<Longrightarrow> changed space space' ref e"
  by (simp add: same_cores_def changed_def)

lemma same_cores_index:
  assumes "length table = is_table_size space"
    and "\<forall>s < is_table_size space. table ! s = (is_table space ! s)\<lparr>ie_index := ie_index (table ! s)\<rparr>"
  shows "same_cores space (space\<lparr>is_table := table\<rparr>)"
proof -
  have "core_at (space\<lparr>is_table := table\<rparr>) r = core_at space r" for r
  proof (cases r)
    case (TableEntry i)
    show ?thesis
    proof (cases "i < is_table_size space")
      case True
      then have "core (table ! i) = core ((is_table space ! i)\<lparr>ie_index := ie_index (table ! i)\<rparr>)"
        using assms(2) by metis
      then show ?thesis using True assms(1) TableEntry by simp
    qed (simp add: assms(1) TableEntry)
  qed simp
  moreover have "ie_bits (table ! s) = ie_bits (is_table space ! s)" if "s < is_table_size space" for s
    using assms(2) that by (metis ipc_entry.select_convs(1) ipc_entry.surjective ipc_entry.update_convs(4))
  then have "tree_ok its (space\<lparr>is_table := table\<rparr>)" if t: "tree_ok its space" for its
    by (intro tree_ok_table_update [OF t]) (use assms(1) tree_ok_gen [OF t] in \<open>auto simp: collides_def\<close>)
  ultimately show ?thesis using assms(1) by (simp add: same_cores_def keeps_def tree_names_def)
qed

lemma same_cores_tree_hash: "same_cores space (space\<lparr>is_tree_hash := n\<rparr>)"
proof -
  have "core_at (space\<lparr>is_tree_hash := n\<rparr>) r = core_at space r" for r by (cases r) simp_all
  then show ?thesis by (simp add: same_cores_def keeps_def tree_ok_def tree_names_def)
qed

lemma hash_delete_step:
  assumes "hash_has (snd s) port name ref"
  shows "\<exists>g sp. right_hash_delete port name ref s = Some ((fst s)\<lparr>w_hash := g\<rparr>, sp) \<and> same_cores (snd s) sp"
proof (cases "MACH_PORT_INDEX name < is_table_size (snd s) \<and> ref = TableEntry (MACH_PORT_INDEX name)")
  case True
  let ?t = "is_table (snd s)"
  obtain t' where t': "table_hash_delete ?t port (MACH_PORT_INDEX name) = Some t'" "length t' = length ?t"
      "\<forall>s < length ?t. t' ! s = (?t ! s)\<lparr>ie_index := ie_index (t' ! s)\<rparr>"
    using table_hash_delete_correct [of ?t "MACH_PORT_INDEX name" port] assms True
    by (auto simp: hash_has_def Let_def)
  from t'(1) True have "right_hash_delete port name ref s = Some ((fst s)\<lparr>w_hash := w_hash (fst s)\<rparr>, (snd s)\<lparr>is_table := t'\<rparr>)"
    by (simp add: right_hash_delete_def ipc_hash_delete_def ipc_hash_local_delete_def)
  with same_cores_index [OF t'(2,3)] show ?thesis by blast
next
  case False
  then show ?thesis using same_cores_tree_hash
    by (auto simp: right_hash_delete_def ipc_hash_delete_def ipc_hash_global_delete_def Let_def)
qed

lemma hash_insert_step:
  assumes "hash_free (snd s) port name ref"
  shows "\<exists>g sp. right_hash_insert port name ref s = Some ((fst s)\<lparr>w_hash := g\<rparr>, sp) \<and> same_cores (snd s) sp"
proof (cases "MACH_PORT_INDEX name < is_table_size (snd s) \<and> ref = TableEntry (MACH_PORT_INDEX name)")
  case True
  let ?t = "is_table (snd s)"
  obtain t' where t': "table_hash_insert ?t port (MACH_PORT_INDEX name) = Some t'" "length t' = length ?t"
      "\<forall>s < length ?t. t' ! s = (?t ! s)\<lparr>ie_index := ie_index (t' ! s)\<rparr>"
    using table_hash_insert_correct [of ?t "MACH_PORT_INDEX name" port] assms True
    by (auto simp: hash_free_def Let_def)
  from t'(1) True have "right_hash_insert port name ref s = Some ((fst s)\<lparr>w_hash := w_hash (fst s)\<rparr>, (snd s)\<lparr>is_table := t'\<rparr>)"
    by (simp add: right_hash_insert_def ipc_hash_insert_def ipc_hash_local_insert_def)
  with same_cores_index [OF t'(2,3)] show ?thesis by blast
next
  case False
  then show ?thesis using same_cores_tree_hash
    by (auto simp: right_hash_insert_def ipc_hash_insert_def ipc_hash_global_insert_def Let_def)
qed

text \<open>The send-once right of the dead-name request of an entry.\<close>

definition request_soright :: "right_state \<Rightarrow> ipc_port_t \<Rightarrow> ipc_entry \<Rightarrow> ipc_port_t" where
  "request_soright s port e =
     (case ip_dnrequests (port_of s port) of
        Some t \<Rightarrow> if ie_request e = 0 then IP_NULL else ipr_soright (ipr_elems t ! ie_request e)
      | None \<Rightarrow> IP_NULL)"

lemma dncancel_step:
  assumes e: "get_entry (snd s) ref = Some e" and r: "ie_request e \<noteq> 0 \<longrightarrow> ip_dnrequests (port_of s port) \<noteq> None"
  shows "\<exists>x sp. ipc_right_dncancel_macro port name ref s =
      Some (request_soright s port e, upd_port port (\<lambda>p. p\<lparr>ip_dnrequests := x\<rparr>) (fst s), sp) \<and> changed (snd s) sp ref (e\<lparr>ie_request := 0\<rparr>) \<and>
    (\<forall>p. hash_has sp p name ref = hash_has (snd s) p name ref)"
proof (cases "ie_request e = 0")
  case True
  then have "changed (snd s) (snd s) ref (e\<lparr>ie_request := 0\<rparr>)" using e by (simp add: changed_def)
  moreover have "upd_port port (\<lambda>p. p\<lparr>ip_dnrequests := ip_dnrequests (port_of s port)\<rparr>) (fst s) = fst s"
    by (rule upd_port_same) simp
  ultimately show ?thesis using True e
    by (intro exI [of _ "ip_dnrequests (port_of s port)"] exI [of _ "snd s"])
      (simp add: ipc_right_dncancel_macro_def upd_port_same request_soright_def split: option.split)
next
  case False
  let ?e = "e\<lparr>ie_request := 0\<rparr>"
  obtain t where t: "ip_dnrequests (port_of s port) = Some t" using r False by blast
  let ?d = "request_soright s port e"
  have d: "?d = ipr_soright (ipr_elems t ! ie_request e)" using t False by (simp add: request_soright_def)
  obtain elems where w: "ipc_port_dncancel port name (ie_request e) (fst s) = Some (?d, upd_port port (dn_table elems) (fst s))"
    using t by (simp add: ipc_port_dncancel_def d Let_def)
  have "upd_port port (dn_table elems) (fst s) = upd_port port (\<lambda>p. p\<lparr>ip_dnrequests := Some (t\<lparr>ipr_elems := elems\<rparr>)\<rparr>) (fst s)"
    using t by (simp add: upd_port_def dn_table_def)
  with w e False have "ipc_right_dncancel_macro port name ref s = Some (?d,
      upd_port port (\<lambda>p. p\<lparr>ip_dnrequests := Some (t\<lparr>ipr_elems := elems\<rparr>)\<rparr>) (fst s), put_entry (snd s) ref ?e)"
    by (simp add: ipc_right_dncancel_macro_def ipc_right_dncancel_def upd_entry_def)
  moreover have "changed (snd s) (put_entry (snd s) ref ?e) ref ?e" by (rule changed_put [OF e]) simp
  moreover have "hash_has (put_entry (snd s) ref ?e) p name ref = hash_has (snd s) p name ref" for p
    by (rule hash_has_put(1) [OF e]) simp_all
  ultimately show ?thesis by blast
qed

text \<open>The entry of a right whose port has died.\<close>

definition dead_entry :: "ipc_entry \<Rightarrow> ipc_entry" where
  "dead_entry e = e\<lparr>ie_bits := ((ie_bits e AND NOT IE_BITS_TYPE_MASK) OR MACH_PORT_TYPE_DEAD_NAME) +
     (if ie_request e \<noteq> 0 then 1 else 0), ie_request := 0, ie_object := IO_NULL\<rparr>"

lemma bits_or_type:
  "IE_BITS_UREFS ((bits AND NOT IE_BITS_TYPE_MASK) OR MACH_PORT_TYPE_DEAD_NAME) = IE_BITS_UREFS bits"
  "IE_BITS_TYPE ((bits AND NOT IE_BITS_TYPE_MASK) OR MACH_PORT_TYPE_DEAD_NAME) = MACH_PORT_TYPE_DEAD_NAME"
  "same_marks bits ((bits AND NOT IE_BITS_TYPE_MASK) OR MACH_PORT_TYPE_DEAD_NAME)"
  by (simp_all add: IE_BITS_UREFS_def IE_BITS_TYPE_def IE_BITS_GEN_def same_marks_def
      bit.conj_disj_distrib2 and.assoc ipc_defs)

lemma same_marks_add:
  "IE_BITS_UREFS bits + d \<le> MACH_PORT_UREFS_MAX \<Longrightarrow> same_marks bits (bits + d)"
  using IE_BITS_add by (simp add: same_marks_def)

lemma same_marks_trans: "same_marks a b \<Longrightarrow> same_marks b c \<Longrightarrow> same_marks a c"
  by (simp add: same_marks_def)

text \<open>
  A user reference is added for the dead-name notification; there is room for it because send rights
  never use the last one.
\<close>

lemma dead_entry_bits:
  assumes "IE_BITS_UREFS (ie_bits e) < MACH_PORT_UREFS_MAX"
  shows "same_marks (ie_bits e) (ie_bits (dead_entry e))" "type_of (dead_entry e) = MACH_PORT_TYPE_DEAD_NAME"
    "IE_BITS_UREFS (ie_bits (dead_entry e)) = IE_BITS_UREFS (ie_bits e) + (if ie_request e \<noteq> 0 then 1 else 0)"
proof -
  let ?b = "(ie_bits e AND NOT IE_BITS_TYPE_MASK) OR MACH_PORT_TYPE_DEAD_NAME"
  let ?d = "if ie_request e \<noteq> 0 then 1 else 0 :: natural_t"
  have "IE_BITS_UREFS (ie_bits e) + 1 \<le> MACH_PORT_UREFS_MAX" using assms by (rule inc_le)
  then have le: "IE_BITS_UREFS ?b + ?d \<le> MACH_PORT_UREFS_MAX" using order_less_imp_le [OF assms] by (simp add: bits_or_type)
  have b: "ie_bits (dead_entry e) = ?b + ?d" by (simp add: dead_entry_def)
  show "same_marks (ie_bits e) (ie_bits (dead_entry e))"
    unfolding b using bits_or_type(3) same_marks_add [OF le] by (rule same_marks_trans)
  show "type_of (dead_entry e) = MACH_PORT_TYPE_DEAD_NAME"
    unfolding b IE_BITS_add(2) [OF le] by (rule bits_or_type)
  show "IE_BITS_UREFS (ie_bits (dead_entry e)) = IE_BITS_UREFS (ie_bits e) + ?d"
    unfolding b IE_BITS_add(1) [OF le] by (simp add: bits_or_type)
qed

lemma check_step:
  assumes e: "get_entry (snd s) ref = Some e" and dead: "\<not> ip_active (port_of s port)"
    and h: "ie_bits e AND MACH_PORT_TYPE_SEND \<noteq> 0 \<longrightarrow> hash_has (snd s) port name ref"
    and m: "same_marks (ie_bits e) (ie_bits (dead_entry e))"
  shows "\<exists>g sp. ipc_right_check port name ref s = Some (True, ipc_port_release port ((fst s)\<lparr>w_hash := g\<rparr>), sp) \<and>
    changed (snd s) sp ref (dead_entry e)"
proof -
  obtain g sp where s1: "(if ie_bits e AND MACH_PORT_TYPE_SEND \<noteq> 0 then right_hash_delete port name ref s else Some s) =
      Some ((fst s)\<lparr>w_hash := g\<rparr>, sp)" "same_cores (snd s) sp"
  proof (cases "ie_bits e AND MACH_PORT_TYPE_SEND \<noteq> 0")
    case True
    then show ?thesis using hash_delete_step [of s port name ref] h that by auto
  next
    case False
    then show ?thesis using that [of "w_hash (fst s)" "snd s"] by (simp add: same_cores_def)
  qed
  have c: "changed (snd s) sp ref e" by (rule same_cores_changed [OF s1(2) e])
  then obtain i where i: "get_entry sp ref = Some (e\<lparr>ie_index := i\<rparr>)" using changed_get by blast
  let ?e = "dead_entry (e\<lparr>ie_index := i\<rparr>)"
  have "ie_bits ?e = ie_bits (dead_entry e)" "core ?e = core (dead_entry e)" by (simp_all add: dead_entry_def)
  then have c2: "changed sp (put_entry sp ref ?e) ref (dead_entry e)"
    using changed_put [OF i, of ?e] m by (simp add: changed_def)
  have "ipc_right_check port name ref s = Some (True, ipc_port_release port ((fst s)\<lparr>w_hash := g\<rparr>), put_entry sp ref ?e)"
    using e dead s1(1) i by (simp add: ipc_right_check_def upd_entry_def on_world_def dead_entry_def Let_def)
  with changed_trans [OF c c2] show ?thesis by blast
qed

lemma check_active: "ip_active (port_of s port) \<Longrightarrow> ipc_right_check port name ref s = Some (False, s)"
  by (simp add: ipc_right_check_def)

text \<open>The type of a right and its object, which decide what the entry counts for.\<close>

abbreviation kind :: "ipc_entry \<Rightarrow> natural_t \<times> ipc_object_t" where
  "kind e \<equiv> (type_of e, ie_object e)"

abbreviation kind_at :: "ipc_space \<Rightarrow> ipc_entry_ref \<Rightarrow> (natural_t \<times> ipc_object_t) option" where
  "kind_at space ref \<equiv> map_option kind (get_entry space ref)"

lemma type_bits:
  "bits AND MACH_PORT_TYPE_SEND = IE_BITS_TYPE bits AND MACH_PORT_TYPE_SEND"
  "bits AND MACH_PORT_TYPE_RECEIVE = IE_BITS_TYPE bits AND MACH_PORT_TYPE_RECEIVE"
  "bits AND MACH_PORT_TYPE_SEND_ONCE = IE_BITS_TYPE bits AND MACH_PORT_TYPE_SEND_ONCE"
  "bits AND MACH_PORT_TYPE_DEAD_NAME = IE_BITS_TYPE bits AND MACH_PORT_TYPE_DEAD_NAME"
  "bits AND MACH_PORT_TYPE_SEND_RIGHTS = IE_BITS_TYPE bits AND MACH_PORT_TYPE_SEND_RIGHTS"
  "bits AND MACH_PORT_TYPE_PORT_RIGHTS = IE_BITS_TYPE bits AND MACH_PORT_TYPE_PORT_RIGHTS"
  by (simp_all add: IE_BITS_TYPE_def and.assoc ipc_defs)

lemma type_tests:
  "bits AND MACH_PORT_TYPE_SEND \<noteq> 0 \<longleftrightarrow> IE_BITS_TYPE bits AND MACH_PORT_TYPE_SEND \<noteq> 0"
  "bits AND MACH_PORT_TYPE_PORT_RIGHTS \<noteq> 0 \<longleftrightarrow> IE_BITS_TYPE bits AND MACH_PORT_TYPE_PORT_RIGHTS \<noteq> 0"
  using type_bits(1,6) [of bits] by simp_all

definition removed :: "ipc_space \<Rightarrow> ipc_space \<Rightarrow> ipc_entry_ref \<Rightarrow> bool" where
  "removed space space' ref \<longleftrightarrow> (\<forall>r. r \<noteq> ref \<longrightarrow> kind_at space' r = kind_at space r) \<and>
     (\<forall>e. get_entry space' ref = Some e \<longrightarrow> type_of e = 0)"

definition deallocable :: "nat list \<Rightarrow> ipc_space \<Rightarrow> mach_port_t \<Rightarrow> ipc_entry_ref \<Rightarrow> bool" where
  "deallocable its space name ref \<longleftrightarrow>
     ref = TableEntry (MACH_PORT_INDEX name) \<and> 0 < MACH_PORT_INDEX name \<and>
       (\<forall>e. get_entry space ref = Some e \<longrightarrow> \<not> collides e) \<or>
     ref = TreeEntry name \<and> \<not> is_fast space \<and> tree_ok its space \<and> name \<in> tree_names space"

lemma deallocable_changed:
  assumes c: "changed space space' ref e'" and e: "get_entry space ref = Some e" "same_marks (ie_bits e) (ie_bits e')"
    and d: "deallocable its space name ref"
  shows "deallocable its space' name ref"
proof -
  obtain i where i: "get_entry space' ref = Some (e'\<lparr>ie_index := i\<rparr>)" using changed_get [OF c] by blast
  have "collides e' = collides e" using e(2) by (simp add: same_marks_def collides_def)
  with c d e(1) i show ?thesis by (auto simp: deallocable_def changed_def keeps_def collides_def)
qed

lemma dealloc_table_removed:
  assumes "0 < i" "i < is_table_size space"
  shows "removed space (dealloc_to_free_list space i) (TableEntry i)"
proof -
  have n: "0 < is_table_size space" using assms by linarith
  let ?s = "dealloc_to_free_list space i"
  have k: "kind_at ?s r = kind_at space r" if "r \<noteq> TableEntry i" for r
    using that assms n
    by (cases r) (auto simp: dealloc_to_free_list_def Let_def set_next_def nth_list_update)
  have z: "type_of e = 0" if "get_entry ?s (TableEntry i) = Some e" for e
    using that assms gen_only_bits(1) [OF gen_mask_only]
    by (auto simp: dealloc_to_free_list_def Let_def set_next_def split: if_splits)
  from k z show ?thesis by (simp add: removed_def)
qed

lemma dealloc_tree_removed:
  assumes t: "tree_ok its space" "name \<in> tree_names space"
  shows "removed space (dealloc_tree_entry its space name) (TreeEntry name)"
proof -
  let ?i = "MACH_PORT_INDEX name" and ?d = "dealloc_tree_entry its space name"
  obtain tree table small c where d: "?d =
      space\<lparr>is_tree := tree, is_tree_total := is_tree_total space - 1, is_table := table, is_tree_small := small\<rparr>"
    and o: "ist_inorder tree = ist_inorder (ipc_splay_tree_delete (is_tree space) name)"
    and tb: "table = (if c then (is_table space)[?i := (is_table space ! ?i)
      \<lparr>ie_bits := ie_bits (is_table space ! ?i) AND NOT IE_BITS_COLLISION\<rparr>] else is_table space)"
    using dealloc_tree_entry_form [OF t] unfolding Let_def by (elim exE conjE) (rule that; assumption)
  have wf: "ist_wf (is_tree space)" using t(1) by (simp add: tree_ok_def)
  have "splay.find (is_tree space) name \<noteq> None" using t(2) tree_map_iff by blast
  from splay.find_delete [OF wf this]
  have m: "ist_map tree n = (if n = name then None else ist_map (is_tree space) n)" for n
    unfolding o by simp
  have "kind (table ! j) = kind (is_table space ! j)" if "j < is_table_size space" for j
    using that bits_clear_collision(3) by (cases "j = ?i") (simp_all add: tb)
  moreover have "length table = is_table_size space" by (simp add: tb)
  ultimately have "kind_at ?d r = kind_at space r" if "r \<noteq> TreeEntry name" for r
    using that by (cases r) (auto simp: d m)
  then show ?thesis by (simp add: removed_def d m)
qed

lemma dealloc_step:
  assumes e: "get_entry (snd s) ref = Some e" and d: "deallocable its (snd s) name ref"
  shows "\<exists>sp. right_entry_dealloc its name ref s = Some (fst s, sp) \<and> removed (snd s) sp ref"
proof (cases "ref = TreeEntry name")
  case True
  then have t: "\<not> is_fast (snd s)" "tree_ok its (snd s)" "name \<in> tree_names (snd s)"
    using d by (auto simp: deallocable_def)
  have "right_entry_dealloc its name ref s = Some (fst s, dealloc_tree_entry its (snd s) name)"
    using t(1) True by (simp add: right_entry_dealloc_def ipc_entry_dealloc_def)
  then show ?thesis using dealloc_tree_removed [OF t(2,3)] True by blast
next
  case False
  let ?i = "MACH_PORT_INDEX name"
  have i: "ref = TableEntry ?i" "0 < ?i" "\<not> collides e" "?i < is_table_size (snd s)" "is_table (snd s) ! ?i = e"
    using d e False by (auto simp: deallocable_def split: if_splits)
  then have "right_entry_dealloc its name ref s = Some (fst s, dealloc_to_free_list (snd s) ?i)"
    by (simp add: right_entry_dealloc_def ipc_entry_dealloc_def collides_def Let_def)
  then show ?thesis using dealloc_table_removed [OF i(2,4)] i(1) by blast
qed

lemma right_count_removed:
  assumes r: "removed space space' ref" and e: "get_entry space ref = Some e"
    and P: "\<And>e. P e = Q (kind e)" "\<And>ob. \<not> Q (0, ob)"
  shows "(of_nat (right_count P space') :: 'a :: len word) = of_nat (right_count P space) - (if P e then 1 else 0)"
proof -
  let ?A = "\<lambda>sp. {r. \<exists>e. get_entry sp r = Some e \<and> P e}"
  have q: "(\<exists>e. get_entry sp r = Some e \<and> P e) = (\<exists>k. kind_at sp r = Some k \<and> Q k)" for sp r
    by (cases "get_entry sp r") (simp_all add: P(1))
  have "r' \<in> ?A space' \<longleftrightarrow> r' \<in> ?A space - {ref}" for r'
  proof (cases "r' = ref")
    case True
    then show ?thesis using r P by (auto simp: removed_def)
  next
    case False
    then show ?thesis using r unfolding removed_def mem_Collect_eq q Diff_iff by simp
  qed
  then have A: "?A space' = ?A space - {ref}" by blast
  have f: "finite (?A space)" by (rule entries.finite_with)
  show ?thesis
  proof (cases "P e")
    case True
    then have "ref \<in> ?A space" using e by simp
    then show ?thesis using of_nat_card_minus [OF f] True unfolding right_count_def A by simp
  next
    case False
    then have "ref \<notin> ?A space" using e by simp
    then show ?thesis using False unfolding right_count_def A by simp
  qed
qed

lemma outer_removed:
  assumes "removed (snd s) (snd s') ref" "get_entry (snd s) ref = Some e"
  shows "outer_sends s' port = outer_sends s port + (ip_srights (port_of s' port) - ip_srights (port_of s port))
      + (if sends port e then 1 else 0)"
    and "outer_refs s' port = outer_refs s port + (ip_references (port_of s' port) - ip_references (port_of s port))
      + (if holds port e then 1 else 0)"
proof -
  have "sends port e = (\<lambda>(t, ob). ob = port \<and> t AND MACH_PORT_TYPE_SEND \<noteq> 0) (kind e)"
    "holds port e = (\<lambda>(t, ob). ob = port \<and> t AND MACH_PORT_TYPE_PORT_RIGHTS \<noteq> 0) (kind e)" for e
    using type_tests [of "ie_bits e"] by simp_all
  note c = right_count_removed [OF assms, of "sends port" "\<lambda>(t, ob). ob = port \<and> t AND MACH_PORT_TYPE_SEND \<noteq> 0",
      OF this(1), where ?'a = 32]
    right_count_removed [OF assms, of "holds port" "\<lambda>(t, ob). ob = port \<and> t AND MACH_PORT_TYPE_PORT_RIGHTS \<noteq> 0",
      OF this(2), where ?'a = 32]
  show "outer_sends s' port = outer_sends s port + (ip_srights (port_of s' port) - ip_srights (port_of s port))
      + (if sends port e then 1 else 0)"
    using c(1) by (simp add: outer_sends_def)
  show "outer_refs s' port = outer_refs s port + (ip_references (port_of s' port) - ip_references (port_of s port))
      + (if holds port e then 1 else 0)"
    using c(2) by (simp add: outer_refs_def)
qed

lemma clear_bits:
  "IE_BITS_TYPE (bits AND NOT (IE_BITS_UREFS_MASK OR MACH_PORT_TYPE_SEND)) = IE_BITS_TYPE bits AND NOT MACH_PORT_TYPE_SEND"
  "IE_BITS_TYPE (bits AND NOT MACH_PORT_TYPE_RECEIVE) = IE_BITS_TYPE bits AND NOT MACH_PORT_TYPE_RECEIVE"
  "IE_BITS_TYPE (bits AND NOT MACH_PORT_TYPE_SEND_ONCE) = IE_BITS_TYPE bits AND NOT MACH_PORT_TYPE_SEND_ONCE"
  "same_marks bits (bits AND NOT (IE_BITS_UREFS_MASK OR MACH_PORT_TYPE_SEND))"
  "same_marks bits (bits AND NOT MACH_PORT_TYPE_RECEIVE)"
  "same_marks bits (bits AND NOT MACH_PORT_TYPE_SEND_ONCE)"
  by (simp_all add: IE_BITS_TYPE_def IE_BITS_GEN_def same_marks_def and.assoc ipc_defs)

lemma types_distinct [simp]:
  "MACH_PORT_TYPE_SEND \<noteq> MACH_PORT_TYPE_RECEIVE" "MACH_PORT_TYPE_SEND \<noteq> MACH_PORT_TYPE_SEND_RECEIVE" "MACH_PORT_TYPE_SEND \<noteq> MACH_PORT_TYPE_SEND_ONCE"
  "MACH_PORT_TYPE_SEND \<noteq> MACH_PORT_TYPE_DEAD_NAME" "MACH_PORT_TYPE_SEND \<noteq> MACH_PORT_TYPE_PORT_SET" "MACH_PORT_TYPE_SEND \<noteq> 0"
  "MACH_PORT_TYPE_RECEIVE \<noteq> MACH_PORT_TYPE_SEND" "MACH_PORT_TYPE_RECEIVE \<noteq> MACH_PORT_TYPE_SEND_RECEIVE" "MACH_PORT_TYPE_RECEIVE \<noteq> MACH_PORT_TYPE_SEND_ONCE"
  "MACH_PORT_TYPE_RECEIVE \<noteq> MACH_PORT_TYPE_DEAD_NAME" "MACH_PORT_TYPE_RECEIVE \<noteq> MACH_PORT_TYPE_PORT_SET" "MACH_PORT_TYPE_RECEIVE \<noteq> 0"
  "MACH_PORT_TYPE_SEND_RECEIVE \<noteq> MACH_PORT_TYPE_SEND" "MACH_PORT_TYPE_SEND_RECEIVE \<noteq> MACH_PORT_TYPE_RECEIVE" "MACH_PORT_TYPE_SEND_RECEIVE \<noteq> MACH_PORT_TYPE_SEND_ONCE"
  "MACH_PORT_TYPE_SEND_RECEIVE \<noteq> MACH_PORT_TYPE_DEAD_NAME" "MACH_PORT_TYPE_SEND_RECEIVE \<noteq> MACH_PORT_TYPE_PORT_SET" "MACH_PORT_TYPE_SEND_RECEIVE \<noteq> 0"
  "MACH_PORT_TYPE_SEND_ONCE \<noteq> MACH_PORT_TYPE_SEND" "MACH_PORT_TYPE_SEND_ONCE \<noteq> MACH_PORT_TYPE_RECEIVE" "MACH_PORT_TYPE_SEND_ONCE \<noteq> MACH_PORT_TYPE_SEND_RECEIVE"
  "MACH_PORT_TYPE_SEND_ONCE \<noteq> MACH_PORT_TYPE_DEAD_NAME" "MACH_PORT_TYPE_SEND_ONCE \<noteq> MACH_PORT_TYPE_PORT_SET" "MACH_PORT_TYPE_SEND_ONCE \<noteq> 0"
  "MACH_PORT_TYPE_DEAD_NAME \<noteq> MACH_PORT_TYPE_SEND" "MACH_PORT_TYPE_DEAD_NAME \<noteq> MACH_PORT_TYPE_RECEIVE" "MACH_PORT_TYPE_DEAD_NAME \<noteq> MACH_PORT_TYPE_SEND_RECEIVE"
  "MACH_PORT_TYPE_DEAD_NAME \<noteq> MACH_PORT_TYPE_SEND_ONCE" "MACH_PORT_TYPE_DEAD_NAME \<noteq> MACH_PORT_TYPE_PORT_SET" "MACH_PORT_TYPE_DEAD_NAME \<noteq> 0"
  "MACH_PORT_TYPE_PORT_SET \<noteq> MACH_PORT_TYPE_SEND" "MACH_PORT_TYPE_PORT_SET \<noteq> MACH_PORT_TYPE_RECEIVE" "MACH_PORT_TYPE_PORT_SET \<noteq> MACH_PORT_TYPE_SEND_RECEIVE"
  "MACH_PORT_TYPE_PORT_SET \<noteq> MACH_PORT_TYPE_SEND_ONCE" "MACH_PORT_TYPE_PORT_SET \<noteq> MACH_PORT_TYPE_DEAD_NAME" "MACH_PORT_TYPE_PORT_SET \<noteq> 0"
  by (simp_all add: ipc_defs)

text \<open>Which types have which rights.\<close>

lemma type_values:
  "MACH_PORT_TYPE_SEND AND MACH_PORT_TYPE_SEND \<noteq> 0" "MACH_PORT_TYPE_SEND AND MACH_PORT_TYPE_RECEIVE = 0"
  "MACH_PORT_TYPE_SEND AND MACH_PORT_TYPE_SEND_ONCE = 0" "MACH_PORT_TYPE_SEND AND MACH_PORT_TYPE_DEAD_NAME = 0"
  "MACH_PORT_TYPE_SEND AND MACH_PORT_TYPE_SEND_RIGHTS \<noteq> 0" "MACH_PORT_TYPE_SEND AND MACH_PORT_TYPE_PORT_RIGHTS \<noteq> 0"
  "MACH_PORT_TYPE_RECEIVE AND MACH_PORT_TYPE_SEND = 0" "MACH_PORT_TYPE_RECEIVE AND MACH_PORT_TYPE_RECEIVE \<noteq> 0"
  "MACH_PORT_TYPE_RECEIVE AND MACH_PORT_TYPE_SEND_ONCE = 0" "MACH_PORT_TYPE_RECEIVE AND MACH_PORT_TYPE_DEAD_NAME = 0"
  "MACH_PORT_TYPE_RECEIVE AND MACH_PORT_TYPE_SEND_RIGHTS = 0" "MACH_PORT_TYPE_RECEIVE AND MACH_PORT_TYPE_PORT_RIGHTS \<noteq> 0"
  "MACH_PORT_TYPE_SEND_RECEIVE AND MACH_PORT_TYPE_SEND \<noteq> 0" "MACH_PORT_TYPE_SEND_RECEIVE AND MACH_PORT_TYPE_RECEIVE \<noteq> 0"
  "MACH_PORT_TYPE_SEND_RECEIVE AND MACH_PORT_TYPE_SEND_ONCE = 0" "MACH_PORT_TYPE_SEND_RECEIVE AND MACH_PORT_TYPE_DEAD_NAME = 0"
  "MACH_PORT_TYPE_SEND_RECEIVE AND MACH_PORT_TYPE_SEND_RIGHTS \<noteq> 0" "MACH_PORT_TYPE_SEND_RECEIVE AND MACH_PORT_TYPE_PORT_RIGHTS \<noteq> 0"
  "MACH_PORT_TYPE_SEND_ONCE AND MACH_PORT_TYPE_SEND = 0" "MACH_PORT_TYPE_SEND_ONCE AND MACH_PORT_TYPE_RECEIVE = 0"
  "MACH_PORT_TYPE_SEND_ONCE AND MACH_PORT_TYPE_SEND_ONCE \<noteq> 0" "MACH_PORT_TYPE_SEND_ONCE AND MACH_PORT_TYPE_DEAD_NAME = 0"
  "MACH_PORT_TYPE_SEND_ONCE AND MACH_PORT_TYPE_SEND_RIGHTS \<noteq> 0" "MACH_PORT_TYPE_SEND_ONCE AND MACH_PORT_TYPE_PORT_RIGHTS \<noteq> 0"
  "MACH_PORT_TYPE_SEND_RECEIVE AND NOT MACH_PORT_TYPE_SEND = MACH_PORT_TYPE_RECEIVE"
  "MACH_PORT_TYPE_SEND_RECEIVE AND NOT MACH_PORT_TYPE_RECEIVE = MACH_PORT_TYPE_SEND"
  "MACH_PORT_TYPE_SEND AND NOT MACH_PORT_TYPE_SEND = 0" "MACH_PORT_TYPE_RECEIVE AND NOT MACH_PORT_TYPE_RECEIVE = 0"
  "MACH_PORT_TYPE_SEND_ONCE AND NOT MACH_PORT_TYPE_SEND_ONCE = 0"
  by (simp_all add: ipc_defs)

lemma no_type:
  assumes "IE_BITS_TYPE bits = 0"
  shows "bits AND MACH_PORT_TYPE_SEND = 0" "bits AND MACH_PORT_TYPE_PORT_RIGHTS = 0"
  unfolding type_bits(1,6) [of bits] assms by simp_all

text \<open>
  An entry that is a right to a port, as the operations leave it: a send right is in the hash table and
  has user references, but not the last one; the receiver's entry is not in the hash table; a request
  has a table.
\<close>

definition port_right_ok :: "right_state \<Rightarrow> mach_port_t \<Rightarrow> ipc_entry_ref \<Rightarrow> ipc_entry \<Rightarrow> bool" where
  "port_right_ok s name ref e \<longleftrightarrow> (let t = type_of e; u = IE_BITS_UREFS (ie_bits e); port = ie_object e in
     get_entry (snd s) ref = Some e \<and>
     (t = MACH_PORT_TYPE_SEND \<or> t = MACH_PORT_TYPE_RECEIVE \<or> t = MACH_PORT_TYPE_SEND_RECEIVE \<or> t = MACH_PORT_TYPE_SEND_ONCE) \<and>
     u < MACH_PORT_UREFS_MAX \<and> (t = MACH_PORT_TYPE_SEND \<or> t = MACH_PORT_TYPE_SEND_RECEIVE \<longrightarrow> u \<noteq> 0) \<and>
     (t = MACH_PORT_TYPE_SEND \<longrightarrow> hash_has (snd s) port name ref) \<and>
     (t = MACH_PORT_TYPE_SEND_RECEIVE \<longrightarrow> hash_free (snd s) port name ref) \<and>
     (ie_request e \<noteq> 0 \<longrightarrow> ip_dnrequests (port_of s port) \<noteq> None))"

text \<open>How the counters of one port change and those of all others do not.\<close>

definition counters :: "right_state \<Rightarrow> right_state \<Rightarrow> ipc_port_t \<Rightarrow> natural_t \<Rightarrow> natural_t \<Rightarrow> bool" where
  "counters s s' port ds dr \<longleftrightarrow> (\<forall>p. ip_srights (port_of s' p) = ip_srights (port_of s p) + (if p = port then ds else 0) \<and>
     ip_references (port_of s' p) = ip_references (port_of s p) + (if p = port then dr else 0))"

lemma outer_counters:
  assumes c: "counters s s' port ds dr" and d: "changed (snd s) (snd s') ref e'"
    and e: "get_entry (snd s) ref = Some e" "ie_object e = port"
    and e': "ie_object e' = port \<or> ie_bits e' AND MACH_PORT_TYPE_PORT_RIGHTS = 0"
  shows "outer_sends s' p = outer_sends s p + (if p = port then ds + (if sends port e then 1 else 0) - (if sends port e' then 1 else 0) else 0)"
    and "outer_refs s' p = outer_refs s p + (if p = port then dr + (if holds port e then 1 else 0) - (if holds port e' then 1 else 0) else 0)"
proof -
  have none: "bits AND MACH_PORT_TYPE_SEND = 0" if "bits AND MACH_PORT_TYPE_PORT_RIGHTS = 0" for bits :: natural_t
  proof -
    have "bits AND MACH_PORT_TYPE_SEND = (bits AND MACH_PORT_TYPE_PORT_RIGHTS) AND MACH_PORT_TYPE_SEND"
      by (simp add: and.assoc ipc_defs)
    then show ?thesis using that by simp
  qed
  note o = outer_changed [OF d e(1), of p]
  have "\<not> sends p e'" "\<not> holds p e'" if "p \<noteq> port" using e' none [of "ie_bits e'"] that by auto
  moreover have "ip_srights (port_of s' p) - ip_srights (port_of s p) = (if p = port then ds else 0)"
    "ip_references (port_of s' p) - ip_references (port_of s p) = (if p = port then dr else 0)"
    using c by (simp_all add: counters_def)
  ultimately show "outer_sends s' p = outer_sends s p + (if p = port then ds + (if sends port e then 1 else 0) - (if sends port e' then 1 else 0) else 0)"
    "outer_refs s' p = outer_refs s p + (if p = port then dr + (if holds port e then 1 else 0) - (if holds port e' then 1 else 0) else 0)"
    using o e(2) by auto
qed

lemma clear_receiver_counters:
  "ip_srights (w_ports (ipc_port_clear_receiver port w) p) = ip_srights (w_ports w p)"
  "ip_references (w_ports (ipc_port_clear_receiver port w) p) = ip_references (w_ports w p)"
  by (auto simp: ipc_port_clear_receiver_def Let_def ipc_mqueue_changed_def ips_check_unlock_def pset_move_defs
      split: if_splits)

end
