(* ===== verification/Ipc_Right_Correct.thy ===== *)
theory Ipc_Right_Correct
  imports Ipc_Right_Count
begin

text \<open>
  What the operations of \<open>ipc_right.c\<close> do to the rights of a space and to the counters of the ports.
  The entries of a space that are rights to a port are counted, and each operation is shown to keep
  the difference between a port's counters and these counts, up to the rights that it takes out of
  the space or puts into it.
\<close>

section \<open>Copyin\<close>

text \<open>
  One right to the port, of \<open>n\<close> send rights, has left the entries of the space: what has been taken out
  holds a reference of its own.
\<close>

definition taken_out :: "right_state \<Rightarrow> right_state \<Rightarrow> ipc_port_t \<Rightarrow> natural_t \<Rightarrow> bool" where
  "taken_out s s' port n \<longleftrightarrow> (\<forall>p. outer_sends s' p = outer_sends s p + (if p = port then n else 0) \<and>
     outer_refs s' p = outer_refs s p + (if p = port then 1 else 0))"

lemma taken_outI:
  assumes "counters s s' port ds dr" "changed (snd s) (snd s') ref e'"
    and "get_entry (snd s) ref = Some e" "ie_object e = port" "ie_object e' = port \<or> ie_bits e' AND MACH_PORT_TYPE_PORT_RIGHTS = 0"
    and "ds + (if sends port e then 1 else 0) = n + (if sends port e' then 1 else 0)"
    and "dr + (if holds port e then 1 else 0) = 1 + (if holds port e' then 1 else 0)"
  shows "taken_out s s' port n"
  unfolding taken_out_def outer_counters [OF assms(1-5)] assms(6,7) add_diff_cancel_right' by simp

lemma port_right_okD:
  assumes "port_right_ok s name ref e"
  shows "get_entry (snd s) ref = Some e"
    and "type_of e = MACH_PORT_TYPE_SEND \<or> type_of e = MACH_PORT_TYPE_RECEIVE \<or>
      type_of e = MACH_PORT_TYPE_SEND_RECEIVE \<or> type_of e = MACH_PORT_TYPE_SEND_ONCE"
    and "IE_BITS_UREFS (ie_bits e) < MACH_PORT_UREFS_MAX"
    and "type_of e = MACH_PORT_TYPE_SEND \<or> type_of e = MACH_PORT_TYPE_SEND_RECEIVE \<Longrightarrow> IE_BITS_UREFS (ie_bits e) \<noteq> 0"
    and "type_of e = MACH_PORT_TYPE_SEND \<Longrightarrow> hash_has (snd s) (ie_object e) name ref"
    and "type_of e = MACH_PORT_TYPE_SEND_RECEIVE \<Longrightarrow> hash_free (snd s) (ie_object e) name ref"
    and "ie_request e \<noteq> 0 \<longrightarrow> ip_dnrequests (port_of s (ie_object e)) \<noteq> None"
  using assms unfolding port_right_ok_def Let_def by blast+

lemma has_send: "port_right_ok s name ref e \<Longrightarrow> ie_bits e AND MACH_PORT_TYPE_SEND \<noteq> 0 \<longleftrightarrow>
    type_of e = MACH_PORT_TYPE_SEND \<or> type_of e = MACH_PORT_TYPE_SEND_RECEIVE"
  using port_right_okD(2) [of s name ref e] type_values unfolding type_bits(1) [of "ie_bits e"] by metis

lemma has_receive: "port_right_ok s name ref e \<Longrightarrow> ie_bits e AND MACH_PORT_TYPE_RECEIVE \<noteq> 0 \<longleftrightarrow>
    type_of e = MACH_PORT_TYPE_RECEIVE \<or> type_of e = MACH_PORT_TYPE_SEND_RECEIVE"
  using port_right_okD(2) [of s name ref e] type_values unfolding type_bits(2) [of "ie_bits e"] by metis

lemma has_send_once: "port_right_ok s name ref e \<Longrightarrow> ie_bits e AND MACH_PORT_TYPE_SEND_ONCE \<noteq> 0 \<longleftrightarrow>
    type_of e = MACH_PORT_TYPE_SEND_ONCE"
  using port_right_okD(2) [of s name ref e] type_values unfolding type_bits(3) [of "ie_bits e"] by metis

lemma has_port_rights:
  assumes "port_right_ok s name ref e"
  shows "ie_bits e AND MACH_PORT_TYPE_PORT_RIGHTS \<noteq> 0" "ie_bits e AND MACH_PORT_TYPE_DEAD_NAME = 0"
    "ie_bits e AND MACH_PORT_TYPE_SEND_RIGHTS \<noteq> 0 \<longleftrightarrow> type_of e \<noteq> MACH_PORT_TYPE_RECEIVE"
  using port_right_okD(2) [OF assms] type_values
  unfolding type_bits(6) [of "ie_bits e"] type_bits(4) [of "ie_bits e"] type_bits(5) [of "ie_bits e"] by metis+

text \<open>What an entry must have for a copyin with a disposition, and how many send rights it takes out.\<close>

definition copyin_type :: "mach_msg_type_name_t \<Rightarrow> natural_t" where
  "copyin_type msgt_name =
     (if msgt_name = MACH_MSG_TYPE_COPY_SEND \<or> msgt_name = MACH_MSG_TYPE_MOVE_SEND then MACH_PORT_TYPE_SEND
      else if msgt_name = MACH_MSG_TYPE_MOVE_SEND_ONCE then MACH_PORT_TYPE_SEND_ONCE else MACH_PORT_TYPE_RECEIVE)"

definition copyin_sends :: "mach_msg_type_name_t \<Rightarrow> natural_t" where
  "copyin_sends msgt_name =
     (if msgt_name = MACH_MSG_TYPE_COPY_SEND \<or> msgt_name = MACH_MSG_TYPE_MOVE_SEND \<or> msgt_name = MACH_MSG_TYPE_MAKE_SEND then 1 else 0)"

abbreviation copyin_dispositions :: "mach_msg_type_name_t set" where
  "copyin_dispositions \<equiv> {MACH_MSG_TYPE_MOVE_RECEIVE, MACH_MSG_TYPE_MOVE_SEND, MACH_MSG_TYPE_MOVE_SEND_ONCE,
     MACH_MSG_TYPE_COPY_SEND, MACH_MSG_TYPE_MAKE_SEND, MACH_MSG_TYPE_MAKE_SEND_ONCE}"

lemma msg_types_distinct [simp]:
  "MACH_MSG_TYPE_MOVE_RECEIVE \<noteq> MACH_MSG_TYPE_MOVE_SEND" "MACH_MSG_TYPE_MOVE_RECEIVE \<noteq> MACH_MSG_TYPE_MOVE_SEND_ONCE" "MACH_MSG_TYPE_MOVE_RECEIVE \<noteq> MACH_MSG_TYPE_COPY_SEND"
  "MACH_MSG_TYPE_MOVE_RECEIVE \<noteq> MACH_MSG_TYPE_MAKE_SEND" "MACH_MSG_TYPE_MOVE_RECEIVE \<noteq> MACH_MSG_TYPE_MAKE_SEND_ONCE" "MACH_MSG_TYPE_MOVE_SEND \<noteq> MACH_MSG_TYPE_MOVE_RECEIVE"
  "MACH_MSG_TYPE_MOVE_SEND \<noteq> MACH_MSG_TYPE_MOVE_SEND_ONCE" "MACH_MSG_TYPE_MOVE_SEND \<noteq> MACH_MSG_TYPE_COPY_SEND" "MACH_MSG_TYPE_MOVE_SEND \<noteq> MACH_MSG_TYPE_MAKE_SEND"
  "MACH_MSG_TYPE_MOVE_SEND \<noteq> MACH_MSG_TYPE_MAKE_SEND_ONCE" "MACH_MSG_TYPE_MOVE_SEND_ONCE \<noteq> MACH_MSG_TYPE_MOVE_RECEIVE" "MACH_MSG_TYPE_MOVE_SEND_ONCE \<noteq> MACH_MSG_TYPE_MOVE_SEND"
  "MACH_MSG_TYPE_MOVE_SEND_ONCE \<noteq> MACH_MSG_TYPE_COPY_SEND" "MACH_MSG_TYPE_MOVE_SEND_ONCE \<noteq> MACH_MSG_TYPE_MAKE_SEND" "MACH_MSG_TYPE_MOVE_SEND_ONCE \<noteq> MACH_MSG_TYPE_MAKE_SEND_ONCE"
  "MACH_MSG_TYPE_COPY_SEND \<noteq> MACH_MSG_TYPE_MOVE_RECEIVE" "MACH_MSG_TYPE_COPY_SEND \<noteq> MACH_MSG_TYPE_MOVE_SEND" "MACH_MSG_TYPE_COPY_SEND \<noteq> MACH_MSG_TYPE_MOVE_SEND_ONCE"
  "MACH_MSG_TYPE_COPY_SEND \<noteq> MACH_MSG_TYPE_MAKE_SEND" "MACH_MSG_TYPE_COPY_SEND \<noteq> MACH_MSG_TYPE_MAKE_SEND_ONCE" "MACH_MSG_TYPE_MAKE_SEND \<noteq> MACH_MSG_TYPE_MOVE_RECEIVE"
  "MACH_MSG_TYPE_MAKE_SEND \<noteq> MACH_MSG_TYPE_MOVE_SEND" "MACH_MSG_TYPE_MAKE_SEND \<noteq> MACH_MSG_TYPE_MOVE_SEND_ONCE" "MACH_MSG_TYPE_MAKE_SEND \<noteq> MACH_MSG_TYPE_COPY_SEND"
  "MACH_MSG_TYPE_MAKE_SEND \<noteq> MACH_MSG_TYPE_MAKE_SEND_ONCE" "MACH_MSG_TYPE_MAKE_SEND_ONCE \<noteq> MACH_MSG_TYPE_MOVE_RECEIVE" "MACH_MSG_TYPE_MAKE_SEND_ONCE \<noteq> MACH_MSG_TYPE_MOVE_SEND"
  "MACH_MSG_TYPE_MAKE_SEND_ONCE \<noteq> MACH_MSG_TYPE_MOVE_SEND_ONCE" "MACH_MSG_TYPE_MAKE_SEND_ONCE \<noteq> MACH_MSG_TYPE_COPY_SEND" "MACH_MSG_TYPE_MAKE_SEND_ONCE \<noteq> MACH_MSG_TYPE_MAKE_SEND"
  by (simp_all add: msg_type_defs)

text \<open>
  What a copyin of a right to a live port does: the rights that leave the entry; the counters of the port;
  the receiver of the port, if the receive right moves. The dead-name request of the entry is
  cancelled exactly when the entry is left without a right. The hash tables are in \<open>g\<close>.
\<close>

definition copyin_moved :: "mach_msg_type_name_t \<Rightarrow> ipc_entry \<Rightarrow> natural_t" where
  "copyin_moved msgt_name e =
     (if msgt_name = MACH_MSG_TYPE_MOVE_RECEIVE then MACH_PORT_TYPE_RECEIVE
      else if msgt_name = MACH_MSG_TYPE_MOVE_SEND \<and> IE_BITS_UREFS (ie_bits e) = 1 then MACH_PORT_TYPE_SEND
      else if msgt_name = MACH_MSG_TYPE_MOVE_SEND_ONCE then MACH_PORT_TYPE_SEND_ONCE else 0)"

definition copyin_port :: "mach_msg_type_name_t \<Rightarrow> ipc_entry \<Rightarrow> ipc_port \<Rightarrow> ipc_port" where
  "copyin_port msgt_name e p = p\<lparr>
     ip_mscount := ip_mscount p + (if msgt_name = MACH_MSG_TYPE_MAKE_SEND then 1 else 0),
     ip_srights := ip_srights p + copyin_sends msgt_name - (if copyin_moved msgt_name e = MACH_PORT_TYPE_SEND then 1 else 0),
     ip_sorights := ip_sorights p + (if msgt_name = MACH_MSG_TYPE_MAKE_SEND_ONCE then 1 else 0),
     ip_references := ip_references p + (if type_of e AND NOT (copyin_moved msgt_name e) = 0 then 0 else 1)\<rparr>"

definition copyin_receiver :: "mach_msg_type_name_t \<Rightarrow> ipc_port_t \<Rightarrow> ipc_world \<Rightarrow> ipc_world" where
  "copyin_receiver msgt_name port w =
     (if msgt_name = MACH_MSG_TYPE_MOVE_RECEIVE
      then upd_port port (\<lambda>p. p\<lparr>ip_receiver_name := MACH_PORT_NULL, ip_data := IP_NULL\<rparr>) (ipc_port_clear_receiver port w)
      else w)"

definition copied_in ::
  "mach_msg_type_name_t \<Rightarrow> mach_port_t \<Rightarrow> ipc_entry_ref \<Rightarrow> ipc_entry \<Rightarrow> right_state \<Rightarrow> ipc_port_t \<Rightarrow> right_state \<Rightarrow> bool" where
  "copied_in msgt_name name ref e s soright s' \<longleftrightarrow> (\<exists>e' w sp g.
     changed (snd s) (snd s') ref e' \<and> same_marks (ie_bits e) (ie_bits e') \<and>
     type_of e' = type_of e AND NOT (copyin_moved msgt_name e) \<and>
     IE_BITS_UREFS (ie_bits e') = IE_BITS_UREFS (ie_bits e) - (if msgt_name = MACH_MSG_TYPE_MOVE_SEND then 1 else 0) \<and>
     (if type_of e' = 0
      then ie_object e' = IO_NULL \<and> ie_request e' = 0 \<and> ipc_right_dncancel_macro (ie_object e) name ref s = Some (soright, w, sp)
      else ie_object e' = ie_object e \<and> ie_request e' = ie_request e \<and> soright = IP_NULL \<and> w = fst s) \<and>
     fst s' = copyin_receiver msgt_name (ie_object e) (upd_port (ie_object e) (copyin_port msgt_name e) (w\<lparr>w_hash := g\<rparr>)))"

text \<open>The two cases: a right stays in the entry, or none.\<close>

lemma copied_in_stays:
  assumes "changed (snd s) sp ref e'" "same_marks (ie_bits e) (ie_bits e')"
    and "type_of e' = type_of e AND NOT (copyin_moved msgt_name e)" "type_of e' \<noteq> 0"
    and "IE_BITS_UREFS (ie_bits e') = IE_BITS_UREFS (ie_bits e) - (if msgt_name = MACH_MSG_TYPE_MOVE_SEND then 1 else 0)"
    and "ie_object e' = ie_object e" "ie_request e' = ie_request e"
    and "w' = copyin_receiver msgt_name (ie_object e) (upd_port (ie_object e) (copyin_port msgt_name e) ((fst s)\<lparr>w_hash := g\<rparr>))"
  shows "copied_in msgt_name name ref e s IP_NULL (w', sp)"
  unfolding copied_in_def
  by (rule exI [of _ e'], rule exI [of _ "fst s"], rule exI [of _ sp], rule exI [of _ g]) (simp add: assms flip: assms(3))

lemma copied_in_gone:
  assumes "changed (snd s) sp ref e'" "same_marks (ie_bits e) (ie_bits e')"
    and "type_of e' = type_of e AND NOT (copyin_moved msgt_name e)" "type_of e' = 0"
    and "IE_BITS_UREFS (ie_bits e') = IE_BITS_UREFS (ie_bits e) - (if msgt_name = MACH_MSG_TYPE_MOVE_SEND then 1 else 0)"
    and "ie_object e' = IO_NULL" "ie_request e' = 0"
    and "ipc_right_dncancel_macro (ie_object e) name ref s = Some (soright, w, sp0)"
    and "w' = copyin_receiver msgt_name (ie_object e) (upd_port (ie_object e) (copyin_port msgt_name e) (w\<lparr>w_hash := g\<rparr>))"
  shows "copied_in msgt_name name ref e s soright (w', sp)"
  unfolding copied_in_def
  by (rule exI [of _ e'], rule exI [of _ w], rule exI [of _ sp0], rule exI [of _ g]) (simp add: assms flip: assms(3))

lemma clear_urefs:
  "IE_BITS_UREFS (bits AND NOT (IE_BITS_UREFS_MASK OR MACH_PORT_TYPE_SEND)) = 0"
  "IE_BITS_UREFS (bits AND NOT MACH_PORT_TYPE_RECEIVE) = IE_BITS_UREFS bits"
  "IE_BITS_UREFS (bits AND NOT MACH_PORT_TYPE_SEND_ONCE) = IE_BITS_UREFS bits"
  by (simp_all add: IE_BITS_UREFS_def and.assoc ipc_defs)

lemmas copyin_spec_defs = copyin_moved_def copyin_sends_def copyin_port_def copyin_receiver_def

lemma same_hash: "w\<lparr>w_hash := w_hash w\<rparr> = w"
  by simp

lemmas port_updates = upd_port_def ip_reference_def

lemma type_not_0: "port_right_ok s name ref e \<Longrightarrow> type_of e \<noteq> 0"
  using port_right_okD(2) by fastforce

text \<open>The entry stays as it is.\<close>

lemma right_kept:
  assumes ok: "port_right_ok s name ref e" and "msgt_name \<noteq> MACH_MSG_TYPE_MOVE_SEND" "copyin_moved msgt_name e = 0"
    and "w' = copyin_receiver msgt_name (ie_object e) (upd_port (ie_object e) (copyin_port msgt_name e) (fst s))"
  shows "copied_in msgt_name name ref e s IP_NULL (w', snd s)"
  by (rule copied_in_stays [OF changed_refl [OF port_right_okD(1) [OF ok]], where g = "w_hash (fst s)"])
    (use assms type_not_0 [OF ok] in \<open>simp_all add: same_hash\<close>)

lemma copyin_make_send_accounts:
  assumes ok: "port_right_ok s name ref e"
  shows "if ie_bits e AND MACH_PORT_TYPE_RECEIVE \<noteq> 0
    then \<exists>s'. copyin_make_send e s = Some (KERN_SUCCESS, ie_object e, IP_NULL, s') \<and> taken_out s s' (ie_object e) 1 \<and>
      copied_in MACH_MSG_TYPE_MAKE_SEND name ref e s IP_NULL s'
    else copyin_make_send e s = Some (invalid_right s)"
    and "if ie_bits e AND MACH_PORT_TYPE_RECEIVE \<noteq> 0
    then \<exists>s'. copyin_make_send_once e s = Some (KERN_SUCCESS, ie_object e, IP_NULL, s') \<and> taken_out s s' (ie_object e) 0 \<and>
      copied_in MACH_MSG_TYPE_MAKE_SEND_ONCE name ref e s IP_NULL s'
    else copyin_make_send_once e s = Some (invalid_right s)"
proof -
  note e = port_right_okD(1) [OF ok] and k = right_kept [OF ok]
  let ?p = "ie_object e"
  define s1 where "s1 = on_world (\<lambda>w. ip_reference ?p
             (upd_port ?p (\<lambda>p. p\<lparr>ip_mscount := ip_mscount p + 1, ip_srights := ip_srights p + 1\<rparr>) w)) s"
  define s2 where "s2 = on_world (\<lambda>w. ip_reference ?p (upd_port ?p (\<lambda>p. p\<lparr>ip_sorights := ip_sorights p + 1\<rparr>) w)) s"
  have "counters s s1 ?p 1 1" "counters s s2 ?p 0 1" by (simp_all add: counters_def s1_def s2_def on_world_def)
  moreover have "changed (snd s) (snd s1) ref e" "changed (snd s) (snd s2) ref e"
    using changed_refl [OF e] by (simp_all add: s1_def s2_def on_world_def)
  ultimately have out: "taken_out s s1 ?p 1" "taken_out s s2 ?p 0" using e by (auto intro!: taken_outI)
  have "copied_in MACH_MSG_TYPE_MAKE_SEND name ref e s IP_NULL s1" unfolding s1_def on_world_def
    by (rule k) (simp_all add: copyin_spec_defs port_updates type_not_0 [OF ok])
  moreover have "copied_in MACH_MSG_TYPE_MAKE_SEND_ONCE name ref e s IP_NULL s2" unfolding s2_def on_world_def
    by (rule k) (simp_all add: copyin_spec_defs port_updates type_not_0 [OF ok])
  moreover note out
  ultimately show "if ie_bits e AND MACH_PORT_TYPE_RECEIVE \<noteq> 0
    then \<exists>s'. copyin_make_send e s = Some (KERN_SUCCESS, ie_object e, IP_NULL, s') \<and> taken_out s s' (ie_object e) 1 \<and>
      copied_in MACH_MSG_TYPE_MAKE_SEND name ref e s IP_NULL s'
    else copyin_make_send e s = Some (invalid_right s)"
    "if ie_bits e AND MACH_PORT_TYPE_RECEIVE \<noteq> 0
    then \<exists>s'. copyin_make_send_once e s = Some (KERN_SUCCESS, ie_object e, IP_NULL, s') \<and> taken_out s s' (ie_object e) 0 \<and>
      copied_in MACH_MSG_TYPE_MAKE_SEND_ONCE name ref e s IP_NULL s'
    else copyin_make_send_once e s = Some (invalid_right s)"
    by (simp_all add: copyin_make_send_def copyin_make_send_once_def s1_def s2_def Let_def)
qed

lemma copyin_copy_send_accounts:
  assumes ok: "port_right_ok s name ref e" and a: "ip_active (port_of s (ie_object e))"
  shows "if ie_bits e AND MACH_PORT_TYPE_SEND \<noteq> 0
    then \<exists>s'. copyin_copy_send name ref deadok e s = Some (KERN_SUCCESS, ie_object e, IP_NULL, s') \<and> taken_out s s' (ie_object e) 1 \<and>
      copied_in MACH_MSG_TYPE_COPY_SEND name ref e s IP_NULL s'
    else copyin_copy_send name ref deadok e s = Some (invalid_right s)"
proof -
  note e = port_right_okD(1) [OF ok]
  let ?p = "ie_object e"
  define s1 where "s1 = on_world (\<lambda>w. ip_reference ?p (upd_port ?p (\<lambda>p. p\<lparr>ip_srights := ip_srights p + 1\<rparr>) w)) s"
  have "counters s s1 ?p 1 1" by (simp add: counters_def s1_def on_world_def)
  moreover have "changed (snd s) (snd s1) ref e" using changed_refl [OF e] by (simp add: s1_def on_world_def)
  ultimately have "taken_out s s1 ?p 1" using e by (auto intro!: taken_outI)
  moreover have "copied_in MACH_MSG_TYPE_COPY_SEND name ref e s IP_NULL s1" unfolding s1_def on_world_def
    by (rule right_kept [OF ok]) (simp_all add: copyin_spec_defs port_updates type_not_0 [OF ok])
  moreover have "copyin_copy_send name ref deadok e s = Some (if ie_bits e AND MACH_PORT_TYPE_SEND \<noteq> 0
      then (KERN_SUCCESS, ?p, IP_NULL, s1) else invalid_right s)"
    using has_port_rights [OF ok] has_send [OF ok] check_active [OF a] type_values
    by (auto simp: copyin_copy_send_def Let_def s1_def)
  ultimately show ?thesis by simp
qed

lemma copyin_move_send_once_accounts:
  assumes ok: "port_right_ok s name ref e" and a: "ip_active (port_of s (ie_object e))"
  shows "if ie_bits e AND MACH_PORT_TYPE_SEND_ONCE \<noteq> 0
    then \<exists>so s'. copyin_move_send_once name ref deadok e s = Some (KERN_SUCCESS, ie_object e, so, s') \<and> taken_out s s' (ie_object e) 0 \<and>
      copied_in MACH_MSG_TYPE_MOVE_SEND_ONCE name ref e s so s'
    else copyin_move_send_once name ref deadok e s = Some (invalid_right s)"
proof (cases "ie_bits e AND MACH_PORT_TYPE_SEND_ONCE \<noteq> 0")
  case False
  then have "copyin_move_send_once name ref deadok e s = Some (invalid_right s)"
    using has_port_rights [OF ok] check_active [OF a] by (simp add: copyin_move_send_once_def Let_def)
  then show ?thesis using False by simp
next
  case True
  note e = port_right_okD(1) [OF ok] and r = port_right_okD(7) [OF ok]
  let ?p = "ie_object e"
  have t: "type_of e = MACH_PORT_TYPE_SEND_ONCE" using True has_send_once [OF ok] by simp
  obtain d x sp where c: "ipc_right_dncancel_macro ?p name ref s = Some (d, upd_port ?p (\<lambda>p. p\<lparr>ip_dnrequests := x\<rparr>) (fst s), sp)"
      "changed (snd s) sp ref (e\<lparr>ie_request := 0\<rparr>)" using dncancel_step [OF e r] by blast
  obtain i where i: "get_entry sp ref = Some (e\<lparr>ie_request := 0, ie_index := i\<rparr>)" using changed_get [OF c(2)] by auto
  let ?e = "e\<lparr>ie_request := 0, ie_index := i, ie_object := IO_NULL, ie_bits := ie_bits e AND NOT MACH_PORT_TYPE_SEND_ONCE\<rparr>"
  let ?s = "(upd_port ?p (\<lambda>p. p\<lparr>ip_dnrequests := x\<rparr>) (fst s), put_entry sp ref ?e)"
  have run: "copyin_move_send_once name ref deadok e s = Some (KERN_SUCCESS, ?p, d, ?s)"
    using True has_port_rights [OF ok] t check_active [OF a] c(1) i
    by (simp add: copyin_move_send_once_def Let_def upd_entry_def)
  have ch: "changed (snd s) (put_entry sp ref ?e) ref ?e"
    using changed_trans [OF c(2) changed_put [OF i, of ?e]] clear_bits(6) by simp
  then have "changed (snd s) (snd ?s) ref ?e" by simp
  moreover have "counters s ?s ?p 0 0" by (simp add: counters_def)
  moreover have "type_of ?e = 0" by (simp add: clear_bits t type_values)
  moreover note no_type [OF this]
  moreover have "ie_bits e AND MACH_PORT_TYPE_SEND = 0" using has_send [OF ok] t by auto
  ultimately have "taken_out s ?s ?p 0"
    using e has_port_rights(1) [OF ok] by (intro taken_outI [of s ?s ?p 0 0 ref ?e e]) auto
  moreover have "copied_in MACH_MSG_TYPE_MOVE_SEND_ONCE name ref e s d ?s"
    by (rule copied_in_gone [OF ch _ _ _ _ _ _ c(1), where g = "w_hash (fst s)"])
      (use clear_bits clear_urefs t type_values in \<open>simp_all add: copyin_spec_defs port_updates\<close>)
  ultimately show ?thesis using run True by auto
qed

text \<open>An assignment to an entry that has been changed before.\<close>

lemma upd_changed:
  assumes c: "changed space sp ref e" and f: "\<And>i. core (f (e\<lparr>ie_index := i\<rparr>)) = core (f e)"
    and m: "same_marks (ie_bits e) (ie_bits (f e))"
  shows "\<exists>sp'. upd_entry ref f (w, sp) = Some (w, sp') \<and> changed space sp' ref (f e)"
proof -
  obtain i where i: "get_entry sp ref = Some (e\<lparr>ie_index := i\<rparr>)" using changed_get [OF c] by blast
  let ?e = "f (e\<lparr>ie_index := i\<rparr>)"
  have "ie_bits ?e = ie_bits (f e)" using arg_cong [OF f [of i], of ie_bits] by simp
  then have "changed sp (put_entry sp ref ?e) ref ?e" using changed_put [OF i, of ?e] m by simp
  then have "changed sp (put_entry sp ref ?e) ref (f e)" using f [of i] by (simp add: changed_def)
  with changed_trans [OF c] i show ?thesis by (simp add: upd_entry_def)
qed

text \<open>The last user reference of a send right without the receive right: its request is cancelled, and it leaves the hash table.\<close>

lemma forget_send:
  assumes ok: "port_right_ok s name ref e" and t: "type_of e = MACH_PORT_TYPE_SEND"
  shows "\<exists>x s2 g sp. ipc_right_dncancel_macro (ie_object e) name ref s = Some (request_soright s (ie_object e) e, s2) \<and>
    fst s2 = upd_port (ie_object e) (\<lambda>p. p\<lparr>ip_dnrequests := x\<rparr>) (fst s) \<and>
    right_hash_delete (ie_object e) name ref s2 =
      Some ((upd_port (ie_object e) (\<lambda>p. p\<lparr>ip_dnrequests := x\<rparr>) (fst s))\<lparr>w_hash := g\<rparr>, sp) \<and>
    changed (snd s) sp ref (e\<lparr>ie_request := 0\<rparr>)"
proof -
  let ?p = "ie_object e"
  obtain x sp where c: "ipc_right_dncancel_macro ?p name ref s = Some (request_soright s ?p e, upd_port ?p (\<lambda>p. p\<lparr>ip_dnrequests := x\<rparr>) (fst s), sp)"
      "changed (snd s) sp ref (e\<lparr>ie_request := 0\<rparr>)" "hash_has sp ?p name ref"
    using dncancel_step [OF port_right_okD(1,7) [OF ok]] port_right_okD(5) [OF ok t] by blast
  obtain i where i: "get_entry sp ref = Some (e\<lparr>ie_request := 0, ie_index := i\<rparr>)" using changed_get [OF c(2)] by auto
  let ?s2 = "(upd_port ?p (\<lambda>p. p\<lparr>ip_dnrequests := x\<rparr>) (fst s), sp)"
  obtain g sp' where h: "right_hash_delete ?p name ref ?s2 = Some ((fst ?s2)\<lparr>w_hash := g\<rparr>, sp')" "same_cores sp sp'"
    using hash_delete_step [of ?s2 ?p name ref] c(3) by auto
  have "changed (snd s) sp' ref (e\<lparr>ie_request := 0, ie_index := i\<rparr>)"
    using changed_trans [OF c(2) same_cores_changed [OF h(2) i]] .
  then have "changed (snd s) sp' ref (e\<lparr>ie_request := 0\<rparr>)" by (simp add: changed_def)
  with c(1) h(1) show ?thesis by auto
qed

lemma urefs_minus:
  assumes "IE_BITS_UREFS bits \<noteq> 0"
  shows "IE_BITS_TYPE (bits - 1) = IE_BITS_TYPE bits" "same_marks bits (bits - 1)" "IE_BITS_UREFS (bits - 1) = IE_BITS_UREFS bits - 1"
    "IE_BITS_UREFS bits + - 1 \<le> MACH_PORT_UREFS_MAX"
proof -
  have "IE_BITS_UREFS bits \<le> MACH_PORT_UREFS_MAX" unfolding IE_BITS_UREFS_def
    by (simp add: ipc_defs word_and_le1)
  moreover have "IE_BITS_UREFS bits - 1 \<le> IE_BITS_UREFS bits"
    using assms by (simp add: word_le_nat_alt unat_minus_one)
  ultimately have le: "IE_BITS_UREFS bits + - 1 \<le> MACH_PORT_UREFS_MAX" by (simp add: order_trans)
  then show "IE_BITS_TYPE (bits - 1) = IE_BITS_TYPE bits" "same_marks bits (bits - 1)" "IE_BITS_UREFS (bits - 1) = IE_BITS_UREFS bits - 1"
    "IE_BITS_UREFS bits + - 1 \<le> MACH_PORT_UREFS_MAX"
    using IE_BITS_add [OF le] same_marks_add [OF le] le by simp_all
qed

lemma copyin_move_receive_accounts:
  assumes ok: "port_right_ok s name ref e"
  shows "if ie_bits e AND MACH_PORT_TYPE_RECEIVE \<noteq> 0
    then \<exists>so s'. copyin_move_receive name ref e s = Some (KERN_SUCCESS, ie_object e, so, s') \<and> taken_out s s' (ie_object e) 0 \<and>
      copied_in MACH_MSG_TYPE_MOVE_RECEIVE name ref e s so s'
    else copyin_move_receive name ref e s = Some (invalid_right s)"
proof (cases "ie_bits e AND MACH_PORT_TYPE_RECEIVE \<noteq> 0")
  case False
  then show ?thesis by (simp add: copyin_move_receive_def)
next
  case True
  note e = port_right_okD(1) [OF ok]
  let ?p = "ie_object e" and ?bits = "ie_bits e AND NOT MACH_PORT_TYPE_RECEIVE"
  let ?fin = "\<lambda>w. upd_port ?p (\<lambda>p. p\<lparr>ip_receiver_name := MACH_PORT_NULL, ip_data := IP_NULL\<rparr>) (ipc_port_clear_receiver ?p w)"
  have t: "type_of e = MACH_PORT_TYPE_RECEIVE \<or> type_of e = MACH_PORT_TYPE_SEND_RECEIVE" using True has_receive [OF ok] by simp
  show ?thesis
  proof (cases "ie_bits e AND MACH_PORT_TYPE_SEND \<noteq> 0")
    case send: True
    then have t: "type_of e = MACH_PORT_TYPE_SEND_RECEIVE" using t has_send [OF ok] by auto
    obtain g sp where h: "right_hash_insert ?p name ref s = Some ((fst s)\<lparr>w_hash := g\<rparr>, sp)" "same_cores (snd s) sp"
      using hash_insert_step [OF port_right_okD(6) [OF ok t]] by blast
    let ?w = "ip_reference ?p ((fst s)\<lparr>w_hash := g\<rparr>)" and ?e = "e\<lparr>ie_bits := ?bits\<rparr>"
    obtain sp' where u: "set_bits ref ?bits (?w, sp) = Some (?w, sp')" "changed (snd s) sp' ref ?e"
      using upd_changed [OF same_cores_changed [OF h(2) e], of "\<lambda>e. e\<lparr>ie_bits := ?bits\<rparr>" ?w] clear_bits(5) by auto
    have run: "copyin_move_receive name ref e s = Some (KERN_SUCCESS, ?p, IP_NULL, ?fin ?w, sp')"
      using True send h(1) u(1) by (simp add: copyin_move_receive_def Let_def on_world_def)
    have te: "type_of ?e = MACH_PORT_TYPE_SEND" by (simp add: clear_bits t type_values)
    then have "ie_bits ?e AND MACH_PORT_TYPE_SEND \<noteq> 0" "ie_bits ?e AND MACH_PORT_TYPE_PORT_RIGHTS \<noteq> 0"
      unfolding type_bits(1,6) [of "ie_bits ?e"] using type_values by auto
    moreover have "counters s (?fin ?w, sp') ?p 0 1" by (simp add: counters_def clear_receiver_counters)
    ultimately have "taken_out s (?fin ?w, sp') ?p 0"
      using e u(2) send has_port_rights(1) [OF ok] by (intro taken_outI [of s _ ?p 0 1 ref ?e e]) auto
    moreover have "copied_in MACH_MSG_TYPE_MOVE_RECEIVE name ref e s IP_NULL (?fin ?w, sp')"
      by (rule copied_in_stays [OF u(2), where g = g])
        (use te t in \<open>simp_all add: copyin_spec_defs port_updates clear_bits clear_urefs type_values\<close>)
    ultimately show ?thesis using run True by auto
  next
    case False
    then have t: "type_of e = MACH_PORT_TYPE_RECEIVE" using t has_send [OF ok] by auto
    obtain d x sp where c: "ipc_right_dncancel_macro ?p name ref s = Some (d, upd_port ?p (\<lambda>p. p\<lparr>ip_dnrequests := x\<rparr>) (fst s), sp)"
        "changed (snd s) sp ref (e\<lparr>ie_request := 0\<rparr>)" using dncancel_step [OF e port_right_okD(7) [OF ok]] by blast
    let ?w = "upd_port ?p (\<lambda>p. p\<lparr>ip_dnrequests := x\<rparr>) (fst s)"
    let ?e = "e\<lparr>ie_request := 0, ie_object := IO_NULL, ie_bits := ?bits\<rparr>"
    obtain sp1 where u1: "clear_object ref (?w, sp) = Some (?w, sp1)" "changed (snd s) sp1 ref (e\<lparr>ie_request := 0, ie_object := IO_NULL\<rparr>)"
      using upd_changed [OF c(2), of "\<lambda>e. e\<lparr>ie_object := IO_NULL\<rparr>" ?w] by auto
    obtain sp2 where u2: "set_bits ref ?bits (?w, sp1) = Some (?w, sp2)" "changed (snd s) sp2 ref ?e"
      using upd_changed [OF u1(2), of "\<lambda>e. e\<lparr>ie_bits := ?bits\<rparr>" ?w] clear_bits(5) by auto
    have run: "copyin_move_receive name ref e s = Some (KERN_SUCCESS, ?p, d, ?fin ?w, sp2)"
      using True False c(1) u1(1) u2(1) by (simp add: copyin_move_receive_def Let_def on_world_def)
    have te: "type_of ?e = 0" by (simp add: clear_bits t type_values)
    then have "taken_out s (?fin ?w, sp2) ?p 0"
      using e u2(2) False has_port_rights(1) [OF ok] no_type [of "ie_bits ?e"]
      by (intro taken_outI [of s _ ?p 0 0 ref ?e e]) (auto simp: counters_def clear_receiver_counters)
    moreover have "copied_in MACH_MSG_TYPE_MOVE_RECEIVE name ref e s d (?fin ?w, sp2)"
      by (rule copied_in_gone [OF u2(2) _ _ _ _ _ _ c(1), where g = "w_hash (fst s)"])
        (use te t in \<open>simp_all add: copyin_spec_defs port_updates clear_bits clear_urefs type_values\<close>)
    ultimately show ?thesis using run True by auto
  qed
qed

text \<open>The four ways in which the send right of an entry moves out.\<close>

lemma move_last_send_receive:
  assumes ok: "port_right_ok s name ref e" and t: "type_of e = MACH_PORT_TYPE_SEND_RECEIVE"
  shows "\<exists>s'. set_bits ref (ie_bits e AND NOT (IE_BITS_UREFS_MASK OR MACH_PORT_TYPE_SEND)) (on_world (ip_reference (ie_object e)) s) = Some s' \<and>
    taken_out s s' (ie_object e) 1 \<and> (IE_BITS_UREFS (ie_bits e) = 1 \<longrightarrow> copied_in MACH_MSG_TYPE_MOVE_SEND name ref e s IP_NULL s')"
proof -
  note e = port_right_okD(1) [OF ok]
  let ?p = "ie_object e" and ?bits = "ie_bits e AND NOT (IE_BITS_UREFS_MASK OR MACH_PORT_TYPE_SEND)"
  let ?w = "ip_reference ?p (fst s)" and ?e = "e\<lparr>ie_bits := ?bits\<rparr>"
  obtain sp where u: "set_bits ref ?bits (?w, snd s) = Some (?w, sp)" "changed (snd s) sp ref ?e"
    using upd_changed [OF changed_refl [OF e], of "\<lambda>e. e\<lparr>ie_bits := ?bits\<rparr>" ?w] clear_bits(4) by auto
  have te: "type_of ?e = MACH_PORT_TYPE_RECEIVE" using clear_bits(1) [of "ie_bits e"] by (simp add: t type_values)
  then have "ie_bits ?e AND MACH_PORT_TYPE_SEND = 0" "ie_bits ?e AND MACH_PORT_TYPE_PORT_RIGHTS \<noteq> 0"
    unfolding type_bits(1,6) [of "ie_bits ?e"] using type_values by auto
  then have "taken_out s (?w, sp) ?p 1"
    using e u(2) has_send [OF ok] t has_port_rights(1) [OF ok]
    by (intro taken_outI [of s _ ?p 0 1 ref ?e e]) (auto simp: counters_def)
  moreover have "copied_in MACH_MSG_TYPE_MOVE_SEND name ref e s IP_NULL (?w, sp)" if "IE_BITS_UREFS (ie_bits e) = 1"
    by (rule copied_in_stays [OF u(2), where g = "w_hash (fst s)"])
      (use te t that clear_bits(4) [of "ie_bits e"] clear_urefs(1) [of "ie_bits e"] in \<open>simp_all add: copyin_spec_defs port_updates clear_bits clear_urefs type_values\<close>)
  ultimately show ?thesis using u(1) by (simp add: on_world_def)
qed

lemma move_last_send:
  assumes ok: "port_right_ok s name ref e" and t: "type_of e = MACH_PORT_TYPE_SEND"
  shows "\<exists>d s2 s3 s4 s'. ipc_right_dncancel_macro (ie_object e) name ref s = Some (d, s2) \<and>
    right_hash_delete (ie_object e) name ref s2 = Some s3 \<and> clear_object ref s3 = Some s4 \<and>
    set_bits ref (ie_bits e AND NOT (IE_BITS_UREFS_MASK OR MACH_PORT_TYPE_SEND)) s4 = Some s' \<and> taken_out s s' (ie_object e) 1 \<and>
    (IE_BITS_UREFS (ie_bits e) = 1 \<longrightarrow> copied_in MACH_MSG_TYPE_MOVE_SEND name ref e s d s')"
proof -
  note e = port_right_okD(1) [OF ok]
  let ?p = "ie_object e" and ?bits = "ie_bits e AND NOT (IE_BITS_UREFS_MASK OR MACH_PORT_TYPE_SEND)"
  obtain d x s2 g sp where f: "ipc_right_dncancel_macro ?p name ref s = Some (d, s2)"
    "right_hash_delete ?p name ref s2 = Some ((upd_port ?p (\<lambda>p. p\<lparr>ip_dnrequests := x\<rparr>) (fst s))\<lparr>w_hash := g\<rparr>, sp)"
    "changed (snd s) sp ref (e\<lparr>ie_request := 0\<rparr>)" "fst s2 = upd_port ?p (\<lambda>p. p\<lparr>ip_dnrequests := x\<rparr>) (fst s)"
    using forget_send [OF ok t] by blast
  have cancel: "ipc_right_dncancel_macro ?p name ref s = Some (d, fst s2, snd s2)" using f(1) by simp
  let ?w = "(upd_port ?p (\<lambda>p. p\<lparr>ip_dnrequests := x\<rparr>) (fst s))\<lparr>w_hash := g\<rparr>"
  let ?e = "e\<lparr>ie_request := 0, ie_object := IO_NULL, ie_bits := ?bits\<rparr>"
  obtain sp1 where u1: "clear_object ref (?w, sp) = Some (?w, sp1)" "changed (snd s) sp1 ref (e\<lparr>ie_request := 0, ie_object := IO_NULL\<rparr>)"
    using upd_changed [OF f(3), of "\<lambda>e. e\<lparr>ie_object := IO_NULL\<rparr>" ?w] by auto
  obtain sp2 where u2: "set_bits ref ?bits (?w, sp1) = Some (?w, sp2)" "changed (snd s) sp2 ref ?e"
    using upd_changed [OF u1(2), of "\<lambda>e. e\<lparr>ie_bits := ?bits\<rparr>" ?w] clear_bits(4) by auto
  have te: "type_of ?e = 0" using clear_bits(1) [of "ie_bits e"] by (simp add: t type_values)
  then have "taken_out s (?w, sp2) ?p 1"
    using e u2(2) has_send [OF ok] t has_port_rights(1) [OF ok] no_type [of "ie_bits ?e"]
    by (intro taken_outI [of s _ ?p 0 0 ref ?e e]) (auto simp: counters_def)
  moreover have "copied_in MACH_MSG_TYPE_MOVE_SEND name ref e s d (?w, sp2)" if "IE_BITS_UREFS (ie_bits e) = 1"
    by (rule copied_in_gone [OF u2(2) _ _ _ _ _ _ cancel, where g = g])
      (use te t that f(4) clear_bits(4) [of "ie_bits e"] clear_urefs(1) [of "ie_bits e"] in \<open>simp_all add: copyin_spec_defs port_updates clear_bits clear_urefs type_values\<close>)
  ultimately show ?thesis using f(1,2) u1(1) u2(1) by blast
qed

lemma copyin_move_send_accounts:
  assumes ok: "port_right_ok s name ref e" and a: "ip_active (port_of s (ie_object e))"
  shows "if ie_bits e AND MACH_PORT_TYPE_SEND \<noteq> 0
    then \<exists>so s'. copyin_move_send name ref deadok e s = Some (KERN_SUCCESS, ie_object e, so, s') \<and> taken_out s s' (ie_object e) 1 \<and>
      copied_in MACH_MSG_TYPE_MOVE_SEND name ref e s so s'
    else copyin_move_send name ref deadok e s = Some (invalid_right s)"
proof (cases "ie_bits e AND MACH_PORT_TYPE_SEND \<noteq> 0")
  case False
  then have "copyin_move_send name ref deadok e s = Some (invalid_right s)"
    using has_port_rights [OF ok] check_active [OF a] by (simp add: copyin_move_send_def Let_def)
  then show ?thesis using False by simp
next
  case True
  note e = port_right_okD(1) [OF ok] and P = has_port_rights [OF ok]
  let ?p = "ie_object e" and ?u = "IE_BITS_UREFS (ie_bits e)"
  have t: "type_of e = MACH_PORT_TYPE_SEND \<or> type_of e = MACH_PORT_TYPE_SEND_RECEIVE" using True has_send [OF ok] by simp
  then have pre: "ie_bits e AND MACH_PORT_TYPE_SEND_RIGHTS \<noteq> 0" "?u \<noteq> 0" using P(3) port_right_okD(4) [OF ok] by auto
  note start = copyin_move_send_def [of name ref deadok e s] Let_def
  consider (last) "?u = 1" "type_of e = MACH_PORT_TYPE_SEND" | (last_r) "?u = 1" "type_of e = MACH_PORT_TYPE_SEND_RECEIVE"
    | (more) "?u \<noteq> 1" using t by blast
  then have "\<exists>so s'. copyin_move_send name ref deadok e s = Some (KERN_SUCCESS, ?p, so, s') \<and> taken_out s s' ?p 1 \<and>
      copied_in MACH_MSG_TYPE_MOVE_SEND name ref e s so s'"
  proof cases
    case last
    obtain d s2 s3 s4 s' where m: "ipc_right_dncancel_macro ?p name ref s = Some (d, s2)" "right_hash_delete ?p name ref s2 = Some s3"
      "clear_object ref s3 = Some s4" "set_bits ref (ie_bits e AND NOT (IE_BITS_UREFS_MASK OR MACH_PORT_TYPE_SEND)) s4 = Some s'"
      "taken_out s s' ?p 1" "copied_in MACH_MSG_TYPE_MOVE_SEND name ref e s d s'" using move_last_send [OF ok last(2)] last(1) by blast
    moreover have "ie_bits e AND MACH_PORT_TYPE_RECEIVE = 0" using has_receive [OF ok] last(2) by auto
    ultimately have "copyin_move_send name ref deadok e s = Some (KERN_SUCCESS, ?p, d, s')"
      using True P(2) pre(1) check_active [OF a] last(1) by (simp add: start)
    then show ?thesis using m(5,6) by blast
  next
    case last_r
    obtain s' where m: "set_bits ref (ie_bits e AND NOT (IE_BITS_UREFS_MASK OR MACH_PORT_TYPE_SEND)) (on_world (ip_reference ?p) s) = Some s'"
      "taken_out s s' ?p 1" "copied_in MACH_MSG_TYPE_MOVE_SEND name ref e s IP_NULL s'"
      using move_last_send_receive [OF ok last_r(2)] last_r(1) by blast
    moreover have "ie_bits e AND MACH_PORT_TYPE_RECEIVE \<noteq> 0" using has_receive [OF ok] last_r(2) by auto
    ultimately have "copyin_move_send name ref deadok e s = Some (KERN_SUCCESS, ?p, IP_NULL, s')"
      using True P(2) pre(1) check_active [OF a] last_r(1) by (simp add: start)
    then show ?thesis using m(2,3) by blast
  next
    case more
    let ?w = "ip_reference ?p (upd_port ?p (\<lambda>p. p\<lparr>ip_srights := ip_srights p + 1\<rparr>) (fst s))" and ?e = "e\<lparr>ie_bits := ie_bits e - 1\<rparr>"
    obtain sp where u: "set_bits ref (ie_bits e - 1) (?w, snd s) = Some (?w, sp)" "changed (snd s) sp ref ?e"
      using upd_changed [OF changed_refl [OF e], of "\<lambda>e'. e'\<lparr>ie_bits := ie_bits e - 1\<rparr>" ?w] urefs_minus(2) [OF pre(2)] by auto
    have te: "type_of ?e = type_of e" using urefs_minus(1) [OF pre(2)] by simp
    then have "ie_bits ?e AND MACH_PORT_TYPE_SEND = ie_bits e AND MACH_PORT_TYPE_SEND"
      "ie_bits ?e AND MACH_PORT_TYPE_PORT_RIGHTS = ie_bits e AND MACH_PORT_TYPE_PORT_RIGHTS"
      using type_bits(1,6) by metis+
    then have "taken_out s (?w, sp) ?p 1"
      using e u(2) True P(1) by (intro taken_outI [of s _ ?p 1 1 ref ?e e]) (auto simp: counters_def)
    moreover have "copied_in MACH_MSG_TYPE_MOVE_SEND name ref e s IP_NULL (?w, sp)"
      by (rule copied_in_stays [OF u(2), where g = "w_hash (fst s)"])
        (use te type_not_0 [OF ok] urefs_minus [OF pre(2)] more in \<open>simp_all add: copyin_spec_defs port_updates\<close>)
    moreover have "copyin_move_send name ref deadok e s = Some (KERN_SUCCESS, ?p, IP_NULL, ?w, sp)"
      using True P(2) pre(1) check_active [OF a] more u(1) by (simp add: start on_world_def)
    ultimately show ?thesis by blast
  qed
  then show ?thesis using True by simp
qed

lemma copyin_check_live:
  assumes ok: "port_right_ok s name ref e" and active: "ip_active (port_of s (ie_object e))"
    and msgt: "msgt_name \<in> copyin_dispositions"
  shows "ipc_right_copyin_check ref msgt_name s = Some (ie_bits e AND copyin_type msgt_name \<noteq> 0)"
proof -
  note e = port_right_okD(1) [OF ok] and P = has_port_rights [OF ok]
  show ?thesis
  proof (cases "ie_bits e AND MACH_PORT_TYPE_SEND_RIGHTS = 0")
    case True
    then have "type_of e = MACH_PORT_TYPE_RECEIVE" using P(3) by blast
    then have "ie_bits e AND MACH_PORT_TYPE_SEND = 0" "ie_bits e AND MACH_PORT_TYPE_SEND_ONCE = 0"
      using has_send [OF ok] has_send_once [OF ok] by auto
    then show ?thesis using True msgt e P(2) by (auto simp: ipc_right_copyin_check_def copyin_type_def Let_def)
  next
    case False
    then show ?thesis using msgt e P(2) active by (auto simp: ipc_right_copyin_check_def copyin_type_def Let_def)
  qed
qed

lemma copyin_live_accounts:
  assumes ok: "port_right_ok s name ref e" and active: "ip_active (port_of s (ie_object e))"
    and msgt: "msgt_name \<in> copyin_dispositions"
  shows "if ie_bits e AND copyin_type msgt_name \<noteq> 0
    then \<exists>soright s'. ipc_right_copyin name ref msgt_name deadok s = Some (KERN_SUCCESS, ie_object e, soright, s') \<and>
      copied_in msgt_name name ref e s soright s' \<and> taken_out s s' (ie_object e) (copyin_sends msgt_name)
    else ipc_right_copyin name ref msgt_name deadok s = Some (KERN_INVALID_RIGHT, IO_NULL, IP_NULL, s)"
proof -
  note e = port_right_okD(1) [OF ok]
  have run: "ipc_right_copyin name ref msgt_name deadok s =
      (if msgt_name = MACH_MSG_TYPE_MAKE_SEND then copyin_make_send e s
       else if msgt_name = MACH_MSG_TYPE_MAKE_SEND_ONCE then copyin_make_send_once e s
       else if msgt_name = MACH_MSG_TYPE_MOVE_RECEIVE then copyin_move_receive name ref e s
       else if msgt_name = MACH_MSG_TYPE_COPY_SEND then copyin_copy_send name ref deadok e s
       else if msgt_name = MACH_MSG_TYPE_MOVE_SEND then copyin_move_send name ref deadok e s
       else if msgt_name = MACH_MSG_TYPE_MOVE_SEND_ONCE then copyin_move_send_once name ref deadok e s else None)"
    using e by (simp add: ipc_right_copyin_def)
  consider "msgt_name = MACH_MSG_TYPE_MAKE_SEND" | "msgt_name = MACH_MSG_TYPE_MAKE_SEND_ONCE" | "msgt_name = MACH_MSG_TYPE_MOVE_RECEIVE" | "msgt_name = MACH_MSG_TYPE_COPY_SEND" | "msgt_name = MACH_MSG_TYPE_MOVE_SEND" | "msgt_name = MACH_MSG_TYPE_MOVE_SEND_ONCE" using msgt by blast
  then show ?thesis
  proof cases
    case 1
    then show ?thesis using copyin_make_send_accounts(1) [OF ok] run
      by (cases "ie_bits e AND copyin_type msgt_name = 0") (auto simp: copyin_type_def copyin_sends_def)
  next
    case 2
    then show ?thesis using copyin_make_send_accounts(2) [OF ok] run
      by (cases "ie_bits e AND copyin_type msgt_name = 0") (auto simp: copyin_type_def copyin_sends_def)
  next
    case 3
    then show ?thesis using copyin_move_receive_accounts [OF ok] run
      by (cases "ie_bits e AND copyin_type msgt_name = 0") (auto simp: copyin_type_def copyin_sends_def)
  next
    case 4
    then show ?thesis using copyin_copy_send_accounts [OF ok active, of deadok] run
      by (cases "ie_bits e AND copyin_type msgt_name = 0") (auto simp: copyin_type_def copyin_sends_def)
  next
    case 5
    then show ?thesis using copyin_move_send_accounts [OF ok active, of deadok] run
      by (cases "ie_bits e AND copyin_type msgt_name = 0") (auto simp: copyin_type_def copyin_sends_def)
  next
    case 6
    then show ?thesis using copyin_move_send_once_accounts [OF ok active, of deadok] run
      by (cases "ie_bits e AND copyin_type msgt_name = 0") (auto simp: copyin_type_def copyin_sends_def)
  qed
qed

text \<open>
  What a copyin of a send right or a send-once right to a dead port does: the entry becomes a dead name,
  with one more user reference for its dead-name request, and gives its reference to the port up. A
  copyin that moves takes one user reference of the dead name.
\<close>

definition copied_dead :: "bool \<Rightarrow> ipc_entry_ref \<Rightarrow> ipc_entry \<Rightarrow> right_state \<Rightarrow> right_state \<Rightarrow> bool" where
  "copied_dead moves ref e s s' \<longleftrightarrow> (\<exists>e' g. let u = IE_BITS_UREFS (ie_bits e) + (if ie_request e \<noteq> 0 then 1 else 0) in
     changed (snd s) (snd s') ref e' \<and> ie_object e' = IO_NULL \<and> ie_request e' = 0 \<and>
     type_of e' = (if moves \<and> u = 1 then 0 else MACH_PORT_TYPE_DEAD_NAME) \<and>
     (type_of e' \<noteq> 0 \<longrightarrow> IE_BITS_UREFS (ie_bits e') = u - (if moves then 1 else 0)) \<and>
     fst s' = ipc_port_release (ie_object e) ((fst s)\<lparr>w_hash := g\<rparr>))"

lemma clear_dead_name:
  "IE_BITS_TYPE (bits AND NOT MACH_PORT_TYPE_DEAD_NAME) = IE_BITS_TYPE bits AND NOT MACH_PORT_TYPE_DEAD_NAME"
  "same_marks bits (bits AND NOT MACH_PORT_TYPE_DEAD_NAME)"
  by (simp_all add: IE_BITS_TYPE_def IE_BITS_GEN_def same_marks_def and.assoc ipc_defs)

lemma copyin_dead_accounts:
  assumes ok: "port_right_ok s name ref e" and dead: "\<not> ip_active (port_of s (ie_object e))"
    and t: "type_of e = MACH_PORT_TYPE_SEND \<or> type_of e = MACH_PORT_TYPE_SEND_ONCE" and u: "IE_BITS_UREFS (ie_bits e) \<noteq> 0"
    and m: "msgt_name \<in> {MACH_MSG_TYPE_COPY_SEND, MACH_MSG_TYPE_MOVE_SEND, MACH_MSG_TYPE_MOVE_SEND_ONCE}"
  shows "\<exists>s'. ipc_right_copyin name ref msgt_name deadok s =
      Some (if deadok then (KERN_SUCCESS, IO_DEAD, IP_NULL, s') else (KERN_INVALID_RIGHT, IO_NULL, IP_NULL, s')) \<and>
    copied_dead (deadok \<and> msgt_name \<noteq> MACH_MSG_TYPE_COPY_SEND) ref e s s'"
proof -
  note e = port_right_okD(1) [OF ok] and P = has_port_rights [OF ok]
  note D = dead_entry_bits [OF port_right_okD(3) [OF ok]]
  have "ie_bits e AND MACH_PORT_TYPE_SEND \<noteq> 0 \<longrightarrow> hash_has (snd s) (ie_object e) name ref"
    using has_send [OF ok] t port_right_okD(5) [OF ok] by auto
  then obtain g sp where c: "ipc_right_check (ie_object e) name ref s = Some (True, ipc_port_release (ie_object e) ((fst s)\<lparr>w_hash := g\<rparr>), sp)"
    "changed (snd s) sp ref (dead_entry e)" using check_step [OF e dead _ D(1)] by blast
  let ?w = "ipc_port_release (ie_object e) ((fst s)\<lparr>w_hash := g\<rparr>)"
  obtain i where i: "get_entry sp ref = Some ((dead_entry e)\<lparr>ie_index := i\<rparr>)" using changed_get [OF c(2)] by blast
  have rights: "ie_bits e AND MACH_PORT_TYPE_SEND_RIGHTS \<noteq> 0" "ie_bits e AND MACH_PORT_TYPE_DEAD_NAME = 0" using P(2,3) t by auto
  let ?bits = "if IE_BITS_UREFS (ie_bits (dead_entry e)) = 1 then ie_bits (dead_entry e) AND NOT MACH_PORT_TYPE_DEAD_NAME
    else ie_bits (dead_entry e) - 1"
  have run: "ipc_right_copyin name ref msgt_name deadok s =
      (if msgt_name = MACH_MSG_TYPE_COPY_SEND then copyin_copy_dead deadok (?w, sp) else copyin_move_dead ref deadok (?w, sp))"
    using m e rights c(1)
    by (auto simp: ipc_right_copyin_def copyin_copy_send_def copyin_move_send_def copyin_move_send_once_def Let_def)
  have u': "IE_BITS_UREFS (ie_bits (dead_entry e)) \<noteq> 0"
  proof -
    have "IE_BITS_UREFS (ie_bits e) + 1 \<noteq> 0"
      by (rule word_Suc_ne_0) (use port_right_okD(3) [OF ok] in \<open>auto simp: MACH_PORT_UREFS_MAX_def\<close>)
    then show ?thesis using u D(3) by simp
  qed
  have obj: "ie_object (dead_entry e) = IO_NULL" "ie_request (dead_entry e) = 0" by (simp_all add: dead_entry_def)
  show ?thesis
  proof (cases "deadok \<and> msgt_name \<noteq> MACH_MSG_TYPE_COPY_SEND")
    case False
    have "copied_dead False ref e s (?w, sp)" unfolding copied_dead_def Let_def
      by (rule exI [of _ "dead_entry e"], rule exI [of _ g]) (use c(2) D obj in simp)
    moreover have "ipc_right_copyin name ref msgt_name deadok s =
      Some (if deadok then (KERN_SUCCESS, IO_DEAD, IP_NULL, ?w, sp) else (KERN_INVALID_RIGHT, IO_NULL, IP_NULL, ?w, sp))"
      using False unfolding run by (simp add: copyin_copy_dead_def copyin_move_dead_def)
    ultimately show ?thesis using False by auto
  next
    case True
    have marks: "same_marks (ie_bits (dead_entry e)) ?bits" using clear_dead_name(2) urefs_minus(2) [OF u'] by simp
    obtain sp' where b: "set_bits ref ?bits (?w, sp) = Some (?w, sp')" "changed (snd s) sp' ref ((dead_entry e)\<lparr>ie_bits := ?bits\<rparr>)"
      using upd_changed [OF c(2), of "\<lambda>e. e\<lparr>ie_bits := ?bits\<rparr>" ?w] marks by auto
    have "copied_dead True ref e s (?w, sp')" unfolding copied_dead_def Let_def
      by (rule exI [of _ "(dead_entry e)\<lparr>ie_bits := ?bits\<rparr>"], rule exI [of _ g])
        (use b(2) D obj urefs_minus [OF u'] clear_dead_name(1) in \<open>simp add: type_values\<close>)
    moreover have "ipc_right_copyin name ref msgt_name deadok s = Some (KERN_SUCCESS, IO_DEAD, IP_NULL, ?w, sp')"
      using True i b(1) unfolding run by (simp add: copyin_move_dead_def Let_def split: if_splits)
    ultimately show ?thesis using True by auto
  qed
qed

text \<open>
  C1: A copyin of a right to a port ends for every disposition.
  If the port is alive, it succeeds exactly when the entry has the right that the disposition asks for,
  and is then the predicted success of the check made before; otherwise it is refused with
  KERN_INVALID_RIGHT and nothing changes. What it does is exact: the type and the user references of
  the entry, where moving a send right takes one user reference and the right only with the last
  one; its object and its dead-name request, which is cancelled exactly when no right is left, with
  the send-once right of the request as a result; the make-send count, send rights, send-once rights and
  references of the port, and no other change but the one of the receiver when the receive right
  moves. So the port's send rights and references beyond those of the entries of the space grow by exactly
  the right that the caller gets, and those of every other port stay as they are.
  If the port of a send or send-once right is dead, the check predicts success for the dispositions of such
  rights, but the copyin succeeds, with a dead right, only if the caller allows it, and is refused
  with KERN_INVALID_RIGHT otherwise; in both cases the entry becomes a dead name, of which a successful
  move takes a user reference.
\<close>

theorem ipc_right_copyin_accounts:
  assumes ok: "port_right_ok s name ref e" and msgt: "msgt_name \<in> copyin_dispositions"
  shows "let port = ie_object e; has = ie_bits e AND copyin_type msgt_name \<noteq> 0 in
    (ip_active (port_of s port) \<longrightarrow> ipc_right_copyin_check ref msgt_name s = Some has \<and>
     (if has then \<exists>soright s'. ipc_right_copyin name ref msgt_name deadok s = Some (KERN_SUCCESS, port, soright, s') \<and>
        copied_in msgt_name name ref e s soright s' \<and> taken_out s s' port (copyin_sends msgt_name)
      else ipc_right_copyin name ref msgt_name deadok s = Some (KERN_INVALID_RIGHT, IO_NULL, IP_NULL, s))) \<and>
    (\<not> ip_active (port_of s port) \<and> (type_of e = MACH_PORT_TYPE_SEND \<or> type_of e = MACH_PORT_TYPE_SEND_ONCE) \<and>
     IE_BITS_UREFS (ie_bits e) \<noteq> 0 \<and> copyin_type msgt_name \<noteq> MACH_PORT_TYPE_RECEIVE \<longrightarrow>
     ipc_right_copyin_check ref msgt_name s = Some True \<and>
     (\<exists>s'. ipc_right_copyin name ref msgt_name deadok s =
        Some (if deadok then (KERN_SUCCESS, IO_DEAD, IP_NULL, s') else (KERN_INVALID_RIGHT, IO_NULL, IP_NULL, s')) \<and>
        copied_dead (deadok \<and> msgt_name \<noteq> MACH_MSG_TYPE_COPY_SEND) ref e s s'))"
proof -
  note P = has_port_rights [OF ok]
  note e = port_right_okD(1) [OF ok]
  have A: "ipc_right_copyin_check ref msgt_name s = Some (ie_bits e AND copyin_type msgt_name \<noteq> 0) \<and>
     (if ie_bits e AND copyin_type msgt_name \<noteq> 0
      then \<exists>soright s'. ipc_right_copyin name ref msgt_name deadok s = Some (KERN_SUCCESS, ie_object e, soright, s') \<and>
        copied_in msgt_name name ref e s soright s' \<and> taken_out s s' (ie_object e) (copyin_sends msgt_name)
      else ipc_right_copyin name ref msgt_name deadok s = Some (KERN_INVALID_RIGHT, IO_NULL, IP_NULL, s))"
    if "ip_active (port_of s (ie_object e))"
    using copyin_check_live [OF ok that msgt] copyin_live_accounts [OF ok that msgt] by blast
  have B: "ipc_right_copyin_check ref msgt_name s = Some True"
      "msgt_name \<in> {MACH_MSG_TYPE_COPY_SEND, MACH_MSG_TYPE_MOVE_SEND, MACH_MSG_TYPE_MOVE_SEND_ONCE}"
    if "\<not> ip_active (port_of s (ie_object e))" "type_of e = MACH_PORT_TYPE_SEND \<or> type_of e = MACH_PORT_TYPE_SEND_ONCE"
      "copyin_type msgt_name \<noteq> MACH_PORT_TYPE_RECEIVE"
  proof -
    have "ie_bits e AND MACH_PORT_TYPE_SEND_RIGHTS \<noteq> 0" using P(3) that(2) by auto
    then show "ipc_right_copyin_check ref msgt_name s = Some True"
        "msgt_name \<in> {MACH_MSG_TYPE_COPY_SEND, MACH_MSG_TYPE_MOVE_SEND, MACH_MSG_TYPE_MOVE_SEND_ONCE}"
      using that e msgt P(2) by (auto simp: ipc_right_copyin_check_def copyin_type_def Let_def split: if_splits)
  qed
  show ?thesis unfolding Let_def using A B copyin_dead_accounts [OF ok, of msgt_name deadok] by blast
qed

section \<open>Copyout\<close>

text \<open>The reverse: a right, of \<open>n\<close> send rights and with its reference, has become part of an entry.\<close>

abbreviation put_in :: "right_state \<Rightarrow> right_state \<Rightarrow> ipc_port_t \<Rightarrow> natural_t \<Rightarrow> bool" where
  "put_in s s' port n \<equiv> taken_out s' s port n"

lemma put_inI:
  assumes "counters s s' port ds dr" "changed (snd s) (snd s') ref e'"
    and "get_entry (snd s) ref = Some e" "ie_object e = port" "ie_object e' = port"
    and "ds + n + (if sends port e then 1 else 0) = (if sends port e' then 1 else 0)"
    and "dr + 1 + (if holds port e then 1 else 0) = (if holds port e' then 1 else 0)"
  shows "put_in s s' port n"
proof -
  have "ie_object e' = port \<or> ie_bits e' AND MACH_PORT_TYPE_PORT_RIGHTS = 0" using assms(5) by simp
  note o = outer_counters [OF assms(1-4) this]
  have "ds + (if sends port e then 1 else 0) - (if sends port e' then 1 else 0) = - n"
    unfolding assms(6) [symmetric] by simp
  moreover have "dr + (if holds port e then 1 else 0) - (if holds port e' then 1 else 0) = - 1"
    unfolding assms(7) [symmetric] by simp
  ultimately show ?thesis unfolding taken_out_def o by auto
qed

text \<open>An entry into which a right can go: a new one, or the one for the port that is there.\<close>

definition copyout_entry_ok :: "right_state \<Rightarrow> mach_port_t \<Rightarrow> ipc_entry_ref \<Rightarrow> ipc_entry \<Rightarrow> bool" where
  "copyout_entry_ok s name ref e \<longleftrightarrow> (let t = type_of e; u = IE_BITS_UREFS (ie_bits e) in
     get_entry (snd s) ref = Some e \<and> u < MACH_PORT_UREFS_MAX \<and>
     (t = 0 \<and> u = 0 \<and> hash_free (snd s) (ie_object e) name ref \<or>
      t = MACH_PORT_TYPE_RECEIVE \<and> u = 0 \<or> t = MACH_PORT_TYPE_SEND \<and> hash_has (snd s) (ie_object e) name ref \<or>
      t = MACH_PORT_TYPE_SEND_RECEIVE))"

lemma send_bits:
  assumes "IE_BITS_UREFS bits + 1 \<le> MACH_PORT_UREFS_MAX"
  shows "IE_BITS_TYPE ((bits OR MACH_PORT_TYPE_SEND) + 1) = IE_BITS_TYPE bits OR MACH_PORT_TYPE_SEND"
    "IE_BITS_UREFS ((bits OR MACH_PORT_TYPE_SEND) + 1) = IE_BITS_UREFS bits + 1"
    "same_marks bits ((bits OR MACH_PORT_TYPE_SEND) + 1)"
proof -
  have o: "IE_BITS_UREFS (bits OR MACH_PORT_TYPE_SEND) = IE_BITS_UREFS bits"
    "IE_BITS_TYPE (bits OR MACH_PORT_TYPE_SEND) = IE_BITS_TYPE bits OR MACH_PORT_TYPE_SEND"
    "same_marks bits (bits OR MACH_PORT_TYPE_SEND)"
    by (simp_all add: IE_BITS_UREFS_def IE_BITS_TYPE_def IE_BITS_GEN_def same_marks_def bit.conj_disj_distrib2 ipc_defs)
  have le: "IE_BITS_UREFS (bits OR MACH_PORT_TYPE_SEND) + 1 \<le> MACH_PORT_UREFS_MAX" using assms o(1) by simp
  show "IE_BITS_TYPE ((bits OR MACH_PORT_TYPE_SEND) + 1) = IE_BITS_TYPE bits OR MACH_PORT_TYPE_SEND"
    using IE_BITS_add(2) [OF le] o(2) by simp
  show "IE_BITS_UREFS ((bits OR MACH_PORT_TYPE_SEND) + 1) = IE_BITS_UREFS bits + 1"
    using IE_BITS_add(1) [OF le] o(1) by simp
  show "same_marks bits ((bits OR MACH_PORT_TYPE_SEND) + 1)"
    using o(3) same_marks_add [OF le] by (rule same_marks_trans)
qed

lemma or_types:
  "MACH_PORT_TYPE_RECEIVE OR MACH_PORT_TYPE_SEND = MACH_PORT_TYPE_SEND_RECEIVE"
  "MACH_PORT_TYPE_SEND_RECEIVE OR MACH_PORT_TYPE_SEND = MACH_PORT_TYPE_SEND_RECEIVE"
  "MACH_PORT_TYPE_SEND OR MACH_PORT_TYPE_RECEIVE = MACH_PORT_TYPE_SEND_RECEIVE"
  by (simp_all add: ipc_defs)

lemma copyout_entry_okD:
  assumes "copyout_entry_ok s name ref e"
  shows "get_entry (snd s) ref = Some e" "IE_BITS_UREFS (ie_bits e) + 1 \<le> MACH_PORT_UREFS_MAX"
    "type_of e = 0 \<or> type_of e = MACH_PORT_TYPE_RECEIVE \<or> type_of e = MACH_PORT_TYPE_SEND \<or> type_of e = MACH_PORT_TYPE_SEND_RECEIVE"
    "type_of e = 0 \<Longrightarrow> hash_free (snd s) (ie_object e) name ref"
    "type_of e = MACH_PORT_TYPE_SEND \<Longrightarrow> hash_has (snd s) (ie_object e) name ref"
    "type_of e = 0 \<or> type_of e = MACH_PORT_TYPE_RECEIVE \<Longrightarrow> IE_BITS_UREFS (ie_bits e) = 0"
  using assms inc_le [of "IE_BITS_UREFS (ie_bits e)" MACH_PORT_UREFS_MAX]
  unfolding copyout_entry_ok_def Let_def by auto

text \<open>Which rights the entry counts for, before and after it gets a send right.\<close>

lemma copyout_rights:
  assumes ok: "copyout_entry_ok s name ref e"
  shows "ie_bits e AND MACH_PORT_TYPE_SEND \<noteq> 0 \<longleftrightarrow> type_of e = MACH_PORT_TYPE_SEND \<or> type_of e = MACH_PORT_TYPE_SEND_RECEIVE"
    "ie_bits e AND MACH_PORT_TYPE_RECEIVE \<noteq> 0 \<longleftrightarrow> type_of e = MACH_PORT_TYPE_RECEIVE \<or> type_of e = MACH_PORT_TYPE_SEND_RECEIVE"
    "ie_bits e AND MACH_PORT_TYPE_PORT_RIGHTS \<noteq> 0 \<longleftrightarrow> type_of e \<noteq> 0"
    "((ie_bits e OR MACH_PORT_TYPE_SEND) + 1) AND MACH_PORT_TYPE_SEND \<noteq> 0"
    "((ie_bits e OR MACH_PORT_TYPE_SEND) + 1) AND MACH_PORT_TYPE_PORT_RIGHTS \<noteq> 0"
proof -
  note t = copyout_entry_okD(3) [OF ok] and b = send_bits(1) [OF copyout_entry_okD(2) [OF ok]]
  show "ie_bits e AND MACH_PORT_TYPE_SEND \<noteq> 0 \<longleftrightarrow> type_of e = MACH_PORT_TYPE_SEND \<or> type_of e = MACH_PORT_TYPE_SEND_RECEIVE"
    "ie_bits e AND MACH_PORT_TYPE_RECEIVE \<noteq> 0 \<longleftrightarrow> type_of e = MACH_PORT_TYPE_RECEIVE \<or> type_of e = MACH_PORT_TYPE_SEND_RECEIVE"
    "ie_bits e AND MACH_PORT_TYPE_PORT_RIGHTS \<noteq> 0 \<longleftrightarrow> type_of e \<noteq> 0"
    unfolding type_bits(1,2,6) [of "ie_bits e"] using t type_values by auto
  have "type_of e OR MACH_PORT_TYPE_SEND = MACH_PORT_TYPE_SEND \<or> type_of e OR MACH_PORT_TYPE_SEND = MACH_PORT_TYPE_SEND_RECEIVE"
    using t or_types by auto
  then show "((ie_bits e OR MACH_PORT_TYPE_SEND) + 1) AND MACH_PORT_TYPE_SEND \<noteq> 0"
    "((ie_bits e OR MACH_PORT_TYPE_SEND) + 1) AND MACH_PORT_TYPE_PORT_RIGHTS \<noteq> 0"
    unfolding type_bits(1,6) [of "(ie_bits e OR MACH_PORT_TYPE_SEND) + 1"] b using type_values by auto
qed

lemma copyout_send_enters:
  assumes ok: "copyout_entry_ok s name ref e"
    and nf: "\<not> (ie_bits e AND MACH_PORT_TYPE_SEND \<noteq> 0 \<and> IE_BITS_UREFS (ie_bits e) + 1 = MACH_PORT_UREFS_MAX)"
  shows "\<exists>s'. copyout_send name ref overflow (ie_bits e) (ie_object e) s = Some (KERN_SUCCESS, s') \<and> put_in s s' (ie_object e) 1 \<and>
    changed (snd s) (snd s') ref (e\<lparr>ie_bits := (ie_bits e OR MACH_PORT_TYPE_SEND) + 1\<rparr>)"
proof -
  note e = copyout_entry_okD(1) [OF ok] and le = copyout_entry_okD(2) [OF ok] and R = copyout_rights [OF ok]
  let ?p = "ie_object e" and ?bits = "(ie_bits e OR MACH_PORT_TYPE_SEND) + 1" and ?e = "e\<lparr>ie_bits := (ie_bits e OR MACH_PORT_TYPE_SEND) + 1\<rparr>"
  let ?merge = "ip_release ?p (upd_port ?p (\<lambda>p. p\<lparr>ip_srights := ip_srights p - 1\<rparr>) (fst s))"
  have upd: "\<exists>sp'. set_bits ref ?bits (w, sp) = Some (w, sp') \<and> changed (snd s) sp' ref ?e"
    if "changed (snd s) sp ref e" for w sp
    using upd_changed [OF that, of "\<lambda>e'. e'\<lparr>ie_bits := ?bits\<rparr>" w] send_bits(3) [OF le] by simp
  consider (merge) "type_of e = MACH_PORT_TYPE_SEND \<or> type_of e = MACH_PORT_TYPE_SEND_RECEIVE"
    | (receive) "type_of e = MACH_PORT_TYPE_RECEIVE" | (new) "type_of e = 0" using copyout_entry_okD(3) [OF ok] by blast
  then show ?thesis
  proof cases
    case merge
    obtain sp where u: "set_bits ref ?bits (?merge, snd s) = Some (?merge, sp)" "changed (snd s) sp ref ?e"
      using upd [OF changed_refl [OF e]] by blast
    have "put_in s (?merge, sp) ?p 1" using e u(2) merge R
      by (intro put_inI [of s _ ?p "- 1" "- 1" ref ?e e]) (auto simp: counters_def)
    moreover have "copyout_send name ref overflow (ie_bits e) ?p s = Some (KERN_SUCCESS, ?merge, sp)"
      using merge nf R(1) u(1) by (simp add: copyout_send_def Let_def on_world_def)
    ultimately show ?thesis using u(2) by auto
  next
    case receive
    let ?w = "ip_release ?p (fst s)"
    obtain sp where u: "set_bits ref ?bits (?w, snd s) = Some (?w, sp)" "changed (snd s) sp ref ?e"
      using upd [OF changed_refl [OF e]] by blast
    have "put_in s (?w, sp) ?p 1" using e u(2) receive R
      by (intro put_inI [of s _ ?p 0 "- 1" ref ?e e]) (auto simp: counters_def)
    moreover have "copyout_send name ref overflow (ie_bits e) ?p s = Some (KERN_SUCCESS, ?w, sp)"
      using receive R(1,2) u(1) by (simp add: copyout_send_def Let_def on_world_def)
    ultimately show ?thesis using u(2) by auto
  next
    case new
    obtain g sp where h: "right_hash_insert ?p name ref s = Some ((fst s)\<lparr>w_hash := g\<rparr>, sp)" "same_cores (snd s) sp"
      using hash_insert_step [OF copyout_entry_okD(4) [OF ok new]] by blast
    let ?w = "(fst s)\<lparr>w_hash := g\<rparr>"
    obtain sp' where u: "set_bits ref ?bits (?w, sp) = Some (?w, sp')" "changed (snd s) sp' ref ?e"
      using upd [OF same_cores_changed [OF h(2) e]] by blast
    have "put_in s (?w, sp') ?p 1" using e u(2) new R
      by (intro put_inI [of s _ ?p 0 0 ref ?e e]) (auto simp: counters_def)
    moreover have "copyout_send name ref overflow (ie_bits e) ?p s = Some (KERN_SUCCESS, ?w, sp')"
      using new R(1,2) h(1) u(1) by (simp add: copyout_send_def Let_def)
    ultimately show ?thesis using u(2) by auto
  qed
qed

text \<open>
  C2: Copyout of a send right. It becomes a new entry, or joins the receive right, or is merged with the
  send right that the entry has, with one user reference more; one that would use up the last user
  reference is refused with KERN_UREFS_OVERFLOW and nothing changes, or dropped when the caller allows
  overflow. Whenever it succeeds, the right that the caller gave is now accounted for by the entry: the
  port's send rights and references beyond the entries shrink by exactly one.
\<close>

theorem ipc_right_copyout_send_accounts:
  assumes ok: "copyout_entry_ok s name ref e"
  defines "full \<equiv> ie_bits e AND MACH_PORT_TYPE_SEND \<noteq> 0 \<and> IE_BITS_UREFS (ie_bits e) + 1 = MACH_PORT_UREFS_MAX"
  shows "(full \<and> \<not> overflow \<longrightarrow>
        ipc_right_copyout name ref MACH_MSG_TYPE_PORT_SEND overflow (ie_object e) s = Some (KERN_UREFS_OVERFLOW, s))
    \<and> (\<not> full \<or> overflow \<longrightarrow> (\<exists>s' e'.
        ipc_right_copyout name ref MACH_MSG_TYPE_PORT_SEND overflow (ie_object e) s = Some (KERN_SUCCESS, s') \<and>
        put_in s s' (ie_object e) 1 \<and> changed (snd s) (snd s') ref e' \<and> ie_object e' = ie_object e \<and>
        type_of e' = (type_of e OR MACH_PORT_TYPE_SEND) \<and>
        IE_BITS_UREFS (ie_bits e') = IE_BITS_UREFS (ie_bits e) + (if full then 0 else 1)))"
proof -
  note e = copyout_entry_okD(1) [OF ok] and R = copyout_rights [OF ok]
  let ?p = "ie_object e" and ?e = "e\<lparr>ie_bits := (ie_bits e OR MACH_PORT_TYPE_SEND) + 1\<rparr>"
  let ?s = "(ip_release ?p (upd_port ?p (\<lambda>p. p\<lparr>ip_srights := ip_srights p - 1\<rparr>) (fst s)), snd s)"
  have run: "ipc_right_copyout name ref MACH_MSG_TYPE_PORT_SEND overflow ?p s = copyout_send name ref overflow (ie_bits e) ?p s"
    using e by (simp add: ipc_right_copyout_def)
  have refused: "copyout_send name ref overflow (ie_bits e) ?p s = Some (KERN_UREFS_OVERFLOW, s)" if "full" "\<not> overflow"
    using that by (simp add: copyout_send_def full_def Let_def)
  have dropped: "copyout_send name ref overflow (ie_bits e) ?p s = Some (KERN_SUCCESS, ?s)" "put_in s ?s ?p 1"
    "type_of e OR MACH_PORT_TYPE_SEND = type_of e" if "full" "overflow"
  proof -
    show "copyout_send name ref overflow (ie_bits e) ?p s = Some (KERN_SUCCESS, ?s)"
      using that by (simp add: copyout_send_def full_def Let_def on_world_def)
    show "put_in s ?s ?p 1"
      using e that R(1,3) by (intro put_inI [of s _ ?p "- 1" "- 1" ref e e]) (auto simp: counters_def full_def changed_refl)
    show "type_of e OR MACH_PORT_TYPE_SEND = type_of e" using that R(1) or_types by (auto simp: full_def)
  qed
  have entered: "\<exists>s'. copyout_send name ref overflow (ie_bits e) ?p s = Some (KERN_SUCCESS, s') \<and> put_in s s' ?p 1 \<and>
      changed (snd s) (snd s') ref ?e" if "\<not> full"
    using copyout_send_enters [OF ok] that by (simp add: full_def)
  have b: "type_of ?e = (type_of e OR MACH_PORT_TYPE_SEND)" "IE_BITS_UREFS (ie_bits ?e) = IE_BITS_UREFS (ie_bits e) + 1"
    using send_bits [OF copyout_entry_okD(2) [OF ok]] by simp_all
  show ?thesis unfolding run
  proof (cases full)
    case True
    then show "(full \<and> \<not> overflow \<longrightarrow> copyout_send name ref overflow (ie_bits e) ?p s = Some (KERN_UREFS_OVERFLOW, s)) \<and>
      (\<not> full \<or> overflow \<longrightarrow> (\<exists>s' e'. copyout_send name ref overflow (ie_bits e) ?p s = Some (KERN_SUCCESS, s') \<and>
        put_in s s' ?p 1 \<and> changed (snd s) (snd s') ref e' \<and> ie_object e' = ?p \<and> type_of e' = (type_of e OR MACH_PORT_TYPE_SEND) \<and>
        IE_BITS_UREFS (ie_bits e') = IE_BITS_UREFS (ie_bits e) + (if full then 0 else 1)))"
      using refused dropped changed_refl [OF e] by (intro conjI impI exI [of _ ?s] exI [of _ e]) simp_all
  next
    case False
    then obtain s' where "copyout_send name ref overflow (ie_bits e) ?p s = Some (KERN_SUCCESS, s')" "put_in s s' ?p 1"
      "changed (snd s) (snd s') ref ?e" using entered by blast
    with False b show "(full \<and> \<not> overflow \<longrightarrow> copyout_send name ref overflow (ie_bits e) ?p s = Some (KERN_UREFS_OVERFLOW, s)) \<and>
      (\<not> full \<or> overflow \<longrightarrow> (\<exists>s' e'. copyout_send name ref overflow (ie_bits e) ?p s = Some (KERN_SUCCESS, s') \<and>
        put_in s s' ?p 1 \<and> changed (snd s) (snd s') ref e' \<and> ie_object e' = ?p \<and> type_of e' = (type_of e OR MACH_PORT_TYPE_SEND) \<and>
        IE_BITS_UREFS (ie_bits e') = IE_BITS_UREFS (ie_bits e) + (if full then 0 else 1)))"
      by (intro conjI impI exI [of _ s'] exI [of _ ?e]) simp_all
  qed
qed

section \<open>Releasing user references\<close>
















section \<open>Signed changes of user references\<close>

lemma uint_add_sint: "uint ((u :: 32 word) + d) = (uint u + sint d) mod 2 ^ 32"
proof -
  have "u + d = word_of_int (uint u + sint d)" by simp
  then show ?thesis by (simp only: uint_word_of_int) simp
qed





section \<open>Two ways to release a user reference\<close>

text \<open>
  C35: Releasing one user reference with \<open>ipc_right_dealloc\<close> is the same, in every case and in all its
  effects, as \<open>ipc_right_delta\<close> with the change \<open>- 1\<close> for the right that the entry has: a send right or a
  send-once right to a live port, or a dead name.
\<close>

theorem ipc_right_dealloc_is_delta:
  assumes e: "get_entry (snd s) ref = Some e" and u: "IE_BITS_UREFS (ie_bits e) \<noteq> 0"
    and right: "type_of e = MACH_PORT_TYPE_SEND_ONCE \<and> right = MACH_PORT_RIGHT_SEND_ONCE \<or>
      (type_of e = MACH_PORT_TYPE_SEND \<or> type_of e = MACH_PORT_TYPE_SEND_RECEIVE) \<and> right = MACH_PORT_RIGHT_SEND \<or>
      type_of e = MACH_PORT_TYPE_DEAD_NAME \<and> right = MACH_PORT_RIGHT_DEAD_NAME"
    and active: "right \<noteq> MACH_PORT_RIGHT_DEAD_NAME \<longrightarrow> ip_active (port_of s (ie_object e))"
  shows "ipc_right_dealloc its name ref s = ipc_right_delta its dnits try name ref right (- 1) s"
proof -
  let ?u = "IE_BITS_UREFS (ie_bits e)"
  have m: "\<not> MACH_PORT_UREFS_UNDERFLOW ?u (- 1)" "\<not> MACH_PORT_UREFS_OVERFLOW ?u (- 1)" "\<not> MACH_PORT_UREFS_OVERFLOW (?u + 1) (- 1)"
    "?u + - 1 = 0 \<longleftrightarrow> ?u = 1"
    using u by (simp_all add: MACH_PORT_UREFS_UNDERFLOW_def MACH_PORT_UREFS_OVERFLOW_def word_less_1 not_less)
  note b = type_bits [of "ie_bits e"]
  consider "type_of e = MACH_PORT_TYPE_SEND_ONCE" "right = MACH_PORT_RIGHT_SEND_ONCE"
    | "type_of e = MACH_PORT_TYPE_SEND" "right = MACH_PORT_RIGHT_SEND" | "type_of e = MACH_PORT_TYPE_SEND_RECEIVE" "right = MACH_PORT_RIGHT_SEND"
    | "type_of e = MACH_PORT_TYPE_DEAD_NAME" "right = MACH_PORT_RIGHT_DEAD_NAME" using right by blast
  then show ?thesis
  proof cases
    case 1
    then have "ie_bits e AND MACH_PORT_TYPE_SEND_ONCE \<noteq> 0" using b(3) type_values by simp
    then show ?thesis using e 1 check_active [of s "ie_object e"] active
      by (simp add: ipc_right_dealloc_def ipc_right_delta_def dealloc_send_once_def delta_send_once_def Let_def)
  next
    case 2
    then have "ie_bits e AND MACH_PORT_TYPE_SEND \<noteq> 0" "ie_bits e AND MACH_PORT_TYPE_RECEIVE = 0" using b(1,2) type_values by simp_all
    then show ?thesis using e 2 m check_active [of s "ie_object e"] active
      by (simp add: ipc_right_dealloc_def ipc_right_delta_def dealloc_send_def delta_send_def Let_def)
  next
    case 3
    then have "ie_bits e AND MACH_PORT_TYPE_SEND \<noteq> 0" "ie_bits e AND MACH_PORT_TYPE_RECEIVE \<noteq> 0" using b(1,2) type_values by simp_all
    then show ?thesis using e 3 m check_active [of s "ie_object e"] active
      by (simp add: ipc_right_dealloc_def ipc_right_delta_def dealloc_send_receive_def delta_send_def Let_def)
  next
    case 4
    then have "ie_bits e AND MACH_PORT_TYPE_SEND_RIGHTS = 0" "ie_bits e AND MACH_PORT_TYPE_DEAD_NAME \<noteq> 0"
      using b(4,5) by (simp_all add: ipc_defs)
    then show ?thesis using e 4 m
      by (simp add: ipc_right_dealloc_def ipc_right_delta_def dealloc_dead_name_def delta_dead_name_def Let_def)
  qed
qed

section \<open>Dead ports\<close>

text \<open>
  A send or send-once right whose port has died becomes a dead name when it is next looked at: it
  keeps its user references, plus one for the dead-name notification if one was requested, which
  cannot overflow; the request is gone, the entry leaves the hash table and gives back its reference,
  which frees the port exactly if it was the last one. For a live port nothing happens.
\<close>

theorem ipc_right_check_exact:
  assumes e: "get_entry (snd s) ref = Some e" and u: "IE_BITS_UREFS (ie_bits e) < MACH_PORT_UREFS_MAX"
    and right: "ie_bits e AND MACH_PORT_TYPE_SEND_RIGHTS \<noteq> 0"
    and h: "ie_bits e AND MACH_PORT_TYPE_SEND \<noteq> 0 \<longrightarrow> hash_has (snd s) (ie_object e) name ref"
  defines "port \<equiv> ie_object e"
  shows "if ip_active (port_of s port) then ipc_right_check port name ref s = Some (False, s)
    else \<exists>s' e'. ipc_right_check port name ref s = Some (True, s') \<and> changed (snd s) (snd s') ref e' \<and>
      type_of e' = MACH_PORT_TYPE_DEAD_NAME \<and> ie_object e' = IO_NULL \<and> ie_request e' = 0 \<and>
      uint (IE_BITS_UREFS (ie_bits e')) = uint (IE_BITS_UREFS (ie_bits e)) + (if ie_request e \<noteq> 0 then 1 else 0) \<and>
      (\<forall>p. outer_refs s' p = outer_refs s p) \<and>
      w_log (fst s') = w_log (fst s) @ (if ip_references (port_of s port) = 1 then [IoFree port] else [])"
proof (cases "ip_active (port_of s port)")
  case True
  then show ?thesis by (simp add: check_active)
next
  case False
  note D = dead_entry_bits [OF u]
  obtain g sp where c: "ipc_right_check port name ref s = Some (True, ipc_port_release port ((fst s)\<lparr>w_hash := g\<rparr>), sp)"
    "changed (snd s) sp ref (dead_entry e)" using check_step [OF e _ _ D(1)] False h unfolding port_def by blast
  let ?s' = "(ipc_port_release port ((fst s)\<lparr>w_hash := g\<rparr>), sp)"
  have urefs: "uint (IE_BITS_UREFS (ie_bits (dead_entry e))) = uint (IE_BITS_UREFS (ie_bits e)) + (if ie_request e \<noteq> 0 then 1 else 0)"
    using D(3) uint_add_sint [of "IE_BITS_UREFS (ie_bits e)" 1] u by (simp add: word_less_def ipc_defs)
  have nr: "ie_bits (dead_entry e) AND MACH_PORT_TYPE_PORT_RIGHTS = 0"
    unfolding type_bits(6) [of "ie_bits (dead_entry e)"] D(2) by (simp add: ipc_defs)
  have "(ie_bits e AND MACH_PORT_TYPE_PORT_RIGHTS) AND MACH_PORT_TYPE_SEND_RIGHTS = ie_bits e AND MACH_PORT_TYPE_SEND_RIGHTS"
    by (simp add: and.assoc ipc_defs)
  then have pr: "ie_bits e AND MACH_PORT_TYPE_PORT_RIGHTS \<noteq> 0" using right by auto
  have "changed (snd s) (snd ?s') ref (dead_entry e)" using c(2) by simp
  from outer_changed(2) [OF this e] have "outer_refs ?s' p = outer_refs s p" for p
    using nr pr by (auto simp: ipc_object_release_def port_def)
  moreover have "w_log (fst ?s') = w_log (fst s) @ (if ip_references (port_of s port) = 1 then [IoFree port] else [])"
    by (simp add: ipc_object_release_def)
  moreover have "ie_object (dead_entry e) = IO_NULL" "ie_request (dead_entry e) = 0" by (simp_all add: dead_entry_def)
  ultimately have "\<exists>s' e'. ipc_right_check port name ref s = Some (True, s') \<and> changed (snd s) (snd s') ref e' \<and>
      type_of e' = MACH_PORT_TYPE_DEAD_NAME \<and> ie_object e' = IO_NULL \<and> ie_request e' = 0 \<and>
      uint (IE_BITS_UREFS (ie_bits e')) = uint (IE_BITS_UREFS (ie_bits e)) + (if ie_request e \<noteq> 0 then 1 else 0) \<and>
      (\<forall>p. outer_refs s' p = outer_refs s p) \<and>
      w_log (fst s') = w_log (fst s) @ (if ip_references (port_of s port) = 1 then [IoFree port] else [])"
    using c D(2) urefs by (intro exI [of _ ?s'] exI [of _ "dead_entry e"]) simp
  then show ?thesis using False by simp
qed

section \<open>An example\<close>

text \<open>A space with three send rights; two send rights to the live port 0xc0 exist, and no send right to 0x1c0, which is dead.\<close>

definition example_rights :: right_state where
  "example_rights = (upd_port 0xc0 (\<lambda>_. zero_port\<lparr>ip_bits := io_makebits True IOT_PORT 0, ip_references := 3, ip_srights := 2\<rparr>)
     (upd_port 0x1c0 (\<lambda>_. zero_port\<lparr>ip_references := 1\<rparr>) example_world), hash_example_space)"

lemma example_rights_entries:
  "get_entry (snd example_rights) (TableEntry 1) = Some (hash_entry 0x0c0 3)"
  "get_entry (snd example_rights) (TableEntry 2) = Some (hash_entry 0x1c0 0)"
  by (simp_all add: example_rights_def hash_example_space_def hash_example_def)

lemma example_names: "MACH_PORT_INDEX 0x103 = 1" "MACH_PORT_INDEX 0x203 = 2"
  by (simp_all add: MACH_PORT_INDEX_def)

lemma example_entry_bits:
  "type_of (hash_entry ob i) = MACH_PORT_TYPE_SEND" "IE_BITS_UREFS (ie_bits (hash_entry ob i)) = 1"
  "ie_object (hash_entry ob i) = ob" "ie_request (hash_entry ob i) = 0" "\<not> collides (hash_entry ob i)"
  by (simp_all add: hash_entry_def IE_BITS_TYPE_def IE_BITS_UREFS_def collides_def ipc_defs)

lemma example_hash:
  "hash_has (snd example_rights) 0xc0 0x103 (TableEntry 1)" "hash_has (snd example_rights) 0x1c0 0x203 (TableEntry 2)"
proof -
  have "local_hash_ok hash_example" using hash_example_ok by (simp add: local_table_ok_def)
  moreover have "1 \<in> hashed hash_example" "2 \<in> hashed hash_example" by (simp_all add: hashed_def hash_example_def hash_entry_def)
  moreover have "ie_object (hash_example ! 1) = 0xc0" "ie_object (hash_example ! 2) = 0x1c0" by (simp_all add: hash_example_def hash_entry_def)
  ultimately show "hash_has (snd example_rights) 0xc0 0x103 (TableEntry 1)" "hash_has (snd example_rights) 0x1c0 0x203 (TableEntry 2)"
    by (simp_all add: hash_has_def example_rights_def hash_example_space_def example_names)
qed

lemma example_right_ok: "port_right_ok example_rights 0x103 (TableEntry 1) (hash_entry 0x0c0 3)"
  using example_rights_entries(1) example_hash(1)
  by (simp add: port_right_ok_def Let_def example_entry_bits MACH_PORT_UREFS_MAX_def)

lemma example_active: "ip_active (port_of example_rights (ie_object (hash_entry 0x0c0 3)))"
  by (simp add: example_rights_def example_entry_bits)


theorem ipc_right_copyin_accounts_witness:
  "(\<exists>soright s'. ipc_right_copyin 0x103 (TableEntry 1) MACH_MSG_TYPE_MOVE_SEND False example_rights =
     Some (KERN_SUCCESS, 0xc0, soright, s') \<and>
     copied_in MACH_MSG_TYPE_MOVE_SEND 0x103 (TableEntry 1) (hash_entry 0x0c0 3) example_rights soright s' \<and>
     taken_out example_rights s' 0xc0 1) \<and>
   (\<exists>s'. ipc_right_copyin 0x203 (TableEntry 2) MACH_MSG_TYPE_MOVE_SEND False example_rights =
     Some (KERN_INVALID_RIGHT, IO_NULL, IP_NULL, s') \<and> copied_dead False (TableEntry 2) (hash_entry 0x1c0 0) example_rights s')"
proof -
  have b: "ie_bits (hash_entry 0x0c0 3) AND MACH_PORT_TYPE_SEND \<noteq> 0" using has_send [OF example_right_ok] by (simp add: example_entry_bits)
  have ok: "port_right_ok example_rights 0x203 (TableEntry 2) (hash_entry 0x1c0 0)"
    using example_rights_entries(2) example_hash(2) by (simp add: port_right_ok_def Let_def example_entry_bits MACH_PORT_UREFS_MAX_def)
  have dead: "\<not> ip_active (port_of example_rights 0x1c0)" by (simp add: example_rights_def zero_port_def io_active_def)
  show ?thesis
    using ipc_right_copyin_accounts [OF example_right_ok, of MACH_MSG_TYPE_MOVE_SEND False]
      ipc_right_copyin_accounts [OF ok, of MACH_MSG_TYPE_MOVE_SEND False] example_active dead b
    by (simp add: copyin_type_def copyin_sends_def example_entry_bits Let_def)
qed

theorem ipc_right_copyout_send_accounts_witness:
  "\<exists>s'. ipc_right_copyout 0x103 (TableEntry 1) MACH_MSG_TYPE_PORT_SEND False 0xc0 example_rights = Some (KERN_SUCCESS, s') \<and>
     put_in example_rights s' 0xc0 1"
proof -
  have "copyout_entry_ok example_rights 0x103 (TableEntry 1) (hash_entry 0x0c0 3)"
    using example_rights_entries(1) example_hash(1)
    by (simp add: copyout_entry_ok_def Let_def example_entry_bits MACH_PORT_UREFS_MAX_def)
  from ipc_right_copyout_send_accounts [OF this, of False] show ?thesis
    by (auto simp: example_entry_bits MACH_PORT_UREFS_MAX_def)
qed



theorem ipc_right_dealloc_is_delta_witness:
  "ipc_right_dealloc [4, 8] 0x103 (TableEntry 1) example_rights =
     ipc_right_delta [4, 8] [3, 0] False 0x103 (TableEntry 1) MACH_PORT_RIGHT_SEND (- 1) example_rights"
  using example_active
  by (intro ipc_right_dealloc_is_delta [OF example_rights_entries(1)]) (simp_all add: example_entry_bits)

theorem ipc_right_check_exact_witness:
  "\<exists>s' e'. ipc_right_check 0x1c0 0x203 (TableEntry 2) example_rights = Some (True, s') \<and>
     changed (snd example_rights) (snd s') (TableEntry 2) e' \<and> type_of e' = MACH_PORT_TYPE_DEAD_NAME \<and>
     w_log (fst s') = [IoFree 0x1c0]"
proof -
  have b: "ie_bits (hash_entry ob i) AND MACH_PORT_TYPE_SEND_RIGHTS \<noteq> 0" for ob i by (simp add: hash_entry_def ipc_defs)
  have "\<not> ip_active (port_of example_rights 0x1c0)" "ip_references (port_of example_rights 0x1c0) = 1" "w_log (fst example_rights) = []"
    by (simp_all add: example_rights_def zero_port_def io_active_def example_world_def)
  then show ?thesis
    using ipc_right_check_exact [OF example_rights_entries(2) _ b, of "0x203"] example_hash(2)
    by (auto simp: example_entry_bits MACH_PORT_UREFS_MAX_def)
qed

end
