(* ===== verification/Mach_Port_Correct.thy ===== *)
theory Mach_Port_Correct
  imports Mach_Port Ipc_Right_Correct
begin

text \<open>
  Correctness of the kernel calls on ports: the arrays of names that \<open>mach_port_names\<close> returns, and
  the rights that the allocation calls make.
\<close>

section \<open>Pages\<close>

lemma round_page_le:
  assumes "unat x + 4095 < 2 ^ 32"
  shows "unat x \<le> unat (round_page x)"
proof -
  have "y AND NOT (mask 12) = push_bit 12 (drop_bit 12 (y :: 32 word))" for y
    by (rule bit_eqI) (auto simp: bit_simps)
  then have "round_page x = push_bit 12 (drop_bit 12 (x + 4095))"
    by (simp add: round_page_def PAGE_MASK_def PAGE_SIZE_def mask_eq_exp_minus_1)
  moreover have "unat (x + 4095) = unat x + 4095" using assms by (subst unat_add_lem [THEN iffD1]) simp_all
  moreover have "(unat x + 4095) div 2 ^ 12 * 2 ^ 12 < 2 ^ 32"
    using assms div_times_less_eq_dividend [of "unat x + 4095" "2 ^ 12"] by linarith
  ultimately have "unat (round_page x) = (unat x + 4095) div 2 ^ 12 * 2 ^ 12"
    by (simp add: unat_push_bit_mult unat_drop_bit_div)
  then show ?thesis by (simp add: algebra_simps)
qed

lemma names_memory_success:
  assumes "names_memory vm env sz s = (KERN_SUCCESS, sz', s')"
  shows "is_active (snd s') \<and> round_page ((of_nat (is_table_size (snd s')) + is_tree_total (snd s')) * 4) \<le> sz'"
  using assms
proof (induction vm env sz s rule: names_memory.induct)
  case (1 vm env sz s)
  show ?case
    using 1 by (subst (asm) (2) names_memory.simps) (auto simp: Let_def split: if_splits)
qed

section \<open>The names of a space\<close>

text \<open>The typed slots of the table with their indices.\<close>

definition table_rights :: "nat \<Rightarrow> ipc_entry list \<Rightarrow> (nat \<times> ipc_entry) list" where
  "table_rights i table = filter (\<lambda>(j, e). type_of e \<noteq> 0) (List.enumerate i table)"

lemma names_table_map:
  "names_table t w i table names = names @ map (\<lambda>(j, e). mach_port_names_helper t w e (MACH_PORT_MAKEB j (ie_bits e))) (table_rights i table)"
  by (induction table arbitrary: i names) (simp_all add: table_rights_def MACH_PORT_TYPE_NONE_def)

lemma names_tree_fold:
  "traverse_fold (names_tree_entry t w) xs names = (xs, names @ map (\<lambda>(n, e). mach_port_names_helper t w e n) xs)"
  by (induction xs arbitrary: names) (auto simp: names_tree_entry_def)

definition slot_name :: "nat \<times> ipc_entry \<Rightarrow> mach_port_t" where
  "slot_name = (\<lambda>(i, e). MACH_PORT_MAKEB i (ie_bits e))"

text \<open>The rights of a space in the order in which they are listed.\<close>

definition listed :: "ipc_space \<Rightarrow> (mach_port_t \<times> ipc_entry) list" where
  "listed space = map (\<lambda>x. (slot_name x, snd x)) (table_rights 0 (is_table space)) @ ist_inorder (is_tree space)"

lemma table_rights_set:
  "(i, e) \<in> set (table_rights 0 table) \<longleftrightarrow> i < length table \<and> e = table ! i \<and> type_of e \<noteq> 0"
  by (auto simp: table_rights_def in_set_enumerate_eq)

lemma slot_name_parts:
  assumes "sizes_ok its space" "(i, e) \<in> set (table_rights 0 (is_table space))"
  shows "MACH_PORT_INDEX (slot_name (i, e)) = i" "MACH_PORT_GEN (slot_name (i, e)) = gen_of e"
  using assms(2) table_index_bound [OF assms(1), of i] by (simp_all add: table_rights_set slot_name_def MACH_PORT_MAKEB_def)

lemma listed_table:
  assumes "sizes_ok its space"
  shows "(n, e) \<in> set (map (\<lambda>x. (slot_name x, snd x)) (table_rights 0 (is_table space))) \<longleftrightarrow>
    MACH_PORT_INDEX n < is_table_size space \<and> e = is_table space ! MACH_PORT_INDEX n \<and> gen_of e = MACH_PORT_GEN n \<and> type_of e \<noteq> 0"
    (is "?l \<longleftrightarrow> ?r")
proof
  assume ?l
  then obtain i where i: "(i, e) \<in> set (table_rights 0 (is_table space))" "n = slot_name (i, e)" by auto
  with slot_name_parts [OF assms i(1)] show ?r by (auto simp: table_rights_set)
next
  assume r: ?r
  then have i: "(MACH_PORT_INDEX n, e) \<in> set (table_rights 0 (is_table space))" by (auto simp: table_rights_set)
  moreover have "slot_name (MACH_PORT_INDEX n, e) = n"
    using slot_name_parts [OF assms i] r by (intro iffD2 [OF name_eq_iff]) auto
  ultimately show ?l by force
qed

lemma listed_map:
  assumes "space_ok its space xs"
  shows "(n, e) \<in> set (listed space) \<longleftrightarrow> space_map space n = Some e"
proof -
  have s: "sizes_ok its space" and t: "tree_ok its space" and wf: "ist_wf (is_tree space)"
    using assms by (simp_all add: space_ok_def tree_ok_def)
  have "(n, e) \<in> set (ist_inorder (is_tree space)) \<longleftrightarrow> ist_map (is_tree space) n = Some e"
    using splay.find_iff [OF wf] by simp
  moreover have "ist_map (is_tree space) n = None"
    if "MACH_PORT_INDEX n < is_table_size space" "gen_of (is_table space ! MACH_PORT_INDEX n) = MACH_PORT_GEN n"
    using tree_ok_gen [OF t] that tree_map_iff [of space n] by blast
  ultimately show ?thesis
    unfolding listed_def set_append Un_iff listed_table [OF s] by (auto simp: space_map_def Let_def)
qed

lemma listed_distinct:
  assumes "space_ok its space xs"
  shows "distinct (map fst (listed space))"
proof -
  have s: "sizes_ok its space" and t: "tree_ok its space" and wf: "ist_wf (is_tree space)"
    using assms by (simp_all add: space_ok_def tree_ok_def)
  have "distinct (table_rights 0 (is_table space))" by (simp add: table_rights_def)
  moreover have "inj_on slot_name (set (table_rights 0 (is_table space)))"
    by (rule inj_onI) (metis prod.exhaust slot_name_parts(1) [OF s] table_rights_set)
  ultimately have "distinct (map slot_name (table_rights 0 (is_table space)))" by (simp add: distinct_map)
  moreover have "distinct (map fst (ist_inorder (is_tree space)))"
    using ist_wf_sorted [OF wf] by (rule ascending_distinct)
  moreover have "slot_name x \<notin> tree_names space" if "x \<in> set (table_rights 0 (is_table space))" for x
  proof
    assume a: "slot_name x \<in> tree_names space"
    obtain i e where x: "x = (i, e)" by (cases x)
    with that have "i < is_table_size space" "e = is_table space ! i" by (simp_all add: table_rights_set)
    with tree_ok_gen [OF t a] slot_name_parts [OF s, of i e] that show False by (simp add: x)
  qed
  ultimately show ?thesis by (auto simp: listed_def tree_names_def comp_def)
qed

lemma listed_length: "length (listed space) \<le> is_table_size space + length (ist_inorder (is_tree space))"
  using length_filter_le [of "\<lambda>(j, e). type_of e \<noteq> 0" "List.enumerate 0 (is_table space)"]
  by (simp add: listed_def table_rights_def)

lemma mach_port_names_listed:
  assumes "\<not> null_space s" "names_memory vm env 0 s = (KERN_SUCCESS, sz, s1)" "ist_wf (is_tree (snd s1))"
  defines "r \<equiv> map (\<lambda>(n, e). mach_port_names_helper (w_timestamp (fst s1)) (fst s1) e n) (listed (snd s1))"
  shows "\<exists>tree. mach_port_names vm env s = Some (KERN_SUCCESS, map fst r, map snd r,
      (fst s1)\<lparr>w_timestamp := w_timestamp (fst s1) + 1\<rparr>, (snd s1)\<lparr>is_tree := tree\<rparr>) \<and> ist_inorder tree = ist_inorder (is_tree (snd s1)) \<and> ist_wf tree"
proof -
  let ?w = "(fst s1)\<lparr>w_timestamp := w_timestamp (fst s1) + 1\<rparr>" and ?t = "w_timestamp (fst s1)"
  have h: "mach_port_names_helper ?t ?w = mach_port_names_helper ?t (fst s1)"
    by (intro ext) (simp add: mach_port_names_helper_def)
  have "r = map (\<lambda>(j, e). mach_port_names_helper ?t ?w e (MACH_PORT_MAKEB j (ie_bits e))) (table_rights 0 (is_table (snd s1))) @
      map (\<lambda>(n, e). mach_port_names_helper ?t ?w e n) (ist_inorder (is_tree (snd s1)))"
    by (simp add: r_def listed_def slot_name_def h comp_def case_prod_beta)
  with traverse_correct [OF assms(3), of "names_tree_entry ?t ?w" "names_table ?t ?w 0 (is_table (snd s1)) []"] assms(1,2)
  show ?thesis
    by (auto simp: names_tree_fold names_table_map mach_port_names_def ipc_port_timestamp_def Let_def)
qed

text \<open>
  Rights to dead ports: their user references have room for a notification, a send right is in the
  hash table, and the port died before the present time.
\<close>

definition dead_rights_ok :: "right_state \<Rightarrow> bool" where
  "dead_rights_ok s \<longleftrightarrow> (\<forall>ref e. get_entry (snd s) ref = Some e \<and> ie_bits e AND MACH_PORT_TYPE_SEND_RIGHTS \<noteq> 0 \<and>
       \<not> ip_active (port_of s (ie_object e)) \<longrightarrow>
     IE_BITS_UREFS (ie_bits e) < MACH_PORT_UREFS_MAX \<and>
     IP_TIMESTAMP_ORDER (ip_timestamp (port_of s (ie_object e))) (w_timestamp (fst s)) \<and>
     (ie_bits e AND MACH_PORT_TYPE_SEND \<noteq> 0 \<longrightarrow> (\<forall>name. hash_has (snd s) (ie_object e) name ref)))"

text \<open>The type that is reported for an entry.\<close>

definition reported_type :: "right_state \<Rightarrow> ipc_entry \<Rightarrow> natural_t" where
  "reported_type s e =
     (if ie_bits e AND MACH_PORT_TYPE_SEND_RIGHTS \<noteq> 0 \<and> \<not> ip_active (port_of s (ie_object e)) then MACH_PORT_TYPE_DEAD_NAME
      else if ie_request e \<noteq> 0 then type_of e OR MACH_PORT_TYPE_DNREQUEST else type_of e)"

lemma info_reports:
  assumes e: "get_entry (snd s) ref = Some e" and ok: "dead_rights_ok s"
  shows "\<exists>urefs s'. ipc_right_info name ref s = Some (KERN_SUCCESS, (reported_type s e, urefs), s')"
proof (cases "ie_bits e AND MACH_PORT_TYPE_SEND_RIGHTS \<noteq> 0 \<and> \<not> ip_active (port_of s (ie_object e))")
  case True
  then have D: "IE_BITS_UREFS (ie_bits e) < MACH_PORT_UREFS_MAX" "ie_bits e AND MACH_PORT_TYPE_SEND \<noteq> 0 \<longrightarrow> hash_has (snd s) (ie_object e) name ref"
    using ok e unfolding dead_rights_ok_def by blast+
  obtain g sp where c: "ipc_right_check (ie_object e) name ref s = Some (True, ipc_port_release (ie_object e) ((fst s)\<lparr>w_hash := g\<rparr>), sp)"
      "changed (snd s) sp ref (dead_entry e)"
    using check_step [OF e _ D(2) dead_entry_bits(1) [OF D(1)]] True by blast
  from changed_get [OF c(2)] obtain i where "get_entry sp ref = Some ((dead_entry e)\<lparr>ie_index := i\<rparr>)" by blast
  with c(1) e True dead_entry_bits(2) [OF D(1)] show ?thesis
    by (auto simp: ipc_right_info_def reported_type_def Let_def dead_entry_def)
next
  case False
  then show ?thesis using e check_active [of s "ie_object e" name ref]
    by (cases "ie_bits e AND MACH_PORT_TYPE_SEND_RIGHTS = 0") (auto simp: ipc_right_info_def reported_type_def Let_def)
qed

lemma helper_reports:
  assumes "get_entry (snd s) ref = Some e" "dead_rights_ok s"
  shows "mach_port_names_helper (w_timestamp (fst s)) (fst s) e n = (n, reported_type s e)"
proof (cases "ie_bits e AND MACH_PORT_TYPE_SEND_RIGHTS \<noteq> 0 \<and> \<not> ip_active (port_of s (ie_object e))")
  case True
  then have D: "IE_BITS_UREFS (ie_bits e) < MACH_PORT_UREFS_MAX"
      "IP_TIMESTAMP_ORDER (ip_timestamp (port_of s (ie_object e))) (w_timestamp (fst s))"
    using assms unfolding dead_rights_ok_def by blast+
  from True D(2) dead_entry_bits(2) [OF D(1)] show ?thesis
    by (auto simp: mach_port_names_helper_def reported_type_def dead_entry_def Let_def)
qed (auto simp: mach_port_names_helper_def reported_type_def Let_def)

lemma dead_rights_ok_tree:
  assumes "dead_rights_ok (w, space)" "ist_inorder tree = ist_inorder (is_tree space)"
  shows "dead_rights_ok (w, space\<lparr>is_tree := tree\<rparr>)"
proof -
  have "get_entry (space\<lparr>is_tree := tree\<rparr>) ref = get_entry space ref" for ref
    using assms(2) by (cases ref) simp_all
  moreover have "hash_has (space\<lparr>is_tree := tree\<rparr>) = hash_has space" by (intro ext) (simp add: hash_has_def)
  ultimately show ?thesis using assms(1) by (simp only: dead_rights_ok_def fst_conv snd_conv)
qed

lemma mach_port_type_reports:
  assumes ok: "space_ok its (snd s) xs" "\<not> is_fast (snd s)" "is_active (snd s)" "dead_rights_ok s" "\<not> null_space s"
    and n: "space_map (snd s) name = Some e"
  shows "\<exists>s'. mach_port_type name s = Some (KERN_SUCCESS, reported_type s e, s')"
proof -
  from entry_lookup_correct [OF ok(1,2), of name] n obtain ref tree where
    r: "ipc_entry_lookup (snd s) name = Some (Some ref, (snd s)\<lparr>is_tree := tree\<rparr>)" "ist_inorder tree = ist_inorder (is_tree (snd s))"
       "get_entry (snd s) ref = Some e" by (auto split: option.splits)
  let ?s = "(fst s, (snd s)\<lparr>is_tree := tree\<rparr>)"
  have "get_entry (snd ?s) ref = Some e" using r(2,3) by (cases ref) (auto split: if_splits)
  moreover have "dead_rights_ok ?s" using dead_rights_ok_tree [of "fst s" "snd s" tree] ok(4) r(2) by simp
  moreover have "reported_type ?s e = reported_type s e" by (simp add: reported_type_def)
  ultimately show ?thesis
    using info_reports [of ?s ref e name] r(1) ok(3,5) by (auto simp: mach_port_type_def ipc_right_lookup_write_def)
qed

text \<open>
  C20: \<open>mach_port_names\<close> returns an accurate snapshot: when it gets the memory it asks for, it lists every
  name of the space that denotes a right, each exactly once and no other, and with each name the type
  that \<open>mach_port_type\<close> reports for it, dead ports included; the names fit into the memory it
  allocated, and the rights of the space are the same afterwards.
\<close>

theorem mach_port_names_snapshot:
  assumes mem: "names_memory vm env 0 s = (KERN_SUCCESS, sz, s1)" and null: "\<not> null_space s" "\<not> null_space s1"
    and ok: "space_ok its (snd s1) xs" "\<not> is_fast (snd s1)" "dead_rights_ok s1"
    and bound: "4 * (is_table_size (snd s1) + length (ist_inorder (is_tree (snd s1)))) + 4095 < 2 ^ 32"
  shows "\<exists>names types s'. mach_port_names vm env s = Some (KERN_SUCCESS, names, types, s') \<and>
    distinct names \<and> set names = dom (space_map (snd s1)) \<and> length types = length names \<and>
    (\<forall>i < length names. \<exists>s2. mach_port_type (names ! i) s1 = Some (KERN_SUCCESS, types ! i, s2)) \<and>
    4 * length names \<le> unat sz \<and> space_map (snd s') = space_map (snd s1)"
proof -
  let ?l = "listed (snd s1)" and ?n = "length (ist_inorder (is_tree (snd s1)))"
  define r where "r = map (\<lambda>(n, e). mach_port_names_helper (w_timestamp (fst s1)) (fst s1) e n) ?l"
  have t: "ist_wf (is_tree (snd s1))" "is_tree_total (snd s1) = of_nat ?n" using ok(1) by (simp_all add: space_ok_def tree_ok_def)
  have act: "is_active (snd s1)" and sz: "round_page ((of_nat (is_table_size (snd s1)) + is_tree_total (snd s1)) * 4) \<le> sz"
    using names_memory_success [OF mem] by simp_all
  obtain tree where names: "mach_port_names vm env s = Some (KERN_SUCCESS, map fst r, map snd r,
      (fst s1)\<lparr>w_timestamp := w_timestamp (fst s1) + 1\<rparr>, (snd s1)\<lparr>is_tree := tree\<rparr>)" "ist_inorder tree = ist_inorder (is_tree (snd s1))"
    using mach_port_names_listed [OF null(1) mem t(1)] unfolding r_def by blast
  have entry: "\<exists>ref. get_entry (snd s1) ref = Some e" if "(n, e) \<in> set ?l" for n e
    using entry_lookup_correct [OF ok(1,2), of n] that unfolding listed_map [OF ok(1)] by (auto split: option.splits)
  have r: "r = map (\<lambda>(n, e). (n, reported_type s1 e)) ?l"
    unfolding r_def by (rule map_cong [OF refl]) (use entry helper_reports [OF _ ok(3)] in fastforce)
  have fst: "map fst r = map fst ?l" by (simp add: r comp_def case_prod_beta)
  have dom: "set (map fst ?l) = dom (space_map (snd s1))"
    using listed_map [OF ok(1)] by (force simp: dom_def)
  have types: "\<exists>s2. mach_port_type (map fst r ! i) s1 = Some (KERN_SUCCESS, map snd r ! i, s2)" if "i < length r" for i
  proof -
    obtain n e where x: "?l ! i = (n, e)" by fastforce
    then have "(n, e) \<in> set ?l" using that by (metis length_map nth_mem r)
    then have "space_map (snd s1) n = Some e" by (simp add: listed_map [OF ok(1)])
    from mach_port_type_reports [OF ok(1,2) act ok(3) null(2) this] x that show ?thesis by (simp add: r)
  qed
  have fits: "4 * length r \<le> unat sz"
  proof -
    let ?b = "4 * (is_table_size (snd s1) + ?n)"
    have b: "(of_nat (is_table_size (snd s1)) + is_tree_total (snd s1)) * 4 = (of_nat ?b :: 32 word)" by (simp add: t(2) algebra_simps)
    have "unat (of_nat b :: 32 word) = b" if "b + 4095 < 2 ^ 32" for b using that by (simp add: unat_of_nat)
    from this [OF bound] round_page_le [of "of_nat ?b"] bound have "?b \<le> unat (round_page (of_nat ?b))" by simp
    also have "\<dots> \<le> unat sz" using sz unfolding b by (simp add: word_le_nat_alt)
    finally show ?thesis using listed_length [of "snd s1"] by (simp add: r)
  qed
  have "distinct (map fst r)" "set (map fst r) = dom (space_map (snd s1))"
    using listed_distinct [OF ok(1)] dom unfolding fst by simp_all
  with names types fits show ?thesis
    by (intro exI [of _ "map fst r"] exI [of _ "map snd r"] exI [of _ "(_, (snd s1)\<lparr>is_tree := tree\<rparr>)"]) simp
qed

text \<open>A space with a receive right, a dead-name request on it, and a send-once right to a port that died at time 0.\<close>

definition example_names :: right_state where
  "example_names = (upd_port 0x1c0 (\<lambda>_. zero_port\<lparr>ip_references := 1\<rparr>) (example_world\<lparr>w_timestamp := 1\<rparr>),
     example_space\<lparr>is_table :=
       [zero_entry\<lparr>ie_bits := 0xff000000, ie_request := 3\<rparr>,
        zero_entry\<lparr>ie_bits := 0x03020000, ie_object := 0x40, ie_request := 1\<rparr>,
        zero_entry\<lparr>ie_bits := 0x03040001, ie_object := 0x1c0\<rparr>, zero_entry\<lparr>ie_bits := 0xff000000\<rparr>]\<rparr>)"

lemma example_names_ok: "space_ok example_sizes (snd example_names) [3]"
proof (rule space_ok_empty_tree)
  show "sizes_ok example_sizes (snd example_names)"
    using example_sizes_ok by (simp add: sizes_ok_def example_names_def example_space_def example_sizes_def)
  show "list_all (\<lambda>e. \<not> collides e) (is_table (snd example_names))" "type_of (is_table (snd example_names) ! 0) = 0"
    "free_list_ok (is_table (snd example_names)) {} [3]" by code_simp+
qed (simp_all add: example_names_def example_space_def ist_raw_def)

lemma example_names_entries:
  "get_entry (snd example_names) ref = Some e \<longleftrightarrow>
     ref = TableEntry 0 \<and> e = zero_entry\<lparr>ie_bits := 0xff000000, ie_request := 3\<rparr> \<or>
     ref = TableEntry 1 \<and> e = zero_entry\<lparr>ie_bits := 0x03020000, ie_object := 0x40, ie_request := 1\<rparr> \<or>
     ref = TableEntry 2 \<and> e = zero_entry\<lparr>ie_bits := 0x03040001, ie_object := 0x1c0\<rparr> \<or>
     ref = TableEntry 3 \<and> e = zero_entry\<lparr>ie_bits := 0xff000000\<rparr>"
  by (cases ref) (auto simp: example_names_def example_space_def ist_raw_def ist_inorder_def ist_pieces_def pieces_inorder_def
      less_Suc_eq numeral_eq_Suc)

lemma example_names_dead: "dead_rights_ok example_names"
  unfolding dead_rights_ok_def example_names_entries
  by (auto simp: example_names_def zero_entry_def ipc_defs IE_BITS_UREFS_def IP_TIMESTAMP_ORDER_def zero_port_def)

theorem mach_port_names_snapshot_witness:
  "\<exists>names types s'. mach_port_names (\<lambda>_. True) (\<lambda>_ s. s) example_names = Some (KERN_SUCCESS, names, types, s') \<and>
     distinct names \<and> 0x103 \<in> set names \<and> 0x203 \<in> set names \<and> length names \<le> 1024"
proof -
  have m: "names_memory (\<lambda>_. True) (\<lambda>_ s. s) 0 example_names = (KERN_SUCCESS, 4096, example_names)"
    by (subst names_memory.simps, subst names_memory.simps)
      (simp add: example_names_def example_space_def round_page_def PAGE_MASK_def PAGE_SIZE_def Let_def)
  have n: "\<not> null_space example_names" "\<not> is_fast (snd example_names)" by (simp_all add: example_names_def example_space_def IS_NULL_def)
  have b: "4 * (is_table_size (snd example_names) + length (ist_inorder (is_tree (snd example_names)))) + 4095 < 2 ^ 32"
    by (simp add: example_names_def example_space_def ist_raw_def ist_inorder_def ist_pieces_def pieces_inorder_def)
  have "space_map (snd example_names) 0x103 \<noteq> None" "space_map (snd example_names) 0x203 \<noteq> None" by code_simp+
  then show ?thesis
    using mach_port_names_snapshot [OF m n(1) n(1) example_names_ok n(2) example_names_dead b] by auto
qed

section \<open>Allocation\<close>

text \<open>The bits of the entry of a new right of a kind, and the object of the right.\<close>

definition new_right :: "natural_t \<Rightarrow> ipc_object_t \<Rightarrow> (natural_t \<times> ipc_object_t) option" where
  "new_right right object =
     (case right_of_number right of
        Some MACH_PORT_RIGHT_RECEIVE \<Rightarrow> Some (MACH_PORT_TYPE_RECEIVE, object)
      | Some MACH_PORT_RIGHT_PORT_SET \<Rightarrow> Some (MACH_PORT_TYPE_PORT_SET, object)
      | Some MACH_PORT_RIGHT_DEAD_NAME \<Rightarrow> Some (MACH_PORT_TYPE_DEAD_NAME OR 1, IO_NULL)
      | _ \<Rightarrow> None)"

text \<open>A port and a port set as the callers of the allocation expect them.\<close>

definition new_port :: "ipc_space_t \<Rightarrow> mach_port_t \<Rightarrow> ipc_port \<Rightarrow> bool" where
  "new_port space name p \<longleftrightarrow> ip_active p \<and> ip_references p = 1 \<and> ip_receiver p = space \<and> ip_receiver_name p = name \<and>
     ip_srights p = 0 \<and> ip_sorights p = 0 \<and> ip_mscount p = 0 \<and> ip_qlimit p = MACH_PORT_QLIMIT_DEFAULT \<and>
     ip_msgcount p = 0 \<and> ip_messages p = empty_mqueue \<and> ip_blocked p = [] \<and> ip_pset p = IPS_NULL \<and>
     ip_nsrequest p = IP_NULL \<and> ip_pdrequest p = IP_NULL \<and> ip_dnrequests p = None"

definition new_pset :: "mach_port_t \<Rightarrow> ipc_pset \<Rightarrow> bool" where
  "new_pset name p \<longleftrightarrow> ips_active p \<and> ips_references p = 1 \<and> ips_local_name p = name \<and> ips_messages p = empty_mqueue"

lemma right_entry_alloc_fresh:
  assumes "space_ok its (snd s) (x # xs)" "is_active (snd s)"
  shows "\<exists>name space'. right_entry_alloc its mem env s = Some (KERN_SUCCESS, Some (name, TableEntry x), fst s, space') \<and>
    MACH_PORT_VALID name \<and> MACH_PORT_INDEX name = x \<and> rights (snd s) name = None \<and>
    is_self space' = is_self (snd s) \<and> x < is_table_size space' \<and> ie_object (is_table space' ! x) = IO_NULL \<and>
    (\<forall>bits obj. bits AND NOT IE_BITS_RIGHT_MASK = 0 \<and> IE_BITS_TYPE bits \<noteq> 0 \<longrightarrow>
       (let e = is_table space' ! x;
            space'' = put_entry space' (TableEntry x) (e\<lparr>ie_bits := ie_bits e OR bits, ie_object := obj\<rparr>)
        in space_ok its space'' xs \<and> rights space'' = (rights (snd s))(name \<mapsto> (bits, obj, 0))))"
  using entry_alloc_fresh [OF assms, of mem env "w_hash (fst s)"]
  by (elim exE conjE) (intro exI conjI; (assumption | simp add: right_entry_alloc_def))

lemma object_alloc_fresh:
  assumes "space_ok its (snd s) (x # xs)" "is_active (snd s)"
    and bits: "(type OR urefs) AND NOT IE_BITS_RIGHT_MASK = 0" "IE_BITS_TYPE (type OR urefs) \<noteq> 0"
  shows "\<exists>name space'. ipc_object_alloc its mem env (Some object) otype type urefs s =
      Some (KERN_SUCCESS, Some (name, object), object_start otype object (object_clear otype object (fst s)), space') \<and>
    MACH_PORT_VALID name \<and> MACH_PORT_INDEX name = x \<and> rights (snd s) name = None \<and> is_self space' = is_self (snd s) \<and>
    space_ok its space' xs \<and> rights space' = (rights (snd s))(name \<mapsto> (type OR urefs, object, 0))"
proof -
  let ?s = "on_world (object_clear otype object) s"
  from right_entry_alloc_fresh [of its ?s x xs mem env] assms(1,2) obtain name space' where
    a: "right_entry_alloc its mem env ?s = Some (KERN_SUCCESS, Some (name, TableEntry x), fst ?s, space')"
      "MACH_PORT_VALID name" "MACH_PORT_INDEX name = x" "rights (snd s) name = None" "is_self space' = is_self (snd s)"
      "x < is_table_size space'"
    and f: "\<And>bits obj. bits AND NOT IE_BITS_RIGHT_MASK = 0 \<and> IE_BITS_TYPE bits \<noteq> 0 \<longrightarrow>
       (let e = is_table space' ! x;
            space'' = put_entry space' (TableEntry x) (e\<lparr>ie_bits := ie_bits e OR bits, ie_object := obj\<rparr>)
        in space_ok its space'' xs \<and> rights space'' = (rights (snd s))(name \<mapsto> (bits, obj, 0)))"
    by (auto simp: on_world_def)
  let ?e = "is_table space' ! x"
  let ?sp = "put_entry space' (TableEntry x) (?e\<lparr>ie_bits := ie_bits ?e OR (type OR urefs), ie_object := object\<rparr>)"
  have "ipc_object_alloc its mem env (Some object) otype type urefs s =
      Some (KERN_SUCCESS, Some (name, object), object_start otype object (object_clear otype object (fst s)), ?sp)"
    using a(1,6) by (simp add: ipc_object_alloc_def upd_entry_def on_world_def)
  with a f [of "type OR urefs" object] bits show ?thesis by (intro exI [of _ name] exI [of _ ?sp]) (simp add: Let_def)
qed

lemma new_right_bits:
  "MACH_PORT_TYPE_RECEIVE AND NOT IE_BITS_RIGHT_MASK = 0" "IE_BITS_TYPE MACH_PORT_TYPE_RECEIVE \<noteq> 0"
  "MACH_PORT_TYPE_PORT_SET AND NOT IE_BITS_RIGHT_MASK = 0" "IE_BITS_TYPE MACH_PORT_TYPE_PORT_SET \<noteq> 0"
  "(MACH_PORT_TYPE_DEAD_NAME OR 1) AND NOT IE_BITS_RIGHT_MASK = 0" "IE_BITS_TYPE (MACH_PORT_TYPE_DEAD_NAME OR 1) \<noteq> 0"
  by (simp_all add: ipc_defs IE_BITS_TYPE_def)

definition allocated :: "nat list \<Rightarrow> nat list \<Rightarrow> nat \<Rightarrow> right_state \<Rightarrow> mach_port_t \<Rightarrow> natural_t \<Rightarrow> ipc_object_t \<Rightarrow> right_state \<Rightarrow> bool" where
  "allocated its xs x s name bits obj s' \<longleftrightarrow> MACH_PORT_VALID name \<and> MACH_PORT_INDEX name = x \<and> rights (snd s) name = None \<and>
     space_ok its (snd s') xs \<and> rights (snd s') = (rights (snd s))(name \<mapsto> (bits, obj, 0)) \<and> w_log (fst s') = w_log (fst s)"

lemma allocate_receive_fresh:
  assumes ok: "space_ok its (snd s) (x # xs)" "is_active (snd s)"
  shows "\<exists>name s'. allocate_receive its mem ite env (Some object) rt 0 qos_template n0 s = Some (KERN_SUCCESS, name, s') \<and>
    allocated its xs x s name MACH_PORT_TYPE_RECEIVE object s' \<and> new_port (is_self (snd s)) name (port_of s' object) \<and>
    (\<forall>p. p \<noteq> object \<longrightarrow> port_of s' p = port_of s p) \<and> w_psets (fst s') = w_psets (fst s)"
proof -
  let ?w = "object_start IOT_PORT object (object_clear IOT_PORT object (fst s))"
  from object_alloc_fresh [OF ok, of MACH_PORT_TYPE_RECEIVE 0 mem env object IOT_PORT] new_right_bits(1,2) obtain name sp where
    a: "ipc_object_alloc its mem env (Some object) IOT_PORT MACH_PORT_TYPE_RECEIVE 0 s = Some (KERN_SUCCESS, Some (name, object), ?w, sp)"
      "MACH_PORT_VALID name" "MACH_PORT_INDEX name = x" "rights (snd s) name = None" "is_self sp = is_self (snd s)" "space_ok its sp xs"
      "rights sp = (rights (snd s))(name \<mapsto> (MACH_PORT_TYPE_RECEIVE, object, 0))" by auto
  let ?s' = "(upd_port object (ipc_port_init (is_self sp) name) ?w, sp)"
  have "allocate_receive its mem ite env (Some object) rt 0 qos_template n0 s = Some (KERN_SUCCESS, name, ?s')"
    using a(1) by (simp add: allocate_receive_def qos_template_def ipc_port_alloc_def on_world_def)
  moreover have "allocated its xs x s name MACH_PORT_TYPE_RECEIVE object ?s'"
    using a by (simp add: allocated_def object_start_def object_clear_def)
  moreover have "new_port (is_self (snd s)) name (port_of ?s' object)"
    using a(5) by (simp add: new_port_def object_start_def ipc_port_init_def ipc_mqueue_init_def empty_mqueue_def
        object_clear_def zero_port_def io_active_def io_makebits_def bit.conj_disj_distrib2 ipc_defs)
  ultimately show ?thesis by (intro exI [of _ name] exI [of _ ?s']) (simp add: object_start_def object_clear_def)
qed

lemma allocate_pset_fresh:
  assumes ok: "space_ok its (snd s) (x # xs)" "is_active (snd s)"
  shows "\<exists>name s'. allocate_pset its mem ite env (Some object) qos_template n0 s = Some (KERN_SUCCESS, name, s') \<and>
    allocated its xs x s name MACH_PORT_TYPE_PORT_SET object s' \<and> new_pset name (w_psets (fst s') object) \<and>
    (\<forall>p. p \<noteq> object \<longrightarrow> w_psets (fst s') p = w_psets (fst s) p) \<and> w_ports (fst s') = w_ports (fst s)"
proof -
  let ?w = "object_start IOT_PORT_SET object (object_clear IOT_PORT_SET object (fst s))"
  from object_alloc_fresh [OF ok, of MACH_PORT_TYPE_PORT_SET 0 mem env object IOT_PORT_SET] new_right_bits(3,4) obtain name sp where
    a: "ipc_object_alloc its mem env (Some object) IOT_PORT_SET MACH_PORT_TYPE_PORT_SET 0 s = Some (KERN_SUCCESS, Some (name, object), ?w, sp)"
      "MACH_PORT_VALID name" "MACH_PORT_INDEX name = x" "rights (snd s) name = None" "space_ok its sp xs"
      "rights sp = (rights (snd s))(name \<mapsto> (MACH_PORT_TYPE_PORT_SET, object, 0))" by auto
  let ?s' = "(upd_pset object (\<lambda>p. p\<lparr>ips_local_name := name, ips_messages := ipc_mqueue_init (ips_messages p)\<rparr>) ?w, sp)"
  have o: "IOT_PORT_SET \<noteq> IOT_PORT" by (simp add: ipc_defs)
  have "allocate_pset its mem ite env (Some object) qos_template n0 s = Some (KERN_SUCCESS, name, ?s')"
    using a(1) by (simp add: allocate_pset_def qos_template_def ipc_pset_alloc_def on_world_def)
  moreover have "allocated its xs x s name MACH_PORT_TYPE_PORT_SET object ?s'"
    using a o by (simp add: allocated_def object_start_def object_clear_def)
  moreover have "new_pset name (w_psets (fst ?s') object)"
    using o by (simp add: new_pset_def object_start_def ipc_mqueue_init_def empty_mqueue_def
        object_clear_def zero_pset_def io_active_def io_makebits_def bit.conj_disj_distrib2) (simp add: ipc_defs)
  ultimately show ?thesis using o by (intro exI [of _ name] exI [of _ ?s']) (simp add: object_start_def object_clear_def)
qed

lemma allocate_dead_fresh:
  assumes ok: "space_ok its (snd s) (x # xs)" "is_active (snd s)"
  shows "\<exists>name s'. ipc_object_alloc_dead its mem env s = Some (KERN_SUCCESS, name, s') \<and>
    allocated its xs x s name (MACH_PORT_TYPE_DEAD_NAME OR 1) IO_NULL s' \<and> fst s' = fst s"
proof -
  from right_entry_alloc_fresh [OF ok, of mem env] obtain name sp where
    a: "right_entry_alloc its mem env s = Some (KERN_SUCCESS, Some (name, TableEntry x), fst s, sp)"
      "MACH_PORT_VALID name" "MACH_PORT_INDEX name = x" "rights (snd s) name = None" "x < is_table_size sp" "ie_object (is_table sp ! x) = IO_NULL"
    and f: "\<And>bits obj. bits AND NOT IE_BITS_RIGHT_MASK = 0 \<and> IE_BITS_TYPE bits \<noteq> 0 \<longrightarrow>
       (let e = is_table sp ! x;
            space'' = put_entry sp (TableEntry x) (e\<lparr>ie_bits := ie_bits e OR bits, ie_object := obj\<rparr>)
        in space_ok its space'' xs \<and> rights space'' = (rights (snd s))(name \<mapsto> (bits, obj, 0)))" by blast
  let ?e = "is_table sp ! x"
  let ?e' = "?e\<lparr>ie_bits := ie_bits ?e OR (MACH_PORT_TYPE_DEAD_NAME OR 1)\<rparr>"
  have e': "?e\<lparr>ie_bits := ie_bits ?e OR (MACH_PORT_TYPE_DEAD_NAME OR 1), ie_object := IO_NULL\<rparr> = ?e'"
    using a(6) by (cases "is_table sp ! x") simp
  have "ipc_object_alloc_dead its mem env s = Some (KERN_SUCCESS, name, fst s, put_entry sp (TableEntry x) ?e')"
    using a(1,5) by (simp add: ipc_object_alloc_dead_def upd_entry_def)
  moreover have "allocated its xs x s name (MACH_PORT_TYPE_DEAD_NAME OR 1) IO_NULL (fst s, put_entry sp (TableEntry x) ?e')"
    using a f [of "MACH_PORT_TYPE_DEAD_NAME OR 1" IO_NULL] new_right_bits(5,6) unfolding allocated_def Let_def e' by simp
  ultimately show ?thesis by auto
qed

text \<open>
  C21: \<open>mach_port_allocate\<close> in a space with a free slot makes a right of each of the three kinds it can
  make under a valid name that had no right, and adds exactly this right to the space, which stays
  well-formed. A new port is active, is received by the space under this name, and has no senders,
  no messages, no requests and no port set; a new port set is active and empty; a new dead name has
  one user reference. No other port and port set changes. Every other kind is refused and nothing
  changes.
\<close>

theorem mach_port_allocate_exact:
  assumes ok: "space_ok its (snd s) (x # xs)" "is_active (snd s)" and null: "\<not> null_space s"
  shows "case new_right right object of
      None \<Rightarrow> mach_port_allocate its mem ite env (Some object) rt right n0 s = Some (KERN_INVALID_VALUE, n0, s)
    | Some (bits, obj) \<Rightarrow> \<exists>name s'.
        mach_port_allocate its mem ite env (Some object) rt right n0 s = Some (KERN_SUCCESS, name, s') \<and>
        allocated its xs x s name bits obj s' \<and>
        (right = 1 \<longrightarrow> new_port (is_self (snd s)) name (port_of s' object)) \<and>
        (right = 3 \<longrightarrow> new_pset name (w_psets (fst s') object)) \<and>
        (\<forall>p. port_of s' p = port_of s p \<or> right = 1 \<and> p = object) \<and>
        (\<forall>p. w_psets (fst s') p = w_psets (fst s) p \<or> right = 3 \<and> p = object)"
proof -
  let ?m = "mach_port_allocate its mem ite env (Some object) rt right n0 s"
  note defs = mach_port_allocate_def mach_port_allocate_full_def Let_def right_of_number_def new_right_def
  have q: "\<not> qos_name qos_template" "\<not> qos_rt qos_template" by (simp_all add: qos_template_def)
  consider "right = 1" | "right = 3" | "right = 4" | "right \<noteq> 1" "right \<noteq> 3" "right \<noteq> 4" by blast
  then show ?thesis
  proof cases
    case 1
    then have "?m = allocate_receive its mem ite env (Some object) rt 0 qos_template n0 s" using null q by (simp add: defs)
    with allocate_receive_fresh [OF ok, of mem ite env object rt n0] 1 show ?thesis by (auto simp: defs)
  next
    case 2
    then have "?m = allocate_pset its mem ite env (Some object) qos_template n0 s" using null q by (simp add: defs)
    with allocate_pset_fresh [OF ok, of mem ite env object n0] 2 show ?thesis by (auto simp: defs)
  next
    case 3
    with allocate_dead_fresh [OF ok, of mem env] null q show ?thesis by (auto simp: defs)
  next
    case 4
    with null q show ?thesis by (simp add: defs)
  qed
qed

text \<open>
  C36: \<open>mach_port_allocate_name\<close> does not give a dead name the name it is asked for. Although its
  description names the dead name among the rights it makes under a specific name, it takes a name of
  the kernel's choice, reports success, and leaves the requested name as it was, in use or not.
\<close>

theorem allocate_dead_name_ignored:
  assumes ok: "space_ok its (snd s) (x # xs)" "is_active (snd s)" and null: "\<not> null_space s" "\<not> is_fast (snd s)"
    and name: "MACH_PORT_VALID name" "MACH_PORT_INDEX name \<noteq> x"
  shows "\<exists>name' s'. mach_port_allocate_name its mem ite env address rt 4 name s = Some (KERN_SUCCESS, s') \<and>
    name' \<noteq> name \<and> rights (snd s) name' = None \<and> rights (snd s') name = rights (snd s) name \<and>
    rights (snd s') name' = Some (MACH_PORT_TYPE_DEAD_NAME OR 1, IO_NULL, 0)"
proof -
  obtain name' s' where d: "ipc_object_alloc_dead its mem env s = Some (KERN_SUCCESS, name', s')"
      "allocated its xs x s name' (MACH_PORT_TYPE_DEAD_NAME OR 1) IO_NULL s'"
    using allocate_dead_fresh [OF ok, of mem env] by blast
  then have "mach_port_allocate_name its mem ite env address rt 4 name s = Some (KERN_SUCCESS, s')"
    using null name by (simp add: mach_port_allocate_name_def mach_port_allocate_full_def qos_template_def right_of_number_def)
  with d(2) name(2) show ?thesis by (intro exI [of _ name'] exI [of _ s']) (auto simp: allocated_def)
qed

theorem mach_port_allocate_exact_witness:
  "\<exists>name s'. mach_port_allocate example_sizes (\<lambda>_. True) True id (Some 0x300) False 1 0 example_names = Some (KERN_SUCCESS, name, s') \<and>
     new_port 0x1000 name (port_of s' 0x300) \<and> rights (snd s') name = Some (MACH_PORT_TYPE_RECEIVE, 0x300, 0)"
proof -
  have "new_right 1 0x300 = Some (MACH_PORT_TYPE_RECEIVE, 0x300)" by (simp add: new_right_def right_of_number_def)
  moreover have "is_active (snd example_names)" "\<not> null_space example_names" "is_self (snd example_names) = 0x1000"
    by (simp_all add: example_names_def example_space_def IS_NULL_def)
  ultimately show ?thesis
    using mach_port_allocate_exact [OF example_names_ok, where right = 1 and object = "0x300" and mem = "\<lambda>_. True" and
        ite = True and env = id and rt = False and ?n0.0 = 0]
    by (auto simp: allocated_def)
qed

theorem allocate_dead_name_ignored_witness:
  "\<exists>name' s'. mach_port_allocate_name example_sizes (\<lambda>_. True) True id None False 4 0x203 example_names = Some (KERN_SUCCESS, s') \<and>
     name' \<noteq> 0x203 \<and> rights (snd s') name' = Some (MACH_PORT_TYPE_DEAD_NAME OR 1, IO_NULL, 0)"
proof -
  have "is_active (snd example_names)" "\<not> null_space example_names" "\<not> is_fast (snd example_names)"
    "MACH_PORT_VALID 0x203" "MACH_PORT_INDEX 0x203 \<noteq> 3"
    by (simp_all add: example_names_def example_space_def IS_NULL_def MACH_PORT_VALID_def MACH_PORT_NULL_def MACH_PORT_DEAD_def MACH_PORT_INDEX_def)
  with allocate_dead_name_ignored [OF example_names_ok, of "0x203" "\<lambda>_. True" True id None False] show ?thesis by blast
qed

end
