(* ===== verification/Ipc_Queue.thy ===== *)
theory Ipc_Queue
  imports Ipc_Prelude
begin

text \<open>
  The queues of threads and of messages (\<open>ipc/ipc_thread.c\<close>, \<open>ipc/ipc_thread.h\<close>, \<open>ipc/ipc_kmsg.c\<close>,
  \<open>ipc/ipc_kmsg.h\<close>) on the level of pointers: circular doubly linked lists. A queue is the address of
  its first element; the heap holds the two links of every element.

  Both kinds of queue are instances of the locale \<open>fifo_queue\<close>: they hold a list of distinct
  elements, to which an element is added at the end and from which one is taken at the front or
  anywhere. The other theories use these lists for the queues.
\<close>

section \<open>Links\<close>

type_synonym link = "32 word"

record link_heap =
  lh_next :: "link \<Rightarrow> link"
  lh_prev :: "link \<Rightarrow> link"

definition set_lh_next :: "link \<Rightarrow> link \<Rightarrow> link_heap \<Rightarrow> link_heap" where
  "set_lh_next x y h = h\<lparr>lh_next := (lh_next h)(x := y)\<rparr>"

definition set_lh_prev :: "link \<Rightarrow> link \<Rightarrow> link_heap \<Rightarrow> link_heap" where
  "set_lh_prev x y h = h\<lparr>lh_prev := (lh_prev h)(x := y)\<rparr>"

lemma set_lh_simps [simp]:
  "lh_next (set_lh_next x y h) = (lh_next h)(x := y)" "lh_prev (set_lh_next x y h) = lh_prev h"
  "lh_prev (set_lh_prev x y h) = (lh_prev h)(x := y)" "lh_next (set_lh_prev x y h) = lh_next h"
  by (simp_all add: set_lh_next_def set_lh_prev_def)

section \<open>Queues of threads\<close>

definition ITH_NULL :: link where
  "ITH_NULL = 0"

definition ipc_thread_links_init :: "link \<Rightarrow> link_heap \<Rightarrow> link_heap" where
  "ipc_thread_links_init thread h = set_lh_prev thread thread (set_lh_next thread thread h)"

definition ipc_thread_enqueue :: "link \<Rightarrow> link \<Rightarrow> link_heap \<Rightarrow> link \<times> link_heap" where
  "ipc_thread_enqueue base thread h =
     (if base = ITH_NULL then (thread, h)
      else
        let last = lh_prev h base in
        (base, set_lh_next last thread (set_lh_prev base thread (set_lh_prev thread last (set_lh_next thread base h)))))"

definition ipc_thread_rmqueue_first :: "link \<Rightarrow> link \<Rightarrow> link_heap \<Rightarrow> link \<times> link_heap" where
  "ipc_thread_rmqueue_first base thread h =
     (let next = lh_next h thread in
      if next = thread then (ITH_NULL, h)
      else
        let prev = lh_prev h thread in
        (next, ipc_thread_links_init thread (set_lh_next prev next (set_lh_prev next prev h))))"

definition ipc_thread_dequeue :: "link \<Rightarrow> link_heap \<Rightarrow> link \<times> link \<times> link_heap" where
  "ipc_thread_dequeue base h =
     (if base \<noteq> ITH_NULL then (base, ipc_thread_rmqueue_first base base h) else (base, base, h))"

definition ipc_thread_rmqueue :: "link \<Rightarrow> link \<Rightarrow> link_heap \<Rightarrow> link \<times> link_heap" where
  "ipc_thread_rmqueue base thread h =
     (let next = lh_next h thread; prev = lh_prev h thread in
      if next = thread then (ITH_NULL, h)
      else (if base = thread then next else base,
            ipc_thread_links_init thread (set_lh_next prev next (set_lh_prev next prev h))))"

text \<open>The loop of \<open>ipc_thread_inqueue\<close>.\<close>

partial_function (option) inqueue_loop :: "link_heap \<Rightarrow> link \<Rightarrow> link \<Rightarrow> link \<Rightarrow> bool option" where
  "inqueue_loop h base thread next =
     (if next \<noteq> base then
        if next = thread then Some True else inqueue_loop h base thread (lh_next h next)
      else Some False)"

declare inqueue_loop.simps [code]

definition ipc_thread_inqueue :: "link \<Rightarrow> link \<Rightarrow> link_heap \<Rightarrow> bool option" where
  "ipc_thread_inqueue base thread h =
     (if base = ITH_NULL then Some False
      else if base = thread then Some True
      else inqueue_loop h base thread (lh_next h base))"

section \<open>Queues of messages\<close>

definition IKM_NULL :: link where
  "IKM_NULL = 0"

definition IKM_BOGUS :: link where
  "IKM_BOGUS = 0xffffff10"

definition ikm_bogus_links :: "link \<Rightarrow> link_heap \<Rightarrow> link_heap" where
  "ikm_bogus_links kmsg h = set_lh_prev kmsg IKM_BOGUS (set_lh_next kmsg IKM_BOGUS h)"

definition ipc_kmsg_enqueue :: "link \<Rightarrow> link \<Rightarrow> link_heap \<Rightarrow> link \<times> link_heap" where
  "ipc_kmsg_enqueue base kmsg h =
     (if base = IKM_NULL then (kmsg, set_lh_prev kmsg kmsg (set_lh_next kmsg kmsg h))
      else
        let last = lh_prev h base in
        (base, set_lh_next last kmsg (set_lh_prev base kmsg (set_lh_prev kmsg last (set_lh_next kmsg base h)))))"

definition ipc_kmsg_rmqueue_first :: "link \<Rightarrow> link \<Rightarrow> link_heap \<Rightarrow> link \<times> link_heap" where
  "ipc_kmsg_rmqueue_first base kmsg h =
     (let next = lh_next h kmsg in
      if next = kmsg then (IKM_NULL, ikm_bogus_links kmsg h)
      else
        let prev = lh_prev h kmsg in
        (next, ikm_bogus_links kmsg (set_lh_next prev next (set_lh_prev next prev h))))"

definition ipc_kmsg_dequeue :: "link \<Rightarrow> link_heap \<Rightarrow> link \<times> link \<times> link_heap" where
  "ipc_kmsg_dequeue base h =
     (if base \<noteq> IKM_NULL then (base, ipc_kmsg_rmqueue_first base base h) else (base, base, h))"

definition ipc_kmsg_rmqueue :: "link \<Rightarrow> link \<Rightarrow> link_heap \<Rightarrow> link \<times> link_heap" where
  "ipc_kmsg_rmqueue base kmsg h =
     (let next = lh_next h kmsg; prev = lh_prev h kmsg in
      if next = kmsg then (IKM_NULL, ikm_bogus_links kmsg h)
      else (if base = kmsg then next else base,
            ikm_bogus_links kmsg (set_lh_next prev next (set_lh_prev next prev h))))"

definition ipc_kmsg_queue_next :: "link \<Rightarrow> link \<Rightarrow> link_heap \<Rightarrow> link" where
  "ipc_kmsg_queue_next base kmsg h = (let next = lh_next h kmsg in if base = next then IKM_NULL else next)"

section \<open>Circular lists\<close>

fun linked :: "link_heap \<Rightarrow> link list \<Rightarrow> bool" where
  "linked h (a # b # xs) \<longleftrightarrow> lh_next h a = b \<and> lh_prev h b = a \<and> linked h (b # xs)"
| "linked h _ \<longleftrightarrow> True"

definition circular :: "link_heap \<Rightarrow> link \<Rightarrow> link list \<Rightarrow> bool" where
  "circular h base xs \<longleftrightarrow> base = (if xs = [] then 0 else hd xs) \<and> distinct xs \<and> 0 \<notin> set xs \<and>
     linked h (xs @ take 1 xs)"

lemma linked_append: "linked h (xs @ a # ys) \<longleftrightarrow> linked h (xs @ [a]) \<and> linked h (a # ys)"
  by (induction xs rule: induct_list012) (cases ys; simp)+

lemma linked_cong:
  assumes "\<And>x. x \<in> set (butlast xs) \<Longrightarrow> lh_next h' x = lh_next h x" "\<And>x. x \<in> set (tl xs) \<Longrightarrow> lh_prev h' x = lh_prev h x"
  shows "linked h' xs = linked h xs"
  using assms by (induction xs rule: induct_list012) auto

lemma circular_rotate: "linked h (as @ x # bs @ take 1 (as @ [x])) \<longleftrightarrow> linked h (x # bs @ as @ [x])"
proof (cases as)
  case (Cons a as')
  then show ?thesis
    using linked_append [of h "a # as'" x "bs @ [a]"] linked_append [of h "x # bs" a "as' @ [x]"]
    by (auto simp: linked_append [of h "x # bs" a "[]"] simp del: linked.simps)
qed simp

lemma circular_frame:
  assumes "circular h base xs" "\<And>x. x \<in> set xs \<Longrightarrow> lh_next h' x = lh_next h x \<and> lh_prev h' x = lh_prev h x"
  shows "circular h' base xs"
proof -
  have "set (butlast (xs @ take 1 xs)) \<subseteq> set xs" "set (tl (xs @ take 1 xs)) \<subseteq> set xs"
    by (cases xs; auto simp: butlast_append dest: in_set_butlastD)+
  with assms linked_cong [of "xs @ take 1 xs" h' h] show ?thesis by (auto simp: circular_def)
qed

lemma ends:
  assumes "xs \<noteq> []"
  shows "take 1 xs = [hd xs]" "xs @ [y] = butlast xs @ last xs # [y]" "xs @ [y] = hd xs # tl xs @ [y]"
    "xs = butlast xs @ [last xs]" "xs = hd xs # tl xs"
    "distinct xs \<Longrightarrow> last xs \<notin> set (butlast xs)" "distinct xs \<Longrightarrow> hd xs \<notin> set (tl xs)"
proof -
  show "take 1 xs = [hd xs]" "xs @ [y] = hd xs # tl xs @ [y]" "xs = hd xs # tl xs" using assms by (cases xs; simp)+
  show "distinct xs \<Longrightarrow> hd xs \<notin> set (tl xs)" using assms by (cases xs) simp_all
  obtain ys l where "xs = ys @ [l]" using assms by (metis rev_exhaust)
  then show "xs @ [y] = butlast xs @ last xs # [y]" "xs = butlast xs @ [last xs]"
    "distinct xs \<Longrightarrow> last xs \<notin> set (butlast xs)" by simp_all
qed

lemma circular_last:
  assumes "circular h base xs" "xs \<noteq> []"
  shows "lh_prev h base = last xs" "base = hd xs"
proof -
  have "linked h (xs @ [hd xs])" using assms ends(1) [OF assms(2)] by (simp add: circular_def)
  then have "linked h (last xs # [hd xs])" unfolding ends(2) [OF assms(2)] using linked_append by blast
  then show "lh_prev h base = last xs" "base = hd xs" using assms by (simp_all add: circular_def)
qed

lemma circular_enqueue:
  assumes c: "circular h base xs" "xs \<noteq> []" and x: "x \<notin> set xs" "x \<noteq> 0"
  defines "l \<equiv> lh_prev h base"
  shows "circular (set_lh_next l x (set_lh_prev base x (set_lh_prev x l (set_lh_next x base h)))) base (xs @ [x])"
proof -
  let ?h = "set_lh_next l x (set_lh_prev base x (set_lh_prev x l (set_lh_next x base h)))"
  note L = circular_last [OF c] and E = ends [OF c(2)]
  have l: "l = last xs" "base = hd xs" using L by (simp_all add: l_def)
  have d: "distinct xs" and lk: "linked h (xs @ [base])" using c(1) E(1) l by (simp_all add: circular_def)
  have n: "l \<notin> set (butlast xs)" "base \<notin> set (tl xs)" "l \<in> set xs" "base \<in> set xs"
    using E(6,7) [OF d] c(2) by (simp_all add: l)
  have "linked h (butlast xs @ [last xs])" using lk unfolding E(2) [of base] using linked_append by blast
  then have "linked h xs" using E(4) by simp
  moreover have "linked ?h xs = linked h xs"
    by (rule linked_cong) (use n x in \<open>auto dest: in_set_butlastD list.set_sel(2) [OF c(2)]\<close>)
  ultimately have "linked ?h xs" by simp
  moreover have "linked ?h [l, x, base]" using x n by auto
  ultimately have "linked ?h (butlast xs @ l # [x, base])"
    unfolding linked_append [of ?h "butlast xs" l "[x, base]"] using E(4) by (simp add: l)
  moreover have "butlast xs @ l # [x, base] = (xs @ [x]) @ [base]" using E(2) [of x] by (simp add: l)
  moreover have "take 1 (xs @ [x]) = [base]" using E(1) c(2) l by (cases xs) simp_all
  ultimately have "linked ?h ((xs @ [x]) @ take 1 (xs @ [x]))" by (simp only:)
  then show ?thesis using c x l d by (simp add: circular_def)
qed

lemma linked_close:
  assumes lk: "linked h (x # ys @ [x])" and ys: "ys \<noteq> []" "distinct ys"
  shows "lh_next h x = hd ys" "lh_prev h x = last ys"
    "linked (set_lh_next (last ys) (hd ys) (set_lh_prev (hd ys) (last ys) h)) (ys @ [hd ys])"
proof -
  let ?h = "set_lh_next (last ys) (hd ys) (set_lh_prev (hd ys) (last ys) h)"
  note E = ends [OF ys(1)]
  have a: "lh_next h x = hd ys" "linked h (ys @ [x])" using lk unfolding E(3) [of x] by simp_all
  have "linked h (last ys # [x])" "linked h (butlast ys @ [last ys])" using a(2) linked_append unfolding E(2) [of x] by blast+
  then have b: "lh_prev h x = last ys" "linked h ys" using E(4) by simp_all
  have "linked ?h ys = linked h ys" by (rule linked_cong) (use E(6,7) [OF ys(2)] in auto)
  then have "linked ?h (butlast ys @ [last ys])" using b(2) E(4) by simp
  moreover have "linked ?h (last ys # [hd ys])" by simp
  ultimately have "linked ?h (ys @ [hd ys])" unfolding E(2) [of "hd ys"] using linked_append by blast
  with a b show "lh_next h x = hd ys" "lh_prev h x = last ys" "linked ?h (ys @ [hd ys])" by simp_all
qed

lemma circular_split:
  assumes "circular h base (as @ x # bs)"
  shows "linked h (x # (bs @ as) @ [x])" "distinct (bs @ as)" "x \<notin> set (bs @ as)" "0 \<notin> set (bs @ as)" "base = hd (as @ [x])"
  using assms circular_rotate [of h as x bs] by (cases as; auto simp: circular_def)+

lemma circular_alone:
  assumes "circular h base (as @ x # bs)"
  shows "lh_next h x = x \<longleftrightarrow> bs @ as = []"
  using circular_split(1-3) [OF assms] linked_close(1) [of h x "bs @ as"] hd_in_set [of "bs @ as"]
  by (cases "bs @ as = []") (simp, metis)

lemma circular_unlink:
  assumes c: "circular h base (as @ x # bs)" and ne: "bs @ as \<noteq> []"
  defines "n \<equiv> lh_next h x" and "p \<equiv> lh_prev h x"
  shows "circular (set_lh_next p n (set_lh_prev n p h)) (if base = x then n else base) (as @ bs)"
proof -
  let ?h = "set_lh_next p n (set_lh_prev n p h)"
  note S = circular_split [OF c] and C = linked_close [OF circular_split(1) [OF c] ne circular_split(2) [OF c]]
  have n: "n = hd (bs @ as)" using C(1) by (simp add: n_def)
  have y: "linked ?h ((bs @ as) @ [n])" using C by (simp add: n_def p_def)
  have "linked ?h ((as @ bs) @ take 1 (as @ bs))"
  proof (cases bs)
    case Nil
    then show ?thesis using y n ne by (cases as) auto
  next
    case (Cons b bs')
    then show ?thesis using circular_rotate [of ?h as b bs'] y n by (cases as) auto
  qed
  moreover have "(if base = x then n else base) = hd (as @ bs)" using S(3,5) n by (cases as) auto
  ultimately show ?thesis using S ne by (auto simp: circular_def)
qed

section \<open>The interface of a queue\<close>

text \<open>The operations on a queue as operations on a list; the elements come from the set \<open>U\<close>.\<close>

datatype queue_op = Enqueue link | Dequeue | Remove link

fun queue_spec :: "queue_op \<Rightarrow> link list \<Rightarrow> link \<times> link list" where
  "queue_spec (Enqueue x) xs = (x, xs @ [x])"
| "queue_spec Dequeue xs = (case xs of [] \<Rightarrow> (0, []) | x # ys \<Rightarrow> (x, ys))"
| "queue_spec (Remove x) xs = (x, remove1 x xs)"

fun queue_op_ok :: "link set \<Rightarrow> queue_op \<Rightarrow> link list \<Rightarrow> bool" where
  "queue_op_ok U (Enqueue x) xs \<longleftrightarrow> x \<in> U \<and> x \<notin> set xs \<and> x \<noteq> 0"
| "queue_op_ok U Dequeue xs \<longleftrightarrow> True"
| "queue_op_ok U (Remove x) xs \<longleftrightarrow> x \<in> set xs"

fun queue_run :: "queue_op list \<Rightarrow> link list \<Rightarrow> link list \<times> link list" where
  "queue_run [] xs = ([], xs)"
| "queue_run (op # ops) xs = (case queue_spec op xs of (r, ys) \<Rightarrow> case queue_run ops ys of (rs, zs) \<Rightarrow> (r # rs, zs))"

fun queue_run_ok :: "link set \<Rightarrow> queue_op list \<Rightarrow> link list \<Rightarrow> bool" where
  "queue_run_ok U [] xs \<longleftrightarrow> True"
| "queue_run_ok U (op # ops) xs \<longleftrightarrow> queue_op_ok U op xs \<and> queue_run_ok U ops (snd (queue_spec op xs))"

text \<open>The same operations on the links, given the three functions of a kind of queue.\<close>

definition queue_step ::
  "(link \<Rightarrow> link \<Rightarrow> link_heap \<Rightarrow> link \<times> link_heap) \<Rightarrow> (link \<Rightarrow> link_heap \<Rightarrow> link \<times> link \<times> link_heap) \<Rightarrow>
   (link \<Rightarrow> link \<Rightarrow> link_heap \<Rightarrow> link \<times> link_heap) \<Rightarrow> queue_op \<Rightarrow> link \<times> link_heap \<Rightarrow> link \<times> link \<times> link_heap" where
  "queue_step enq deq rm op s = (case op of
     Enqueue x \<Rightarrow> (x, enq (fst s) x (snd s))
   | Dequeue \<Rightarrow> deq (fst s) (snd s)
   | Remove x \<Rightarrow> (x, rm (fst s) x (snd s)))"

fun queue_exec ::
  "(link \<Rightarrow> link \<Rightarrow> link_heap \<Rightarrow> link \<times> link_heap) \<Rightarrow> (link \<Rightarrow> link_heap \<Rightarrow> link \<times> link \<times> link_heap) \<Rightarrow>
   (link \<Rightarrow> link \<Rightarrow> link_heap \<Rightarrow> link \<times> link_heap) \<Rightarrow> queue_op list \<Rightarrow> link \<times> link_heap \<Rightarrow> link list \<times> link \<times> link_heap" where
  "queue_exec enq deq rm [] s = ([], s)"
| "queue_exec enq deq rm (op # ops) s =
     (case queue_step enq deq rm op s of (r, s1) \<Rightarrow> case queue_exec enq deq rm ops s1 of (rs, s2) \<Rightarrow> (r # rs, s2))"

text \<open>
  What the callers of a queue rely on: \<open>rep h q xs\<close> says that the queue \<open>q\<close> holds the elements \<open>xs\<close>, and
  \<open>ready h x\<close> that \<open>x\<close> is in no queue and may be enqueued. An operation changes no other queue.
\<close>

locale fifo_queue =
  fixes rep :: "link_heap \<Rightarrow> link \<Rightarrow> link list \<Rightarrow> bool" and ready :: "link_heap \<Rightarrow> link \<Rightarrow> bool"
    and enq :: "link \<Rightarrow> link \<Rightarrow> link_heap \<Rightarrow> link \<times> link_heap"
    and deq :: "link \<Rightarrow> link_heap \<Rightarrow> link \<times> link \<times> link_heap"
    and rm :: "link \<Rightarrow> link \<Rightarrow> link_heap \<Rightarrow> link \<times> link_heap"
  assumes enq_rep: "rep h q xs \<Longrightarrow> x \<notin> set xs \<Longrightarrow> x \<noteq> 0 \<Longrightarrow> ready h x \<Longrightarrow> enq q x h = (q', h') \<Longrightarrow> rep h' q' (xs @ [x])"
    and enq_ready: "rep h q xs \<Longrightarrow> enq q x h = (q', h') \<Longrightarrow> ready h y \<Longrightarrow> y \<notin> insert x (set xs) \<Longrightarrow> ready h' y"
    and enq_frame: "rep h q xs \<Longrightarrow> enq q x h = (q', h') \<Longrightarrow> rep h p ys \<Longrightarrow> set ys \<inter> insert x (set xs) = {} \<Longrightarrow> rep h' p ys"
    and rm_rep: "rep h q (as @ x # bs) \<Longrightarrow> rm q x h = (q', h') \<Longrightarrow> rep h' q' (as @ bs) \<and> ready h' x"
    and rm_ready: "rep h q xs \<Longrightarrow> x \<in> set xs \<Longrightarrow> rm q x h = (q', h') \<Longrightarrow> ready h y \<Longrightarrow> y \<notin> set xs \<Longrightarrow> ready h' y"
    and rm_frame: "rep h q xs \<Longrightarrow> x \<in> set xs \<Longrightarrow> rm q x h = (q', h') \<Longrightarrow> rep h p ys \<Longrightarrow> set ys \<inter> set xs = {} \<Longrightarrow> rep h' p ys"
    and deq_empty: "rep h q [] \<Longrightarrow> deq q h = (0, q, h)"
    and deq_first: "rep h q (x # xs) \<Longrightarrow> deq q h = (x, rm q x h)"
    and rep_distinct: "rep h q xs \<Longrightarrow> distinct xs"
begin

lemma step_refines:
  assumes "rep h q xs" "\<forall>y \<in> U - set xs. ready h y" "queue_op_ok U op xs" "queue_step enq deq rm op (q, h) = (r, q', h')"
  shows "r = fst (queue_spec op xs)" "rep h' q' (snd (queue_spec op xs))" "\<forall>y \<in> U - set (snd (queue_spec op xs)). ready h' y"
proof -
  have rem: "rep h' q' (as @ bs) \<and> (\<forall>y \<in> U - set (as @ bs). ready h' y)"
    if "xs = as @ x # bs" "rm q x h = (q', h')" for as x bs
    using rm_rep [of h q as x bs q' h'] rm_ready [of h q xs x q' h'] assms(1,2) that by auto
  show "r = fst (queue_spec op xs)"
    using assms deq_empty [of h q] deq_first [of h q] by (cases op; cases xs) (auto simp: queue_step_def)
  have "rep h' q' (snd (queue_spec op xs)) \<and> (\<forall>y \<in> U - set (snd (queue_spec op xs)). ready h' y)"
  proof (cases op)
    case (Enqueue x)
    then show ?thesis
      using assms enq_rep [of h q xs x q' h'] enq_ready [of h q xs x q' h'] by (auto simp: queue_step_def)
  next
    case Dequeue
    then show ?thesis
      using assms rem [of "[]"] deq_empty [of h q] deq_first [of h q] by (cases xs) (auto simp: queue_step_def)
  next
    case (Remove x)
    then obtain as bs where "xs = as @ x # bs" "x \<notin> set as" using assms(3) by (auto dest: split_list_first)
    with Remove assms(4) rem [of as x bs] show ?thesis by (auto simp: queue_step_def remove1_append)
  qed
  then show "rep h' q' (snd (queue_spec op xs))" "\<forall>y \<in> U - set (snd (queue_spec op xs)). ready h' y" by simp_all
qed

lemma run_refines:
  assumes "rep h q xs" "\<forall>y \<in> U - set xs. ready h y" "queue_run_ok U ops xs" "queue_exec enq deq rm ops (q, h) = (rs, q', h')"
  shows "rs = fst (queue_run ops xs) \<and> rep h' q' (snd (queue_run ops xs))"
  using assms
proof (induction ops arbitrary: h q xs rs)
  case (Cons op ops)
  obtain r q1 h1 where s: "queue_step enq deq rm op (q, h) = (r, q1, h1)" by (metis prod_cases3)
  obtain rs1 where r: "queue_exec enq deq rm ops (q1, h1) = (rs1, q', h')" "rs = r # rs1" using Cons.prems(4) s by (auto split: prod.splits)
  have ok: "queue_op_ok U op xs" "queue_run_ok U ops (snd (queue_spec op xs))" using Cons.prems(3) by simp_all
  note S = step_refines [OF Cons.prems(1,2) ok(1) s]
  from Cons.IH [OF S(2,3) ok(2) r(1)] S(1) r(2) show ?case by (auto split: prod.splits)
qed simp

end

section \<open>The two kinds of queue\<close>

text \<open>A thread that is in no queue is linked to itself.\<close>

definition thread_ready :: "link_heap \<Rightarrow> link \<Rightarrow> bool" where
  "thread_ready h x \<longleftrightarrow> lh_next h x = x \<and> lh_prev h x = x"

text \<open>The addresses whose links an operation writes.\<close>

lemma circular_neighbours:
  assumes "circular h base (as @ x # bs)"
  shows "lh_next h x \<in> set (as @ x # bs)" "lh_prev h x \<in> set (as @ x # bs)"
proof -
  have "lh_next h x \<in> insert x (set (bs @ as)) \<and> lh_prev h x \<in> insert x (set (bs @ as))"
  proof (cases "bs @ as = []")
    case True
    then show ?thesis using circular_split(1) [OF assms] by simp
  next
    case False
    then show ?thesis
      using linked_close(1,2) [OF circular_split(1) [OF assms] False circular_split(2) [OF assms]] hd_in_set [OF False] last_in_set [OF False]
      by simp
  qed
  then show "lh_next h x \<in> set (as @ x # bs)" "lh_prev h x \<in> set (as @ x # bs)" by auto
qed

lemma circular_written:
  assumes "circular h base xs" "xs \<noteq> []"
  shows "base \<in> set xs" "lh_prev h base \<in> set xs" "base \<noteq> 0"
proof -
  have "base = hd xs" "0 \<notin> set xs" using assms by (simp_all add: circular_def)
  with circular_last(1) [OF assms] hd_in_set [OF assms(2)] last_in_set [OF assms(2)]
  show "base \<in> set xs" "lh_prev h base \<in> set xs" "base \<noteq> 0" by auto
qed

lemma thread_rmqueue_cases:
  assumes c: "circular h base (as @ x # bs)" and r: "ipc_thread_rmqueue base x h = (q', h')"
  shows "circular h' q' (as @ bs)" "thread_ready h' x"
    "y \<notin> set (as @ x # bs) \<Longrightarrow> lh_next h' y = lh_next h y \<and> lh_prev h' y = lh_prev h y"
proof -
  let ?n = "lh_next h x" and ?p = "lh_prev h x"
  have "circular h' q' (as @ bs) \<and> thread_ready h' x \<and> (y \<notin> set (as @ x # bs) \<longrightarrow> lh_next h' y = lh_next h y \<and> lh_prev h' y = lh_prev h y)"
  proof (cases "bs @ as = []")
    case True
    then show ?thesis
      using r circular_split(1) [OF c] by (simp add: ipc_thread_rmqueue_def ITH_NULL_def circular_def thread_ready_def)
  next
    case False
    then have n: "?n \<noteq> x" using circular_alone [OF c] by simp
    then have r': "q' = (if base = x then ?n else base)" "h' = ipc_thread_links_init x (set_lh_next ?p ?n (set_lh_prev ?n ?p h))"
      using r by (simp_all add: ipc_thread_rmqueue_def Let_def)
    have "circular h' q' (as @ bs)"
      by (rule circular_frame [OF circular_unlink [OF c False], folded r'(1)])
        (use circular_split(3) [OF c] in \<open>auto simp: r'(2) ipc_thread_links_init_def\<close>)
    with circular_neighbours [OF c] show ?thesis by (auto simp: r'(2) ipc_thread_links_init_def thread_ready_def)
  qed
  then show "circular h' q' (as @ bs)" "thread_ready h' x"
    "y \<notin> set (as @ x # bs) \<Longrightarrow> lh_next h' y = lh_next h y \<and> lh_prev h' y = lh_prev h y" by blast+
qed

lemma kmsg_rmqueue_cases:
  assumes c: "circular h base (as @ x # bs)" and r: "ipc_kmsg_rmqueue base x h = (q', h')"
  shows "circular h' q' (as @ bs)" "y \<notin> set (as @ x # bs) \<Longrightarrow> lh_next h' y = lh_next h y \<and> lh_prev h' y = lh_prev h y"
proof -
  let ?n = "lh_next h x" and ?p = "lh_prev h x"
  have "circular h' q' (as @ bs) \<and> (y \<notin> set (as @ x # bs) \<longrightarrow> lh_next h' y = lh_next h y \<and> lh_prev h' y = lh_prev h y)"
  proof (cases "bs @ as = []")
    case True
    then show ?thesis
      using r circular_split(1) [OF c] by (auto simp: ipc_kmsg_rmqueue_def IKM_NULL_def circular_def ikm_bogus_links_def)
  next
    case False
    then have n: "?n \<noteq> x" using circular_alone [OF c] by simp
    then have r': "q' = (if base = x then ?n else base)" "h' = ikm_bogus_links x (set_lh_next ?p ?n (set_lh_prev ?n ?p h))"
      using r by (simp_all add: ipc_kmsg_rmqueue_def Let_def)
    have "circular h' q' (as @ bs)"
      by (rule circular_frame [OF circular_unlink [OF c False], folded r'(1)])
        (use circular_split(3) [OF c] in \<open>auto simp: r'(2) ikm_bogus_links_def\<close>)
    with circular_neighbours [OF c] show ?thesis by (auto simp: r'(2) ikm_bogus_links_def)
  qed
  then show "circular h' q' (as @ bs)"
    "y \<notin> set (as @ x # bs) \<Longrightarrow> lh_next h' y = lh_next h y \<and> lh_prev h' y = lh_prev h y" by blast+
qed

lemma thread_enqueue_frame:
  assumes "circular h q xs" "ipc_thread_enqueue q x h = (q', h')" "y \<notin> insert x (set xs)"
  shows "lh_next h' y = lh_next h y" "lh_prev h' y = lh_prev h y"
  using assms circular_written [OF assms(1)]
  by (cases "xs = []"; auto simp: ipc_thread_enqueue_def ITH_NULL_def Let_def circular_def split: if_splits)+

lemma kmsg_enqueue_frame:
  assumes "circular h q xs" "ipc_kmsg_enqueue q x h = (q', h')" "y \<notin> insert x (set xs)"
  shows "lh_next h' y = lh_next h y" "lh_prev h' y = lh_prev h y"
  using assms circular_written [OF assms(1)]
  by (cases "xs = []"; auto simp: ipc_kmsg_enqueue_def IKM_NULL_def Let_def circular_def split: if_splits)+

lemma first_is_rmqueue:
  "ipc_thread_rmqueue_first base base h = ipc_thread_rmqueue base base h"
  "ipc_kmsg_rmqueue_first base base h = ipc_kmsg_rmqueue base base h"
  by (simp_all add: ipc_thread_rmqueue_first_def ipc_thread_rmqueue_def ipc_kmsg_rmqueue_first_def ipc_kmsg_rmqueue_def Let_def)

interpretation threads: fifo_queue circular thread_ready ipc_thread_enqueue ipc_thread_dequeue ipc_thread_rmqueue
proof
  show "circular h' q' (xs @ [x])"
    if "circular h q xs" "x \<notin> set xs" "x \<noteq> 0" "thread_ready h x" "ipc_thread_enqueue q x h = (q', h')" for h q xs x q' h'
    using that circular_enqueue [of h q xs x] circular_written [of h q xs]
    by (cases "xs = []") (auto simp: ipc_thread_enqueue_def ITH_NULL_def Let_def circular_def thread_ready_def)
  show "thread_ready h' y"
    if "circular h q xs" "ipc_thread_enqueue q x h = (q', h')" "thread_ready h y" "y \<notin> insert x (set xs)" for h q xs x q' h' y
    using thread_enqueue_frame [OF that(1,2,4)] that(3) by (simp add: thread_ready_def)
  show "circular h' p ys"
    if "circular h q xs" "ipc_thread_enqueue q x h = (q', h')" "circular h p ys" "set ys \<inter> insert x (set xs) = {}" for h q xs x q' h' p ys
    by (rule circular_frame [OF that(3)]) (use thread_enqueue_frame [OF that(1,2)] that(4) in blast)
  show "circular h' q' (as @ bs) \<and> thread_ready h' x"
    if "circular h q (as @ x # bs)" "ipc_thread_rmqueue q x h = (q', h')" for h q as x bs q' h'
    using thread_rmqueue_cases [OF that] by blast
  show "thread_ready h' y"
    if "circular h q xs" "x \<in> set xs" "ipc_thread_rmqueue q x h = (q', h')" "thread_ready h y" "y \<notin> set xs" for h q xs x q' h' y
    using that thread_rmqueue_cases(3) [of h q _ x _ q' h' y] split_list [OF that(2)] by (auto simp: thread_ready_def)
  show "circular h' p ys"
    if "circular h q xs" "x \<in> set xs" "ipc_thread_rmqueue q x h = (q', h')" "circular h p ys" "set ys \<inter> set xs = {}" for h q xs x q' h' p ys
    by (rule circular_frame [OF that(4)])
      (use that thread_rmqueue_cases(3) [of h q _ x _ q' h'] split_list [OF that(2)] in blast)
  show "ipc_thread_dequeue q h = (0, q, h)" if "circular h q []" for h q
    using that by (simp add: ipc_thread_dequeue_def ITH_NULL_def circular_def)
  show "ipc_thread_dequeue q h = (x, ipc_thread_rmqueue q x h)" if "circular h q (x # xs)" for h q x xs
    using that first_is_rmqueue(1) [of q h] by (auto simp: ipc_thread_dequeue_def ITH_NULL_def circular_def)
  show "distinct xs" if "circular h q xs" for h q xs using that by (simp add: circular_def)
qed

interpretation kmsgs: fifo_queue circular "\<lambda>h x. True" ipc_kmsg_enqueue ipc_kmsg_dequeue ipc_kmsg_rmqueue
proof
  show "circular h' q' (xs @ [x])"
    if "circular h q xs" "x \<notin> set xs" "x \<noteq> 0" "ipc_kmsg_enqueue q x h = (q', h')" for h q xs x q' h'
    using that circular_enqueue [of h q xs x] circular_written [of h q xs]
    by (cases "xs = []") (auto simp: ipc_kmsg_enqueue_def IKM_NULL_def Let_def circular_def)
  show "circular h' p ys"
    if "circular h q xs" "ipc_kmsg_enqueue q x h = (q', h')" "circular h p ys" "set ys \<inter> insert x (set xs) = {}" for h q xs x q' h' p ys
    by (rule circular_frame [OF that(3)]) (use kmsg_enqueue_frame [OF that(1,2)] that(4) in blast)
  show "circular h' q' (as @ bs) \<and> True"
    if "circular h q (as @ x # bs)" "ipc_kmsg_rmqueue q x h = (q', h')" for h q as x bs q' h'
    using kmsg_rmqueue_cases [OF that] by blast
  show "circular h' p ys"
    if "circular h q xs" "x \<in> set xs" "ipc_kmsg_rmqueue q x h = (q', h')" "circular h p ys" "set ys \<inter> set xs = {}" for h q xs x q' h' p ys
    by (rule circular_frame [OF that(4)])
      (use that kmsg_rmqueue_cases(2) [of h q _ x _ q' h'] split_list [OF that(2)] in blast)
  show "ipc_kmsg_dequeue q h = (0, q, h)" if "circular h q []" for h q
    using that by (simp add: ipc_kmsg_dequeue_def IKM_NULL_def circular_def)
  show "ipc_kmsg_dequeue q h = (x, ipc_kmsg_rmqueue q x h)" if "circular h q (x # xs)" for h q x xs
    using that first_is_rmqueue(2) [of q h] by (auto simp: ipc_kmsg_dequeue_def IKM_NULL_def circular_def)
  show "distinct xs" if "circular h q xs" for h q xs using that by (simp add: circular_def)
qed simp_all

section \<open>Searching a queue\<close>

lemma inqueue_walk:
  assumes "linked h (x # ys @ [base])" "base \<notin> set (x # ys)"
  shows "inqueue_loop h base thread x = Some (thread \<in> set (x # ys))"
  using assms
proof (induction ys arbitrary: x)
  case Nil
  then show ?case by (subst inqueue_loop.simps, subst inqueue_loop.simps) auto
next
  case (Cons y ys)
  then have "lh_next h x = y" "inqueue_loop h base thread y = Some (thread \<in> set (y # ys))" by auto
  with Cons.prems(2) show ?case by (subst inqueue_loop.simps) auto
qed

lemma inqueue_exact:
  assumes "circular h q xs"
  shows "ipc_thread_inqueue q thread h = Some (thread \<in> set xs)"
proof (cases xs)
  case Nil
  then show ?thesis using assms by (simp add: ipc_thread_inqueue_def ITH_NULL_def circular_def)
next
  case (Cons a ys)
  then have q: "q = a" "q \<noteq> 0" "q \<notin> set ys" "linked h (a # ys @ [a])" using assms by (auto simp: circular_def)
  have "inqueue_loop h q thread (lh_next h q) = Some (thread \<in> set ys)"
  proof (cases ys)
    case Nil
    then show ?thesis using q by (subst inqueue_loop.simps) simp
  next
    case (Cons y zs)
    then show ?thesis using inqueue_walk [of h y zs q thread] q by simp
  qed
  with q Cons show ?thesis by (simp add: ipc_thread_inqueue_def ITH_NULL_def)
qed

lemma queue_next_exact:
  assumes "circular h q (as @ x # bs)"
  shows "ipc_kmsg_queue_next q x h = (case bs of [] \<Rightarrow> 0 | b # _ \<Rightarrow> b)"
proof -
  note S = circular_split [OF assms]
  show ?thesis
  proof (cases "bs @ as = []")
    case True
    then show ?thesis using S(1,5) by (simp add: ipc_kmsg_queue_next_def IKM_NULL_def)
  next
    case False
    have n: "lh_next h x = hd (bs @ as)" by (rule linked_close(1) [OF S(1) False S(2)])
    show ?thesis
    proof (cases bs)
      case Nil
      then show ?thesis using n S(5) False by (cases as) (auto simp: ipc_kmsg_queue_next_def IKM_NULL_def)
    next
      case (Cons b bs')
      then have "q \<noteq> b" using S(2,3,5) by (cases as) auto
      then show ?thesis using n Cons by (simp add: ipc_kmsg_queue_next_def)
    qed
  qed
qed

text \<open>
  C22: The queues of threads and of messages implement lists. Every sequence of enqueueing at the end,
  dequeueing from the front and removing from anywhere gives, on the circular doubly linked elements,
  the results and the queue that it gives on a list, as long as it only enqueues elements that are in
  no queue and only removes elements that are in the queue. The search for a thread ends and is
  exact, and the step to the next message finds the end of the queue.
\<close>

theorem queues_implement_lists:
  assumes "circular h q xs"
  shows "((\<forall>y \<in> U - set xs. thread_ready h y) \<and> queue_run_ok U ops xs \<longrightarrow>
      (\<exists>h' q'. queue_exec ipc_thread_enqueue ipc_thread_dequeue ipc_thread_rmqueue ops (q, h) = (fst (queue_run ops xs), q', h') \<and>
         circular h' q' (snd (queue_run ops xs)))) \<and>
    (queue_run_ok U ops xs \<longrightarrow>
      (\<exists>h' q'. queue_exec ipc_kmsg_enqueue ipc_kmsg_dequeue ipc_kmsg_rmqueue ops (q, h) = (fst (queue_run ops xs), q', h') \<and>
         circular h' q' (snd (queue_run ops xs)))) \<and>
    ipc_thread_inqueue q thread h = Some (thread \<in> set xs) \<and>
    (i < length xs \<longrightarrow> ipc_kmsg_queue_next q (xs ! i) h = (if Suc i < length xs then xs ! Suc i else IKM_NULL))"
proof (intro conjI impI)
  obtain rs q' h' where t: "queue_exec ipc_thread_enqueue ipc_thread_dequeue ipc_thread_rmqueue ops (q, h) = (rs, q', h')" by (metis prod_cases3)
  obtain rs2 q2 h2 where k: "queue_exec ipc_kmsg_enqueue ipc_kmsg_dequeue ipc_kmsg_rmqueue ops (q, h) = (rs2, q2, h2)" by (metis prod_cases3)
  show "\<exists>h' q'. queue_exec ipc_thread_enqueue ipc_thread_dequeue ipc_thread_rmqueue ops (q, h) = (fst (queue_run ops xs), q', h') \<and>
         circular h' q' (snd (queue_run ops xs))" if "(\<forall>y \<in> U - set xs. thread_ready h y) \<and> queue_run_ok U ops xs"
    using threads.run_refines [OF assms _ _ t] t that by blast
  show "\<exists>h' q'. queue_exec ipc_kmsg_enqueue ipc_kmsg_dequeue ipc_kmsg_rmqueue ops (q, h) = (fst (queue_run ops xs), q', h') \<and>
         circular h' q' (snd (queue_run ops xs))" if "queue_run_ok U ops xs"
    using kmsgs.run_refines [OF assms _ that k] k by auto
  show "ipc_thread_inqueue q thread h = Some (thread \<in> set xs)" by (rule inqueue_exact [OF assms])
  show "ipc_kmsg_queue_next q (xs ! i) h = (if Suc i < length xs then xs ! Suc i else IKM_NULL)" if "i < length xs"
    using queue_next_exact [of h q "take i xs" "xs ! i" "drop (Suc i) xs"] assms id_take_nth_drop [OF that]
    by (cases "Suc i < length xs") (simp_all add: IKM_NULL_def hd_drop_conv_nth [symmetric] split: list.splits)
qed

definition example_queue_ops :: "queue_op list" where
  "example_queue_ops = [Enqueue 8, Enqueue 16, Enqueue 24, Remove 16, Dequeue, Enqueue 16, Dequeue, Dequeue, Dequeue]"

theorem queues_implement_lists_witness:
  "\<exists>h' q'. queue_exec ipc_thread_enqueue ipc_thread_dequeue ipc_thread_rmqueue example_queue_ops (0, \<lparr>lh_next = id, lh_prev = id\<rparr>) =
     ([8, 16, 24, 16, 8, 16, 24, 16, 0], q', h') \<and> circular h' q' []"
proof -
  have "circular \<lparr>lh_next = id, lh_prev = id\<rparr> 0 []" "thread_ready \<lparr>lh_next = id, lh_prev = id\<rparr> y" for y
    by (simp_all add: circular_def thread_ready_def)
  moreover have "queue_run_ok {8, 16, 24} example_queue_ops []" "queue_run example_queue_ops [] = ([8, 16, 24, 16, 8, 16, 24, 16, 0], [])"
    by (simp_all add: example_queue_ops_def)
  ultimately show ?thesis using queues_implement_lists [of "\<lparr>lh_next = id, lh_prev = id\<rparr>" 0 "[]" "{8, 16, 24}" example_queue_ops] by auto
qed

end
