(* ===== verification/Ipc_Mqueue.thy ===== *)
theory Ipc_Mqueue
  imports Ipc_Object Ipc_Queue
begin

text \<open>
  Sending and receiving messages (\<open>ipc/ipc_mqueue.c\<close>): delivery to a waiting receiver or to a queue,
  blocking of senders at the limit of the queue, and reception.

  \<^item> A message queue belongs to a port or to a port set and is named by it.
  \<^item> A thread blocks while \<open>env k\<close> changes the world, at the \<open>k\<close>-th time it blocks; \<open>env\<close> also gives
    what the others left in the thread: its \<open>ith_state\<close>, the message and sequence number handed to
    it, and the reason why it runs again.
  \<^item> \<open>server\<close> is the kernel's own handling of a message to one of its ports (\<open>ipc_kobject_server\<close>) with
    the reply, \<open>space_kernel\<close> the address of its space, \<open>self\<close> the current thread, and \<open>body\<close> the descriptors
    in the body of a message.
  \<^item> \<open>None\<close> is a panic, a read outside of an array, or a run that does not end.
\<close>

section \<open>Queues and options\<close>

datatype mqueue_ref = PortQueue ipc_port_t | PsetQueue ipc_pset_t

fun get_mqueue :: "ipc_world \<Rightarrow> mqueue_ref \<Rightarrow> ipc_mqueue" where
  "get_mqueue w (PortQueue port) = ip_messages (w_ports w port)"
| "get_mqueue w (PsetQueue pset) = ips_messages (w_psets w pset)"

fun upd_mqueue :: "mqueue_ref \<Rightarrow> (ipc_mqueue \<Rightarrow> ipc_mqueue) \<Rightarrow> ipc_world \<Rightarrow> ipc_world" where
  "upd_mqueue (PortQueue port) f w = upd_port port (\<lambda>p. p\<lparr>ip_messages := f (ip_messages p)\<rparr>) w"
| "upd_mqueue (PsetQueue pset) f w = upd_pset pset (\<lambda>s. s\<lparr>ips_messages := f (ips_messages s)\<rparr>) w"

definition port_mqueue :: "ipc_world \<Rightarrow> ipc_port_t \<Rightarrow> mqueue_ref" where
  "port_mqueue w port =
     (if ip_pset (w_ports w port) = IPS_NULL then PortQueue port else PsetQueue (ip_pset (w_ports w port)))"

definition MACH_SEND_TIMEOUT :: "32 word" where
  "MACH_SEND_TIMEOUT = 0x10"

definition MACH_SEND_ALWAYS :: "32 word" where
  "MACH_SEND_ALWAYS = 0x10000"

definition MACH_RCV_TIMEOUT :: "32 word" where
  "MACH_RCV_TIMEOUT = 0x100"

definition MACH_MSGH_BITS_CIRCULAR :: "32 word" where
  "MACH_MSGH_BITS_CIRCULAR = 0x40000000"

definition MACH_MSGH_BITS_REMOTE :: "32 word \<Rightarrow> mach_msg_type_name_t" where
  "MACH_MSGH_BITS_REMOTE bits = bits AND 0xff"

definition GET_RCV_ELEMENTS :: "32 word \<Rightarrow> nat" where
  "GET_RCV_ELEMENTS y = unat (drop_bit 24 y AND 0xf)"

definition trailer_size :: "natural_t list" where
  "trailer_size = [8, 12, 20]"

definition REQUESTED_TRAILER_SIZE :: "32 word \<Rightarrow> natural_t option" where
  "REQUESTED_TRAILER_SIZE y =
     (if GET_RCV_ELEMENTS y < length trailer_size then Some (trailer_size ! GET_RCV_ELEMENTS y) else None)"

datatype wait_result = THREAD_AWAKENED | THREAD_TIMED_OUT | THREAD_INTERRUPTED | THREAD_RESTART

text \<open>What a thread finds in its own structure when it runs again.\<close>

record wakeup =
  ith_state :: mach_msg_return_t
  ith_kmsg :: ipc_kmsg
  ith_seqno :: natural_t
  wait_result :: wait_result

section \<open>Sending\<close>

definition ipc_mqueue_deliver :: "ipc_port_t \<Rightarrow> ipc_kmsg \<Rightarrow> ipc_world \<Rightarrow> mach_msg_return_t \<times> ipc_world" where
  "ipc_mqueue_deliver port kmsg w =
     (let mqueue = port_mqueue w port;
          w1 = upd_port port (\<lambda>p. p\<lparr>ip_msgcount := ip_msgcount p + 1\<rparr>) w
      in case imq_threads (get_mqueue w1 mqueue) of
           [] \<Rightarrow> (MACH_MSG_SUCCESS, upd_mqueue mqueue (\<lambda>q. q\<lparr>imq_messages := imq_messages q @ [kmsg]\<rparr>) w1)
         | receiver # rest \<Rightarrow>
             let w2 = upd_mqueue mqueue (\<lambda>q. q\<lparr>imq_threads := rest\<rparr>) w1; seqno = ip_seqno (w_ports w2 port)
             in (MACH_MSG_SUCCESS, emit [ThreadReceive receiver kmsg seqno]
                  (upd_port port (\<lambda>p. p\<lparr>ip_seqno := ip_seqno p + 1\<rparr>) w2)))"

text \<open>The loop of \<open>ipc_mqueue_send\<close>.\<close>

partial_function (option) send_loop ::
  "(nat \<Rightarrow> ipc_world \<Rightarrow> wakeup \<times> ipc_world) \<Rightarrow> ipc_thread_t \<Rightarrow> nat \<Rightarrow> 32 word \<Rightarrow> natural_t \<Rightarrow> ipc_kmsg \<Rightarrow>
   ipc_world \<Rightarrow> (mach_msg_return_t \<times> ipc_world) option" where
  "send_loop env self k options timeout kmsg w =
     (let port = msgh_remote_port kmsg; p = w_ports w port in
      if \<not> ip_active p then
        Some (MACH_MSG_SUCCESS, emit [KmsgDestroy (kmsg\<lparr>msgh_remote_port := MACH_PORT_NULL\<rparr>)] (ipc_port_release port w))
      else if ip_msgcount p < ip_qlimit p \<or> options AND MACH_SEND_ALWAYS \<noteq> 0 \<or>
        MACH_MSGH_BITS_REMOTE (msgh_bits kmsg) = MACH_MSG_TYPE_PORT_SEND_ONCE
      then Some (MACH_MSG_SUCCESS, snd (ipc_mqueue_deliver port kmsg w))
      else if options AND MACH_SEND_TIMEOUT \<noteq> 0 \<and> timeout = 0 then Some (MACH_SEND_TIMED_OUT, w)
      else
        case env k (upd_port port (\<lambda>p. p\<lparr>ip_blocked := ip_blocked p @ [self]\<rparr>) w) of (th, w1) \<Rightarrow>
          if ith_state th = MACH_MSG_SUCCESS then send_loop env self (k + 1) options timeout kmsg w1
          else case wait_result th of
            THREAD_INTERRUPTED \<Rightarrow> Some (MACH_SEND_INTERRUPTED, w1)
          | THREAD_TIMED_OUT \<Rightarrow> send_loop env self (k + 1) options 0 kmsg w1
          | _ \<Rightarrow> None)"

declare send_loop.simps [code]

partial_function (option) ipc_mqueue_send ::
  "(ipc_kmsg \<Rightarrow> ipc_world \<Rightarrow> ipc_kmsg option \<times> ipc_world) \<Rightarrow> ipc_space_t \<Rightarrow>
   (nat \<Rightarrow> ipc_world \<Rightarrow> wakeup \<times> ipc_world) \<Rightarrow> ipc_thread_t \<Rightarrow> 32 word \<Rightarrow> natural_t \<Rightarrow> ipc_kmsg \<Rightarrow>
   ipc_world \<Rightarrow> (mach_msg_return_t \<times> ipc_world) option" where
  "ipc_mqueue_send server space_kernel env self options timeout kmsg w =
     (let port = msgh_remote_port kmsg in
      if ip_receiver (w_ports w port) = space_kernel then
        (case server kmsg w of (reply, w1) \<Rightarrow>
           case reply of
             None \<Rightarrow> Some (MACH_MSG_SUCCESS, w1)
           | Some r \<Rightarrow> do {
               (mr, w2) \<leftarrow> ipc_mqueue_send server space_kernel env self MACH_SEND_ALWAYS 0 r w1;
               Some (MACH_MSG_SUCCESS, w2)
             })
      else if msgh_bits kmsg AND MACH_MSGH_BITS_CIRCULAR \<noteq> 0 then Some (MACH_MSG_SUCCESS, emit [KmsgDestroy kmsg] w)
      else send_loop env self 0 options timeout kmsg w)"

declare ipc_mqueue_send.simps [code]

section \<open>Receiving\<close>

definition ipc_mqueue_copyin ::
  "mach_port_t \<Rightarrow> right_state \<Rightarrow> (mach_msg_return_t \<times> (mqueue_ref \<times> ipc_object_t) option \<times> right_state) option" where
  "ipc_mqueue_copyin name s =
     (if \<not> is_active (snd s) then Some (MACH_RCV_INVALID_NAME, None, s)
      else do {
        (r, space) \<leftarrow> ipc_entry_lookup (snd s) name;
        case r of
          None \<Rightarrow> Some (MACH_RCV_INVALID_NAME, None, fst s, space)
        | Some ref \<Rightarrow> do {
            e \<leftarrow> get_entry space ref;
            let bits = ie_bits e;
            let object = ie_object e;
            if bits AND MACH_PORT_TYPE_RECEIVE \<noteq> 0 then
              (let pset = ip_pset (w_ports (fst s) object) in
               if pset \<noteq> IPS_NULL \<and> ips_active (w_psets (fst s) pset) then Some (MACH_RCV_IN_SET, None, fst s, space)
               else
                 let w1 = (if pset \<noteq> IPS_NULL then ips_check_unlock pset (ipc_pset_remove pset object (fst s)) else fst s)
                 in Some (MACH_MSG_SUCCESS, Some (PortQueue object, object), ip_reference object w1, space))
            else if bits AND MACH_PORT_TYPE_PORT_SET \<noteq> 0 then
              Some (MACH_MSG_SUCCESS, Some (PsetQueue object, object), ips_reference object (fst s), space)
            else Some (MACH_RCV_INVALID_NAME, None, fst s, space)
          }
      })"

text \<open>The first message of a queue is taken, if there is one.\<close>

definition receive_first :: "mqueue_ref \<Rightarrow> ipc_world \<Rightarrow> (ipc_kmsg \<times> natural_t \<times> ipc_world) option" where
  "receive_first mqueue w = (case imq_messages (get_mqueue w mqueue) of
     [] \<Rightarrow> None
   | kmsg # rest \<Rightarrow>
       let w1 = upd_mqueue mqueue (\<lambda>q. q\<lparr>imq_messages := rest\<rparr>) w; port = msgh_remote_port kmsg
       in Some (kmsg, ip_seqno (w_ports w1 port), upd_port port (\<lambda>p. p\<lparr>ip_seqno := ip_seqno p + 1\<rparr>) w1))"

abbreviation wait_in :: "mqueue_ref \<Rightarrow> ipc_thread_t \<Rightarrow> ipc_world \<Rightarrow> ipc_world" where
  "wait_in mqueue th \<equiv> upd_mqueue mqueue (\<lambda>q. q\<lparr>imq_threads := imq_threads q @ [th]\<rparr>)"

abbreviation wait_no_more :: "mqueue_ref \<Rightarrow> ipc_thread_t \<Rightarrow> ipc_world \<Rightarrow> ipc_world" where
  "wait_no_more mqueue th \<equiv> upd_mqueue mqueue (\<lambda>q. q\<lparr>imq_threads := remove1 th (imq_threads q)\<rparr>)"

text \<open>The loop of \<open>ipc_mqueue_receive\<close>.\<close>

partial_function (option) receive_loop ::
  "(nat \<Rightarrow> ipc_world \<Rightarrow> wakeup \<times> ipc_world) \<Rightarrow> ipc_thread_t \<Rightarrow> nat \<Rightarrow> mqueue_ref \<Rightarrow> 32 word \<Rightarrow> natural_t \<Rightarrow>
   ipc_world \<Rightarrow> (mach_msg_return_t \<times> (ipc_kmsg \<times> natural_t) option \<times> ipc_world) option" where
  "receive_loop env self k mqueue options timeout w = (case receive_first mqueue w of
     Some (kmsg, seqno, w1) \<Rightarrow> Some (MACH_MSG_SUCCESS, Some (kmsg, seqno), w1)
   | None \<Rightarrow>
       if options AND MACH_RCV_TIMEOUT \<noteq> 0 \<and> timeout = 0 then Some (MACH_RCV_TIMED_OUT, None, w)
       else
         case env k (wait_in mqueue self w) of (th, w1) \<Rightarrow>
           if ith_state th = MACH_MSG_SUCCESS then Some (MACH_MSG_SUCCESS, Some (ith_kmsg th, ith_seqno th), w1)
           else if ith_state th = MACH_RCV_PORT_DIED \<or> ith_state th = MACH_RCV_PORT_CHANGED then Some (ith_state th, None, w1)
           else if ith_state th = MACH_RCV_IN_PROGRESS \<or> ith_state th = MACH_RCV_IN_PROGRESS_TIMED then
             (let w2 = wait_no_more mqueue self w1 in
              case wait_result th of
                THREAD_INTERRUPTED \<Rightarrow> Some (MACH_RCV_INTERRUPTED, None, w2)
              | THREAD_TIMED_OUT \<Rightarrow> receive_loop env self (k + 1) mqueue options 0 w2
              | _ \<Rightarrow> None)
           else None)"

declare receive_loop.simps [code]

text \<open>The descriptors of a message and of a scatter list.\<close>

datatype descriptor_type =
    MACH_MSG_PORT_DESCRIPTOR
  | MACH_MSG_OOL_DESCRIPTOR
  | MACH_MSG_OOL_PORTS_DESCRIPTOR
  | MACH_MSG_OOL_VOLATILE_DESCRIPTOR

record mach_msg_descriptor =
  desc_type :: descriptor_type
  desc_overwrite :: bool
  desc_size :: natural_t

abbreviation port_descriptor :: "mach_msg_descriptor \<Rightarrow> bool" where
  "port_descriptor d \<equiv> desc_type d = MACH_MSG_PORT_DESCRIPTOR"

abbreviation ool_descriptor :: "mach_msg_descriptor \<Rightarrow> bool" where
  "ool_descriptor d \<equiv> desc_type d = MACH_MSG_OOL_DESCRIPTOR \<or> desc_type d = MACH_MSG_OOL_VOLATILE_DESCRIPTOR"

fun check_scatter_loop :: "bool \<Rightarrow> mach_msg_descriptor list \<Rightarrow> mach_msg_descriptor list \<Rightarrow> mach_msg_return_t" where
  "check_scatter_loop none [] scatter = MACH_MSG_SUCCESS"
| "check_scatter_loop none (g # gather) scatter =
     (if port_descriptor g then check_scatter_loop none gather scatter
      else if none then MACH_RCV_SCATTER_SMALL
      else case dropWhile port_descriptor scatter of
        [] \<Rightarrow> MACH_MSG_SUCCESS
      | s # scatter1 \<Rightarrow>
          if ool_descriptor g \<and> \<not> ool_descriptor s then MACH_RCV_INVALID_TYPE
          else if \<not> ool_descriptor g \<and> desc_type s \<noteq> MACH_MSG_OOL_PORTS_DESCRIPTOR then MACH_RCV_INVALID_TYPE
          else if desc_overwrite s \<and> desc_size s < desc_size g then MACH_RCV_SCATTER_SMALL
          else check_scatter_loop none gather scatter1)"

definition ipc_kmsg_check_scatter :: "mach_msg_descriptor list \<Rightarrow> mach_msg_descriptor list \<Rightarrow> mach_msg_return_t" where
  "ipc_kmsg_check_scatter gather scatter = check_scatter_loop (scatter = []) gather scatter"

text \<open>The port gets room for another message; the first blocked sender is woken if there is room for it.\<close>

definition receive_unblock :: "ipc_port_t \<Rightarrow> ipc_world \<Rightarrow> ipc_world" where
  "receive_unblock port w =
     (if ip_active (w_ports w port) then
        let w1 = upd_port port (\<lambda>p. p\<lparr>ip_msgcount := ip_msgcount p - 1\<rparr>) w; p = w_ports w1 port in
        case ip_blocked p of
          [] \<Rightarrow> w1
        | sender # rest \<Rightarrow>
            if ip_msgcount p < ip_qlimit p
            then emit [ThreadGo sender MACH_MSG_SUCCESS] (upd_port port (\<lambda>p. p\<lparr>ip_blocked := rest\<rparr>) w1) else w1
      else w)"

definition ipc_mqueue_finish_receive ::
  "(ipc_kmsg \<Rightarrow> mach_msg_descriptor list) \<Rightarrow> mach_msg_descriptor list option \<Rightarrow> ipc_kmsg \<Rightarrow> ipc_port_t \<Rightarrow> 32 word \<Rightarrow> natural_t \<Rightarrow>
   ipc_world \<Rightarrow> (mach_msg_return_t \<times> ipc_world) option" where
  "ipc_mqueue_finish_receive body slist kmsg port options max_size w = do {
     trailer \<leftarrow> REQUESTED_TRAILER_SIZE options;
     Some (if max_size - trailer < msgh_size kmsg then MACH_RCV_TOO_LARGE
           else case slist of None \<Rightarrow> MACH_MSG_SUCCESS | Some scatter \<Rightarrow> ipc_kmsg_check_scatter (body kmsg) scatter,
           receive_unblock port w)
   }"

definition ipc_mqueue_receive ::
  "(nat \<Rightarrow> ipc_world \<Rightarrow> wakeup \<times> ipc_world) \<Rightarrow> ipc_thread_t \<Rightarrow> (ipc_kmsg \<Rightarrow> mach_msg_descriptor list) \<Rightarrow>
   mach_msg_descriptor list option \<Rightarrow> mqueue_ref \<Rightarrow> 32 word \<Rightarrow> natural_t \<Rightarrow> natural_t \<Rightarrow> ipc_world \<Rightarrow>
   (mach_msg_return_t \<times> (ipc_kmsg \<times> natural_t) option \<times> ipc_world) option" where
  "ipc_mqueue_receive env self body slist mqueue options max_size timeout w = do {
     (mr, r, w1) \<leftarrow> receive_loop env self 0 mqueue options timeout w;
     case r of
       None \<Rightarrow> Some (mr, None, w1)
     | Some (kmsg, seqno) \<Rightarrow> do {
         (mr1, w2) \<leftarrow> ipc_mqueue_finish_receive body slist kmsg (msgh_remote_port kmsg) options max_size w1;
         Some (mr1, Some (kmsg, seqno), w2)
       }
   }"

end
