(* ===== verification/Ipc_Mqueue_Correct.thy ===== *)
theory Ipc_Mqueue_Correct
  imports Ipc_Mqueue
begin

text \<open>
  Correctness of sending and receiving: the order of messages and their sequence numbers, the limit of
  the queue, the check of the receive buffer, and what becomes of senders that give up.
\<close>

section \<open>Reading queues after an update\<close>

lemma get_upd_mqueue:
  "get_mqueue (upd_mqueue r f w) r' = (if r = r' then f (get_mqueue w r) else get_mqueue w r')"
  by (cases r; cases r') auto

lemma upd_mqueue_simps [simp]:
  "ip_seqno (w_ports (upd_mqueue r f w) p) = ip_seqno (w_ports w p)"
  "ip_pset (w_ports (upd_mqueue r f w) p) = ip_pset (w_ports w p)"
  "port_mqueue (upd_mqueue r f w) = port_mqueue w" "w_log (upd_mqueue r f w) = w_log w"
  by (cases r; auto simp: port_mqueue_def fun_eq_iff)+

lemma get_mqueue_port [simp]:
  "get_mqueue (upd_port port (\<lambda>p. p\<lparr>ip_msgcount := g p\<rparr>) w) r = get_mqueue w r"
  "get_mqueue (upd_port port (\<lambda>p. p\<lparr>ip_seqno := g p\<rparr>) w) r = get_mqueue w r"
  "get_mqueue (emit es w) r = get_mqueue w r"
  by (cases r; simp)+

lemma port_mqueue_port [simp]:
  "port_mqueue (upd_port port (\<lambda>p. p\<lparr>ip_msgcount := g p\<rparr>) w) = port_mqueue w"
  "port_mqueue (upd_port port (\<lambda>p. p\<lparr>ip_seqno := g p\<rparr>) w) = port_mqueue w"
  "port_mqueue (emit es w) = port_mqueue w"
  by (auto simp: port_mqueue_def fun_eq_iff)

section \<open>The life of a queue\<close>

text \<open>
  A run of a queue: messages are delivered to ports of the queue, threads take the first message or
  wait, and waiting threads give up. \<open>sent\<close> has the messages in the order of their delivery, \<open>rcvd\<close> those
  that threads got with their sequence numbers, in the order in which they got them.
\<close>

definition handed_over :: "ipc_world \<Rightarrow> ipc_world \<Rightarrow> (ipc_kmsg \<times> natural_t) list" where
  "handed_over w w' = concat (map (\<lambda>e. case e of ThreadReceive th kmsg seqno \<Rightarrow> [(kmsg, seqno)] | _ \<Rightarrow> []) (drop (length (w_log w)) (w_log w')))"

inductive mq_run :: "mqueue_ref \<Rightarrow> ipc_world \<Rightarrow> ipc_kmsg list \<Rightarrow> (ipc_kmsg \<times> natural_t) list \<Rightarrow> ipc_world \<Rightarrow> bool"
  for r w where
  start: "mq_run r w [] [] w"
| deliver: "mq_run r w sent rcvd w1 \<Longrightarrow> port_mqueue w1 (msgh_remote_port kmsg) = r \<Longrightarrow>
     ipc_mqueue_deliver (msgh_remote_port kmsg) kmsg w1 = (mr, w2) \<Longrightarrow> mq_run r w (sent @ [kmsg]) (rcvd @ handed_over w1 w2) w2"
| receive: "mq_run r w sent rcvd w1 \<Longrightarrow> receive_first r w1 = Some (kmsg, seqno, w2) \<Longrightarrow> mq_run r w sent (rcvd @ [(kmsg, seqno)]) w2"
| wait: "mq_run r w sent rcvd w1 \<Longrightarrow> receive_first r w1 = None \<Longrightarrow> mq_run r w sent rcvd (wait_in r th w1)"
| give_up: "mq_run r w sent rcvd w1 \<Longrightarrow> mq_run r w sent rcvd (wait_no_more r th w1)"

abbreviation messages :: "mqueue_ref \<Rightarrow> ipc_world \<Rightarrow> ipc_kmsg list" where
  "messages r w \<equiv> imq_messages (get_mqueue w r)"

abbreviation receivers :: "mqueue_ref \<Rightarrow> ipc_world \<Rightarrow> ipc_thread_t list" where
  "receivers r w \<equiv> imq_threads (get_mqueue w r)"

abbreviation received_from :: "ipc_port_t \<Rightarrow> (ipc_kmsg \<times> natural_t) list \<Rightarrow> (ipc_kmsg \<times> natural_t) list" where
  "received_from port \<equiv> filter (\<lambda>x. msgh_remote_port (fst x) = port)"

lemma deliver_cases:
  assumes "ipc_mqueue_deliver port kmsg w = (mr, w')" "port_mqueue w port = r"
  shows "case receivers r w of
      [] \<Rightarrow> handed_over w w' = [] \<and> messages r w' = messages r w @ [kmsg] \<and> receivers r w' = [] \<and>
        (\<forall>p. ip_seqno (w_ports w' p) = ip_seqno (w_ports w p))
    | th # ths \<Rightarrow> handed_over w w' = [(kmsg, ip_seqno (w_ports w port))] \<and> messages r w' = messages r w \<and> receivers r w' = ths \<and>
        (\<forall>p. ip_seqno (w_ports w' p) = ip_seqno (w_ports w p) + (if p = port then 1 else 0))"
    and "port_mqueue w' = port_mqueue w"
  using assms by (auto simp: ipc_mqueue_deliver_def handed_over_def Let_def get_upd_mqueue split: list.splits)

lemma receive_first_cases:
  assumes "receive_first r w = Some (kmsg, seqno, w')"
  shows "messages r w = kmsg # messages r w'" "receivers r w' = receivers r w" "seqno = ip_seqno (w_ports w (msgh_remote_port kmsg))"
    "ip_seqno (w_ports w' p) = ip_seqno (w_ports w p) + (if p = msgh_remote_port kmsg then 1 else 0)" "port_mqueue w' = port_mqueue w"
  using assms by (auto simp: receive_first_def Let_def get_upd_mqueue split: list.splits)

lemma receive_first_None: "receive_first r w = None \<longleftrightarrow> messages r w = []"
  by (auto simp: receive_first_def Let_def split: list.splits)

text \<open>A third message for the port of the example world.\<close>

definition example_kmsg :: ipc_kmsg where
  "example_kmsg = \<lparr>ikm_address = 3, msgh_bits = 0, msgh_size = 24, msgh_remote_port = 0x40\<rparr>"

text \<open>
  C8: A message queue is a queue, and no wakeup is lost. In every run of deliveries, receptions, waits
  and timeouts, the messages received and those still in the queue are, in this order, exactly the
  messages that were in the queue and those that were sent since; the messages received from a port
  have consecutive sequence numbers; and there is never a message waiting together with a thread that
  waits for one.
\<close>

theorem mqueue_is_fifo:
  assumes "mq_run r w sent rcvd w'" and "messages r w = [] \<or> receivers r w = []"
  shows "map fst rcvd @ messages r w' = messages r w @ sent \<and>
    (\<forall>p. map snd (received_from p rcvd) = map (\<lambda>i. ip_seqno (w_ports w p) + of_nat i) [0..<length (received_from p rcvd)] \<and>
       ip_seqno (w_ports w' p) = ip_seqno (w_ports w p) + of_nat (length (received_from p rcvd))) \<and>
    (messages r w' = [] \<or> receivers r w' = [])"
  using assms
proof (induction rule: mq_run.induct)
  case (deliver sent rcvd w1 kmsg mr w2)
  then show ?case using deliver_cases(1) [OF deliver.hyps(3,2)] by (cases "receivers r w1") auto
next
  case (receive sent rcvd w1 kmsg seqno w2)
  then show ?case using receive_first_cases [OF receive.hyps(2)] by auto
next
  case (wait sent rcvd w1 th)
  then show ?case by (simp add: receive_first_None get_upd_mqueue)
next
  case (give_up sent rcvd w1 th)
  then show ?case by (auto simp: get_upd_mqueue)
qed simp

lemma word_pred_less: "w \<noteq> 0 \<Longrightarrow> w - 1 < w" for w :: "'a::len word"
  unfolding word_less_nat_alt by (rule measure_unat)

theorem mqueue_is_fifo_witness:
  "\<exists>w'. mq_run (PortQueue 0x40) example_world [example_kmsg] [(\<lparr>ikm_address = 1, msgh_bits = 0, msgh_size = 24, msgh_remote_port = 0x40\<rparr>, 0)] w' \<and>
     map ikm_address (messages (PortQueue 0x40) w') = [2, 3] \<and> ip_seqno (w_ports w' 0x40) = 1"
proof -
  let ?r = "PortQueue 0x40" and ?k = "\<lparr>ikm_address = 1, msgh_bits = 0, msgh_size = 24, msgh_remote_port = 0x40\<rparr>"
  have q: "port_mqueue example_world 0x40 = ?r" "receivers ?r example_world = []" "length (messages ?r example_world) = 2"
    "map ikm_address (messages ?r example_world) = [1, 2]" "ip_seqno (w_ports example_world 0x40) = 0" "hd (messages ?r example_world) = ?k"
    by (simp_all add: port_mqueue_def example_world_def example_port_def zero_port_def IO_NULL_def)
  obtain mr w1 where d: "ipc_mqueue_deliver (msgh_remote_port example_kmsg) example_kmsg example_world = (mr, w1)" by fastforce
  have d': "handed_over example_world w1 = []" "messages ?r w1 = messages ?r example_world @ [example_kmsg]"
      "ip_seqno (w_ports w1 0x40) = ip_seqno (w_ports example_world 0x40)"
    using deliver_cases(1) [OF d, of ?r] q by (simp_all add: example_kmsg_def)
  from mq_run.deliver [OF mq_run.start _ d, of ?r] q(1) d'(1) have "mq_run ?r example_world [example_kmsg] [] w1"
    by (simp add: example_kmsg_def)
  moreover obtain kmsg seqno w2 where f: "receive_first ?r w1 = Some (kmsg, seqno, w2)"
    using d'(2) receive_first_None [of ?r w1] by (cases "receive_first ?r w1") auto
  ultimately have run: "mq_run ?r example_world [example_kmsg] [(kmsg, seqno)] w2" using mq_run.receive by force
  have "kmsg = ?k" "seqno = 0" using receive_first_cases [OF f] d' q by (cases "messages ?r example_world"; simp)+
  with run mqueue_is_fifo [OF run] q show ?thesis
    by (intro exI [of _ w2]) (cases "messages ?r example_world"; simp add: example_kmsg_def)
qed

section \<open>Senders that give up\<close>

text \<open>A message that has to wait: its port is alive and full, and nothing lets the message pass the limit.\<close>

definition must_wait :: "ipc_space_t \<Rightarrow> 32 word \<Rightarrow> ipc_kmsg \<Rightarrow> ipc_world \<Rightarrow> bool" where
  "must_wait space_kernel options kmsg w \<longleftrightarrow> (let p = w_ports w (msgh_remote_port kmsg) in
     ip_active p \<and> ip_receiver p \<noteq> space_kernel \<and> ip_qlimit p \<le> ip_msgcount p \<and> options AND MACH_SEND_ALWAYS = 0 \<and>
     msgh_bits kmsg AND MACH_MSGH_BITS_CIRCULAR = 0 \<and> MACH_MSGH_BITS_REMOTE (msgh_bits kmsg) \<noteq> MACH_MSG_TYPE_PORT_SEND_ONCE)"

lemma send_must_wait:
  assumes "must_wait space_kernel options kmsg w" "timeout \<noteq> 0 \<or> options AND MACH_SEND_TIMEOUT = 0"
  shows "ipc_mqueue_send server space_kernel env self options timeout kmsg w =
    (case env 0 (upd_port (msgh_remote_port kmsg) (\<lambda>p. p\<lparr>ip_blocked := ip_blocked p @ [self]\<rparr>) w) of (th, w1) \<Rightarrow>
       if ith_state th = MACH_MSG_SUCCESS then send_loop env self 1 options timeout kmsg w1
       else case wait_result th of
         THREAD_INTERRUPTED \<Rightarrow> Some (MACH_SEND_INTERRUPTED, w1)
       | THREAD_TIMED_OUT \<Rightarrow> send_loop env self 1 options 0 kmsg w1
       | _ \<Rightarrow> None)"
  using assms
  by (cases "env 0 (upd_port (msgh_remote_port kmsg) (\<lambda>p. p\<lparr>ip_blocked := ip_blocked p @ [self]\<rparr>) w)",
      subst ipc_mqueue_send.simps, subst send_loop.simps) (auto simp: must_wait_def Let_def not_less split: wait_result.splits)

lemma send_loop_times_out:
  assumes "must_wait space_kernel options kmsg w" "options AND MACH_SEND_TIMEOUT \<noteq> 0"
  shows "send_loop env self k options 0 kmsg w = Some (MACH_SEND_TIMED_OUT, w)"
  using assms by (subst send_loop.simps) (auto simp: must_wait_def Let_def not_less)

text \<open>
  C37: A sender that gives up is not taken off the queue of blocked senders. When a send to a full port
  times out or is interrupted, it returns with its thread still in \<open>ip_blocked\<close>; if another sender blocks
  behind it, the next reception, which makes room for one message, wakes the thread that has given up,
  and the sender that is really blocked goes on waiting.
\<close>

theorem given_up_sender_stays_blocked:
  assumes wait: "must_wait space_kernel options kmsg w" and opt: "options AND MACH_SEND_TIMEOUT \<noteq> 0" "timeout \<noteq> 0"
    and quiet: "env 0 (upd_port (msgh_remote_port kmsg) (\<lambda>p. p\<lparr>ip_blocked := ip_blocked p @ [self]\<rparr>) w) =
      (th, upd_port (msgh_remote_port kmsg) (\<lambda>p. p\<lparr>ip_blocked := ip_blocked p @ [self]\<rparr>) w)"
    and th: "ith_state th = MACH_SEND_IN_PROGRESS" "wait_result th = THREAD_TIMED_OUT \<or> wait_result th = THREAD_INTERRUPTED"
    and first: "ip_blocked (w_ports w (msgh_remote_port kmsg)) = []" "ip_msgcount (w_ports w (msgh_remote_port kmsg)) = ip_qlimit (w_ports w (msgh_remote_port kmsg))"
      "0 < ip_qlimit (w_ports w (msgh_remote_port kmsg))"
  shows "\<exists>mr w'. ipc_mqueue_send server space_kernel env self options timeout kmsg w = Some (mr, w') \<and>
    mr \<in> {MACH_SEND_TIMED_OUT, MACH_SEND_INTERRUPTED} \<and> ip_blocked (w_ports w' (msgh_remote_port kmsg)) = [self] \<and>
    (let w2 = receive_unblock (msgh_remote_port kmsg) (upd_port (msgh_remote_port kmsg) (\<lambda>p. p\<lparr>ip_blocked := ip_blocked p @ [other]\<rparr>) w') in
     w_log w2 = w_log w' @ [ThreadGo self MACH_MSG_SUCCESS] \<and> ip_blocked (w_ports w2 (msgh_remote_port kmsg)) = [other])"
proof -
  let ?port = "msgh_remote_port kmsg"
  let ?w = "upd_port ?port (\<lambda>p. p\<lparr>ip_blocked := ip_blocked p @ [self]\<rparr>) w"
  have "must_wait space_kernel options kmsg ?w" using wait by (simp add: must_wait_def Let_def)
  with send_loop_times_out [OF _ opt(1), of space_kernel kmsg ?w env self 1] send_must_wait [OF wait, of timeout server env self] quiet th opt(2)
  obtain mr where "ipc_mqueue_send server space_kernel env self options timeout kmsg w = Some (mr, ?w)"
      "mr \<in> {MACH_SEND_TIMED_OUT, MACH_SEND_INTERRUPTED}"
    by auto
  moreover have "ip_active (w_ports w ?port)" using wait by (simp add: must_wait_def Let_def)
  moreover have "ip_qlimit (w_ports w ?port) - 1 < ip_qlimit (w_ports w ?port)"
    by (rule word_pred_less) (use first(3) in \<open>simp add: word_gt_0\<close>)
  ultimately show ?thesis using first by (intro exI [of _ mr] exI [of _ ?w]) (simp add: receive_unblock_def Let_def)
qed

theorem given_up_sender_stays_blocked_witness:
  "\<exists>mr w'. ipc_mqueue_send (\<lambda>kmsg w. (None, w)) 0x2000
      (\<lambda>k w. (\<lparr>ith_state = MACH_SEND_IN_PROGRESS, ith_kmsg = example_kmsg, ith_seqno = 0, wait_result = THREAD_TIMED_OUT\<rparr>, w))
      7 MACH_SEND_TIMEOUT 50 example_kmsg
      (upd_port 0x40 (\<lambda>p. p\<lparr>ip_qlimit := 2, ip_msgcount := 2, ip_blocked := []\<rparr>) example_world) = Some (mr, w') \<and>
    ip_blocked (w_ports w' 0x40) = [7]"
  using given_up_sender_stays_blocked [where kmsg = example_kmsg and space_kernel = "0x2000" and options = MACH_SEND_TIMEOUT
      and timeout = 50 and self = 7 and other = 9 and server = "\<lambda>kmsg w. (None, w)"
      and w = "upd_port 0x40 (\<lambda>p. p\<lparr>ip_qlimit := 2, ip_msgcount := 2, ip_blocked := []\<rparr>) example_world"
      and th = "\<lparr>ith_state = MACH_SEND_IN_PROGRESS, ith_kmsg = example_kmsg, ith_seqno = 0, wait_result = THREAD_TIMED_OUT\<rparr>"
      and env = "\<lambda>k w. (\<lparr>ith_state = MACH_SEND_IN_PROGRESS, ith_kmsg = example_kmsg, ith_seqno = 0, wait_result = THREAD_TIMED_OUT\<rparr>, w)"]
  by (auto simp: must_wait_def example_kmsg_def example_world_def example_port_def zero_port_def MACH_SEND_TIMEOUT_def MACH_SEND_ALWAYS_def
      MACH_MSGH_BITS_CIRCULAR_def MACH_MSGH_BITS_REMOTE_def io_makebits_def io_active_def ipc_defs)

section \<open>The receive buffer\<close>

lemma int_diff_wrap: "int a = int b - int c + 2 ^ n \<Longrightarrow> a + c = b + 2 ^ n"
  by (simp add: algebra_simps flip: of_nat_add of_nat_power) (metis of_nat_add of_nat_eq_iff of_nat_numeral of_nat_power)

text \<open>
  C38: The check of the receive buffer. When the buffer has room for the requested trailer, a message is
  accepted exactly if it fits with the trailer; when it has not, the difference wraps around and a
  message of any size up to the wrapped value is accepted, though none fits. A request for trailer
  elements the kernel does not know reads beyond the array of trailer sizes.
\<close>

theorem receive_buffer_check:
  assumes "REQUESTED_TRAILER_SIZE options = Some t"
  shows "map_option fst (ipc_mqueue_finish_receive body None kmsg port options max_size w) =
      Some (if unat (msgh_size kmsg) + unat t \<le> unat max_size + (if max_size < t then 2 ^ 32 else 0)
            then MACH_MSG_SUCCESS else MACH_RCV_TOO_LARGE) \<and>
    (3 \<le> GET_RCV_ELEMENTS options' \<longrightarrow> ipc_mqueue_finish_receive body None kmsg port options' max_size w = None)"
proof -
  have t: "unat (max_size - t) = (if max_size < t then unat max_size + 2 ^ 32 - unat t else unat max_size - unat t)"
  proof (cases "max_size < t")
    case True
    have "uint (max_size - t) = (uint max_size - uint t) mod 2 ^ 32" by (simp add: uint_word_ariths)
    also have "\<dots> = (uint max_size - uint t + 2 ^ 32) mod 2 ^ 32" by simp
    also have "\<dots> = uint max_size - uint t + 2 ^ 32"
    proof (rule mod_pos_pos_trivial)
      have "uint t < 2 ^ 32" "0 \<le> uint max_size" "uint max_size < uint t" using True uint_bounded [of t] by (simp_all add: word_less_def)
      then show "0 \<le> uint max_size - uint t + 2 ^ 32" "uint max_size - uint t + 2 ^ 32 < 2 ^ 32" by linarith+
    qed
    finally have "int (unat (max_size - t)) = int (unat max_size) - int (unat t) + 2 ^ 32" unfolding uint_nat .
    then have "unat (max_size - t) + unat t = unat max_size + 2 ^ 32" by (rule int_diff_wrap)
    with True show ?thesis by simp
  next
    case False
    then have "t \<le> max_size" by (simp add: not_less)
    from unat_sub [OF this] False show ?thesis by simp
  qed
  have "max_size - t < msgh_size kmsg \<longleftrightarrow> \<not> unat (msgh_size kmsg) + unat t \<le> unat max_size + (if max_size < t then 2 ^ 32 else 0)"
    using t unat_less_exp [of t] by (auto simp: word_less_nat_alt)
  then show ?thesis using assms by (auto simp: ipc_mqueue_finish_receive_def REQUESTED_TRAILER_SIZE_def trailer_size_def)
qed

text \<open>A buffer of four bytes accepts a message of 24 bytes.\<close>

theorem receive_buffer_check_witness:
  "map_option fst (ipc_mqueue_finish_receive (\<lambda>_. []) None example_kmsg 0x40 0 4 example_world) = Some MACH_MSG_SUCCESS"
  using receive_buffer_check [of 0 8 "\<lambda>_. []" example_kmsg "0x40" 4 example_world]
  by (simp add: REQUESTED_TRAILER_SIZE_def GET_RCV_ELEMENTS_def trailer_size_def example_kmsg_def)

end
