(* ===== verification/Ipc_Notify.thy ===== *)
theory Ipc_Notify
  imports Ipc_Mqueue Mach_Port
begin

text \<open>
  Notifications (\<open>ipc/ipc_notify.c\<close>): the templates of the five kinds of messages, and their sending to
  the send-once rights that were registered for them. In the other theories a call of these routines
  is an entry of the log of the world; here is what the call does.

  \<^item> A message is the record of its header fields and of the data behind them; the state has the
    messages by address, beside the world. A queue holds what \<open>ipc_kmsg\<close> has of the header.
  \<^item> \<open>mem\<close> gives the memory for a message from the size of its structure and from whether it comes from the
    real-time allocator, \<open>rt\<close> whether the kernel is configured for real time. The other parameters
    are those of \<open>ipc_mqueue_send\<close> and \<open>ipc_port_release_receive\<close>.
\<close>

section \<open>Templates\<close>

definition MACH_NOTIFY_PORT_DELETED :: "32 word" where
  "MACH_NOTIFY_PORT_DELETED = MACH_NOTIFY_FIRST + 1"

definition MACH_NOTIFY_SEND_ONCE :: "32 word" where
  "MACH_NOTIFY_SEND_ONCE = MACH_NOTIFY_FIRST + 7"

definition MACH_MSGH_BITS_COMPLEX :: "32 word" where
  "MACH_MSGH_BITS_COMPLEX = 0x80000000"

definition MACH_MSGH_BITS_RTALLOC :: "32 word" where
  "MACH_MSGH_BITS_RTALLOC = 0x20000000"

definition MACH_MSGH_BITS :: "mach_msg_type_name_t \<Rightarrow> mach_msg_type_name_t \<Rightarrow> 32 word" where
  "MACH_MSGH_BITS remote local = remote OR push_bit 8 local"

text \<open>The sizes of the header, of the byte-order record, of the count of descriptors, of a port descriptor and of the trailer.\<close>

abbreviation sizeof_header :: natural_t where "sizeof_header \<equiv> 24"
abbreviation sizeof_NDR :: natural_t where "sizeof_NDR \<equiv> 8"
abbreviation sizeof_body :: natural_t where "sizeof_body \<equiv> 4"
abbreviation sizeof_port_descriptor :: natural_t where "sizeof_port_descriptor \<equiv> 12"
abbreviation sizeof_trailer :: natural_t where "sizeof_trailer \<equiv> 20"

text \<open>What follows the header: a name, a descriptor with the disposition of a port right, a count, or nothing.\<close>

datatype notification_data =
    NotPort mach_port_t
  | NotDescriptor mach_msg_type_name_t ipc_port_t
  | NotCount natural_t
  | NotNothing

record notification =
  not_bits :: "32 word"
  not_size :: natural_t
  not_remote_port :: ipc_port_t
  not_local_port :: ipc_port_t
  not_id :: "32 word"
  not_data :: notification_data
  not_seqno :: natural_t
  not_trailer_size :: natural_t

definition sizeof_notification :: "notification_data \<Rightarrow> natural_t" where
  "sizeof_notification d = sizeof_header + (case d of
     NotPort _ \<Rightarrow> sizeof_NDR + 4 | NotDescriptor _ _ \<Rightarrow> sizeof_body + sizeof_port_descriptor
   | NotCount _ \<Rightarrow> sizeof_NDR + 4 | NotNothing \<Rightarrow> 0) + sizeof_trailer"

definition ipc_notify_init_port_deleted :: notification where
  "ipc_notify_init_port_deleted =
     \<lparr>not_bits = MACH_MSGH_BITS MACH_MSG_TYPE_PORT_SEND_ONCE 0,
      not_size = sizeof_notification (NotPort MACH_PORT_NULL) - sizeof_trailer,
      not_remote_port = MACH_PORT_NULL, not_local_port = MACH_PORT_NULL, not_id = MACH_NOTIFY_PORT_DELETED,
      not_data = NotPort MACH_PORT_NULL, not_seqno = 0, not_trailer_size = 8\<rparr>"

definition ipc_notify_init_port_destroyed :: notification where
  "ipc_notify_init_port_destroyed =
     \<lparr>not_bits = MACH_MSGH_BITS_COMPLEX OR MACH_MSGH_BITS MACH_MSG_TYPE_PORT_SEND_ONCE 0,
      not_size = sizeof_notification (NotDescriptor MACH_MSG_TYPE_PORT_RECEIVE MACH_PORT_NULL) - sizeof_trailer,
      not_remote_port = MACH_PORT_NULL, not_local_port = MACH_PORT_NULL, not_id = MACH_NOTIFY_PORT_DESTROYED,
      not_data = NotDescriptor MACH_MSG_TYPE_PORT_RECEIVE MACH_PORT_NULL, not_seqno = 0, not_trailer_size = 8\<rparr>"

definition ipc_notify_init_no_senders :: notification where
  "ipc_notify_init_no_senders =
     \<lparr>not_bits = MACH_MSGH_BITS MACH_MSG_TYPE_PORT_SEND_ONCE 0,
      not_size = sizeof_notification (NotCount 0) - sizeof_trailer,
      not_remote_port = MACH_PORT_NULL, not_local_port = MACH_PORT_NULL, not_id = MACH_NOTIFY_NO_SENDERS,
      not_data = NotCount 0, not_seqno = 0, not_trailer_size = 8\<rparr>"

definition ipc_notify_init_send_once :: notification where
  "ipc_notify_init_send_once =
     \<lparr>not_bits = MACH_MSGH_BITS MACH_MSG_TYPE_PORT_SEND_ONCE 0,
      not_size = sizeof_notification NotNothing - sizeof_trailer,
      not_remote_port = MACH_PORT_NULL, not_local_port = MACH_PORT_NULL, not_id = MACH_NOTIFY_SEND_ONCE,
      not_data = NotNothing, not_seqno = 0, not_trailer_size = 8\<rparr>"

definition ipc_notify_init_dead_name :: notification where
  "ipc_notify_init_dead_name =
     \<lparr>not_bits = MACH_MSGH_BITS MACH_MSG_TYPE_PORT_SEND_ONCE 0,
      not_size = sizeof_notification (NotPort MACH_PORT_NULL) - sizeof_trailer,
      not_remote_port = MACH_PORT_NULL, not_local_port = MACH_PORT_NULL, not_id = MACH_NOTIFY_DEAD_NAME,
      not_data = NotPort MACH_PORT_NULL, not_seqno = 0, not_trailer_size = 8\<rparr>"

section \<open>Sending\<close>

type_synonym notify_state = "(32 word \<rightharpoonup> notification) \<times> ipc_world"

text \<open>The parameters of the kernel around the notifications.\<close>

record notify_kernel =
  nk_rt :: bool
  nk_mem :: "bool \<Rightarrow> natural_t \<Rightarrow> 32 word option"
  nk_server :: "ipc_kmsg \<Rightarrow> ipc_world \<Rightarrow> ipc_kmsg option \<times> ipc_world"
  nk_space_kernel :: ipc_space_t
  nk_env :: "nat \<Rightarrow> ipc_world \<Rightarrow> wakeup \<times> ipc_world"
  nk_self :: ipc_thread_t
  nk_dnits :: "nat list"
  nk_try :: bool

definition IP_RT :: "ipc_port \<Rightarrow> bool" where
  "IP_RT p \<longleftrightarrow> ip_flags p AND IPC_PORT_FLAGS_RT \<noteq> 0"

definition KMSG_MARK_RT :: "notification \<Rightarrow> notification" where
  "KMSG_MARK_RT n = n\<lparr>not_bits := not_bits n OR MACH_MSGH_BITS_RTALLOC\<rparr>"

definition kmsg_of :: "32 word \<Rightarrow> notification \<Rightarrow> ipc_kmsg" where
  "kmsg_of address n =
     \<lparr>ikm_address = address, msgh_bits = not_bits n, msgh_size = not_size n, msgh_remote_port = not_remote_port n\<rparr>"

definition ipc_mqueue_send_always :: "notify_kernel \<Rightarrow> ipc_kmsg \<Rightarrow> ipc_world \<Rightarrow> ipc_world option" where
  "ipc_mqueue_send_always k kmsg w = do {
     (mr, w1) \<leftarrow> ipc_mqueue_send (nk_server k) (nk_space_kernel k) (nk_env k) (nk_self k) MACH_SEND_ALWAYS 0 kmsg w;
     Some w1
   }"

text \<open>The memory of a message to a port, and what is common to the five routines after they have got it.\<close>

definition notify_alloc :: "notify_kernel \<Rightarrow> notification_data \<Rightarrow> ipc_port_t \<Rightarrow> ipc_world \<Rightarrow> 32 word option" where
  "notify_alloc k d port w = nk_mem k (nk_rt k \<and> IP_RT (w_ports w port)) (sizeof_notification d)"

definition notify_message :: "notify_kernel \<Rightarrow> notification \<Rightarrow> ipc_port_t \<Rightarrow> ipc_world \<Rightarrow> notification" where
  "notify_message k template port w =
     (if nk_rt k \<and> IP_RT (w_ports w port) then KMSG_MARK_RT template else template)\<lparr>not_remote_port := port\<rparr>"

definition notify_send :: "notify_kernel \<Rightarrow> 32 word \<Rightarrow> notification \<Rightarrow> notify_state \<Rightarrow> notify_state option" where
  "notify_send k address n s = do {
     w1 \<leftarrow> ipc_mqueue_send_always k (kmsg_of address n) (snd s);
     Some ((fst s)(address \<mapsto> n), w1)
   }"

definition ipc_notify_port_deleted :: "notify_kernel \<Rightarrow> ipc_port_t \<Rightarrow> mach_port_t \<Rightarrow> notify_state \<Rightarrow> notify_state option" where
  "ipc_notify_port_deleted k port name s = (case notify_alloc k (NotPort name) port (snd s) of
     None \<Rightarrow> Some (fst s, ipc_port_release_sonce port (snd s))
   | Some kmsg \<Rightarrow> notify_send k kmsg ((notify_message k ipc_notify_init_port_deleted port (snd s))\<lparr>not_data := NotPort name\<rparr>) s)"

definition ipc_notify_port_destroyed :: "notify_kernel \<Rightarrow> ipc_port_t \<Rightarrow> ipc_port_t \<Rightarrow> notify_state \<Rightarrow> notify_state option" where
  "ipc_notify_port_destroyed k port right s = (case notify_alloc k (NotDescriptor MACH_MSG_TYPE_PORT_RECEIVE right) port (snd s) of
     None \<Rightarrow> map_option (Pair (fst s)) (ipc_port_release_receive (nk_dnits k) (nk_try k) right (ipc_port_release_sonce port (snd s)))
   | Some kmsg \<Rightarrow> notify_send k kmsg
       ((notify_message k ipc_notify_init_port_destroyed port (snd s))\<lparr>not_data := NotDescriptor MACH_MSG_TYPE_PORT_RECEIVE right\<rparr>) s)"

definition ipc_notify_no_senders :: "notify_kernel \<Rightarrow> ipc_port_t \<Rightarrow> natural_t \<Rightarrow> notify_state \<Rightarrow> notify_state option" where
  "ipc_notify_no_senders k port mscount s = (case notify_alloc k (NotCount mscount) port (snd s) of
     None \<Rightarrow> Some (fst s, ipc_port_release_sonce port (snd s))
   | Some kmsg \<Rightarrow> notify_send k kmsg ((notify_message k ipc_notify_init_no_senders port (snd s))\<lparr>not_data := NotCount mscount\<rparr>) s)"

definition ipc_notify_send_once :: "notify_kernel \<Rightarrow> ipc_port_t \<Rightarrow> notify_state \<Rightarrow> notify_state option" where
  "ipc_notify_send_once k port s = (case notify_alloc k NotNothing port (snd s) of
     None \<Rightarrow> Some (fst s, ipc_port_release_sonce port (snd s))
   | Some kmsg \<Rightarrow> notify_send k kmsg (notify_message k ipc_notify_init_send_once port (snd s)) s)"

definition ipc_notify_dead_name :: "notify_kernel \<Rightarrow> ipc_port_t \<Rightarrow> mach_port_t \<Rightarrow> notify_state \<Rightarrow> notify_state option" where
  "ipc_notify_dead_name k port name s = (case notify_alloc k (NotPort name) port (snd s) of
     None \<Rightarrow> Some (fst s, ipc_port_release_sonce port (snd s))
   | Some kmsg \<Rightarrow> notify_send k kmsg ((notify_message k ipc_notify_init_dead_name port (snd s))\<lparr>not_data := NotPort name\<rparr>) s)"

section \<open>The notifications of the log\<close>

text \<open>What a notification of the log says: its port, the number of the message and the data.\<close>

fun notification_of :: "ipc_event \<Rightarrow> (ipc_port_t \<times> nat \<times> notification_data) option" where
  "notification_of (NotifyPortDeleted port name) = Some (port, 65, NotPort name)"
| "notification_of (NotifyPortDestroyed port right) = Some (port, 69, NotDescriptor MACH_MSG_TYPE_PORT_RECEIVE right)"
| "notification_of (NotifyNoSenders port mscount) = Some (port, 70, NotCount mscount)"
| "notification_of (NotifySendOnce port) = Some (port, 71, NotNothing)"
| "notification_of (NotifyDeadName port name) = Some (port, 72, NotPort name)"
| "notification_of _ = None"

text \<open>The call that an entry of the log stands for.\<close>

fun notify_event :: "notify_kernel \<Rightarrow> ipc_event \<Rightarrow> notify_state \<Rightarrow> notify_state option" where
  "notify_event k (NotifyPortDeleted port name) s = ipc_notify_port_deleted k port name s"
| "notify_event k (NotifyPortDestroyed port right) s = ipc_notify_port_destroyed k port right s"
| "notify_event k (NotifyNoSenders port mscount) s = ipc_notify_no_senders k port mscount s"
| "notify_event k (NotifySendOnce port) s = ipc_notify_send_once k port s"
| "notify_event k (NotifyDeadName port name) s = ipc_notify_dead_name k port name s"
| "notify_event k _ s = None"

lemmas notify_defs = ipc_notify_port_deleted_def ipc_notify_port_destroyed_def ipc_notify_no_senders_def
  ipc_notify_send_once_def ipc_notify_dead_name_def notify_alloc_def notify_message_def notify_send_def

lemmas notify_templates = ipc_notify_init_port_deleted_def ipc_notify_init_port_destroyed_def ipc_notify_init_no_senders_def
  ipc_notify_init_send_once_def ipc_notify_init_dead_name_def

lemmas notify_numbers = MACH_NOTIFY_PORT_DELETED_def MACH_NOTIFY_PORT_DESTROYED_def MACH_NOTIFY_NO_SENDERS_def
  MACH_NOTIFY_SEND_ONCE_def MACH_NOTIFY_DEAD_NAME_def MACH_NOTIFY_FIRST_def

text \<open>A message that is always sent, to a port of a user: it is queued or handed over, or destroyed with a dead port; nobody waits.\<close>

lemma send_always:
  assumes "ip_receiver (w_ports w (msgh_remote_port kmsg)) \<noteq> nk_space_kernel k" "msgh_bits kmsg AND MACH_MSGH_BITS_CIRCULAR = 0"
  shows "ipc_mqueue_send_always k kmsg w = Some (let port = msgh_remote_port kmsg in
     if ip_active (w_ports w port) then snd (ipc_mqueue_deliver port kmsg w)
     else emit [KmsgDestroy (kmsg\<lparr>msgh_remote_port := MACH_PORT_NULL\<rparr>)] (ipc_port_release port w))"
  using assms unfolding ipc_mqueue_send_always_def
  by (subst ipc_mqueue_send.simps, subst send_loop.simps) (simp add: Let_def MACH_SEND_ALWAYS_def)

text \<open>The message of a notification: the template with the port and the data.\<close>

fun template_of :: "ipc_event \<Rightarrow> notification" where
  "template_of (NotifyPortDeleted _ _) = ipc_notify_init_port_deleted"
| "template_of (NotifyPortDestroyed _ _) = ipc_notify_init_port_destroyed"
| "template_of (NotifyNoSenders _ _) = ipc_notify_init_no_senders"
| "template_of (NotifySendOnce _) = ipc_notify_init_send_once"
| "template_of _ = ipc_notify_init_dead_name"

lemma notify_message_bits:
  "not_bits (notify_message k template port w) = not_bits template OR (if nk_rt k \<and> IP_RT (w_ports w port) then MACH_MSGH_BITS_RTALLOC else 0)"
  "not_id (notify_message k template port w) = not_id template" "not_size (notify_message k template port w) = not_size template"
  "not_data (notify_message k template port w) = not_data template" "not_remote_port (notify_message k template port w) = port"
  by (simp_all add: notify_message_def KMSG_MARK_RT_def)

lemma template_fields:
  assumes "notification_of e = Some (port, msgid, d)"
  shows "not_id (template_of e) = of_nat msgid" "not_size (template_of e) + 20 = sizeof_notification d"
    "not_bits (template_of e) = (if \<exists>t right. d = NotDescriptor t right then 0x80000012 else 0x12)"
proof -
  show "not_id (template_of e) = of_nat msgid" using assms by (cases e) (auto simp: notify_templates notify_numbers)
  show "not_size (template_of e) + 20 = sizeof_notification d" using assms by (cases e) (auto simp: notify_templates sizeof_notification_def)
  show "not_bits (template_of e) = (if \<exists>t right. d = NotDescriptor t right then 0x80000012 else 0x12)"
    using assms by (cases e) (auto simp: notify_templates MACH_MSGH_BITS_def MACH_MSGH_BITS_COMPLEX_def msg_type_defs)
qed

lemma notify_split:
  assumes "notification_of e = Some (port, msgid, d)"
  shows "notify_event k e s = (case notify_alloc k d port (snd s) of
     None \<Rightarrow> map_option (Pair (fst s)) ((case d of NotDescriptor _ right \<Rightarrow> ipc_port_release_receive (nk_dnits k) (nk_try k) right | _ \<Rightarrow> Some)
       (ipc_port_release_sonce port (snd s)))
   | Some address \<Rightarrow> notify_send k address ((notify_message k (template_of e) port (snd s))\<lparr>not_data := d\<rparr>) s)"
proof (cases e)
  case (NotifySendOnce port')
  have "(notify_message k ipc_notify_init_send_once port w)\<lparr>not_data := NotNothing\<rparr> = notify_message k ipc_notify_init_send_once port w" for w
    by (simp add: notify_message_def KMSG_MARK_RT_def ipc_notify_init_send_once_def)
  with assms NotifySendOnce show ?thesis by (auto simp: ipc_notify_send_once_def split: option.split)
qed (use assms in \<open>auto simp: ipc_notify_port_deleted_def ipc_notify_port_destroyed_def ipc_notify_no_senders_def
    ipc_notify_dead_name_def split: option.split\<close>)

text \<open>
  C39: Notifications are messages that never block and reach their port exactly once. For every
  notification in the log whose port is not one of the kernel's own, the call takes one message buffer and sends to the registered port the message
  with the number and the data of the notification, under a send-once right; it goes to a waiting
  receiver or into the queue even when the queue is full, and is destroyed with its reference if the
  port is dead. Without memory the send-once right is released, and with it the receive right that a
  port-destroyed notification would carry.
\<close>

theorem notifications_delivered:
  assumes n: "notification_of e = Some (port, msgid, d)" and user: "ip_receiver (w_ports (snd s) port) \<noteq> nk_space_kernel k"
  shows "case nk_mem k (nk_rt k \<and> IP_RT (w_ports (snd s) port)) (sizeof_notification d) of
      None \<Rightarrow> notify_event k e s = map_option (Pair (fst s)) ((case d of
        NotDescriptor _ right \<Rightarrow> ipc_port_release_receive (nk_dnits k) (nk_try k) right | _ \<Rightarrow> Some)
          (ipc_port_release_sonce port (snd s)))
    | Some address \<Rightarrow> \<exists>m. not_remote_port m = port \<and> not_id m = of_nat msgid \<and> not_data m = d \<and>
        MACH_MSGH_BITS_REMOTE (not_bits m) = MACH_MSG_TYPE_PORT_SEND_ONCE \<and> not_size m + 20 = sizeof_notification d \<and>
        (not_bits m AND MACH_MSGH_BITS_COMPLEX \<noteq> 0 \<longleftrightarrow> (\<exists>t right. d = NotDescriptor t right)) \<and>
        notify_event k e s = Some ((fst s)(address \<mapsto> m),
          if ip_active (w_ports (snd s) port) then snd (ipc_mqueue_deliver port (kmsg_of address m) (snd s))
          else emit [KmsgDestroy ((kmsg_of address m)\<lparr>msgh_remote_port := MACH_PORT_NULL\<rparr>)] (ipc_port_release port (snd s)))"
proof (cases "notify_alloc k d port (snd s)")
  case None
  with notify_split [OF n, of k s] show ?thesis by (simp add: notify_alloc_def)
next
  case (Some address)
  let ?m = "(notify_message k (template_of e) port (snd s))\<lparr>not_data := d\<rparr>"
  note fields = template_fields [OF n] notify_message_bits [of k "template_of e" port "snd s"]
  have bits: "not_bits ?m AND MACH_MSGH_BITS_CIRCULAR = 0" "MACH_MSGH_BITS_REMOTE (not_bits ?m) = MACH_MSG_TYPE_PORT_SEND_ONCE"
    "not_bits ?m AND MACH_MSGH_BITS_COMPLEX \<noteq> 0 \<longleftrightarrow> (\<exists>t right. d = NotDescriptor t right)"
    by (simp_all add: fields MACH_MSGH_BITS_CIRCULAR_def MACH_MSGH_BITS_RTALLOC_def MACH_MSGH_BITS_REMOTE_def MACH_MSGH_BITS_COMPLEX_def
        msg_type_defs)
  have "notify_event k e s = notify_send k address ?m s" using notify_split [OF n, of k s] Some by simp
  also have "\<dots> = Some ((fst s)(address \<mapsto> ?m),
      if ip_active (w_ports (snd s) port) then snd (ipc_mqueue_deliver port (kmsg_of address ?m) (snd s))
      else emit [KmsgDestroy ((kmsg_of address ?m)\<lparr>msgh_remote_port := MACH_PORT_NULL\<rparr>)] (ipc_port_release port (snd s)))"
    using send_always [of "snd s" "kmsg_of address ?m" k] user bits(1) by (simp add: notify_send_def kmsg_of_def fields Let_def)
  finally have sent: "notify_event k e s = \<dots>" .
  have mem: "nk_mem k (nk_rt k \<and> IP_RT (w_ports (snd s) port)) (sizeof_notification d) = Some address"
    using Some by (simp add: notify_alloc_def)
  have "not_remote_port ?m = port" "not_id ?m = of_nat msgid" "not_data ?m = d" "not_size ?m + 20 = sizeof_notification d"
    using fields by simp_all
  with bits(2,3) sent show ?thesis unfolding mem option.case by (intro exI [of _ ?m] conjI) assumption+
qed

text \<open>A no-senders notification for a port of the example world that is full.\<close>

definition example_kernel :: notify_kernel where
  "example_kernel = \<lparr>nk_rt = True, nk_mem = (\<lambda>rt n. Some 0x700), nk_server = (\<lambda>_ w. (None, w)), nk_space_kernel = 0x2000,
     nk_env = (\<lambda>_ w. (\<lparr>ith_state = MACH_SEND_IN_PROGRESS, ith_kmsg = kmsg_of 0 ipc_notify_init_send_once, ith_seqno = 0,
       wait_result = THREAD_TIMED_OUT\<rparr>, w)), nk_self = 7, nk_dnits = [], nk_try = False\<rparr>"

theorem notifications_delivered_witness:
  "\<exists>m. not_id m = 70 \<and> not_data m = NotCount 3 \<and>
     notify_event example_kernel (NotifyNoSenders 0x40 3) (Map.empty, example_world) =
       Some ([0x700 \<mapsto> m], snd (ipc_mqueue_deliver 0x40 (kmsg_of 0x700 m) example_world))"
proof -
  have "ip_receiver (w_ports example_world 0x40) \<noteq> nk_space_kernel example_kernel" "ip_active (w_ports example_world 0x40)"
    "nk_mem example_kernel r n = Some 0x700" for r n
    by (simp_all add: example_kernel_def example_world_def example_port_def io_makebits_def io_active_def ipc_defs)
  then show ?thesis
    using notifications_delivered [of "NotifyNoSenders 0x40 3" "0x40" 70 "NotCount 3" "(Map.empty, example_world)" example_kernel] by auto
qed

end
