(* ===== verification/Ipc_Kmsg.thy ===== *)
theory Ipc_Kmsg
  imports Ipc_Notify
begin

text \<open>
  The port rights in the header of a message (\<open>ipc/ipc_kmsg.c\<close>): the copyin of the names of the
  destination and of the reply port when a message is sent, their copyout when it is received, and the
  destruction of a message.

  \<^item> A header is the record of its bits and of the two port fields, which hold names in a user's message
    and addresses in the kernel.
  \<^item> \<open>env k\<close> is what other threads do to the ports at the \<open>k\<close>-th place where a copyin holds no lock of the
    ports; the space stays locked. The parameters of copyout are those of \<open>ipc_object_copyout\<close> and
    \<open>ipc_port_dngrow\<close>.
  \<^item> The bodies of messages are parameters: \<open>clean_body\<close> and \<open>copyout_body\<close> are what becomes of the rights and
    of the memory in a complex message.
\<close>

section \<open>Headers\<close>

record mach_msg_header =
  hdr_bits :: "32 word"
  hdr_remote_port :: "32 word"
  hdr_local_port :: "32 word"

definition MACH_MSGH_BITS_LOCAL :: "32 word \<Rightarrow> mach_msg_type_name_t" where
  "MACH_MSGH_BITS_LOCAL bits = drop_bit 8 (bits AND 0x0000ff00)"

definition MACH_MSGH_BITS_OTHER :: "32 word \<Rightarrow> 32 word" where
  "MACH_MSGH_BITS_OTHER bits = bits AND NOT 0x0000ffff"

definition MACH_MSG_TYPE_PORT_ANY_SEND :: "mach_msg_type_name_t \<Rightarrow> bool" where
  "MACH_MSG_TYPE_PORT_ANY_SEND x \<longleftrightarrow> MACH_MSG_TYPE_MOVE_SEND \<le> x \<and> x \<le> MACH_MSG_TYPE_MAKE_SEND_ONCE"

definition MACH_MSG_IPC_SPACE :: "32 word" where
  "MACH_MSG_IPC_SPACE = 0x2000"

definition MACH_MSG_IPC_KERNEL :: "32 word" where
  "MACH_MSG_IPC_KERNEL = 0x800"

section \<open>Copyin\<close>

text \<open>The ports of a header and the send-once rights for port-deleted notifications, or the error.\<close>

type_synonym header_ports = "ipc_object_t \<times> ipc_object_t \<times> ipc_port_t \<times> ipc_port_t"
type_synonym header_result = "(mach_msg_return_t + header_ports) \<times> right_state"

text \<open>An entry that names nothing any more is deallocated.\<close>

definition dealloc_defunct :: "nat list \<Rightarrow> mach_port_t \<Rightarrow> ipc_entry_ref \<Rightarrow> right_state \<Rightarrow> right_state option" where
  "dealloc_defunct its name ref s = do {
     e \<leftarrow> get_entry (snd s) ref;
     if IE_BITS_TYPE (ie_bits e) = MACH_PORT_TYPE_NONE then right_entry_dealloc its name ref s else Some s
   }"

text \<open>Destination and reply port have the same name; the reply has been checked.\<close>

definition copyin_two_rights ::
  "nat list \<Rightarrow> (nat \<Rightarrow> ipc_world \<Rightarrow> ipc_world) \<Rightarrow> mach_port_t \<Rightarrow> ipc_entry_ref \<Rightarrow> mach_msg_type_name_t \<Rightarrow> mach_msg_type_name_t \<Rightarrow>
   right_state \<Rightarrow> header_result option" where
  "copyin_two_rights its env name ref dest_type reply_type s =
     (if dest_type = MACH_MSG_TYPE_MOVE_SEND_ONCE \<or> reply_type = MACH_MSG_TYPE_MOVE_SEND_ONCE
      then Some (Inl MACH_SEND_INVALID_DEST, s)
      else if dest_type = MACH_MSG_TYPE_MAKE_SEND \<or> dest_type = MACH_MSG_TYPE_MAKE_SEND_ONCE \<or>
        reply_type = MACH_MSG_TYPE_MAKE_SEND \<or> reply_type = MACH_MSG_TYPE_MAKE_SEND_ONCE
      then do {
        (kr, dest_port, dest_soright, s2) \<leftarrow> ipc_right_copyin name ref dest_type False s;
        if kr \<noteq> KERN_SUCCESS then Some (Inl MACH_SEND_INVALID_DEST, s2)
        else do {
          (kr1, reply_port, reply_soright, s3) \<leftarrow> ipc_right_copyin name ref reply_type True s2;
          Some (Inr (dest_port, reply_port, dest_soright, reply_soright), s3)
        }
      }
      else if dest_type = MACH_MSG_TYPE_COPY_SEND \<and> reply_type = MACH_MSG_TYPE_COPY_SEND then do {
        (kr, dest_port, dest_soright, s2) \<leftarrow> ipc_right_copyin name ref dest_type False s;
        if kr \<noteq> KERN_SUCCESS then Some (Inl MACH_SEND_INVALID_DEST, s2)
        else case ipc_port_copy_send dest_port (env 0 (fst s2)) of (reply_port, w) \<Rightarrow>
          Some (Inr (dest_port, reply_port, dest_soright, IP_NULL), w, snd s2)
      }
      else if dest_type = MACH_MSG_TYPE_MOVE_SEND \<and> reply_type = MACH_MSG_TYPE_MOVE_SEND then do {
        (kr, dest_port, dest_soright, s2) \<leftarrow> ipc_right_copyin_two name ref s;
        if kr \<noteq> KERN_SUCCESS then Some (Inl MACH_SEND_INVALID_DEST, s2)
        else do {
          s3 \<leftarrow> dealloc_defunct its name ref s2;
          Some (Inr (dest_port, dest_port, dest_soright, IP_NULL), s3)
        }
      }
      else do {
        (kr, dest_port, soright, s2) \<leftarrow> ipc_right_copyin name ref MACH_MSG_TYPE_MOVE_SEND False s;
        if kr \<noteq> KERN_SUCCESS then Some (Inl MACH_SEND_INVALID_DEST, s2)
        else do {
          s3 \<leftarrow> dealloc_defunct its name ref s2;
          case ipc_port_copy_send dest_port (env 0 (fst s3)) of (reply_port, w) \<Rightarrow>
            Some (Inr (if dest_type = MACH_MSG_TYPE_MOVE_SEND then (dest_port, reply_port, soright, IP_NULL)
                       else (dest_port, reply_port, IP_NULL, soright)), w, snd s3)
        }
      })"

definition copyin_header_same ::
  "nat list \<Rightarrow> (nat \<Rightarrow> ipc_world \<Rightarrow> ipc_world) \<Rightarrow> mach_port_t \<Rightarrow> mach_msg_type_name_t \<Rightarrow> mach_msg_type_name_t \<Rightarrow> right_state \<Rightarrow>
   header_result option" where
  "copyin_header_same its env name dest_type reply_type s = do {
     (r, space1) \<leftarrow> ipc_entry_lookup (snd s) name;
     let s1 = (fst s, space1);
     case r of
       None \<Rightarrow> Some (Inl MACH_SEND_INVALID_DEST, s1)
     | Some ref \<Rightarrow> do {
         check \<leftarrow> ipc_right_copyin_check ref reply_type s1;
         if \<not> check then Some (Inl MACH_SEND_INVALID_REPLY, s1)
         else copyin_two_rights its env name ref dest_type reply_type s1
       }
   }"

text \<open>There is no reply port.\<close>

definition copyin_header_dest ::
  "nat list \<Rightarrow> mach_port_t \<Rightarrow> mach_msg_type_name_t \<Rightarrow> mach_port_t \<Rightarrow> right_state \<Rightarrow> header_result option" where
  "copyin_header_dest its dest_name dest_type reply_name s = do {
     (r, space1) \<leftarrow> ipc_entry_lookup (snd s) dest_name;
     let s1 = (fst s, space1);
     case r of
       None \<Rightarrow> Some (Inl MACH_SEND_INVALID_DEST, s1)
     | Some ref \<Rightarrow> do {
         (kr, dest_port, dest_soright, s2) \<leftarrow> ipc_right_copyin dest_name ref dest_type False s1;
         if kr \<noteq> KERN_SUCCESS then Some (Inl MACH_SEND_INVALID_DEST, s2)
         else do {
           s3 \<leftarrow> dealloc_defunct its dest_name ref s2;
           Some (Inr (dest_port, reply_name, dest_soright, IP_NULL), s3)
         }
       }
   }"

text \<open>
  The copyins of destination and reply port have to appear at one time. When the reply port was dead
  but the destination died before it, both copyins are undone.
\<close>

definition copyin_must_undo :: "ipc_port_t \<Rightarrow> ipc_object_t \<Rightarrow> ipc_port_t \<Rightarrow> ipc_world \<Rightarrow> bool" where
  "copyin_must_undo saved_reply reply_port dest w \<longleftrightarrow> saved_reply \<noteq> IP_NULL \<and> reply_port = IO_DEAD \<and>
     \<not> ip_active (w_ports w dest) \<and> IP_TIMESTAMP_ORDER (ip_timestamp (w_ports w dest)) (ip_timestamp (w_ports w saved_reply))"

definition copyin_header_both ::
  "nat list \<Rightarrow> (nat \<Rightarrow> ipc_world \<Rightarrow> ipc_world) \<Rightarrow> mach_port_t \<Rightarrow> mach_msg_type_name_t \<Rightarrow> mach_port_t \<Rightarrow> mach_msg_type_name_t \<Rightarrow>
   right_state \<Rightarrow> header_result option" where
  "copyin_header_both its env dest_name dest_type reply_name reply_type s = do {
     (r, space1) \<leftarrow> ipc_entry_lookup (snd s) dest_name;
     case r of
       None \<Rightarrow> Some (Inl MACH_SEND_INVALID_DEST, fst s, space1)
     | Some dest_ref \<Rightarrow> do {
         (r1, space2) \<leftarrow> ipc_entry_lookup space1 reply_name;
         let s1 = (fst s, space2);
         case r1 of
           None \<Rightarrow> Some (Inl MACH_SEND_INVALID_REPLY, s1)
         | Some reply_ref \<Rightarrow> do {
             ok \<leftarrow> ipc_right_copyin_check reply_ref reply_type s1;
             if \<not> ok then Some (Inl MACH_SEND_INVALID_REPLY, s1)
             else do {
               (kr, dest_port, dest_soright, s2) \<leftarrow> ipc_right_copyin dest_name dest_ref dest_type False (on_world (env 0) s1);
               if kr \<noteq> KERN_SUCCESS then Some (Inl MACH_SEND_INVALID_DEST, s2)
               else do {
                 e \<leftarrow> get_entry (snd s2) reply_ref;
                 let saved_reply = ie_object e;
                 let s3 = (if saved_reply \<noteq> IP_NULL then on_world (ip_reference saved_reply) s2 else s2);
                 (kr1, reply_port, reply_soright, s4) \<leftarrow> ipc_right_copyin reply_name reply_ref reply_type True (on_world (env 1) s3);
                 let s5 = on_world (env 2) s4;
                 if copyin_must_undo saved_reply reply_port dest_port (fst s5) then do {
                   s6 \<leftarrow> ipc_right_copyin_undo dest_name dest_ref dest_type dest_port dest_soright s5;
                   s7 \<leftarrow> ipc_right_copyin_undo reply_name reply_ref reply_type reply_port reply_soright s6;
                   let s8 = (if dest_soright \<noteq> IP_NULL then on_world (emit [NotifyDeadName dest_soright dest_name]) s7 else s7);
                   Some (Inl MACH_SEND_INVALID_DEST, on_world (ipc_port_release saved_reply) s8)
                 }
                 else do {
                   s6 \<leftarrow> dealloc_defunct its reply_name reply_ref s5;
                   s7 \<leftarrow> dealloc_defunct its dest_name dest_ref s6;
                   let s8 = (if saved_reply \<noteq> IP_NULL then on_world (ipc_port_release saved_reply) s7 else s7);
                   Some (Inr (dest_port, reply_port, dest_soright, reply_soright), s8)
                 }
               }
             }
           }
       }
   }"

text \<open>
  The receive right that \<open>notify\<close> names, if it is not null: the error, or the port.
\<close>

definition header_notify ::
  "mach_msg_return_t \<Rightarrow> mach_port_t \<Rightarrow> right_state \<Rightarrow> ((mach_msg_return_t + ipc_port_t) \<times> right_state) option" where
  "header_notify err notify s =
     (if notify = MACH_PORT_NULL then Some (Inr IP_NULL, s)
      else do {
        (r, space1) \<leftarrow> ipc_entry_lookup (snd s) notify;
        case r of
          None \<Rightarrow> Some (Inl err, fst s, space1)
        | Some ref \<Rightarrow> do {
            e \<leftarrow> get_entry space1 ref;
            Some (if ie_bits e AND MACH_PORT_TYPE_RECEIVE = 0 then Inl err else Inr (ie_object e), fst s, space1)
          }
      })"

definition ipc_kmsg_copyin_header ::
  "nat list \<Rightarrow> (nat \<Rightarrow> ipc_world \<Rightarrow> ipc_world) \<Rightarrow> mach_msg_header \<Rightarrow> mach_port_t \<Rightarrow> right_state \<Rightarrow>
   (mach_msg_return_t \<times> mach_msg_header \<times> right_state) option" where
  "ipc_kmsg_copyin_header its env msg notify s =
     (let mbits = hdr_bits msg AND NOT MACH_MSGH_BITS_CIRCULAR; dest_name = hdr_remote_port msg; reply_name = hdr_local_port msg;
          dest_type = MACH_MSGH_BITS_REMOTE mbits; reply_type = MACH_MSGH_BITS_LOCAL mbits in
      if \<not> MACH_MSG_TYPE_PORT_ANY_SEND dest_type then Some (MACH_SEND_INVALID_HEADER, msg, s)
      else if (if reply_type = 0 then reply_name \<noteq> MACH_PORT_NULL else \<not> MACH_MSG_TYPE_PORT_ANY_SEND reply_type)
      then Some (MACH_SEND_INVALID_HEADER, msg, s)
      else if \<not> is_active (snd s) then Some (MACH_SEND_INVALID_DEST, msg, s)
      else do {
        (n, s1) \<leftarrow> header_notify MACH_SEND_INVALID_NOTIFY notify s;
        case n of
          Inl mr \<Rightarrow> Some (mr, msg, s1)
        | Inr notify_port \<Rightarrow> do {
            (r, s2) \<leftarrow>
              (if dest_name = reply_name then copyin_header_same its env dest_name dest_type reply_type s1
               else if \<not> MACH_PORT_VALID reply_name then copyin_header_dest its dest_name dest_type reply_name s1
               else copyin_header_both its env dest_name dest_type reply_name reply_type s1);
            case r of
              Inl mr \<Rightarrow> Some (mr, msg, s2)
            | Inr (dest_port, reply_port, dest_soright, reply_soright) \<Rightarrow> do {
                let cancel = (notify \<noteq> MACH_PORT_NULL \<and> dest_soright = notify_port);
                let s3 = (if cancel then on_world (ipc_port_release_sonce dest_soright) s2
                          else notify_port_deleted dest_soright dest_name s2);
                let s4 = notify_port_deleted reply_soright reply_name s3;
                dest_type1 \<leftarrow> ipc_object_copyin_type dest_type;
                reply_type1 \<leftarrow> ipc_object_copyin_type reply_type;
                Some (MACH_MSG_SUCCESS,
                      \<lparr>hdr_bits = MACH_MSGH_BITS_OTHER mbits OR MACH_MSGH_BITS dest_type1 reply_type1,
                       hdr_remote_port = dest_port, hdr_local_port = reply_port\<rparr>, s4)
              }
          }
      })"

section \<open>Copyout\<close>

text \<open>
  What becomes of the reply port: an error, a dead port, or an entry for it, together with the send-once
  right of the notify port that was not used.
\<close>

datatype reply_result =
    ReplyError mach_msg_return_t
  | ReplyDead
  | ReplyEntry mach_port_t ipc_entry_ref ipc_port_t

abbreviation release_notify :: "ipc_port_t \<Rightarrow> right_state \<Rightarrow> right_state" where
  "release_notify notify_port s \<equiv> (if notify_port \<noteq> IP_NULL then on_world (ipc_port_release_sonce notify_port) s else s)"

text \<open>
  The loop that finds or makes an entry for the reply port. \<open>dnmem\<close> and \<open>dnenv\<close> are the memory for request tables
  and what other threads do while it is allocated.
\<close>

partial_function (option) copyout_reply ::
  "nat list \<Rightarrow> (nat \<Rightarrow> bool) \<Rightarrow> (ipc_state \<Rightarrow> ipc_state) \<Rightarrow> nat list \<Rightarrow> (nat \<Rightarrow> 32 word option) \<Rightarrow> (ipc_world \<Rightarrow> ipc_world) \<Rightarrow>
   ipc_port_t \<Rightarrow> mach_msg_type_name_t \<Rightarrow> mach_port_t \<Rightarrow> right_state \<Rightarrow> (reply_result \<times> right_state) option" where
  "copyout_reply its mem env dnits dnmem dnenv reply reply_type notify s =
     (if \<not> is_active (snd s) then Some (ReplyError (MACH_RCV_HEADER_ERROR MACH_MSG_IPC_SPACE), s)
      else do {
        (notify_port, space1, w1) \<leftarrow> (if notify \<noteq> MACH_PORT_NULL then ipc_port_lookup_notify (snd s) notify (fst s)
                                        else Some (IP_NULL, snd s, fst s));
        let s1 = (w1, space1);
        if notify \<noteq> MACH_PORT_NULL \<and> notify_port = IP_NULL then Some (ReplyError MACH_RCV_INVALID_NOTIFY, s1)
        else do {
          (found, s2) \<leftarrow> (if reply_type \<noteq> MACH_MSG_TYPE_PORT_SEND_ONCE then ipc_right_reverse reply s1 else Some (None, s1));
          case found of
            Some (name, ref) \<Rightarrow> Some (ReplyEntry name ref notify_port, s2)
          | None \<Rightarrow>
            if \<not> ip_active (port_of s2 reply)
            then Some (ReplyDead, release_notify notify_port (on_world (ipc_port_release reply) s2))
            else case ipc_entry_get (snd s2) of
              (kr, None, space) \<Rightarrow> do {
                let s3 = release_notify notify_port (fst s2, space);
                (kr1, locked, g, sp) \<leftarrow> ipc_entry_grow_table its mem env (w_hash (fst s3), snd s3) ITS_SIZE_NONE;
                let s4 = ((fst s3)\<lparr>w_hash := g\<rparr>, sp);
                if kr1 \<noteq> KERN_SUCCESS
                then Some (ReplyError (MACH_RCV_HEADER_ERROR
                       (if kr1 = KERN_RESOURCE_SHORTAGE then MACH_MSG_IPC_KERNEL else MACH_MSG_IPC_SPACE)), s4)
                else copyout_reply its mem env dnits dnmem dnenv reply reply_type notify s4
              }
            | (kr, Some (name, ref), space) \<Rightarrow>
                if notify_port = IP_NULL then do {
                  s3 \<leftarrow> upd_entry ref (\<lambda>e. e\<lparr>ie_object := reply\<rparr>) (fst s2, space);
                  Some (ReplyEntry name ref IP_NULL, s3)
                }
                else case ipc_port_dnrequest reply name notify_port (fst s2) of (kr1, request, w) \<Rightarrow>
                  if kr1 \<noteq> KERN_SUCCESS then do {
                    s3 \<leftarrow> right_entry_dealloc its name ref (on_world (ipc_port_release_sonce notify_port) (w, space));
                    if \<not> ip_active (port_of s3 reply)
                    then copyout_reply its mem env dnits dnmem dnenv reply reply_type notify s3
                    else do {
                      (kr2, w4) \<leftarrow> ipc_port_dngrow dnits dnmem dnenv reply ITS_SIZE_NONE (fst s3);
                      if kr2 \<noteq> KERN_SUCCESS
                      then Some (ReplyError (MACH_RCV_HEADER_ERROR MACH_MSG_IPC_KERNEL), w4, snd s3)
                      else copyout_reply its mem env dnits dnmem dnenv reply reply_type notify (w4, snd s3)
                    }
                  }
                  else do {
                    s3 \<leftarrow> upd_entry ref (\<lambda>e. e\<lparr>ie_object := reply, ie_request := request\<rparr>) (w, space);
                    Some (ReplyEntry name ref IP_NULL, s3)
                  }
        }
      })"

declare copyout_reply.simps [code]

text \<open>The name of the destination, with the reply port already copied out; \<open>reply\<close> holds a reference if it is valid.\<close>

definition copyout_header_dest ::
  "ipc_port_t \<Rightarrow> mach_msg_type_name_t \<Rightarrow> ipc_port_t \<Rightarrow> right_state \<Rightarrow> (mach_port_t \<times> right_state) option" where
  "copyout_header_dest dest dest_type reply s = do {
     (dest_name, s1) \<leftarrow>
       (if ip_active (port_of s dest) then ipc_object_copyout_dest dest dest_type s
        else
          let timestamp = ip_timestamp (port_of s dest); s1 = on_world (ipc_port_release dest) s in
          Some (if \<not> IO_VALID reply \<or> ip_active (port_of s1 reply) \<or>
                   IP_TIMESTAMP_ORDER timestamp (ip_timestamp (port_of s1 reply))
                then MACH_PORT_DEAD else MACH_PORT_NULL, s1));
     Some (dest_name, if IO_VALID reply then on_world (ipc_port_release reply) s1 else s1)
   }"

definition ipc_kmsg_copyout_header ::
  "nat list \<Rightarrow> (nat \<Rightarrow> bool) \<Rightarrow> (ipc_state \<Rightarrow> ipc_state) \<Rightarrow> nat list \<Rightarrow> (nat \<Rightarrow> 32 word option) \<Rightarrow> (ipc_world \<Rightarrow> ipc_world) \<Rightarrow>
   mach_msg_header \<Rightarrow> mach_port_t \<Rightarrow> right_state \<Rightarrow> (mach_msg_return_t \<times> mach_msg_header \<times> right_state) option" where
  "ipc_kmsg_copyout_header its mem env dnits dnmem dnenv msg notify s =
     (let mbits = hdr_bits msg; dest = hdr_remote_port msg; dest_type = MACH_MSGH_BITS_REMOTE mbits;
          reply_type = MACH_MSGH_BITS_LOCAL mbits; reply = hdr_local_port msg;
          finish = (\<lambda>reply1 reply_name s1. do {
            (dest_name, s2) \<leftarrow> copyout_header_dest dest dest_type reply1 s1;
            Some (MACH_MSG_SUCCESS, \<lparr>hdr_bits = MACH_MSGH_BITS_OTHER mbits OR MACH_MSGH_BITS reply_type dest_type,
              hdr_remote_port = reply_name, hdr_local_port = dest_name\<rparr>, s2)
          })
      in
      if IO_VALID reply then do {
        (r, s1) \<leftarrow> copyout_reply its mem env dnits dnmem dnenv reply reply_type notify s;
        case r of
          ReplyError mr \<Rightarrow> Some (mr, msg, s1)
        | ReplyDead \<Rightarrow> finish IO_DEAD MACH_PORT_DEAD s1
        | ReplyEntry reply_name ref notify_port \<Rightarrow> do {
            (kr, s2) \<leftarrow> ipc_right_copyout reply_name ref reply_type True reply (on_world (ip_reference reply) s1);
            finish reply reply_name (release_notify notify_port s2)
          }
      }
      else if \<not> is_active (snd s) then Some (MACH_RCV_HEADER_ERROR MACH_MSG_IPC_SPACE, msg, s)
      else do {
        (n, s1) \<leftarrow> header_notify MACH_RCV_INVALID_NOTIFY notify s;
        case n of Inl mr \<Rightarrow> Some (mr, msg, s1) | Inr _ \<Rightarrow> finish reply reply s1
      })"

text \<open>The result is a combination of special bits; 0 is success.\<close>

definition ipc_kmsg_copyout_object ::
  "nat list \<Rightarrow> (nat \<Rightarrow> bool) \<Rightarrow> (ipc_state \<Rightarrow> ipc_state) \<Rightarrow> nat list \<Rightarrow> bool \<Rightarrow> ipc_object_t \<Rightarrow> mach_msg_type_name_t \<Rightarrow> right_state \<Rightarrow>
   (32 word \<times> mach_port_t \<times> right_state) option" where
  "ipc_kmsg_copyout_object its mem env dnits try object msgt_name s =
     (if \<not> IO_VALID object then Some (0, object, s)
      else do {
        (kr, name, s1) \<leftarrow> ipc_object_copyout its mem env object msgt_name True s;
        if kr = KERN_SUCCESS then Some (0, name, s1)
        else do {
          w \<leftarrow> ipc_object_destroy dnits try object msgt_name (fst s1);
          Some (if kr = KERN_INVALID_CAPABILITY then (0, MACH_PORT_DEAD, w, snd s1)
                else (if kr = KERN_RESOURCE_SHORTAGE then MACH_MSG_IPC_KERNEL else MACH_MSG_IPC_SPACE, MACH_PORT_NULL, w, snd s1))
        }
      })"

definition ipc_kmsg_copyout_pseudo ::
  "nat list \<Rightarrow> (nat \<Rightarrow> bool) \<Rightarrow> (ipc_state \<Rightarrow> ipc_state) \<Rightarrow> nat list \<Rightarrow> bool \<Rightarrow> (right_state \<Rightarrow> (32 word \<times> right_state) option) \<Rightarrow>
   mach_msg_header \<Rightarrow> right_state \<Rightarrow> (32 word \<times> mach_msg_header \<times> right_state) option" where
  "ipc_kmsg_copyout_pseudo its mem env dnits try copyout_body msg s = do {
     let mbits = hdr_bits msg;
     (mr1, dest_name, s1) \<leftarrow> ipc_kmsg_copyout_object its mem env dnits try (hdr_remote_port msg) (MACH_MSGH_BITS_REMOTE mbits) s;
     (mr2, reply_name, s2) \<leftarrow> ipc_kmsg_copyout_object its mem env dnits try (hdr_local_port msg) (MACH_MSGH_BITS_LOCAL mbits) s1;
     let msg1 = \<lparr>hdr_bits = mbits AND NOT MACH_MSGH_BITS_CIRCULAR, hdr_remote_port = dest_name, hdr_local_port = reply_name\<rparr>;
     if mbits AND MACH_MSGH_BITS_COMPLEX \<noteq> 0 then do {
       (mr3, s3) \<leftarrow> copyout_body s2;
       Some ((mr1 OR mr2) OR mr3, msg1, s3)
     }
     else Some (mr1 OR mr2, msg1, s2)
   }"

definition ipc_kmsg_copyout_dest ::
  "nat list \<Rightarrow> bool \<Rightarrow> (ipc_world \<Rightarrow> ipc_world option) \<Rightarrow> mach_msg_header \<Rightarrow> right_state \<Rightarrow> (mach_msg_header \<times> right_state) option" where
  "ipc_kmsg_copyout_dest dnits try clean_body msg s = do {
     let mbits = hdr_bits msg;
     let dest = hdr_remote_port msg;
     let reply = hdr_local_port msg;
     let dest_type = MACH_MSGH_BITS_REMOTE mbits;
     let reply_type = MACH_MSGH_BITS_LOCAL mbits;
     (dest_name, s1) \<leftarrow> (if ip_active (port_of s dest) then ipc_object_copyout_dest dest dest_type s
                           else Some (MACH_PORT_DEAD, on_world (ipc_object_release dest) s));
     (reply_name, w) \<leftarrow> (if IO_VALID reply then map_option (Pair MACH_PORT_NULL) (ipc_object_destroy dnits try reply reply_type (fst s1))
                           else Some (reply, fst s1));
     w1 \<leftarrow> (if mbits AND MACH_MSGH_BITS_COMPLEX \<noteq> 0 then clean_body w else Some w);
     Some (\<lparr>hdr_bits = MACH_MSGH_BITS_OTHER mbits OR MACH_MSGH_BITS reply_type dest_type,
            hdr_remote_port = reply_name, hdr_local_port = dest_name\<rparr>, w1, snd s1)
   }"

section \<open>Destruction\<close>

definition ipc_kmsg_clean ::
  "nat list \<Rightarrow> bool \<Rightarrow> (ipc_world \<Rightarrow> ipc_world option) \<Rightarrow> mach_msg_header \<Rightarrow> ipc_world \<Rightarrow> ipc_world option" where
  "ipc_kmsg_clean dnits try clean_body msg w = do {
     let mbits = hdr_bits msg;
     w1 \<leftarrow> (if IO_VALID (hdr_remote_port msg) then ipc_object_destroy dnits try (hdr_remote_port msg) (MACH_MSGH_BITS_REMOTE mbits) w else Some w);
     w2 \<leftarrow> (if IO_VALID (hdr_local_port msg) then ipc_object_destroy dnits try (hdr_local_port msg) (MACH_MSGH_BITS_LOCAL mbits) w1 else Some w1);
     if mbits AND MACH_MSGH_BITS_COMPLEX \<noteq> 0 then clean_body w2 else Some w2
   }"

end
