(* ===== verification/Ipc_Kmsg_Correct.thy ===== *)
theory Ipc_Kmsg_Correct
  imports Ipc_Kmsg Mach_Port_Correct Ipc_Mqueue_Correct
begin

text \<open>
  Correctness of the copyin and copyout of message headers: what a refused header leaves unchanged, and the
  way of a request with a reply port from the space of a client to that of a server.
\<close>

section \<open>Lookup\<close>

text \<open>A lookup may splay the tree; the entries, the rights and the invariant stay.\<close>

definition same_space :: "nat list \<Rightarrow> nat list \<Rightarrow> ipc_space \<Rightarrow> ipc_space \<Rightarrow> bool" where
  "same_space its xs space space' \<longleftrightarrow> space_ok its space' xs \<and> \<not> is_fast space' \<and> is_active space' = is_active space \<and>
     is_self space' = is_self space \<and> rights space' = rights space \<and> (\<forall>ref. get_entry space' ref = get_entry space ref)"

lemma same_space_refl: "space_ok its space xs \<Longrightarrow> \<not> is_fast space \<Longrightarrow> same_space its xs space space"
  by (simp add: same_space_def)

lemma same_space_trans: "same_space its xs a b \<Longrightarrow> same_space its xs b c \<Longrightarrow> same_space its xs a c"
  by (simp add: same_space_def)

lemma lookup_same:
  assumes "space_ok its space xs" "\<not> is_fast space"
  shows "\<exists>r space'. ipc_entry_lookup space name = Some (r, space') \<and> same_space its xs space space' \<and>
    (case r of None \<Rightarrow> rights space name = None
     | Some ref \<Rightarrow> \<exists>e. get_entry space ref = Some e \<and> rights space name = Some (right_of e))"
proof -
  from entry_lookup_correct [OF assms, of name] obtain r tree where
    r: "ipc_entry_lookup space name = Some (r, space\<lparr>is_tree := tree\<rparr>)" "ist_wf tree" "ist_inorder tree = ist_inorder (is_tree space)"
      "case r of None \<Rightarrow> space_map space name = None
       | Some ref \<Rightarrow> get_entry space ref = space_map space name \<and> space_map space name \<noteq> None" by auto
  have "get_entry (space\<lparr>is_tree := tree\<rparr>) ref = get_entry space ref" for ref using r(3) by (cases ref) auto
  moreover have "rights (space\<lparr>is_tree := tree\<rparr>) = rights space" using r(3) by (simp add: rights_def space_map_def Let_def fun_eq_iff)
  ultimately have "same_space its xs space (space\<lparr>is_tree := tree\<rparr>)"
    using space_ok_tree_update [OF assms(1) r(2,3)] assms(2) by (simp add: same_space_def)
  with r(1,4) show ?thesis
    by (intro exI [of _ r] exI [of _ "space\<lparr>is_tree := tree\<rparr>"]) (auto simp: rights_def split: option.splits)
qed

section \<open>Refused headers\<close>

lemma header_notify_same:
  assumes "header_notify err notify s = Some (n, s')" "space_ok its (snd s) xs" "\<not> is_fast (snd s)"
  shows "fst s' = fst s \<and> same_space its xs (snd s) (snd s') \<and> n \<in> {Inl err} \<union> range Inr"
proof (cases "notify = MACH_PORT_NULL")
  case True
  with assms show ?thesis by (auto simp: header_notify_def same_space_refl)
next
  case False
  with lookup_same [OF assms(2,3), of notify] assms(1) show ?thesis
    by (auto simp: header_notify_def same_space_def Let_def split: option.splits bind_splits if_splits)
qed

lemma header_dest_refused:
  assumes "copyin_header_dest its dest_name dest_type reply_name s = Some (Inl mr, s')"
  shows "mr = MACH_SEND_INVALID_DEST"
  using assms by (auto simp: copyin_header_dest_def Let_def split: option.splits bind_splits if_splits)

lemma copyin_refused:
  assumes "Option.bind m (\<lambda>(kr, a, b, s2). if kr \<noteq> KERN_SUCCESS then Some (Inl err, s2) else f kr a b s2) = Some (Inl mr, s')"
    and "\<And>kr a b s2. f kr a b s2 \<noteq> Some (Inl mr, s')"
  shows "mr = err"
  using assms by (cases m) (auto split: if_splits)

lemma two_rights_refused:
  assumes "copyin_two_rights its env name ref dest_type reply_type s = Some (Inl mr, s')"
  shows "mr = MACH_SEND_INVALID_DEST"
  using assms unfolding copyin_two_rights_def
  by (auto split: if_splits bind_split_asm prod.splits elim!: copyin_refused)

lemma header_same_refused:
  assumes run: "copyin_header_same its env name dest_type reply_type s = Some (Inl mr, s')" and mr: "mr \<noteq> MACH_SEND_INVALID_DEST"
    and ok: "space_ok its (snd s) xs" "\<not> is_fast (snd s)"
  shows "mr = MACH_SEND_INVALID_REPLY \<and> fst s' = fst s \<and> same_space its xs (snd s) (snd s')"
proof -
  from lookup_same [OF ok, of name] obtain r space1 where
    r: "ipc_entry_lookup (snd s) name = Some (r, space1)" "same_space its xs (snd s) space1" by auto
  from run mr r(1) obtain ref check where
    ref: "r = Some ref" "ipc_right_copyin_check ref reply_type (fst s, space1) = Some check"
    by (cases r; cases "ipc_right_copyin_check (the r) reply_type (fst s, space1)") (auto simp: copyin_header_same_def)
  show ?thesis
  proof (cases check)
    case False
    with run r ref show ?thesis by (auto simp: copyin_header_same_def)
  next
    case True
    with run r ref have "copyin_two_rights its env name ref dest_type reply_type (fst s, space1) = Some (Inl mr, s')"
      by (simp add: copyin_header_same_def)
    then have False using two_rights_refused mr by blast
    then show ?thesis ..
  qed
qed

lemma header_both_refused:
  assumes "copyin_header_both its env dest_name dest_type reply_name reply_type s = Some (Inl mr, s')" "mr \<noteq> MACH_SEND_INVALID_DEST"
    and "space_ok its (snd s) xs" "\<not> is_fast (snd s)"
  shows "mr = MACH_SEND_INVALID_REPLY \<and> fst s' = fst s \<and> same_space its xs (snd s) (snd s')"
proof -
  from lookup_same [OF assms(3,4), of dest_name] obtain r space1 where
    r: "ipc_entry_lookup (snd s) dest_name = Some (r, space1)" "same_space its xs (snd s) space1" by auto
  then have "space_ok its space1 xs" "\<not> is_fast space1" by (simp_all add: same_space_def)
  from lookup_same [OF this, of reply_name] obtain r1 space2 where
    r1: "ipc_entry_lookup space1 reply_name = Some (r1, space2)" "same_space its xs space1 space2" by auto
  have "same_space its xs (snd s) space2" by (rule same_space_trans [OF r(2) r1(2)])
  with r(1) r1(1) assms(1,2) show ?thesis
    by (auto simp: copyin_header_both_def Let_def split: option.splits bind_splits if_splits)
qed

text \<open>
  C24: A refused message leaves everything as it was. When the header is invalid, or the notify port or the reply
  port cannot be used, the copyin returns this error with the header as it was, the world untouched,
  and the same rights in a well-formed space; and also when the destination is refused the header keeps
  its names.
\<close>

theorem refused_header_untouched:
  assumes ok: "space_ok its (snd s) xs" "\<not> is_fast (snd s)"
    and run: "ipc_kmsg_copyin_header its env msg notify s = Some (mr, msg', s')" and mr: "mr \<noteq> MACH_MSG_SUCCESS"
  shows "msg' = msg \<and> (mr = MACH_SEND_INVALID_DEST \<or>
    mr \<in> {MACH_SEND_INVALID_HEADER, MACH_SEND_INVALID_NOTIFY, MACH_SEND_INVALID_REPLY} \<and> fst s' = fst s \<and>
    space_ok its (snd s') xs \<and> rights (snd s') = rights (snd s))"
proof -
  define mbits where "mbits = hdr_bits msg AND NOT MACH_MSGH_BITS_CIRCULAR"
  let ?dt = "MACH_MSGH_BITS_REMOTE mbits" and ?rt = "MACH_MSGH_BITS_LOCAL mbits" and ?d = "hdr_remote_port msg" and ?r = "hdr_local_port msg"
  have same: ?thesis if "msg' = msg" "mr \<in> {MACH_SEND_INVALID_HEADER, MACH_SEND_INVALID_NOTIFY, MACH_SEND_INVALID_REPLY}"
      "fst s' = fst s" "same_space its xs (snd s) (snd s')" using that by (simp add: same_space_def)
  consider "msg' = msg \<and> s' = s \<and> mr = MACH_SEND_INVALID_HEADER" | "msg' = msg \<and> mr = MACH_SEND_INVALID_DEST" |
    n s1 where "header_notify MACH_SEND_INVALID_NOTIFY notify s = Some (n, s1)" "case n of Inl e \<Rightarrow> mr = e \<and> msg' = msg \<and> s' = s1
      | Inr _ \<Rightarrow> msg' = msg \<and> (if ?d = ?r then copyin_header_same its env ?d ?dt ?rt s1 = Some (Inl mr, s')
         else if \<not> MACH_PORT_VALID ?r then copyin_header_dest its ?d ?dt ?r s1 = Some (Inl mr, s')
         else copyin_header_both its env ?d ?dt ?r ?rt s1 = Some (Inl mr, s'))"
    using run mr unfolding ipc_kmsg_copyin_header_def mbits_def [symmetric]
    by (auto simp: Let_def split: if_splits bind_splits sum.splits)
  then show ?thesis
  proof cases
    case 1
    then show ?thesis using same same_space_refl [OF ok] by simp
  next
    case 2
    then show ?thesis by simp
  next
    case (3 n s1)
    note n = header_notify_same [OF 3(1) ok]
    then have ok1: "space_ok its (snd s1) xs" "\<not> is_fast (snd s1)" by (simp_all add: same_space_def)
    show ?thesis
    proof (cases n)
      case (Inl e)
      then show ?thesis using same 3(2) n by auto
    next
      case (Inr p)
      then have "msg' = msg" and "mr = MACH_SEND_INVALID_DEST \<or> mr = MACH_SEND_INVALID_REPLY \<and> fst s' = fst s1 \<and> same_space its xs (snd s1) (snd s')"
        using 3(2) header_same_refused [OF _ _ ok1, of env ?d ?dt ?rt mr s'] header_both_refused [OF _ _ ok1, of env ?d ?dt ?r ?rt mr s']
          header_dest_refused [of its ?d ?dt ?r s1 mr s'] by (auto split: if_splits)
      then show ?thesis using same n same_space_trans by auto
    qed
  qed
qed

section \<open>A request and its reply port\<close>

lemma header_bits:
  "MACH_MSGH_BITS_REMOTE (bits AND NOT MACH_MSGH_BITS_CIRCULAR) = MACH_MSGH_BITS_REMOTE bits"
  "MACH_MSGH_BITS_LOCAL (bits AND NOT MACH_MSGH_BITS_CIRCULAR) = MACH_MSGH_BITS_LOCAL bits"
  "MACH_MSGH_BITS_REMOTE (MACH_MSGH_BITS_OTHER bits OR MACH_MSGH_BITS 17 18) = 17" "MACH_MSGH_BITS_LOCAL (MACH_MSGH_BITS_OTHER bits OR MACH_MSGH_BITS 17 18) = 18"
  "MACH_MSGH_BITS_REMOTE (MACH_MSGH_BITS_OTHER bits OR MACH_MSGH_BITS 18 17) = 18" "MACH_MSGH_BITS_LOCAL (MACH_MSGH_BITS_OTHER bits OR MACH_MSGH_BITS 18 17) = 17"
  by (simp_all add: MACH_MSGH_BITS_REMOTE_def MACH_MSGH_BITS_LOCAL_def MACH_MSGH_BITS_OTHER_def MACH_MSGH_BITS_CIRCULAR_def MACH_MSGH_BITS_def
      and.assoc bit.conj_disj_distrib2)

lemma entry_get_fresh:
  assumes "space_ok its space (x # xs)" "is_active space"
  shows "\<exists>name space'. ipc_entry_get space = (KERN_SUCCESS, Some (name, TableEntry x), space') \<and> MACH_PORT_VALID name \<and>
    rights space name = None \<and> x < is_table_size space' \<and> is_self space' = is_self space \<and>
    (\<forall>bits obj. bits AND NOT IE_BITS_RIGHT_MASK = 0 \<and> IE_BITS_TYPE bits \<noteq> 0 \<longrightarrow>
       (let e = is_table space' ! x;
            space'' = put_entry space' (TableEntry x) (e\<lparr>ie_bits := ie_bits e OR bits, ie_object := obj\<rparr>)
        in space_ok its space'' xs \<and> rights space'' = (rights space)(name \<mapsto> (bits, obj, 0))))"
proof -
  from entry_alloc_fresh [OF assms, of "\<lambda>_. True" id "[]"] obtain name space' where
    a: "ipc_entry_alloc its (\<lambda>_. True) id ([], space) = Some (KERN_SUCCESS, Some (name, TableEntry x), [], space')"
      "MACH_PORT_VALID name" "rights space name = None" "x < is_table_size space'" "is_self space' = is_self space"
    and f: "\<And>bits obj. bits AND NOT IE_BITS_RIGHT_MASK = 0 \<and> IE_BITS_TYPE bits \<noteq> 0 \<longrightarrow>
       (let e = is_table space' ! x;
            space'' = put_entry space' (TableEntry x) (e\<lparr>ie_bits := ie_bits e OR bits, ie_object := obj\<rparr>)
        in space_ok its space'' xs \<and> rights space'' = (rights space)(name \<mapsto> (bits, obj, 0)))" by blast
  have "free_list_ok (is_table space) {} (x # xs)" using assms(1) by (simp add: space_ok_def)
  from entry_get_free [OF this] a(1) assms(2) have "ipc_entry_get space = (KERN_SUCCESS, Some (name, TableEntry x), space')"
    by (subst (asm) ipc_entry_alloc.simps) auto
  with a f show ?thesis by blast
qed

text \<open>The ports after a request has been copied in: one more send right to the destination, one more send-once right to the reply port.\<close>

definition request_ports :: "ipc_port_t \<Rightarrow> ipc_port_t \<Rightarrow> (ipc_port_t \<Rightarrow> ipc_port) \<Rightarrow> ipc_port_t \<Rightarrow> ipc_port" where
  "request_ports dest reply ports = ports(
     dest := (ports dest)\<lparr>ip_references := ip_references (ports dest) + 1, ip_srights := ip_srights (ports dest) + 1\<rparr>,
     reply := (ports reply)\<lparr>ip_references := ip_references (ports reply) + 1, ip_sorights := ip_sorights (ports reply) + 1\<rparr>)"

text \<open>A name with a send right and a name with a receive right, as a client of a server has them.\<close>

definition client_names :: "right_state \<Rightarrow> mach_port_t \<Rightarrow> ipc_port_t \<Rightarrow> mach_port_t \<Rightarrow> ipc_port_t \<Rightarrow> bool" where
  "client_names s dest_name dest reply_name reply \<longleftrightarrow>
     (\<exists>db dr rb rr. rights (snd s) dest_name = Some (db, dest, dr) \<and> db AND MACH_PORT_TYPE_SEND \<noteq> 0 \<and> db AND MACH_PORT_TYPE_DEAD_NAME = 0 \<and>
        rights (snd s) reply_name = Some (rb, reply, rr) \<and> rb AND MACH_PORT_TYPE_RECEIVE \<noteq> 0) \<and>
     dest_name \<noteq> reply_name \<and> MACH_PORT_VALID reply_name \<and> dest \<noteq> reply \<and> IO_VALID reply \<and>
     ip_active (port_of s dest) \<and> ip_active (port_of s reply) \<and> ip_references (port_of s reply) + 1 \<noteq> 0"

lemma right_bits_type:
  "right_of e = (bits, obj, r) \<Longrightarrow> ie_bits e AND MACH_PORT_TYPE_SEND = bits AND MACH_PORT_TYPE_SEND"
  "right_of e = (bits, obj, r) \<Longrightarrow> ie_bits e AND MACH_PORT_TYPE_RECEIVE = bits AND MACH_PORT_TYPE_RECEIVE"
  "right_of e = (bits, obj, r) \<Longrightarrow> ie_bits e AND MACH_PORT_TYPE_DEAD_NAME = bits AND MACH_PORT_TYPE_DEAD_NAME"
  by (auto simp: right_of_def and.assoc ipc_defs)

lemma send_has_type:
  "bits AND MACH_PORT_TYPE_SEND \<noteq> 0 \<Longrightarrow> bits AND MACH_PORT_TYPE_SEND_RIGHTS \<noteq> 0" "bits AND MACH_PORT_TYPE_SEND \<noteq> 0 \<Longrightarrow> IE_BITS_TYPE bits \<noteq> 0"
  "bits AND MACH_PORT_TYPE_RECEIVE \<noteq> 0 \<Longrightarrow> IE_BITS_TYPE bits \<noteq> 0"
proof -
  have "bits AND MACH_PORT_TYPE_SEND = (bits AND MACH_PORT_TYPE_SEND_RIGHTS) AND MACH_PORT_TYPE_SEND"
    "bits AND MACH_PORT_TYPE_SEND = IE_BITS_TYPE bits AND MACH_PORT_TYPE_SEND"
    "bits AND MACH_PORT_TYPE_RECEIVE = IE_BITS_TYPE bits AND MACH_PORT_TYPE_RECEIVE"
    by (simp_all add: IE_BITS_TYPE_def and.assoc ipc_defs)
  then show "bits AND MACH_PORT_TYPE_SEND \<noteq> 0 \<Longrightarrow> bits AND MACH_PORT_TYPE_SEND_RIGHTS \<noteq> 0" "bits AND MACH_PORT_TYPE_SEND \<noteq> 0 \<Longrightarrow> IE_BITS_TYPE bits \<noteq> 0"
    "bits AND MACH_PORT_TYPE_RECEIVE \<noteq> 0 \<Longrightarrow> IE_BITS_TYPE bits \<noteq> 0" by auto
qed

lemma request_copyin:
  assumes ok: "space_ok its (snd s) xs" "\<not> is_fast (snd s)" "is_active (snd s)"
    and names: "client_names s (hdr_remote_port msg) dest (hdr_local_port msg) reply"
    and bits: "MACH_MSGH_BITS_REMOTE (hdr_bits msg) = MACH_MSG_TYPE_COPY_SEND" "MACH_MSGH_BITS_LOCAL (hdr_bits msg) = MACH_MSG_TYPE_MAKE_SEND_ONCE"
    and quiet: "\<And>k w. env k w = w"
  shows "\<exists>msg1 w1 space1. ipc_kmsg_copyin_header its env msg MACH_PORT_NULL s = Some (MACH_MSG_SUCCESS, msg1, w1, space1) \<and>
    hdr_remote_port msg1 = dest \<and> hdr_local_port msg1 = reply \<and> MACH_MSGH_BITS_REMOTE (hdr_bits msg1) = MACH_MSG_TYPE_PORT_SEND \<and>
    MACH_MSGH_BITS_LOCAL (hdr_bits msg1) = MACH_MSG_TYPE_PORT_SEND_ONCE \<and> w_ports w1 = request_ports dest reply (w_ports (fst s)) \<and>
    w_log w1 = w_log (fst s) \<and> same_space its xs (snd s) space1"
proof -
  let ?d = "hdr_remote_port msg" and ?r = "hdr_local_port msg"
  from names obtain db dr rb rr where
    n: "rights (snd s) ?d = Some (db, dest, dr)" "db AND MACH_PORT_TYPE_SEND \<noteq> 0" "db AND MACH_PORT_TYPE_DEAD_NAME = 0"
      "rights (snd s) ?r = Some (rb, reply, rr)" "rb AND MACH_PORT_TYPE_RECEIVE \<noteq> 0"
    and p: "?d \<noteq> ?r" "MACH_PORT_VALID ?r" "dest \<noteq> reply" "IO_VALID reply" "ip_active (port_of s dest)" "ip_active (port_of s reply)"
      "ip_references (port_of s reply) + 1 \<noteq> 0" by (auto simp: client_names_def)
  from lookup_same [OF ok(1,2), of ?d] n(1) obtain dref de space1 where
    d: "ipc_entry_lookup (snd s) ?d = Some (Some dref, space1)" "same_space its xs (snd s) space1"
       "get_entry (snd s) dref = Some de" "right_of de = (db, dest, dr)" by (auto split: option.splits)
  from d(2) have "space_ok its space1 xs" "\<not> is_fast space1" "rights space1 ?r = Some (rb, reply, rr)" using n(4) by (simp_all add: same_space_def)
  with lookup_same [OF this(1,2), of ?r] obtain rref re space2 where
    r: "ipc_entry_lookup space1 ?r = Some (Some rref, space2)" "same_space its xs space1 space2"
       "get_entry space1 rref = Some re" "right_of re = (rb, reply, rr)" by (auto split: option.splits)
  have same: "same_space its xs (snd s) space2" by (rule same_space_trans [OF d(2) r(2)])
  have get: "get_entry space2 dref = Some de" "get_entry space2 rref = Some re"
    using d(2,3) r(2,3) by (simp_all add: same_space_def)
  have de: "ie_bits de AND MACH_PORT_TYPE_SEND \<noteq> 0" "ie_bits de AND MACH_PORT_TYPE_DEAD_NAME = 0" "ie_object de = dest"
    using right_bits_type [OF d(4)] n(2,3) d(4) by (auto simp: right_of_def)
  have re: "ie_bits re AND MACH_PORT_TYPE_RECEIVE \<noteq> 0" "ie_object re = reply"
    using right_bits_type [OF r(4)] n(5) r(4) by (auto simp: right_of_def)
  let ?w1 = "ip_reference dest (upd_port dest (\<lambda>p. p\<lparr>ip_srights := ip_srights p + 1\<rparr>) (fst s))"
  let ?w2 = "ip_reference reply (upd_port reply (\<lambda>p. p\<lparr>ip_sorights := ip_sorights p + 1\<rparr>) (ip_reference reply ?w1))"
  let ?w3 = "ipc_port_release reply ?w2"
  have dest: "ipc_right_copyin ?d dref MACH_MSG_TYPE_COPY_SEND False (fst s, space2) = Some (KERN_SUCCESS, dest, IP_NULL, ?w1, space2)"
    using de get(1) send_has_type(1) [OF de(1)] p(5) check_active [of "(fst s, space2)" dest]
    by (simp add: ipc_right_copyin_def copyin_copy_send_def Let_def on_world_def)
  have repl: "ipc_right_copyin ?r rref MACH_MSG_TYPE_MAKE_SEND_ONCE True (ip_reference reply ?w1, space2) =
      Some (KERN_SUCCESS, reply, IP_NULL, ?w2, space2)"
    using re get(2) by (simp add: ipc_right_copyin_def copyin_make_send_once_def Let_def on_world_def)
  have check: "ipc_right_copyin_check rref MACH_MSG_TYPE_MAKE_SEND_ONCE (fst s, space2) = Some True"
    using re get(2) by (simp add: ipc_right_copyin_check_def Let_def)
  have dead: "\<not> copyin_must_undo reply reply dest ?w2" using p(4) by (simp add: copyin_must_undo_def IO_VALID_def)
  have keep: "dealloc_defunct its ?r rref (w, space2) = Some (w, space2)" "dealloc_defunct its ?d dref (w, space2) = Some (w, space2)" for w
    using get send_has_type(2) [OF de(1)] send_has_type(3) [OF re(1)] by (simp_all add: dealloc_defunct_def MACH_PORT_TYPE_NONE_def)
  have both: "copyin_header_both its env ?d MACH_MSG_TYPE_COPY_SEND ?r MACH_MSG_TYPE_MAKE_SEND_ONCE s =
      Some (Inr (dest, reply, IP_NULL, IP_NULL), ?w3, space2)"
    using d(1) r(1) check dest repl dead keep get(2) re(2) p(4) quiet
    by (simp add: copyin_header_both_def Let_def on_world_def IO_VALID_def)
  let ?msg1 = "\<lparr>hdr_bits = MACH_MSGH_BITS_OTHER (hdr_bits msg AND NOT MACH_MSGH_BITS_CIRCULAR) OR MACH_MSGH_BITS 17 18,
    hdr_remote_port = dest, hdr_local_port = reply\<rparr>"
  have "ipc_kmsg_copyin_header its env msg MACH_PORT_NULL s = Some (MACH_MSG_SUCCESS, ?msg1, ?w3, space2)"
    using both ok(3) p(1,2) bits
    by (simp add: ipc_kmsg_copyin_header_def Let_def header_bits header_notify_def notify_port_deleted_def
        MACH_MSG_TYPE_PORT_ANY_SEND_def ipc_object_copyin_type_def msg_type_defs)
  moreover have "w_ports ?w3 = request_ports dest reply (w_ports (fst s))" "w_log ?w3 = w_log (fst s)"
    using p(3,7) by (auto simp: ipc_object_release_def request_ports_def fun_eq_iff)
  ultimately show ?thesis using same by (intro exI [of _ ?msg1] exI [of _ ?w3] exI [of _ space2]) (simp add: header_bits msg_type_defs)
qed

lemma reply_copyout:
  assumes ok: "space_ok its (snd s) (x # xs)" "is_active (snd s)" and reply: "ip_active (port_of s reply)"
  shows "\<exists>name space1 space2. copyout_reply its mem env dnits dnmem dnenv reply MACH_MSG_TYPE_PORT_SEND_ONCE MACH_PORT_NULL s =
      Some (ReplyEntry name (TableEntry x) IP_NULL, fst s, space1) \<and>
    (\<forall>w. ipc_right_copyout name (TableEntry x) MACH_MSG_TYPE_PORT_SEND_ONCE True reply (w, space1) = Some (KERN_SUCCESS, w, space2)) \<and>
    MACH_PORT_VALID name \<and> rights (snd s) name = None \<and> is_self space2 = is_self (snd s) \<and> space_ok its space2 xs \<and>
    rights space2 = (rights (snd s))(name \<mapsto> (MACH_PORT_TYPE_SEND_ONCE OR 1, reply, 0))"
proof -
  from entry_get_fresh [OF ok] obtain name space' where
    g: "ipc_entry_get (snd s) = (KERN_SUCCESS, Some (name, TableEntry x), space')" "MACH_PORT_VALID name" "rights (snd s) name = None"
      "x < is_table_size space'" "is_self space' = is_self (snd s)"
    and f: "\<And>bits obj. bits AND NOT IE_BITS_RIGHT_MASK = 0 \<and> IE_BITS_TYPE bits \<noteq> 0 \<longrightarrow>
       (let e = is_table space' ! x;
            space'' = put_entry space' (TableEntry x) (e\<lparr>ie_bits := ie_bits e OR bits, ie_object := obj\<rparr>)
        in space_ok its space'' xs \<and> rights space'' = (rights (snd s))(name \<mapsto> (bits, obj, 0)))" by blast
  let ?e = "is_table space' ! x"
  let ?s1 = "put_entry space' (TableEntry x) (?e\<lparr>ie_object := reply\<rparr>)"
  have swap: "e\<lparr>ie_object := ob, ie_bits := b\<rparr> = e\<lparr>ie_bits := b, ie_object := ob\<rparr>" for e :: ipc_entry and ob b by (cases e) simp
  let ?s2 = "put_entry space' (TableEntry x) (?e\<lparr>ie_bits := ie_bits ?e OR (MACH_PORT_TYPE_SEND_ONCE OR 1), ie_object := reply\<rparr>)"
  have "copyout_reply its mem env dnits dnmem dnenv reply MACH_MSG_TYPE_PORT_SEND_ONCE MACH_PORT_NULL s =
      Some (ReplyEntry name (TableEntry x) IP_NULL, fst s, ?s1)"
    using ok(2) reply g(1,4) by (subst copyout_reply.simps) (simp add: upd_entry_def)
  moreover have "ipc_right_copyout name (TableEntry x) MACH_MSG_TYPE_PORT_SEND_ONCE True reply (w, ?s1) = Some (KERN_SUCCESS, w, ?s2)" for w
    using g(4) by (simp add: ipc_right_copyout_def upd_entry_def Let_def swap)
  moreover have "(MACH_PORT_TYPE_SEND_ONCE OR 1) AND NOT IE_BITS_RIGHT_MASK = 0" "IE_BITS_TYPE (MACH_PORT_TYPE_SEND_ONCE OR 1) \<noteq> 0"
    by (simp_all add: ipc_defs IE_BITS_TYPE_def)
  ultimately show ?thesis using g f [of "MACH_PORT_TYPE_SEND_ONCE OR 1" reply]
    by (intro exI [of _ name] exI [of _ ?s1] exI [of _ ?s2]) (simp add: Let_def)
qed

text \<open>
  C12: The way of a request through the kernel. A client sends a request with the disposition copy-send to a
  port for which it has a send right, with a send-once right to be made for one of its own ports as the
  reply port; the server has the receive right. The copyin in the space of the client leaves its rights
  alone, and the copyout in the space of the server gives it exactly one new right, the send-once right for
  the reply port under a fresh name, and its own name for the destination. In the end the reply port has
  one more send-once right and one more reference, which belong to the new name; the destination and
  every other port are as before, and no notification has been sent.
\<close>

theorem request_reaches_server:
  assumes client: "space_ok its (snd s) xs" "\<not> is_fast (snd s)" "is_active (snd s)"
    and names: "client_names s (hdr_remote_port msg) dest (hdr_local_port msg) reply"
    and bits: "MACH_MSGH_BITS_REMOTE (hdr_bits msg) = MACH_MSG_TYPE_COPY_SEND" "MACH_MSGH_BITS_LOCAL (hdr_bits msg) = MACH_MSG_TYPE_MAKE_SEND_ONCE"
    and server: "space_ok its' server (x # ys)" "is_active server" "ip_receiver (port_of s dest) = is_self server"
    and dest: "ip_srights (port_of s dest) \<noteq> 0"
  shows "\<exists>msg1 w1 space1 name msg2 w2 space2.
    ipc_kmsg_copyin_header its (\<lambda>_ w. w) msg MACH_PORT_NULL s = Some (MACH_MSG_SUCCESS, msg1, w1, space1) \<and>
    rights space1 = rights (snd s) \<and>
    ipc_kmsg_copyout_header its' mem genv dnits dnmem dnenv msg1 MACH_PORT_NULL (w1, server) = Some (MACH_MSG_SUCCESS, msg2, w2, space2) \<and>
    hdr_remote_port msg2 = name \<and> hdr_local_port msg2 = ip_receiver_name (port_of s dest) \<and>
    MACH_MSGH_BITS_REMOTE (hdr_bits msg2) = MACH_MSG_TYPE_PORT_SEND_ONCE \<and>
    rights server name = None \<and> rights space2 = (rights server)(name \<mapsto> (MACH_PORT_TYPE_SEND_ONCE OR 1, reply, 0)) \<and> space_ok its' space2 ys \<and>
    w_ports w2 = (w_ports (fst s))(reply := (port_of s reply)\<lparr>ip_references := ip_references (port_of s reply) + 1,
      ip_sorights := ip_sorights (port_of s reply) + 1\<rparr>) \<and> w_log w2 = w_log (fst s)"
proof -
  from request_copyin [OF client names bits, of "\<lambda>_ w. w"] obtain msg1 w1 space1 where
    c: "ipc_kmsg_copyin_header its (\<lambda>_ w. w) msg MACH_PORT_NULL s = Some (MACH_MSG_SUCCESS, msg1, w1, space1)"
      "hdr_remote_port msg1 = dest" "hdr_local_port msg1 = reply" "MACH_MSGH_BITS_REMOTE (hdr_bits msg1) = MACH_MSG_TYPE_PORT_SEND"
      "MACH_MSGH_BITS_LOCAL (hdr_bits msg1) = MACH_MSG_TYPE_PORT_SEND_ONCE" "w_ports w1 = request_ports dest reply (w_ports (fst s))"
      "w_log w1 = w_log (fst s)" "same_space its xs (snd s) space1" by blast
  have p: "dest \<noteq> reply" "IO_VALID reply" "ip_active (port_of s dest)" "ip_active (port_of s reply)" "ip_references (port_of s reply) + 1 \<noteq> 0"
    using names by (auto simp: client_names_def)
  have "ip_active (port_of (w1, server) reply)" using c(6) p by (simp add: request_ports_def)
  from reply_copyout [of its' "(w1, server)" x ys reply mem genv dnits dnmem dnenv] server(1,2) this obtain name sp1 sp2 where
    r: "copyout_reply its' mem genv dnits dnmem dnenv reply MACH_MSG_TYPE_PORT_SEND_ONCE MACH_PORT_NULL (w1, server) =
        Some (ReplyEntry name (TableEntry x) IP_NULL, w1, sp1)"
      "\<And>w. ipc_right_copyout name (TableEntry x) MACH_MSG_TYPE_PORT_SEND_ONCE True reply (w, sp1) = Some (KERN_SUCCESS, w, sp2)"
      "rights server name = None" "is_self sp2 = is_self server" "space_ok its' sp2 ys"
      "rights sp2 = (rights server)(name \<mapsto> (MACH_PORT_TYPE_SEND_ONCE OR 1, reply, 0))" by auto
  let ?w2 = "ip_reference reply w1"
  let ?w3 = "upd_port dest (\<lambda>p. p\<lparr>ip_srights := ip_srights p - 1\<rparr>) (ip_release dest ?w2)"
  have "ipc_object_copyout_dest dest MACH_MSG_TYPE_PORT_SEND (?w2, sp2) = Some (ip_receiver_name (port_of s dest), ?w3, sp2)"
    using c(6) p(1) r(4) server(3) dest
    by (simp add: ipc_object_copyout_dest_def drop_srights_def notify_no_senders_def request_ports_def on_world_def Let_def)
  then have d: "copyout_header_dest dest MACH_MSG_TYPE_PORT_SEND reply (?w2, sp2) =
      Some (ip_receiver_name (port_of s dest), ipc_port_release reply ?w3, sp2)"
    using c(6) p by (simp add: copyout_header_dest_def request_ports_def on_world_def)
  let ?msg2 = "\<lparr>hdr_bits = MACH_MSGH_BITS_OTHER (hdr_bits msg1) OR MACH_MSGH_BITS 18 17, hdr_remote_port = name,
    hdr_local_port = ip_receiver_name (port_of s dest)\<rparr>"
  have "ipc_kmsg_copyout_header its' mem genv dnits dnmem dnenv msg1 MACH_PORT_NULL (w1, server) =
      Some (MACH_MSG_SUCCESS, ?msg2, ipc_port_release reply ?w3, sp2)"
    using c(2-5) r(1,2) d p(2) by (simp add: ipc_kmsg_copyout_header_def Let_def on_world_def msg_type_defs)
  moreover have "w_ports (ipc_port_release reply ?w3) = (w_ports (fst s))(reply := (port_of s reply)\<lparr>ip_references := ip_references (port_of s reply) + 1,
      ip_sorights := ip_sorights (port_of s reply) + 1\<rparr>)" "w_log (ipc_port_release reply ?w3) = w_log (fst s)"
    using c(6,7) p(1,5) by (auto simp: ipc_object_release_def request_ports_def fun_eq_iff add.commute)
  moreover have "rights space1 = rights (snd s)" using c(8) by (simp add: same_space_def)
  ultimately show ?thesis
    using c(1) r(3,5,6)
    by (intro exI [of _ msg1] exI [of _ w1] exI [of _ space1] exI [of _ name] exI [of _ ?msg2] exI [of _ "ipc_port_release reply ?w3"] exI [of _ sp2])
      (simp add: header_bits msg_type_defs)
qed

section \<open>Examples\<close>

text \<open>A client with a receive right 0x103 for the port 0x40 and a send right 0x203 for the port 0x80 of a server.\<close>

definition example_client :: right_state where
  "example_client = (upd_port 0x80 (\<lambda>p. p\<lparr>ip_srights := 1, ip_data := 0x3000, ip_receiver_name := 0x507\<rparr>) example_world,
     example_space\<lparr>is_table :=
       [zero_entry\<lparr>ie_bits := 0xff000000, ie_request := 3\<rparr>,
        zero_entry\<lparr>ie_bits := 0x03020000, ie_object := 0x40\<rparr>,
        zero_entry\<lparr>ie_bits := 0x03010001, ie_object := 0x80\<rparr>, zero_entry\<lparr>ie_bits := 0xff000000\<rparr>]\<rparr>)"

definition example_request :: mach_msg_header where
  "example_request = \<lparr>hdr_bits = 0x1513, hdr_remote_port = 0x203, hdr_local_port = 0x103\<rparr>"

lemma example_client_ok: "space_ok example_sizes (snd example_client) [3]" "\<not> is_fast (snd example_client)" "is_active (snd example_client)"
proof -
  show "space_ok example_sizes (snd example_client) [3]"
  proof (rule space_ok_empty_tree)
    show "sizes_ok example_sizes (snd example_client)"
      using example_sizes_ok by (simp add: sizes_ok_def example_client_def example_space_def example_sizes_def)
    show "list_all (\<lambda>e. \<not> collides e) (is_table (snd example_client))" "type_of (is_table (snd example_client) ! 0) = 0"
      "free_list_ok (is_table (snd example_client)) {} [3]" by code_simp+
  qed (simp_all add: example_client_def example_space_def ist_raw_def)
qed (simp_all add: example_client_def example_space_def)

lemma example_client_names: "client_names example_client 0x203 0x80 0x103 0x40"
proof -
  have "rights (snd example_client) 0x203 = Some (0x10001, 0x80, 0)" "rights (snd example_client) 0x103 = Some (0x20000, 0x40, 0)" by code_simp+
  then show ?thesis
    by (simp add: client_names_def MACH_PORT_VALID_def IO_VALID_def IO_DEAD_def IO_NULL_def ipc_defs)
      (simp add: example_client_def example_world_def example_port_def io_active_def io_makebits_def ipc_defs)
qed

theorem refused_header_untouched_witness:
  "ipc_kmsg_copyin_header example_sizes (\<lambda>_ w. w) (example_request\<lparr>hdr_bits := 0x1510\<rparr>) MACH_PORT_NULL example_client =
     Some (MACH_SEND_INVALID_HEADER, example_request\<lparr>hdr_bits := 0x1510\<rparr>, example_client) \<and>
   rights (snd example_client) = rights (snd example_client)"
proof -
  have run: "ipc_kmsg_copyin_header example_sizes (\<lambda>_ w. w) (example_request\<lparr>hdr_bits := 0x1510\<rparr>) MACH_PORT_NULL example_client =
      Some (MACH_SEND_INVALID_HEADER, example_request\<lparr>hdr_bits := 0x1510\<rparr>, example_client)"
    by (simp add: ipc_kmsg_copyin_header_def MACH_MSGH_BITS_REMOTE_def MACH_MSGH_BITS_CIRCULAR_def MACH_MSG_TYPE_PORT_ANY_SEND_def msg_type_defs)
  with refused_header_untouched [OF example_client_ok(1,2) run] show ?thesis by simp
qed

theorem request_reaches_server_witness:
  "\<exists>msg1 w1 space1 msg2 w2 space2.
     ipc_kmsg_copyin_header example_sizes (\<lambda>_ w. w) example_request MACH_PORT_NULL example_client = Some (MACH_MSG_SUCCESS, msg1, w1, space1) \<and>
     ipc_kmsg_copyout_header example_sizes (\<lambda>_. True) id [] (\<lambda>_. None) id msg1 MACH_PORT_NULL (w1, example_space\<lparr>is_self := 0x3000\<rparr>) =
       Some (MACH_MSG_SUCCESS, msg2, w2, space2) \<and>
     hdr_local_port msg2 = 0x507 \<and> ip_sorights (w_ports w2 0x40) = 1 \<and> ip_srights (w_ports w2 0x80) = 1"
proof -
  let ?server = "example_space\<lparr>is_self := 0x3000\<rparr>"
  have h1: "client_names example_client (hdr_remote_port example_request) 0x80 (hdr_local_port example_request) 0x40"
    using example_client_names by (simp add: example_request_def)
  have h2: "MACH_MSGH_BITS_REMOTE (hdr_bits example_request) = MACH_MSG_TYPE_COPY_SEND"
    "MACH_MSGH_BITS_LOCAL (hdr_bits example_request) = MACH_MSG_TYPE_MAKE_SEND_ONCE"
    by (simp_all add: example_request_def MACH_MSGH_BITS_REMOTE_def MACH_MSGH_BITS_LOCAL_def msg_type_defs)
  have h3: "space_ok example_sizes ?server [1, 2, 3]"
    using example_space_ok by (simp add: space_ok_def sizes_ok_def tree_ok_def tree_names_def)
  have h4: "is_active ?server" "ip_receiver (port_of example_client 0x80) = is_self ?server" "ip_srights (port_of example_client 0x80) \<noteq> 0"
    by (simp_all add: example_space_def example_client_def)
  have ports: "ip_receiver_name (port_of example_client 0x80) = 0x507" "ip_sorights (port_of example_client 0x40) = 0"
    "ip_srights (port_of example_client 0x80) = 1"
    by (simp_all add: example_client_def example_world_def example_port_def zero_port_def)
  from request_reaches_server [OF example_client_ok h1 h2 h3 h4, of "\<lambda>_. True" id "[]" "\<lambda>_. None" id]
  obtain msg1 w1 space1 name msg2 w2 space2 where
    "ipc_kmsg_copyin_header example_sizes (\<lambda>_ w. w) example_request MACH_PORT_NULL example_client = Some (MACH_MSG_SUCCESS, msg1, w1, space1)"
    "ipc_kmsg_copyout_header example_sizes (\<lambda>_. True) id [] (\<lambda>_. None) id msg1 MACH_PORT_NULL (w1, ?server) =
       Some (MACH_MSG_SUCCESS, msg2, w2, space2)"
    "hdr_local_port msg2 = ip_receiver_name (port_of example_client 0x80)"
    "w_ports w2 = (w_ports (fst example_client))(0x40 := (port_of example_client 0x40)\<lparr>ip_references := ip_references (port_of example_client 0x40) + 1,
      ip_sorights := ip_sorights (port_of example_client 0x40) + 1\<rparr>)" by (elim exE conjE) blast
  then show ?thesis
    by (intro exI [of _ msg1] exI [of _ w1] exI [of _ space1] exI [of _ msg2] exI [of _ w2] exI [of _ space2]) (simp add: ports)
qed

end
