(* ===== verification/Simulation.thy ===== *)
theory Simulation
  imports Main
begin

text \<open>
  Simulations between a component and its specification: every operation that is allowed in the
  abstract state ends in the concrete one, with the same result and related states. Then so does every
  sequence of operations. The components of the kernel with such a contract are interpretations of the
  locale \<open>simulation\<close>.
\<close>

fun run_ops :: "('op \<Rightarrow> 's \<Rightarrow> ('r \<times> 's) option) \<Rightarrow> 'op list \<Rightarrow> 's \<Rightarrow> ('r list \<times> 's) option" where
  "run_ops step [] s = Some ([], s)"
| "run_ops step (p # ops) s =
     (case step p s of
        None \<Rightarrow> None
      | Some (r, s') \<Rightarrow> (case run_ops step ops s' of None \<Rightarrow> None | Some (rs, s'') \<Rightarrow> Some (r # rs, s'')))"

fun run_spec :: "('op \<Rightarrow> 'a \<Rightarrow> 'r \<times> 'a) \<Rightarrow> 'op list \<Rightarrow> 'a \<Rightarrow> 'r list \<times> 'a" where
  "run_spec spec [] a = ([], a)"
| "run_spec spec (p # ops) a = (let (r, a') = spec p a; (rs, a'') = run_spec spec ops a' in (r # rs, a''))"

text \<open>Every operation of a sequence is allowed in the abstract state it meets.\<close>

fun allowed_ops :: "('op \<Rightarrow> 'a \<Rightarrow> bool) \<Rightarrow> ('op \<Rightarrow> 'a \<Rightarrow> 'r \<times> 'a) \<Rightarrow> 'op list \<Rightarrow> 'a \<Rightarrow> bool" where
  "allowed_ops allowed spec [] a \<longleftrightarrow> True"
| "allowed_ops allowed spec (p # ops) a \<longleftrightarrow> allowed p a \<and> allowed_ops allowed spec ops (snd (spec p a))"

locale simulation =
  fixes related :: "'s \<Rightarrow> 'a \<Rightarrow> bool"
    and allowed :: "'op \<Rightarrow> 'a \<Rightarrow> bool"
    and step :: "'op \<Rightarrow> 's \<Rightarrow> ('r \<times> 's) option"
    and spec :: "'op \<Rightarrow> 'a \<Rightarrow> 'r \<times> 'a"
  assumes step_simulates:
    "related s a \<Longrightarrow> allowed p a \<Longrightarrow> \<exists>s'. step p s = Some (fst (spec p a), s') \<and> related s' (snd (spec p a))"
begin

lemma run_simulates:
  "related s a \<Longrightarrow> allowed_ops allowed spec ops a \<Longrightarrow>
   \<exists>s'. run_ops step ops s = Some (fst (run_spec spec ops a), s') \<and> related s' (snd (run_spec spec ops a))"
proof (induction ops arbitrary: s a)
  case (Cons p ops)
  then obtain s1 where "step p s = Some (fst (spec p a), s1)" "related s1 (snd (spec p a))"
    using step_simulates by fastforce
  with Cons.IH [of s1 "snd (spec p a)"] Cons.prems show ?case
    by (auto simp: split_beta)
qed simp

end

end
