(* ===== verification/Cirbuf.thy ===== *)
theory Cirbuf
  imports Ipc_Prelude Simulation
begin

text \<open>
  The circular character buffers of the terminal drivers (\<open>device/cirbuf.c\<close>, \<open>device/cirbuf.h\<close>). The
  buffer lies in the memory of the kernel, a function from addresses to bytes; the code only compares
  and subtracts pointers into one buffer, so an address is an integer. The counters \<open>c_cc\<close> and \<open>c_hog\<close> are
  16-bit words. A byte count below zero makes \<open>bcopy\<close> run over all memory, which is \<open>None\<close> here.

  The routines implement a bounded queue of bytes, the locale \<open>bounded_fifo\<close>: a buffer of \<open>n\<close> bytes
  holds up to \<open>n - 1\<close> of them.
\<close>

section \<open>The code\<close>

type_synonym memory = "int \<Rightarrow> 8 word"

record cirbuf =
  c_start :: int \<comment> \<open>start of buffer\<close>
  c_end :: int \<comment> \<open>end of buffer + 1\<close>
  c_cf :: int \<comment> \<open>read pointer\<close>
  c_cl :: int \<comment> \<open>write pointer\<close>
  c_cc :: "16 word" \<comment> \<open>current number of characters\<close>
  c_hog :: "16 word" \<comment> \<open>max ever\<close>

text \<open>The debugging check, which panics when it is false.\<close>

definition cb_check :: "cirbuf \<Rightarrow> bool" where
  "cb_check cb \<longleftrightarrow>
     c_start cb \<le> c_cf cb \<and> c_cf cb < c_end cb \<and> c_start cb \<le> c_cl cb \<and> c_cl cb < c_end cb \<and>
     (if c_cf cb \<le> c_cl cb then sint (c_cc cb) = c_cl cb - c_cf cb
      else sint (c_cc cb) = c_end cb - c_cf cb + c_cl cb - c_start cb)"

definition putc :: "8 word \<Rightarrow> cirbuf \<times> memory \<Rightarrow> int \<times> cirbuf \<times> memory" where
  "putc c = (\<lambda>(cb, m).
     let ow = c_cl cb;
         nw = (if ow + 1 = c_end cb then c_start cb else ow + 1)
     in if nw = c_cf cb then (1, cb, m)
        else (0, cb\<lparr>c_cl := nw, c_cc := c_cc cb + 1\<rparr>, m(ow := c)))"

definition cb_space :: "cirbuf \<Rightarrow> int" where
  "cb_space cb =
     (let space = c_cf cb - c_cl cb - 1 in
      if space < 0 then space + (c_end cb - c_start cb) else space)"

definition getc :: "cirbuf \<times> memory \<Rightarrow> int \<times> cirbuf \<times> memory" where
  "getc = (\<lambda>(cb, m).
     if c_cf cb = c_cl cb then (- 1, cb, m)
     else
       let nr = c_cf cb + 1
       in (uint (m (c_cf cb)),
           cb\<lparr>c_cf := (if nr = c_end cb then c_start cb else nr), c_cc := c_cc cb - 1\<rparr>, m))"

text \<open>\<open>bcopy\<close> of the standard library.\<close>

definition bcopy :: "int \<Rightarrow> int \<Rightarrow> int \<Rightarrow> memory \<Rightarrow> memory option" where
  "bcopy from to n m =
     (if n < 0 then None else Some (\<lambda>a. if to \<le> a \<and> a < to + n then m (from + (a - to)) else m a))"

text \<open>The number of characters to take from the read pointer in one step, the same in \<open>q_to_b\<close> and \<open>ndflush\<close>.\<close>

definition read_chunk :: "cirbuf \<Rightarrow> int \<Rightarrow> int" where
  "read_chunk cb count =
     (let i = (if c_cl cb < c_cf cb then c_end cb - c_cf cb else c_cl cb - c_cf cb)
      in if count < i then count else i)"

definition read_advance :: "int \<Rightarrow> cirbuf \<Rightarrow> cirbuf" where
  "read_advance i cb =
     (let cf = c_cf cb + i
      in cb\<lparr>c_cf := (if cf = c_end cb then c_start cb else cf), c_cc := c_cc cb - of_int i\<rparr>)"

partial_function (option) q_to_b_loop :: "int \<Rightarrow> int \<Rightarrow> cirbuf \<times> memory \<Rightarrow> (int \<times> cirbuf \<times> memory) option" where
  "q_to_b_loop cp count s =
     (if count \<noteq> 0 then
        if c_cl (fst s) = c_cf (fst s) then Some (cp, s)
        else
          let i = read_chunk (fst s) count
          in do {
            m \<leftarrow> bcopy (c_cf (fst s)) cp i (snd s);
            q_to_b_loop (cp + i) (count - i) (read_advance i (fst s), m)
          }
      else Some (cp, s))"

declare q_to_b_loop.simps [code]

definition q_to_b :: "cirbuf \<times> memory \<Rightarrow> int \<Rightarrow> int \<Rightarrow> (int \<times> cirbuf \<times> memory) option" where
  "q_to_b s ocp count = do {
     (cp, s) \<leftarrow> q_to_b_loop ocp count s;
     Some (cp - ocp, s)
   }"

definition write_limit :: "cirbuf \<Rightarrow> int" where
  "write_limit cb = (if c_cf cb - 1 < c_start cb then c_end cb - 1 else c_cf cb - 1)"

definition write_chunk :: "cirbuf \<Rightarrow> int \<Rightarrow> int" where
  "write_chunk cb count =
     (let i = (if c_cl cb < write_limit cb then write_limit cb - c_cl cb else c_end cb - c_cl cb)
      in if count < i then count else i)"

definition write_advance :: "int \<Rightarrow> cirbuf \<Rightarrow> cirbuf" where
  "write_advance i cb =
     (let cl = c_cl cb + i
      in cb\<lparr>c_cl := (if cl = c_end cb then c_start cb else cl), c_cc := c_cc cb + of_int i\<rparr>)"

partial_function (option) b_to_q :: "int \<Rightarrow> int \<Rightarrow> cirbuf \<times> memory \<Rightarrow> (int \<times> cirbuf \<times> memory) option" where
  "b_to_q cp count s =
     (if count \<noteq> 0 then
        if c_cl (fst s) = write_limit (fst s) then Some (count, s)
        else
          let i = write_chunk (fst s) count
          in do {
            m \<leftarrow> bcopy cp (c_cl (fst s)) i (snd s);
            b_to_q (cp + i) (count - i) (write_advance i (fst s), m)
          }
      else Some (count, s))"

declare b_to_q.simps [code]

text \<open>The loop of \<open>ndqb\<close>. Whether \<open>char\<close> is signed is up to the compiler: \<open>ext\<close> is the conversion to \<open>int\<close>.\<close>

function ndqb_loop :: "(8 word \<Rightarrow> 32 word) \<Rightarrow> memory \<Rightarrow> 32 word \<Rightarrow> int \<Rightarrow> int \<Rightarrow> int" where
  "ndqb_loop ext m msk cp lim =
     (if cp < lim then if ext (m cp) AND msk \<noteq> 0 then cp else ndqb_loop ext m msk (cp + 1) lim else cp)"
  by auto
termination by (relation "measure (\<lambda>(_, _, _, cp, lim). nat (lim - cp))") auto

declare ndqb_loop.simps [simp del]

definition ndqb :: "(8 word \<Rightarrow> 32 word) \<Rightarrow> cirbuf \<times> memory \<Rightarrow> 32 word \<Rightarrow> int" where
  "ndqb ext = (\<lambda>(cb, m) msk.
     let lim = (if c_cl cb < c_cf cb then c_end cb else c_cl cb)
     in if msk = 0 then lim - c_cf cb else ndqb_loop ext m msk (c_cf cb) lim - c_cf cb)"

partial_function (option) ndflush :: "cirbuf \<Rightarrow> int \<Rightarrow> cirbuf option" where
  "ndflush cb count =
     (if count \<noteq> 0 then
        if c_cl cb = c_cf cb then Some cb
        else let i = read_chunk cb count in ndflush (read_advance i cb) (count - i)
      else Some cb)"

declare ndflush.simps [code]

text \<open>\<open>buf\<close> is the memory that \<open>kalloc\<close> found.\<close>

definition cb_alloc :: "int \<Rightarrow> int \<Rightarrow> cirbuf" where
  "cb_alloc buf buf_size =
     \<lparr>c_start = buf, c_end = buf + buf_size, c_cf = buf, c_cl = buf, c_cc = 0, c_hog = of_int (buf_size - 1)\<rparr>"

text \<open>What \<open>kfree\<close> gets.\<close>

definition cb_free :: "cirbuf \<Rightarrow> int \<times> int" where
  "cb_free cb = (let size = c_end cb - c_start cb in (c_start cb, size))"


section \<open>The buffer as a queue\<close>

definition bytes :: "memory \<Rightarrow> int \<Rightarrow> nat \<Rightarrow> 8 word list" where
  "bytes m a n = map (\<lambda>k. m (a + int k)) [0..<n]"

definition store :: "int \<Rightarrow> 8 word list \<Rightarrow> memory \<Rightarrow> memory" where
  "store a xs m = (\<lambda>b. if a \<le> b \<and> b < a + int (length xs) then xs ! nat (b - a) else m b)"

definition used :: "cirbuf \<Rightarrow> int" where
  "used cb = (if c_cf cb \<le> c_cl cb then c_cl cb - c_cf cb else c_end cb - c_cf cb + c_cl cb - c_start cb)"

definition slot :: "cirbuf \<Rightarrow> int \<Rightarrow> int" where
  "slot cb k = (if c_cf cb + k < c_end cb then c_cf cb + k else c_cf cb + k - (c_end cb - c_start cb))"

definition contents :: "cirbuf \<times> memory \<Rightarrow> 8 word list" where
  "contents s = map (\<lambda>k. snd s (slot (fst s) (int k))) [0..<nat (used (fst s))]"

definition cb_ok :: "cirbuf \<Rightarrow> bool" where
  "cb_ok cb \<longleftrightarrow> c_start cb \<le> c_cf cb \<and> c_cf cb < c_end cb \<and> c_start cb \<le> c_cl cb \<and> c_cl cb < c_end cb \<and>
     c_cc cb = of_int (used cb)"

definition capacity :: "cirbuf \<Rightarrow> nat" where
  "capacity cb = nat (c_end cb - c_start cb - 1)"

lemma used_bounds: "cb_ok cb \<Longrightarrow> 0 \<le> used cb \<and> used cb < c_end cb - c_start cb"
  by (auto simp: cb_ok_def used_def)

lemma length_contents [simp]: "length (contents s) = nat (used (fst s))"
  by (simp add: contents_def)

lemma length_bytes [simp]: "length (bytes m a n) = n"
  by (simp add: bytes_def)

lemma cb_space_exact: "cb_ok cb \<Longrightarrow> cb_space cb = int (capacity cb) - used cb"
  by (auto simp: cb_ok_def cb_space_def capacity_def used_def Let_def)

lemma used_sint: "0 \<le> n \<Longrightarrow> n < 32768 \<Longrightarrow> sint (word_of_int n :: 16 word) = n"
  by (simp add: sint_uint uint_word_of_int take_bit_int_eq_self signed_take_bit_int_eq_self)

lemma cb_check_iff: "c_end cb - c_start cb \<le> 32768 \<Longrightarrow> cb_ok cb \<longleftrightarrow> cb_check cb"
proof
  assume size: "c_end cb - c_start cb \<le> 32768" and "cb_check cb"
  then have range: "c_start cb \<le> c_cf cb" "c_cf cb < c_end cb" "c_start cb \<le> c_cl cb" "c_cl cb < c_end cb" "sint (c_cc cb) = used cb"
    by (auto simp: cb_check_def used_def)
  moreover have "of_int (sint (c_cc cb)) = c_cc cb" by simp
  ultimately show "cb_ok cb" by (simp add: cb_ok_def)
next
  assume "c_end cb - c_start cb \<le> 32768" "cb_ok cb"
  then show "cb_check cb" using used_bounds [of cb] used_sint [of "used cb"] by (auto simp: cb_check_def cb_ok_def used_def)
qed

lemma bcopy_store: "0 \<le> n \<Longrightarrow> bcopy from to n m = Some (store to (bytes m from (nat n)) m)"
  by (auto simp: bcopy_def store_def bytes_def fun_eq_iff)

lemma store_append: "store (a + int (length xs)) ys (store a xs m) = store a (xs @ ys) m"
proof -
  have "nat (b - (a + int (length xs))) = nat (b - a) - length xs" for b by linarith
  then show ?thesis by (auto simp: store_def fun_eq_iff nth_append nat_less_iff)
qed

lemma store_Nil [simp]: "store a [] m = m"
  by (auto simp: store_def fun_eq_iff)

subsection \<open>Reading\<close>

lemma read_advance_ok:
  assumes "cb_ok cb" "0 \<le> i" "i \<le> used cb" "c_cf cb + i \<le> c_end cb"
  shows "cb_ok (read_advance i cb)" "used (read_advance i cb) = used cb - i"
    "\<And>k. 0 \<le> k \<Longrightarrow> k < used cb - i \<Longrightarrow> slot (read_advance i cb) k = slot cb (i + k)"
proof -
  show used': "used (read_advance i cb) = used cb - i" using assms by (auto simp: read_advance_def cb_ok_def used_def Let_def)
  have "c_cc (read_advance i cb) = of_int (used cb - i)" using assms by (simp add: read_advance_def cb_ok_def Let_def)
  with used' show "cb_ok (read_advance i cb)" using assms by (auto simp: cb_ok_def read_advance_def Let_def)
  show "slot (read_advance i cb) k = slot cb (i + k)" if "0 \<le> k" "k < used cb - i" for k
    using assms that used_bounds [OF assms(1)] by (auto simp: read_advance_def cb_ok_def slot_def Let_def)
qed

lemma read_advance_contents:
  assumes "cb_ok cb" "0 \<le> i" "i \<le> used cb" "c_cf cb + i \<le> c_end cb"
  shows "contents (read_advance i cb, m) = drop (nat i) (contents (cb, m))"
  using assms read_advance_ok [OF assms] by (intro nth_equalityI) (auto simp: contents_def nat_diff_distrib)

lemma read_advance_bounds [simp]:
  "c_start (read_advance i cb) = c_start cb" "c_end (read_advance i cb) = c_end cb" "c_hog (read_advance i cb) = c_hog cb"
  by (simp_all add: read_advance_def Let_def)

lemma contents_prefix:
  assumes "cb_ok cb" "0 \<le> i" "i \<le> used cb" "c_cf cb + i \<le> c_end cb"
  shows "bytes m (c_cf cb) (nat i) = take (nat i) (contents (cb, m))"
  using assms by (intro nth_equalityI) (auto simp: contents_def bytes_def slot_def)

lemma read_chunk_ok:
  assumes "cb_ok cb" "c_cl cb \<noteq> c_cf cb" "0 < count"
  shows "0 < read_chunk cb count" "read_chunk cb count \<le> count" "read_chunk cb count \<le> used cb" "c_cf cb + read_chunk cb count \<le> c_end cb"
  using assms by (auto simp: cb_ok_def read_chunk_def used_def Let_def)

lemma contents_cong:
  assumes "cb_ok cb" "\<And>a. c_start cb \<le> a \<Longrightarrow> a < c_end cb \<Longrightarrow> m' a = m a"
  shows "contents (cb, m') = contents (cb, m)"
  using assms by (auto simp: contents_def slot_def cb_ok_def used_def)


lemma contents_outside:
  assumes "cb_ok cb" "a + int (length xs) \<le> c_start cb \<or> c_end cb \<le> a"
  shows "contents (cb, store a xs m) = contents (cb, m)"
  using assms by (intro contents_cong) (auto simp: store_def)

lemma q_to_b_loop_exact:
  assumes "cb_ok cb" "0 \<le> count" "cp + count \<le> c_start cb \<or> c_end cb \<le> cp"
  shows "\<exists>cb'. q_to_b_loop cp count (cb, m) =
      Some (cp + min count (used cb), cb', store cp (take (nat count) (contents (cb, m))) m) \<and>
    cb_ok cb' \<and> c_start cb' = c_start cb \<and> c_end cb' = c_end cb \<and> contents (cb', m) = drop (nat count) (contents (cb, m))"
  using assms
proof (induction "nat count" arbitrary: cp count cb m rule: less_induct)
  case less
  note b = used_bounds [OF less.prems(1)]
  show ?case
  proof (cases "count = 0 \<or> c_cl cb = c_cf cb")
    case True
    then have "count = 0 \<or> used cb = 0" by (auto simp: used_def)
    moreover from True have "q_to_b_loop cp count (cb, m) = Some (cp, cb, m)" by (subst q_to_b_loop.simps) auto
    ultimately show ?thesis using less.prems b by (auto simp: contents_def)
  next
    case False
    define i where "i = read_chunk cb count"
    have i: "0 < i" "i \<le> count" "i \<le> used cb" "c_cf cb + i \<le> c_end cb"
      using read_chunk_ok [of cb count] less.prems False by (auto simp: i_def)
    let ?xs = "take (nat i) (contents (cb, m))"
    let ?m = "store cp ?xs m"
    let ?cb = "read_advance i cb"
    have xs: "int (length ?xs) = i" using i b by simp
    have ok: "cb_ok ?cb" "used ?cb = used cb - i" using read_advance_ok [of cb i] less.prems(1) i by auto
    have "contents (?cb, ?m) = contents (?cb, m)" using ok(1) less.prems(3) xs i by (intro contents_outside) auto
    also have dr: "contents (?cb, m) = drop (nat i) (contents (cb, m))" using read_advance_contents [of cb i] less.prems(1) i by simp
    finally have c: "contents (?cb, ?m) = drop (nat i) (contents (cb, m))" .
    have "q_to_b_loop cp count (cb, m) = q_to_b_loop (cp + i) (count - i) (?cb, ?m)"
      using False i contents_prefix [of cb i m] less.prems(1)
      by (subst q_to_b_loop.simps) (simp add: i_def [symmetric] bcopy_store)
    moreover from less.hyps [of "count - i" ?cb "cp + i" ?m] i ok less.prems obtain cb' where
      r: "q_to_b_loop (cp + i) (count - i) (?cb, ?m) =
          Some (cp + i + min (count - i) (used ?cb), cb', store (cp + i) (take (nat (count - i)) (contents (?cb, ?m))) ?m)"
        "cb_ok cb'" "c_start cb' = c_start cb" "c_end cb' = c_end cb" "contents (cb', ?m) = drop (nat (count - i)) (contents (?cb, ?m))"
      by auto
    moreover have "store (cp + i) (take (nat (count - i)) (contents (?cb, ?m))) ?m = store cp (take (nat count) (contents (cb, m))) m"
    proof -
      have "nat count = nat i + nat (count - i)" using i by simp
      then have "take (nat count) (contents (cb, m)) = ?xs @ take (nat (count - i)) (contents (?cb, ?m))" unfolding c by (simp add: take_add)
      with store_append [of cp ?xs _ m] show ?thesis unfolding xs by simp
    qed
    moreover have "contents (cb', ?m) = contents (cb', m)" using r(2-4) less.prems(3) xs i by (intro contents_outside) auto
    moreover have "drop (nat (count - i)) (contents (?cb, ?m)) = drop (nat count) (contents (cb, m))"
      using i unfolding c by (simp add: nat_diff_distrib)
    moreover have "i + min (count - i) (used ?cb) = min count (used cb)" using ok(2) by simp
    ultimately show ?thesis by (simp add: add.assoc)
  qed
qed

lemma ndflush_exact:
  assumes "cb_ok cb" "0 \<le> count"
  shows "\<exists>cb'. ndflush cb count = Some cb' \<and> cb_ok cb' \<and> c_start cb' = c_start cb \<and> c_end cb' = c_end cb \<and>
    (\<forall>m. contents (cb', m) = drop (nat count) (contents (cb, m)))"
  using assms
proof (induction "nat count" arbitrary: count cb rule: less_induct)
  case less
  note b = used_bounds [OF less.prems(1)]
  show ?case
  proof (cases "count = 0 \<or> c_cl cb = c_cf cb")
    case True
    then have "count = 0 \<or> used cb = 0" by (auto simp: used_def)
    moreover from True have "ndflush cb count = Some cb" by (subst ndflush.simps) auto
    ultimately show ?thesis using less.prems b by (auto simp: contents_def)
  next
    case False
    define i where "i = read_chunk cb count"
    have i: "0 < i" "i \<le> count" "i \<le> used cb" "c_cf cb + i \<le> c_end cb"
      using read_chunk_ok [of cb count] less.prems False by (auto simp: i_def)
    let ?cb = "read_advance i cb"
    have ok: "cb_ok ?cb" using read_advance_ok [of cb i] less.prems(1) i by auto
    have "contents (?cb, m) = drop (nat i) (contents (cb, m))" for m using read_advance_contents [of cb i] less.prems(1) i by simp
    moreover have "ndflush cb count = ndflush ?cb (count - i)" using False by (subst ndflush.simps) (simp add: i_def [symmetric])
    ultimately show ?thesis using less.hyps [of "count - i" ?cb] ok i by (auto simp: nat_diff_distrib)
  qed
qed

lemma getc_exact:
  assumes "cb_ok cb"
  shows "\<exists>cb'. getc (cb, m) = (case contents (cb, m) of [] \<Rightarrow> (- 1, cb, m) | c # _ \<Rightarrow> (uint c, cb', m)) \<and>
    (contents (cb, m) \<noteq> [] \<longrightarrow> cb_ok cb' \<and> c_start cb' = c_start cb \<and> c_end cb' = c_end cb \<and> contents (cb', m) = tl (contents (cb, m)))"
proof (cases "c_cf cb = c_cl cb")
  case True
  then show ?thesis by (simp add: getc_def contents_def used_def)
next
  case False
  with assms have i: "1 \<le> used cb" "c_cf cb + 1 \<le> c_end cb" by (auto simp: cb_ok_def used_def)
  then obtain x xs where x: "contents (cb, m) = x # xs" by (metis length_contents fst_conv list.exhaust list.size(3) nat_0_iff not_one_le_zero order.trans zero_less_one_class.zero_le_one)
  then have "x = m (c_cf cb)" using assms i by (auto simp: contents_def slot_def upt_conv_Cons cb_ok_def)
  moreover have "getc (cb, m) = (uint (m (c_cf cb)), read_advance 1 cb, m)" using False by (simp add: getc_def read_advance_def Let_def)
  ultimately show ?thesis using read_advance_ok [of cb 1] read_advance_contents [of cb 1 m] assms i x
    by (intro exI [of _ "read_advance 1 cb"]) (simp add: drop_Suc)
qed

subsection \<open>Writing\<close>

lemma write_advance_ok:
  assumes "cb_ok cb" "0 \<le> i" "used cb + i < c_end cb - c_start cb" "c_cl cb + i \<le> c_end cb"
  shows "cb_ok (write_advance i cb)" "used (write_advance i cb) = used cb + i" "slot (write_advance i cb) k = slot cb k"
proof -
  show used': "used (write_advance i cb) = used cb + i" using assms by (auto simp: write_advance_def cb_ok_def used_def Let_def)
  have "c_cc (write_advance i cb) = of_int (used cb + i)" using assms by (simp add: write_advance_def cb_ok_def Let_def)
  with used' show "cb_ok (write_advance i cb)" using assms by (auto simp: cb_ok_def write_advance_def Let_def)
  show "slot (write_advance i cb) k = slot cb k" by (simp add: write_advance_def slot_def Let_def)
qed

lemma write_advance_bounds [simp]:
  "c_start (write_advance i cb) = c_start cb" "c_end (write_advance i cb) = c_end cb" "c_hog (write_advance i cb) = c_hog cb"
  by (simp_all add: write_advance_def Let_def)

lemma write_slots:
  assumes "cb_ok cb"
  shows "0 \<le> j \<Longrightarrow> c_cl cb + j < c_end cb \<Longrightarrow> used cb + j < c_end cb - c_start cb \<Longrightarrow> slot cb (used cb + j) = c_cl cb + j"
    and "0 \<le> k \<Longrightarrow> k < used cb \<Longrightarrow> used cb + i < c_end cb - c_start cb \<Longrightarrow> \<not> (c_cl cb \<le> slot cb k \<and> slot cb k < c_cl cb + i)"
  using assms by (auto simp: cb_ok_def slot_def used_def split: if_splits)

lemma write_advance_contents:
  assumes "cb_ok cb" "used cb + int (length xs) < c_end cb - c_start cb" "c_cl cb + int (length xs) \<le> c_end cb"
  shows "contents (write_advance (int (length xs)) cb, store (c_cl cb) xs m) = contents (cb, m) @ xs"
proof (rule nth_equalityI)
  note ok = write_advance_ok [OF assms(1) _ assms(2,3)] used_bounds [OF assms(1)]
  then show "length (contents (write_advance (int (length xs)) cb, store (c_cl cb) xs m)) = length (contents (cb, m) @ xs)"
    by (simp add: nat_add_distrib)
  fix k assume "k < length (contents (write_advance (int (length xs)) cb, store (c_cl cb) xs m))"
  then have k: "int k < used cb + int (length xs)" using ok by simp
  show "contents (write_advance (int (length xs)) cb, store (c_cl cb) xs m) ! k = (contents (cb, m) @ xs) ! k"
  proof (cases "int k < used cb")
    case True
    then show ?thesis using k ok write_slots(2) [OF assms(1), of "int k" "int (length xs)"] assms(2)
      by (auto simp: contents_def nth_append store_def)
  next
    case False
    define j where "j = k - nat (used cb)"
    with False k ok(4) have j: "int k = used cb + int j" "j < length xs" "k = nat (used cb) + j" by auto
    then show ?thesis using ok write_slots(1) [OF assms(1), of "int j"] assms
      by (simp add: contents_def nth_append store_def)
  qed
qed


lemma write_limit_full: "cb_ok cb \<Longrightarrow> c_cl cb = write_limit cb \<longleftrightarrow> used cb = int (capacity cb)"
  by (auto simp: cb_ok_def write_limit_def used_def capacity_def)

lemma write_chunk_ok:
  assumes "cb_ok cb" "c_cl cb \<noteq> write_limit cb" "0 < count"
  shows "0 < write_chunk cb count" "write_chunk cb count \<le> count"
    "used cb + write_chunk cb count < c_end cb - c_start cb" "c_cl cb + write_chunk cb count \<le> c_end cb"
  using assms by (auto simp: cb_ok_def write_chunk_def write_limit_def used_def Let_def)

text \<open>Memory outside of the buffer.\<close>

definition same_outside :: "cirbuf \<Rightarrow> memory \<Rightarrow> memory \<Rightarrow> bool" where
  "same_outside cb m m' \<longleftrightarrow> (\<forall>a. a < c_start cb \<or> c_end cb \<le> a \<longrightarrow> m' a = m a)"

lemma same_outside_trans:
  "same_outside cb m m' \<Longrightarrow> same_outside cb' m' m'' \<Longrightarrow> c_start cb' = c_start cb \<Longrightarrow> c_end cb' = c_end cb \<Longrightarrow> same_outside cb m m''"
  by (simp add: same_outside_def)

lemma same_outside_bytes:
  "same_outside cb m m' \<Longrightarrow> a + int n \<le> c_start cb \<or> c_end cb \<le> a \<Longrightarrow> bytes m' a n = bytes m a n"
  by (auto simp: same_outside_def bytes_def)

lemma bytes_split: "i \<le> n \<Longrightarrow> bytes m a n = bytes m a i @ bytes m (a + int i) (n - i)"
  by (intro nth_equalityI) (auto simp: bytes_def nth_append algebra_simps)

lemma b_to_q_exact:
  assumes "cb_ok cb" "0 \<le> count" "cp + count \<le> c_start cb \<or> c_end cb \<le> cp"
  shows "\<exists>cb' m'. b_to_q cp count (cb, m) = Some (max 0 (count - (int (capacity cb) - used cb)), cb', m') \<and>
    cb_ok cb' \<and> c_start cb' = c_start cb \<and> c_end cb' = c_end cb \<and> same_outside cb m m' \<and>
    contents (cb', m') = contents (cb, m) @ take (capacity cb - nat (used cb)) (bytes m cp (nat count))"
  using assms
proof (induction "nat count" arbitrary: cp count cb m rule: less_induct)
  case less
  note b = used_bounds [OF less.prems(1)]
  then have cap: "int (capacity cb) = c_end cb - c_start cb - 1" by (simp add: capacity_def)
  show ?case
  proof (cases "count = 0 \<or> c_cl cb = write_limit cb")
    case True
    then have "count = 0 \<or> used cb = int (capacity cb)" using write_limit_full less.prems(1) by auto
    moreover from True have "b_to_q cp count (cb, m) = Some (count, cb, m)" by (subst b_to_q.simps) auto
    ultimately show ?thesis using less.prems b cap by (auto simp: same_outside_def bytes_def)
  next
    case False
    define i where "i = write_chunk cb count"
    have i: "0 < i" "i \<le> count" "used cb + i < c_end cb - c_start cb" "c_cl cb + i \<le> c_end cb"
      using write_chunk_ok [of cb count] less.prems False by (auto simp: i_def)
    let ?xs = "bytes m cp (nat i)"
    let ?m = "store (c_cl cb) ?xs m"
    let ?cb = "write_advance i cb"
    have ok: "cb_ok ?cb" "used ?cb = used cb + i" "capacity ?cb = capacity cb"
      using write_advance_ok [of cb i] less.prems(1) i by (auto simp: capacity_def)
    have c: "contents (?cb, ?m) = contents (cb, m) @ ?xs" using write_advance_contents [of cb ?xs m] less.prems(1) i by simp
    have out: "same_outside cb m ?m" using i less.prems(1) by (auto simp: same_outside_def store_def cb_ok_def)
    have rest: "bytes ?m (cp + i) (nat (count - i)) = bytes m (cp + i) (nat (count - i))"
      using less.prems(3) i by (intro same_outside_bytes [OF out]) auto
    have "b_to_q cp count (cb, m) = b_to_q (cp + i) (count - i) (?cb, ?m)"
      using False i by (subst b_to_q.simps) (simp add: i_def [symmetric] bcopy_store)
    moreover from less.hyps [of "count - i" ?cb "cp + i" ?m] i ok less.prems obtain cb' m' where
      r: "b_to_q (cp + i) (count - i) (?cb, ?m) = Some (max 0 (count - i - (int (capacity cb) - used ?cb)), cb', m')"
        "cb_ok cb'" "c_start cb' = c_start cb" "c_end cb' = c_end cb" "same_outside ?cb ?m m'"
        "contents (cb', m') = contents (?cb, ?m) @ take (capacity cb - nat (used ?cb)) (bytes ?m (cp + i) (nat (count - i)))"
      by auto
    moreover have "same_outside cb m m'" using same_outside_trans [OF out r(5)] by simp
    moreover have "take (capacity cb - nat (used cb)) (bytes m cp (nat count)) =
        ?xs @ take (capacity cb - nat (used ?cb)) (bytes m (cp + i) (nat (count - i)))"
    proof -
      have "capacity cb - nat (used cb) = nat i + (capacity cb - nat (used ?cb))" using i b cap ok(2) by linarith
      moreover have "bytes m cp (nat count) = ?xs @ bytes m (cp + i) (nat (count - i))"
        using bytes_split [of "nat i" "nat count" m cp] i by (simp add: nat_diff_distrib)
      ultimately show ?thesis by simp
    qed
    ultimately show ?thesis unfolding c rest using ok(2) by (simp add: algebra_simps)
  qed
qed

lemma putc_exact:
  assumes "cb_ok cb"
  shows "\<exists>cb' m'. putc c (cb, m) = (if length (contents (cb, m)) < capacity cb then (0, cb', m') else (1, cb, m)) \<and>
    (length (contents (cb, m)) < capacity cb \<longrightarrow> cb_ok cb' \<and> c_start cb' = c_start cb \<and> c_end cb' = c_end cb \<and>
      same_outside cb m m' \<and> contents (cb', m') = contents (cb, m) @ [c])"
proof -
  note b = used_bounds [OF assms]
  have full: "(if c_cl cb + 1 = c_end cb then c_start cb else c_cl cb + 1) = c_cf cb \<longleftrightarrow> \<not> nat (used cb) < capacity cb"
    using assms by (auto simp: cb_ok_def used_def capacity_def)
  have "putc c (cb, m) = (if nat (used cb) < capacity cb then (0, write_advance 1 cb, store (c_cl cb) [c] m) else (1, cb, m))"
    using full by (auto simp: putc_def write_advance_def store_def Let_def fun_eq_iff)
  moreover have "same_outside cb m (store (c_cl cb) [c] m)" using assms by (auto simp: same_outside_def store_def cb_ok_def)
  moreover have "nat (used cb) < capacity cb \<Longrightarrow> used cb + 1 < c_end cb - c_start cb" by (auto simp: capacity_def)
  moreover have "c_cl cb + 1 \<le> c_end cb" using assms by (auto simp: cb_ok_def)
  ultimately show ?thesis using write_advance_ok [OF assms, of 1] write_advance_contents [OF assms, of "[c]" m]
    by (intro exI [of _ "write_advance 1 cb"] exI [of _ "store (c_cl cb) [c] m"]) auto
qed


subsection \<open>Scanning\<close>

lemma ndqb_loop_exact:
  "cp \<le> lim \<Longrightarrow> ndqb_loop ext m msk cp lim = cp + int (length (takeWhile (\<lambda>c. ext c AND msk = 0) (bytes m cp (nat (lim - cp)))))"
proof (induction ext m msk cp lim rule: ndqb_loop.induct)
  case (1 ext m msk cp lim)
  show ?case
  proof (cases "cp < lim")
    case True
    then have "nat (lim - cp) = Suc (nat (lim - (cp + 1)))" by linarith
    then have "bytes m cp (nat (lim - cp)) = m cp # bytes m (cp + 1) (nat (lim - (cp + 1)))"
      using bytes_split [of 1 "nat (lim - cp)" m cp] by (simp add: bytes_def)
    with 1 True show ?thesis by (subst ndqb_loop.simps) simp
  next
    case False
    with 1 show ?thesis by (subst ndqb_loop.simps) (simp add: bytes_def)
  qed
qed

text \<open>The characters up to the end of the memory or of the queue.\<close>

definition contiguous :: "cirbuf \<times> memory \<Rightarrow> 8 word list" where
  "contiguous s = take (nat (c_end (fst s) - c_cf (fst s))) (contents s)"

lemma ndqb_exact:
  assumes "cb_ok cb"
  shows "ndqb ext (cb, m) msk = int (length (takeWhile (\<lambda>c. ext c AND msk = 0) (contiguous (cb, m))))"
proof -
  define lim where "lim = (if c_cl cb < c_cf cb then c_end cb else c_cl cb)"
  have l: "c_cf cb \<le> lim" "lim - c_cf cb \<le> used cb" "lim \<le> c_end cb" "min (c_end cb - c_cf cb) (used cb) = lim - c_cf cb"
    using assms by (auto simp: lim_def cb_ok_def used_def)
  then have "nat (lim - c_cf cb) = min (nat (c_end cb - c_cf cb)) (nat (used cb))" by (auto simp: min_def split: if_splits)
  then have "contiguous (cb, m) = take (nat (lim - c_cf cb)) (contents (cb, m))" by (simp add: contiguous_def min_def)
  also have "\<dots> = bytes m (c_cf cb) (nat (lim - c_cf cb))" using contents_prefix [OF assms, of "lim - c_cf cb" m] l by simp
  finally have c: "contiguous (cb, m) = bytes m (c_cf cb) (nat (lim - c_cf cb))" .
  have all: "takeWhile (\<lambda>c. True) xs = xs" for xs :: "8 word list" by (induction xs) auto
  show ?thesis using ndqb_loop_exact [OF l(1)] l by (simp add: ndqb_def c lim_def [symmetric] Let_def all)
qed

section \<open>Refinement\<close>

datatype cb_op = PutC "8 word" | GetC | QToB int int | BToQ int int | NdFlush int | CbSpace

fun cb_step :: "cb_op \<Rightarrow> cirbuf \<times> memory \<Rightarrow> (int \<times> cirbuf \<times> memory) option" where
  "cb_step (PutC c) s = Some (putc c s)"
| "cb_step GetC s = Some (getc s)"
| "cb_step (QToB cp count) s = q_to_b s cp count"
| "cb_step (BToQ cp count) s = b_to_q cp count s"
| "cb_step (NdFlush count) s = map_option (\<lambda>cb. (0, cb, snd s)) (ndflush (fst s) count)"
| "cb_step CbSpace s = Some (cb_space (fst s), s)"

text \<open>The specification: a list of at most \<open>cap\<close> bytes beside the memory outside of the buffer.\<close>

fun queue_spec :: "nat \<Rightarrow> cb_op \<Rightarrow> 8 word list \<times> memory \<Rightarrow> int \<times> 8 word list \<times> memory" where
  "queue_spec cap (PutC c) (xs, m) = (if length xs < cap then (0, xs @ [c], m) else (1, xs, m))"
| "queue_spec cap GetC (xs, m) = (case xs of [] \<Rightarrow> (- 1, xs, m) | x # ys \<Rightarrow> (uint x, ys, m))"
| "queue_spec cap (QToB cp count) (xs, m) =
     (int (min (nat count) (length xs)), drop (nat count) xs, store cp (take (nat count) xs) m)"
| "queue_spec cap (BToQ cp count) (xs, m) =
     (let n = min (nat count) (cap - length xs) in (count - int n, xs @ bytes m cp n, m))"
| "queue_spec cap (NdFlush count) (xs, m) = (0, drop (nat count) xs, m)"
| "queue_spec cap CbSpace (xs, m) = (int cap - int (length xs), xs, m)"

fun outside_op :: "int \<Rightarrow> int \<Rightarrow> cb_op \<Rightarrow> 'a \<Rightarrow> bool" where
  "outside_op lo hi (QToB cp count) _ \<longleftrightarrow> 0 \<le> count \<and> (cp + count \<le> lo \<or> hi \<le> cp)"
| "outside_op lo hi (BToQ cp count) _ \<longleftrightarrow> 0 \<le> count \<and> (cp + count \<le> lo \<or> hi \<le> cp)"
| "outside_op lo hi (NdFlush count) _ \<longleftrightarrow> 0 \<le> count"
| "outside_op lo hi _ _ \<longleftrightarrow> True"

definition holds_queue :: "int \<Rightarrow> int \<Rightarrow> cirbuf \<times> memory \<Rightarrow> 8 word list \<times> memory \<Rightarrow> bool" where
  "holds_queue lo hi s a \<longleftrightarrow> cb_ok (fst s) \<and> c_start (fst s) = lo \<and> c_end (fst s) = hi \<and> contents s = fst a \<and>
     same_outside (fst s) (snd a) (snd s)"

lemma same_outside_store: "same_outside cb m m' \<Longrightarrow> same_outside cb (store a xs m) (store a xs m')"
  by (simp add: same_outside_def store_def)

lemma take_bytes: "take k (bytes m a n) = bytes m a (min n k)"
  by (intro nth_equalityI) (auto simp: bytes_def)

interpretation tty: simulation "holds_queue lo hi" "outside_op lo hi" cb_step "queue_spec (nat (hi - lo - 1))" for lo hi
proof
  fix s a and p :: cb_op
  assume rel: "holds_queue lo hi s a" and op: "outside_op lo hi p a"
  obtain cb m where s: "s = (cb, m)" by (cases s)
  obtain xs m0 where a: "a = (xs, m0)" by (cases a)
  from rel have r: "cb_ok cb" "c_start cb = lo" "c_end cb = hi" "contents (cb, m) = xs" "same_outside cb m0 m" and cap: "capacity cb = nat (hi - lo - 1)"
    by (auto simp: holds_queue_def s a capacity_def)
  have used: "used cb = int (length xs)" using r(4) used_bounds [OF r(1)] by (metis fst_conv int_nat_eq length_contents)
  show "\<exists>s'. cb_step p s = Some (fst (queue_spec (nat (hi - lo - 1)) p a), s') \<and> holds_queue lo hi s' (snd (queue_spec (nat (hi - lo - 1)) p a))"
  proof (cases p)
    case (PutC c)
    with putc_exact [OF r(1), of c m] r show ?thesis by (auto simp: holds_queue_def s a cap [symmetric] same_outside_def)
  next
    case GetC
    from getc_exact [OF r(1), of m] r obtain cb' where
      g: "getc (cb, m) = (case xs of [] \<Rightarrow> (- 1, cb, m) | c # _ \<Rightarrow> (uint c, cb', m))"
        "xs \<noteq> [] \<longrightarrow> cb_ok cb' \<and> c_start cb' = lo \<and> c_end cb' = hi \<and> contents (cb', m) = tl xs" by auto
    show ?thesis
    proof (cases xs)
      case Nil
      with GetC g(1) rel show ?thesis by (simp add: s a)
    next
      case (Cons x ys)
      with GetC g r(2,3,5) show ?thesis by (simp add: s a holds_queue_def same_outside_def)
    qed
  next
    case (QToB cp count)
    with q_to_b_loop_exact [OF r(1), of count cp m] op r obtain cb' where
      q: "q_to_b_loop cp count (cb, m) = Some (cp + min count (used cb), cb', store cp (take (nat count) xs) m)"
        "cb_ok cb'" "c_start cb' = lo" "c_end cb' = hi" "contents (cb', m) = drop (nat count) xs" by auto
    have "contents (cb', store cp (take (nat count) xs) m) = contents (cb', m)"
      using op QToB q(2-4) by (intro contents_outside) auto
    moreover have "same_outside cb' (store cp (take (nat count) xs) m0) (store cp (take (nat count) xs) m)"
      using r q by (intro same_outside_store) (simp add: same_outside_def)
    moreover have "min count (used cb) = int (min (nat count) (length xs))" using op QToB used by (auto simp: min_def)
    ultimately show ?thesis using q QToB by (simp add: q_to_b_def holds_queue_def s a)
  next
    case (BToQ cp count)
    with b_to_q_exact [OF r(1), of count cp m] op r obtain cb' m' where
      q: "b_to_q cp count (cb, m) = Some (max 0 (count - (int (capacity cb) - used cb)), cb', m')"
        "cb_ok cb'" "c_start cb' = lo" "c_end cb' = hi" "same_outside cb m m'"
        "contents (cb', m') = xs @ take (capacity cb - nat (used cb)) (bytes m cp (nat count))" by auto
    have "bytes m cp (min (nat count) (capacity cb - length xs)) = bytes m0 cp (min (nat count) (capacity cb - length xs))"
      using op BToQ r by (intro same_outside_bytes [OF r(5)]) auto
    moreover have "max 0 (count - (int (capacity cb) - used cb)) = count - int (min (nat count) (capacity cb - length xs))"
      using op BToQ used used_bounds [OF r(1)] by (auto simp: capacity_def)
    moreover have "same_outside cb' m0 m'" using r q(3-5) by (auto simp: same_outside_def)
    ultimately show ?thesis using q BToQ used by (simp add: holds_queue_def s a cap [symmetric] take_bytes Let_def)
  next
    case (NdFlush count)
    with ndflush_exact [OF r(1), of count] op r show ?thesis by (auto simp: holds_queue_def s a same_outside_def)
  next
    case CbSpace
    with cb_space_exact [OF r(1)] rel used show ?thesis by (simp add: s a cap)
  qed
qed


text \<open>
  C14: The circular buffer is a bounded queue. On a well-formed buffer every sequence of \<open>putc\<close>,
  \<open>getc\<close>, \<open>q_to_b\<close>, \<open>b_to_q\<close>, \<open>ndflush\<close> and \<open>cb_space\<close> calls, with counts that are not negative and user
  arrays outside of the buffer, ends and returns what the same calls return on a list of at most one
  byte less than the size of the buffer; the buffer then holds this list, the memory outside of it
  has exactly the bytes copied out, and the check of the debugging code holds when the 16-bit counter
  can hold the size.
\<close>

theorem cirbuf_refines_queue:
  assumes "cb_ok cb"
    and "allowed_ops (outside_op (c_start cb) (c_end cb)) (queue_spec (capacity cb)) ops (contents (cb, m), m)"
  shows "\<exists>cb' m'. run_ops cb_step ops (cb, m) = Some (fst (run_spec (queue_spec (capacity cb)) ops (contents (cb, m), m)), cb', m') \<and>
    cb_ok cb' \<and> c_start cb' = c_start cb \<and> c_end cb' = c_end cb \<and>
    contents (cb', m') = fst (snd (run_spec (queue_spec (capacity cb)) ops (contents (cb, m), m))) \<and>
    same_outside cb (snd (snd (run_spec (queue_spec (capacity cb)) ops (contents (cb, m), m)))) m' \<and>
    (c_end cb - c_start cb \<le> 32768 \<longrightarrow> cb_check cb')"
proof -
  have "holds_queue (c_start cb) (c_end cb) (cb, m) (contents (cb, m), m)" using assms(1) by (simp add: holds_queue_def same_outside_def)
  from tty.run_simulates [OF this, of ops] assms(2) obtain s' where
    r: "run_ops cb_step ops (cb, m) = Some (fst (run_spec (queue_spec (capacity cb)) ops (contents (cb, m), m)), s')"
      "holds_queue (c_start cb) (c_end cb) s' (snd (run_spec (queue_spec (capacity cb)) ops (contents (cb, m), m)))"
    by (auto simp: capacity_def)
  then show ?thesis using cb_check_iff [of "fst s'"]
    by (intro exI [of _ "fst s'"] exI [of _ "snd s'"]) (auto simp: holds_queue_def same_outside_def)
qed

lemma cb_alloc_ok:
  assumes "0 < buf_size"
  shows "cb_ok (cb_alloc buf buf_size)" "contents (cb_alloc buf buf_size, m) = []" "capacity (cb_alloc buf buf_size) = nat (buf_size - 1)"
    "cb_free (cb_alloc buf buf_size) = (buf, buf_size)"
  using assms by (simp_all add: cb_ok_def cb_alloc_def contents_def used_def capacity_def cb_free_def Let_def)

definition example_ops :: "cb_op list" where
  "example_ops = [PutC 65, BToQ 0 5, CbSpace, GetC, GetC, PutC 70, QToB 20 2, NdFlush 9, GetC]"

text \<open>A buffer of four bytes at 100: three of six bytes fit, and the write pointer wraps around.\<close>

theorem cirbuf_refines_queue_witness:
  "\<exists>cb' m'. run_ops cb_step example_ops (cb_alloc 100 4, \<lambda>a. of_int (a + 66)) = Some ([0, 3, 0, 65, 66, 0, 2, 0, - 1], cb', m') \<and>
     contents (cb', m') = [] \<and> m' 20 = 67 \<and> m' 21 = 70 \<and> cb_check cb'"
proof -
  let ?m = "\<lambda>a. of_int (a + 66) :: 8 word"
  note ok = cb_alloc_ok [where buf = 100 and buf_size = 4]
  have spec: "run_spec (queue_spec 3) example_ops ([], ?m) = ([0, 3, 0, 65, 66, 0, 2, 0, - 1], [], store 20 [67, 70] ?m)"
    by (simp add: example_ops_def bytes_def upt_rec Let_def)
  have "allowed_ops (outside_op 100 104) (queue_spec 3) example_ops ([], ?m)"
    by (simp add: example_ops_def)
  with cirbuf_refines_queue [of "cb_alloc 100 4" example_ops ?m] ok spec show ?thesis
    by (auto simp: cb_alloc_def same_outside_def store_def)
qed

end
