(* ===== verification/Vm_Map.thy ===== *)
theory Vm_Map
  imports Ipc_Table Ipc_Queue
begin

text \<open>
  Address maps (\<open>vm/vm_map.c\<close>, \<open>vm/vm_map.h\<close>) on the level of pointers: a map is a circular doubly linked
  list of entries, sorted by address, whose header is the field \<open>hdr.links\<close> of the map; its \<open>start\<close> and
  \<open>end\<close> are the bounds of the map. The \<open>hint\<close> speeds up lookups, \<open>first_free\<close> is the entry before the first
  hole.

  The heap of entries is a function from addresses; the zones of entries (one for pageable and one for
  kernel maps) are the list of addresses that \<open>zalloc\<close> will give out. Memory objects, physical maps and sleeping threads are other components: calls
  that only act on them are recorded in a log, calls with results are the parameter \<open>vm_env\<close>, which
  also says what happens to the state while the lock of the map is dropped. The lock of a map is what
  the running thread holds; taking it twice or releasing it when it is not held is \<open>None\<close>, as is a panic
  or an access to a field that the header does not have.
\<close>

section \<open>Data\<close>

type_synonym vm_offset_t = "32 word"
type_synonym vm_size_t = "32 word"
type_synonym vm_prot_t = "32 word"
type_synonym vm_inherit_t = "32 word"
type_synonym vm_behavior_t = "32 word"

definition VM_PROT_WRITE :: vm_prot_t where
  "VM_PROT_WRITE = 2"

definition VM_PROT_DEFAULT :: vm_prot_t where
  "VM_PROT_DEFAULT = 3"

definition VM_PROT_ALL :: vm_prot_t where
  "VM_PROT_ALL = 7"

definition VM_INHERIT_DEFAULT :: vm_inherit_t where
  "VM_INHERIT_DEFAULT = 1"

definition VM_BEHAVIOR_DEFAULT :: vm_behavior_t where
  "VM_BEHAVIOR_DEFAULT = 0"

definition VM_BEHAVIOR_RSEQNTL :: vm_behavior_t where
  "VM_BEHAVIOR_RSEQNTL = 3"

definition VM_OBJECT_NULL :: link where
  "VM_OBJECT_NULL = 0"

definition MAX_WIRE_COUNT :: "32 word" where
  "MAX_WIRE_COUNT = 65535"

record vm_map_entry =
  vme_prev :: link
  vme_next :: link
  vme_start :: vm_offset_t
  vme_end :: vm_offset_t
  vme_object :: link \<comment> \<open>a memory object or a submap\<close>
  vme_offset :: vm_offset_t
  is_shared :: bool
  is_sub_map :: bool
  in_transition :: bool
  needs_wakeup :: bool
  behavior :: "2 word"
  needs_copy :: bool
  protection :: "3 word"
  max_protection :: "3 word"
  inheritance :: "2 word"
  wired_count :: "16 word"
  user_wired_count :: "16 word"

datatype map_lock = Unlocked | ReadLocked | WriteLocked

record vm_map =
  map_links :: link \<comment> \<open>the address of \<open>hdr.links\<close>\<close>
  nentries :: "32 word"
  entries_pageable :: bool
  map_pmap :: link
  map_size :: vm_size_t
  ref_count :: "32 word"
  hint :: link
  first_free :: link
  wait_for_space :: bool
  wiring_required :: bool
  no_zero_fill :: bool
  timestamp :: "32 word"
  map_lock :: map_lock

datatype vm_event =
    VmObjectReference link
  | VmObjectDeallocate link
  | VmMapReference link
  | VmMapDeallocate link
  | PmapProtect link vm_offset_t vm_offset_t "3 word"
  | PmapRemove link vm_offset_t vm_offset_t
  | PmapDestroy link
  | MapWakeup link
  | EntryWakeup link
  | MapFree link

record vm_state =
  vs_maps :: "link \<Rightarrow> vm_map"
  vs_heap :: "link \<Rightarrow> vm_map_entry"
  vs_zone :: "link list"
  vs_log :: "vm_event list"

abbreviation ent :: "vm_state \<Rightarrow> link \<Rightarrow> vm_map_entry" where
  "ent s p \<equiv> vs_heap s p"

definition upd_ent :: "link \<Rightarrow> (vm_map_entry \<Rightarrow> vm_map_entry) \<Rightarrow> vm_state \<Rightarrow> vm_state" where
  "upd_ent p f s = s\<lparr>vs_heap := (vs_heap s)(p := f (vs_heap s p))\<rparr>"

definition upd_map :: "link \<Rightarrow> (vm_map \<Rightarrow> vm_map) \<Rightarrow> vm_state \<Rightarrow> vm_state" where
  "upd_map m f s = s\<lparr>vs_maps := (vs_maps s)(m := f (vs_maps s m))\<rparr>"

definition vm_emit :: "vm_event list \<Rightarrow> vm_state \<Rightarrow> vm_state" where
  "vm_emit es s = s\<lparr>vs_log := vs_log s @ es\<rparr>"

definition vm_map_to_entry :: "link \<Rightarrow> vm_state \<Rightarrow> link" where
  "vm_map_to_entry m s = map_links (vs_maps s m)"

definition vm_map_first_entry :: "link \<Rightarrow> vm_state \<Rightarrow> link" where
  "vm_map_first_entry m s = vme_next (ent s (vm_map_to_entry m s))"

definition vm_map_min :: "link \<Rightarrow> vm_state \<Rightarrow> vm_offset_t" where
  "vm_map_min m s = vme_start (ent s (vm_map_to_entry m s))"

definition vm_map_max :: "link \<Rightarrow> vm_state \<Rightarrow> vm_offset_t" where
  "vm_map_max m s = vme_end (ent s (vm_map_to_entry m s))"

text \<open>Results of other components: the coalescing of objects, shadow objects and new objects, the wiring
  of pages, and sleeping (whether the sleep was interrupted).\<close>

record vm_env =
  object_coalesce :: "link \<Rightarrow> vm_offset_t \<Rightarrow> vm_size_t \<Rightarrow> vm_size_t \<Rightarrow> vm_state \<Rightarrow> bool"
  object_shadow :: "link \<Rightarrow> vm_offset_t \<Rightarrow> vm_size_t \<Rightarrow> vm_state \<Rightarrow> link \<times> vm_offset_t"
  object_allocate :: "vm_size_t \<Rightarrow> vm_state \<Rightarrow> link"
  object_unused :: "link \<Rightarrow> vm_state \<Rightarrow> bool"
  submap_object :: link
  kernel_object :: link
  fault_wire :: "link \<Rightarrow> vm_map_entry \<Rightarrow> vm_state \<Rightarrow> kern_return_t \<times> vm_state"
  fault_unwire :: "link \<Rightarrow> vm_map_entry \<Rightarrow> vm_state \<Rightarrow> vm_state"
  thread_sleep :: "vm_state \<Rightarrow> bool \<times> vm_state"
  lock_upgrade :: "vm_state \<Rightarrow> bool \<times> vm_state"

section \<open>Locks\<close>

definition vm_map_lock :: "link \<Rightarrow> vm_state \<Rightarrow> vm_state option" where
  "vm_map_lock m s =
     (if map_lock (vs_maps s m) = Unlocked
      then Some (upd_map m (\<lambda>mp. mp\<lparr>timestamp := timestamp mp + 1, map_lock := WriteLocked\<rparr>) s) else None)"

definition vm_map_unlock :: "link \<Rightarrow> vm_state \<Rightarrow> vm_state option" where
  "vm_map_unlock m s =
     (if map_lock (vs_maps s m) = WriteLocked then Some (upd_map m (map_lock_update (\<lambda>_. Unlocked)) s) else None)"

definition vm_map_lock_read :: "link \<Rightarrow> vm_state \<Rightarrow> vm_state option" where
  "vm_map_lock_read m s =
     (if map_lock (vs_maps s m) = Unlocked then Some (upd_map m (map_lock_update (\<lambda>_. ReadLocked)) s) else None)"

definition vm_map_unlock_read :: "link \<Rightarrow> vm_state \<Rightarrow> vm_state option" where
  "vm_map_unlock_read m s =
     (if map_lock (vs_maps s m) = ReadLocked then Some (upd_map m (map_lock_update (\<lambda>_. Unlocked)) s) else None)"

section \<open>The list of entries\<close>

definition vm_map_create :: "link \<Rightarrow> link \<Rightarrow> link \<Rightarrow> vm_offset_t \<Rightarrow> vm_offset_t \<Rightarrow> bool \<Rightarrow> vm_state \<Rightarrow> vm_state" where
  "vm_map_create result links pmap mn mx pageable s =
     upd_ent links (\<lambda>e. e\<lparr>vme_prev := links, vme_next := links, vme_start := mn, vme_end := mx\<rparr>)
      (upd_map result (\<lambda>_.
        \<lparr>map_links = links, nentries = 0, entries_pageable = pageable, map_pmap = pmap, map_size = 0, ref_count = 1,
         hint = links, first_free = links, wait_for_space = False, wiring_required = False, no_zero_fill = False,
         timestamp = 0, map_lock = Unlocked\<rparr>) s)"

definition vm_map_entry_create :: "vm_state \<Rightarrow> (link \<times> vm_state) option" where
  "vm_map_entry_create s = (case vs_zone s of [] \<Rightarrow> None | p # ps \<Rightarrow> Some (p, s\<lparr>vs_zone := ps\<rparr>))"

definition vm_map_entry_dispose :: "link \<Rightarrow> vm_state \<Rightarrow> vm_state" where
  "vm_map_entry_dispose p s = s\<lparr>vs_zone := p # vs_zone s\<rparr>"

definition SAVE_HINT :: "link \<Rightarrow> link \<Rightarrow> vm_state \<Rightarrow> vm_state" where
  "SAVE_HINT m p = upd_map m (hint_update (\<lambda>_. p))"

partial_function (option) first_free_loop :: "vm_state \<Rightarrow> link \<Rightarrow> link \<Rightarrow> link option" where
  "first_free_loop s hdr ff =
     (let next = vme_next (ent s ff) in
      if trunc_page (vme_start (ent s next)) = trunc_page (vme_end (ent s ff)) \<or>
         trunc_page (vme_start (ent s next)) = trunc_page (vme_start (ent s ff)) \<and> next \<noteq> hdr
      then if next = hdr then Some next else first_free_loop s hdr next
      else Some ff)"

declare first_free_loop.simps [code]

definition UPDATE_FIRST_FREE :: "link \<Rightarrow> link \<Rightarrow> vm_state \<Rightarrow> vm_state option" where
  "UPDATE_FIRST_FREE m new_first_free s = do {
     ff \<leftarrow> first_free_loop s (vm_map_to_entry m s) new_first_free;
     Some (upd_map m (first_free_update (\<lambda>_. ff)) s)
   }"

definition link_after :: "link \<Rightarrow> link \<Rightarrow> link \<Rightarrow> vm_state \<Rightarrow> vm_state" where
  "link_after m after_where p s =
     (let s1 = upd_map m (\<lambda>mp. mp\<lparr>nentries := nentries mp + 1\<rparr>) s;
          s2 = upd_ent p (vme_prev_update (\<lambda>_. after_where)) s1;
          next = vme_next (ent s2 after_where);
          s3 = upd_ent p (vme_next_update (\<lambda>_. next)) s2;
          s4 = upd_ent next (vme_prev_update (\<lambda>_. p)) s3
      in upd_ent after_where (vme_next_update (\<lambda>_. p)) s4)"

definition vm_map_entry_link :: "link \<Rightarrow> link \<Rightarrow> link \<Rightarrow> vm_state \<Rightarrow> vm_state option" where
  "vm_map_entry_link m after_where p s =
     (let s1 = link_after m after_where p s in UPDATE_FIRST_FREE m (first_free (vs_maps s1 m)) s1)"

definition unlink_entry :: "link \<Rightarrow> link \<Rightarrow> vm_state \<Rightarrow> vm_state" where
  "unlink_entry m p s =
     (let s1 = upd_map m (\<lambda>mp. mp\<lparr>nentries := nentries mp - 1\<rparr>) s;
          s2 = upd_ent (vme_next (ent s1 p)) (vme_prev_update (\<lambda>_. vme_prev (ent s1 p))) s1
      in upd_ent (vme_prev (ent s2 p)) (vme_next_update (\<lambda>_. vme_next (ent s2 p))) s2)"

definition vm_map_entry_unlink :: "link \<Rightarrow> link \<Rightarrow> vm_state \<Rightarrow> vm_state option" where
  "vm_map_entry_unlink m p s =
     (let ff = (if vme_start (ent s p) \<le> vme_start (ent s (first_free (vs_maps s m))) then vme_prev (ent s p)
                else first_free (vs_maps s m))
      in UPDATE_FIRST_FREE m ff (unlink_entry m p s))"

text \<open>The search of \<open>vm_map_lookup_entry\<close> from \<open>cur\<close> to \<open>last\<close> (here \<open>stop\<close>): the entry where it stops and whether this has the address.\<close>

partial_function (option) search_entry :: "vm_state \<Rightarrow> vm_offset_t \<Rightarrow> link \<Rightarrow> link \<Rightarrow> (bool \<times> link) option" where
  "search_entry s address stop cur =
     (if cur \<noteq> stop then
        if address < vme_end (ent s cur) then Some (vme_start (ent s cur) \<le> address, cur)
        else search_entry s address stop (vme_next (ent s cur))
      else Some (False, cur))"

declare search_entry.simps [code]

definition vm_map_lookup_entry :: "link \<Rightarrow> vm_offset_t \<Rightarrow> vm_state \<Rightarrow> (bool \<times> link \<times> vm_state) option" where
  "vm_map_lookup_entry m address s =
     (let hdr = vm_map_to_entry m s;
          cur = (if hint (vs_maps s m) = hdr then vme_next (ent s (hint (vs_maps s m))) else hint (vs_maps s m))
      in if vme_start (ent s cur) \<le> address \<and> cur \<noteq> hdr \<and> address < vme_end (ent s cur) then Some (True, cur, s)
         else do {
           (found, p) \<leftarrow> (if vme_start (ent s cur) \<le> address then search_entry s address hdr cur
                            else search_entry s address (vme_next (ent s cur)) (vm_map_first_entry m s));
           let entry = (if found then p else vme_prev (ent s p));
           Some (found, entry, SAVE_HINT m entry s)
         })"

section \<open>Finding and entering a range\<close>

definition vm_map_entry_insert ::
  "link \<Rightarrow> link \<Rightarrow> vm_offset_t \<Rightarrow> vm_offset_t \<Rightarrow> link \<Rightarrow> vm_offset_t \<Rightarrow> bool \<Rightarrow> bool \<Rightarrow> bool \<Rightarrow> vm_prot_t \<Rightarrow> vm_prot_t \<Rightarrow>
   vm_behavior_t \<Rightarrow> vm_inherit_t \<Rightarrow> 32 word \<Rightarrow> vm_state \<Rightarrow> (link \<times> vm_state) option" where
  "vm_map_entry_insert m insp_entry start fin object offset copy shared transition cur_prot max_prot behav inherit wired s = do {
     (new_entry, s1) \<leftarrow> vm_map_entry_create s;
     let s2 = upd_ent new_entry (\<lambda>e. e\<lparr>vme_start := start, vme_end := fin, vme_object := object, vme_offset := offset,
       is_shared := shared, is_sub_map := False, needs_copy := copy, in_transition := transition, needs_wakeup := False,
       inheritance := ucast inherit, protection := ucast cur_prot, max_protection := ucast max_prot, behavior := ucast behav,
       wired_count := ucast wired, user_wired_count := 0\<rparr>) s1;
     s3 \<leftarrow> vm_map_entry_link m insp_entry new_entry s2;
     Some (new_entry, SAVE_HINT m new_entry (upd_map m (\<lambda>mp. mp\<lparr>map_size := map_size mp + (fin - start)\<rparr>) s3))
   }"

text \<open>The loop that \<open>vm_map_find_space\<close>, \<open>vm_map_enter\<close> and \<open>vm_remap_range_allocate\<close> share: the first gap
  after an entry, or why there is none: rounding up wraps around, or the end is beyond the map.\<close>

datatype gap = Gap link vm_offset_t vm_offset_t | GapWraps | GapBeyond

partial_function (option) find_gap :: "vm_state \<Rightarrow> link \<Rightarrow> vm_size_t \<Rightarrow> vm_offset_t \<Rightarrow> link \<Rightarrow> vm_offset_t \<Rightarrow> gap option" where
  "find_gap s hdr size' msk entry start =
     (let start' = (start + msk) AND NOT msk; fin = start' + size'; next = vme_next (ent s entry) in
      if start' < start then Some GapWraps
      else if vme_end (ent s hdr) < fin \<or> fin < start' then Some GapBeyond
      else if next = hdr \<or> fin \<le> vme_start (ent s next) then Some (Gap entry start' fin)
      else find_gap s hdr size' msk next (vme_end (ent s next)))"

declare find_gap.simps [code]

definition vm_map_find_space ::
  "link \<Rightarrow> vm_size_t \<Rightarrow> vm_offset_t \<Rightarrow> vm_state \<Rightarrow> (kern_return_t \<times> (vm_offset_t \<times> link) option \<times> vm_state) option" where
  "vm_map_find_space m size' msk s = do {
     (new_entry, s1) \<leftarrow> vm_map_entry_create s;
     s2 \<leftarrow> vm_map_lock m s1;
     let hdr = vm_map_to_entry m s2;
     let entry = first_free (vs_maps s2 m);
     g \<leftarrow> find_gap s2 hdr size' msk entry (if entry = hdr then vm_map_min m s2 else vme_end (ent s2 entry));
     (case g of
        Gap before start fin \<Rightarrow> do {
          let s3 = upd_ent new_entry (\<lambda>e. e\<lparr>vme_start := start, vme_end := fin, is_shared := False, is_sub_map := False,
            vme_object := VM_OBJECT_NULL, vme_offset := 0, needs_copy := False, inheritance := ucast VM_INHERIT_DEFAULT,
            protection := ucast VM_PROT_DEFAULT, max_protection := ucast VM_PROT_ALL, behavior := ucast VM_BEHAVIOR_DEFAULT,
            wired_count := 0, user_wired_count := 0, in_transition := False, needs_wakeup := False\<rparr>) s2;
          s4 \<leftarrow> vm_map_entry_link m before new_entry s3;
          Some (KERN_SUCCESS, Some (start, new_entry), SAVE_HINT m new_entry (upd_map m (\<lambda>mp. mp\<lparr>map_size := map_size mp + size'\<rparr>) s4))
        }
      | _ \<Rightarrow> do {
          s3 \<leftarrow> vm_map_unlock m (vm_map_entry_dispose new_entry s2);
          Some (KERN_NO_SPACE, None, s3)
        })
   }"

text \<open>Where the search for a range at or above \<open>start\<close> begins: the entry before it and the first free address.\<close>

definition gap_start :: "link \<Rightarrow> vm_offset_t \<Rightarrow> vm_state \<Rightarrow> (link \<times> vm_offset_t \<times> vm_state) option" where
  "gap_start m start s =
     (if start = vm_map_min m s then
        let entry = first_free (vs_maps s m)
        in Some (entry, if entry \<noteq> vm_map_to_entry m s then vme_end (ent s entry) else start, s)
      else do {
        (found, entry, s1) \<leftarrow> vm_map_lookup_entry m start s;
        Some (entry, if found then vme_end (ent s1 entry) else start, s1)
      })"

text \<open>A fixed range: the entry before it, or the error.\<close>

definition fixed_range :: "link \<Rightarrow> vm_offset_t \<Rightarrow> vm_size_t \<Rightarrow> vm_offset_t \<Rightarrow> vm_state \<Rightarrow> ((kern_return_t + link) \<times> vm_state) option" where
  "fixed_range m start size' msk s =
     (let fin = start + size' in
      if start AND msk \<noteq> 0 then Some (Inl KERN_NO_SPACE, s)
      else if start < vm_map_min m s \<or> vm_map_max m s < fin \<or> fin \<le> start then Some (Inl KERN_INVALID_ADDRESS, s)
      else do {
        (found, entry, s1) \<leftarrow> vm_map_lookup_entry m start s;
        let next = vme_next (ent s1 entry);
        if found then Some (Inl KERN_NO_SPACE, s1)
        else if next \<noteq> vm_map_to_entry m s1 \<and> vme_start (ent s1 next) < fin then Some (Inl KERN_NO_SPACE, s1)
        else Some (Inr entry, s1)
      })"

partial_function (option) vm_remap_range_allocate ::
  "vm_env \<Rightarrow> link \<Rightarrow> vm_offset_t \<Rightarrow> vm_size_t \<Rightarrow> vm_offset_t \<Rightarrow> bool \<Rightarrow> vm_state \<Rightarrow>
   (kern_return_t \<times> (vm_offset_t \<times> link) option \<times> vm_state) option" where
  "vm_remap_range_allocate env m address size' msk anywhere s =
     (if anywhere then
        let start = (if address < vm_map_min m s then vm_map_min m s else address) in
        if vm_map_max m s < start then Some (KERN_NO_SPACE, None, s)
        else do {
          (entry, start, s1) \<leftarrow> gap_start m start s;
          g \<leftarrow> find_gap s1 (vm_map_to_entry m s1) size' msk entry start;
          (case g of
             Gap before start fin \<Rightarrow> Some (KERN_SUCCESS, Some (start, before), s1)
           | GapWraps \<Rightarrow> Some (KERN_NO_SPACE, None, s1)
           | GapBeyond \<Rightarrow>
               if wait_for_space (vs_maps s1 m) \<and> size' \<le> vm_map_max m s1 - vm_map_min m s1 then do {
                 s2 \<leftarrow> vm_map_unlock m s1;
                 s3 \<leftarrow> vm_map_lock m (snd (thread_sleep env s2));
                 vm_remap_range_allocate env m address size' msk anywhere s3
               }
               else Some (KERN_NO_SPACE, None, s1))
        }
      else do {
        (r, s1) \<leftarrow> fixed_range m address size' msk s;
        (case r of Inl kr \<Rightarrow> Some (kr, None, s1) | Inr entry \<Rightarrow> Some (KERN_SUCCESS, Some (address, entry), s1))
      })"

declare vm_remap_range_allocate.simps [code]


section \<open>Clipping\<close>

definition vm_object_reference :: "link \<Rightarrow> vm_state \<Rightarrow> vm_state" where
  "vm_object_reference object s = (if object = VM_OBJECT_NULL then s else vm_emit [VmObjectReference object] s)"

definition reference_backing :: "link \<Rightarrow> vm_state \<Rightarrow> vm_state" where
  "reference_backing p s =
     (if is_sub_map (ent s p) then vm_emit [VmMapReference (vme_object (ent s p))] s
      else vm_object_reference (vme_object (ent s p)) s)"

definition clip_start_split :: "link \<Rightarrow> link \<Rightarrow> vm_offset_t \<Rightarrow> vm_state \<Rightarrow> vm_state option" where
  "clip_start_split m p start s = do {
     (new_entry, s1) \<leftarrow> vm_map_entry_create s;
     let s2 = upd_ent new_entry (\<lambda>_. (ent s1 p)\<lparr>vme_end := start\<rparr>) s1;
     let s3 = upd_ent p (\<lambda>e. e\<lparr>vme_offset := vme_offset e + (start - vme_start e), vme_start := start\<rparr>) s2;
     Some (reference_backing p (link_after m (vme_prev (ent s3 p)) new_entry s3))
   }"

definition vm_map_clip_start :: "link \<Rightarrow> link \<Rightarrow> vm_offset_t \<Rightarrow> vm_state \<Rightarrow> vm_state option" where
  "vm_map_clip_start m p startaddr s = do {
     s1 \<leftarrow> (if vme_start (ent s p) < startaddr then clip_start_split m p startaddr s else Some s);
     UPDATE_FIRST_FREE m (first_free (vs_maps s1 m)) s1
   }"

definition clip_end_split :: "link \<Rightarrow> link \<Rightarrow> vm_offset_t \<Rightarrow> vm_state \<Rightarrow> vm_state option" where
  "clip_end_split m p fin s = do {
     (new_entry, s1) \<leftarrow> vm_map_entry_create s;
     let s2 = upd_ent new_entry (\<lambda>_. (ent s1 p)\<lparr>vme_start := fin, vme_offset := vme_offset (ent s1 p) + (fin - vme_start (ent s1 p))\<rparr>) s1;
     let s3 = upd_ent p (vme_end_update (\<lambda>_. fin)) s2;
     Some (reference_backing p (link_after m p new_entry s3))
   }"

definition vm_map_clip_end :: "link \<Rightarrow> link \<Rightarrow> vm_offset_t \<Rightarrow> vm_state \<Rightarrow> vm_state option" where
  "vm_map_clip_end m p endaddr s = do {
     s1 \<leftarrow> (if endaddr < vme_end (ent s p) then clip_end_split m p endaddr s else Some s);
     UPDATE_FIRST_FREE m (first_free (vs_maps s1 m)) s1
   }"

section \<open>Attributes of a range\<close>

definition VM_MAP_RANGE_CHECK :: "link \<Rightarrow> vm_state \<Rightarrow> vm_offset_t \<Rightarrow> vm_offset_t \<Rightarrow> vm_offset_t \<times> vm_offset_t" where
  "VM_MAP_RANGE_CHECK m s start fin =
     (let start1 = (if start < vm_map_min m s then vm_map_min m s else start);
          end1 = (if vm_map_max m s < fin then vm_map_max m s else fin)
      in (if end1 < start1 then end1 else start1, end1))"

partial_function (option) range_check_loop :: "vm_state \<Rightarrow> link \<Rightarrow> vm_offset_t \<Rightarrow> vm_offset_t \<Rightarrow> link \<Rightarrow> bool option" where
  "range_check_loop s hdr fin prev cur =
     (if cur \<noteq> hdr \<and> prev = vme_start (ent s cur) then
        if fin \<le> vme_end (ent s cur) then Some True
        else range_check_loop s hdr fin (vme_end (ent s cur)) (vme_next (ent s cur))
      else Some False)"

declare range_check_loop.simps [code]

definition vm_map_range_check :: "link \<Rightarrow> vm_offset_t \<Rightarrow> vm_offset_t \<Rightarrow> vm_state \<Rightarrow> (link option \<times> vm_state) option" where
  "vm_map_range_check m start fin s =
     (if start < vm_map_min m s \<or> vm_map_max m s < fin \<or> fin < start then Some (None, s)
      else do {
        (found, cur, s1) \<leftarrow> vm_map_lookup_entry m start s;
        if \<not> found then Some (None, s1)
        else if fin \<le> vme_end (ent s1 cur) then Some (Some cur, s1)
        else do {
          ok \<leftarrow> range_check_loop s1 (vm_map_to_entry m s1) fin (vme_end (ent s1 cur)) (vme_next (ent s1 cur));
          Some (if ok then Some cur else None, s1)
        }
      })"

definition vm_map_submap :: "vm_env \<Rightarrow> link \<Rightarrow> vm_offset_t \<Rightarrow> vm_offset_t \<Rightarrow> link \<Rightarrow> vm_state \<Rightarrow> (kern_return_t \<times> vm_state) option" where
  "vm_map_submap env m start0 end0 submap s = do {
     s1 \<leftarrow> vm_map_lock m s;
     let (start, fin) = VM_MAP_RANGE_CHECK m s1 start0 end0;
     (found, entry, s2) \<leftarrow> vm_map_lookup_entry m start s1;
     let p = (if found then entry else vme_next (ent s2 entry));
     s3 \<leftarrow> (if found then vm_map_clip_start m p start s2 else Some s2);
     s4 \<leftarrow> (if p = vm_map_to_entry m s3 then None else vm_map_clip_end m p fin s3);
     let object = vme_object (ent s4 p);
     let ok = (vme_start (ent s4 p) = start \<and> vme_end (ent s4 p) = fin \<and> \<not> is_sub_map (ent s4 p) \<and> object = submap_object env \<and> object_unused env object s4);
     let s5 = (if ok then vm_emit [VmObjectDeallocate object, VmMapReference submap]
                 (upd_ent p (\<lambda>e. e\<lparr>vme_object := submap, is_sub_map := True\<rparr>) s4) else s4);
     s6 \<leftarrow> vm_map_unlock m s5;
     Some (if ok then KERN_SUCCESS else KERN_INVALID_ARGUMENT, s6)
   }"

text \<open>The loop over the entries of a range, clipped to its end, that sets one attribute of each.\<close>

partial_function (option) range_loop :: "(link \<Rightarrow> vm_state \<Rightarrow> vm_state) \<Rightarrow> link \<Rightarrow> vm_offset_t \<Rightarrow> link \<Rightarrow> vm_state \<Rightarrow> vm_state option" where
  "range_loop f m fin p s =
     (if p \<noteq> vm_map_to_entry m s \<and> vme_start (ent s p) < fin then do {
        s1 \<leftarrow> vm_map_clip_end m p fin s;
        let s2 = f p s1;
        range_loop f m fin (vme_next (ent s2 p)) s2
      }
      else Some s)"

declare range_loop.simps [code]

partial_function (option) protect_check ::
  "vm_state \<Rightarrow> link \<Rightarrow> vm_offset_t \<Rightarrow> vm_prot_t \<Rightarrow> vm_offset_t \<Rightarrow> link \<Rightarrow> kern_return_t option" where
  "protect_check s hdr fin new_prot prev current =
     (if current \<noteq> hdr \<and> vme_start (ent s current) < fin then
        if is_sub_map (ent s current) then Some KERN_INVALID_ARGUMENT
        else if vme_start (ent s current) \<noteq> prev then Some KERN_INVALID_ADDRESS
        else if new_prot AND ucast (max_protection (ent s current)) \<noteq> new_prot then Some KERN_PROTECTION_FAILURE
        else protect_check s hdr fin new_prot (vme_end (ent s current)) (vme_next (ent s current))
      else if prev < fin then Some KERN_INVALID_ADDRESS
      else Some KERN_SUCCESS)"

declare protect_check.simps [code]

definition set_protection :: "link \<Rightarrow> vm_prot_t \<Rightarrow> bool \<Rightarrow> link \<Rightarrow> vm_state \<Rightarrow> vm_state" where
  "set_protection m new_prot set_max p s =
     (let old_prot = protection (ent s p);
          s1 = upd_ent p (\<lambda>e. if set_max then e\<lparr>max_protection := ucast new_prot, protection := ucast new_prot AND old_prot\<rparr>
                             else e\<lparr>protection := ucast new_prot\<rparr>) s;
          e = ent s1 p
      in if protection e \<noteq> old_prot then vm_emit [PmapProtect (map_pmap (vs_maps s1 m)) (vme_start e) (vme_end e) (protection e)] s1 else s1)"

definition vm_map_protect :: "link \<Rightarrow> vm_offset_t \<Rightarrow> vm_offset_t \<Rightarrow> vm_prot_t \<Rightarrow> bool \<Rightarrow> vm_state \<Rightarrow> (kern_return_t \<times> vm_state) option" where
  "vm_map_protect m start fin new_prot set_max s = do {
     s1 \<leftarrow> vm_map_lock m s;
     (clip, entry, s2) \<leftarrow> vm_map_lookup_entry m start s1;
     if \<not> clip then do { s3 \<leftarrow> vm_map_unlock m s2; Some (KERN_INVALID_ADDRESS, s3) }
     else do {
       kr \<leftarrow> protect_check s2 (vm_map_to_entry m s2) fin new_prot (vme_start (ent s2 entry)) entry;
       if kr \<noteq> KERN_SUCCESS then do { s3 \<leftarrow> vm_map_unlock m s2; Some (kr, s3) }
       else do {
         s3 \<leftarrow> vm_map_clip_start m entry start s2;
         s4 \<leftarrow> range_loop (set_protection m new_prot set_max) m fin entry s3;
         s5 \<leftarrow> vm_map_unlock m s4;
         Some (KERN_SUCCESS, s5)
       }
     }
   }"

definition set_inheritance :: "vm_inherit_t \<Rightarrow> link \<Rightarrow> vm_state \<Rightarrow> vm_state" where
  "set_inheritance new_inheritance p = upd_ent p (inheritance_update (\<lambda>_. ucast new_inheritance))"

definition vm_map_inherit :: "link \<Rightarrow> vm_offset_t \<Rightarrow> vm_offset_t \<Rightarrow> vm_inherit_t \<Rightarrow> vm_state \<Rightarrow> (kern_return_t \<times> vm_state) option" where
  "vm_map_inherit m start0 end0 new_inheritance s = do {
     s1 \<leftarrow> vm_map_lock m s;
     let (start, fin) = VM_MAP_RANGE_CHECK m s1 start0 end0;
     (found, entry, s2) \<leftarrow> vm_map_lookup_entry m start s1;
     s3 \<leftarrow> (if found then vm_map_clip_start m entry start s2 else Some s2);
     s4 \<leftarrow> range_loop (set_inheritance new_inheritance) m fin (if found then entry else vme_next (ent s2 entry)) s3;
     s5 \<leftarrow> vm_map_unlock m s4;
     Some (KERN_SUCCESS, s5)
   }"

definition set_behavior :: "vm_behavior_t \<Rightarrow> link \<Rightarrow> vm_state \<Rightarrow> vm_state" where
  "set_behavior new_behavior p = upd_ent p (behavior_update (\<lambda>_. ucast new_behavior))"

definition vm_map_behavior_set :: "link \<Rightarrow> vm_offset_t \<Rightarrow> vm_offset_t \<Rightarrow> vm_behavior_t \<Rightarrow> vm_state \<Rightarrow> (kern_return_t \<times> vm_state) option" where
  "vm_map_behavior_set m start fin new_behavior s =
     (if \<not> new_behavior \<le> VM_BEHAVIOR_RSEQNTL then Some (KERN_INVALID_ARGUMENT, s)
      else do {
        s1 \<leftarrow> vm_map_lock m s;
        (r, s2) \<leftarrow> vm_map_range_check m start fin s1;
        (case r of
           None \<Rightarrow> do { s3 \<leftarrow> vm_map_unlock m s2; Some (KERN_INVALID_ADDRESS, s3) }
         | Some entry \<Rightarrow> do {
             s3 \<leftarrow> vm_map_clip_start m entry start s2;
             s4 \<leftarrow> range_loop (set_behavior new_behavior) m fin entry s3;
             s5 \<leftarrow> vm_map_unlock m s4;
             Some (KERN_SUCCESS, s5)
           })
      })"

section \<open>Wiring\<close>

text \<open>The entries that lay in the entry saved before the lock was dropped are no longer in transition; \<open>f\<close>
  takes back a wiring that failed.\<close>

partial_function (option) transition_loop ::
  "(link \<Rightarrow> vm_state \<Rightarrow> vm_state) \<Rightarrow> link \<Rightarrow> vm_offset_t \<Rightarrow> link \<Rightarrow> bool \<Rightarrow> vm_state \<Rightarrow> (link \<times> bool \<times> vm_state) option" where
  "transition_loop f hdr tmp_end p need_wakeup s =
     (if p \<noteq> hdr \<and> vme_start (ent s p) < tmp_end then
        let s1 = f p (upd_ent p (\<lambda>e. e\<lparr>in_transition := False, needs_wakeup := False\<rparr>) s)
        in transition_loop f hdr tmp_end (vme_next (ent s1 p)) (need_wakeup \<or> needs_wakeup (ent s p)) s1
      else Some (p, need_wakeup, s))"

declare transition_loop.simps [code]

definition wakeup_waiters :: "link \<Rightarrow> bool \<Rightarrow> vm_state \<Rightarrow> vm_state" where
  "wakeup_waiters m need_wakeup s = (if need_wakeup then vm_emit [EntryWakeup m] s else s)"

definition hole_after :: "link \<Rightarrow> link \<Rightarrow> vm_offset_t \<Rightarrow> vm_state \<Rightarrow> bool" where
  "hole_after m p fin s \<longleftrightarrow> vme_end (ent s p) < fin \<and>
     (vme_next (ent s p) = vm_map_to_entry m s \<or> vme_end (ent s p) < vme_start (ent s (vme_next (ent s p))))"

definition drop_wiring :: "bool \<Rightarrow> link \<Rightarrow> vm_state \<Rightarrow> vm_state" where
  "drop_wiring user_wire p s =
     (let s1 = (if user_wire then upd_ent p (\<lambda>e. e\<lparr>user_wired_count := user_wired_count e - 1\<rparr>) s else s)
      in if \<not> user_wire \<or> user_wired_count (ent s1 p) = 0 then upd_ent p (\<lambda>e. e\<lparr>wired_count := wired_count e - 1\<rparr>) s1 else s1)"

partial_function (option) unwire_loop ::
  "vm_env \<Rightarrow> link \<Rightarrow> vm_offset_t \<Rightarrow> vm_offset_t \<Rightarrow> bool \<Rightarrow> link \<Rightarrow> 32 word \<Rightarrow> bool \<Rightarrow> vm_state \<Rightarrow> (kern_return_t \<times> vm_state) option" where
  "unwire_loop env m start fin user_wire p last_timestamp need_wakeup s =
     (if \<not> (p \<noteq> vm_map_to_entry m s \<and> vme_start (ent s p) < fin) then do {
        s1 \<leftarrow> vm_map_unlock m s;
        Some (KERN_SUCCESS, wakeup_waiters m need_wakeup s1)
      }
      else if in_transition (ent s p) \<or> wired_count (ent s p) = 0 \<or> user_wire \<and> user_wired_count (ent s p) = 0 then
        if \<not> user_wire then None
        else unwire_loop env m start fin user_wire (vme_next (ent s p)) last_timestamp need_wakeup s
      else do {
        s1 \<leftarrow> vm_map_clip_start m p start s;
        s2 \<leftarrow> vm_map_clip_end m p fin s1;
        if hole_after m p fin s2 then
          if \<not> user_wire then None
          else unwire_loop env m start fin user_wire (vme_next (ent s2 p)) last_timestamp need_wakeup s2
        else do {
          let s3 = drop_wiring user_wire p s2;
          if wired_count (ent s3 p) \<noteq> 0
          then unwire_loop env m start fin user_wire (vme_next (ent s3 p)) last_timestamp need_wakeup s3
          else do {
            let s4 = upd_ent p (in_transition_update (\<lambda>_. True)) s3;
            let tmp_entry = ent s4 p;
            s5 \<leftarrow> vm_map_unlock m s4;
            s6 \<leftarrow> vm_map_lock m (fault_unwire env m tmp_entry s5);
            (p', s7) \<leftarrow>
              (if last_timestamp + 1 \<noteq> timestamp (vs_maps s6 m) then do {
                 (found, first_entry, s7) \<leftarrow> vm_map_lookup_entry m (vme_start tmp_entry) s6;
                 if found then Some (first_entry, s7)
                 else if \<not> user_wire then None
                 else Some (vme_next (ent s7 first_entry), s7)
               }
               else Some (p, s6));
            (p'', need, s8) \<leftarrow> transition_loop (\<lambda>_. id) (vm_map_to_entry m s7) (vme_end tmp_entry) p' need_wakeup s7;
            unwire_loop env m start fin user_wire p'' (timestamp (vs_maps s7 m)) need s8
          }
        }
      })"

declare unwire_loop.simps [code]

definition vm_map_unwire :: "vm_env \<Rightarrow> link \<Rightarrow> vm_offset_t \<Rightarrow> vm_offset_t \<Rightarrow> bool \<Rightarrow> vm_state \<Rightarrow> (kern_return_t \<times> vm_state) option" where
  "vm_map_unwire env m start0 end0 user_wire s = do {
     s1 \<leftarrow> vm_map_lock m s;
     let (start, fin) = VM_MAP_RANGE_CHECK m s1 start0 end0;
     (found, entry, s2) \<leftarrow> vm_map_lookup_entry m start s1;
     if found then unwire_loop env m start fin user_wire entry (timestamp (vs_maps s1 m)) False s2
     else do { s3 \<leftarrow> vm_map_unlock m s2; Some (KERN_INVALID_ADDRESS, s3) }
   }"


text \<open>What \<open>vm_map_wire\<close> does first with an unwired entry: a private object for a copy-on-write region, an
  object for a zero-fill region.\<close>

definition prepare_object :: "vm_env \<Rightarrow> link \<Rightarrow> vm_state \<Rightarrow> vm_state" where
  "prepare_object env p s =
     (let e = ent s p; size' = vme_end e - vme_start e in
      if needs_copy e then
        let (object, offset) = object_shadow env (vme_object e) (vme_offset e) size' s
        in upd_ent p (\<lambda>e. e\<lparr>vme_object := object, vme_offset := offset, needs_copy := False\<rparr>) s
      else if vme_object e = VM_OBJECT_NULL then
        upd_ent p (\<lambda>e. e\<lparr>vme_object := object_allocate env size' s, vme_offset := 0\<rparr>) s
      else s)"

definition add_wiring :: "bool \<Rightarrow> link \<Rightarrow> vm_state \<Rightarrow> vm_state" where
  "add_wiring user_wire p s =
     (let first = (user_wired_count (ent s p) = 0);
          s1 = (if user_wire then upd_ent p (\<lambda>e. e\<lparr>user_wired_count := user_wired_count e + 1\<rparr>) s else s)
      in if \<not> user_wire \<or> first then upd_ent p (\<lambda>e. e\<lparr>wired_count := wired_count e + 1\<rparr>) s1 else s1)"

definition undo_wiring :: "bool \<Rightarrow> link \<Rightarrow> vm_state \<Rightarrow> vm_state" where
  "undo_wiring user_wire p =
     upd_ent p (\<lambda>e. e\<lparr>user_wired_count := (if user_wire then user_wired_count e - 1 else user_wired_count e), wired_count := wired_count e - 1\<rparr>)"

partial_function (option) wire_loop ::
  "vm_env \<Rightarrow> link \<Rightarrow> vm_offset_t \<Rightarrow> vm_offset_t \<Rightarrow> vm_prot_t \<Rightarrow> bool \<Rightarrow> link \<Rightarrow> 32 word \<Rightarrow> bool \<Rightarrow> vm_state \<Rightarrow> (kern_return_t \<times> vm_state) option" where
  "wire_loop env m start fin access_type user_wire p last_timestamp need_wakeup s =
     (if \<not> (p \<noteq> vm_map_to_entry m s \<and> vme_start (ent s p) < fin) then do {
        s1 \<leftarrow> vm_map_unlock m s;
        Some (KERN_SUCCESS, wakeup_waiters m need_wakeup s1)
      }
      else if in_transition (ent s p) then do {
        let st = (if vme_start (ent s p) < start then start else vme_start (ent s p));
        s1 \<leftarrow> vm_map_unlock m (wakeup_waiters m need_wakeup (upd_ent p (needs_wakeup_update (\<lambda>_. True)) s));
        let (interrupted, s2) = thread_sleep env s1;
        if user_wire \<and> interrupted then do {
          (_, s3) \<leftarrow> vm_map_unwire env m start st user_wire s2;
          Some (KERN_FAILURE, s3)
        }
        else do {
          s3 \<leftarrow> vm_map_lock m s2;
          (found, first_entry, s4) \<leftarrow> vm_map_lookup_entry m st s3;
          if found then wire_loop env m start fin access_type user_wire first_entry (timestamp (vs_maps s3 m)) False s4
          else if \<not> user_wire then None
          else do {
            s5 \<leftarrow> vm_map_unlock m s4;
            (_, s6) \<leftarrow> vm_map_unwire env m start st user_wire s5;
            Some (KERN_FAILURE, s6)
          }
        }
      }
      else if wired_count (ent s p) \<noteq> 0 then
        if MAX_WIRE_COUNT \<le> ucast (wired_count (ent s p)) then None
        else if user_wire \<and> MAX_WIRE_COUNT \<le> ucast (user_wired_count (ent s p)) then do {
          s1 \<leftarrow> vm_map_unlock m s;
          (_, s2) \<leftarrow> vm_map_unwire env m start (vme_start (ent s p)) user_wire s1;
          Some (KERN_FAILURE, s2)
        }
        else do {
          s1 \<leftarrow> vm_map_clip_start m p start s;
          s2 \<leftarrow> vm_map_clip_end m p fin s1;
          let s3 = add_wiring user_wire p s2;
          wire_loop env m start fin access_type user_wire (vme_next (ent s3 p)) last_timestamp need_wakeup s3
        }
      else do {
        s2 \<leftarrow> vm_map_clip_start m p start (prepare_object env p s);
        s3 \<leftarrow> vm_map_clip_end m p fin s2;
        let st = vme_start (ent s3 p);
        if hole_after m p fin s3 \<or> ucast (protection (ent s3 p)) AND access_type \<noteq> access_type then do {
          s4 \<leftarrow> vm_map_unlock m s3;
          s5 \<leftarrow> (if start \<noteq> st then map_option snd (vm_map_unwire env m start st user_wire s4) else Some s4);
          Some (if ucast (protection (ent s5 p)) AND access_type \<noteq> access_type then KERN_PROTECTION_FAILURE else KERN_INVALID_ADDRESS, s5)
        }
        else do {
          let s4 = upd_ent p (\<lambda>e. e\<lparr>user_wired_count := (if user_wire then user_wired_count e + 1 else user_wired_count e),
                                    wired_count := wired_count e + 1, in_transition := True\<rparr>) s3;
          let tmp_entry = ent s4 p;
          s5 \<leftarrow> vm_map_unlock m s4;
          let (rc, s6) = fault_wire env m tmp_entry s5;
          s7 \<leftarrow> vm_map_lock m s6;
          (p', s8) \<leftarrow>
            (if last_timestamp + 1 \<noteq> timestamp (vs_maps s7 m) then do {
               (found, first_entry, s8) \<leftarrow> vm_map_lookup_entry m (vme_start tmp_entry) s7;
               if found then Some (first_entry, s8) else None
             }
             else Some (p, s7));
          (p'', need, s9) \<leftarrow> transition_loop (if rc = KERN_SUCCESS then (\<lambda>_. id) else undo_wiring user_wire)
            (vm_map_to_entry m s8) (vme_end tmp_entry) p' need_wakeup s8;
          if rc = KERN_SUCCESS then wire_loop env m start fin access_type user_wire p'' (timestamp (vs_maps s8 m)) need s9
          else do {
            s10 \<leftarrow> vm_map_unlock m s9;
            (_, s11) \<leftarrow> vm_map_unwire env m start st user_wire (wakeup_waiters m need s10);
            Some (rc, s11)
          }
        }
      })"

declare wire_loop.simps [code]

definition vm_map_wire :: "vm_env \<Rightarrow> link \<Rightarrow> vm_offset_t \<Rightarrow> vm_offset_t \<Rightarrow> vm_prot_t \<Rightarrow> bool \<Rightarrow> vm_state \<Rightarrow> (kern_return_t \<times> vm_state) option" where
  "vm_map_wire env m start0 end0 access_type user_wire s = do {
     s1 \<leftarrow> vm_map_lock m s;
     let (start, fin) = VM_MAP_RANGE_CHECK m s1 start0 end0;
     (found, entry, s2) \<leftarrow> vm_map_lookup_entry m start s1;
     if found then wire_loop env m start fin access_type user_wire entry (timestamp (vs_maps s1 m)) False s2
     else do { s3 \<leftarrow> vm_map_unlock m s2; Some (KERN_INVALID_ADDRESS, s3) }
   }"

section \<open>Entering a mapping\<close>

text \<open>A new range that only needs zeroed memory may extend the entry below it.\<close>

definition can_extend :: "link \<Rightarrow> link \<Rightarrow> link \<Rightarrow> vm_offset_t \<Rightarrow> vm_prot_t \<Rightarrow> vm_prot_t \<Rightarrow> vm_inherit_t \<Rightarrow> vm_state \<Rightarrow> bool" where
  "can_extend m p object start cur_prot max_prot inherit s \<longleftrightarrow>
     object = VM_OBJECT_NULL \<and> p \<noteq> vm_map_to_entry m s \<and> vme_end (ent s p) = start \<and> \<not> is_shared (ent s p) \<and> \<not> is_sub_map (ent s p) \<and>
     ucast (inheritance (ent s p)) = inherit \<and> ucast (protection (ent s p)) = cur_prot \<and> ucast (max_protection (ent s p)) = max_prot \<and>
     ucast (behavior (ent s p)) = VM_BEHAVIOR_DEFAULT \<and> \<not> in_transition (ent s p) \<and> wired_count (ent s p) = 0"

definition enter_range ::
  "vm_env \<Rightarrow> link \<Rightarrow> link \<Rightarrow> vm_offset_t \<Rightarrow> vm_offset_t \<Rightarrow> link \<Rightarrow> vm_offset_t \<Rightarrow> bool \<Rightarrow> vm_prot_t \<Rightarrow> vm_prot_t \<Rightarrow> vm_inherit_t \<Rightarrow>
   vm_state \<Rightarrow> (kern_return_t \<times> vm_state) option" where
  "enter_range env m p start fin object offset copy cur_prot max_prot inherit s =
     (if can_extend m p object start cur_prot max_prot inherit s \<and>
         object_coalesce env (vme_object (ent s p)) (vme_offset (ent s p)) (vme_end (ent s p) - vme_start (ent s p)) (fin - vme_end (ent s p)) s
      then do {
        let s1 = upd_map m (\<lambda>mp. mp\<lparr>map_size := map_size mp + (fin - vme_end (ent s p))\<rparr>) s;
        let s2 = upd_ent p (vme_end_update (\<lambda>_. fin)) s1;
        s3 \<leftarrow> UPDATE_FIRST_FREE m (first_free (vs_maps s2 m)) s2;
        s4 \<leftarrow> vm_map_unlock m s3;
        Some (KERN_SUCCESS, s4)
      }
      else do {
        (new_entry, s1) \<leftarrow> vm_map_entry_insert m p start fin object offset copy False False cur_prot max_prot VM_BEHAVIOR_DEFAULT inherit 0 s;
        s2 \<leftarrow> vm_map_unlock m s1;
        if wiring_required (vs_maps s2 m) then vm_map_wire env m start fin (ucast (protection (ent s2 new_entry))) True s2
        else Some (KERN_SUCCESS, s2)
      })"

partial_function (option) vm_map_enter ::
  "vm_env \<Rightarrow> link \<Rightarrow> vm_offset_t \<Rightarrow> vm_size_t \<Rightarrow> vm_offset_t \<Rightarrow> bool \<Rightarrow> link \<Rightarrow> vm_offset_t \<Rightarrow> bool \<Rightarrow> vm_prot_t \<Rightarrow> vm_prot_t \<Rightarrow> vm_inherit_t \<Rightarrow>
   vm_state \<Rightarrow> (kern_return_t \<times> vm_offset_t \<times> vm_state) option" where
  "vm_map_enter env m address size' msk anywhere object offset copy cur_prot max_prot inherit s0 = do {
     s \<leftarrow> vm_map_lock m s0;
     let bail = (\<lambda>kr s. map_option (\<lambda>s'. (kr, address, s')) (vm_map_unlock m s));
     if anywhere then
       let start = (if address < vm_map_min m s then vm_map_min m s else address) in
       if vm_map_max m s < start then bail KERN_NO_SPACE s
       else do {
         (entry, start, s1) \<leftarrow> gap_start m start s;
         g \<leftarrow> find_gap s1 (vm_map_to_entry m s1) size' msk entry start;
         (case g of
            Gap p start fin \<Rightarrow> do {
              (kr, s2) \<leftarrow> enter_range env m p start fin object offset copy cur_prot max_prot inherit s1;
              Some (kr, start, s2)
            }
          | GapWraps \<Rightarrow> Some (KERN_NO_SPACE, address, s1)
          | GapBeyond \<Rightarrow>
              if wait_for_space (vs_maps s1 m) \<and> size' \<le> vm_map_max m s1 - vm_map_min m s1 then do {
                s2 \<leftarrow> vm_map_unlock m s1;
                vm_map_enter env m address size' msk anywhere object offset copy cur_prot max_prot inherit (snd (thread_sleep env s2))
              }
              else bail KERN_NO_SPACE s1)
       }
     else do {
       (r, s1) \<leftarrow> fixed_range m address size' msk s;
       (case r of
          Inl kr \<Rightarrow> bail kr s1
        | Inr p \<Rightarrow> do {
            (kr, s2) \<leftarrow> enter_range env m p address (address + size') object offset copy cur_prot max_prot inherit s1;
            Some (kr, address, s2)
          })
     }
   }"

declare vm_map_enter.simps [code]

section \<open>Removing a range\<close>

definition vm_object_deallocate :: "link \<Rightarrow> vm_state \<Rightarrow> vm_state" where
  "vm_object_deallocate object s = (if object = VM_OBJECT_NULL then s else vm_emit [VmObjectDeallocate object] s)"

definition vm_map_entry_delete :: "link \<Rightarrow> link \<Rightarrow> vm_state \<Rightarrow> vm_state option" where
  "vm_map_entry_delete m p s = do {
     let st = vme_start (ent s p);
     let e = vme_end (ent s p);
     let s1 = (if is_sub_map (ent s p) then vm_emit [VmMapDeallocate (vme_object (ent s p))] s
               else vm_object_deallocate (vme_object (ent s p)) s);
     s2 \<leftarrow> vm_map_entry_unlink m p s1;
     Some (vm_map_entry_dispose p (upd_map m (\<lambda>mp. mp\<lparr>map_size := map_size mp - (e - st)\<rparr>) s2))
   }"

definition VM_MAP_REMOVE_KUNWIRE :: "32 word" where
  "VM_MAP_REMOVE_KUNWIRE = 1"

definition VM_MAP_REMOVE_INTERRUPTIBLE :: "32 word" where
  "VM_MAP_REMOVE_INTERRUPTIBLE = 2"

definition VM_MAP_REMOVE_WAIT_FOR_KWIRE :: "32 word" where
  "VM_MAP_REMOVE_WAIT_FOR_KWIRE = 4"

text \<open>Waiting for an entry that another thread works on: the sleep was interrupted, or the entry at the
  same address, looked up again.\<close>

definition wait_for_entry :: "vm_env \<Rightarrow> link \<Rightarrow> link \<Rightarrow> bool \<Rightarrow> vm_state \<Rightarrow> (link option \<times> 32 word \<times> vm_state) option" where
  "wait_for_entry env m p interruptible s = do {
     let st = vme_start (ent s p);
     s1 \<leftarrow> vm_map_unlock m s;
     let (interrupted, s2) = thread_sleep env s1;
     if interruptible \<and> interrupted then Some (None, 0, s2)
     else do {
       s3 \<leftarrow> vm_map_lock m s2;
       (found, first_entry, s4) \<leftarrow> vm_map_lookup_entry m st s3;
       if found then Some (Some first_entry, timestamp (vs_maps s3 m), SAVE_HINT m (vme_prev (ent s4 first_entry)) s4)
       else Some (Some (vme_next (ent s4 first_entry)), timestamp (vs_maps s3 m), s4)
     }
   }"

text \<open>\<open>retry\<close> is true behind the label \<open>retry_entry\<close>, where the loop condition is not tested again.\<close>

partial_function (option) delete_loop ::
  "vm_env \<Rightarrow> link \<Rightarrow> vm_offset_t \<Rightarrow> 32 word \<Rightarrow> bool \<Rightarrow> link \<Rightarrow> bool \<Rightarrow> 32 word \<Rightarrow> vm_state \<Rightarrow> (kern_return_t \<times> vm_state) option" where
  "delete_loop env m fin flags retry p need_wakeup last_timestamp s =
     (if \<not> retry \<and> \<not> (p \<noteq> vm_map_to_entry m s \<and> vme_start (ent s p) < fin) then
        Some (KERN_SUCCESS, wakeup_waiters m need_wakeup (if wait_for_space (vs_maps s m) then vm_emit [MapWakeup m] s else s))
      else if p = vm_map_to_entry m s then None
      else do {
        s1 \<leftarrow> (if retry then Some s else vm_map_clip_end m p fin s);
        if in_transition (ent s1 p) then do {
          r \<leftarrow> wait_for_entry env m p (flags AND VM_MAP_REMOVE_INTERRUPTIBLE \<noteq> 0)
            (wakeup_waiters m need_wakeup (upd_ent p (needs_wakeup_update (\<lambda>_. True)) s1));
          (case r of
             (None, _, s2) \<Rightarrow> Some (KERN_ABORTED, s2)
           | (Some p', ts, s2) \<Rightarrow> delete_loop env m fin flags True p' False ts s2)
        }
        else if wired_count (ent s1 p) \<noteq> 0 then do {
          let s2 = upd_ent p (\<lambda>e. e\<lparr>wired_count :=
              (if flags AND VM_MAP_REMOVE_KUNWIRE \<noteq> 0 \<or> user_wired_count e \<noteq> 0 then wired_count e - 1 else wired_count e),
            user_wired_count := 0\<rparr>) s1;
          if wired_count (ent s2 p) \<noteq> 0 then
            if flags AND VM_MAP_REMOVE_WAIT_FOR_KWIRE \<noteq> 0 then do {
              r \<leftarrow> wait_for_entry env m p (flags AND VM_MAP_REMOVE_INTERRUPTIBLE \<noteq> 0) (upd_ent p (needs_wakeup_update (\<lambda>_. True)) s2);
              (case r of
                 (None, _, s3) \<Rightarrow> Some (KERN_ABORTED, s3)
               | (Some p', ts, s3) \<Rightarrow> delete_loop env m fin flags True p' need_wakeup ts s3)
            }
            else Some (KERN_FAILURE, s2)
          else do {
            let s3 = upd_ent p (in_transition_update (\<lambda>_. True)) s2;
            let tmp_entry = ent s3 p;
            s4 \<leftarrow> vm_map_unlock m s3;
            s5 \<leftarrow> vm_map_lock m (fault_unwire env m tmp_entry s4);
            (first_entry, s6) \<leftarrow>
              (if last_timestamp + 1 \<noteq> timestamp (vs_maps s5 m) then do {
                 (found, first_entry, s6) \<leftarrow> vm_map_lookup_entry m (vme_start tmp_entry) s5;
                 if found then Some (first_entry, SAVE_HINT m (vme_prev (ent s6 p)) s6)
                 else Some (vme_next (ent s6 first_entry), s6)
               }
               else Some (p, SAVE_HINT m (vme_prev (ent s5 p)) s5));
            (_, need, s7) \<leftarrow> transition_loop (\<lambda>_. id) (vm_map_to_entry m s6) (vme_end tmp_entry) first_entry need_wakeup s6;
            delete_loop env m fin flags True first_entry need (timestamp (vs_maps s6 m)) s7
          }
        }
        else do {
          let s2 = (if \<not> is_sub_map (ent s1 p) \<and> vme_object (ent s1 p) \<noteq> kernel_object env
                    then vm_emit [PmapRemove (map_pmap (vs_maps s1 m)) (vme_start (ent s1 p)) (vme_end (ent s1 p))] s1 else s1);
          let next = vme_next (ent s2 p);
          s3 \<leftarrow> vm_map_entry_delete m p s2;
          delete_loop env m fin flags False next need_wakeup last_timestamp s3
        }
      })"

declare delete_loop.simps [code]

definition vm_map_delete :: "vm_env \<Rightarrow> link \<Rightarrow> vm_offset_t \<Rightarrow> vm_offset_t \<Rightarrow> 32 word \<Rightarrow> vm_state \<Rightarrow> (kern_return_t \<times> vm_state) option" where
  "vm_map_delete env m start fin flags s = do {
     (found, first_entry, s1) \<leftarrow> vm_map_lookup_entry m start s;
     s2 \<leftarrow> (if found then do {
               s2 \<leftarrow> vm_map_clip_start m first_entry start s1;
               Some (SAVE_HINT m (vme_prev (ent s2 first_entry)) s2)
             }
             else Some s1);
     delete_loop env m fin flags False (if found then first_entry else vme_next (ent s1 first_entry)) False (- 1) s2
   }"

definition vm_map_remove :: "vm_env \<Rightarrow> link \<Rightarrow> vm_offset_t \<Rightarrow> vm_offset_t \<Rightarrow> 32 word \<Rightarrow> vm_state \<Rightarrow> (kern_return_t \<times> vm_state) option" where
  "vm_map_remove env m start0 end0 flags s = do {
     s1 \<leftarrow> vm_map_lock m s;
     let (start, fin) = VM_MAP_RANGE_CHECK m s1 start0 end0;
     (result, s2) \<leftarrow> vm_map_delete env m start fin flags s1;
     s3 \<leftarrow> vm_map_unlock m s2;
     Some (result, s3)
   }"

definition vm_map_destroy :: "vm_env \<Rightarrow> link \<Rightarrow> vm_state \<Rightarrow> vm_state option" where
  "vm_map_destroy env m s = do {
     s1 \<leftarrow> vm_map_lock m s;
     (_, s2) \<leftarrow> vm_map_delete env m (vm_map_min m s1) (vm_map_max m s1) 0 s1;
     s3 \<leftarrow> vm_map_unlock m s2;
     Some (vm_emit [PmapDestroy (map_pmap (vs_maps s3 m)), MapFree m] s3)
   }"

definition vm_map_deallocate :: "vm_env \<Rightarrow> link \<Rightarrow> vm_state \<Rightarrow> vm_state option" where
  "vm_map_deallocate env m s =
     (if m = 0 then Some s
      else
        let s1 = upd_map m (\<lambda>mp. mp\<lparr>ref_count := ref_count mp - 1\<rparr>) s
        in if 0 < sint (ref_count (vs_maps s1 m)) then Some s1 else vm_map_destroy env m s1)"

section \<open>Lookup for page faults and users\<close>

record fault_info =
  fi_object :: link
  fi_offset :: vm_offset_t
  fi_prot :: vm_prot_t
  fi_wired :: bool
  fi_behavior :: "2 word"
  fi_lo_offset :: vm_offset_t
  fi_hi_offset :: vm_offset_t
  fi_version :: "32 word"

text \<open>True when the read lock was lost; the timestamp counts write locks.\<close>

definition vm_map_lock_read_to_write :: "vm_env \<Rightarrow> link \<Rightarrow> vm_state \<Rightarrow> bool \<times> vm_state" where
  "vm_map_lock_read_to_write env m s =
     (let (failed, s1) = lock_upgrade env s in
      if failed then (True, upd_map m (map_lock_update (\<lambda>_. Unlocked)) s1)
      else (False, upd_map m (\<lambda>mp. mp\<lparr>timestamp := timestamp mp + 1, map_lock := WriteLocked\<rparr>) s1))"

definition vm_map_lock_write_to_read :: "link \<Rightarrow> vm_state \<Rightarrow> vm_state" where
  "vm_map_lock_write_to_read m = upd_map m (map_lock_update (\<lambda>_. ReadLocked))"

partial_function (option) vm_map_lookup_locked ::
  "vm_env \<Rightarrow> link \<Rightarrow> vm_offset_t \<Rightarrow> vm_prot_t \<Rightarrow> vm_state \<Rightarrow> (kern_return_t \<times> link \<times> fault_info option \<times> vm_state) option" where
  "vm_map_lookup_locked env m vaddr fault_type s = do {
     let h = hint (vs_maps s m);
     (found, p, s) \<leftarrow>
       (if h = vm_map_to_entry m s \<or> vaddr < vme_start (ent s h) \<or> vme_end (ent s h) \<le> vaddr then vm_map_lookup_entry m vaddr s
        else Some (True, h, s));
     if \<not> found then Some (KERN_INVALID_ADDRESS, m, None, s)
     else if is_sub_map (ent s p) then do {
       let sub = vme_object (ent s p);
       s1 \<leftarrow> vm_map_lock_read sub s;
       s2 \<leftarrow> vm_map_unlock_read m s1;
       vm_map_lookup_locked env sub vaddr fault_type s2
     }
     else if fault_type AND ucast (protection (ent s p)) \<noteq> fault_type then Some (KERN_PROTECTION_FAILURE, m, None, s)
     else do {
       let wired = (wired_count (ent s p) \<noteq> 0);
       let prot = (ucast (protection (ent s p)) :: vm_prot_t);
       let access = (if wired then prot else fault_type);
       let copy = (needs_copy (ent s p) \<and> (access AND VM_PROT_WRITE \<noteq> 0 \<or> wired));
       (lost, s1) \<leftarrow>
         (if copy then do {
            let (failed, s1) = vm_map_lock_read_to_write env m s;
            if failed then Some (True, s1)
            else
              let e = ent s1 p; (object, offset) = object_shadow env (vme_object e) (vme_offset e) (vme_end e - vme_start e) s1
              in Some (False, vm_map_lock_write_to_read m
                   (upd_ent p (\<lambda>e. e\<lparr>vme_object := object, vme_offset := offset, needs_copy := False\<rparr>) s1))
          }
          else Some (False, s));
       if lost then do {
         s2 \<leftarrow> vm_map_lock_read m s1;
         vm_map_lookup_locked env m vaddr access s2
       }
       else do {
         let out_prot = (if needs_copy (ent s p) \<and> \<not> copy then prot AND NOT VM_PROT_WRITE else prot);
         (lost, s2) \<leftarrow>
           (if vme_object (ent s1 p) = VM_OBJECT_NULL then do {
              let (failed, s2) = vm_map_lock_read_to_write env m s1;
              if failed then Some (True, s2)
              else Some (False, vm_map_lock_write_to_read m
                (upd_ent p (\<lambda>e. e\<lparr>vme_object := object_allocate env (vme_end e - vme_start e) s2, vme_offset := 0\<rparr>) s2))
            }
            else Some (False, s1));
         if lost then do {
           s3 \<leftarrow> vm_map_lock_read m s2;
           vm_map_lookup_locked env m vaddr access s3
         }
         else
           let e = ent s2 p
           in Some (KERN_SUCCESS, m, Some \<lparr>fi_object = vme_object e, fi_offset = (vaddr - vme_start e) + vme_offset e,
                fi_prot = out_prot, fi_wired = wired, fi_behavior = behavior e, fi_lo_offset = vme_offset e,
                fi_hi_offset = (vme_end e - vme_start e) + vme_offset e, fi_version = timestamp (vs_maps s2 m)\<rparr>, s2)
       }
     }
   }"

declare vm_map_lookup_locked.simps [code]

definition vm_map_verify :: "link \<Rightarrow> 32 word \<Rightarrow> vm_state \<Rightarrow> (bool \<times> vm_state) option" where
  "vm_map_verify m version s = do {
     s1 \<leftarrow> vm_map_lock_read m s;
     if timestamp (vs_maps s1 m) = version then Some (True, s1)
     else do { s2 \<leftarrow> vm_map_unlock_read m s1; Some (False, s2) }
   }"

record vm_region_basic_info =
  rb_protection :: "3 word"
  rb_max_protection :: "3 word"
  rb_inheritance :: "2 word"
  rb_shared :: bool
  rb_reserved :: bool
  rb_offset :: vm_offset_t
  rb_behavior :: "2 word"
  rb_user_wired_count :: "16 word"

definition VM_REGION_BASIC_INFO :: "32 word" where
  "VM_REGION_BASIC_INFO = 10"

definition VM_REGION_BASIC_INFO_COUNT :: "32 word" where
  "VM_REGION_BASIC_INFO_COUNT = 8"

definition vm_region ::
  "link \<Rightarrow> vm_offset_t \<Rightarrow> 32 word \<Rightarrow> 32 word \<Rightarrow> vm_state \<Rightarrow>
   (kern_return_t \<times> (vm_offset_t \<times> vm_size_t \<times> vm_region_basic_info) option \<times> vm_state) option" where
  "vm_region m address flavor count s =
     (if m = 0 then Some (KERN_INVALID_ARGUMENT, None, s)
      else if flavor \<noteq> VM_REGION_BASIC_INFO \<or> count < VM_REGION_BASIC_INFO_COUNT then Some (KERN_INVALID_ARGUMENT, None, s)
      else do {
        s1 \<leftarrow> vm_map_lock_read m s;
        (found, tmp_entry, s2) \<leftarrow> vm_map_lookup_entry m address s1;
        let p = (if found then tmp_entry else vme_next (ent s2 tmp_entry));
        let e = ent s2 p;
        s3 \<leftarrow> vm_map_unlock_read m s2;
        if \<not> found \<and> p = vm_map_to_entry m s2 then Some (KERN_INVALID_ADDRESS, None, s3)
        else Some (KERN_SUCCESS, Some (vme_start e, vme_end e - vme_start e,
          \<lparr>rb_protection = protection e, rb_max_protection = max_protection e, rb_inheritance = inheritance e,
           rb_shared = (\<not> is_sub_map e \<and> is_shared e), rb_reserved = False, rb_offset = vme_offset e, rb_behavior = behavior e,
           rb_user_wired_count = user_wired_count e\<rparr>), s3)
      })"

section \<open>Simplification\<close>

text \<open>The conditions under which two neighbours are the same mapping, without those on sharing and submaps.\<close>

definition same_mapping :: "vm_map_entry \<Rightarrow> vm_map_entry \<Rightarrow> bool" where
  "same_mapping a b \<longleftrightarrow> vme_end a = vme_start b \<and> inheritance a = inheritance b \<and> protection a = protection b \<and>
     max_protection a = max_protection b \<and> behavior a = behavior b \<and> wired_count a = wired_count b \<and>
     user_wired_count a = user_wired_count b \<and> \<not> in_transition a \<and> \<not> in_transition b \<and> needs_copy a = needs_copy b \<and>
     vme_object a = vme_object b \<and> vme_offset a + (vme_end a - vme_start a) = vme_offset b"

text \<open>Merging \<open>q\<close> into its predecessor \<open>p\<close>.\<close>

definition merge_entries :: "link \<Rightarrow> link \<Rightarrow> link \<Rightarrow> vm_state \<Rightarrow> vm_state option" where
  "merge_entries m p q s = do {
     s1 \<leftarrow> vm_map_entry_unlink m q s;
     let s2 = upd_ent p (vme_end_update (\<lambda>_. vme_end (ent s1 q))) s1;
     s3 \<leftarrow> UPDATE_FIRST_FREE m (first_free (vs_maps s2 m)) s2;
     Some (vm_map_entry_dispose q (vm_object_deallocate (vme_object (ent s3 q)) s3))
   }"

definition simplify_lower :: "link \<Rightarrow> vm_offset_t \<Rightarrow> vm_state \<Rightarrow> vm_state option" where
  "simplify_lower m start s = do {
     (found, this, s1) \<leftarrow> vm_map_lookup_entry m start s;
     let prev = vme_prev (ent s1 this);
     if found \<and> prev \<noteq> vm_map_to_entry m s1 \<and> same_mapping (ent s1 prev) (ent s1 this) \<and>
        \<not> is_shared (ent s1 prev) \<and> \<not> is_sub_map (ent s1 prev) \<and> \<not> is_shared (ent s1 this) \<and> \<not> is_sub_map (ent s1 this)
     then merge_entries m prev this (SAVE_HINT m prev s1) else Some s1
   }"

definition simplify_upper :: "link \<Rightarrow> vm_offset_t \<Rightarrow> vm_state \<Rightarrow> vm_state option" where
  "simplify_upper m start s = do {
     (found, this, s1) \<leftarrow> vm_map_lookup_entry m start s;
     let next = vme_next (ent s1 this);
     if found \<and> next \<noteq> vm_map_to_entry m s1 \<and> same_mapping (ent s1 this) (ent s1 next) \<and>
        \<not> is_shared (ent s1 next) \<and> \<not> is_sub_map (ent s1 next)
     then merge_entries m this next s1 else Some s1
   }"

definition vm_map_simplify :: "link \<Rightarrow> vm_offset_t \<Rightarrow> vm_state \<Rightarrow> vm_state option" where
  "vm_map_simplify m start s = do {
     s1 \<leftarrow> vm_map_lock m s;
     s2 \<leftarrow> simplify_lower m start s1;
     s3 \<leftarrow> simplify_upper m start s2;
     vm_map_unlock m s3
   }"

section \<open>Machine attributes\<close>

text \<open>\<open>pmap_attribute\<close> is the machine-dependent part, with the value that it sets.\<close>

definition vm_map_machine_attribute ::
  "(link \<Rightarrow> vm_offset_t \<Rightarrow> vm_size_t \<Rightarrow> 'a \<Rightarrow> 'v \<Rightarrow> kern_return_t \<times> 'v) \<Rightarrow> link \<Rightarrow> vm_offset_t \<Rightarrow> vm_size_t \<Rightarrow> 'a \<Rightarrow> 'v \<Rightarrow> vm_state \<Rightarrow>
   (kern_return_t \<times> 'v \<times> vm_state) option" where
  "vm_map_machine_attribute pmap_attribute m address size' attribute v s =
     (if address < vm_map_min m s \<or> vm_map_max m s < address + size' then Some (KERN_INVALID_ADDRESS, v, s)
      else do {
        s1 \<leftarrow> vm_map_lock m s;
        let (ret, v') = pmap_attribute (map_pmap (vs_maps s1 m)) address size' attribute v;
        s2 \<leftarrow> vm_map_unlock m s1;
        Some (ret, v', s2)
      })"

end
