(* ===== verification/Vm_Map_Ok.thy ===== *)
theory Vm_Map_Ok
  imports Vm_Map
begin

text \<open>
  The invariant of an address map and what it denotes: the list of entries behind the pointers is
  sorted and without overlaps, the hints are right, and an address is mapped by at most one entry.
\<close>

section \<open>Updates of the state\<close>

lemma upd_ent_simps [simp]:
  "vs_heap (upd_ent p f s) = (vs_heap s)(p := f (vs_heap s p))" "vs_maps (upd_ent p f s) = vs_maps s"
  "vs_zone (upd_ent p f s) = vs_zone s" "vs_log (upd_ent p f s) = vs_log s"
  by (simp_all add: upd_ent_def)

lemma upd_map_simps [simp]:
  "vs_maps (upd_map m g s) = (vs_maps s)(m := g (vs_maps s m))" "vs_heap (upd_map m g s) = vs_heap s"
  "vs_zone (upd_map m g s) = vs_zone s" "vs_log (upd_map m g s) = vs_log s"
  by (simp_all add: upd_map_def)

lemma vm_emit_simps [simp]:
  "vs_maps (vm_emit es s) = vs_maps s" "vs_heap (vm_emit es s) = vs_heap s"
  "vs_zone (vm_emit es s) = vs_zone s" "vs_log (vm_emit es s) = vs_log s @ es"
  by (simp_all add: vm_emit_def)

declare vm_map_to_entry_def [simp] vm_map_first_entry_def [simp] vm_map_min_def [simp] vm_map_max_def [simp]

text \<open>An entry without its links.\<close>

definition core :: "vm_map_entry \<Rightarrow> vm_map_entry" where
  "core e = e\<lparr>vme_prev := 0, vme_next := 0\<rparr>"

definition cores :: "vm_state \<Rightarrow> link \<Rightarrow> vm_map_entry" where
  "cores s p = core (ent s p)"

lemma core_simps [simp]:
  "vme_start (core e) = vme_start e" "vme_end (core e) = vme_end e" "vme_object (core e) = vme_object e" "vme_offset (core e) = vme_offset e"
  "core (core e) = core e" "core (e\<lparr>vme_prev := p\<rparr>) = core e" "core (e\<lparr>vme_next := p\<rparr>) = core e"
  by (simp_all add: core_def)

lemma cores_bounds [simp]: "vme_start (cores s p) = vme_start (ent s p)" "vme_end (cores s p) = vme_end (ent s p)"
  by (simp_all add: cores_def)

lemma cores_upd [simp]:
  "cores (upd_ent p f s) = (cores s)(p := core (f (ent s p)))" "cores (upd_map m g s) = cores s" "cores (vm_emit es s) = cores s"
  "cores (s\<lparr>vs_zone := z\<rparr>) = cores s"
  by (auto simp: cores_def fun_eq_iff)

lemma cores_same [simp]: "(cores s)(p := core (ent s p)) = cores s"
  by (auto simp: cores_def)

section \<open>The list behind the pointers\<close>

definition entry_links :: "vm_state \<Rightarrow> link_heap" where
  "entry_links s = \<lparr>lh_next = (\<lambda>p. vme_next (ent s p)), lh_prev = (\<lambda>p. vme_prev (ent s p))\<rparr>"

lemma entry_links_simps [simp]:
  "lh_next (entry_links s) p = vme_next (ent s p)" "lh_prev (entry_links s) p = vme_prev (ent s p)"
  by (simp_all add: entry_links_def)

abbreviation hdr_of :: "link \<Rightarrow> vm_state \<Rightarrow> link" where
  "hdr_of m s \<equiv> map_links (vs_maps s m)"

definition entries :: "link \<Rightarrow> vm_state \<Rightarrow> link list \<Rightarrow> bool" where
  "entries m s xs \<longleftrightarrow> distinct (hdr_of m s # xs) \<and> linked (entry_links s) (hdr_of m s # xs @ [hdr_of m s])"

lemma linked_nextD: "linked h (as @ p # q # bs) \<Longrightarrow> lh_next h p = q \<and> lh_prev h q = p"
  by (induction as rule: induct_list012) auto

lemma entries_next:
  "entries m s (as @ p # bs) \<Longrightarrow> vme_next (ent s p) = hd (bs @ [hdr_of m s])"
  using linked_nextD [of "entry_links s" "hdr_of m s # as" p "hd (bs @ [hdr_of m s])" "tl (bs @ [hdr_of m s])"]
  by (cases bs) (auto simp: entries_def)

lemma entries_prev:
  "entries m s (as @ p # bs) \<Longrightarrow> vme_prev (ent s p) = last (hdr_of m s # as)"
  using linked_nextD [of "entry_links s" "[]" "hdr_of m s" p "bs @ [hdr_of m s]"]
    linked_nextD [of "entry_links s" "hdr_of m s # butlast as" "last as" p "bs @ [hdr_of m s]"]
  by (cases as rule: rev_cases) (simp_all add: entries_def)

lemma entries_first: "entries m s xs \<Longrightarrow> vme_next (ent s (hdr_of m s)) = hd (xs @ [hdr_of m s])"
  using linked_nextD [of "entry_links s" "[]" "hdr_of m s" "hd (xs @ [hdr_of m s])" "tl (xs @ [hdr_of m s])"]
  by (cases xs) (auto simp: entries_def)

lemma entries_last: "entries m s xs \<Longrightarrow> vme_prev (ent s (hdr_of m s)) = last (hdr_of m s # xs)"
  using linked_nextD [of "entry_links s" "hdr_of m s # butlast xs" "last xs" "hdr_of m s" "[]"]
  by (cases xs rule: rev_cases) (simp_all add: entries_def)

section \<open>Regions\<close>

fun regions_ok :: "vm_offset_t \<Rightarrow> vm_offset_t \<Rightarrow> vm_map_entry list \<Rightarrow> bool" where
  "regions_ok lo hi [] \<longleftrightarrow> lo \<le> hi"
| "regions_ok lo hi (e # es) \<longleftrightarrow> lo \<le> vme_start e \<and> vme_start e < vme_end e \<and> regions_ok (vme_end e) hi es"

lemma regions_ok_le: "regions_ok lo hi es \<Longrightarrow> lo \<le> hi"
  by (induction es arbitrary: lo) fastforce+

lemma regions_ok_append:
  "regions_ok lo hi (as @ e # bs) \<longleftrightarrow> regions_ok lo (vme_start e) as \<and> vme_start e < vme_end e \<and> regions_ok (vme_end e) hi bs"
  by (induction as arbitrary: lo) auto

lemma regions_ok_mono: "regions_ok lo hi es \<Longrightarrow> lo' \<le> lo \<Longrightarrow> hi \<le> hi' \<Longrightarrow> regions_ok lo' hi' es"
  by (induction es arbitrary: lo lo') (auto intro: order_trans)

lemma regions_ok_bounds:
  "regions_ok lo hi es \<Longrightarrow> e \<in> set es \<Longrightarrow> lo \<le> vme_start e \<and> vme_start e < vme_end e \<and> vme_end e \<le> hi"
proof (induction es arbitrary: lo)
  case (Cons x es)
  then show ?case using regions_ok_le [of "vme_end x" hi es] by (fastforce intro: order_trans)
qed simp

definition has_address :: "vm_offset_t \<Rightarrow> vm_map_entry \<Rightarrow> bool" where
  "has_address a e \<longleftrightarrow> vme_start e \<le> a \<and> a < vme_end e"

text \<open>What an address sees of its entry: everything but the links and the bounds, and the offset of the
  address itself in the object.\<close>

definition region_view :: "vm_offset_t \<Rightarrow> vm_map_entry \<Rightarrow> vm_map_entry" where
  "region_view a e = e\<lparr>vme_prev := 0, vme_next := 0, vme_start := 0, vme_end := 0, vme_offset := vme_offset e + (a - vme_start e)\<rparr>"

definition mapped :: "vm_map_entry list \<Rightarrow> vm_offset_t \<Rightarrow> vm_map_entry option" where
  "mapped es a = map_option (region_view a) (find (has_address a) es)"

lemma mapped_Nil [simp]: "mapped [] a = None"
  by (simp add: mapped_def)

lemma mapped_Cons: "mapped (e # es) a = (if has_address a e then Some (region_view a e) else mapped es a)"
  by (simp add: mapped_def)

lemma mapped_append: "mapped (as @ bs) a = (case mapped as a of None \<Rightarrow> mapped bs a | Some v \<Rightarrow> Some v)"
  by (induction as) (auto simp: mapped_Cons)

lemma mapped_outside: "regions_ok lo hi es \<Longrightarrow> a < lo \<or> hi \<le> a \<Longrightarrow> mapped es a = None"
proof (induction es arbitrary: lo)
  case (Cons e es)
  then show ?case using regions_ok_le [of "vme_end e" hi es] by (fastforce simp: mapped_Cons has_address_def)
qed simp

lemma mapped_None_iff: "mapped es a = None \<longleftrightarrow> (\<forall>e \<in> set es. \<not> has_address a e)"
  by (induction es) (auto simp: mapped_Cons)

section \<open>The invariant\<close>

text \<open>The entry before the first hole above \<open>lo\<close>.\<close>

fun hole_before :: "(link \<Rightarrow> vm_map_entry) \<Rightarrow> vm_offset_t \<Rightarrow> link \<Rightarrow> link list \<Rightarrow> link" where
  "hole_before h lo p [] = p"
| "hole_before h lo p (x # xs) = (if vme_start (h x) = lo then hole_before h (vme_end (h x)) x xs else p)"

definition regions :: "vm_state \<Rightarrow> link list \<Rightarrow> vm_map_entry list" where
  "regions s xs = map (cores s) xs"

text \<open>What the search for the first hole relies on.\<close>

definition map_shape :: "link \<Rightarrow> vm_state \<Rightarrow> link list \<Rightarrow> bool" where
  "map_shape m s xs \<longleftrightarrow> entries m s xs \<and> regions_ok (vm_map_min m s) (vm_map_max m s) (regions s xs) \<and>
     (\<forall>p \<in> set (hdr_of m s # xs). page_aligned (vme_start (ent s p)) \<and> page_aligned (vme_end (ent s p)))"

definition map_inv :: "link \<Rightarrow> vm_state \<Rightarrow> link list \<Rightarrow> bool" where
  "map_inv m s xs \<longleftrightarrow> entries m s xs \<and> regions_ok (vm_map_min m s) (vm_map_max m s) (regions s xs) \<and>
     hint (vs_maps s m) \<in> set (hdr_of m s # xs) \<and>
     (\<forall>p \<in> set (hdr_of m s # xs). page_aligned (vme_start (ent s p)) \<and> page_aligned (vme_end (ent s p))) \<and>
     nentries (vs_maps s m) = of_nat (length xs) \<and>
     map_size (vs_maps s m) = sum_list (map (\<lambda>e. vme_end e - vme_start e) (regions s xs)) \<and>
     distinct (vs_zone s) \<and> set (vs_zone s) \<inter> set (hdr_of m s # xs) = {}"

lemma map_inv_shape: "map_inv m s xs \<Longrightarrow> map_shape m s xs"
  by (simp add: map_inv_def map_shape_def)

definition map_ok :: "link \<Rightarrow> vm_state \<Rightarrow> link list \<Rightarrow> bool" where
  "map_ok m s xs \<longleftrightarrow> map_inv m s xs \<and> first_free (vs_maps s m) = hole_before (cores s) (vm_map_min m s) (hdr_of m s) xs"

section \<open>Lookup\<close>

lemma search_entry_walk:
  assumes "linked (entry_links s) (cs @ [stop])" "stop \<notin> set cs"
  shows "search_entry s a stop (hd (cs @ [stop])) =
    Some (case find (\<lambda>p. a < vme_end (ent s p)) cs of None \<Rightarrow> (False, stop) | Some p \<Rightarrow> (vme_start (ent s p) \<le> a, p))"
  using assms
proof (induction cs)
  case (Cons c cs)
  then have "vme_next (ent s c) = hd (cs @ [stop])" "linked (entry_links s) (cs @ [stop])" by (cases cs; simp)+
  with Cons show ?case by (subst search_entry.simps) auto
qed (subst search_entry.simps, simp)

definition lookup_spec :: "link \<Rightarrow> vm_state \<Rightarrow> link list \<Rightarrow> vm_offset_t \<Rightarrow> bool \<times> link" where
  "lookup_spec m s xs a =
     (case dropWhile (\<lambda>p. vme_end (ent s p) \<le> a) xs of
        p # _ \<Rightarrow> if vme_start (ent s p) \<le> a then (True, p) else (False, last (hdr_of m s # takeWhile (\<lambda>p. vme_end (ent s p) \<le> a) xs))
      | [] \<Rightarrow> (False, last (hdr_of m s # xs)))"

lemma find_dropWhile: "find P xs = (case dropWhile (\<lambda>x. \<not> P x) xs of [] \<Rightarrow> None | x # _ \<Rightarrow> Some x)"
  by (induction xs) auto

lemma search_is_spec:
  assumes "entries m s xs" "find (\<lambda>p. a < vme_end (ent s p)) xs = r"
  shows "(case r of None \<Rightarrow> (False, vme_prev (ent s (hdr_of m s))) | Some p \<Rightarrow> (if vme_start (ent s p) \<le> a then (True, p) else (False, vme_prev (ent s p)))) =
    lookup_spec m s xs a"
proof (cases "dropWhile (\<lambda>p. vme_end (ent s p) \<le> a) xs")
  case Nil
  then have "r = None" unfolding assms(2) [symmetric] find_None_iff by (simp add: not_less)
  with Nil show ?thesis using entries_last [OF assms(1)] unfolding lookup_spec_def Nil by simp
next
  case (Cons p bs)
  then have "xs = takeWhile (\<lambda>p. vme_end (ent s p) \<le> a) xs @ p # bs" by (metis takeWhile_dropWhile_id)
  with entries_prev [of m s "takeWhile (\<lambda>p. vme_end (ent s p) \<le> a) xs" p bs] assms Cons show ?thesis
    by (auto simp: lookup_spec_def find_dropWhile not_less)
qed


lemma linked_suffix: "linked h (as @ bs) \<Longrightarrow> linked h bs"
  by (induction as rule: induct_list012) (auto, cases bs, auto)

lemma linked_prefix: "linked h (as @ bs) \<Longrightarrow> linked h as"
  by (induction as rule: induct_list012) auto

lemma ends_before: "regions_ok lo hi (regions s as) \<Longrightarrow> hi \<le> a \<Longrightarrow> q \<in> set as \<Longrightarrow> vme_end (ent s q) \<le> a"
  using regions_ok_bounds [of lo hi "regions s as" "cores s q"] by (auto simp: regions_def intro: order_trans)

lemma search_from:
  assumes "entries m s (as @ p # bs)" "regions_ok lo (vme_start (ent s p)) (regions s as)" "vme_start (ent s p) \<le> a"
  shows "search_entry s a (hdr_of m s) p = Some (case find (\<lambda>p. a < vme_end (ent s p)) (as @ p # bs) of None \<Rightarrow> (False, hdr_of m s)
    | Some p \<Rightarrow> (vme_start (ent s p) \<le> a, p))"
proof -
  have "\<forall>q \<in> set as. vme_end (ent s q) \<le> a" using ends_before assms(2,3) by blast
  then have "find (\<lambda>p. a < vme_end (ent s p)) (as @ p # bs) = find (\<lambda>p. a < vme_end (ent s p)) (p # bs)"
    by (induction as) (auto simp: not_less)
  moreover have "linked (entry_links s) ((p # bs) @ [hdr_of m s])" "hdr_of m s \<notin> set (p # bs)"
    using assms(1) linked_suffix [of _ "hdr_of m s # as" "p # bs @ [hdr_of m s]"] by (auto simp: entries_def)
  ultimately show ?thesis using search_entry_walk [of s "p # bs" "hdr_of m s" a] by simp
qed

lemma search_upto:
  assumes "entries m s (as @ p # bs)" "vme_start (ent s p) < vme_end (ent s p)" "a < vme_start (ent s p)"
  shows "search_entry s a (vme_next (ent s p)) (vme_next (ent s (hdr_of m s))) =
    Some (case find (\<lambda>p. a < vme_end (ent s p)) (as @ p # bs) of None \<Rightarrow> (False, hdr_of m s) | Some p \<Rightarrow> (vme_start (ent s p) \<le> a, p))"
proof -
  define stop where "stop = hd (bs @ [hdr_of m s])"
  have "find (\<lambda>p. a < vme_end (ent s p)) (as @ p # bs) = find (\<lambda>p. a < vme_end (ent s p)) (as @ [p])"
    using assms(2,3) by (induction as) auto
  moreover have "find (\<lambda>p. a < vme_end (ent s p)) (as @ [p]) \<noteq> None" using assms(2,3) by (auto simp: find_None_iff)
  moreover have "linked (entry_links s) ((as @ [p]) @ [stop])"
    using assms(1) linked_prefix [of _ "as @ [p, stop]" "tl (bs @ [hdr_of m s])"] linked_suffix [of _ "[hdr_of m s]" "as @ p # bs @ [hdr_of m s]"]
    by (cases bs) (simp_all add: entries_def stop_def)
  moreover have "stop \<notin> set (as @ [p])" using assms(1) by (cases bs) (auto simp: entries_def stop_def)
  moreover have "hd ((as @ [p]) @ [stop]) = vme_next (ent s (hdr_of m s))" using entries_first [OF assms(1)] by (cases as) auto
  ultimately show ?thesis using search_entry_walk [of s "as @ [p]" stop a] entries_next [OF assms(1)] by (auto simp: stop_def)
qed

lemma lookup_spec_in: "snd (lookup_spec m s xs a) \<in> set (hdr_of m s # xs)"
proof (cases "dropWhile (\<lambda>p. vme_end (ent s p) \<le> a) xs")
  case Nil
  then show ?thesis unfolding lookup_spec_def Nil using last_in_set [of "hdr_of m s # xs"] by simp
next
  case (Cons p bs)
  have "p \<in> set xs" using set_dropWhileD [of p "\<lambda>p. vme_end (ent s p) \<le> a" xs] Cons by simp
  moreover have "last (hdr_of m s # takeWhile (\<lambda>p. vme_end (ent s p) \<le> a) xs) \<in> set (hdr_of m s # xs)"
    using last_in_set [of "hdr_of m s # takeWhile (\<lambda>p. vme_end (ent s p) \<le> a) xs"] set_takeWhileD [of _ "\<lambda>p. vme_end (ent s p) \<le> a" xs]
    by (metis list.distinct(1) set_ConsD list.set_intros)
  ultimately show ?thesis unfolding lookup_spec_def Cons by simp
qed

lemma lookup_entry_exact:
  assumes ok: "entries m s xs" "regions_ok lo hi (regions s xs)" "hint (vs_maps s m) \<in> set (hdr_of m s # xs)"
  shows "\<exists>h. vm_map_lookup_entry m a s = (case lookup_spec m s xs a of (found, p) \<Rightarrow> Some (found, p, SAVE_HINT m h s)) \<and>
    h \<in> set (hdr_of m s # xs)"
proof -
  let ?H = "hdr_of m s"
  define cur where "cur = (if hint (vs_maps s m) = ?H then vme_next (ent s (hint (vs_maps s m))) else hint (vs_maps s m))"
  define search where "search = (if vme_start (ent s cur) \<le> a then search_entry s a ?H cur else search_entry s a (vme_next (ent s cur)) (vme_next (ent s ?H)))"
  have same: "SAVE_HINT m (hint (vs_maps s m)) s = s" by (simp add: SAVE_HINT_def upd_map_def)
  have in_map: "cur \<in> set xs \<or> xs = [] \<and> cur = ?H" using ok(3) entries_first [OF ok(1)] by (cases xs) (auto simp: cur_def)
  have result: "vm_map_lookup_entry m a s =
      (if vme_start (ent s cur) \<le> a \<and> cur \<noteq> ?H \<and> a < vme_end (ent s cur) then Some (True, cur, s)
       else case search of None \<Rightarrow> None | Some (found, p) \<Rightarrow> let e = (if found then p else vme_prev (ent s p)) in Some (found, e, SAVE_HINT m e s))"
    by (auto simp: vm_map_lookup_entry_def cur_def search_def vm_map_to_entry_def vm_map_first_entry_def Let_def split: option.splits)
  have search: "search = Some (case find (\<lambda>p. a < vme_end (ent s p)) xs of None \<Rightarrow> (False, ?H) | Some p \<Rightarrow> (vme_start (ent s p) \<le> a, p))"
  proof (cases "xs = []")
    case True
    then show ?thesis using in_map entries_first [OF ok(1)] search_entry.simps [of s a ?H ?H] by (auto simp: search_def)
  next
    case False
    with in_map obtain as bs where xs: "xs = as @ cur # bs" by (metis split_list)
    with ok(2) show ?thesis using search_from [of m s as cur bs lo a] search_upto [of m s as cur bs a] ok(1)
      by (auto simp: search_def regions_def regions_ok_append not_le)
  qed
  note in_range = lookup_spec_in [of m s xs a]
  note spec = search_is_spec [OF ok(1) refl, of a, symmetric]
  show ?thesis
  proof (cases "vme_start (ent s cur) \<le> a \<and> cur \<noteq> ?H \<and> a < vme_end (ent s cur)")
    case True
    with in_map obtain as bs where xs: "xs = as @ cur # bs" by (metis split_list)
    have "regions_ok lo (vme_start (ent s cur)) (regions s as)" using ok(2) by (simp add: xs regions_def regions_ok_append)
    then have "\<forall>q \<in> set as. vme_end (ent s q) \<le> a" using ends_before True by blast
    moreover have "\<not> vme_end (ent s cur) \<le> a" using True by auto
    ultimately have "lookup_spec m s xs a = (True, cur)" using True by (simp add: xs lookup_spec_def dropWhile_append2)
    with True same ok(3) result show ?thesis by (intro exI [of _ "hint (vs_maps s m)"]) simp
  next
    case False
    with result search have "vm_map_lookup_entry m a s = (case lookup_spec m s xs a of (found, p) \<Rightarrow> Some (found, p, SAVE_HINT m p s))"
      unfolding spec by (auto simp: Let_def split: option.splits)
    with in_range show ?thesis by (intro exI [of _ "snd (lookup_spec m s xs a)"]) (simp add: split_beta)
  qed
qed


lemma lookup_spec_cases:
  assumes "regions_ok lo hi (regions s xs)"
  obtains (found) as p bs where "xs = as @ p # bs" "has_address a (ent s p)" "lookup_spec m s xs a = (True, p)"
  | (hole) as bs where "xs = as @ bs" "\<And>q. q \<in> set as \<Longrightarrow> vme_end (ent s q) \<le> a" "\<And>q. q \<in> set bs \<Longrightarrow> a < vme_start (ent s q)"
      "lookup_spec m s xs a = (False, last (hdr_of m s # as))"
proof -
  let ?P = "\<lambda>p. vme_end (ent s p) \<le> a"
  let ?as = "takeWhile ?P xs"
  have before: "\<And>q. q \<in> set ?as \<Longrightarrow> vme_end (ent s q) \<le> a" using set_takeWhileD by force
  show thesis
  proof (cases "dropWhile ?P xs")
    case Nil
    then have "\<forall>q \<in> set xs. vme_end (ent s q) \<le> a" by simp
    moreover have "lookup_spec m s xs a = (False, last (hdr_of m s # xs))" unfolding lookup_spec_def Nil by simp
    ultimately show thesis by (intro hole [of xs "[]"]) auto
  next
    case (Cons p bs)
    then have xs: "xs = ?as @ p # bs" by (metis takeWhile_dropWhile_id)
    have p: "a < vme_end (ent s p)" using Cons by (metis dropWhile_eq_Cons_conv not_le)
    show thesis
    proof (cases "vme_start (ent s p) \<le> a")
      case True
      then have "lookup_spec m s xs a = (True, p)" unfolding lookup_spec_def Cons by simp
      with xs p True show thesis by (intro found [of ?as p bs]) (auto simp: has_address_def)
    next
      case False
      then have spec: "lookup_spec m s xs a = (False, last (hdr_of m s # ?as))" unfolding lookup_spec_def Cons by simp
      have "regions_ok lo hi (regions s (?as @ p # bs))" using assms xs by simp
      then have "regions_ok (vme_start (ent s p)) hi (regions s (p # bs))" by (simp add: regions_def regions_ok_append)
      then have "vme_start (ent s p) \<le> vme_start (ent s q)" if "q \<in> set (p # bs)" for q
        using regions_ok_bounds [of "vme_start (ent s p)" hi "regions s (p # bs)" "cores s q"] that by (auto simp: regions_def)
      with False have "\<And>q. q \<in> set (p # bs) \<Longrightarrow> a < vme_start (ent s q)" by (metis not_le order_trans)
      with spec before xs show thesis by (intro hole [of ?as "p # bs"]) auto
    qed
  qed
qed


section \<open>The first hole\<close>

fun contiguous_from :: "(link \<Rightarrow> vm_map_entry) \<Rightarrow> vm_offset_t \<Rightarrow> link list \<Rightarrow> bool" where
  "contiguous_from h lo [] \<longleftrightarrow> True"
| "contiguous_from h lo (x # xs) \<longleftrightarrow> vme_start (h x) = lo \<and> contiguous_from h (vme_end (h x)) xs"

text \<open>From the entry \<open>p\<close> the search for the first hole finds the right one.\<close>

definition before_hole :: "(link \<Rightarrow> vm_map_entry) \<Rightarrow> vm_offset_t \<Rightarrow> link \<Rightarrow> link list \<Rightarrow> link \<Rightarrow> bool" where
  "before_hole h lo hdr xs p \<longleftrightarrow> p = hdr \<or> (\<exists>as bs. xs = as @ p # bs \<and> contiguous_from h lo (as @ [p]))"

lemma hole_before_append: "contiguous_from h lo (as @ [p]) \<Longrightarrow> hole_before h lo q (as @ p # bs) = hole_before h (vme_end (h p)) p bs"
  by (induction as arbitrary: lo q) auto

lemma before_hole_hole_before: "before_hole h lo hdr xs (hole_before h lo hdr xs)"
proof (induction xs arbitrary: lo hdr)
  case (Cons x xs)
  show ?case
  proof (cases "vme_start (h x) = lo")
    case True
    from Cons.IH [of "vme_end (h x)" x] consider "hole_before h (vme_end (h x)) x xs = x"
      | as bs where "xs = as @ hole_before h (vme_end (h x)) x xs # bs" "contiguous_from h (vme_end (h x)) (as @ [hole_before h (vme_end (h x)) x xs])"
      by (auto simp: before_hole_def)
    then show ?thesis
    proof cases
      case 1
      with True show ?thesis by (auto simp: before_hole_def intro: exI [of _ "[]"])
    next
      case 2
      with True show ?thesis unfolding before_hole_def by (intro disjI2 exI [of _ "x # as"] exI [of _ bs]) simp
    qed
  qed (simp add: before_hole_def)
qed (simp add: before_hole_def)

lemma and_not_aligned: "(x :: 32 word) AND msk = 0 \<Longrightarrow> x AND NOT msk = x"
proof -
  have "(x AND msk) OR (x AND NOT msk) = x" by (simp add: bit.conj_disj_distrib [symmetric])
  then show "x AND msk = 0 \<Longrightarrow> x AND NOT msk = x" by simp
qed

lemma aligned_trunc: "page_aligned x \<Longrightarrow> trunc_page x = x"
  unfolding page_aligned_def trunc_page_def by (rule and_not_aligned)

lemma first_free_walk:
  assumes "linked (entry_links s) (p # vs @ [hdr])" "hdr \<notin> set (p # vs)" "regions_ok (vme_end (ent s p)) hi (map (cores s) vs)"
    and "vme_start (ent s hdr) \<le> vme_start (ent s p)" "vme_start (ent s p) < vme_end (ent s p)"
    and "\<forall>q \<in> set (hdr # p # vs). page_aligned (vme_start (ent s q)) \<and> page_aligned (vme_end (ent s q))"
  shows "first_free_loop s hdr p = Some (hole_before (cores s) (vme_end (ent s p)) p vs)"
  using assms
proof (induction vs arbitrary: p)
  case Nil
  then have "vme_next (ent s p) = hdr" "vme_start (ent s hdr) \<noteq> vme_end (ent s p)" by auto
  with Nil show ?case by (subst first_free_loop.simps) (simp add: aligned_trunc Let_def)
next
  case (Cons v vs)
  then have n: "vme_next (ent s p) = v" "v \<noteq> hdr" "vme_end (ent s p) \<le> vme_start (ent s v)" "vme_start (ent s v) \<noteq> vme_start (ent s p)" by auto
  have "vme_start (ent s hdr) \<le> vme_start (ent s v)" using Cons.prems n(3) by auto
  with Cons have "first_free_loop s hdr v = Some (hole_before (cores s) (vme_end (ent s v)) v vs)" by auto
  with n Cons.prems show ?case by (subst first_free_loop.simps) (simp add: aligned_trunc Let_def)
qed

lemma first_free_from:
  assumes inv: "map_shape m s xs" and p: "before_hole (cores s) (vm_map_min m s) (hdr_of m s) xs p"
  shows "first_free_loop s (hdr_of m s) p = Some (hole_before (cores s) (vm_map_min m s) (hdr_of m s) xs)"
proof -
  let ?H = "hdr_of m s"
  have inv': "entries m s xs" "regions_ok (vme_start (ent s ?H)) (vme_end (ent s ?H)) (map (cores s) xs)"
    and al: "\<forall>q \<in> set (?H # xs). page_aligned (vme_start (ent s q)) \<and> page_aligned (vme_end (ent s q))"
    using inv by (auto simp: map_shape_def regions_def)
  have walk: "first_free_loop s ?H q = Some (hole_before (cores s) (vme_end (ent s q)) q bs)" if xs: "xs = as @ q # bs" for as q bs
  proof (rule first_free_walk)
    show "linked (entry_links s) (q # bs @ [?H])" "?H \<notin> set (q # bs)"
      using inv'(1) linked_suffix [of _ "?H # as" "q # bs @ [?H]"] by (auto simp: entries_def xs)
    show "regions_ok (vme_end (ent s q)) (vme_end (ent s ?H)) (map (cores s) bs)" "vme_start (ent s q) < vme_end (ent s q)"
      "vme_start (ent s ?H) \<le> vme_start (ent s q)"
      using inv'(2) regions_ok_le by (auto simp: xs regions_ok_append)
  qed (use al xs in auto)
  show ?thesis
  proof (cases "p = ?H")
    case False
    with p obtain as bs where "xs = as @ p # bs" "contiguous_from (cores s) (vme_start (ent s ?H)) (as @ [p])" by (auto simp: before_hole_def)
    with walk show ?thesis by (simp add: hole_before_append)
  next
    case True
    show ?thesis
    proof (cases xs)
      case Nil
      with True show ?thesis using entries_first [OF inv'(1)] by (subst first_free_loop.simps) (simp add: Let_def)
    next
      case (Cons x xs')
      have x: "vme_next (ent s ?H) = x" "x \<noteq> ?H" "vme_start (ent s x) \<noteq> vme_end (ent s ?H)"
        using entries_first [OF inv'(1)] inv' regions_ok_le [of "vme_end (ent s x)" "vme_end (ent s ?H)" "map (cores s) xs'"] Cons by (auto simp: entries_def)
      moreover have "page_aligned (vme_start (ent s x))" "page_aligned (vme_start (ent s ?H))" "page_aligned (vme_end (ent s ?H))" using al Cons by auto
      ultimately show ?thesis using True Cons walk [of "[]" x xs'] by (subst first_free_loop.simps) (simp add: aligned_trunc Let_def)
    qed
  qed
qed

text \<open>Setting a hint or the first free entry.\<close>

lemma map_inv_hint: "map_inv m s xs \<Longrightarrow> h \<in> set (hdr_of m s # xs) \<Longrightarrow> map_inv m (SAVE_HINT m h s) xs"
  by (simp add: map_inv_def SAVE_HINT_def entries_def regions_def entry_links_def)

lemma map_inv_first_free: "map_inv m (upd_map m (first_free_update f) s) xs = map_inv m s xs"
  by (simp add: map_inv_def entries_def regions_def entry_links_def)

lemma update_first_free:
  assumes "map_inv m s xs" "before_hole (cores s) (vm_map_min m s) (hdr_of m s) xs p"
  shows "\<exists>s'. UPDATE_FIRST_FREE m p s = Some s' \<and> map_ok m s' xs \<and> s' = upd_map m (first_free_update (\<lambda>_. hole_before (cores s) (vm_map_min m s) (hdr_of m s) xs)) s"
  using first_free_from [OF map_inv_shape [OF assms(1)] assms(2)] assms(1) by (simp add: UPDATE_FIRST_FREE_def map_ok_def map_inv_first_free)

end
