(* ===== verification/Vm_Map_Edit.thy ===== *)
theory Vm_Map_Edit
  imports Vm_Map_Ok
begin

text \<open>
  Entries are put into and taken out of an address map: linking, unlinking, clipping and merging keep
  the invariant, and clipping and merging change nothing that an address sees.
\<close>

section \<open>Linking and unlinking\<close>

lemma link_after_simps [simp]:
  "cores (link_after m p q s) = cores s" "vs_zone (link_after m p q s) = vs_zone s" "vs_log (link_after m p q s) = vs_log s"
  "vs_maps (link_after m p q s) = (vs_maps s)(m := (vs_maps s m)\<lparr>nentries := nentries (vs_maps s m) + 1\<rparr>)"
  by (auto simp: link_after_def Let_def cores_def fun_eq_iff)

lemma vme_bounds_cores: "vme_start (ent s p) = vme_start (cores s p)" "vme_end (ent s p) = vme_end (cores s p)"
  by simp_all

lemma linked_insert:
  assumes "linked h (us @ p # n # ws)" "p \<notin> set us" "n \<notin> set (tl (us @ [p]))" "p \<notin> set (butlast (n # ws))" "n \<notin> set ws"
    "q \<notin> set (us @ p # n # ws)"
    and "\<And>x. lh_next h' x = (if x = p then q else if x = q then n else lh_next h x)"
    and "\<And>x. lh_prev h' x = (if x = n then q else if x = q then p else lh_prev h x)"
  shows "linked h' (us @ p # q # n # ws)"
proof -
  have l: "linked h (us @ [p])" "linked h (n # ws)"
    using assms(1) linked_prefix [of h "us @ [p]" "n # ws"] linked_suffix [of h "us @ [p]" "n # ws"] by simp_all
  have "linked h' (us @ [p]) = linked h (us @ [p])"
    using assms(2,3,6-8) list.set_sel(2) [of "us @ [p]"] by (intro linked_cong) (auto split: if_splits)
  moreover have "linked h' (n # ws) = linked h (n # ws)"
    using assms(4-8) in_set_butlastD [of _ "n # ws"] by (intro linked_cong) (auto split: if_splits)
  ultimately show ?thesis using l assms(6-8) linked_append [of h' us p "q # n # ws"] by auto
qed

lemma linked_remove:
  assumes "linked h (us @ p # q # n # ws)" "p \<notin> set us" "n \<notin> set (tl (us @ [p]))" "p \<notin> set (butlast (n # ws))" "n \<notin> set ws"
    and "\<And>x. lh_next h' x = (if x = p then n else lh_next h x)" "\<And>x. lh_prev h' x = (if x = n then p else lh_prev h x)"
  shows "linked h' (us @ p # n # ws)"
proof -
  have l: "linked h (us @ [p])" "linked h (n # ws)"
    using assms(1) linked_prefix [of h "us @ [p]" "q # n # ws"] linked_suffix [of h "us @ [p, q]" "n # ws"] by simp_all
  have "linked h' (us @ [p]) = linked h (us @ [p])" using assms(2,3,6,7) by (intro linked_cong) auto
  moreover have "linked h' (n # ws) = linked h (n # ws)" using assms(4-7) by (intro linked_cong) auto
  ultimately show ?thesis using l assms(6,7) linked_append [of h' us p "n # ws"] by auto
qed

text \<open>The circle of entries cut open between \<open>as\<close> and \<open>bs\<close>.\<close>

lemma circle_cut:
  assumes "distinct (H # as @ bs)"
  obtains us p n ws where "p = last (H # as)"
    "p \<notin> set us" "n \<notin> set (tl (us @ [p]))" "p \<notin> set (butlast (n # ws))" "n \<notin> set ws"
    "H # as @ bs @ [H] = us @ p # n # ws" "H # as @ q # bs @ [H] = us @ p # q # n # ws" "set (us @ p # n # ws) = set (H # as @ bs)"
proof
  let ?us = "butlast (H # as)" and ?p = "last (H # as)" and ?n = "hd (bs @ [H])" and ?ws = "tl (bs @ [H])"
  have up: "H # as = ?us @ [?p]" by simp
  have nw: "bs @ [H] = ?n # ?ws" by (cases bs) simp_all
  have "distinct (?us @ [?p])" using assms unfolding up [symmetric] by simp
  then show "?p \<notin> set ?us" by (simp only: distinct_append) auto
  show "?n \<notin> set (tl (?us @ [?p]))" unfolding up [symmetric] using assms by (cases bs) auto
  have "?p \<in> set (H # as)" using last_in_set by blast
  then show "?p \<notin> set (butlast (?n # ?ws))" unfolding nw [symmetric] using assms by auto
  show "?n \<notin> set ?ws" using assms by (cases bs) auto
  show c: "H # as @ bs @ [H] = ?us @ ?p # ?n # ?ws" using up nw by (metis append.assoc append_Cons append_Nil)
  show "H # as @ q # bs @ [H] = ?us @ ?p # q # ?n # ?ws" using up nw by (metis append.assoc append_Cons append_Nil)
  show "set (?us @ ?p # ?n # ?ws) = set (H # as @ bs)" unfolding c [symmetric] by auto
qed (rule refl)

lemma entries_link:
  assumes e: "entries m s (as @ bs)" and q: "q \<notin> set (hdr_of m s # as @ bs)"
  shows "entries m (link_after m (last (hdr_of m s # as)) q s) (as @ q # bs)"
proof -
  have "distinct (hdr_of m s # as @ bs)" using e by (simp add: entries_def)
  then obtain us p n ws where
    c: "p = last (hdr_of m s # as)" "p \<notin> set us" "n \<notin> set (tl (us @ [p]))" "p \<notin> set (butlast (n # ws))" "n \<notin> set ws"
      "hdr_of m s # as @ bs @ [hdr_of m s] = us @ p # n # ws" "hdr_of m s # as @ q # bs @ [hdr_of m s] = us @ p # q # n # ws"
      "set (us @ p # n # ws) = set (hdr_of m s # as @ bs)" by (rule circle_cut [where q = q])
  have lk: "linked (entry_links s) (us @ p # n # ws)" using e c(6) by (simp add: entries_def)
  have qn: "q \<noteq> p" "q \<noteq> n" "q \<notin> set (us @ p # n # ws)" using q c(8) by auto
  have "vme_next (ent s p) = n" using linked_nextD [OF lk] by simp
  then have "linked (entry_links (link_after m p q s)) (us @ p # q # n # ws)"
    using qn by (intro linked_insert [OF lk c(2-5) qn(3)]) (auto simp: link_after_def Let_def)
  then show ?thesis using e q c(7) unfolding c(1) by (auto simp: entries_def)
qed

lemma unlink_entry_simps [simp]:
  "cores (unlink_entry m q s) = cores s" "vs_zone (unlink_entry m q s) = vs_zone s" "vs_log (unlink_entry m q s) = vs_log s"
  "vs_maps (unlink_entry m q s) = (vs_maps s)(m := (vs_maps s m)\<lparr>nentries := nentries (vs_maps s m) - 1\<rparr>)"
  by (auto simp: unlink_entry_def Let_def cores_def fun_eq_iff)

lemma entries_unlink:
  assumes e: "entries m s (as @ q # bs)"
  shows "entries m (unlink_entry m q s) (as @ bs)"
proof -
  have d: "distinct (hdr_of m s # as @ bs)" "q \<notin> set (hdr_of m s # as @ bs)" using e by (auto simp: entries_def)
  from d(1) obtain us p n ws where
    c: "p = last (hdr_of m s # as)" "p \<notin> set us" "n \<notin> set (tl (us @ [p]))" "p \<notin> set (butlast (n # ws))" "n \<notin> set ws"
      "hdr_of m s # as @ bs @ [hdr_of m s] = us @ p # n # ws" "hdr_of m s # as @ q # bs @ [hdr_of m s] = us @ p # q # n # ws"
      "set (us @ p # n # ws) = set (hdr_of m s # as @ bs)" by (rule circle_cut [where q = q])
  have lk: "linked (entry_links s) (us @ p # q # n # ws)" using e c(7) by (simp add: entries_def)
  have qn: "q \<noteq> p" "q \<noteq> n" using d(2) c(8) by auto
  have n: "vme_prev (ent s q) = p" "vme_next (ent s q) = n" using linked_nextD [OF lk] linked_nextD [of "entry_links s" "us @ [p]" q n ws] lk by simp_all
  then have "linked (entry_links (unlink_entry m q s)) (us @ p # n # ws)"
    using qn by (intro linked_remove [OF lk c(2-5)]) (auto simp: unlink_entry_def Let_def)
  then show ?thesis using e c(6) by (simp add: entries_def)
qed


section \<open>Splitting an entry\<close>

lemma contiguous_from_append: "contiguous_from h lo (as @ bs) \<longleftrightarrow> contiguous_from h lo as \<and> contiguous_from h (if as = [] then lo else vme_end (h (last as))) bs"
  by (induction as arbitrary: lo) auto

lemma contiguous_from_cong: "(\<And>x. x \<in> set as \<Longrightarrow> h' x = h x) \<Longrightarrow> contiguous_from h' lo as = contiguous_from h lo as"
  by (induction as arbitrary: lo) auto

definition split_entry :: "vm_offset_t \<Rightarrow> vm_map_entry \<Rightarrow> vm_map_entry \<Rightarrow> vm_map_entry \<Rightarrow> bool" where
  "split_entry a e e1 e2 \<longleftrightarrow> vme_start e < a \<and> a < vme_end e \<and> page_aligned a \<and> e1 = core (e\<lparr>vme_end := a\<rparr>) \<and>
     e2 = core (e\<lparr>vme_start := a, vme_offset := vme_offset e + (a - vme_start e)\<rparr>)"

lemma mapped_split:
  assumes "split_entry a e e1 e2"
  shows "mapped (as @ e1 # e2 # bs) = mapped (as @ core e # bs)"
proof (rule ext)
  fix b
  have "has_address b (core e) \<longleftrightarrow> has_address b e1 \<or> has_address b e2" "\<not> (has_address b e1 \<and> has_address b e2)"
    using assms by (auto simp: split_entry_def has_address_def)
  moreover have "region_view b e1 = region_view b (core e)" "region_view b e2 = region_view b (core e)"
    using assms by (auto simp: split_entry_def region_view_def core_def)
  ultimately show "mapped (as @ e1 # e2 # bs) b = mapped (as @ core e # bs) b" by (auto simp: mapped_append mapped_Cons split: option.splits)
qed

lemma before_hole_split:
  assumes b: "before_hole h lo hdr (as @ p # bs) ff" and xy: "x = p \<and> y = q \<or> x = q \<and> y = p"
    and h: "h' x = e1" "h' y = e2" "\<And>z. z \<in> set (as @ bs) \<Longrightarrow> h' z = h z"
    and e: "vme_start e1 = vme_start (h p)" "vme_end e1 = vme_start e2" "vme_end e2 = vme_end (h p)"
  shows "before_hole h' lo hdr (as @ x # y # bs) ff"
proof (cases "ff = hdr")
  case False
  with b obtain us ws where u: "as @ p # bs = us @ ff # ws" "contiguous_from h lo (us @ [ff])" by (auto simp: before_hole_def)
  then consider (1) vs where "as = us @ ff # vs" | (2) "us = as" "ff = p" | (3) vs where "us = as @ p # vs" "bs = vs @ ff # ws"
    by (auto simp: append_eq_append_conv2 append_eq_Cons_conv Cons_eq_append_conv)
  then show ?thesis
  proof cases
    case 1
    then have "contiguous_from h' lo (us @ [ff])" using u(2) h(3) by (subst contiguous_from_cong [of _ h' h]) auto
    with 1 show ?thesis by (auto simp: before_hole_def)
  next
    case 2
    then have "contiguous_from h' lo as" "vme_start (h p) = (if as = [] then lo else vme_end (h' (last as)))"
      using u(2) h(3) contiguous_from_cong [of as h' h lo] by (auto simp: contiguous_from_append split: if_splits)
    then have c: "contiguous_from h' lo (as @ [x])" "contiguous_from h' lo (as @ [x, y])" using h e by (auto simp: contiguous_from_append)
    show ?thesis
    proof (cases "x = p")
      case True
      with c 2 show ?thesis unfolding before_hole_def by (intro disjI2 exI [of _ as] exI [of _ "y # bs"]) simp
    next
      case False
      with c 2 xy show ?thesis unfolding before_hole_def by (intro disjI2 exI [of _ "as @ [x]"] exI [of _ bs]) simp
    qed
  next
    case 3
    have "contiguous_from h' lo as" "contiguous_from h' (vme_end (h p)) (vs @ [ff])" "vme_start (h p) = (if as = [] then lo else vme_end (h' (last as)))"
      using u(2) h(3) 3 contiguous_from_cong [of as h' h lo] contiguous_from_cong [of "vs @ [ff]" h' h "vme_end (h p)"]
      by (auto simp: contiguous_from_append split: if_splits)
    then have "contiguous_from h' lo ((as @ x # y # vs) @ [ff])" using h e by (auto simp: contiguous_from_append)
    with 3 show ?thesis unfolding before_hole_def by (intro disjI2 exI [of _ "as @ x # y # vs"] exI [of _ ws]) simp
  qed
qed (simp add: before_hole_def)

lemma map_inv_split:
  assumes ok: "map_inv m s (as @ p # bs)" and xy: "x = p \<and> y = q \<or> x = q \<and> y = p" and split: "split_entry a (ent s p) e1 e2"
    and s': "entries m s' (as @ x # y # bs)" "cores s' = (cores s)(x := e1, y := e2)"
      "vs_maps s' = (vs_maps s)(m := (vs_maps s m)\<lparr>nentries := nentries (vs_maps s m) + 1\<rparr>)" "vs_zone s = q # vs_zone s'"
  shows "map_inv m s' (as @ x # y # bs)" "regions s' (as @ x # y # bs) = regions s as @ e1 # e2 # regions s bs"
    "vm_map_min m s' = vm_map_min m s" "vm_map_max m s' = vm_map_max m s"
proof -
  let ?H = "hdr_of m s"
  have d: "distinct (?H # as @ p # bs)" "q \<notin> set (?H # as @ p # bs)" using ok s'(4) by (auto simp: map_inv_def entries_def)
  then show r: "regions s' (as @ x # y # bs) = regions s as @ e1 # e2 # regions s bs"
    using xy s'(2) by (auto simp: regions_def)
  have "cores s' ?H = cores s ?H" using d xy s'(2) by auto
  then show b: "vm_map_min m s' = vm_map_min m s" "vm_map_max m s' = vm_map_max m s"
    using s'(3) by (simp_all, metis cores_bounds(1), metis cores_bounds(2))
  have e: "vme_start e1 = vme_start (ent s p)" "vme_end e1 = a" "vme_start e2 = a" "vme_end e2 = vme_end (ent s p)" "vme_start (ent s p) < a" "a < vme_end (ent s p)"
    "page_aligned a" using split by (simp_all add: split_entry_def)
  have reg: "regions_ok (vm_map_min m s') (vm_map_max m s') (regions s' (as @ x # y # bs))"
    using ok unfolding r b by (simp add: map_inv_def regions_def regions_ok_append e)
  have size': "map_size (vs_maps s' m) = sum_list (map (\<lambda>e. vme_end e - vme_start e) (regions s' (as @ x # y # bs)))"
    using ok s'(3) unfolding r by (simp add: map_inv_def regions_def e)
  have bounds: "vme_start (ent s' z) = vme_start (((cores s)(x := e1, y := e2)) z)" "vme_end (ent s' z) = vme_end (((cores s)(x := e1, y := e2)) z)" for z
    using s'(2) cores_bounds by metis+
  have al: "\<forall>z \<in> set (?H # as @ x # y # bs). page_aligned (vme_start (ent s' z)) \<and> page_aligned (vme_end (ent s' z))"
    using ok xy by (auto simp: map_inv_def bounds e)
  show "map_inv m s' (as @ x # y # bs)"
    using ok s' reg size' al xy by (auto simp: map_inv_def)
qed


section \<open>Clipping\<close>

text \<open>What edits of a map leave alone.\<close>

definition map_frame :: "link \<Rightarrow> vm_state \<Rightarrow> vm_state \<Rightarrow> bool" where
  "map_frame m s s' \<longleftrightarrow> (\<exists>n z h f. vs_maps s' = (vs_maps s)(m := (vs_maps s m)\<lparr>nentries := n, map_size := z, hint := h, first_free := f\<rparr>)) \<and>
     vm_map_min m s' = vm_map_min m s \<and> vm_map_max m s' = vm_map_max m s"

lemma map_frame_refl [simp]: "map_frame m s s"
  unfolding map_frame_def
  by (intro conjI exI [of _ "nentries (vs_maps s m)"] exI [of _ "map_size (vs_maps s m)"] exI [of _ "hint (vs_maps s m)"] exI [of _ "first_free (vs_maps s m)"]) simp_all

lemma map_frame_trans: "map_frame m s s' \<Longrightarrow> map_frame m s' s'' \<Longrightarrow> map_frame m s s''"
  unfolding map_frame_def by (elim exE conjE) (auto intro!: exI)

lemma map_frameD:
  assumes "map_frame m s s'"
  shows "hdr_of m s' = hdr_of m s" "map_lock (vs_maps s' m) = map_lock (vs_maps s m)" "timestamp (vs_maps s' m) = timestamp (vs_maps s m)"
    "map_pmap (vs_maps s' m) = map_pmap (vs_maps s m)" "wait_for_space (vs_maps s' m) = wait_for_space (vs_maps s m)"
    "wiring_required (vs_maps s' m) = wiring_required (vs_maps s m)"
    "vm_map_min m s' = vm_map_min m s" "vm_map_max m s' = vm_map_max m s"
  using assms unfolding map_frame_def by auto

lemma reference_backing_simps [simp]:
  "cores (reference_backing p s) = cores s" "vs_maps (reference_backing p s) = vs_maps s" "vs_zone (reference_backing p s) = vs_zone s"
  "vs_heap (reference_backing p s) = vs_heap s"
  by (simp_all add: reference_backing_def vm_object_reference_def cores_def fun_eq_iff)

lemma entries_cong:
  assumes "\<And>p. p \<in> set (hdr_of m s # xs) \<Longrightarrow> vme_next (ent s' p) = vme_next (ent s p) \<and> vme_prev (ent s' p) = vme_prev (ent s p)"
    and "hdr_of m s' = hdr_of m s"
  shows "entries m s' xs = entries m s xs"
proof -
  have "linked (entry_links s') (hdr_of m s # xs @ [hdr_of m s]) = linked (entry_links s) (hdr_of m s # xs @ [hdr_of m s])"
    using assms(1) by (intro linked_cong) (auto dest: in_set_butlastD)
  then show ?thesis using assms(2) by (simp add: entries_def)
qed

lemma clip_start_split_exact:
  assumes inv: "map_inv m s (as @ p # bs)" and z: "vs_zone s = q # zs" and a: "vme_start (ent s p) < a" "a < vme_end (ent s p)" "page_aligned a"
  shows "\<exists>s1 e1 e2. clip_start_split m p a s = Some s1 \<and> split_entry a (ent s p) e1 e2 \<and> entries m s1 (as @ q # p # bs) \<and>
    cores s1 = (cores s)(q := e1, p := e2) \<and>
    vs_maps s1 = (vs_maps s)(m := (vs_maps s m)\<lparr>nentries := nentries (vs_maps s m) + 1\<rparr>) \<and> vs_zone s = q # vs_zone s1"
proof -
  have q: "q \<notin> set (hdr_of m s # as @ p # bs)" using inv z by (auto simp: map_inv_def)
  define s3 where "s3 = upd_ent p (\<lambda>e. e\<lparr>vme_offset := vme_offset e + (a - vme_start e), vme_start := a\<rparr>)
    (upd_ent q (\<lambda>_. (ent s p)\<lparr>vme_end := a\<rparr>) (s\<lparr>vs_zone := zs\<rparr>))"
  have e: "entries m s (as @ p # bs)" using inv by (simp add: map_inv_def)
  have e3: "entries m s3 (as @ p # bs)" using e q by (subst entries_cong [where s = s]) (auto simp: s3_def)
  have prev: "vme_prev (ent s3 p) = last (hdr_of m s3 # as)" by (rule entries_prev [OF e3])
  have swap: "core (ent s p\<lparr>vme_offset := b, vme_start := a\<rparr>) = core (ent s p\<lparr>vme_start := a, vme_offset := b\<rparr>)" for b by (simp add: core_def)
  have "entries m (reference_backing p (link_after m (vme_prev (ent s3 p)) q s3)) (as @ q # p # bs)"
    using entries_link [of m s3 as "p # bs" q] e3 q unfolding prev
    by (subst entries_cong [where s = "link_after m (last (hdr_of m s3 # as)) q s3"]) (auto simp: s3_def)
  moreover have "clip_start_split m p a s = Some (reference_backing p (link_after m (vme_prev (ent s3 p)) q s3))"
    using z by (simp add: clip_start_split_def vm_map_entry_create_def s3_def)
  moreover have "cores s3 = (cores s)(q := core (ent s p\<lparr>vme_end := a\<rparr>), p := core (ent s p\<lparr>vme_start := a, vme_offset := vme_offset (ent s p) + (a - vme_start (ent s p))\<rparr>))"
    using q swap by (auto simp: s3_def)
  ultimately show ?thesis using a z by (intro exI conjI) (assumption | simp add: split_entry_def s3_def)+
qed

lemma clip_end_split_exact:
  assumes inv: "map_inv m s (as @ p # bs)" and z: "vs_zone s = q # zs" and a: "vme_start (ent s p) < a" "a < vme_end (ent s p)" "page_aligned a"
  shows "\<exists>s1 e1 e2. clip_end_split m p a s = Some s1 \<and> split_entry a (ent s p) e1 e2 \<and> entries m s1 (as @ p # q # bs) \<and>
    cores s1 = (cores s)(p := e1, q := e2) \<and>
    vs_maps s1 = (vs_maps s)(m := (vs_maps s m)\<lparr>nentries := nentries (vs_maps s m) + 1\<rparr>) \<and> vs_zone s = q # vs_zone s1"
proof -
  have q: "q \<notin> set (hdr_of m s # as @ p # bs)" using inv z by (auto simp: map_inv_def)
  define s3 where "s3 = upd_ent p (vme_end_update (\<lambda>_. a))
    (upd_ent q (\<lambda>_. (ent s p)\<lparr>vme_start := a, vme_offset := vme_offset (ent s p) + (a - vme_start (ent s p))\<rparr>) (s\<lparr>vs_zone := zs\<rparr>))"
  have e: "entries m s ((as @ [p]) @ bs)" using inv by (simp add: map_inv_def)
  have e3: "entries m s3 ((as @ [p]) @ bs)" using e q by (subst entries_cong [where s = s]) (auto simp: s3_def)
  have "entries m (reference_backing p (link_after m p q s3)) (as @ p # q # bs)"
    using entries_link [OF e3, of q] q
    by (subst entries_cong [where s = "link_after m p q s3"]) (auto simp: s3_def)
  moreover have "clip_end_split m p a s = Some (reference_backing p (link_after m p q s3))"
    using z by (simp add: clip_end_split_def vm_map_entry_create_def s3_def)
  moreover have "cores s3 = (cores s)(p := core (ent s p\<lparr>vme_end := a\<rparr>), q := core (ent s p\<lparr>vme_start := a, vme_offset := vme_offset (ent s p) + (a - vme_start (ent s p))\<rparr>))"
    using q by (auto simp: s3_def)
  ultimately show ?thesis using a z by (intro exI conjI) (assumption | simp add: split_entry_def s3_def)+
qed

text \<open>Nothing happens to the first free entry when it is right.\<close>

lemma update_first_free_same:
  assumes "map_ok m s xs"
  shows "UPDATE_FIRST_FREE m (first_free (vs_maps s m)) s = Some s"
proof -
  let ?ff = "hole_before (cores s) (vm_map_min m s) (hdr_of m s) xs"
  have ff: "first_free (vs_maps s m) = ?ff" and inv: "map_inv m s xs" using assms by (auto simp: map_ok_def)
  have "upd_map m (first_free_update (\<lambda>_. first_free (vs_maps s m))) s = s" by (simp add: upd_map_def)
  with update_first_free [OF inv before_hole_hole_before] show ?thesis unfolding ff by auto
qed

lemma split_update_first_free:
  assumes ok: "map_ok m s (as @ p # bs)" and xy: "x = p \<and> y = q \<or> x = q \<and> y = p" and split: "split_entry a (ent s p) e1 e2"
    and s': "entries m s' (as @ x # y # bs)" "cores s' = (cores s)(x := e1, y := e2)"
      "vs_maps s' = (vs_maps s)(m := (vs_maps s m)\<lparr>nentries := nentries (vs_maps s m) + 1\<rparr>)" "vs_zone s = q # vs_zone s'"
  shows "\<exists>s''. UPDATE_FIRST_FREE m (first_free (vs_maps s' m)) s' = Some s'' \<and> map_ok m s'' (as @ x # y # bs) \<and>
    cores s'' = cores s' \<and> vs_zone s'' = vs_zone s' \<and> map_frame m s s'' \<and>
    regions s'' (as @ x # y # bs) = regions s as @ e1 # e2 # regions s bs"
proof -
  have inv: "map_inv m s (as @ p # bs)" and ff: "first_free (vs_maps s m) = hole_before (cores s) (vm_map_min m s) (hdr_of m s) (as @ p # bs)"
    using ok by (auto simp: map_ok_def)
  note r = map_inv_split [OF inv xy split s']
  have d: "distinct (as @ p # bs)" "q \<notin> set (as @ p # bs)" using inv s'(4) by (auto simp: map_inv_def entries_def)
  have old: "before_hole (cores s) (vm_map_min m s) (hdr_of m s) (as @ p # bs) (first_free (vs_maps s m))"
    unfolding ff by (rule before_hole_hole_before)
  have "before_hole (cores s') (vm_map_min m s) (hdr_of m s) (as @ x # y # bs) (first_free (vs_maps s m))"
    using split d xy by (intro before_hole_split [where ?e1.0 = e1 and ?e2.0 = e2, OF old xy]) (auto simp: s'(2) split_entry_def)
  then have b: "before_hole (cores s') (vm_map_min m s') (hdr_of m s') (as @ x # y # bs) (first_free (vs_maps s' m))" unfolding r(3) using s'(3) by simp
  from update_first_free [OF r(1) b] obtain s'' where
    u: "UPDATE_FIRST_FREE m (first_free (vs_maps s' m)) s' = Some s''" "map_ok m s'' (as @ x # y # bs)"
      "s'' = upd_map m (first_free_update (\<lambda>_. hole_before (cores s') (vm_map_min m s') (hdr_of m s') (as @ x # y # bs))) s'" by auto
  have "map_frame m s s''" unfolding map_frame_def
    by (intro conjI exI [of _ "nentries (vs_maps s m) + 1"] exI [of _ "map_size (vs_maps s m)"] exI [of _ "hint (vs_maps s m)"]
        exI [of _ "hole_before (cores s') (vm_map_min m s') (hdr_of m s') (as @ x # y # bs)"])
      (use r(3,4) in \<open>simp_all add: u(3) s'(3)\<close>)
  moreover have "cores s'' = cores s'" "vs_zone s'' = vs_zone s'" by (simp_all add: u(3))
  moreover have "regions s'' (as @ x # y # bs) = regions s' (as @ x # y # bs)" by (simp add: regions_def u(3))
  ultimately show ?thesis using u(1,2) r(2) by (intro exI [of _ s'']) simp
qed


lemma has_addressD: "has_address a e \<Longrightarrow> vme_start e \<le> a \<and> a < vme_end e"
  by (simp add: has_address_def)

lemma clip_start_exact:
  assumes ok: "map_ok m s (as @ p # bs)" and a: "has_address a (ent s p)" "page_aligned a" and z: "vs_zone s \<noteq> []"
  shows "\<exists>s' as'. vm_map_clip_start m p a s = Some s' \<and> map_ok m s' (as' @ p # bs) \<and> vme_start (ent s' p) = a \<and> vme_end (ent s' p) = vme_end (ent s p) \<and>
    mapped (regions s' (as' @ p # bs)) = mapped (regions s (as @ p # bs)) \<and> (\<forall>q \<in> set bs. cores s' q = cores s q) \<and>
    core (ent s' p) = core (ent s p\<lparr>vme_start := a, vme_offset := vme_offset (ent s p) + (a - vme_start (ent s p))\<rparr>) \<and>
    length (vs_zone s) \<le> length (vs_zone s') + 1 \<and> map_frame m s s' \<and>
    (\<exists>qs. as' = as @ qs \<and> set qs \<subseteq> set (vs_zone s) \<and> set (vs_zone s') \<subseteq> set (vs_zone s))"
proof (cases "vme_start (ent s p) < a")
  case False
  then have "vme_start (ent s p) = a" using a by (simp add: has_address_def)
  moreover have "vm_map_clip_start m p a s = Some s" using False update_first_free_same [OF ok] by (simp add: vm_map_clip_start_def)
  ultimately show ?thesis using ok by (intro exI [of _ s] exI [of _ as]) auto
next
  case True
  from z obtain q zs where q: "vs_zone s = q # zs" by (cases "vs_zone s") auto
  have inv: "map_inv m s (as @ p # bs)" using ok by (simp add: map_ok_def)
  from clip_start_split_exact [OF inv q True _ a(2)] a(1) obtain s1 e1 e2 where
    c: "clip_start_split m p a s = Some s1" "split_entry a (ent s p) e1 e2" "entries m s1 (as @ q # p # bs)"
      "cores s1 = (cores s)(q := e1, p := e2)" "vs_maps s1 = (vs_maps s)(m := (vs_maps s m)\<lparr>nentries := nentries (vs_maps s m) + 1\<rparr>)"
      "vs_zone s = q # vs_zone s1" by (auto simp: has_address_def)
  from split_update_first_free [OF ok _ c(2-6)] obtain s' where
    u: "UPDATE_FIRST_FREE m (first_free (vs_maps s1 m)) s1 = Some s'" "map_ok m s' (as @ q # p # bs)" "cores s' = cores s1" "vs_zone s' = vs_zone s1"
      "map_frame m s s'" "regions s' (as @ q # p # bs) = regions s as @ e1 # e2 # regions s bs" by auto
  have d: "p \<notin> set bs" "q \<notin> set bs" using inv q by (auto simp: map_inv_def entries_def)
  have e: "cores s' p = e2" using u(3) c(4) by simp
  then have "vme_start (ent s' p) = a" "vme_end (ent s' p) = vme_end (ent s p)" "core (ent s' p) = e2"
    using c(2) cores_bounds [of s' p] by (auto simp: split_entry_def cores_def)
  moreover have "mapped (regions s' (as @ q # p # bs)) = mapped (regions s (as @ p # bs))"
    unfolding u(6) using mapped_split [OF c(2), of "regions s as" "regions s bs"] by (simp add: regions_def cores_def)
  ultimately show ?thesis using u c d True
    by (intro exI [of _ s'] exI [of _ "as @ [q]"]) (auto simp: vm_map_clip_start_def split_entry_def)
qed

lemma clip_end_exact:
  assumes ok: "map_ok m s (as @ p # bs)" and a: "vme_start (ent s p) < a" "page_aligned a" and z: "vs_zone s \<noteq> []"
  shows "\<exists>s' qs. vm_map_clip_end m p a s = Some s' \<and> map_ok m s' (as @ p # qs @ bs) \<and> vme_start (ent s' p) = vme_start (ent s p) \<and>
    vme_end (ent s' p) = min a (vme_end (ent s p)) \<and> core (ent s' p) = core (ent s p\<lparr>vme_end := min a (vme_end (ent s p))\<rparr>) \<and>
    mapped (regions s' (as @ p # qs @ bs)) = mapped (regions s (as @ p # bs)) \<and> map_frame m s s' \<and>
    (\<forall>q \<in> set (as @ bs). cores s' q = cores s q) \<and>
    (if a < vme_end (ent s p) then \<exists>q. qs = [q] \<and> vme_start (ent s' q) = a \<and> q \<in> set (vs_zone s) else qs = [] \<and> s' = s)"
proof (cases "a < vme_end (ent s p)")
  case False
  then have "vm_map_clip_end m p a s = Some s" using update_first_free_same [OF ok] by (simp add: vm_map_clip_end_def)
  moreover have "core (ent s p\<lparr>vme_end := min a (vme_end (ent s p))\<rparr>) = core (ent s p)" using False by (simp add: min_def core_def)
  ultimately show ?thesis using ok False by (intro exI [of _ s] exI [of _ "[]"]) (auto simp: min_def)
next
  case True
  from z obtain q zs where q: "vs_zone s = q # zs" by (cases "vs_zone s") auto
  have inv: "map_inv m s (as @ p # bs)" using ok by (simp add: map_ok_def)
  from clip_end_split_exact [OF inv q a(1) True a(2)] obtain s1 e1 e2 where
    c: "clip_end_split m p a s = Some s1" "split_entry a (ent s p) e1 e2" "entries m s1 (as @ p # q # bs)"
      "cores s1 = (cores s)(p := e1, q := e2)" "vs_maps s1 = (vs_maps s)(m := (vs_maps s m)\<lparr>nentries := nentries (vs_maps s m) + 1\<rparr>)"
      "vs_zone s = q # vs_zone s1" by auto
  from split_update_first_free [OF ok _ c(2-6)] obtain s' where
    u: "UPDATE_FIRST_FREE m (first_free (vs_maps s1 m)) s1 = Some s'" "map_ok m s' (as @ p # q # bs)" "cores s' = cores s1" "vs_zone s' = vs_zone s1"
      "map_frame m s s'" "regions s' (as @ p # q # bs) = regions s as @ e1 # e2 # regions s bs" by auto
  have d: "p \<notin> set (as @ bs)" "q \<notin> set (as @ p # bs)" using inv q by (auto simp: map_inv_def entries_def)
  have e: "cores s' p = e1" "cores s' q = e2" using u(3) c(4) d by auto
  then have "vme_start (ent s' p) = vme_start (ent s p)" "vme_end (ent s' p) = a" "vme_start (ent s' q) = a" "core (ent s' p) = e1"
    using c(2) cores_bounds [of s' p] cores_bounds [of s' q] by (auto simp: split_entry_def cores_def)
  moreover have "mapped (regions s' (as @ p # q # bs)) = mapped (regions s (as @ p # bs))"
    unfolding u(6) using mapped_split [OF c(2), of "regions s as" "regions s bs"] by (simp add: regions_def cores_def)
  ultimately show ?thesis using u c d True q
    by (intro exI [of _ s'] exI [of _ "[q]"]) (auto simp: vm_map_clip_end_def split_entry_def min_def)
qed

end
