(* ===== verification/Vm_Map_Range.thy ===== *)
theory Vm_Map_Range
  imports Vm_Map_Edit
begin

text \<open>
  Operations that set an attribute of a range of addresses. The locale \<open>entry_update\<close> is what the loop
  over the entries of a range needs of the update of one entry; protection, inheritance and behavior
  are its instances.
\<close>

definition same_bounds :: "vm_map_entry \<Rightarrow> vm_map_entry \<Rightarrow> bool" where
  "same_bounds e e' \<longleftrightarrow> vme_start e = vme_start e' \<and> vme_end e = vme_end e'"

lemma regions_ok_cong: "list_all2 same_bounds es' es \<Longrightarrow> regions_ok lo hi es' = regions_ok lo hi es"
  by (induction arbitrary: lo rule: list_all2_induct) (simp_all add: same_bounds_def)

lemma list_all2_map_same: "(\<And>x. x \<in> set xs \<Longrightarrow> P (f x) (g x)) \<Longrightarrow> list_all2 P (map f xs) (map g xs)"
  by (induction xs) auto

lemma hole_before_cong:
  "(\<And>q. vme_start (h' q) = vme_start (h q) \<and> vme_end (h' q) = vme_end (h q)) \<Longrightarrow> hole_before h' lo p xs = hole_before h lo p xs"
  by (induction xs arbitrary: lo p) auto

lemma map_ok_cong:
  assumes "\<And>q. vme_prev (ent s' q) = vme_prev (ent s q) \<and> vme_next (ent s' q) = vme_next (ent s q) \<and> vme_start (ent s' q) = vme_start (ent s q) \<and>
      vme_end (ent s' q) = vme_end (ent s q)"
    and "vs_maps s' = vs_maps s" "vs_zone s' = vs_zone s"
  shows "map_ok m s' xs = map_ok m s xs"
proof -
  have "regions_ok lo hi (regions s' xs) = regions_ok lo hi (regions s xs)" for lo hi
    using assms(1) unfolding regions_def by (intro regions_ok_cong list_all2_map_same) (simp add: same_bounds_def)
  moreover have "map (\<lambda>e. vme_end e - vme_start e) (regions s' xs) = map (\<lambda>e. vme_end e - vme_start e) (regions s xs)"
    using assms(1) by (simp add: regions_def)
  moreover have "hole_before (cores s') lo p xs = hole_before (cores s) lo p xs" for lo p using assms(1) by (intro hole_before_cong) simp
  moreover have "entries m s' xs = entries m s xs" using assms by (intro entries_cong) auto
  ultimately show ?thesis using assms by (simp add: map_ok_def map_inv_def)
qed

lemma map_okD:
  assumes "map_ok m s xs"
  shows "entries m s xs" "regions_ok (vm_map_min m s) (vm_map_max m s) (regions s xs)" "hint (vs_maps s m) \<in> set (hdr_of m s # xs)"
    "distinct (hdr_of m s # xs)" "distinct (vs_zone s)" "\<And>q. q \<in> set (vs_zone s) \<Longrightarrow> q \<notin> set (hdr_of m s # xs)"
    "map_inv m s xs" "\<And>q. q \<in> set (hdr_of m s # xs) \<Longrightarrow> page_aligned (vme_start (ent s q)) \<and> page_aligned (vme_end (ent s q))"
  using assms by (auto simp: map_ok_def map_inv_def entries_def)

lemma region_view_core [simp]: "region_view a (core e) = region_view a e" "has_address a (core e) = has_address a e"
  by (simp_all add: region_view_def core_def has_address_def)

lemma mapped_middle:
  assumes "regions_ok lo hi (as @ e # bs)" "has_address a e"
  shows "mapped (as @ e # bs) a = Some (region_view a e)"
  using assms mapped_outside [of lo "vme_start e" as a] by (auto simp: regions_ok_append mapped_append mapped_Cons has_address_def)

locale entry_update =
  fixes f :: "link \<Rightarrow> vm_state \<Rightarrow> vm_state" and g :: "vm_map_entry \<Rightarrow> vm_map_entry"
  assumes f_heap: "vs_heap (f p s) = (vs_heap s)(p := g (vs_heap s p))"
    and f_maps: "vs_maps (f p s) = vs_maps s"
    and f_zone: "vs_zone (f p s) = vs_zone s"
    and g_bounds: "vme_prev (g e) = vme_prev e" "vme_next (g e) = vme_next e" "vme_start (g e) = vme_start e" "vme_end (g e) = vme_end e"
    and g_view: "region_view a (g e) = g (region_view a e)"
begin

lemma map_ok_update: "map_ok m (f p s) xs = map_ok m s xs"
  by (rule map_ok_cong) (simp_all add: f_heap f_maps f_zone g_bounds)

lemma cores_update: "cores (f p s) = (cores s)(p := core (g (ent s p)))"
  by (simp add: cores_def f_heap fun_eq_iff)

lemma map_frame_update: "p \<noteq> hdr_of m s \<Longrightarrow> map_frame m s (f p s)"
  unfolding map_frame_def
  by (intro conjI exI [of _ "nentries (vs_maps s m)"] exI [of _ "map_size (vs_maps s m)"] exI [of _ "hint (vs_maps s m)"] exI [of _ "first_free (vs_maps s m)"])
    (simp_all add: f_maps f_heap)

lemma mapped_update:
  assumes "map_ok m s (as @ p # bs)"
  shows "mapped (regions (f p s) (as @ p # bs)) a =
    (if has_address a (ent s p) then map_option g (mapped (regions s (as @ p # bs)) a) else mapped (regions s (as @ p # bs)) a)"
proof -
  note d = map_okD [OF assms]
  have r: "regions s (as @ p # bs) = regions s as @ cores s p # regions s bs" by (simp add: regions_def)
  have r': "regions (f p s) (as @ p # bs) = regions s as @ core (g (ent s p)) # regions s bs"
    using d(4) by (auto simp: regions_def cores_update)
  show ?thesis
  proof (cases "has_address a (ent s p)")
    case True
    have "mapped (regions s (as @ p # bs)) a = Some (region_view a (ent s p))"
      unfolding r using mapped_middle [of _ _ "regions s as" "cores s p" "regions s bs" a] d(2) True unfolding r by (simp add: cores_def)
    moreover have "mapped (regions (f p s) (as @ p # bs)) a = Some (region_view a (g (ent s p)))"
      unfolding r' using mapped_middle [of "vm_map_min m s" "vm_map_max m s" "regions s as" "core (g (ent s p))" "regions s bs" a] d(2) True
      by (simp add: r regions_ok_append g_bounds has_address_def)
    ultimately show ?thesis using True by (simp add: g_view)
  next
    case False
    then have "\<not> has_address a (core (g (ent s p)))" "\<not> has_address a (cores s p)" by (simp_all add: has_address_def g_bounds)
    then have "mapped (regions s as @ core (g (ent s p)) # regions s bs) a = mapped (regions s as @ cores s p # regions s bs) a"
      unfolding mapped_append mapped_Cons by (simp split: option.split)
    then show ?thesis using False unfolding r r' by simp
  qed
qed

text \<open>The loop from the first entry of \<open>cs\<close> to \<open>fin\<close>: exactly the addresses in between are changed.\<close>

lemma range_loop_exact:
  assumes "map_ok m s (as @ cs)" "regions_ok lo (vm_map_max m s) (regions s cs)" "regions_ok (vm_map_min m s) lo (regions s as)"
    and "page_aligned fin" "vs_zone s \<noteq> []"
  shows "\<exists>s' xs'. range_loop f m fin (hd (cs @ [hdr_of m s])) s = Some s' \<and> map_ok m s' xs' \<and> map_frame m s s' \<and>
    mapped (regions s' xs') = (\<lambda>a. if lo \<le> a \<and> a < fin then map_option g (mapped (regions s (as @ cs)) a) else mapped (regions s (as @ cs)) a)"
  using assms
proof (induction cs arbitrary: s as lo)
  case Nil
  then have "mapped (regions s as) a = None" if "lo \<le> a" for a using mapped_outside that by blast
  with Nil show ?case
    by (intro exI [of _ s] exI [of _ as]) (auto simp: range_loop.simps fun_eq_iff)
next
  case (Cons p cs)
  note d = map_okD [OF Cons.prems(1)]
  have p: "p \<noteq> hdr_of m s" "lo \<le> vme_start (ent s p)" "vme_start (ent s p) < vme_end (ent s p)" "regions_ok (vme_end (ent s p)) (vm_map_max m s) (regions s cs)"
    using Cons.prems(2) d(4) by (auto simp: regions_def)
  have gap: "mapped (regions s (as @ p # cs)) a = None" if "lo \<le> a" "a < vme_start (ent s p)" for a
    using mapped_outside [OF Cons.prems(3), of a] mapped_outside [of "vme_start (ent s p)" "vm_map_max m s" "regions s (p # cs)" a] that p
    by (simp add: regions_def mapped_append)
  have above: "lo \<le> a" if "vme_start (ent s p) \<le> a" for a using p(2) that by simp
  show ?case
  proof (cases "vme_start (ent s p) < fin")
    case False
    then have "range_loop f m fin p s = Some s" by (subst range_loop.simps) simp
    with Cons.prems(1) False gap show ?thesis by (intro exI [of _ s] exI [of _ "as @ p # cs"]) (auto simp: fun_eq_iff)
  next
    case True
    from clip_end_exact [OF Cons.prems(1) True Cons.prems(4,5)] obtain s1 qs where
      c: "vm_map_clip_end m p fin s = Some s1" "map_ok m s1 (as @ p # qs @ cs)" "vme_start (ent s1 p) = vme_start (ent s p)"
        "vme_end (ent s1 p) = min fin (vme_end (ent s p))" "mapped (regions s1 (as @ p # qs @ cs)) = mapped (regions s (as @ p # cs))"
        "map_frame m s s1"
        "if fin < vme_end (ent s p) then \<exists>q. qs = [q] \<and> vme_start (ent s1 q) = fin \<and> q \<in> set (vs_zone s) else qs = [] \<and> s1 = s" by blast
    let ?s2 = "f p s1"
    have p1: "p \<noteq> hdr_of m s1" using p(1) map_frameD(1) [OF c(6)] by simp
    have fr: "map_frame m s ?s2" using map_frame_trans [OF c(6) map_frame_update [OF p1]] .
    have ok2: "map_ok m ?s2 (as @ p # qs @ cs)" using c(2) by (simp add: map_ok_update)
    have step: "range_loop f m fin p s = range_loop f m fin (vme_next (ent ?s2 p)) ?s2"
      using True p(1) c(1) by (subst range_loop.simps) (simp add: Let_def)
    have nxt: "vme_next (ent ?s2 p) = hd ((qs @ cs) @ [hdr_of m ?s2])" using entries_next [OF map_okD(1) [OF ok2]] .
    have m2: "mapped (regions ?s2 (as @ p # qs @ cs)) a =
        (if vme_start (ent s p) \<le> a \<and> a < min fin (vme_end (ent s p)) then map_option g (mapped (regions s (as @ p # cs)) a) else mapped (regions s (as @ p # cs)) a)" for a
      using mapped_update [OF c(2), of a] c(3,4,5) by (simp add: has_address_def)
    show ?thesis
    proof (cases "fin < vme_end (ent s p)")
      case short: True
      with c(7) obtain q where q: "qs = [q]" "vme_start (ent s1 q) = fin" "q \<in> set (vs_zone s)" by auto
      have "q \<noteq> p" using d(6) [OF q(3)] by auto
      then have "range_loop f m fin (vme_next (ent ?s2 p)) ?s2 = Some ?s2" unfolding nxt using q by (subst range_loop.simps) (simp add: f_heap)
      with step ok2 fr m2 short gap above show ?thesis
        by (intro exI [of _ ?s2] exI [of _ "as @ p # qs @ cs"]) (auto simp: fun_eq_iff min_def)
    next
      case long: False
      with c(7) have same: "qs = []" "s1 = s" by auto
      have bnd: "list_all2 same_bounds (regions ?s2 xs) (regions s xs)" for xs
        unfolding regions_def by (rule list_all2_map_same) (simp add: same_bounds_def f_heap g_bounds same)
      have "regions_ok (vme_end (ent s p)) (vm_map_max m ?s2) (regions ?s2 cs)"
        using p(4) map_frameD(7,8) [OF fr] bnd [of cs] by (simp add: regions_ok_cong)
      moreover have "regions_ok (vm_map_min m ?s2) (vme_end (ent s p)) (regions ?s2 (as @ [p]))"
        using Cons.prems(3) p(2,3) map_frameD(7) [OF fr] bnd [of "as @ [p]"] regions_ok_mono [of _ lo "regions s as" _ "vme_start (ent s p)"]
        by (simp add: regions_ok_cong) (simp add: regions_def regions_ok_append)
      moreover have "map_ok m ?s2 ((as @ [p]) @ cs)" using ok2 same by simp
      moreover have "vs_zone ?s2 \<noteq> []" using Cons.prems(5) by (simp add: f_zone same)
      ultimately obtain s' xs' where i: "range_loop f m fin (hd (cs @ [hdr_of m ?s2])) ?s2 = Some s'" "map_ok m s' xs'" "map_frame m ?s2 s'"
        "mapped (regions s' xs') = (\<lambda>a. if vme_end (ent s p) \<le> a \<and> a < fin then map_option g (mapped (regions ?s2 ((as @ [p]) @ cs)) a) else mapped (regions ?s2 ((as @ [p]) @ cs)) a)"
        using Cons.IH [of ?s2 "as @ [p]" "vme_end (ent s p)"] Cons.prems(4) by blast
      have "mapped (regions s' xs') a = (if lo \<le> a \<and> a < fin then map_option g (mapped (regions s (as @ p # cs)) a) else mapped (regions s (as @ p # cs)) a)" for a
        using m2 [of a] gap [of a] long p(2,3) i(4) same(1) by (auto simp: min_def fun_eq_iff)
      moreover have "range_loop f m fin p s = Some s'" using step nxt i(1) same(1) by simp
      ultimately show ?thesis using i(2,3) fr map_frame_trans by (intro exI [of _ s'] exI [of _ xs']) (auto simp: fun_eq_iff)
    qed
  qed
qed

text \<open>Clipping at the start and the loop together.\<close>

lemma set_range:
  assumes ok: "map_ok m s (as @ p # bs)" and start: "has_address start (ent s p)" "page_aligned start" "page_aligned fin" and z: "2 \<le> length (vs_zone s)"
  shows "\<exists>s3 s4 xs'. vm_map_clip_start m p start s = Some s3 \<and> range_loop f m fin p s3 = Some s4 \<and> map_ok m s4 xs' \<and> map_frame m s s4 \<and>
    (\<forall>a. mapped (regions s4 xs') a =
      (if start \<le> a \<and> a < fin then map_option g (mapped (regions s (as @ p # bs)) a) else mapped (regions s (as @ p # bs)) a))"
proof -
  have "vs_zone s \<noteq> []" using z by auto
  from clip_start_exact [OF ok start(1,2) this] obtain s3 as' where
    s3: "vm_map_clip_start m p start s = Some s3" "map_ok m s3 (as' @ p # bs)" "vme_start (ent s3 p) = start"
      "mapped (regions s3 (as' @ p # bs)) = mapped (regions s (as @ p # bs))" "length (vs_zone s) \<le> length (vs_zone s3) + 1" "map_frame m s s3" by blast
  have "regions_ok start (vm_map_max m s3) (regions s3 (p # bs))" "regions_ok (vm_map_min m s3) start (regions s3 as')" "vs_zone s3 \<noteq> []"
    using map_okD(2) [OF s3(2)] s3(3,5) z by (auto simp: regions_def regions_ok_append)
  with range_loop_exact [OF s3(2) _ _ start(3)] obtain s4 xs' where
    "range_loop f m fin (hd ((p # bs) @ [hdr_of m s3])) s3 = Some s4" "map_ok m s4 xs'" "map_frame m s3 s4"
      "mapped (regions s4 xs') = (\<lambda>a. if start \<le> a \<and> a < fin then map_option g (mapped (regions s3 (as' @ p # bs)) a) else mapped (regions s3 (as' @ p # bs)) a)"
    by meson
  with s3(1,4,6) show ?thesis by (intro exI [of _ s3] exI [of _ s4] exI [of _ xs']) (auto intro: map_frame_trans)
qed

end

section \<open>Protection\<close>

definition new_protection :: "vm_prot_t \<Rightarrow> bool \<Rightarrow> vm_map_entry \<Rightarrow> vm_map_entry" where
  "new_protection new_prot set_max e =
     (if set_max then e\<lparr>max_protection := ucast new_prot, protection := ucast new_prot AND protection e\<rparr> else e\<lparr>protection := ucast new_prot\<rparr>)"

interpretation protect: entry_update "set_protection m new_prot set_max" "new_protection new_prot set_max" for m new_prot set_max
  by unfold_locales (simp_all add: set_protection_def new_protection_def region_view_def Let_def)

interpretation inherit: entry_update "set_inheritance v" "inheritance_update (\<lambda>_. ucast v)" for v
  by unfold_locales (simp_all add: set_inheritance_def region_view_def)

interpretation behave: entry_update "set_behavior v" "behavior_update (\<lambda>_. ucast v)" for v
  by unfold_locales (simp_all add: set_behavior_def region_view_def)

definition allows :: "vm_prot_t \<Rightarrow> vm_map_entry option \<Rightarrow> bool" where
  "allows new_prot v = (case v of None \<Rightarrow> False | Some e \<Rightarrow> \<not> is_sub_map e \<and> new_prot AND ucast (max_protection e) = new_prot)"

fun protect_spec :: "vm_offset_t \<Rightarrow> vm_prot_t \<Rightarrow> vm_offset_t \<Rightarrow> vm_map_entry list \<Rightarrow> kern_return_t" where
  "protect_spec fin new_prot prev [] = (if prev < fin then KERN_INVALID_ADDRESS else KERN_SUCCESS)"
| "protect_spec fin new_prot prev (e # es) =
     (if vme_start e < fin then
        if is_sub_map e then KERN_INVALID_ARGUMENT
        else if vme_start e \<noteq> prev then KERN_INVALID_ADDRESS
        else if new_prot AND ucast (max_protection e) \<noteq> new_prot then KERN_PROTECTION_FAILURE
        else protect_spec fin new_prot (vme_end e) es
      else if prev < fin then KERN_INVALID_ADDRESS else KERN_SUCCESS)"

lemma protect_check_walk:
  assumes "linked (entry_links s) (cs @ [hdr])" "hdr \<notin> set cs"
  shows "protect_check s hdr fin new_prot prev (hd (cs @ [hdr])) = Some (protect_spec fin new_prot prev (map (ent s) cs))"
  using assms
proof (induction cs arbitrary: prev)
  case (Cons c cs)
  then have "vme_next (ent s c) = hd (cs @ [hdr])" "linked (entry_links s) (cs @ [hdr])" "c \<noteq> hdr" by (cases cs; auto)+
  with Cons show ?case by (subst protect_check.simps) simp
qed (subst protect_check.simps, simp)

lemma allows_view [simp]: "allows new_prot (Some (region_view a e)) \<longleftrightarrow> \<not> is_sub_map e \<and> new_prot AND ucast (max_protection e) = new_prot"
  by (simp add: allows_def region_view_def)

lemma protect_spec_success:
  assumes "regions_ok prev hi es"
  shows "protect_spec fin new_prot prev es = KERN_SUCCESS \<longleftrightarrow> (\<forall>a. prev \<le> a \<and> a < fin \<longrightarrow> allows new_prot (mapped es a))"
  using assms
proof (induction es arbitrary: prev)
  case Nil
  then show ?case by (auto simp: allows_def)
next
  case (Cons e es)
  then have e: "prev \<le> vme_start e" "vme_start e < vme_end e" "regions_ok (vme_end e) hi es" by auto
  have at_prev: "\<not> allows new_prot (mapped (e # es) prev)" if "prev < vme_start e"
    using mapped_outside [of "vme_start e" hi "e # es" prev] e that by (simp add: allows_def)
  show ?case
  proof (cases "vme_start e < fin")
    case False
    then have "protect_spec fin new_prot prev (e # es) = (if prev < fin then KERN_INVALID_ADDRESS else KERN_SUCCESS)" by simp
    moreover have "\<not> allows new_prot (mapped (e # es) prev)" if "prev < fin" using at_prev that False by simp
    ultimately show ?thesis by (auto split: if_splits)
  next
    case True
    have at_start: "mapped (e # es) (vme_start e) = Some (region_view (vme_start e) e)" using e by (simp add: mapped_Cons has_address_def)
    show ?thesis
    proof (cases "is_sub_map e \<or> vme_start e \<noteq> prev \<or> new_prot AND ucast (max_protection e) \<noteq> new_prot")
      case bad: True
      then have "protect_spec fin new_prot prev (e # es) \<noteq> KERN_SUCCESS" using True by auto
      moreover have "\<exists>a. prev \<le> a \<and> a < fin \<and> \<not> allows new_prot (mapped (e # es) a)"
      proof (cases "vme_start e = prev")
        case eq: True
        then show ?thesis using bad True at_start e(1) by (intro exI [of _ "vme_start e"]) auto
      next
        case False
        then have "prev < vme_start e" using e(1) by simp
        then show ?thesis using at_prev True by (intro exI [of _ prev]) auto
      qed
      ultimately show ?thesis by auto
    next
      case good: False
      have "mapped (e # es) a = (if a < vme_end e then Some (region_view a e) else mapped es a)" if "prev \<le> a" for a
        using good that by (auto simp: mapped_Cons has_address_def)
      then have "(\<forall>a. prev \<le> a \<and> a < fin \<longrightarrow> allows new_prot (mapped (e # es) a)) \<longleftrightarrow> (\<forall>a. vme_end e \<le> a \<and> a < fin \<longrightarrow> allows new_prot (mapped es a))"
        using good e by (smt (verit) allows_view leD leI order.strict_implies_order order_le_less_trans)
      with Cons.IH [OF e(3)] good True show ?thesis by simp
    qed
  qed
qed


section \<open>Locks and lookup under the invariant\<close>

lemma map_ok_upd_map:
  assumes "map_links (g (vs_maps s m)) = map_links (vs_maps s m)" "nentries (g (vs_maps s m)) = nentries (vs_maps s m)"
    "map_size (g (vs_maps s m)) = map_size (vs_maps s m)" "first_free (g (vs_maps s m)) = first_free (vs_maps s m)"
    "hint (g (vs_maps s m)) \<in> set (hdr_of m s # xs)"
  shows "map_ok m s xs \<Longrightarrow> map_ok m (upd_map m g s) xs"
  using assms by (simp add: map_ok_def map_inv_def entries_def regions_def entry_links_def)

lemma regions_upd_map [simp]: "regions (upd_map m g s) xs = regions s xs"
  by (simp add: regions_def)

lemma lock_ok:
  assumes "map_ok m s xs" "map_lock (vs_maps s m) = Unlocked"
  shows "\<exists>s1. vm_map_lock m s = Some s1 \<and> map_ok m s1 xs \<and> map_lock (vs_maps s1 m) = WriteLocked \<and> vs_heap s1 = vs_heap s \<and> vs_zone s1 = vs_zone s \<and>
    vs_log s1 = vs_log s \<and> hdr_of m s1 = hdr_of m s \<and> vm_map_min m s1 = vm_map_min m s \<and> vm_map_max m s1 = vm_map_max m s \<and>
    (\<forall>ys. regions s1 ys = regions s ys) \<and> wait_for_space (vs_maps s1 m) = wait_for_space (vs_maps s m) \<and>
    wiring_required (vs_maps s1 m) = wiring_required (vs_maps s m)"
proof -
  have "hint (vs_maps s m) \<in> set (hdr_of m s # xs)" by (rule map_okD(3) [OF assms(1)])
  with assms map_ok_upd_map [of "\<lambda>mp. mp\<lparr>timestamp := timestamp mp + 1, map_lock := WriteLocked\<rparr>" s m xs] show ?thesis
    by (simp add: vm_map_lock_def)
qed

lemma unlock_ok:
  assumes "map_ok m s xs" "map_lock (vs_maps s m) = WriteLocked"
  shows "\<exists>s1. vm_map_unlock m s = Some s1 \<and> map_ok m s1 xs \<and> map_lock (vs_maps s1 m) = Unlocked \<and> vs_heap s1 = vs_heap s \<and> vs_zone s1 = vs_zone s \<and>
    vs_log s1 = vs_log s \<and> hdr_of m s1 = hdr_of m s \<and> (\<forall>ys. regions s1 ys = regions s ys) \<and> wiring_required (vs_maps s1 m) = wiring_required (vs_maps s m)"
proof -
  have "hint (vs_maps s m) \<in> set (hdr_of m s # xs)" by (rule map_okD(3) [OF assms(1)])
  with assms map_ok_upd_map [of "map_lock_update (\<lambda>_. Unlocked)" s m xs] show ?thesis
    by (simp add: vm_map_unlock_def)
qed

lemma lookup_ok:
  assumes "map_ok m s xs"
  shows "\<exists>s1. vm_map_lookup_entry m a s = Some (fst (lookup_spec m s xs a), snd (lookup_spec m s xs a), s1) \<and> map_ok m s1 xs \<and>
    map_frame m s s1 \<and> vs_heap s1 = vs_heap s \<and> vs_zone s1 = vs_zone s \<and> vs_log s1 = vs_log s \<and> (\<forall>ys. regions s1 ys = regions s ys) \<and>
    first_free (vs_maps s1 m) = first_free (vs_maps s m)"
proof -
  note d = map_okD [OF assms]
  from lookup_entry_exact [OF d(1-3), of a] obtain h where
    l: "vm_map_lookup_entry m a s = Some (fst (lookup_spec m s xs a), snd (lookup_spec m s xs a), SAVE_HINT m h s)" "h \<in> set (hdr_of m s # xs)"
    by (auto simp: split_beta)
  have "map_ok m (SAVE_HINT m h s) xs" unfolding SAVE_HINT_def using l(2) assms by (intro map_ok_upd_map) auto
  moreover have "map_frame m s (SAVE_HINT m h s)" unfolding map_frame_def SAVE_HINT_def
    by (intro conjI exI [of _ "nentries (vs_maps s m)"] exI [of _ "map_size (vs_maps s m)"] exI [of _ h] exI [of _ "first_free (vs_maps s m)"]) simp_all
  ultimately show ?thesis using l by (intro exI [of _ "SAVE_HINT m h s"]) (simp add: SAVE_HINT_def)
qed

text \<open>The range is mapped entirely, the same for every address of an entry.\<close>

lemma check_from_entry:
  assumes ok: "map_ok m s (as @ p # bs)" and start: "has_address start (ent s p)" "start < fin"
  shows "protect_spec fin new_prot (vme_start (ent s p)) (map (ent s) (p # bs)) = KERN_SUCCESS \<longleftrightarrow>
    (\<forall>a. start \<le> a \<and> a < fin \<longrightarrow> allows new_prot (mapped (regions s (as @ p # bs)) a))"
proof -
  note d = map_okD [OF ok]
  have r: "regions_ok (vme_start (ent s p)) (vm_map_max m s) (regions s (p # bs))" "regions_ok (vm_map_min m s) (vme_start (ent s p)) (regions s as)"
    using d(2) by (simp_all add: regions_def regions_ok_append)
  have eq: "protect_spec fin new_prot prev (map (cores s) xs) = protect_spec fin new_prot prev (map (ent s) xs)" for prev xs
    by (induction xs arbitrary: prev) (simp_all add: cores_def core_def)
  have "protect_spec fin new_prot (vme_start (ent s p)) (map (ent s) (p # bs)) = KERN_SUCCESS \<longleftrightarrow>
      (\<forall>a. vme_start (ent s p) \<le> a \<and> a < fin \<longrightarrow> allows new_prot (mapped (regions s (p # bs)) a))"
    using protect_spec_success [OF r(1), of fin new_prot] unfolding regions_def eq .
  also have "\<dots> \<longleftrightarrow> (\<forall>a. start \<le> a \<and> a < fin \<longrightarrow> allows new_prot (mapped (regions s (p # bs)) a))" (is "?l = ?r")
  proof
    assume all: ?r
    have e: "mapped (regions s (p # bs)) a = Some (region_view a (ent s p))" if "vme_start (ent s p) \<le> a" "a \<le> start" for a
      using start that by (auto simp: regions_def mapped_Cons has_address_def cores_def)
    have "allows new_prot (mapped (regions s (p # bs)) start)" using all start(2) by auto
    then have "\<not> is_sub_map (ent s p) \<and> new_prot AND ucast (max_protection (ent s p)) = new_prot"
      using e [of start] start by (simp add: has_address_def)
    then show ?l using all e by (metis allows_view linear)
  next
    assume ?l
    then show ?r using start by (metis has_addressD order_trans)
  qed
  also have "\<dots> \<longleftrightarrow> (\<forall>a. start \<le> a \<and> a < fin \<longrightarrow> allows new_prot (mapped (regions s (as @ p # bs)) a))"
    using mapped_outside [OF r(2)] start has_addressD [OF start(1)] by (force simp: regions_def mapped_append)
  finally show ?thesis .
qed

lemma unmapped_not_allowed:
  assumes "\<not> fst (lookup_spec m s xs a)" "map_ok m s xs"
  shows "mapped (regions s xs) a = None"
  using map_okD(2) [OF assms(2)]
proof (cases rule: lookup_spec_cases [where a = a and m = m])
  case (hole as bs)
  have "\<not> has_address a (cores s q)" if "q \<in> set xs" for q using that hole(2) [of q] hole(3) [of q] unfolding hole(1) by (auto simp: has_address_def)
  then show ?thesis by (auto simp: mapped_None_iff regions_def)
qed (use assms in simp)

text \<open>
  C13: \<open>vm_map_protect\<close> is all or nothing. On a well-formed, unlocked map with two free entry structures
  it ends with a well-formed, unlocked map. It succeeds exactly when every address of the range is
  mapped, outside of submaps, with a maximal protection that allows the new one; then exactly these
  addresses get the new protection (with \<open>set_max\<close> also the new maximum, and the current protection is
  cut down to it). In all other cases no address sees a change.
\<close>

theorem vm_map_protect_exact:
  assumes ok: "map_ok m s xs" "map_lock (vs_maps s m) = Unlocked" "2 \<le> length (vs_zone s)"
    and range: "start < fin" "page_aligned start" "page_aligned fin"
  shows "\<exists>kr s' xs'. vm_map_protect m start fin new_prot set_max s = Some (kr, s') \<and> map_ok m s' xs' \<and> map_lock (vs_maps s' m) = Unlocked \<and>
    (kr = KERN_SUCCESS \<longleftrightarrow> (\<forall>a. start \<le> a \<and> a < fin \<longrightarrow> allows new_prot (mapped (regions s xs) a))) \<and>
    (\<forall>a. mapped (regions s' xs') a =
      (if kr = KERN_SUCCESS \<and> start \<le> a \<and> a < fin then map_option (new_protection new_prot set_max) (mapped (regions s xs) a)
       else mapped (regions s xs) a))"
proof -
  from lock_ok [OF ok(1,2)] obtain s1 where
    s1: "vm_map_lock m s = Some s1" "map_ok m s1 xs" "map_lock (vs_maps s1 m) = WriteLocked" "vs_heap s1 = vs_heap s" "vs_zone s1 = vs_zone s"
      "\<And>ys. regions s1 ys = regions s ys" by blast
  from lookup_ok [OF s1(2), of start] obtain s2 where
    s2: "vm_map_lookup_entry m start s1 = Some (fst (lookup_spec m s1 xs start), snd (lookup_spec m s1 xs start), s2)" "map_ok m s2 xs" "map_frame m s1 s2"
      "vs_heap s2 = vs_heap s1" "vs_zone s2 = vs_zone s1" "\<And>ys. regions s2 ys = regions s1 ys" by blast
  have lk2: "map_lock (vs_maps s2 m) = WriteLocked" using s1(3) map_frameD(2) [OF s2(3)] by simp
  note unlock2 = unlock_ok [OF s2(2) lk2]
  show ?thesis using map_okD(2) [OF s1(2)]
  proof (cases rule: lookup_spec_cases [where a = start and m = m])
    case (hole as bs)
    then have none: "mapped (regions s xs) start = None" using unmapped_not_allowed [of m s1 xs start] s1(2,6) by simp
    from unlock2 obtain s3 where "vm_map_unlock m s2 = Some s3" "map_ok m s3 xs" "map_lock (vs_maps s3 m) = Unlocked" "\<And>ys. regions s3 ys = regions s2 ys" by blast
    with s1 s2 hole none range(1) show ?thesis
      by (intro exI [of _ KERN_INVALID_ADDRESS] exI [of _ s3] exI [of _ xs]) (auto simp: vm_map_protect_def allows_def intro!: exI [of _ start])
  next
    case (found as p bs)
    have p: "has_address start (ent s2 p)" "map_ok m s2 (as @ p # bs)" using found s2(2,4) by auto
    note d = map_okD [OF p(2)]
    let ?kr = "protect_spec fin new_prot (vme_start (ent s2 p)) (map (ent s2) (p # bs))"
    have "linked (entry_links s2) ((p # bs) @ [hdr_of m s2])" "hdr_of m s2 \<notin> set (p # bs)"
      using d(1,4) linked_suffix [of _ "hdr_of m s2 # as" "p # bs @ [hdr_of m s2]"] by (auto simp: entries_def)
    from protect_check_walk [OF this, of fin new_prot "vme_start (ent s2 p)"]
    have check: "protect_check s2 (hdr_of m s2) fin new_prot (vme_start (ent s2 p)) p = Some ?kr" by simp
    have iff: "?kr = KERN_SUCCESS \<longleftrightarrow> (\<forall>a. start \<le> a \<and> a < fin \<longrightarrow> allows new_prot (mapped (regions s xs) a))"
      using check_from_entry [OF p(2,1) range(1)] found(1) s1(6) s2(6) by simp
    show ?thesis
    proof (cases "?kr = KERN_SUCCESS")
      case False
      from unlock2 obtain s3 where "vm_map_unlock m s2 = Some s3" "map_ok m s3 xs" "map_lock (vs_maps s3 m) = Unlocked" "\<And>ys. regions s3 ys = regions s2 ys" by blast
      with s1 s2 found(3) check False iff show ?thesis
        by (intro exI [of _ ?kr] exI [of _ s3] exI [of _ xs]) (simp add: vm_map_protect_def)
    next
      case True
      have "2 \<le> length (vs_zone s2)" using ok(3) s1(5) s2(5) by simp
      from protect.set_range [OF p(2,1) range(2,3) this] obtain s3 s4 xs4 where
        s4: "vm_map_clip_start m p start s2 = Some s3" "range_loop (set_protection m new_prot set_max) m fin p s3 = Some s4" "map_ok m s4 xs4" "map_frame m s2 s4"
          "\<And>a. mapped (regions s4 xs4) a = (if start \<le> a \<and> a < fin then map_option (new_protection new_prot set_max) (mapped (regions s2 (as @ p # bs)) a)
            else mapped (regions s2 (as @ p # bs)) a)" by blast
      have "map_lock (vs_maps s4 m) = WriteLocked" using lk2 map_frameD(2) [OF s4(4)] by simp
      from unlock_ok [OF s4(3) this] obtain s5 where
        s5: "vm_map_unlock m s4 = Some s5" "map_ok m s5 xs4" "map_lock (vs_maps s5 m) = Unlocked" "\<And>ys. regions s5 ys = regions s4 ys" by blast
      have "vm_map_protect m start fin new_prot set_max s = Some (KERN_SUCCESS, s5)"
        using s1(1) s2(1) found(3) check True s4(1,2) s5(1) by (simp add: vm_map_protect_def)
      then show ?thesis using s5 s4(5) True iff found(1) s1(6) s2(6)
        by (intro exI [of _ KERN_SUCCESS] exI [of _ s5] exI [of _ xs4]) simp
    qed
  qed
qed

end
