(* ===== verification/Vm_Map_Space.thy ===== *)
theory Vm_Map_Space
  imports Vm_Map_Range
begin

text \<open>
  Finding and entering a range: the search for a gap is first fit among the aligned addresses, and a
  new mapping changes exactly its own addresses.
\<close>

section \<open>Rounding up to an alignment\<close>

lemma unat_and_mask: "unat ((x :: 32 word) AND mask k) = unat x mod 2 ^ k"
  by (simp add: unat_take_bit_mod flip: take_bit_eq_mask)

lemma unat_and_not_mask: "unat ((x :: 32 word) AND NOT (mask k)) = unat x - unat x mod 2 ^ k"
proof -
  have "(x AND mask k) AND (x AND NOT (mask k)) = 0" by (simp add: bit_eq_iff bit_simps)
  moreover have "(x AND mask k) OR (x AND NOT (mask k)) = x" by (simp add: bit.conj_disj_distrib [symmetric])
  ultimately have "unat x = unat (x AND mask k) + unat (x AND NOT (mask k))" using unat_or_disjoint by metis
  then show ?thesis by (simp add: unat_and_mask)
qed

lemma and_mask_0_iff: "(x :: 32 word) AND mask k = 0 \<longleftrightarrow> 2 ^ k dvd unat x"
  by (metis dvd_eq_mod_eq_0 unat_and_mask unat_eq_zero)

definition align_up :: "32 word \<Rightarrow> 32 word \<Rightarrow> 32 word" where
  "align_up msk x = (x + msk) AND NOT msk"

lemma unat_of_nat_32: "n < 2 ^ 32 \<Longrightarrow> unat (of_nat n :: 32 word) = n"
  by (simp add: unsigned_of_nat take_bit_nat_eq_self)

lemma unat_mask_32: "k \<le> 32 \<Longrightarrow> unat (mask k :: 32 word) = 2 ^ k - 1"
proof -
  assume k: "k \<le> 32"
  have "mask k = (of_nat (2 ^ k - 1) :: 32 word)" by (simp add: mask_eq_exp_minus_1)
  moreover have "(2 :: nat) ^ k - 1 < 2 ^ 32" using power_increasing [OF k, of "2 :: nat"] by simp
  ultimately show ?thesis using unat_of_nat_32 by metis
qed

lemma mod_once: "(n :: nat) \<le> s \<Longrightarrow> s - n < n \<Longrightarrow> s mod n = s - n"
  by (metis le_mod_geq mod_less)

lemma round_up_nat:
  assumes "0 < (M :: nat)"
  shows "s \<le> s + (M - 1) - (s + (M - 1)) mod M" "M dvd s + (M - 1) - (s + (M - 1)) mod M"
    "M dvd a \<Longrightarrow> s \<le> a \<Longrightarrow> s + (M - 1) - (s + (M - 1)) mod M \<le> a"
proof -
  let ?r = "s + (M - 1) - (s + (M - 1)) mod M"
  have "(s + (M - 1)) mod M \<le> M - 1" using assms by (metis Suc_pred' less_Suc_eq_le mod_less_divisor)
  then show "s \<le> ?r" by linarith
  show "M dvd ?r" by (simp add: minus_mod_eq_mult_div)
  assume a: "M dvd a" "s \<le> a"
  then obtain q where q: "a = M * q" by blast
  have "(s + (M - 1)) div M \<le> q"
  proof -
    have "s + (M - 1) < M * q + M" using a(2) q assms by linarith
    then have "(s + (M - 1)) div M < q + 1" using assms by (metis less_mult_imp_div_less mult.commute mult_Suc_right Suc_eq_plus1 add.commute)
    then show ?thesis by simp
  qed
  then show "?r \<le> a" unfolding minus_mod_eq_mult_div q by (rule mult_le_mono2)
qed

lemma align_up_exact:
  assumes k: "k \<le> 32"
  shows "x \<le> align_up (mask k) x \<Longrightarrow> align_up (mask k) x AND mask k = 0"
    and "x \<le> align_up (mask k) x \<Longrightarrow> a AND mask k = 0 \<Longrightarrow> x \<le> a \<Longrightarrow> align_up (mask k) x \<le> a"
    and "align_up (mask k) x < x \<Longrightarrow> a AND mask k = 0 \<Longrightarrow> \<not> x \<le> a"
proof -
  let ?M = "2 ^ k :: nat" and ?N = "2 ^ 32 :: nat"
  have M: "0 < ?M" "?M \<le> ?N" "?M dvd ?N" using power_increasing [OF k, of "2 :: nat"] le_imp_power_dvd [OF k, of "2 :: nat"] by simp_all
  let ?s = "unat x + (?M - 1)"
  have sum: "unat (x + mask k) = ?s mod ?N" using k by (simp add: unat_word_ariths unat_mask_32)
  have lt: "unat x < ?N" "\<And>b :: 32 word. unat b < ?N" using unat_less_exp [where 'a = 32] by auto
  have al: "unat (align_up (mask k) x) = ?s mod ?N - (?s mod ?N) mod ?M" unfolding align_up_def unat_and_not_mask sum by simp
  have small: "?s < ?N" if "x \<le> align_up (mask k) x"
  proof (rule ccontr)
    assume big: "\<not> ?s < ?N"
    moreover have s: "?s - ?N < ?M" using lt(1) M(1,2) by linarith
    ultimately have "?s mod ?N = ?s - ?N" using M(2) by (intro mod_once) linarith+
    moreover note s
    ultimately have "unat (align_up (mask k) x) = 0" using al by simp
    moreover have "0 < unat x" using big M by linarith
    ultimately show False using that by (simp add: word_le_nat_alt)
  qed
  then have eq: "unat (align_up (mask k) x) = ?s - ?s mod ?M" if "x \<le> align_up (mask k) x" using that al by simp
  show "align_up (mask k) x AND mask k = 0" if "x \<le> align_up (mask k) x"
    using round_up_nat(2) [OF M(1), of "unat x"] eq [OF that] by (simp add: and_mask_0_iff)
  show "align_up (mask k) x \<le> a" if "x \<le> align_up (mask k) x" "a AND mask k = 0" "x \<le> a"
    using round_up_nat(3) [OF M(1), of "unat a" "unat x"] eq [OF that(1)] that(2,3) by (simp add: and_mask_0_iff word_le_nat_alt)
  show "\<not> x \<le> a" if "align_up (mask k) x < x" "a AND mask k = 0"
  proof
    assume "x \<le> a"
    then have "?s - ?s mod ?M \<le> unat a" using round_up_nat(3) [OF M(1), of "unat a" "unat x"] that(2) by (simp add: and_mask_0_iff word_le_nat_alt)
    moreover have "\<not> ?s < ?N"
    proof
      assume "?s < ?N"
      then have "unat x \<le> unat (align_up (mask k) x)" using al round_up_nat(1) [OF M(1), of "unat x"] by simp
      with that(1) show False by (simp add: word_less_nat_alt)
    qed
    then have "?N \<le> ?s - ?s mod ?M"
      using M(3) round_up_nat [OF M(1), of "unat x"] by (metis (no_types, lifting) M(1) dvd_imp_mod_0 le_add_diff_inverse2 minus_mod_eq_div_mult mod_less_divisor mult_le_mono1 div_le_mono not_less dvd_div_mult_self)
    ultimately show False using lt(2) [of a] by simp
  qed
qed

lemma page_mask: "PAGE_MASK = mask 12"
  by (simp add: PAGE_MASK_def PAGE_SIZE_def mask_eq_exp_minus_1)

lemma align_up_page:
  assumes "k \<le> 32" "page_aligned x"
  shows "page_aligned (align_up (mask k) x)"
proof (cases "k \<le> 12")
  case True
  have "2 ^ k dvd unat x" using assms(2) le_imp_power_dvd [OF True, of "2 :: nat"] dvd_trans by (auto simp: page_aligned_def page_mask and_mask_0_iff)
  then have "x AND mask k = 0" by (simp add: and_mask_0_iff)
  then have "align_up (mask k) x = x" using align_up_exact(2,3) [OF assms(1), of x x] by (metis antisym linear not_le)
  with assms(2) show ?thesis by simp
next
  case False
  have "2 ^ k dvd unat (align_up (mask k) x)" unfolding align_up_def unat_and_not_mask by (simp add: minus_mod_eq_mult_div)
  then have "2 ^ 12 dvd unat (align_up (mask k) x)" using le_imp_power_dvd [of 12 k "2 :: nat"] False by (metis dvd_trans linear)
  then show ?thesis unfolding page_aligned_def page_mask and_mask_0_iff .
qed


section \<open>The first gap\<close>

text \<open>An aligned free range inside of the map.\<close>

definition fits :: "link \<Rightarrow> vm_state \<Rightarrow> link list \<Rightarrow> vm_size_t \<Rightarrow> vm_offset_t \<Rightarrow> vm_offset_t \<Rightarrow> bool" where
  "fits m s xs size' msk a \<longleftrightarrow> a AND msk = 0 \<and> vm_map_min m s \<le> a \<and> unat a + unat size' \<le> unat (vm_map_max m s) \<and>
     (\<forall>b. a \<le> b \<and> b < a + size' \<longrightarrow> mapped (regions s xs) b = None)"

lemma no_wrap_iff: "a \<le> (a + n :: 32 word) \<and> a + n \<le> hi \<longleftrightarrow> unat a + unat n \<le> unat hi"
proof -
  have lt: "unat a < 2 ^ 32" "unat n < 2 ^ 32" "unat hi < 2 ^ 32" using unat_less_exp [where 'a = 32] by auto
  have sum: "unat (a + n) = (unat a + unat n) mod 2 ^ 32" by (simp add: unat_word_ariths)
  show ?thesis
  proof (cases "unat a + unat n < 2 ^ 32")
    case True
    then show ?thesis using sum by (simp add: word_le_nat_alt)
  next
    case False
    then have "unat (a + n) = unat a + unat n - 2 ^ 32" unfolding sum using lt by (intro mod_once) linarith+
    with False lt show ?thesis by (auto simp: word_le_nat_alt)
  qed
qed

lemma unat_plus_no_wrap:
  assumes "unat a + unat n \<le> unat (hi :: 32 word)"
  shows "unat (a + n :: 32 word) = unat a + unat n"
  using le_less_trans [OF assms unat_less_exp [of hi]] by (simp add: unat_word_ariths)

lemma fits_above:
  assumes q: "regions_ok lo hi (regions s (as @ q # bs))" and b: "fits m s (as @ q # bs) size' msk b" and size': "0 < size'"
    and al: "vme_start (ent s q) < a + size'" "a \<le> b" "unat a + unat size' \<le> unat (vm_map_max m s)"
  shows "vme_end (ent s q) \<le> b"
proof (rule ccontr)
  assume less: "\<not> vme_end (ent s q) \<le> b"
  have e: "vme_start (ent s q) < vme_end (ent s q)" using q by (simp add: regions_def regions_ok_append)
  define c where "c = max b (vme_start (ent s q))"
  have n: "unat b + unat size' \<le> unat (vm_map_max m s)" using b by (simp add: fits_def)
  have "unat (a + size') \<le> unat (b + size')" using unat_plus_no_wrap [OF n] unat_plus_no_wrap [OF al(3)] al(2) by (simp add: word_le_nat_alt)
  then have "vme_start (ent s q) < b + size'" using al(1) by (simp add: word_less_nat_alt)
  moreover have "b < b + size'" using unat_plus_no_wrap [OF n] size' by (simp add: word_less_nat_alt)
  ultimately have c: "b \<le> c" "c < b + size'" "has_address c (cores s q)" using less e by (auto simp: c_def has_address_def max_def)
  have "mapped (regions s (as @ q # bs)) c = Some (region_view c (cores s q))"
    using mapped_middle [of lo hi "regions s as" "cores s q" "regions s bs" c] q c(3) by (simp add: regions_def)
  moreover have "mapped (regions s (as @ q # bs)) c = None" using b c by (simp add: fits_def)
  ultimately show False by simp
qed

definition gap_ok :: "link \<Rightarrow> vm_state \<Rightarrow> link list \<Rightarrow> vm_size_t \<Rightarrow> vm_offset_t \<Rightarrow> link \<Rightarrow> vm_offset_t \<Rightarrow> vm_offset_t \<Rightarrow> bool" where
  "gap_ok m s xs size' msk p a fin \<longleftrightarrow> (\<exists>as bs. xs = as @ bs \<and> p = last (hdr_of m s # as) \<and> fin = a + size' \<and> a < fin \<and> a AND msk = 0 \<and>
     regions_ok (vm_map_min m s) a (regions s as) \<and> regions_ok fin (vm_map_max m s) (regions s bs))"

lemma gap_fits:
  assumes "gap_ok m s xs size' msk p a fin" "vm_map_min m s \<le> a"
  shows "fits m s xs size' msk a"
proof -
  from assms obtain as bs where g: "xs = as @ bs" "fin = a + size'" "a < fin" "a AND msk = 0"
    "regions_ok (vm_map_min m s) a (regions s as)" "regions_ok fin (vm_map_max m s) (regions s bs)" by (auto simp: gap_ok_def)
  have "unat a + unat size' \<le> unat (vm_map_max m s)" using no_wrap_iff [of a size' "vm_map_max m s"] g(2,3) regions_ok_le [OF g(6)] by auto
  moreover have "mapped (regions s xs) b = None" if "a \<le> b" "b < a + size'" for b
    using mapped_outside [OF g(5), of b] mapped_outside [OF g(6), of b] that g(1,2) by (simp add: regions_def mapped_append)
  ultimately show ?thesis using g(4) assms(2) by (simp add: fits_def)
qed

text \<open>One step of the search at \<open>st\<close>: no range fits above it, or the first one that may fit begins at the rounded address.\<close>

lemma gap_align:
  assumes k: "msk = mask k" "k \<le> 32" and size': "0 < size'" and al: "page_aligned st"
  shows "align_up msk st < st \<or> vm_map_max m s < align_up msk st + size' \<or> align_up msk st + size' < align_up msk st \<Longrightarrow>
      st \<le> b \<Longrightarrow> \<not> fits m s xs size' msk b"
    and "\<not> align_up msk st < st \<Longrightarrow> \<not> (vm_map_max m s < align_up msk st + size' \<or> align_up msk st + size' < align_up msk st) \<Longrightarrow>
      align_up msk st < align_up msk st + size' \<and> align_up msk st AND msk = 0 \<and> page_aligned (align_up msk st) \<and>
      unat (align_up msk st) + unat size' \<le> unat (vm_map_max m s) \<and> (\<forall>b. st \<le> b \<and> fits m s xs size' msk b \<longrightarrow> align_up msk st \<le> b)"
proof -
  let ?a = "align_up msk st"
  have least: "?a \<le> b" if "\<not> ?a < st" "st \<le> b" "fits m s xs size' msk b" for b
    using align_up_exact(2) [OF k(2), of st b] that by (auto simp: fits_def k(1) not_less)
  show "\<not> fits m s xs size' msk b" if "?a < st \<or> vm_map_max m s < ?a + size' \<or> ?a + size' < ?a" "st \<le> b" for b
  proof
    assume f: "fits m s xs size' msk b"
    show False
    proof (cases "?a < st")
      case True
      with f that(2) align_up_exact(3) [OF k(2), of st b] show False by (simp add: fits_def k(1))
    next
      case False
      have "unat ?a + unat size' \<le> unat (vm_map_max m s)" using least [OF False that(2) f] f by (simp add: fits_def word_le_nat_alt)
      with that(1) False no_wrap_iff [of ?a size' "vm_map_max m s"] show False by auto
    qed
  qed
  assume a: "\<not> ?a < st" "\<not> (vm_map_max m s < ?a + size' \<or> ?a + size' < ?a)"
  then have n: "unat ?a + unat size' \<le> unat (vm_map_max m s)" using no_wrap_iff [of ?a size' "vm_map_max m s"] by (auto simp: not_less)
  have "?a < ?a + size'" using unat_plus_no_wrap [OF n] size' by (simp add: word_less_nat_alt)
  moreover have "page_aligned ?a" unfolding k(1) by (rule align_up_page [OF k(2) al])
  ultimately show "?a < ?a + size' \<and> ?a AND msk = 0 \<and> page_aligned ?a \<and> unat ?a + unat size' \<le> unat (vm_map_max m s) \<and>
      (\<forall>b. st \<le> b \<and> fits m s xs size' msk b \<longrightarrow> ?a \<le> b)"
    using n least a(1) align_up_exact(1) [OF k(2), of st] by (auto simp: k(1) not_less)
qed

lemma find_gap_exact:
  assumes "entries m s (as @ bs)" "regions_ok (vm_map_min m s) st (regions s as)" "regions_ok st (vm_map_max m s) (regions s bs)"
    and k: "msk = mask k" "k \<le> 32" and size': "0 < size'" and "page_aligned st" "\<forall>q \<in> set bs. page_aligned (vme_end (ent s q))"
  shows "\<exists>g. find_gap s (hdr_of m s) size' msk (last (hdr_of m s # as)) st = Some g \<and>
    (case g of
       Gap p a fin \<Rightarrow> gap_ok m s (as @ bs) size' msk p a fin \<and> st \<le> a \<and> page_aligned a \<and> (\<forall>b. st \<le> b \<and> fits m s (as @ bs) size' msk b \<longrightarrow> a \<le> b)
     | _ \<Rightarrow> \<forall>b. st \<le> b \<longrightarrow> \<not> fits m s (as @ bs) size' msk b)"
  using assms(1-3,7,8)
proof (induction bs arbitrary: as st)
  case Nil
  let ?H = "hdr_of m s" and ?a = "align_up msk st"
  note step = gap_align [OF k size' Nil.prems(4), of m s, where xs = as]
  have nxt: "vme_next (ent s (last (?H # as))) = ?H"
    using entries_next [of m s "butlast as" "last as" "[]"] entries_first [of m s as] Nil.prems(1) by (cases as rule: rev_cases) auto
  have run: "find_gap s ?H size' msk (last (?H # as)) st =
      Some (if ?a < st then GapWraps else if vm_map_max m s < ?a + size' \<or> ?a + size' < ?a then GapBeyond else Gap (last (?H # as)) ?a (?a + size'))"
    using nxt by (subst find_gap.simps) (simp add: align_up_def Let_def)
  show ?case
  proof (cases "?a < st \<or> vm_map_max m s < ?a + size' \<or> ?a + size' < ?a")
    case True
    with run step(1) show ?thesis by auto
  next
    case False
    then have g: "?a < ?a + size'" "?a AND msk = 0" "page_aligned ?a" "\<forall>b. st \<le> b \<and> fits m s as size' msk b \<longrightarrow> ?a \<le> b" using step(2) by auto
    have "regions_ok (vm_map_min m s) ?a (regions s as)" using Nil.prems(2) False by (auto intro: regions_ok_mono simp: not_less)
    then have "gap_ok m s as size' msk (last (?H # as)) ?a (?a + size')" unfolding gap_ok_def
      using g False by (intro exI [of _ as] exI [of _ "[]"]) (auto simp: regions_def not_less)
    with run False g show ?thesis by (auto simp: not_less)
  qed
next
  case (Cons q bs)
  let ?H = "hdr_of m s" and ?a = "align_up msk st"
  note step = gap_align [OF k size' Cons.prems(4), of m s, where xs = "as @ q # bs"]
  have q: "st \<le> vme_start (ent s q)" "vme_start (ent s q) < vme_end (ent s q)" "regions_ok (vme_end (ent s q)) (vm_map_max m s) (regions s bs)"
    using Cons.prems(3) by (auto simp: regions_def)
  have "q \<noteq> ?H" using Cons.prems(1) by (auto simp: entries_def)
  moreover have nxt: "vme_next (ent s (last (?H # as))) = q"
    using entries_next [of m s "butlast as" "last as" "q # bs"] entries_first [of m s "as @ q # bs"] Cons.prems(1) by (cases as rule: rev_cases) auto
  ultimately have run: "find_gap s ?H size' msk (last (?H # as)) st =
      (if ?a < st then Some GapWraps else if vm_map_max m s < ?a + size' \<or> ?a + size' < ?a then Some GapBeyond
       else if ?a + size' \<le> vme_start (ent s q) then Some (Gap (last (?H # as)) ?a (?a + size'))
       else find_gap s ?H size' msk q (vme_end (ent s q)))"
    by (subst find_gap.simps) (simp add: align_up_def Let_def)
  show ?case
  proof (cases "?a < st \<or> vm_map_max m s < ?a + size' \<or> ?a + size' < ?a")
    case True
    with run step(1) show ?thesis by auto
  next
    case False
    then have g: "?a < ?a + size'" "?a AND msk = 0" "page_aligned ?a" "\<forall>b. st \<le> b \<and> fits m s (as @ q # bs) size' msk b \<longrightarrow> ?a \<le> b"
      and n: "unat ?a + unat size' \<le> unat (vm_map_max m s)" using step(2) by auto
    show ?thesis
    proof (cases "?a + size' \<le> vme_start (ent s q)")
      case True
      have "regions_ok (vm_map_min m s) ?a (regions s as)" using Cons.prems(2) False by (auto intro: regions_ok_mono simp: not_less)
      moreover have "regions_ok (?a + size') (vm_map_max m s) (regions s (q # bs))" using q True by (simp add: regions_def)
      ultimately have "gap_ok m s (as @ q # bs) size' msk (last (?H # as)) ?a (?a + size')" unfolding gap_ok_def
        using g by (intro exI [of _ as] exI [of _ "q # bs"]) simp
      with run False True g show ?thesis by (auto simp: not_less)
    next
      case full: False
      have above: "vme_end (ent s q) \<le> b" if "st \<le> b" "fits m s (as @ q # bs) size' msk b" for b
      proof (rule fits_above [OF _ that(2) size' _ _ n])
        show "regions_ok (vm_map_min m s) (vm_map_max m s) (regions s (as @ q # bs))"
          using Cons.prems(2) q regions_ok_mono [OF Cons.prems(2) order_refl q(1)] by (simp add: regions_def regions_ok_append)
      qed (use full g that in auto)
      have reg: "regions_ok (vm_map_min m s) (vme_end (ent s q)) (regions s (as @ [q]))"
        using Cons.prems(2) q regions_ok_mono [OF Cons.prems(2) order_refl q(1)] by (simp add: regions_def regions_ok_append)
      have app: "(as @ [q]) @ bs = as @ q # bs" "last (?H # as @ [q]) = q" by simp_all
      have al: "page_aligned (vme_end (ent s q))" "\<forall>q \<in> set bs. page_aligned (vme_end (ent s q))" using Cons.prems(5) by simp_all
      obtain r where
        r: "find_gap s ?H size' msk q (vme_end (ent s q)) = Some r"
          "case r of Gap p a fin \<Rightarrow> gap_ok m s (as @ q # bs) size' msk p a fin \<and> vme_end (ent s q) \<le> a \<and> page_aligned a \<and>
              (\<forall>b. vme_end (ent s q) \<le> b \<and> fits m s (as @ q # bs) size' msk b \<longrightarrow> a \<le> b)
           | _ \<Rightarrow> \<forall>b. vme_end (ent s q) \<le> b \<longrightarrow> \<not> fits m s (as @ q # bs) size' msk b"
        using Cons.IH [of "as @ [q]" "vme_end (ent s q)", unfolded app, OF Cons.prems(1) reg q(3) al] by (elim exE conjE) (rule that; assumption)
      have "st \<le> vme_end (ent s q)" using q by simp
      moreover have "find_gap s ?H size' msk (last (?H # as)) st = Some r" using run False full r(1) by auto
      ultimately show ?thesis using r(2) above by (cases r) (auto intro: order_trans)
    qed
  qed
qed


section \<open>A new entry\<close>

text \<open>The first hole lies at or before the gap between \<open>as\<close> and \<open>bs\<close>.\<close>

lemma before_hole_gap:
  assumes b: "before_hole h lo hdr (as @ bs) ff" and gap: "bs \<noteq> [] \<Longrightarrow> vme_start (h (hd bs)) \<noteq> (if as = [] then lo else vme_end (h (last as)))"
  shows "ff = hdr \<or> (\<exists>us vs. as = us @ ff # vs \<and> contiguous_from h lo (us @ [ff]))"
proof (cases "ff = hdr")
  case False
  with b obtain us vs where u: "as @ bs = us @ ff # vs" "contiguous_from h lo (us @ [ff])" by (auto simp: before_hole_def)
  then consider ws where "as = us @ ff # ws" | ws where "us = as @ ws" "bs = ws @ ff # vs"
    by (auto simp: append_eq_append_conv2 Cons_eq_append_conv append_eq_Cons_conv)
  then show ?thesis
  proof cases
    case 2
    then have "contiguous_from h lo (as @ (ws @ [ff]))" using u(2) by simp
    then have "vme_start (h (hd bs)) = (if as = [] then lo else vme_end (h (last as)))" using 2 by (cases ws) (auto simp: contiguous_from_append)
    with gap 2 show ?thesis by auto
  qed (use u in blast)
qed simp

lemma contiguous_from_bounds:
  "(\<And>x. x \<in> set as \<Longrightarrow> vme_start (h' x) = vme_start (h x)) \<Longrightarrow> (\<And>x. x \<in> set (butlast as) \<Longrightarrow> vme_end (h' x) = vme_end (h x)) \<Longrightarrow>
   contiguous_from h' lo as = contiguous_from h lo as"
  by (induction as arbitrary: lo rule: induct_list012) auto

lemma before_hole_keep:
  assumes "ff = hdr \<or> (\<exists>us vs. as = us @ ff # vs \<and> contiguous_from h lo (us @ [ff]))"
    and "\<And>x. x \<in> set as \<Longrightarrow> vme_start (h' x) = vme_start (h x)" "\<And>x. x \<in> set (butlast as) \<Longrightarrow> vme_end (h' x) = vme_end (h x)"
  shows "before_hole h' lo hdr (as @ cs) ff"
proof (cases "ff = hdr")
  case False
  with assms(1) obtain us vs where u: "as = us @ ff # vs" "contiguous_from h lo (us @ [ff])" by blast
  have "contiguous_from h' lo (us @ [ff]) = contiguous_from h lo (us @ [ff])"
    using assms(2,3) unfolding u(1) by (intro contiguous_from_bounds) (auto simp: butlast_append)
  with u show ?thesis by (auto simp: before_hole_def)
qed (simp add: before_hole_def)

lemma regions_ok_end: "regions_ok lo hi (regions s as) \<Longrightarrow> (if as = [] then lo else vme_end (ent s (last as))) \<le> hi"
  using regions_ok_le [of lo hi "regions s as"] regions_ok_bounds [of lo hi "regions s as" "cores s (last as)"] by (auto simp: regions_def)

lemma hd_region: "regions_ok lo hi (regions s bs) \<Longrightarrow> bs \<noteq> [] \<Longrightarrow> lo \<le> vme_start (ent s (hd bs))"
  by (cases bs) (auto simp: regions_def)

lemma mapped_insert:
  assumes "regions_ok lo (vme_start e) as" "regions_ok (vme_end e) hi bs" "vme_start e < vme_end e"
  shows "mapped (as @ e # bs) a = (if has_address a e then Some (region_view a e) else mapped (as @ bs) a)"
  using assms mapped_outside [OF assms(1), of a] by (auto simp: mapped_append mapped_Cons has_address_def split: option.splits)

lemma link_new_exact:
  assumes ok: "map_ok m s (as @ bs)" and gap: "regions_ok (vm_map_min m s) a (regions s as)" "regions_ok fin (vm_map_max m s) (regions s bs)"
      "a < fin" "page_aligned a" "page_aligned fin"
    and s2: "cores s2 = (cores s)(q := e)" "vme_start e = a" "vme_end e = fin" "vs_maps s2 = vs_maps s" "vs_zone s = q # vs_zone s2" "entries m s2 (as @ bs)"
  shows "\<exists>s'. vm_map_entry_link m (last (hdr_of m s # as)) q s2 = Some s' \<and> vs_zone s' = vs_zone s2 \<and> cores s' = cores s2 \<and> map_frame m s s' \<and>
    map_ok m (SAVE_HINT m q (upd_map m (\<lambda>mp. mp\<lparr>map_size := map_size mp + (fin - a)\<rparr>) s')) (as @ q # bs) \<and>
    regions s' (as @ q # bs) = regions s as @ e # regions s bs"
proof -
  note d = map_okD [OF ok]
  let ?H = "hdr_of m s"
  have q: "q \<notin> set (?H # as @ bs)" using d(6) [of q] s2(5) by auto
  define s3 where "s3 = link_after m (last (?H # as)) q s2"
  have e3: "entries m s3 (as @ q # bs)" using entries_link [OF s2(6), of q] q s2(4) by (simp add: s3_def)
  have c3: "cores s3 = (cores s)(q := e)" using s2(1) by (simp add: s3_def)
  have m3: "vs_maps s3 = (vs_maps s)(m := (vs_maps s m)\<lparr>nentries := nentries (vs_maps s m) + 1\<rparr>)" "vs_zone s3 = vs_zone s2" using s2(4) by (simp_all add: s3_def)
  have bnd: "vme_start (ent s3 z) = (if z = q then a else vme_start (ent s z))" "vme_end (ent s3 z) = (if z = q then fin else vme_end (ent s z))" for z
    using c3 s2(2,3) cores_bounds [of s3 z] cores_bounds [of s z] by (simp_all split: if_splits)
  have r3: "regions s3 (as @ q # bs) = regions s as @ e # regions s bs" using q by (auto simp: regions_def c3)
  have reg: "regions_ok (vm_map_min m s3) (vm_map_max m s3) (regions s3 (as @ q # bs))"
    unfolding r3 using gap q s2(2,3) by (auto simp: regions_ok_append m3 bnd)
  have al: "\<forall>p \<in> set (hdr_of m s3 # as @ q # bs). page_aligned (vme_start (ent s3 p)) \<and> page_aligned (vme_end (ent s3 p))"
    using d(8) gap(4,5) by (auto simp: m3 bnd)
  have "before_hole (cores s) (vm_map_min m s) ?H (as @ bs) (first_free (vs_maps s m))"
    using ok before_hole_hole_before by (simp add: map_ok_def)
  then have ff: "first_free (vs_maps s m) = ?H \<or> (\<exists>us vs. as = us @ first_free (vs_maps s m) # vs \<and> contiguous_from (cores s) (vm_map_min m s) (us @ [first_free (vs_maps s m)]))"
  proof (rule before_hole_gap)
    assume "bs \<noteq> []"
    with regions_ok_end [OF gap(1)] hd_region [OF gap(2)] gap(3)
    show "vme_start (cores s (hd bs)) \<noteq> (if as = [] then vm_map_min m s else vme_end (cores s (last as)))" by auto
  qed
  have "before_hole (cores s3) (vm_map_min m s) ?H (as @ q # bs) (first_free (vs_maps s m))"
    by (rule before_hole_keep [OF ff]) (use q in \<open>auto simp: bnd dest: in_set_butlastD\<close>)
  then have bh: "before_hole (cores s3) (vm_map_min m s3) (hdr_of m s3) (as @ q # bs) (first_free (vs_maps s3 m))" using q by (auto simp: m3 bnd)
  define ff where "ff = hole_before (cores s3) (vm_map_min m s3) (hdr_of m s3) (as @ q # bs)"
  have shape: "map_shape m s3 (as @ q # bs)" using e3 reg al by (simp add: map_shape_def)
  have run: "vm_map_entry_link m (last (?H # as)) q s2 = Some (upd_map m (first_free_update (\<lambda>_. ff)) s3)"
    unfolding vm_map_entry_link_def Let_def s3_def [symmetric] UPDATE_FIRST_FREE_def vm_map_to_entry_def
    using first_free_from [OF shape bh, folded ff_def] by simp
  let ?s' = "upd_map m (first_free_update (\<lambda>_. ff)) s3"
  have "map_frame m s ?s'" unfolding map_frame_def
    by (intro conjI exI [of _ "nentries (vs_maps s m) + 1"] exI [of _ "map_size (vs_maps s m)"] exI [of _ "hint (vs_maps s m)"] exI [of _ ff])
      (use q in \<open>auto simp: m3 bnd\<close>)
  moreover have "map_ok m (SAVE_HINT m q (upd_map m (\<lambda>mp. mp\<lparr>map_size := map_size mp + (fin - a)\<rparr>) ?s')) (as @ q # bs)"
  proof -
    have sz: "map_size (vs_maps s m) + (fin - a) = sum_list (map (\<lambda>e. vme_end e - vme_start e) (regions s3 (as @ q # bs)))"
      unfolding r3 using d(7) s2(2,3) by (simp add: map_inv_def regions_def)
    have z: "distinct (vs_zone s2)" "set (vs_zone s2) \<inter> set (?H # as @ q # bs) = {}" using d(5,6) s2(5) by auto
    have ne: "nentries (vs_maps s m) = of_nat (length (as @ bs))" using d(7) by (simp add: map_inv_def)
    show ?thesis using e3 reg al sz z ne
      by (simp add: map_ok_def map_inv_def entries_def entry_links_def regions_def SAVE_HINT_def m3 ff_def)
  qed
  ultimately show ?thesis using run r3 m3(2) s2(1) c3 by (intro exI [of _ ?s']) (simp add: regions_def)
qed


lemma insert_exact:
  assumes ok: "map_ok m s (as @ bs)" and gap: "regions_ok (vm_map_min m s) a (regions s as)" "regions_ok fin (vm_map_max m s) (regions s bs)"
      "a < fin" "page_aligned a" "page_aligned fin" and z: "vs_zone s \<noteq> []"
  shows "\<exists>q s' e. vm_map_entry_insert m (last (hdr_of m s # as)) a fin object offset copy sh tr cp mp bh inh wired s = Some (q, s') \<and>
    map_ok m s' (as @ q # bs) \<and> map_frame m s s' \<and> regions s' (as @ q # bs) = regions s as @ e # regions s bs \<and>
    e = \<lparr>vme_prev = 0, vme_next = 0, vme_start = a, vme_end = fin, vme_object = object, vme_offset = offset, is_shared = sh, is_sub_map = False,
      in_transition = tr, needs_wakeup = False, behavior = ucast bh, needs_copy = copy, protection = ucast cp, max_protection = ucast mp,
      inheritance = ucast inh, wired_count = ucast wired, user_wired_count = 0\<rparr>"
proof -
  from z obtain q zs where q: "vs_zone s = q # zs" by (cases "vs_zone s") auto
  note d = map_okD [OF ok]
  define f where "f = (\<lambda>e :: vm_map_entry. e\<lparr>vme_start := a, vme_end := fin, vme_object := object, vme_offset := offset,
       is_shared := sh, is_sub_map := False, needs_copy := copy, in_transition := tr, needs_wakeup := False,
       inheritance := ucast inh, protection := ucast cp, max_protection := ucast mp, behavior := ucast bh,
       wired_count := ucast wired, user_wired_count := 0\<rparr>)"
  define s2 where "s2 = upd_ent q f (s\<lparr>vs_zone := zs\<rparr>)"
  have qn: "q \<notin> set (hdr_of m s # as @ bs)" using d(6) [of q] q by simp
  have e2: "entries m s2 (as @ bs)" using d(1) qn by (subst entries_cong [where s = s]) (auto simp: s2_def)
  have bnds: "vme_start (core (f e)) = a" "vme_end (core (f e)) = fin" for e by (simp_all add: f_def)
  have "cores s2 = (cores s)(q := core (f (ent s q)))" "vs_maps s2 = vs_maps s" "vs_zone s = q # vs_zone s2" by (simp_all add: s2_def q)
  from link_new_exact [OF ok gap this(1) bnds this(2,3) e2] obtain s' where
    l: "vm_map_entry_link m (last (hdr_of m s # as)) q s2 = Some s'" "map_frame m s s'"
      "map_ok m (SAVE_HINT m q (upd_map m (\<lambda>mp. mp\<lparr>map_size := map_size mp + (fin - a)\<rparr>) s')) (as @ q # bs)"
      "regions s' (as @ q # bs) = regions s as @ core (f (ent s q)) # regions s bs" by blast
  let ?s = "SAVE_HINT m q (upd_map m (\<lambda>mp. mp\<lparr>map_size := map_size mp + (fin - a)\<rparr>) s')"
  have "map_frame m s' ?s" unfolding map_frame_def SAVE_HINT_def
    by (intro conjI exI [of _ "nentries (vs_maps s' m)"] exI [of _ "map_size (vs_maps s' m) + (fin - a)"] exI [of _ q] exI [of _ "first_free (vs_maps s' m)"]) simp_all
  then have "map_frame m s ?s" using l(2) map_frame_trans by blast
  moreover have "vm_map_entry_insert m (last (hdr_of m s # as)) a fin object offset copy sh tr cp mp bh inh wired s = Some (q, ?s)"
    using l(1) by (simp add: vm_map_entry_insert_def vm_map_entry_create_def q s2_def f_def)
  moreover have "regions ?s ys = regions s' ys" for ys by (simp add: SAVE_HINT_def)
  ultimately show ?thesis using l(3,4)
    by (intro exI [of _ q] exI [of _ ?s] exI [of _ "core (f (ent s q))"]) (auto simp: f_def core_def)
qed

text \<open>The entry before a gap grows into it.\<close>

lemma extend_exact:
  assumes ok: "map_ok m s (as @ p # bs)" and gap: "vme_end (ent s p) = a" "regions_ok fin (vm_map_max m s) (regions s bs)" "a < fin" "page_aligned fin"
  shows "\<exists>s'. UPDATE_FIRST_FREE m (first_free (vs_maps s m)) (upd_ent p (vme_end_update (\<lambda>_. fin)) (upd_map m (\<lambda>mp. mp\<lparr>map_size := map_size mp + (fin - a)\<rparr>) s)) = Some s' \<and>
    map_ok m s' (as @ p # bs) \<and> map_frame m s s' \<and> regions s' (as @ p # bs) = regions s as @ core (ent s p\<lparr>vme_end := fin\<rparr>) # regions s bs"
proof -
  note d = map_okD [OF ok]
  let ?H = "hdr_of m s"
  define s2 where "s2 = upd_ent p (vme_end_update (\<lambda>_. fin)) (upd_map m (\<lambda>mp. mp\<lparr>map_size := map_size mp + (fin - a)\<rparr>) s)"
  have p: "p \<noteq> ?H" "p \<notin> set as" "p \<notin> set bs" "p \<notin> set (vs_zone s)" using d(4) d(6) [of p] by auto
  have old: "regions_ok (vm_map_min m s) (vme_start (ent s p)) (regions s as)" "vme_start (ent s p) < a" using d(2) gap(1) by (simp_all add: regions_def regions_ok_append)
  have r2: "regions s2 (as @ p # bs) = regions s as @ core (ent s p\<lparr>vme_end := fin\<rparr>) # regions s bs" using p by (simp add: regions_def s2_def)
  have e2: "entries m s2 (as @ p # bs)" using d(1) by (subst entries_cong [where s = s]) (auto simp: s2_def)
  have "regions_ok (vm_map_min m s2) (vm_map_max m s2) (regions s2 (as @ p # bs))"
    unfolding r2 using old gap(2,3) p(1) by (simp add: regions_ok_append s2_def)
  moreover have "map_size (vs_maps s m) = sum_list (map (\<lambda>e. vme_end e - vme_start e) (regions s (as @ p # bs)))" using d(7) by (simp add: map_inv_def)
  then have "map_size (vs_maps s2 m) = sum_list (map (\<lambda>e. vme_end e - vme_start e) (regions s2 (as @ p # bs)))"
    unfolding r2 using gap(1) by (simp add: s2_def regions_def)
  ultimately have inv: "map_inv m s2 (as @ p # bs)"
    using d(3,5,7,8) e2 gap(4) p by (auto simp: map_inv_def s2_def)
  have "before_hole (cores s) (vm_map_min m s) ?H ((as @ [p]) @ bs) (first_free (vs_maps s m))" using ok before_hole_hole_before by (simp add: map_ok_def)
  then have "first_free (vs_maps s m) = ?H \<or> (\<exists>us vs. as @ [p] = us @ first_free (vs_maps s m) # vs \<and> contiguous_from (cores s) (vm_map_min m s) (us @ [first_free (vs_maps s m)]))"
  proof (rule before_hole_gap)
    assume "bs \<noteq> []"
    with hd_region [OF gap(2)] gap(1,3) show "vme_start (cores s (hd bs)) \<noteq> (if as @ [p] = [] then vm_map_min m s else vme_end (cores s (last (as @ [p]))))" by auto
  qed
  then have "before_hole (cores s2) (vm_map_min m s) ?H ((as @ [p]) @ bs) (first_free (vs_maps s m))"
    by (rule before_hole_keep) (use p in \<open>auto simp: s2_def\<close>)
  then have bh: "before_hole (cores s2) (vm_map_min m s2) (hdr_of m s2) (as @ p # bs) (first_free (vs_maps s m))" using p by (simp add: s2_def)
  from update_first_free [OF inv bh] obtain s' where
    u: "UPDATE_FIRST_FREE m (first_free (vs_maps s m)) s2 = Some s'" "map_ok m s' (as @ p # bs)"
      "s' = upd_map m (first_free_update (\<lambda>_. hole_before (cores s2) (vm_map_min m s2) (hdr_of m s2) (as @ p # bs))) s2" by auto
  have "map_frame m s s'" unfolding map_frame_def u(3)
    by (intro conjI exI [of _ "nentries (vs_maps s m)"] exI [of _ "map_size (vs_maps s m) + (fin - a)"] exI [of _ "hint (vs_maps s m)"]
        exI [of _ "hole_before (cores s2) (vm_map_min m s2) (hdr_of m s2) (as @ p # bs)"]) (use p in \<open>simp_all add: s2_def\<close>)
  with u r2 show ?thesis unfolding s2_def [symmetric] by (intro exI [of _ s']) simp
qed

end
