(* ===== verification/Vm_Map_Enter.thy ===== *)
theory Vm_Map_Enter
  imports Vm_Map_Space
begin

text \<open>
  Entering a mapping: the search begins at the right place, and \<open>vm_map_enter\<close> is first fit.
\<close>

section \<open>Entering a mapping\<close>

text \<open>What an address of a new mapping at \<open>start\<close> sees.\<close>

definition entered :: "link \<Rightarrow> vm_offset_t \<Rightarrow> bool \<Rightarrow> vm_prot_t \<Rightarrow> vm_prot_t \<Rightarrow> vm_inherit_t \<Rightarrow> vm_offset_t \<Rightarrow> vm_offset_t \<Rightarrow> vm_map_entry \<Rightarrow> bool" where
  "entered object offset copy cur_prot max_prot inherit start a v \<longleftrightarrow>
     protection v = ucast cur_prot \<and> max_protection v = ucast max_prot \<and> inheritance v = ucast inherit \<and> behavior v = 0 \<and>
     \<not> is_shared v \<and> \<not> is_sub_map v \<and> \<not> in_transition v \<and> wired_count v = 0 \<and>
     (object \<noteq> VM_OBJECT_NULL \<longrightarrow> vme_object v = object \<and> vme_offset v = offset + (a - start) \<and> needs_copy v = copy)"

lemma ucast_back: "(ucast (ucast (x :: 3 word) :: 32 word) :: 3 word) = x" "(ucast (ucast (y :: 2 word) :: 32 word) :: 2 word) = y"
  by (simp_all add: bit_eq_iff bit_simps)

lemma entered_extend:
  assumes "can_extend m p object start cp mp inh s"
  shows "entered object offset copy cp mp inh start a (region_view a (ent s p\<lparr>vme_end := fin\<rparr>))"
proof -
  have "behavior (ent s p) = 0" using assms ucast_back(2) [of "behavior (ent s p)"] by (simp add: can_extend_def VM_BEHAVIOR_DEFAULT_def)
  with assms show ?thesis by (auto simp: can_extend_def entered_def region_view_def ucast_back)
qed

lemma enter_range_exact:
  assumes ok: "map_ok m s xs" "map_lock (vs_maps s m) = WriteLocked" "\<not> wiring_required (vs_maps s m)" "vs_zone s \<noteq> []"
    and gap: "gap_ok m s xs size' msk p a fin" and al: "page_aligned a" "page_aligned fin"
  shows "\<exists>s' xs'. enter_range env m p a fin object offset copy cp mp inh s = Some (KERN_SUCCESS, s') \<and> map_ok m s' xs' \<and> map_lock (vs_maps s' m) = Unlocked \<and>
    (\<forall>b. if a \<le> b \<and> b < fin then \<exists>v. mapped (regions s' xs') b = Some v \<and> entered object offset copy cp mp inh a b v
         else mapped (regions s' xs') b = mapped (regions s xs) b)"
proof -
  from gap obtain as bs where g: "xs = as @ bs" "p = last (hdr_of m s # as)" "a < fin"
    "regions_ok (vm_map_min m s) a (regions s as)" "regions_ok fin (vm_map_max m s) (regions s bs)" by (auto simp: gap_ok_def)
  have done_: ?thesis if "enter_range env m p a fin object offset copy cp mp inh s = (case vm_map_unlock m s1 of None \<Rightarrow> None | Some s2 \<Rightarrow> Some (KERN_SUCCESS, s2))"
    "map_ok m s1 xs1" "map_frame m s s1"
    "\<And>b. if a \<le> b \<and> b < fin then \<exists>v. mapped (regions s1 xs1) b = Some v \<and> entered object offset copy cp mp inh a b v else mapped (regions s1 xs1) b = mapped (regions s xs) b"
    for s1 xs1
  proof -
    have "map_lock (vs_maps s1 m) = WriteLocked" using ok(2) map_frameD(2) [OF that(3)] by simp
    from unlock_ok [OF that(2) this] obtain s2 where "vm_map_unlock m s1 = Some s2" "map_ok m s2 xs1" "map_lock (vs_maps s2 m) = Unlocked"
      "\<And>ys. regions s2 ys = regions s1 ys" by blast
    with that show ?thesis by (intro exI [of _ s2] exI [of _ xs1]) simp
  qed
  show ?thesis
  proof (cases "can_extend m p object a cp mp inh s \<and>
      object_coalesce env (vme_object (ent s p)) (vme_offset (ent s p)) (vme_end (ent s p) - vme_start (ent s p)) (fin - vme_end (ent s p)) s")
    case True
    then have p: "p \<noteq> hdr_of m s" "vme_end (ent s p) = a" by (auto simp: can_extend_def)
    with g(2) obtain as' where as: "as = as' @ [p]" by (cases as rule: rev_cases) auto
    have xs: "xs = as' @ p # bs" using g(1) as by simp
    from extend_exact [OF ok(1) [unfolded xs] p(2) g(5,3) al(2)] obtain s1 where
      e: "UPDATE_FIRST_FREE m (first_free (vs_maps s m)) (upd_ent p (vme_end_update (\<lambda>_. fin)) (upd_map m (\<lambda>mp. mp\<lparr>map_size := map_size mp + (fin - a)\<rparr>) s)) = Some s1"
        "map_ok m s1 (as' @ p # bs)" "map_frame m s s1" "regions s1 (as' @ p # bs) = regions s as' @ core (ent s p\<lparr>vme_end := fin\<rparr>) # regions s bs" by blast
    have r: "regions_ok (vm_map_min m s) (vme_start (ent s p)) (regions s as')" "vme_start (ent s p) < a" "regions_ok a (vm_map_max m s) (regions s bs)"
      using map_okD(2) [OF ok(1)] p(2) unfolding xs by (simp_all add: regions_def regions_ok_append)
    have "mapped (regions s1 (as' @ p # bs)) b = (if vme_start (ent s p) \<le> b \<and> b < fin then Some (region_view b (ent s p\<lparr>vme_end := fin\<rparr>)) else mapped (regions s as' @ regions s bs) b)" for b
      using mapped_insert [of "vm_map_min m s" "core (ent s p\<lparr>vme_end := fin\<rparr>)" "regions s as'" "vm_map_max m s" "regions s bs" b] r g(3,5)
      unfolding e(4) by (simp add: has_address_def)
    moreover have "mapped (regions s xs) b = (if vme_start (ent s p) \<le> b \<and> b < a then Some (region_view b (ent s p)) else mapped (regions s as' @ regions s bs) b)" for b
      using mapped_insert [of "vm_map_min m s" "cores s p" "regions s as'" "vm_map_max m s" "regions s bs" b] r p(2)
      unfolding xs by (simp add: has_address_def regions_def cores_def)
    moreover have "region_view b (ent s p\<lparr>vme_end := fin\<rparr>) = region_view b (ent s p)" for b by (simp add: region_view_def)
    ultimately have "if a \<le> b \<and> b < fin then \<exists>v. mapped (regions s1 (as' @ p # bs)) b = Some v \<and> entered object offset copy cp mp inh a b v
        else mapped (regions s1 (as' @ p # bs)) b = mapped (regions s xs) b" for b
      using entered_extend [of m p object a cp mp inh s offset copy b fin] True r(2) g(3) by auto
    moreover have "enter_range env m p a fin object offset copy cp mp inh s = (case vm_map_unlock m s1 of None \<Rightarrow> None | Some s2 \<Rightarrow> Some (KERN_SUCCESS, s2))"
      using True e(1) p(2) by (simp add: enter_range_def Let_def split: option.splits)
    ultimately show ?thesis using done_ [OF _ e(2,3)] by blast
  next
    case False
    from insert_exact [OF ok(1) [unfolded g(1)] g(4,5,3) al ok(4), of object offset copy False False cp mp VM_BEHAVIOR_DEFAULT inh 0] obtain q s1 e where
      i: "vm_map_entry_insert m p a fin object offset copy False False cp mp VM_BEHAVIOR_DEFAULT inh 0 s = Some (q, s1)" "map_ok m s1 (as @ q # bs)" "map_frame m s s1"
        "regions s1 (as @ q # bs) = regions s as @ e # regions s bs"
        "e = \<lparr>vme_prev = 0, vme_next = 0, vme_start = a, vme_end = fin, vme_object = object, vme_offset = offset, is_shared = False, is_sub_map = False,
          in_transition = False, needs_wakeup = False, behavior = ucast VM_BEHAVIOR_DEFAULT, needs_copy = copy, protection = ucast cp, max_protection = ucast mp,
          inheritance = ucast inh, wired_count = ucast (0 :: 32 word), user_wired_count = 0\<rparr>" unfolding g(2) [symmetric] by blast
    have "mapped (regions s1 (as @ q # bs)) b = (if has_address b e then Some (region_view b e) else mapped (regions s xs) b)" for b
      using mapped_insert [of "vm_map_min m s" e "regions s as" "vm_map_max m s" "regions s bs" b] g(1,3,4,5) i(5) unfolding i(4) by (simp add: regions_def)
    then have "if a \<le> b \<and> b < fin then \<exists>v. mapped (regions s1 (as @ q # bs)) b = Some v \<and> entered object offset copy cp mp inh a b v
        else mapped (regions s1 (as @ q # bs)) b = mapped (regions s xs) b" for b
      using i(5) by (auto simp: has_address_def entered_def region_view_def VM_BEHAVIOR_DEFAULT_def)
    moreover have "enter_range env m p a fin object offset copy cp mp inh s = (case vm_map_unlock m s1 of None \<Rightarrow> None | Some s2 \<Rightarrow> Some (KERN_SUCCESS, s2))"
      using False i(1) ok(3) map_frameD(6) [OF i(3)] by (auto simp: enter_range_def vm_map_unlock_def split: option.splits)
    ultimately show ?thesis using done_ [OF _ i(2,3)] by blast
  qed
qed


subsection \<open>Where the search begins\<close>

lemma contiguous_mapped:
  assumes "contiguous_from (cores s) lo (as @ [p])" "lo \<le> b" "b < vme_end (ent s p)"
  shows "mapped (regions s (as @ p # bs)) b \<noteq> None"
  using assms
proof (induction as arbitrary: lo)
  case (Cons x as)
  then show ?case by (cases "b < vme_end (ent s x)") (auto simp: regions_def mapped_Cons has_address_def not_less)
qed (auto simp: regions_def mapped_Cons has_address_def)

lemma fits_unmapped: "fits m s xs size' msk b \<Longrightarrow> 0 < size' \<Longrightarrow> mapped (regions s xs) b = None"
proof -
  assume f: "fits m s xs size' msk b" and size': "0 < size'"
  have "b < b + size'" using unat_plus_no_wrap [of b size' "vm_map_max m s"] f size' by (simp add: fits_def word_less_nat_alt)
  then show ?thesis using f by (auto simp: fits_def)
qed

definition search_start :: "link \<Rightarrow> vm_state \<Rightarrow> link list \<Rightarrow> vm_size_t \<Rightarrow> vm_offset_t \<Rightarrow> vm_offset_t \<Rightarrow> link \<Rightarrow> vm_offset_t \<Rightarrow> bool" where
  "search_start m s xs size' msk start p st \<longleftrightarrow> start \<le> st \<and> page_aligned st \<and> (\<forall>b. start \<le> b \<and> fits m s xs size' msk b \<longrightarrow> st \<le> b) \<and>
     (\<exists>as bs. xs = as @ bs \<and> p = last (hdr_of m s # as) \<and> regions_ok (vm_map_min m s) st (regions s as) \<and> regions_ok st (vm_map_max m s) (regions s bs))"

lemma search_after:
  assumes ok: "map_ok m s (as @ p # bs)" and start: "start \<le> vme_end (ent s p)" and size': "0 < size'"
    and full: "\<And>b. start \<le> b \<Longrightarrow> b < vme_end (ent s p) \<Longrightarrow> mapped (regions s (as @ p # bs)) b \<noteq> None"
  shows "search_start m s (as @ p # bs) size' msk start p (vme_end (ent s p))"
proof -
  note d = map_okD [OF ok]
  have "regions_ok (vm_map_min m s) (vme_end (ent s p)) (regions s (as @ [p]))" "regions_ok (vme_end (ent s p)) (vm_map_max m s) (regions s bs)"
    using d(2) by (simp_all add: regions_def regions_ok_append)
  moreover have "vme_end (ent s p) \<le> b" if "start \<le> b" "fits m s (as @ p # bs) size' msk b" for b
    using full [of b] fits_unmapped [OF that(2) size'] that(1) by (meson not_le)
  ultimately show ?thesis using d(8) [of p] start unfolding search_start_def
    by (intro conjI exI [of _ "as @ [p]"] exI [of _ bs]) auto
qed

lemma search_hole:
  assumes ok: "map_ok m s (as @ bs)" and start: "vm_map_min m s \<le> start" "start \<le> vm_map_max m s" "page_aligned start"
    and hole: "\<And>q. q \<in> set as \<Longrightarrow> vme_end (ent s q) \<le> start" "\<And>q. q \<in> set bs \<Longrightarrow> start \<le> vme_start (ent s q)"
  shows "search_start m s (as @ bs) size' msk start (last (hdr_of m s # as)) start"
proof -
  note d = map_okD [OF ok]
  have "regions_ok (vm_map_min m s) start (regions s as)"
  proof (cases as rule: rev_cases)
    case (snoc as' p)
    then show ?thesis using d(2) hole(1) [of p] by (simp add: regions_def regions_ok_append)
  qed (use start in \<open>simp add: regions_def\<close>)
  moreover have "regions_ok start (vm_map_max m s) (regions s bs)"
  proof (cases bs)
    case (Cons p bs')
    then show ?thesis using d(2) hole(2) [of p] by (simp add: regions_def regions_ok_append)
  qed (use start in \<open>simp add: regions_def\<close>)
  ultimately have "\<exists>as' bs'. as @ bs = as' @ bs' \<and> last (hdr_of m s # as) = last (hdr_of m s # as') \<and>
      regions_ok (vm_map_min m s) start (regions s as') \<and> regions_ok start (vm_map_max m s) (regions s bs')" by blast
  with start(3) show ?thesis unfolding search_start_def by (intro conjI allI impI) (erule conjE | assumption | rule order_refl)+
qed

lemma gap_start_exact:
  assumes ok: "map_ok m s xs" and start: "vm_map_min m s \<le> start" "start \<le> vm_map_max m s" "page_aligned start" and size': "0 < size'"
  shows "\<exists>p st s1. gap_start m start s = Some (p, st, s1) \<and> map_ok m s1 xs \<and> map_frame m s s1 \<and> vs_heap s1 = vs_heap s \<and> vs_zone s1 = vs_zone s \<and>
    (\<forall>ys. regions s1 ys = regions s ys) \<and> search_start m s xs size' msk start p st"
proof (cases "start = vm_map_min m s")
  case True
  note d = map_okD [OF ok]
  let ?ff = "first_free (vs_maps s m)"
  have "before_hole (cores s) (vm_map_min m s) (hdr_of m s) xs ?ff" using ok before_hole_hole_before by (simp add: map_ok_def)
  then consider "?ff = hdr_of m s" | as bs where "?ff \<noteq> hdr_of m s" "xs = as @ ?ff # bs" "contiguous_from (cores s) start (as @ [?ff])"
    unfolding before_hole_def True by blast
  then have "search_start m s xs size' msk start ?ff (if ?ff \<noteq> hdr_of m s then vme_end (ent s ?ff) else start)"
  proof cases
    case 1
    have "start \<le> vme_start (ent s q)" if "q \<in> set xs" for q
      using regions_ok_bounds [OF d(2), of "cores s q"] that True by (auto simp: regions_def)
    with search_hole [of m s "[]" xs start] ok start 1 show ?thesis by simp
  next
    case 2
    have "?ff \<in> set xs" by (subst 2(2)) simp
    then have "cores s ?ff \<in> set (regions s xs)" by (simp add: regions_def)
    from regions_ok_bounds [OF d(2) this] have "start \<le> vme_end (ent s ?ff)" unfolding True cores_bounds by (meson less_imp_le order_trans)
    moreover have "\<And>b. start \<le> b \<Longrightarrow> b < vme_end (ent s ?ff) \<Longrightarrow> mapped (regions s (as @ ?ff # bs)) b \<noteq> None" using contiguous_mapped [OF 2(3)] by blast
    ultimately have "search_start m s (as @ ?ff # bs) size' msk start ?ff (vme_end (ent s ?ff))" by (rule search_after [OF ok [unfolded 2(2)] _ size'])
    then show ?thesis unfolding 2(2) [symmetric] if_P [OF 2(1)] .
  qed
  then show ?thesis using ok True by (intro exI [of _ ?ff] exI [of _ "if ?ff \<noteq> hdr_of m s then vme_end (ent s ?ff) else start"] exI [of _ s]) (simp add: gap_start_def Let_def)
next
  case False
  from lookup_ok [OF ok, of start] obtain s1 where
    l: "vm_map_lookup_entry m start s = Some (fst (lookup_spec m s xs start), snd (lookup_spec m s xs start), s1)" "map_ok m s1 xs" "map_frame m s s1"
      "vs_heap s1 = vs_heap s" "vs_zone s1 = vs_zone s" "\<forall>ys. regions s1 ys = regions s ys" by blast
  show ?thesis using map_okD(2) [OF ok]
  proof (cases rule: lookup_spec_cases [where a = start and m = m])
    case (found as p bs)
    have "mapped (regions s (as @ p # bs)) b \<noteq> None" if "start \<le> b" "b < vme_end (ent s p)" for b
      using found(2) that by (auto simp: regions_def mapped_None_iff has_address_def)
    then have "search_start m s xs size' msk start p (vme_end (ent s p))"
      using search_after [of m s as p bs start size' msk] ok size' found(1,2) by (simp add: has_address_def less_imp_le)
    with l False found(3) show ?thesis by (intro exI [of _ p] exI [of _ "vme_end (ent s p)"] exI [of _ s1]) (simp add: gap_start_def)
  next
    case (hole as bs)
    have "search_start m s (as @ bs) size' msk start (last (hdr_of m s # as)) start"
      using ok start hole(1,2,3) by (intro search_hole) (auto simp: less_imp_le)
    then have "search_start m s xs size' msk start (last (hdr_of m s # as)) start" using hole(1) by simp
    with l False hole(4) show ?thesis by (intro exI [of _ "last (hdr_of m s # as)"] exI [of _ start] exI [of _ s1]) (simp add: gap_start_def)
  qed
qed


lemma fits_cong:
  "\<forall>ys. regions s' ys = regions s ys \<Longrightarrow> vm_map_min m s' = vm_map_min m s \<Longrightarrow> vm_map_max m s' = vm_map_max m s \<Longrightarrow> fits m s' xs size' msk a = fits m s xs size' msk a"
  by (simp add: fits_def)

lemma search_exact:
  assumes ok: "map_ok m s xs" and start: "vm_map_min m s \<le> start" "start \<le> vm_map_max m s" "page_aligned start" and size': "0 < size'"
    and k: "msk = mask k" "k \<le> 32"
  shows "\<exists>p st s1 g. gap_start m start s = Some (p, st, s1) \<and> find_gap s1 (hdr_of m s1) size' msk p st = Some g \<and> map_ok m s1 xs \<and> map_frame m s s1 \<and>
    vs_zone s1 = vs_zone s \<and> (\<forall>ys. regions s1 ys = regions s ys) \<and>
    (case g of
       Gap p a fin \<Rightarrow> gap_ok m s1 xs size' msk p a fin \<and> start \<le> a \<and> page_aligned a \<and> (\<forall>b. start \<le> b \<and> fits m s xs size' msk b \<longrightarrow> a \<le> b)
     | _ \<Rightarrow> \<forall>b. start \<le> b \<longrightarrow> \<not> fits m s xs size' msk b)"
proof -
  from gap_start_exact [OF ok start size', of msk] obtain p st s1 where
    g: "gap_start m start s = Some (p, st, s1)" "map_ok m s1 xs" "map_frame m s s1" "vs_heap s1 = vs_heap s" "vs_zone s1 = vs_zone s"
      "\<forall>ys. regions s1 ys = regions s ys" "search_start m s xs size' msk start p st" by (elim exE conjE) (rule that; assumption)
  note fr = map_frameD [OF g(3)]
  note same = fits_cong [OF g(6) fr(7,8)]
  from g(7) obtain as bs where
    st: "start \<le> st" "page_aligned st" "\<And>b. start \<le> b \<Longrightarrow> fits m s xs size' msk b \<Longrightarrow> st \<le> b" "xs = as @ bs" "p = last (hdr_of m s # as)"
      "regions_ok (vm_map_min m s) st (regions s as)" "regions_ok st (vm_map_max m s) (regions s bs)" unfolding search_start_def by blast
  have al: "\<forall>q \<in> set bs. page_aligned (vme_end (ent s1 q))" using map_okD(8) [OF g(2)] st(4) by auto
  have r: "regions_ok (vm_map_min m s1) st (regions s1 as)" "regions_ok st (vm_map_max m s1) (regions s1 bs)"
    unfolding fr(7,8) using st(6,7) g(6) by simp_all
  from find_gap_exact [OF map_okD(1) [OF g(2) [unfolded st(4)]] r k size' st(2) al, folded st(4), unfolded fr(1), folded st(5), folded fr(1)] obtain gp where
    f: "find_gap s1 (hdr_of m s1) size' msk p st = Some gp"
      "case gp of Gap p a fin \<Rightarrow> gap_ok m s1 xs size' msk p a fin \<and> st \<le> a \<and> page_aligned a \<and> (\<forall>b. st \<le> b \<and> fits m s1 xs size' msk b \<longrightarrow> a \<le> b)
       | _ \<Rightarrow> \<forall>b. st \<le> b \<longrightarrow> \<not> fits m s1 xs size' msk b"
    by (elim exE conjE) (rule that; assumption)
  have "case gp of Gap p a fin \<Rightarrow> gap_ok m s1 xs size' msk p a fin \<and> start \<le> a \<and> page_aligned a \<and> (\<forall>b. start \<le> b \<and> fits m s xs size' msk b \<longrightarrow> a \<le> b)
       | _ \<Rightarrow> \<forall>b. start \<le> b \<longrightarrow> \<not> fits m s xs size' msk b"
    using f(2) st(1,3) unfolding same by (cases gp) (auto intro: order_trans)
  with g(1-3,5,6) f(1) show ?thesis by blast
qed

lemma page_aligned_plus: "page_aligned a \<Longrightarrow> page_aligned b \<Longrightarrow> page_aligned (a + b)"
proof -
  assume "page_aligned a" "page_aligned b"
  then have "2 ^ 12 dvd (unat a + unat b) mod 2 ^ 32" unfolding page_aligned_def page_mask and_mask_0_iff
    by (intro dvd_mod dvd_add le_imp_power_dvd) simp_all
  then show ?thesis unfolding page_aligned_def page_mask and_mask_0_iff by (simp add: unat_word_ariths)
qed

lemma enter_anywhere:
  assumes ok: "map_ok m s xs" "map_lock (vs_maps s m) = WriteLocked" "\<not> wait_for_space (vs_maps s m)" "\<not> wiring_required (vs_maps s m)" "vs_zone s \<noteq> []"
    and start: "vm_map_min m s \<le> start" "start \<le> vm_map_max m s" "page_aligned start" and size': "0 < size'" "page_aligned size'"
    and k: "msk = mask k" "k \<le> 32"
  shows "\<exists>p st s1 g. gap_start m start s = Some (p, st, s1) \<and> find_gap s1 (hdr_of m s1) size' msk p st = Some g \<and> \<not> wait_for_space (vs_maps s1 m) \<and>
    (case g of
       Gap p a fin \<Rightarrow> fin = a + size' \<and> start \<le> a \<and> fits m s xs size' msk a \<and> (\<forall>b. start \<le> b \<and> fits m s xs size' msk b \<longrightarrow> a \<le> b) \<and>
         (\<exists>s' xs'. enter_range env m p a fin object offset copy cp mp inh s1 = Some (KERN_SUCCESS, s') \<and> map_ok m s' xs' \<and> map_lock (vs_maps s' m) = Unlocked \<and>
           (\<forall>b. if a \<le> b \<and> b < fin then \<exists>v. mapped (regions s' xs') b = Some v \<and> entered object offset copy cp mp inh a b v
                else mapped (regions s' xs') b = mapped (regions s xs) b))
     | _ \<Rightarrow> (\<forall>b. start \<le> b \<longrightarrow> \<not> fits m s xs size' msk b) \<and> map_ok m s1 xs \<and> map_lock (vs_maps s1 m) = WriteLocked \<and> (\<forall>ys. regions s1 ys = regions s ys))"
proof -
  from search_exact [OF ok(1) start size'(1) k] obtain p st s1 g where
    s1: "gap_start m start s = Some (p, st, s1)" "find_gap s1 (hdr_of m s1) size' msk p st = Some g" "map_ok m s1 xs" "map_frame m s s1"
      "vs_zone s1 = vs_zone s" "\<forall>ys. regions s1 ys = regions s ys"
      "case g of
       Gap p a fin \<Rightarrow> gap_ok m s1 xs size' msk p a fin \<and> start \<le> a \<and> page_aligned a \<and> (\<forall>b. start \<le> b \<and> fits m s xs size' msk b \<longrightarrow> a \<le> b)
     | _ \<Rightarrow> \<forall>b. start \<le> b \<longrightarrow> \<not> fits m s xs size' msk b" by (elim exE conjE) (rule that; assumption)
  note fr = map_frameD [OF s1(4)]
  have f: "map_lock (vs_maps s1 m) = WriteLocked" "\<not> wiring_required (vs_maps s1 m)" "\<not> wait_for_space (vs_maps s1 m)" "vs_zone s1 \<noteq> []" using ok fr(2,5,6) s1(5) by simp_all
  show ?thesis
  proof (cases g)
    case (Gap q a fin)
    then have g: "gap_ok m s1 xs size' msk q a fin" "start \<le> a" "page_aligned a" "\<forall>b. start \<le> b \<and> fits m s xs size' msk b \<longrightarrow> a \<le> b" using s1(7) by simp_all
    have fin: "fin = a + size'" using g(1) by (auto simp: gap_ok_def)
    have "vm_map_min m s1 \<le> a" unfolding fr(7) using start(1) g(2) by (rule order_trans)
    from gap_fits [OF g(1) this] have "fits m s xs size' msk a" unfolding fits_cong [OF s1(6) fr(7,8)] .
    moreover from page_aligned_plus [OF g(3) size'(2)] have "page_aligned fin" unfolding fin .
    note enter_range_exact [OF s1(3) f(1,2,4) g(1,3) this, where env = env and object = object and offset = offset and copy = copy and cp = cp and mp = mp and inh = inh,
      unfolded s1(6) [rule_format]]
    ultimately show ?thesis using s1(1,2) f(3) g(2,4) fin unfolding Gap
      apply -
      apply (rule exI [of _ p], rule exI [of _ st], rule exI [of _ s1], rule exI [of _ "Gap q a fin"])
      apply (unfold gap.case)
      by (intro conjI; assumption | rule refl)
  qed (use s1 f in simp_all)
qed

text \<open>The rest of \<open>vm_map_enter\<close> behind the lock and the check of the start.\<close>

lemma enter_locked:
  assumes ok: "map_ok m s xs" "map_lock (vs_maps s m) = WriteLocked" "\<not> wait_for_space (vs_maps s m)" "\<not> wiring_required (vs_maps s m)" "vs_zone s \<noteq> []"
    and start: "vm_map_min m s \<le> start" "start \<le> vm_map_max m s" "page_aligned start" and args: "0 < size'" "page_aligned size'" "msk = mask k" "k \<le> 32"
  shows "\<exists>p st s1 g kr a s' xs'. gap_start m start s = Some (p, st, s1) \<and> find_gap s1 (hdr_of m s1) size' msk p st = Some g \<and> \<not> wait_for_space (vs_maps s1 m) \<and>
    (case g of
       Gap p start fin \<Rightarrow> do {
         (kr, s2) \<leftarrow> enter_range env m p start fin object offset copy cp mp inh s1;
         Some (kr, start, s2)
       }
     | GapWraps \<Rightarrow> Some (KERN_NO_SPACE, address, s1)
     | GapBeyond \<Rightarrow> map_option (\<lambda>s'. (KERN_NO_SPACE, address, s')) (vm_map_unlock m s1)) = Some (kr, a, s') \<and> map_ok m s' xs' \<and>
    (if \<exists>b. start \<le> b \<and> fits m s xs size' msk b
     then kr = KERN_SUCCESS \<and> map_lock (vs_maps s' m) = Unlocked \<and> start \<le> a \<and> fits m s xs size' msk a \<and>
       (\<forall>b. start \<le> b \<and> fits m s xs size' msk b \<longrightarrow> a \<le> b) \<and>
       (\<forall>b. if a \<le> b \<and> b < a + size' then \<exists>v. mapped (regions s' xs') b = Some v \<and> entered object offset copy cp mp inh a b v
            else mapped (regions s' xs') b = mapped (regions s xs) b)
     else kr = KERN_NO_SPACE \<and> mapped (regions s' xs') = mapped (regions s xs))" (is "\<exists>p st s1 g kr a s' xs'. ?Q p st s1 g kr a s' xs'")
proof -
  from enter_anywhere [OF ok start args, of env object offset copy cp mp inh] obtain p st s1 g where
    g: "gap_start m start s = Some (p, st, s1)" "find_gap s1 (hdr_of m s1) size' msk p st = Some g" "\<not> wait_for_space (vs_maps s1 m)"
      "case g of
       Gap p a fin \<Rightarrow> fin = a + size' \<and> start \<le> a \<and> fits m s xs size' msk a \<and> (\<forall>b. start \<le> b \<and> fits m s xs size' msk b \<longrightarrow> a \<le> b) \<and>
         (\<exists>s' xs'. enter_range env m p a fin object offset copy cp mp inh s1 = Some (KERN_SUCCESS, s') \<and> map_ok m s' xs' \<and> map_lock (vs_maps s' m) = Unlocked \<and>
           (\<forall>b. if a \<le> b \<and> b < fin then \<exists>v. mapped (regions s' xs') b = Some v \<and> entered object offset copy cp mp inh a b v
                else mapped (regions s' xs') b = mapped (regions s xs) b))
     | _ \<Rightarrow> (\<forall>b. start \<le> b \<longrightarrow> \<not> fits m s xs size' msk b) \<and> map_ok m s1 xs \<and> map_lock (vs_maps s1 m) = WriteLocked \<and> (\<forall>ys. regions s1 ys = regions s ys)"
    by (elim exE conjE) (rule that; assumption)
  show ?thesis
  proof (cases g)
    case (Gap q a fin)
    with g(4) obtain s' xs' where
      r: "fin = a + size'" "start \<le> a" "fits m s xs size' msk a" "\<forall>b. start \<le> b \<and> fits m s xs size' msk b \<longrightarrow> a \<le> b"
        "enter_range env m q a fin object offset copy cp mp inh s1 = Some (KERN_SUCCESS, s')" "map_ok m s' xs'" "map_lock (vs_maps s' m) = Unlocked"
        "\<forall>b. if a \<le> b \<and> b < fin then \<exists>v. mapped (regions s' xs') b = Some v \<and> entered object offset copy cp mp inh a b v
              else mapped (regions s' xs') b = mapped (regions s xs) b" by (auto simp del: split_paired_Ex)
    then have ex: "\<exists>b. start \<le> b \<and> fits m s xs size' msk b" by blast
    have "?Q p st s1 g KERN_SUCCESS a s' xs'" unfolding if_P [OF ex] Gap using g(1-3) r Gap by simp
    then show ?thesis by blast
  next
    case GapWraps
    then have none: "\<nexists>b. start \<le> b \<and> fits m s xs size' msk b" using g(4) by simp
    have "?Q p st s1 g KERN_NO_SPACE address s1 xs" unfolding if_not_P [OF none] using g GapWraps by simp
    then show ?thesis by blast
  next
    case GapBeyond
    then have none: "\<nexists>b. start \<le> b \<and> fits m s xs size' msk b" using g(4) by simp
    from g(4) GapBeyond have "map_ok m s1 xs" "map_lock (vs_maps s1 m) = WriteLocked" by simp_all
    from unlock_ok [OF this] obtain s2 where s2: "vm_map_unlock m s1 = Some s2" "map_ok m s2 xs" "\<forall>ys. regions s2 ys = regions s1 ys" by blast
    have "?Q p st s1 g KERN_NO_SPACE address s2 xs" unfolding if_not_P [OF none] using g GapBeyond s2 by simp
    then show ?thesis by blast
  qed
qed

text \<open>
  C5: \<open>vm_map_enter\<close> anywhere is first fit. On a well-formed unlocked map, whose callers neither wait for
  space nor require wiring (\<open>wait_for_space\<close> and \<open>wiring_required\<close> are off), with a free map entry, a page-aligned
  address and size and a mask of low bits, it takes the least aligned address at or above the given one at
  which the range is free; exactly the addresses of the range change, to a mapping of the object with
  the protections and the inheritance asked for, and the map is unlocked. When no range is free it
  says so and the mapping is as before.
\<close>

theorem vm_map_enter_first_fit:
  assumes ok: "map_ok m s xs" "map_lock (vs_maps s m) = Unlocked" "\<not> wait_for_space (vs_maps s m)" "\<not> wiring_required (vs_maps s m)" "vs_zone s \<noteq> []"
    and args: "page_aligned address" "0 < size'" "page_aligned size'" "msk = mask k" "k \<le> 32"
  shows "\<exists>kr a s' xs'. vm_map_enter env m address size' msk True object offset copy cp mp inh s = Some (kr, a, s') \<and> map_ok m s' xs' \<and>
    (if \<exists>b. address \<le> b \<and> fits m s xs size' msk b
     then kr = KERN_SUCCESS \<and> map_lock (vs_maps s' m) = Unlocked \<and> address \<le> a \<and> fits m s xs size' msk a \<and>
       (\<forall>b. address \<le> b \<and> fits m s xs size' msk b \<longrightarrow> a \<le> b) \<and>
       (\<forall>b. if a \<le> b \<and> b < a + size' then \<exists>v. mapped (regions s' xs') b = Some v \<and> entered object offset copy cp mp inh a b v
            else mapped (regions s' xs') b = mapped (regions s xs) b)
     else kr = KERN_NO_SPACE \<and> mapped (regions s' xs') = mapped (regions s xs))"
proof -
  from lock_ok [OF ok(1,2)] obtain s0 where
    s0: "vm_map_lock m s = Some s0" "map_ok m s0 xs" "map_lock (vs_maps s0 m) = WriteLocked" "vs_zone s0 = vs_zone s"
      "vm_map_min m s0 = vm_map_min m s" "vm_map_max m s0 = vm_map_max m s" "\<forall>ys. regions s0 ys = regions s ys"
      "wait_for_space (vs_maps s0 m) = wait_for_space (vs_maps s m)" "wiring_required (vs_maps s0 m) = wiring_required (vs_maps s m)" by (elim exE conjE) (rule that; assumption)
  define start where "start = (if address < vm_map_min m s0 then vm_map_min m s0 else address)"
  have above: "address \<le> b \<and> fits m s xs size' msk b \<longleftrightarrow> start \<le> b \<and> fits m s0 xs size' msk b" for b
    unfolding fits_cong [OF s0(7,5,6)] start_def s0(5) by (auto simp: fits_def)
  note run = vm_map_enter.simps [of env m address size' msk True object offset copy cp mp inh s]
  show ?thesis
  proof (cases "vm_map_max m s0 < start")
    case True
    from unlock_ok [OF s0(2,3)] obtain s1 where
      s1: "vm_map_unlock m s0 = Some s1" "map_ok m s1 xs" "\<forall>ys. regions s1 ys = regions s0 ys" by blast
    have "\<not> (start \<le> b \<and> fits m s0 xs size' msk b)" for b using True by (auto simp: fits_def word_le_nat_alt word_less_nat_alt)
    then have none: "\<nexists>b. address \<le> b \<and> fits m s xs size' msk b" unfolding above by blast
    have "vm_map_enter env m address size' msk True object offset copy cp mp inh s = Some (KERN_NO_SPACE, address, s1)"
      unfolding run s0(1) bind.bind_lunit Let_def start_def [symmetric] using s1(1) True by simp
    then show ?thesis using s1(2,3) s0(7) unfolding if_not_P [OF none] by (intro exI [of _ KERN_NO_SPACE] exI [of _ address] exI [of _ s1] exI [of _ xs]) simp
  next
    case False
    have pre: "\<not> wait_for_space (vs_maps s0 m)" "\<not> wiring_required (vs_maps s0 m)" "vs_zone s0 \<noteq> []" "vm_map_min m s0 \<le> start" "start \<le> vm_map_max m s0" "page_aligned start"
      using ok s0(4,8,9) False args(1) map_okD(8) [OF s0(2), of "hdr_of m s0"] by (auto simp: start_def)
    from enter_locked [OF s0(2,3) pre args(2-5), of env object offset copy cp mp inh address] obtain p st s1 g kr a s' xs' where
      g: "gap_start m start s0 = Some (p, st, s1)" "find_gap s1 (hdr_of m s1) size' msk p st = Some g" "\<not> wait_for_space (vs_maps s1 m)"
        "(case g of
           Gap p start fin \<Rightarrow> do {
             (kr, s2) \<leftarrow> enter_range env m p start fin object offset copy cp mp inh s1;
             Some (kr, start, s2)
           }
         | GapWraps \<Rightarrow> Some (KERN_NO_SPACE, address, s1)
         | GapBeyond \<Rightarrow> map_option (\<lambda>s'. (KERN_NO_SPACE, address, s')) (vm_map_unlock m s1)) = Some (kr, a, s')" "map_ok m s' xs'"
      and r: "if \<exists>b. start \<le> b \<and> fits m s0 xs size' msk b
         then kr = KERN_SUCCESS \<and> map_lock (vs_maps s' m) = Unlocked \<and> start \<le> a \<and> fits m s0 xs size' msk a \<and>
           (\<forall>b. start \<le> b \<and> fits m s0 xs size' msk b \<longrightarrow> a \<le> b) \<and>
           (\<forall>b. if a \<le> b \<and> b < a + size' then \<exists>v. mapped (regions s' xs') b = Some v \<and> entered object offset copy cp mp inh a b v
                else mapped (regions s' xs') b = mapped (regions s0 xs) b)
         else kr = KERN_NO_SPACE \<and> mapped (regions s' xs') = mapped (regions s0 xs)" by (elim exE conjE) (rule that; assumption)
    have "vm_map_enter env m address size' msk True object offset copy cp mp inh s = Some (kr, a, s')"
      unfolding run s0(1) bind.bind_lunit Let_def start_def [symmetric] using False g(1-4) by (cases g) simp_all
    with g(5) r show ?thesis unfolding above [symmetric] s0(7) [rule_format] using above [of a]
      by (intro exI [of _ kr] exI [of _ a] exI [of _ s'] exI [of _ xs']) (simp split: if_splits del: split_paired_Ex)
  qed
qed

end
