(* ===== verification/Vm_Map_Remove.thy ===== *)
theory Vm_Map_Remove
  imports Vm_Map_Enter
begin

text \<open>
  Removing a range: an entry is taken out of the list, and \<open>vm_map_remove\<close> unmaps exactly its range.
\<close>

section \<open>Taking an entry out\<close>

lemma contiguous_before_hole: "contiguous_from h lo as \<Longrightarrow> before_hole h lo hdr (as @ bs) (last (hdr # as))"
  by (cases as rule: rev_cases) (auto simp: before_hole_def)

lemma before_hole_remove:
  assumes b: "before_hole h lo hdr (as @ p # bs) ff" and r: "regions_ok lo hi (map h (as @ p # bs))" and lo: "vme_start (h hdr) = lo"
  shows "before_hole h lo hdr (as @ bs) (if vme_start (h p) \<le> vme_start (h ff) then last (hdr # as) else ff)"
proof (cases "ff = hdr")
  case True
  have "as = []" if "vme_start (h p) \<le> lo"
  proof (cases as)
    case (Cons x as')
    then have "vme_start (h p) \<ge> vme_end (h x)" "lo \<le> vme_start (h x)" "vme_start (h x) < vme_end (h x)"
      using r regions_ok_bounds [of "vme_end (h x)" hi "map h (as' @ p # bs)" "h p"] by auto
    with that show ?thesis by auto
  qed simp
  with True lo show ?thesis by (auto simp: before_hole_def)
next
  case False
  with b obtain us ws where u: "as @ p # bs = us @ ff # ws" "contiguous_from h lo (us @ [ff])" by (auto simp: before_hole_def)
  then consider (1) vs where "as = us @ ff # vs" | (2) "us = as" "ff = p" | (3) vs where "us = as @ p # vs" "bs = vs @ ff # ws"
    by (auto simp: append_eq_append_conv2 append_eq_Cons_conv Cons_eq_append_conv)
  then show ?thesis
  proof cases
    case 1
    have "regions_ok (vme_end (h ff)) (vme_start (h p)) (map h vs)" "vme_start (h ff) < vme_end (h ff)" using r 1 by (simp_all add: regions_ok_append)
    then have "\<not> vme_start (h p) \<le> vme_start (h ff)" using regions_ok_le by fastforce
    with 1 u(2) show ?thesis by (auto simp: before_hole_def)
  next
    case 2
    then show ?thesis using u(2) contiguous_before_hole [of h lo as hdr bs] by (simp add: contiguous_from_append)
  next
    case 3
    have "regions_ok (vme_end (h p)) (vme_start (h ff)) (map h vs)" "vme_start (h p) < vme_end (h p)" using r 3(2) by (simp_all add: regions_ok_append)
    then have "vme_start (h p) \<le> vme_start (h ff)" using regions_ok_le by fastforce
    with 3(1) u(2) show ?thesis using contiguous_before_hole [of h lo as hdr bs] by (simp add: contiguous_from_append)
  qed
qed

lemma regions_remove: "regions_ok lo hi (as @ e # bs) \<Longrightarrow> regions_ok lo hi (as @ bs)"
proof (induction as arbitrary: lo)
  case Nil
  then show ?case by (auto intro: regions_ok_mono)
qed auto

lemma map_ok_emit [simp]: "map_ok m (vm_emit es s) xs = map_ok m s xs"
  by (rule map_ok_cong) simp_all

lemma map_frame_emit: "map_frame m s (vm_emit es s)"
  unfolding map_frame_def
  by (intro conjI exI [of _ "nentries (vs_maps s m)"] exI [of _ "map_size (vs_maps s m)"] exI [of _ "hint (vs_maps s m)"] exI [of _ "first_free (vs_maps s m)"]) simp_all

lemma unlink_exact:
  assumes ok: "map_ok m s (as @ p # bs)" and h: "hint (vs_maps s m) \<noteq> p"
  shows "\<exists>s'. vm_map_entry_unlink m p s = Some s' \<and> cores s' = cores s \<and> vs_zone s' = vs_zone s \<and> map_frame m s s' \<and> hint (vs_maps s' m) = hint (vs_maps s m) \<and>
    map_ok m (vm_map_entry_dispose p (upd_map m (\<lambda>mp. mp\<lparr>map_size := map_size mp - (vme_end (ent s p) - vme_start (ent s p))\<rparr>) s')) (as @ bs)"
proof -
  note d = map_okD [OF ok]
  let ?H = "hdr_of m s"
  define s1 where "s1 = unlink_entry m p s"
  have s1: "entries m s1 (as @ bs)" "cores s1 = cores s" "vs_zone s1 = vs_zone s"
    "vs_maps s1 = (vs_maps s)(m := (vs_maps s m)\<lparr>nentries := nentries (vs_maps s m) - 1\<rparr>)" using entries_unlink [OF d(1)] by (simp_all add: s1_def)
  have bnd: "vme_start (ent s1 z) = vme_start (ent s z)" "vme_end (ent s1 z) = vme_end (ent s z)" for z
    using s1(2) cores_bounds [of s1 z] cores_bounds [of s z] by simp_all
  have r: "regions s1 xs = regions s xs" for xs by (simp add: regions_def s1(2))
  have reg: "regions_ok (vm_map_min m s1) (vm_map_max m s1) (regions s1 (as @ bs))"
    unfolding r using d(2) regions_remove [of _ _ "regions s as" "cores s p" "regions s bs"] by (simp add: regions_def bnd s1(4))
  have al: "\<forall>q \<in> set (hdr_of m s1 # as @ bs). page_aligned (vme_start (ent s1 q)) \<and> page_aligned (vme_end (ent s1 q))" using d(8) by (simp add: bnd s1(4))
  have shape: "map_shape m s1 (as @ bs)" using s1(1) reg al by (simp add: map_shape_def)
  let ?ff = "first_free (vs_maps s m)"
  let ?new = "if vme_start (ent s p) \<le> vme_start (ent s ?ff) then vme_prev (ent s p) else ?ff"
  have "before_hole (cores s) (vm_map_min m s) ?H (as @ p # bs) ?ff" using ok before_hole_hole_before by (simp add: map_ok_def)
  from before_hole_remove [OF this, of "vm_map_max m s"] d(2) entries_prev [OF d(1)]
  have bh: "before_hole (cores s1) (vm_map_min m s1) (hdr_of m s1) (as @ bs) ?new" by (simp add: regions_def s1(2,4) bnd del: last.simps split: if_splits)
  define ff where "ff = hole_before (cores s1) (vm_map_min m s1) (hdr_of m s1) (as @ bs)"
  let ?s' = "upd_map m (first_free_update (\<lambda>_. ff)) s1"
  have run: "vm_map_entry_unlink m p s = Some ?s'"
    unfolding vm_map_entry_unlink_def Let_def s1_def [symmetric] UPDATE_FIRST_FREE_def vm_map_to_entry_def
    using first_free_from [OF shape bh, folded ff_def] by simp
  have "map_frame m s ?s'" unfolding map_frame_def
    by (intro conjI exI [of _ "nentries (vs_maps s m) - 1"] exI [of _ "map_size (vs_maps s m)"] exI [of _ "hint (vs_maps s m)"] exI [of _ ff])
      (simp_all add: s1(4) bnd)
  moreover have "map_ok m (vm_map_entry_dispose p (upd_map m (\<lambda>mp. mp\<lparr>map_size := map_size mp - (vme_end (ent s p) - vme_start (ent s p))\<rparr>) ?s')) (as @ bs)"
  proof -
    have sz: "map_size (vs_maps s m) - (vme_end (ent s p) - vme_start (ent s p)) = sum_list (map (\<lambda>e. vme_end e - vme_start e) (regions s1 (as @ bs)))"
      unfolding r using d(7) by (simp add: map_inv_def regions_def)
    have z: "distinct (p # vs_zone s)" "set (p # vs_zone s) \<inter> set (?H # as @ bs) = {}" using d(4,5,6) by auto
    have ne: "nentries (vs_maps s m) - 1 = of_nat (length (as @ bs))" using d(7) by (simp add: map_inv_def)
    have hi: "hint (vs_maps s m) \<in> set (?H # as @ bs)" using d(3) h by auto
    have "cores (t\<lparr>vs_zone := y\<rparr>) = cores t" "entries m (t\<lparr>vs_zone := y\<rparr>) = entries m t" for t :: vm_state and y
      by (auto simp: cores_def entries_def entry_links_def fun_eq_iff)
    then show ?thesis using s1 reg al sz z ne hi
      by (simp add: map_ok_def map_inv_def vm_map_entry_dispose_def entries_def entry_links_def regions_def ff_def)
  qed
  ultimately show ?thesis using run s1(2,3,4) by (intro exI [of _ ?s']) simp
qed

lemma entry_delete_exact:
  assumes ok: "map_ok m s (as @ p # bs)" and h: "hint (vs_maps s m) \<noteq> p"
  shows "\<exists>s'. vm_map_entry_delete m p s = Some s' \<and> map_ok m s' (as @ bs) \<and> cores s' = cores s \<and> vs_zone s' = p # vs_zone s \<and> map_frame m s s' \<and>
    hint (vs_maps s' m) = hint (vs_maps s m)"
proof -
  define es where "es = (if is_sub_map (ent s p) then [VmMapDeallocate (vme_object (ent s p))]
    else if vme_object (ent s p) = VM_OBJECT_NULL then [] else [VmObjectDeallocate (vme_object (ent s p))])"
  have s1: "(if is_sub_map (ent s p) then vm_emit [VmMapDeallocate (vme_object (ent s p))] s
               else vm_object_deallocate (vme_object (ent s p)) s) = vm_emit es s"
    by (simp add: es_def vm_object_deallocate_def vm_emit_def)
  from unlink_exact [of m "vm_emit es s" as p bs] ok h obtain s2 where
    s2: "vm_map_entry_unlink m p (vm_emit es s) = Some s2" "cores s2 = cores s" "vs_zone s2 = vs_zone s" "map_frame m (vm_emit es s) s2"
      "hint (vs_maps s2 m) = hint (vs_maps s m)"
      "map_ok m (vm_map_entry_dispose p (upd_map m (\<lambda>mp. mp\<lparr>map_size := map_size mp - (vme_end (ent s p) - vme_start (ent s p))\<rparr>) s2)) (as @ bs)" by auto
  let ?s' = "vm_map_entry_dispose p (upd_map m (\<lambda>mp. mp\<lparr>map_size := map_size mp - (vme_end (ent s p) - vme_start (ent s p))\<rparr>) s2)"
  have "map_frame m s2 ?s'" unfolding map_frame_def
    by (intro conjI exI [of _ "nentries (vs_maps s2 m)"] exI [of _ "map_size (vs_maps s2 m) - (vme_end (ent s p) - vme_start (ent s p))"]
        exI [of _ "hint (vs_maps s2 m)"] exI [of _ "first_free (vs_maps s2 m)"]) (simp_all add: vm_map_entry_dispose_def)
  then have "map_frame m s ?s'" using map_frame_trans [OF map_frame_trans [OF map_frame_emit s2(4)]] by blast
  moreover have "cores ?s' = cores s" "vs_zone ?s' = p # vs_zone s" "hint (vs_maps ?s' m) = hint (vs_maps s m)"
    using s2(2,3,5) by (simp_all add: vm_map_entry_dispose_def)
  ultimately show ?thesis using s2(1,6) s1 by (intro exI [of _ ?s']) (simp add: vm_map_entry_delete_def Let_def)
qed


section \<open>Deleting a range\<close>

definition removable :: "vm_map_entry \<Rightarrow> bool" where
  "removable e \<longleftrightarrow> \<not> in_transition e \<and> wired_count e = 0"

lemma removable_core [simp]: "removable (core e) = removable e" "removable (region_view a e) = removable e" "removable (e\<lparr>vme_end := b\<rparr>) = removable e"
  by (simp_all add: removable_def core_def region_view_def)

lemma removable_cores [simp]: "removable (cores s p) = removable (ent s p)"
  by (simp add: cores_def)

lemma mapped_remove:
  assumes "regions_ok lo hi (as @ e # bs)"
  shows "mapped (as @ bs) a = (if has_address a e then None else mapped (as @ e # bs) a)"
proof -
  have "regions_ok lo (vme_start e) as" "regions_ok (vme_end e) hi bs" using assms by (simp_all add: regions_ok_append)
  from mapped_outside [OF this(1), of a] mapped_outside [OF this(2), of a]
  show ?thesis by (auto simp: mapped_append mapped_Cons has_address_def split: option.split)
qed

lemma clip_end_hint: "vm_map_clip_end m p a s = Some s' \<Longrightarrow> hint (vs_maps s' m) = hint (vs_maps s m)"
  by (auto simp: vm_map_clip_end_def clip_end_split_def vm_map_entry_create_def UPDATE_FIRST_FREE_def split: if_splits list.splits Option.bind_splits)

lemma lookup_hint: "vm_map_lookup_entry m a s = Some (False, p, s') \<Longrightarrow> hint (vs_maps s' m) = p"
  by (auto simp: vm_map_lookup_entry_def SAVE_HINT_def Let_def split: if_splits Option.bind_splits)

text \<open>One round of the loop: the part of the entry below \<open>fin\<close> is taken out.\<close>

lemma delete_step:
  assumes ok: "map_ok m s (as @ p # cs)" and p: "vme_start (ent s p) < fin" "page_aligned fin" "removable (ent s p)" and z: "vs_zone s \<noteq> []"
    and h: "hint (vs_maps s m) \<in> set (hdr_of m s # as)"
  shows "\<exists>s' qs. delete_loop env m fin flags False p False ts s = delete_loop env m fin flags False (hd ((qs @ cs) @ [hdr_of m s])) False ts s' \<and>
    map_ok m s' (as @ qs @ cs) \<and> map_frame m s s' \<and> hint (vs_maps s' m) \<in> set (hdr_of m s # as) \<and> vs_zone s' \<noteq> [] \<and>
    (\<forall>q \<in> set (as @ cs). cores s' q = cores s q) \<and>
    (\<forall>a. mapped (regions s' (as @ qs @ cs)) a = (if vme_start (ent s p) \<le> a \<and> a < min fin (vme_end (ent s p)) then None else mapped (regions s (as @ p # cs)) a)) \<and>
    (if fin < vme_end (ent s p) then \<exists>q. qs = [q] \<and> vme_start (ent s' q) = fin else qs = [])"
proof -
  note d = map_okD [OF ok]
  have pH: "p \<noteq> hdr_of m s" using d(4) by auto
  from clip_end_exact [OF ok p(1,2) z] obtain s1 qs where
    c: "vm_map_clip_end m p fin s = Some s1" "map_ok m s1 (as @ p # qs @ cs)" "vme_start (ent s1 p) = vme_start (ent s p)"
      "vme_end (ent s1 p) = min fin (vme_end (ent s p))" "core (ent s1 p) = core (ent s p\<lparr>vme_end := min fin (vme_end (ent s p))\<rparr>)"
      "mapped (regions s1 (as @ p # qs @ cs)) = mapped (regions s (as @ p # cs))" "map_frame m s s1" "\<forall>q \<in> set (as @ cs). cores s1 q = cores s q"
      "if fin < vme_end (ent s p) then \<exists>q. qs = [q] \<and> vme_start (ent s1 q) = fin \<and> q \<in> set (vs_zone s) else qs = [] \<and> s1 = s" by blast
  have rem: "removable (ent s1 p)" using c(5) p(3) by (metis removable_core(1,3))
  have h1: "hint (vs_maps s1 m) \<in> set (hdr_of m s # as)" using clip_end_hint [OF c(1)] h by simp
  define s2 where "s2 = (if \<not> is_sub_map (ent s1 p) \<and> vme_object (ent s1 p) \<noteq> kernel_object env
    then vm_emit [PmapRemove (map_pmap (vs_maps s1 m)) (vme_start (ent s1 p)) (vme_end (ent s1 p))] s1 else s1)"
  have s2: "map_ok m s2 (as @ p # qs @ cs)" "map_frame m s1 s2" "vs_heap s2 = vs_heap s1" "vs_maps s2 = vs_maps s1" "cores s2 = cores s1"
    using c(2) map_frame_emit by (auto simp: s2_def)
  have "p \<notin> set (hdr_of m s # as)" using d(4) by auto
  then have hp: "hint (vs_maps s2 m) \<noteq> p" using h1 s2(4) by auto
  from entry_delete_exact [OF s2(1) hp] obtain s3 where
    s3: "vm_map_entry_delete m p s2 = Some s3" "map_ok m s3 (as @ qs @ cs)" "cores s3 = cores s2" "vs_zone s3 = p # vs_zone s2" "map_frame m s2 s3"
      "hint (vs_maps s3 m) = hint (vs_maps s2 m)" by blast
  have fr: "map_frame m s s3" using map_frame_trans [OF map_frame_trans [OF c(7) s2(2)] s3(5)] .
  have nxt: "vme_next (ent s2 p) = hd ((qs @ cs) @ [hdr_of m s])"
    using entries_next [OF map_okD(1) [OF s2(1)]] s2(4) map_frameD(1) [OF c(7)] by simp
  have run: "delete_loop env m fin flags False p False ts s = delete_loop env m fin flags False (hd ((qs @ cs) @ [hdr_of m s])) False ts s3"
    using p(1) pH c(1) rem s3(1) nxt
    by (subst delete_loop.simps) (simp add: removable_def s2_def [symmetric])
  have "mapped (regions s3 (as @ qs @ cs)) a = (if has_address a (cores s1 p) then None else mapped (regions s1 (as @ p # qs @ cs)) a)" for a
    using mapped_remove [of "vm_map_min m s1" "vm_map_max m s1" "regions s1 as" "cores s1 p" "regions s1 (qs @ cs)" a] map_okD(2) [OF c(2)] s3(3) s2(5)
    by (simp add: regions_def)
  then have "\<forall>a. mapped (regions s3 (as @ qs @ cs)) a = (if vme_start (ent s p) \<le> a \<and> a < min fin (vme_end (ent s p)) then None else mapped (regions s (as @ p # cs)) a)"
    using c(3,4,6) by (simp add: has_address_def)
  moreover have "if fin < vme_end (ent s p) then \<exists>q. qs = [q] \<and> vme_start (ent s3 q) = fin else qs = []"
    using c(9) s3(3) s2(5) cores_bounds(1) by (metis (no_types))
  moreover have "\<forall>q \<in> set (as @ cs). cores s3 q = cores s q" "hint (vs_maps s3 m) \<in> set (hdr_of m s # as)" "vs_zone s3 \<noteq> []"
    using c(8) s3(3,4,6) s2(4,5) h1 by simp_all
  ultimately show ?thesis using run s3(2) fr by blast
qed

lemma regions_emit [simp]: "regions (vm_emit es s) ys = regions s ys"
  by (simp add: regions_def)

lemma delete_stop:
  assumes "map_ok m s xs" "p = hdr_of m s \<or> fin \<le> vme_start (ent s p)"
  shows "\<exists>s'. delete_loop env m fin flags False p False ts s = Some (KERN_SUCCESS, s') \<and> map_ok m s' xs \<and> map_frame m s s' \<and> (\<forall>ys. regions s' ys = regions s ys)"
proof -
  let ?s' = "if wait_for_space (vs_maps s m) then vm_emit [MapWakeup m] s else s"
  have "delete_loop env m fin flags False p False ts s = Some (KERN_SUCCESS, ?s')"
    using assms(2) by (subst delete_loop.simps) (auto simp: wakeup_waiters_def)
  then show ?thesis using assms(1) map_frame_emit by (intro exI [of _ ?s']) auto
qed

lemma delete_loop_exact:
  assumes "map_ok m s (as @ cs)" "regions_ok lo (vm_map_max m s) (regions s cs)" "regions_ok (vm_map_min m s) lo (regions s as)"
    and "page_aligned fin" "vs_zone s \<noteq> []" "hint (vs_maps s m) \<in> set (hdr_of m s # as)"
    and "\<forall>p \<in> set cs. vme_start (ent s p) < fin \<longrightarrow> removable (ent s p)"
  shows "\<exists>s' xs'. delete_loop env m fin flags False (hd (cs @ [hdr_of m s])) False ts s = Some (KERN_SUCCESS, s') \<and> map_ok m s' xs' \<and> map_frame m s s' \<and>
    (\<forall>a. mapped (regions s' xs') a = (if lo \<le> a \<and> a < fin then None else mapped (regions s (as @ cs)) a))"
  using assms
proof (induction cs arbitrary: s lo)
  case Nil
  have "mapped (regions s as) a = None" if "lo \<le> a" for a using mapped_outside [OF Nil.prems(3), of a] that by simp
  with delete_stop [OF Nil.prems(1), of "hdr_of m s" fin env flags ts] show ?case by fastforce
next
  case (Cons p cs)
  note d = map_okD [OF Cons.prems(1)]
  have p: "lo \<le> vme_start (ent s p)" "vme_start (ent s p) < vme_end (ent s p)" "regions_ok (vme_end (ent s p)) (vm_map_max m s) (regions s cs)"
    using Cons.prems(2) by (auto simp: regions_def)
  have gap: "mapped (regions s (as @ p # cs)) a = None" if "lo \<le> a" "a < vme_start (ent s p)" for a
    using mapped_outside [OF Cons.prems(3), of a] mapped_outside [of "vme_start (ent s p)" "vm_map_max m s" "regions s (p # cs)" a] that p
    by (simp add: regions_def mapped_append)
  show ?case
  proof (cases "vme_start (ent s p) < fin")
    case False
    then have "fin \<le> vme_start (ent s p)" by simp
    from delete_stop [OF Cons.prems(1) disjI2 [OF this], of env flags ts] obtain s' where
      "delete_loop env m fin flags False p False ts s = Some (KERN_SUCCESS, s')" "map_ok m s' (as @ p # cs)" "map_frame m s s'" "\<forall>ys. regions s' ys = regions s ys" by blast
    with gap False show ?thesis by (intro exI [of _ s'] exI [of _ "as @ p # cs"]) auto
  next
    case True
    have "removable (ent s p)" using Cons.prems(7) True by simp
    from delete_step [OF Cons.prems(1) True Cons.prems(4) this Cons.prems(5,6), of env flags ts] obtain s1 qs where
      s1: "delete_loop env m fin flags False p False ts s = delete_loop env m fin flags False (hd ((qs @ cs) @ [hdr_of m s])) False ts s1"
        "map_ok m s1 (as @ qs @ cs)" "map_frame m s s1" "hint (vs_maps s1 m) \<in> set (hdr_of m s # as)" "vs_zone s1 \<noteq> []" "\<forall>q \<in> set (as @ cs). cores s1 q = cores s q"
        "\<forall>a. mapped (regions s1 (as @ qs @ cs)) a = (if vme_start (ent s p) \<le> a \<and> a < min fin (vme_end (ent s p)) then None else mapped (regions s (as @ p # cs)) a)"
        "if fin < vme_end (ent s p) then \<exists>q. qs = [q] \<and> vme_start (ent s1 q) = fin else qs = []" by (elim exE conjE) (rule that; assumption)
    note fr = map_frameD [OF s1(3)]
    show ?thesis
    proof (cases "fin < vme_end (ent s p)")
      case short: True
      with s1(8) obtain q where q: "qs = [q]" "fin \<le> vme_start (ent s1 q)" by auto
      from delete_stop [OF s1(2) disjI2 [OF q(2)], of env flags ts] obtain s' where
        s': "delete_loop env m fin flags False q False ts s1 = Some (KERN_SUCCESS, s')" "map_ok m s' (as @ qs @ cs)" "map_frame m s1 s'" "\<forall>ys. regions s' ys = regions s1 ys" by blast
      have "mapped (regions s' (as @ qs @ cs)) a = (if lo \<le> a \<and> a < fin then None else mapped (regions s (as @ p # cs)) a)" for a
        using s1(7) s'(4) gap [of a] short p(1) by (auto simp: min_def)
      moreover have "delete_loop env m fin flags False p False ts s = Some (KERN_SUCCESS, s')" using s1(1) q(1) s'(1) by simp
      ultimately show ?thesis using s'(2) map_frame_trans [OF s1(3) s'(3)] by (intro exI [of _ s'] exI [of _ "as @ qs @ cs"]) simp
    next
      case long: False
      with s1(8) have qs: "qs = []" by simp
      have r: "regions s1 as = regions s as" "regions s1 cs = regions s cs" using s1(6) by (auto simp: regions_def)
      have "regions_ok (vme_end (ent s p)) (vm_map_max m s1) (regions s1 cs)" "regions_ok (vm_map_min m s1) (vme_end (ent s p)) (regions s1 as)"
        unfolding r fr(7,8) using p Cons.prems(3) by (auto intro: regions_ok_mono)
      moreover have "\<forall>q \<in> set cs. vme_start (ent s1 q) < fin \<longrightarrow> removable (ent s1 q)"
        using Cons.prems(7) s1(6) by (metis UnCI cores_bounds(1) list.set_intros(2) removable_cores set_append)
      moreover have "map_ok m s1 (as @ cs)" "hint (vs_maps s1 m) \<in> set (hdr_of m s1 # as)" using s1(2,4) qs fr(1) by simp_all
      ultimately obtain s' xs' where i: "delete_loop env m fin flags False (hd (cs @ [hdr_of m s1])) False ts s1 = Some (KERN_SUCCESS, s')" "map_ok m s' xs'" "map_frame m s1 s'"
        "\<forall>a. mapped (regions s' xs') a = (if vme_end (ent s p) \<le> a \<and> a < fin then None else mapped (regions s1 (as @ cs)) a)"
        using Cons.IH [of s1 "vme_end (ent s p)"] Cons.prems(4) s1(5) by blast
      have "mapped (regions s' xs') a = (if lo \<le> a \<and> a < fin then None else mapped (regions s (as @ p # cs)) a)" for a
        using i(4) s1(7) gap [of a] long p(1,2) qs by (auto simp: min_def)
      moreover have "delete_loop env m fin flags False p False ts s = Some (KERN_SUCCESS, s')" using s1(1) qs i(1) fr(1) by simp
      ultimately show ?thesis using i(2) map_frame_trans [OF s1(3) i(3)] by (intro exI [of _ s'] exI [of _ xs']) simp
    qed
  qed
qed


lemma range_removable:
  assumes ok: "map_ok m s (as @ cs)" and lo: "regions_ok lo (vm_map_max m s) (regions s cs)"
    and r: "\<And>a v. lo \<le> a \<Longrightarrow> a < fin \<Longrightarrow> mapped (regions s (as @ cs)) a = Some v \<Longrightarrow> removable v"
  shows "\<forall>p \<in> set cs. vme_start (ent s p) < fin \<longrightarrow> removable (ent s p)"
proof (intro ballI impI)
  fix p assume p: "p \<in> set cs" "vme_start (ent s p) < fin"
  then obtain us ws where cs: "cs = us @ p # ws" by (meson split_list)
  have b: "lo \<le> vme_start (ent s p)" "vme_start (ent s p) < vme_end (ent s p)"
    using regions_ok_bounds [OF lo, of "cores s p"] p(1) by (simp_all add: regions_def)
  have "mapped (regions s (as @ cs)) (vme_start (ent s p)) = Some (region_view (vme_start (ent s p)) (cores s p))"
    using mapped_middle [of "vm_map_min m s" "vm_map_max m s" "regions s (as @ us)" "cores s p" "regions s ws" "vme_start (ent s p)"] map_okD(2) [OF ok] b(2)
    by (simp add: regions_def cs has_address_def)
  from r [OF b(1) p(2) this] show "removable (ent s p)" by simp
qed

lemma map_ok_hint: "map_ok m s xs \<Longrightarrow> h \<in> set (hdr_of m s # xs) \<Longrightarrow> map_ok m (SAVE_HINT m h s) xs"
  unfolding SAVE_HINT_def by (rule map_ok_upd_map) simp_all

lemma map_frame_hint: "map_frame m s (SAVE_HINT m h s)"
  unfolding map_frame_def SAVE_HINT_def
  by (intro conjI exI [of _ "nentries (vs_maps s m)"] exI [of _ "map_size (vs_maps s m)"] exI [of _ h] exI [of _ "first_free (vs_maps s m)"]) simp_all

lemma delete_exact:
  assumes ok: "map_ok m s xs" and al: "page_aligned start" "page_aligned fin" and z: "2 \<le> length (vs_zone s)"
    and r: "\<And>a v. start \<le> a \<Longrightarrow> a < fin \<Longrightarrow> mapped (regions s xs) a = Some v \<Longrightarrow> removable v"
  shows "\<exists>s' xs'. vm_map_delete env m start fin flags s = Some (KERN_SUCCESS, s') \<and> map_ok m s' xs' \<and> map_frame m s s' \<and>
    (\<forall>a. mapped (regions s' xs') a = (if start \<le> a \<and> a < fin then None else mapped (regions s xs) a))"
proof -
  from lookup_ok [OF ok, of start] obtain s1 where
    l: "vm_map_lookup_entry m start s = Some (fst (lookup_spec m s xs start), snd (lookup_spec m s xs start), s1)" "map_ok m s1 xs" "map_frame m s s1"
      "vs_heap s1 = vs_heap s" "vs_zone s1 = vs_zone s" "\<forall>ys. regions s1 ys = regions s ys" by blast
  note fr = map_frameD [OF l(3)]
  show ?thesis using map_okD(2) [OF ok]
  proof (cases rule: lookup_spec_cases [where a = start and m = m])
    case (found as p bs)
    have p: "has_address start (ent s1 p)" "map_ok m s1 (as @ p # bs)" "vs_zone s1 \<noteq> []" using found l(2,4,5) z by auto
    from clip_start_exact [OF p(2,1) al(1) p(3)] obtain s2 as' where
      s2: "vm_map_clip_start m p start s1 = Some s2" "map_ok m s2 (as' @ p # bs)" "vme_start (ent s2 p) = start"
        "mapped (regions s2 (as' @ p # bs)) = mapped (regions s1 (as @ p # bs))" "length (vs_zone s1) \<le> length (vs_zone s2) + 1" "map_frame m s1 s2" by blast
    define s3 where "s3 = SAVE_HINT m (last (hdr_of m s2 # as')) s2"
    have prev: "vme_prev (ent s2 p) = last (hdr_of m s2 # as')" by (rule entries_prev [OF map_okD(1) [OF s2(2)]])
    have last_in: "last (hdr_of m s2 # as') \<in> set (hdr_of m s2 # as')" by (rule last_in_set) simp
    then have s3: "map_ok m s3 (as' @ p # bs)" "map_frame m s2 s3" "\<And>ys. regions s3 ys = regions s2 ys" "vs_zone s3 \<noteq> []" "hint (vs_maps s3 m) \<in> set (hdr_of m s3 # as')"
      using s2(2,5) z l(5) map_frame_hint by (auto simp: s3_def SAVE_HINT_def intro!: map_ok_hint [unfolded SAVE_HINT_def])
    have lo: "regions_ok start (vm_map_max m s3) (regions s3 (p # bs))" "regions_ok (vm_map_min m s3) start (regions s3 as')"
      using map_okD(2) [OF s3(1)] s2(3) by (auto simp: regions_def regions_ok_append s3_def SAVE_HINT_def)
    have same: "mapped (regions s3 (as' @ p # bs)) = mapped (regions s xs)" using s2(4) l(6) found(1) s3(3) by simp
    have rem: "\<forall>q \<in> set (p # bs). vme_start (ent s3 q) < fin \<longrightarrow> removable (ent s3 q)"
      using r same by (intro range_removable [OF s3(1) lo(1)]) simp
    from delete_loop_exact [OF s3(1) lo al(2) s3(4,5) rem, of env flags "- 1"] obtain s' xs' where
      s': "delete_loop env m fin flags False p False (- 1) s3 = Some (KERN_SUCCESS, s')" "map_ok m s' xs'" "map_frame m s3 s'"
        "\<forall>a. mapped (regions s' xs') a = (if start \<le> a \<and> a < fin then None else mapped (regions s3 (as' @ p # bs)) a)" by auto
    have "vm_map_delete env m start fin flags s = Some (KERN_SUCCESS, s')"
      using l(1) found(3) s2(1) s'(1) prev by (simp add: vm_map_delete_def s3_def del: last.simps)
    with s' same map_frame_trans [OF map_frame_trans [OF map_frame_trans [OF l(3) s2(6)] s3(2)] s'(3)] show ?thesis by auto
  next
    case (hole as bs)
    have ok1: "map_ok m s1 (as @ bs)" using l(2) hole(1) by simp
    note d = map_okD [OF ok1]
    define lo where "lo = (if as = [] then vm_map_min m s1 else vme_end (ent s1 (last as)))"
    have lo: "regions_ok lo (vm_map_max m s1) (regions s1 bs)" "regions_ok (vm_map_min m s1) lo (regions s1 as)"
      using d(2) by (cases as rule: rev_cases; simp add: lo_def regions_def regions_ok_append)+
    have none: "mapped (regions s xs) a = None" if "lo \<le> a" "a \<le> start" for a
    proof -
      have "\<not> has_address a (ent s q)" if "q \<in> set as" for q
        using regions_ok_bounds [OF lo(2), of "cores s1 q"] \<open>lo \<le> a\<close> that l(4) by (auto simp: regions_def has_address_def)
      moreover have "\<not> has_address a (ent s q)" if "q \<in> set bs" for q using hole(3) [OF that] \<open>a \<le> start\<close> by (auto simp: has_address_def)
      ultimately show ?thesis using hole(1) by (auto simp: mapped_None_iff regions_def cores_def)
    qed
    have le: "lo \<le> start \<or> as = []" using hole(2) [of "last as"] l(4) by (auto simp: lo_def)
    have first: "vme_next (ent s1 (last (hdr_of m s1 # as))) = hd (bs @ [hdr_of m s1])"
      using entries_next [of m s1 "butlast as" "last as" bs] entries_first [of m s1 "as @ bs"] d(1) by (cases as rule: rev_cases) auto
    have hint: "hint (vs_maps s1 m) \<in> set (hdr_of m s1 # as)"
      using lookup_hint [of m start s "last (hdr_of m s # as)" s1] l(1) hole(4) fr(1) last_in_set [of "hdr_of m s # as"] by simp
    have rem: "\<forall>q \<in> set bs. vme_start (ent s1 q) < fin \<longrightarrow> removable (ent s1 q)"
    proof (rule range_removable [OF ok1 lo(1)])
      fix a v assume a: "lo \<le> a" "a < fin" "mapped (regions s1 (as @ bs)) a = Some v"
      with none [of a] l(6) hole(1) have "start \<le> a" by (metis linear option.distinct(1))
      with a r l(6) hole(1) show "removable v" by simp
    qed
    have z1: "vs_zone s1 \<noteq> []" using z l(5) by auto
    from delete_loop_exact [OF ok1 lo al(2) z1 hint rem, of env flags "- 1"] obtain s' xs' where
      s': "delete_loop env m fin flags False (hd (bs @ [hdr_of m s1])) False (- 1) s1 = Some (KERN_SUCCESS, s')" "map_ok m s' xs'" "map_frame m s1 s'"
        "\<forall>a. mapped (regions s' xs') a = (if lo \<le> a \<and> a < fin then None else mapped (regions s1 (as @ bs)) a)" by blast
    have "vm_map_delete env m start fin flags s = Some (KERN_SUCCESS, s')"
      using l(1) hole(4) s'(1) first fr(1) by (simp add: vm_map_delete_def del: last.simps)
    moreover have "mapped (regions s' xs') a = (if start \<le> a \<and> a < fin then None else mapped (regions s xs) a)" for a
    proof -
      have "mapped (regions s xs) a = None" if "a < lo" "start \<le> a"
        using le that mapped_outside [OF map_okD(2) [OF ok], of a] fr(7) by (auto simp: lo_def)
      then show ?thesis using s'(4) none [of a] l(6) hole(1) by (cases "lo \<le> a"; cases "start \<le> a") auto
    qed
    ultimately show ?thesis using s'(2) map_frame_trans [OF l(3) s'(3)] by blast
  qed
qed

text \<open>
  C11: \<open>vm_map_remove\<close> unmaps exactly its range. On a well-formed unlocked map, when no entry of the
  range is wired or in transition, the call succeeds for every page-aligned pair of addresses, also
  for ones outside of the map or in the wrong order; afterwards no address of the range is mapped,
  every other address sees what it saw before, and the map is unlocked.
\<close>

theorem vm_map_remove_exact:
  assumes ok: "map_ok m s xs" "map_lock (vs_maps s m) = Unlocked" "2 \<le> length (vs_zone s)"
    and range: "page_aligned start" "page_aligned fin"
    and still: "\<And>a v. start \<le> a \<Longrightarrow> a < fin \<Longrightarrow> mapped (regions s xs) a = Some v \<Longrightarrow> \<not> in_transition v \<and> wired_count v = 0"
  shows "\<exists>s' xs'. vm_map_remove env m start fin flags s = Some (KERN_SUCCESS, s') \<and> map_ok m s' xs' \<and> map_lock (vs_maps s' m) = Unlocked \<and>
    (\<forall>a. mapped (regions s' xs') a = (if start \<le> a \<and> a < fin then None else mapped (regions s xs) a))"
proof -
  from lock_ok [OF ok(1,2)] obtain s1 where
    s1: "vm_map_lock m s = Some s1" "map_ok m s1 xs" "map_lock (vs_maps s1 m) = WriteLocked" "vs_zone s1 = vs_zone s"
      "vm_map_min m s1 = vm_map_min m s" "vm_map_max m s1 = vm_map_max m s" "\<forall>ys. regions s1 ys = regions s ys" by (elim exE conjE) (rule that; assumption)
  obtain st fn where check: "VM_MAP_RANGE_CHECK m s1 start fin = (st, fn)" by (cases "VM_MAP_RANGE_CHECK m s1 start fin")
  then have c: "fn = (if vm_map_max m s1 < fin then vm_map_max m s1 else fin)"
    "st = (if fn < (if start < vm_map_min m s1 then vm_map_min m s1 else start) then fn else if start < vm_map_min m s1 then vm_map_min m s1 else start)"
    by (auto simp: VM_MAP_RANGE_CHECK_def Let_def)
  have al: "page_aligned st" "page_aligned fn" using range map_okD(8) [OF s1(2), of "hdr_of m s1"] by (auto simp: c)
  have inside: "st \<le> a \<and> a < fn \<longleftrightarrow> start \<le> a \<and> a < fin" if "vm_map_min m s1 \<le> a" "a < vm_map_max m s1" for a
    using that by (auto simp: c split: if_splits)
  have out: "mapped (regions s xs) a = None" if "\<not> (vm_map_min m s1 \<le> a \<and> a < vm_map_max m s1)" for a
    using mapped_outside [OF map_okD(2) [OF s1(2)], of a] s1(7) that by (auto simp: not_le not_less)
  have rem: "removable v" if "st \<le> a" "a < fn" "mapped (regions s1 xs) a = Some v" for a v
    using that still [of a v] inside [of a] out [of a] s1(7) by (auto simp: removable_def)
  have "2 \<le> length (vs_zone s1)" using ok(3) s1(4) by simp
  have "\<exists>s2 xs2. vm_map_delete env m st fn flags s1 = Some (KERN_SUCCESS, s2) \<and> map_ok m s2 xs2 \<and> map_frame m s1 s2 \<and>
      (\<forall>a. mapped (regions s2 xs2) a = (if st \<le> a \<and> a < fn then None else mapped (regions s1 xs) a))"
    by (rule delete_exact [OF s1(2) al \<open>2 \<le> length (vs_zone s1)\<close>]) (rule rem)
  then obtain s2 xs2 where
    s2: "vm_map_delete env m st fn flags s1 = Some (KERN_SUCCESS, s2)" "map_ok m s2 xs2" "map_frame m s1 s2"
      "\<forall>a. mapped (regions s2 xs2) a = (if st \<le> a \<and> a < fn then None else mapped (regions s1 xs) a)" by blast
  have "map_lock (vs_maps s2 m) = WriteLocked" using s1(3) map_frameD(2) [OF s2(3)] by simp
  from unlock_ok [OF s2(2) this] obtain s3 where
    s3: "vm_map_unlock m s2 = Some s3" "map_ok m s3 xs2" "map_lock (vs_maps s3 m) = Unlocked" "\<forall>ys. regions s3 ys = regions s2 ys" by blast
  have "mapped (regions s3 xs2) a = (if start \<le> a \<and> a < fin then None else mapped (regions s xs) a)" for a
    using s2(4) s3(4) s1(7) inside [of a] out [of a] by (cases "vm_map_min m s1 \<le> a \<and> a < vm_map_max m s1") auto
  moreover have "vm_map_remove env m start fin flags s = Some (KERN_SUCCESS, s3)" using s1(1) check s2(1) s3(1) by (simp add: vm_map_remove_def)
  ultimately show ?thesis using s3(2,3) by blast
qed


section \<open>Lookup\<close>

text \<open>
  C23: \<open>vm_map_lookup_entry\<close> depends on the contents of the map only, not on the hint from which it
  starts: it finds the entry of the address exactly when the address is mapped, otherwise it returns
  the last entry below the address, the header when there is none; only the hint of the map changes.
\<close>

theorem vm_map_lookup_entry_exact:
  assumes "map_ok m s xs"
  shows "\<exists>found p s'. vm_map_lookup_entry m a s = Some (found, p, s') \<and> map_ok m s' xs \<and> vs_heap s' = vs_heap s \<and>
    (found \<longleftrightarrow> mapped (regions s xs) a \<noteq> None) \<and>
    (if found then p \<in> set xs \<and> vme_start (ent s p) \<le> a \<and> a < vme_end (ent s p)
     else \<exists>as bs. xs = as @ bs \<and> p = last (map_links (vs_maps s m) # as) \<and>
       (\<forall>q \<in> set as. vme_end (ent s q) \<le> a) \<and> (\<forall>q \<in> set bs. a < vme_start (ent s q)))"
proof -
  from lookup_ok [OF assms, of a] obtain s1 where
    l: "vm_map_lookup_entry m a s = Some (fst (lookup_spec m s xs a), snd (lookup_spec m s xs a), s1)" "map_ok m s1 xs" "vs_heap s1 = vs_heap s" by blast
  show ?thesis using map_okD(2) [OF assms]
  proof (cases rule: lookup_spec_cases [where a = a and m = m])
    case (found as p bs)
    have "mapped (regions s xs) a \<noteq> None" using found(1,2) by (auto simp: mapped_None_iff regions_def cores_def)
    with l found show ?thesis by (intro exI [of _ True] exI [of _ p] exI [of _ s1]) (simp add: has_address_def)
  next
    case (hole as bs)
    have "\<not> has_address a (ent s q)" if "q \<in> set xs" for q using hole(1) hole(2,3) [of q] that by (auto simp: has_address_def)
    then have none: "mapped (regions s xs) a = None" by (auto simp: mapped_None_iff regions_def cores_def)
    have "\<exists>us ws. xs = us @ ws \<and> last (hdr_of m s # as) = last (hdr_of m s # us) \<and> (\<forall>q \<in> set us. vme_end (ent s q) \<le> a) \<and> (\<forall>q \<in> set ws. a < vme_start (ent s q))"
      using hole(1-3) by blast
    with l hole(4) none show ?thesis by (intro exI [of _ False] exI [of _ "last (hdr_of m s # as)"] exI [of _ s1]) (simp del: last.simps)
  qed
qed


section \<open>The lock after a failed search\<close>

text \<open>
  C40: a search of \<open>vm_map_enter\<close> that wraps around keeps the lock. When the address lies above every
  entry and rounding it up to the mask wraps around, the call returns \<open>KERN_NO_SPACE\<close> with the map
  still locked for writing, unlike all of its other error returns: nobody can lock the map again.
\<close>

theorem vm_map_enter_keeps_lock:
  assumes ok: "map_ok m s xs" "map_lock (vs_maps s m) = Unlocked"
    and address: "vm_map_min m s \<le> address" "address \<le> vm_map_max m s" "\<And>q. q \<in> set xs \<Longrightarrow> vme_end (ent s q) \<le> address"
    and wraps: "(address + msk) AND NOT msk < address"
  shows "\<exists>s'. vm_map_enter env m address size' msk True object offset copy cp mp inh s = Some (KERN_NO_SPACE, address, s') \<and>
    map_lock (vs_maps s' m) = WriteLocked \<and> vm_map_lock m s' = None"
proof -
  from lock_ok [OF ok(1,2)] obtain s0 where
    s0: "vm_map_lock m s = Some s0" "map_ok m s0 xs" "map_lock (vs_maps s0 m) = WriteLocked" "vs_heap s0 = vs_heap s"
      "vm_map_min m s0 = vm_map_min m s" "vm_map_max m s0 = vm_map_max m s" by (elim exE conjE) (rule that; assumption)
  note d = map_okD [OF s0(2)]
  have start: "(if address < vm_map_min m s0 then vm_map_min m s0 else address) = address" "\<not> vm_map_max m s0 < address" using address(1,2) s0(5,6) by auto
  have "\<exists>p s1. gap_start m address s0 = Some (p, address, s1) \<and> map_frame m s0 s1"
  proof (cases "address = vm_map_min m s0")
    case True
    have "xs = []"
    proof (rule ccontr)
      assume "xs \<noteq> []"
      then have "hd xs \<in> set xs" by simp
      then have "vm_map_min m s0 < vme_end (ent s0 (hd xs))" using regions_ok_bounds [OF d(2), of "cores s0 (hd xs)"] by (auto simp: regions_def)
      with address(3) [OF \<open>hd xs \<in> set xs\<close>] True s0(4) show False by simp
    qed
    then have "first_free (vs_maps s0 m) = hdr_of m s0" using s0(2) by (simp add: map_ok_def)
    with True show ?thesis by (simp add: gap_start_def Let_def)
  next
    case False
    from lookup_ok [OF s0(2), of address] obtain s1 where
      l: "vm_map_lookup_entry m address s0 = Some (fst (lookup_spec m s0 xs address), snd (lookup_spec m s0 xs address), s1)" "map_frame m s0 s1" by blast
    show ?thesis using d(2)
    proof (cases rule: lookup_spec_cases [where a = address and m = m])
      case (found as p bs)
      then have "vme_end (ent s0 p) \<le> address" using address(3) [of p] s0(4) by simp
      with found(2) show ?thesis by (auto simp: has_address_def)
    next
      case (hole as bs)
      with l False show ?thesis by (auto simp: gap_start_def)
    qed
  qed
  then obtain p s1 where s1: "gap_start m address s0 = Some (p, address, s1)" "map_frame m s0 s1" by blast
  have "find_gap s1 (vm_map_to_entry m s1) size' msk p address = Some GapWraps" using wraps by (subst find_gap.simps) (simp add: Let_def)
  then have "vm_map_enter env m address size' msk True object offset copy cp mp inh s = Some (KERN_NO_SPACE, address, s1)"
    unfolding vm_map_enter.simps [of env m address size' msk True object offset copy cp mp inh s] s0(1) bind.bind_lunit Let_def start(1) using start(2) s1(1) by simp
  moreover have "map_lock (vs_maps s1 m) = WriteLocked" using s0(3) map_frameD(2) [OF s1(2)] by simp
  ultimately show ?thesis by (simp add: vm_map_lock_def)
qed


section \<open>Examples\<close>

lemma vm_map_create_ok:
  assumes "page_aligned mn" "page_aligned mx" "mn \<le> mx" "links \<notin> set (vs_zone s)" "distinct (vs_zone s)"
  shows "map_ok m (vm_map_create m links pmap mn mx pageable s) []" "map_lock (vs_maps (vm_map_create m links pmap mn mx pageable s) m) = Unlocked"
  using assms by (simp_all add: map_ok_def map_inv_def vm_map_create_def entries_def regions_def)

definition no_entry :: vm_map_entry where
  "no_entry = \<lparr>vme_prev = 0, vme_next = 0, vme_start = 0, vme_end = 0, vme_object = 0, vme_offset = 0, is_shared = False, is_sub_map = False, in_transition = False,
     needs_wakeup = False, behavior = 0, needs_copy = False, protection = 0, max_protection = 0, inheritance = 0, wired_count = 0, user_wired_count = 0\<rparr>"

definition no_map :: vm_map where
  "no_map = \<lparr>map_links = 0, nentries = 0, entries_pageable = False, map_pmap = 0, map_size = 0, ref_count = 0, hint = 0, first_free = 0, wait_for_space = False,
     wiring_required = False, no_zero_fill = False, timestamp = 0, map_lock = Unlocked\<rparr>"

definition empty_task :: vm_state where
  "empty_task = vm_map_create 1 100 7 0x1000 0xC0000000 True \<lparr>vs_maps = (\<lambda>_. no_map), vs_heap = (\<lambda>_. no_entry), vs_zone = [300, 400, 500], vs_log = []\<rparr>"

definition one_region :: vm_state where
  "one_region = upd_ent 100 (\<lambda>e. e\<lparr>vme_next := 200, vme_prev := 200\<rparr>)
     (upd_ent 200 (\<lambda>e. e\<lparr>vme_next := 100, vme_prev := 100, vme_start := 0x1000, vme_end := 0x3000, vme_object := 9, protection := 3, max_protection := 7, inheritance := 1\<rparr>)
       (upd_map 1 (\<lambda>mp. mp\<lparr>nentries := 1, map_size := 0x2000, first_free := 200\<rparr>) empty_task))"

lemma empty_task_ok: "map_ok 1 empty_task []" "map_lock (vs_maps empty_task 1) = Unlocked" "vm_map_min 1 empty_task = 0x1000" "vm_map_max 1 empty_task = 0xC0000000"
  unfolding empty_task_def
  by (intro vm_map_create_ok; simp add: page_aligned_def PAGE_MASK_def PAGE_SIZE_def) (simp_all add: vm_map_create_def)

lemma one_region_ok: "map_ok 1 one_region [200]" "map_lock (vs_maps one_region 1) = Unlocked" "vs_zone one_region = [300, 400, 500]"
    "\<not> wait_for_space (vs_maps one_region 1)" "\<not> wiring_required (vs_maps one_region 1)"
  by (simp_all add: one_region_def empty_task_def vm_map_create_def map_ok_def map_inv_def entries_def regions_def page_aligned_def PAGE_MASK_def PAGE_SIZE_def no_entry_def no_map_def)


lemma one_region_mapped: "mapped (regions one_region [200]) a =
    (if 0x1000 \<le> a \<and> a < 0x3000 then Some (no_entry\<lparr>vme_object := 9, protection := 3, max_protection := 7, inheritance := 1, vme_offset := a - 0x1000\<rparr>) else None)"
  by (simp add: one_region_def empty_task_def vm_map_create_def regions_def mapped_Cons has_address_def cores_def region_view_def no_entry_def core_def)

lemma example_pages: "page_aligned 0" "page_aligned 0x1000" "page_aligned 0x2000" "page_aligned 0x4000"
  by (simp_all add: page_aligned_def PAGE_MASK_def PAGE_SIZE_def)

theorem vm_map_lookup_entry_exact_witness:
  "\<exists>p s'. vm_map_lookup_entry 1 0x1800 one_region = Some (True, p, s') \<and> p = 200"
proof -
  obtain found p s' where "vm_map_lookup_entry 1 0x1800 one_region = Some (found, p, s')" "found \<longleftrightarrow> mapped (regions one_region [200]) 0x1800 \<noteq> None"
    "if found then p \<in> set [200] \<and> vme_start (ent one_region p) \<le> 0x1800 \<and> 0x1800 < vme_end (ent one_region p)
     else \<exists>as bs. [200] = as @ bs \<and> p = last (map_links (vs_maps one_region 1) # as) \<and>
       (\<forall>q \<in> set as. vme_end (ent one_region q) \<le> 0x1800) \<and> (\<forall>q \<in> set bs. 0x1800 < vme_start (ent one_region q))"
    using vm_map_lookup_entry_exact [OF one_region_ok(1), of "0x1800"] by (elim exE conjE) (rule that; assumption)
  then show ?thesis by (simp add: one_region_mapped)
qed

theorem vm_map_protect_exact_witness:
  "\<exists>s' xs'. vm_map_protect 1 0x1000 0x2000 1 False one_region = Some (KERN_SUCCESS, s') \<and> map_ok 1 s' xs' \<and>
    map_option protection (mapped (regions s' xs') 0x1000) = Some 1 \<and> map_option protection (mapped (regions s' xs') 0x2000) = Some 3"
proof -
  have "2 \<le> length (vs_zone one_region)" "(0x1000 :: 32 word) < 0x2000" by (simp_all add: one_region_ok(3))
  from vm_map_protect_exact [OF one_region_ok(1,2) this example_pages(2,3), of 1 False] obtain kr s' xs' where
    r: "vm_map_protect 1 0x1000 0x2000 1 False one_region = Some (kr, s')" "map_ok 1 s' xs'"
      "kr = KERN_SUCCESS \<longleftrightarrow> (\<forall>a. 0x1000 \<le> a \<and> a < 0x2000 \<longrightarrow> allows 1 (mapped (regions one_region [200]) a))"
      "\<forall>a. mapped (regions s' xs') a = (if kr = KERN_SUCCESS \<and> 0x1000 \<le> a \<and> a < 0x2000
        then map_option (new_protection 1 False) (mapped (regions one_region [200]) a) else mapped (regions one_region [200]) a)"
    by (elim exE conjE) (rule that; assumption)
  have below: "a < 0x3000" if "a < (0x2000 :: 32 word)" for a using that by (rule less_trans) simp
  have "kr = KERN_SUCCESS" unfolding r(3) using below by (simp add: one_region_mapped allows_def no_entry_def)
  with r(1,2,4) show ?thesis by (intro exI [of _ s'] exI [of _ xs']) (simp add: one_region_mapped new_protection_def)
qed

definition idle_env :: vm_env where
  "idle_env = \<lparr>object_coalesce = (\<lambda>_ _ _ _ _. False), object_shadow = (\<lambda>object offset _ _. (object, offset)), object_allocate = (\<lambda>_ _. 8), object_unused = (\<lambda>_ _. False),
     submap_object = 5, kernel_object = 6, fault_wire = (\<lambda>_ _ s. (KERN_SUCCESS, s)), fault_unwire = (\<lambda>_ _ s. s), thread_sleep = (\<lambda>s. (False, s)),
     lock_upgrade = (\<lambda>s. (True, s))\<rparr>"

theorem vm_map_remove_exact_witness:
  "\<exists>s' xs'. vm_map_remove idle_env 1 0x2000 0x4000 0 one_region = Some (KERN_SUCCESS, s') \<and> map_ok 1 s' xs' \<and>
    mapped (regions s' xs') 0x2000 = None \<and> mapped (regions s' xs') 0x1000 \<noteq> None"
proof -
  have "2 \<le> length (vs_zone one_region)" by (simp add: one_region_ok(3))
  moreover have "\<not> in_transition v \<and> wired_count v = 0" if "mapped (regions one_region [200]) a = Some v" for a v
    using that by (auto simp: one_region_mapped no_entry_def split: if_splits)
  ultimately have "\<exists>s' xs'. vm_map_remove idle_env 1 0x2000 0x4000 0 one_region = Some (KERN_SUCCESS, s') \<and> map_ok 1 s' xs' \<and> map_lock (vs_maps s' 1) = Unlocked \<and>
      (\<forall>a. mapped (regions s' xs') a = (if 0x2000 \<le> a \<and> a < 0x4000 then None else mapped (regions one_region [200]) a))"
    by (intro vm_map_remove_exact [OF one_region_ok(1,2) _ example_pages(3,4)])
  then obtain s' xs' where
    "vm_map_remove idle_env 1 0x2000 0x4000 0 one_region = Some (KERN_SUCCESS, s')" "map_ok 1 s' xs'"
      "\<forall>a. mapped (regions s' xs') a = (if 0x2000 \<le> a \<and> a < 0x4000 then None else mapped (regions one_region [200]) a)" by blast
  then show ?thesis by (intro exI [of _ s'] exI [of _ xs']) (simp add: one_region_mapped)
qed

theorem vm_map_enter_first_fit_witness:
  "\<exists>a s' xs'. vm_map_enter idle_env 1 0 0x1000 (mask 12) True 9 0 False 3 7 1 one_region = Some (KERN_SUCCESS, a, s') \<and> map_ok 1 s' xs' \<and> a = 0x3000"
proof -
  have hdr: "vm_map_min 1 one_region = 0x1000" "vm_map_max 1 one_region = 0xC0000000"
    by (simp_all add: one_region_def empty_task_def vm_map_create_def)
  have fit: "fits 1 one_region [200] 0x1000 (mask 12) 0x3000" unfolding fits_def hdr
    by (auto simp: one_region_mapped mask_eq_exp_minus_1)
  have least: "0x3000 \<le> b" if "fits 1 one_region [200] 0x1000 (mask 12) b" for b
    using that fits_unmapped [OF that] unfolding fits_def hdr by (auto simp: one_region_mapped not_le split: if_splits)
  from vm_map_enter_first_fit [OF one_region_ok(1,2,4,5) _ example_pages(1) _ example_pages(2), of "mask 12" 12 idle_env 9 0 False 3 7 1] one_region_ok(3)
  obtain kr a s' xs' where
    r: "vm_map_enter idle_env 1 0 0x1000 (mask 12) True 9 0 False 3 7 1 one_region = Some (kr, a, s')" "map_ok 1 s' xs'"
      "if \<exists>b. 0 \<le> b \<and> fits 1 one_region [200] 0x1000 (mask 12) b
     then kr = KERN_SUCCESS \<and> map_lock (vs_maps s' 1) = Unlocked \<and> 0 \<le> a \<and> fits 1 one_region [200] 0x1000 (mask 12) a \<and>
       (\<forall>b. 0 \<le> b \<and> fits 1 one_region [200] 0x1000 (mask 12) b \<longrightarrow> a \<le> b) \<and>
       (\<forall>b. if a \<le> b \<and> b < a + 0x1000 then \<exists>v. mapped (regions s' xs') b = Some v \<and> entered 9 0 False 3 7 1 a b v
            else mapped (regions s' xs') b = mapped (regions one_region [200]) b)
     else kr = KERN_NO_SPACE \<and> mapped (regions s' xs') = mapped (regions one_region [200])" by (simp del: split_paired_Ex) blast
  have ex: "\<exists>b. 0 \<le> b \<and> fits 1 one_region [200] 0x1000 (mask 12) b" using fit by auto
  have "kr = KERN_SUCCESS" "fits 1 one_region [200] 0x1000 (mask 12) a" "a \<le> 0x3000" using r(3) fit unfolding if_P [OF ex] by auto
  with least r(1,2) show ?thesis by (intro exI [of _ a] exI [of _ s'] exI [of _ xs']) (simp add: antisym)
qed

theorem vm_map_enter_keeps_lock_witness:
  "\<exists>s'. vm_map_enter idle_env 1 0x90000000 0x1000 0x7FFFFFFF True 9 0 False 3 7 1 empty_task = Some (KERN_NO_SPACE, 0x90000000, s') \<and>
    map_lock (vs_maps s' 1) = WriteLocked \<and> vm_map_lock 1 s' = None"
  by (rule vm_map_enter_keeps_lock [OF empty_task_ok(1,2)]) (simp_all add: empty_task_ok(3,4) [simplified])

end
