(* ===== verification/Spec2Isabelle.thy ===== *)
theory Spec2Isabelle
  imports Ipc_Table_Fill Mach_Port_Correct Ipc_Mqueue_Correct Ipc_Notify Ipc_Kmsg_Correct Cirbuf Vm_Map_Remove
begin

text \<open>
  The OSF Mach kernel 7.3 (directory \<open>osfmk7.3/osfmk/src/mach_kernel\<close>; the same files are under
  \<open>osfmk/src\<close>): its capability and message system (\<open>ipc\<close>), its address maps (\<open>vm/vm_map.c\<close>) and its terminal
  buffers (\<open>device/cirbuf.c\<close>), as functions on explicit states, with the theorems that make them correct.
  The configuration is that of a kernel without distributed IPC (DIPC and NORMA\_VM off) and without the
  task swapper, with port generations and without assertions; an assertion of the code is a hypothesis
  of a theorem here.

  \<^bold>\<open>The system.\<close> A task has a space of port names. A name leads to an entry with a right: a send,
  receive or send-once right to a port, a port set, or a dead name. Entries lie in a table, whose
  free slots form a list, or, for names chosen by the task, in a splay tree; two hash tables lead from
  an object back to the name of the send right for it. Ports count the rights and references to them
  and carry requests for notifications; messages wait in the queue of a port or of its port set, and
  threads wait in queues to receive or to send. The calls of user programs look up names in the space
  (entries), act on the right found there (rights), which acts on the object (ports, port sets,
  queues), which in turn sends notifications. A message carries rights: its header is copied in from the
  space of the sender and copied out into that of the receiver.

  The memory of a task is described by an address map, a sorted circular list of entries with the
  object and the protection of a range of addresses each, with hints for lookups and for free space.
  Calls allocate, protect, wire and remove ranges; entries are split at the bounds of a range and
  merged again. Terminals keep their characters in circular buffers.

  \<^bold>\<open>Theories and sources.\<close>
  \<^item> \<open>Ipc_Prelude\<close>: machine types, return codes (\<open>mach/kern_return.h\<close>) and shared lemmas.
  \<^item> \<open>Ipc_Name\<close>: port names and entry bits (\<open>mach/port.h\<close>, \<open>ipc/port.h\<close>, \<open>ipc/ipc_entry.h\<close>).
  \<^item> \<open>Ipc_Splay\<close>: the splay tree (\<open>ipc/ipc_splay.c\<close>), with the unassembled tree as in the code and the
    traversal by pointer inversion. The locale \<open>name_tree\<close> is its interface; the interpretation \<open>splay\<close>
    shows that the tree is the sorted list of its entries.
  \<^item> \<open>Ipc_Table\<close>, \<open>Ipc_Table_Fill\<close>: the sizes of tables and how they are computed at boot
    (\<open>ipc/ipc_table.c\<close>).
  \<^item> \<open>Ipc_State\<close>: entries and spaces as records (\<open>ipc/ipc_entry.h\<close>, \<open>ipc/ipc_space.h\<close>).
  \<^item> \<open>Ipc_Hash\<close>: the two reverse hash tables (\<open>ipc/ipc_hash.c\<close>); both are instances of the locale
    \<open>reverse_table\<close>.
  \<^item> \<open>Ipc_Entry\<close>, \<open>Ipc_Entry_Correct\<close>, \<open>Ipc_Space\<close>: lookup, allocation, deallocation and growth of a table
    (\<open>ipc/ipc_entry.c\<close>), creation of a space (\<open>ipc/ipc_space.c\<close>), and the invariant \<open>space_ok\<close> of a
    space with the map \<open>rights\<close> from names to rights.
  \<^item> \<open>Ipc_World\<close>: ports, port sets and message queues (\<open>ipc/ipc_port.h\<close>, \<open>ipc/ipc_pset.c\<close>,
    \<open>ipc/ipc_object.h\<close>, and from \<open>ipc/ipc_mqueue.c\<close> the moving of messages).
  \<^item> \<open>Ipc_Port\<close>, \<open>Ipc_Port_Correct\<close>: ports (\<open>ipc/ipc_port.c\<close>): requests, counts of rights, the circularity
    check, destruction.
  \<^item> \<open>Ipc_Right\<close>, \<open>Ipc_Right_Count\<close>, \<open>Ipc_Right_Correct\<close>: rights (\<open>ipc/ipc_right.c\<close>). The locale
    \<open>entry_store\<close> is what the operations need of the entries; rights are counted in it.
  \<^item> \<open>Ipc_Object\<close>: capabilities as the rest of the kernel uses them (\<open>ipc/ipc_object.c\<close>), allocation of ports
    and sets, destruction of a space.
  \<^item> \<open>Ipc_Queue\<close>: the queues of threads and messages as circular lists of pointers (\<open>ipc/ipc_thread.c\<close>,
    \<open>ipc/ipc_thread.h\<close>, and the queues of \<open>ipc/ipc_kmsg.c\<close>, \<open>ipc/ipc_kmsg.h\<close>); both are instances of the
    locale \<open>fifo_queue\<close>, which justifies the lists that the other theories use.
  \<^item> \<open>Ipc_Mqueue\<close>, \<open>Ipc_Mqueue_Correct\<close>: sending and receiving (\<open>ipc/ipc_mqueue.c\<close>).
  \<^item> \<open>Ipc_Notify\<close>: notifications (\<open>ipc/ipc_notify.c\<close>).
  \<^item> \<open>Mach_Port\<close>, \<open>Mach_Port_Correct\<close>: the kernel calls (\<open>ipc/mach_port.c\<close>).
  \<^item> \<open>Ipc_Kmsg\<close>, \<open>Ipc_Kmsg_Correct\<close>: the headers of messages (\<open>ipc/ipc_kmsg.c\<close>): copyin with all pairs of
    dispositions for destination and reply port, copyout, pseudo-receives and cleaning.
  \<^item> \<open>Simulation\<close>, \<open>Cirbuf\<close>: runs of operations against a specification (the locale \<open>simulation\<close>), and the
    circular buffers (\<open>device/cirbuf.c\<close>), an instance of it.
  \<^item> \<open>Vm_Map\<close>: address maps (\<open>vm/vm_map.c\<close>, \<open>vm/vm_map.h\<close>) with their pointers: lookup, allocation, entering,
    clipping, protection, inheritance, behaviour, wiring, deletion, lookup for faults, simplification.
  \<^item> \<open>Vm_Map_Ok\<close>, \<open>Vm_Map_Edit\<close>: the invariant \<open>map_ok\<close> and the function \<open>mapped\<close>, what an address sees; linking,
    unlinking and splitting of entries.
  \<^item> \<open>Vm_Map_Range\<close>, \<open>Vm_Map_Space\<close>, \<open>Vm_Map_Enter\<close>, \<open>Vm_Map_Remove\<close>: setting attributes of a range (the locale
    \<open>entry_update\<close>, with protection, inheritance and behaviour as its instances), the search for free
    space, \<open>vm_map_enter\<close>, \<open>vm_map_remove\<close>, and example maps.

  \<^bold>\<open>State.\<close> A space is the record \<open>ipc_space\<close>; the world is the record \<open>ipc_world\<close> of the ports and port
  sets by address, the global hash table, the clock of port deaths and a log. The log has the calls
  whose effect lies outside of the world: notifications sent, threads made runnable, messages and
  kernel objects destroyed, memory freed; \<open>Ipc_Notify\<close> says what the notifications in the log do. The
  operations on rights act on a world and a space. A pointer is a 32-bit word; a pointer to an entry is
  a slot of the table or a name in the tree. Machine integers are words that wrap around. The locks of
  IPC are not modelled: an operation runs alone, except at the places where it drops its locks.

  Address maps have the state \<open>vm_state\<close>: the maps and the entries by address, the free structures of
  the zone of entries, and a log of the calls of memory objects and physical maps. The lock of a map is
  part of the map, as the running thread holds it, so that a forgotten unlock shows. Terminal buffers act
  on a memory of bytes.

  \<^bold>\<open>Parameters.\<close> \<open>its\<close> and \<open>dnits\<close> are the arrays of table sizes (their content is computed in
  \<open>Ipc_Table_Fill\<close>), \<open>mem\<close>, \<open>ite\<close>, \<open>vm\<close> and \<open>address\<close> the memory that the allocators find, \<open>env\<close> what other
  threads do while an operation has dropped its locks or its thread is blocked, \<open>try\<close> whether a lock is
  got without waiting, \<open>server\<close> the handling of messages by the kernel, \<open>space_kernel\<close> and \<open>self\<close> the space
  of the kernel and the current thread, \<open>body\<close> the descriptors of a message. The record \<open>vm_env\<close> has what
  address maps ask of memory objects, of wiring and of sleeping. Nothing is assumed of them but what a
  theorem states.

  \<^bold>\<open>None and termination.\<close> Loops that need not end are partial functions with the result \<open>None\<close>; \<open>None\<close>
  is also a panic, an access outside of an array or through a pointer to nothing. No fuel is used.
  The theorems show that the operations return under their hypotheses: probing in a hash table ends
  when a slot is free, walks over the free list end when it is a chain of distinct slots, walks over
  ports in transit end when no circle is made, the traversal of the tree ends always, walks over the
  entries of a map end when they form a circle, and an operation that blocks returns when the other
  threads let it.

  \<^bold>\<open>What is shown.\<close>
  \<^item> Trees, hash tables and pointer queues implement their specifications (sorted lists, maps, lists),
    with insertion, deletion, splitting and traversal.
  \<^item> Spaces: lookup is the map of rights; allocation gives fresh names and keeps the invariant; a slot
    is reused under another generation; names of the user's choice go to the slot or to the tree.
  \<^item> Ports: no circles of ports in transit; every no-senders request is notified once, handed back or pending; requests are kept by
    growing and cancelling; the exact effect of destroying a port.
  \<^item> Rights: copyin, copyout and deallocation have exact effects on the entry and keep the counters of a port in
    accord with the rights of the space; the tests of user references are exact at the bounds of the 16-bit field.
  \<^item> Messages: order, sequence numbers, no lost wakeup, exact moves between queues, notifications that
    never block; a refused header changes nothing, and a request reaches the server with exactly the
    rights it carries; and below the composition of names, queues and messages.
  \<^item> Address maps: lookup is independent of the hint; entering is first fit and changes exactly the new
    range; removing unmaps exactly its range; protection is all or nothing; each keeps the invariant, the
    hint for free space included, and leaves the map unlocked.
  \<^item> Terminal buffers are bounded queues.
  \<^item> Faults of the code, each as a theorem: a name that is lost in a new space, a growth of a request
    table that does nothing, a dead name under a name that was not asked for, a sender that stays in
    the queue after it has given up, a wrap-around in the check of the receive buffer, and a map that
    stays locked after a failed allocation.

  \<^bold>\<open>Not modelled.\<close> The copyin and copyout of message bodies (\<open>ipc/ipc_kmsg.c\<close> beyond headers, queues and scatter
  lists) and the traps of \<open>ipc/mach_msg.c\<close>, which move memory of user maps through copy objects;
  debugging and statistics (\<open>ipc/mach_debug.c\<close>, printers, \<open>ipc_hash_info\<close>); \<open>thread_activation_create\<close> in
  \<open>ipc/mach_port.c\<close>, which makes kernel threads; distributed IPC. Of address maps: copy objects, forks
  and remapping, which are about memory objects, and the pre-loading of the physical map, which is
  switched off. Memory objects, faults and pageout; scheduler and locks, allocators, devices,
  machine-dependent code, and the servers, libraries and tools around the kernel.
\<close>

section \<open>From a name to a message\<close>

text \<open>The entry of a receive right, as a lookup finds it.\<close>

lemma mqueue_copyin_receive:
  assumes ok: "space_ok its (snd s) xs" "\<not> is_fast (snd s)" "is_active (snd s)"
    and right: "rights (snd s) name = Some (bits, port, request)" "bits AND MACH_PORT_TYPE_RECEIVE \<noteq> 0"
    and alone: "ip_pset (port_of s port) = IPS_NULL"
  shows "\<exists>space'. ipc_mqueue_copyin name s = Some (MACH_MSG_SUCCESS, Some (PortQueue port, port), ip_reference port (fst s), space') \<and>
    space_ok its space' xs \<and> rights space' = rights (snd s)"
proof -
  from right(1) obtain e where e: "space_map (snd s) name = Some e" "right_of e = (bits, port, request)" by (auto simp: rights_def)
  from entry_lookup_correct [OF ok(1,2), of name] e(1) obtain ref tree where
    l: "ipc_entry_lookup (snd s) name = Some (Some ref, (snd s)\<lparr>is_tree := tree\<rparr>)" "ist_wf tree"
       "ist_inorder tree = ist_inorder (is_tree (snd s))" "get_entry (snd s) ref = Some e"
    by (auto split: option.splits)
  note upd = space_ok_tree_update [OF ok(1) l(2,3)]
  have "get_entry ((snd s)\<lparr>is_tree := tree\<rparr>) ref = Some e" using l(3,4) by (cases ref) (auto split: if_splits)
  moreover have "ie_object e = port" "ie_bits e AND MACH_PORT_TYPE_RECEIVE \<noteq> 0"
    using e(2) right(2) by (auto simp: right_of_def and.assoc ipc_defs)
  ultimately show ?thesis using upd l(1,3) ok(3) alone by (simp add: ipc_mqueue_copyin_def rights_def space_map_def Let_def fun_eq_iff)
qed

text \<open>
  C16: Names, queues and messages work together. In a well-formed space, the name of a receive right
  for a live port that is in no set leads to the queue of the port, with a reference and without any
  change of rights. A message sent to the port below its limit is accepted without blocking, and a
  reception with a buffer that is large enough returns at once the oldest message of the queue with
  the sequence number of the port; then the queue has lost exactly this message, the port counts as
  many messages as before, and its first blocked sender, if there is one, has been woken.
\<close>

theorem send_then_receive:
  assumes ok: "space_ok its (snd s) xs" "\<not> is_fast (snd s)" "is_active (snd s)"
    and right: "rights (snd s) name = Some (bits, port, request)" "bits AND MACH_PORT_TYPE_RECEIVE \<noteq> 0"
    and port: "ip_active (port_of s port)" "ip_pset (port_of s port) = IPS_NULL" "ip_receiver (port_of s port) \<noteq> space_kernel"
      "ip_msgcount (port_of s port) < ip_qlimit (port_of s port)" "receivers (PortQueue port) (fst s) = []"
    and kmsg: "msgh_remote_port kmsg = port" "msgh_bits kmsg AND MACH_MSGH_BITS_CIRCULAR = 0"
    and queued: "\<forall>m \<in> set (messages (PortQueue port) (fst s)). msgh_remote_port m = port"
    and buffer: "REQUESTED_TRAILER_SIZE options' = Some t" "t \<le> max_size"
      "\<forall>m \<in> set (messages (PortQueue port) (fst s) @ [kmsg]). unat (msgh_size m) + unat t \<le> unat max_size"
  shows "\<exists>s1 w2 w3. ipc_mqueue_copyin name s = Some (MACH_MSG_SUCCESS, Some (PortQueue port, port), s1) \<and> rights (snd s1) = rights (snd s) \<and>
    ipc_mqueue_send server space_kernel env self options timeout kmsg (fst s1) = Some (MACH_MSG_SUCCESS, w2) \<and>
    ipc_mqueue_receive env' self' body None (PortQueue port) options' max_size timeout' w2 =
      Some (MACH_MSG_SUCCESS, Some (hd (messages (PortQueue port) (fst s) @ [kmsg]), ip_seqno (port_of s port)), w3) \<and>
    messages (PortQueue port) w3 = tl (messages (PortQueue port) (fst s) @ [kmsg]) \<and>
    ip_seqno (w_ports w3 port) = ip_seqno (port_of s port) + 1 \<and> ip_msgcount (w_ports w3 port) = ip_msgcount (port_of s port) \<and>
    w_log w3 = w_log (fst s) @ map (\<lambda>th. ThreadGo th MACH_MSG_SUCCESS) (take 1 (ip_blocked (port_of s port)))"
proof -
  let ?q = "PortQueue port" and ?w1 = "ip_reference port (fst s)" 
  let ?w2 = "snd (ipc_mqueue_deliver port kmsg ?w1)"
  from mqueue_copyin_receive [OF ok right port(2)] obtain space' where
    c: "ipc_mqueue_copyin name s = Some (MACH_MSG_SUCCESS, Some (?q, port), ?w1, space')" "rights space' = rights (snd s)" by blast
  have send: "ipc_mqueue_send server space_kernel env self options timeout kmsg ?w1 = Some (MACH_MSG_SUCCESS, ?w2)"
    using port kmsg by (subst ipc_mqueue_send.simps, subst send_loop.simps) (simp add: Let_def ip_reference_def)
  obtain m ms where m: "messages ?q (fst s) @ [kmsg] = m # ms" by (cases "messages ?q (fst s) @ [kmsg]") auto
  then have "m \<in> set (messages ?q (fst s) @ [kmsg])" by simp
  then have fits: "msgh_remote_port m = port" "unat (msgh_size m) + unat t \<le> unat max_size" using queued kmsg(1) buffer(3) by auto
  let ?w3 = "receive_unblock port (upd_port port (\<lambda>p. p\<lparr>ip_seqno := ip_seqno p + 1\<rparr>) (upd_mqueue ?q (\<lambda>q. q\<lparr>imq_messages := ms\<rparr>) ?w2))"
  have "\<not> max_size - t < msgh_size m" using fits(2) unat_sub [OF buffer(2)] by (simp add: word_less_nat_alt not_less)
  then have rcv: "ipc_mqueue_receive env' self' body None ?q options' max_size timeout' ?w2 = Some (MACH_MSG_SUCCESS, Some (m, ip_seqno (port_of s port)), ?w3)"
    using m fits(1) port buffer(1)
    by (simp add: ipc_mqueue_receive_def receive_loop.simps receive_first_def ipc_mqueue_finish_receive_def ipc_mqueue_deliver_def
        port_mqueue_def ip_reference_def Let_def)
  have "messages ?q ?w3 = ms \<and> ip_seqno (w_ports ?w3 port) = ip_seqno (port_of s port) + 1 \<and> ip_msgcount (w_ports ?w3 port) = ip_msgcount (port_of s port) \<and>
    w_log ?w3 = w_log (fst s) @ map (\<lambda>th. ThreadGo th MACH_MSG_SUCCESS) (take 1 (ip_blocked (port_of s port)))"
    using port by (cases "ip_blocked (port_of s port)") (simp_all add: receive_unblock_def ipc_mqueue_deliver_def port_mqueue_def ip_reference_def Let_def)
  with c send rcv m show ?thesis by (intro exI [of _ "(?w1, space')"] exI [of _ ?w2] exI [of _ ?w3]) simp
qed

text \<open>The space with the receive right 0x103 for the port 0x40 with two messages; one sender is blocked.\<close>

definition example_receiver :: right_state where
  "example_receiver = (upd_port 0x40 (\<lambda>p. p\<lparr>ip_qlimit := 5, ip_msgcount := 2, ip_blocked := [7]\<rparr>) (fst example_names), snd example_names)"

text \<open>No other thread does anything while a thread waits.\<close>

definition example_wait :: "nat \<Rightarrow> ipc_world \<Rightarrow> wakeup \<times> ipc_world" where
  "example_wait k w = (\<lparr>ith_state = MACH_RCV_IN_PROGRESS, ith_kmsg = example_kmsg, ith_seqno = 0, wait_result = THREAD_TIMED_OUT\<rparr>, w)"

theorem send_then_receive_witness:
  "\<exists>s1 w2 w3. ipc_mqueue_copyin 0x103 example_receiver = Some (MACH_MSG_SUCCESS, Some (PortQueue 0x40, 0x40), s1) \<and>
     ipc_mqueue_send (\<lambda>_ w. (None, w)) 0x2000 example_wait 9 0 0 example_kmsg (fst s1) = Some (MACH_MSG_SUCCESS, w2) \<and>
     ipc_mqueue_receive example_wait 8 (\<lambda>_. []) None (PortQueue 0x40) 0 64 0 w2 =
       Some (MACH_MSG_SUCCESS, Some (\<lparr>ikm_address = 1, msgh_bits = 0, msgh_size = 24, msgh_remote_port = 0x40\<rparr>, 0), w3) \<and>
     w_log w3 = [ThreadGo 7 MACH_MSG_SUCCESS]"
proof -
  let ?p = "port_of example_receiver 0x40" and ?q = "PortQueue 0x40"
  have s: "space_ok example_sizes (snd example_receiver) [3]" "\<not> is_fast (snd example_receiver)" "is_active (snd example_receiver)"
    using example_names_ok by (simp_all add: example_receiver_def example_names_def example_space_def)
  have "rights (snd example_names) 0x103 = Some (MACH_PORT_TYPE_RECEIVE, 0x40, 1)" by code_simp
  then have r: "rights (snd example_receiver) 0x103 = Some (MACH_PORT_TYPE_RECEIVE, 0x40, 1)" "MACH_PORT_TYPE_RECEIVE AND MACH_PORT_TYPE_RECEIVE \<noteq> 0"
    by (simp_all add: example_receiver_def ipc_defs)
  have p: "?p = example_port\<lparr>ip_qlimit := 5, ip_msgcount := 2, ip_blocked := [7]\<rparr>" "w_log (fst example_receiver) = []"
    by (simp_all add: example_receiver_def example_names_def example_world_def)
  have "io_active (ip_bits example_port)" by (simp add: example_port_def)
  then have q: "ip_active ?p" "ip_pset ?p = IPS_NULL" "ip_receiver ?p \<noteq> 0x2000" "ip_msgcount ?p < ip_qlimit ?p" "receivers ?q (fst example_receiver) = []"
    "\<forall>m \<in> set (messages ?q (fst example_receiver)). msgh_remote_port m = 0x40"
    "\<forall>m \<in> set (messages ?q (fst example_receiver) @ [example_kmsg]). unat (msgh_size m) + unat (8 :: natural_t) \<le> unat (64 :: natural_t)"
    "hd (messages ?q (fst example_receiver) @ [example_kmsg]) = \<lparr>ikm_address = 1, msgh_bits = 0, msgh_size = 24, msgh_remote_port = 0x40\<rparr>"
    "ip_seqno ?p = 0" "ip_blocked ?p = [7]"
    by (simp_all add: p example_port_def zero_port_def example_kmsg_def)
  have k: "msgh_remote_port example_kmsg = 0x40" "msgh_bits example_kmsg AND MACH_MSGH_BITS_CIRCULAR = 0" by (simp_all add: example_kmsg_def)
  have t: "REQUESTED_TRAILER_SIZE 0 = Some 8" "(8 :: natural_t) \<le> 64" by (simp_all add: REQUESTED_TRAILER_SIZE_def GET_RCV_ELEMENTS_def trailer_size_def)
  show ?thesis
    using send_then_receive [OF s r q(1-5) k q(6) t q(7), of "\<lambda>_ w. (None, w)" example_wait 9 0 0 example_wait 8 "\<lambda>_. []" 0]
    unfolding q(8-10) p(2) by (elim exE conjE) (intro exI conjI; simp)
qed

end
